(* ===== verification/Prelude.thy ===== *)
theory Prelude
  imports Main "HOL-Library.AList" "HOL-Library.Multiset" "HOL-Library.Word"
begin

text \<open>
  Shared material of the development: the collections of rewrite rules the component proofs
  use, association lists standing for Go maps, generic facts on lists, and the reachability
  predicate over which the state-machine components prove their invariants.
\<close>

section \<open>Rule collections\<close>

named_theorems go_map_simps \<open>rewrite rules for association lists that stand for Go maps\<close>
named_theorems wf_intros \<open>introduction rules for well-formedness invariants\<close>

section \<open>Go values\<close>

text \<open>
  A Go map is an association list with pairwise distinct keys; its length is Go's \<open>len\<close>.
  Where the source ranges over a map, the list order stands for one of the iteration orders
  Go may choose. Instants and durations are integers counting nanoseconds; the zero
  \<open>time.Time\<close> is \<open>None\<close> in an optional instant.
\<close>

type_synonym ('k, 'v) gomap = "('k \<times> 'v) list"
type_synonym instant = int
type_synonym duration = int
type_synonym byte = "8 word"
type_synonym bytes = "8 word list"

abbreviation gget :: "('k, 'v) gomap \<Rightarrow> 'k \<Rightarrow> 'v option" where
  "gget m k \<equiv> map_of m k"

abbreviation gput :: "'k \<Rightarrow> 'v \<Rightarrow> ('k, 'v) gomap \<Rightarrow> ('k, 'v) gomap" where
  "gput k v m \<equiv> AList.update k v m"

abbreviation gdel :: "'k \<Rightarrow> ('k, 'v) gomap \<Rightarrow> ('k, 'v) gomap" where
  "gdel k m \<equiv> AList.delete k m"

definition gkeys :: "('k, 'v) gomap \<Rightarrow> 'k list" where
  "gkeys m = map fst m"

definition gmap_ok :: "('k, 'v) gomap \<Rightarrow> bool" where
  "gmap_ok m \<longleftrightarrow> distinct (map fst m)"

text \<open>Go's integer division truncates towards zero.\<close>

definition go_div :: "int \<Rightarrow> int \<Rightarrow> int" where
  "go_div a b = sgn a * sgn b * (\<bar>a\<bar> div \<bar>b\<bar>)"

definition second :: duration where "second = 1000000000"
definition minute :: duration where "minute = 60 * second"
definition hour :: duration where "hour = 60 * minute"

section \<open>Reachable states\<close>

inductive reach :: "('s \<Rightarrow> bool) \<Rightarrow> ('s \<Rightarrow> 's \<Rightarrow> bool) \<Rightarrow> 's \<Rightarrow> bool"
  for init :: "'s \<Rightarrow> bool" and step :: "'s \<Rightarrow> 's \<Rightarrow> bool" where
  reach_init: "init s \<Longrightarrow> reach init step s"
| reach_step: "reach init step s \<Longrightarrow> step s t \<Longrightarrow> reach init step t"

text \<open>
  The contract every state-machine component meets: its initial states satisfy the invariant
  and every step keeps it. The locale's lemma is the induction over runs, done once.
\<close>

locale invariant_machine =
  fixes init :: "'s \<Rightarrow> bool"
    and step :: "'s \<Rightarrow> 's \<Rightarrow> bool"
    and inv :: "'s \<Rightarrow> bool"
  assumes inv_init: "init s \<Longrightarrow> inv s"
    and inv_step: "inv s \<Longrightarrow> step s t \<Longrightarrow> inv t"
begin

lemma reach_inv: "reach init step s \<Longrightarrow> inv s"
  by (induction rule: reach.induct) (auto intro: inv_init inv_step)

end

section \<open>Refinement of operation sequences\<close>

text \<open>
  A component whose operations may fail to return (\<open>None\<close>) is run over a list of operations;
  its specification is a total function on an abstract state.
\<close>

fun run_ops :: "('op \<Rightarrow> 'c \<Rightarrow> 'c option) \<Rightarrow> 'op list \<Rightarrow> 'c \<Rightarrow> 'c option" where
  "run_ops f [] c = Some c"
| "run_ops f (x # xs) c = (case f x c of None \<Rightarrow> None | Some c' \<Rightarrow> run_ops f xs c')"

text \<open>
  The contract of a functional refinement: under the invariant every operation returns, keeps
  the invariant and acts on the abstraction as the specification says.
\<close>

locale functional_refinement =
  fixes cop :: "'op \<Rightarrow> 'c \<Rightarrow> 'c option"
    and aop :: "'op \<Rightarrow> 'a \<Rightarrow> 'a"
    and inv :: "'c \<Rightarrow> bool"
    and abs :: "'c \<Rightarrow> 'a"
  assumes refines: "inv c \<Longrightarrow> \<exists>c'. cop x c = Some c' \<and> inv c' \<and> abs c' = aop x (abs c)"
begin

lemma run_refines:
  "inv c \<Longrightarrow> \<exists>c'. run_ops cop xs c = Some c' \<and> inv c' \<and> abs c' = fold aop xs (abs c)"
proof (induction xs arbitrary: c)
  case (Cons x xs)
  from refines [OF Cons.prems, of x] obtain c' where
    c': "cop x c = Some c'" "inv c'" "abs c' = aop x (abs c)" by blast
  from Cons.IH [OF c'(2)] c' show ?case by simp
qed simp

end

section \<open>Association lists as Go maps\<close>

lemma gmap_ok_Nil [simp]: "gmap_ok []"
  by (simp add: gmap_ok_def)

lemma gmap_ok_put [simp]: "gmap_ok m \<Longrightarrow> gmap_ok (gput k v m)"
  by (simp add: gmap_ok_def distinct_update)

lemma gmap_ok_del [simp]: "gmap_ok m \<Longrightarrow> gmap_ok (gdel k m)"
  by (simp add: gmap_ok_def distinct_delete)

lemma gget_put [go_map_simps, simp]: "gget (gput k v m) k' = (if k' = k then Some v else gget m k')"
  by (simp add: update_conv')

lemma gget_del [go_map_simps, simp]: "gget (gdel k m) k' = (if k' = k then None else gget m k')"
  by (simp add: delete_conv')

lemma gget_mem: "gmap_ok m \<Longrightarrow> gget m k = Some v \<longleftrightarrow> (k, v) \<in> set m"
  by (auto simp: gmap_ok_def dest: map_of_SomeD)

lemma length_gput:
  "length (gput k v m) = (if k \<in> set (map fst m) then length m else Suc (length m))"
  by (induction m) auto

lemma length_gdel_le: "length (gdel k m) \<le> length m"
  by (simp add: AList.delete_eq)

lemma length_gdel_absent: "k \<notin> fst ` set m \<Longrightarrow> length (gdel k m) = length m"
  by (induction m) (auto simp: AList.delete_eq)

lemma length_gdel_present:
  "gmap_ok m \<Longrightarrow> gget m k = Some v \<Longrightarrow> Suc (length (gdel k m)) = length m"
proof (induction m)
  case (Cons a m)
  show ?case
  proof (cases "fst a = k")
    case True
    with Cons.prems(1) have "k \<notin> fst ` set m"
      by (auto simp: gmap_ok_def)
    then have "length (gdel k m) = length m"
      by (rule length_gdel_absent)
    with True show ?thesis
      by (cases a) (simp add: AList.delete_eq)
  next
    case False
    then have "Suc (length (gdel k m)) = length m"
      using Cons by (cases a) (auto simp: gmap_ok_def)
    with False show ?thesis
      by (cases a) (simp add: AList.delete_eq)
  qed
qed simp

lemma gput_absent_length: "gget m k = None \<Longrightarrow> length (gput k v m) = Suc (length m)"
  by (simp add: length_gput map_of_eq_None_iff)

lemma gput_set_absent: "gget m k = None \<Longrightarrow> set (gput k v m) = insert (k, v) (set m)"
  by (induction m) (auto split: if_splits)

section \<open>Lists\<close>

lemma filter_neq_length:
  "distinct xs \<Longrightarrow> x \<in> set xs \<Longrightarrow> Suc (length (filter (\<lambda>y. y \<noteq> x) xs)) = length xs"
proof (induction xs)
  case (Cons a xs)
  show ?case
  proof (cases "a = x")
    case True
    with Cons.prems have "\<forall>y \<in> set xs. y \<noteq> x" by auto
    then have "filter (\<lambda>y. y \<noteq> x) xs = xs" by simp
    with True show ?thesis by simp
  next
    case False
    with Cons show ?thesis by simp
  qed
qed simp

lemma filter_neq_last:
  "distinct xs \<Longrightarrow> xs \<noteq> [] \<Longrightarrow> filter (\<lambda>y. y \<noteq> last xs) xs = butlast xs"
proof (induction xs rule: rev_induct)
  case (snoc x xs)
  then have "\<forall>y \<in> set xs. y \<noteq> x" by auto
  then show ?case by simp
qed simp

lemma sum_list_butlast:
  fixes f :: "'a \<Rightarrow> int"
  shows "xs \<noteq> [] \<Longrightarrow> sum_list (map f (butlast xs)) = sum_list (map f xs) - f (last xs)"
  by (induction xs rule: rev_induct) auto

lemma sum_list_filter_neq:
  fixes f :: "'a \<Rightarrow> int"
  shows "distinct xs \<Longrightarrow> x \<in> set xs \<Longrightarrow>
    sum_list (map f (filter (\<lambda>y. y \<noteq> x) xs)) = sum_list (map f xs) - f x"
proof (induction xs)
  case (Cons a xs)
  show ?case
  proof (cases "a = x")
    case True
    with Cons.prems have "\<forall>y \<in> set xs. y \<noteq> x" by auto
    then have "filter (\<lambda>y. y \<noteq> x) xs = xs" by simp
    with True show ?thesis by simp
  next
    case False
    with Cons show ?thesis by simp
  qed
qed simp

lemma find_SomeD: "find P xs = Some x \<Longrightarrow> x \<in> set xs \<and> P x"
  by (auto simp: find_Some_iff)

lemma take_Suc_last: "xs \<noteq> [] \<Longrightarrow> butlast xs = take (length xs - 1) xs"
  by (simp add: butlast_conv_take)

end
