(* ===== verification/LruCache.thy ===== *)
theory LruCache
  imports Prelude
begin

text \<open>
  The bounded LRU layer of \<open>engine/cache/cache.go\<close>. The Go code keeps a doubly linked
  \<open>container/list\<close> of entry pointers and a map from keys to list elements. The model keeps
  the same two structures over an explicit store of entries: an element is an address, the
  list is a sequence of addresses from front (newest) to back (oldest), and the map sends
  keys to addresses. The invariant ties the three together; the refinement lemmas show that
  every operation acts on the list of live entries as a plain recency list does.
\<close>

section \<open>Data\<close>

record 'v lru_entry =
  e_key :: string
  e_value :: 'v
  e_weight :: int
  e_version :: "64 word"
  e_expiresAt :: "instant option"

record 'v lru_options =
  o_MaxEntries :: int
  o_MaxBytes :: int
  o_Weigh :: "('v \<Rightarrow> int) option"
  o_TTL :: duration
  o_OnEvict :: bool

text \<open>
  \<open>lr_released\<close> records the values handed to the \<open>OnEvict\<close> callback, in call order;
  \<open>lr_next\<close> is the next unused address of the store \<open>lr_elems\<close>.
\<close>

record 'v lru_layer =
  lr_name :: string
  lr_opts :: "'v lru_options"
  lr_order :: "nat list"
  lr_entries :: "(string, nat) gomap"
  lr_elems :: "nat \<Rightarrow> 'v lru_entry option"
  lr_next :: nat
  lr_bytes :: int
  lr_hits :: int
  lr_misses :: int
  lr_evict :: int
  lr_released :: "'v list"

definition deref :: "'v lru_layer \<Rightarrow> nat \<Rightarrow> 'v lru_entry" where
  "deref l a = the (lr_elems l a)"

definition weigh :: "'v lru_layer \<Rightarrow> 'v \<Rightarrow> int" where
  "weigh l v = (case o_Weigh (lr_opts l) of None \<Rightarrow> 0 | Some f \<Rightarrow> f v)"

section \<open>Operations\<close>

definition cache_New :: "string \<Rightarrow> 'v lru_options \<Rightarrow> 'v lru_layer" where
  "cache_New name opts =
     (let opts1 = (if o_MaxEntries opts < 0 then opts\<lparr>o_MaxEntries := 0\<rparr> else opts);
          opts2 = (if o_Weigh opts1 = None then opts1\<lparr>o_Weigh := Some (\<lambda>_. 0)\<rparr> else opts1)
      in \<lparr>lr_name = name, lr_opts = opts2, lr_order = [], lr_entries = [],
          lr_elems = (\<lambda>_. None), lr_next = 0, lr_bytes = 0, lr_hits = 0, lr_misses = 0,
          lr_evict = 0, lr_released = []\<rparr>)"

definition removeElement :: "'v lru_layer \<Rightarrow> nat \<Rightarrow> 'v lru_layer" where
  "removeElement l a =
     (let e = deref l a;
          l1 = l\<lparr>lr_order := filter (\<lambda>x. x \<noteq> a) (lr_order l),
                 lr_entries := gdel (e_key e) (lr_entries l),
                 lr_bytes := lr_bytes l - e_weight e\<rparr>
      in if o_OnEvict (lr_opts l) then l1\<lparr>lr_released := lr_released l @ [e_value e]\<rparr> else l1)"

definition evictOldest :: "'v lru_layer \<Rightarrow> 'v lru_layer" where
  "evictOldest l =
     (if lr_order l = [] then l
      else let l1 = removeElement l (last (lr_order l)) in l1\<lparr>lr_evict := lr_evict l1 + 1\<rparr>)"

text \<open>The loop has no bound in the source; \<open>None\<close> stands for not returning.\<close>

partial_function (option) evictOverflow :: "'v lru_layer \<Rightarrow> 'v lru_layer option" where
  "evictOverflow l =
     (if o_MaxEntries (lr_opts l) > 0 \<and> int (length (lr_entries l)) > o_MaxEntries (lr_opts l)
      then evictOverflow (evictOldest l)
      else if o_MaxBytes (lr_opts l) > 0 \<and> lr_bytes l > o_MaxBytes (lr_opts l)
      then (if length (lr_entries l) \<le> 1 then Some l else evictOverflow (evictOldest l))
      else Some l)"

definition moveToFront :: "'v lru_layer \<Rightarrow> nat \<Rightarrow> 'v lru_layer" where
  "moveToFront l a = l\<lparr>lr_order := a # filter (\<lambda>x. x \<noteq> a) (lr_order l)\<rparr>"

definition layer_Get ::
  "'v lru_layer \<Rightarrow> instant \<Rightarrow> string \<Rightarrow> 64 word \<Rightarrow> 'v option \<times> 'v lru_layer" where
  "layer_Get l now key generation =
     (case gget (lr_entries l) key of
        None \<Rightarrow> (None, l\<lparr>lr_misses := lr_misses l + 1\<rparr>)
      | Some a \<Rightarrow>
          let e = deref l a in
          if (case e_expiresAt e of None \<Rightarrow> False | Some t \<Rightarrow> now > t)
          then (None, let l1 = removeElement l a in l1\<lparr>lr_misses := lr_misses l1 + 1\<rparr>)
          else if e_version e \<noteq> generation
          then (None, let l1 = removeElement l a in l1\<lparr>lr_misses := lr_misses l1 + 1\<rparr>)
          else (Some (e_value e), let l1 = moveToFront l a in l1\<lparr>lr_hits := lr_hits l1 + 1\<rparr>))"

definition layer_Put ::
  "'v lru_layer \<Rightarrow> instant \<Rightarrow> string \<Rightarrow> 'v \<Rightarrow> 64 word \<Rightarrow> 'v lru_layer option" where
  "layer_Put l now key v generation =
     (if o_MaxEntries (lr_opts l) = 0 then Some l
      else
        let weight = weigh l v in
        case gget (lr_entries l) key of
          Some a \<Rightarrow>
            let old = deref l a;
                new = old\<lparr>e_value := v, e_weight := weight, e_version := generation,
                          e_expiresAt := (if o_TTL (lr_opts l) > 0
                                          then Some (now + o_TTL (lr_opts l))
                                          else e_expiresAt old)\<rparr>;
                l1 = l\<lparr>lr_elems := (lr_elems l)(a \<mapsto> new),
                       lr_bytes := lr_bytes l - e_weight old + weight\<rparr>
            in evictOverflow (moveToFront l1 a)
        | None \<Rightarrow>
            let e = \<lparr>e_key = key, e_value = v, e_weight = weight, e_version = generation,
                     e_expiresAt = (if o_TTL (lr_opts l) > 0
                                    then Some (now + o_TTL (lr_opts l)) else None)\<rparr>;
                a = lr_next l
            in evictOverflow
                 (l\<lparr>lr_elems := (lr_elems l)(a \<mapsto> e), lr_next := Suc a,
                    lr_order := a # lr_order l, lr_entries := gput key a (lr_entries l),
                    lr_bytes := lr_bytes l + weight\<rparr>))"

definition layer_Invalidate :: "'v lru_layer \<Rightarrow> string \<Rightarrow> 'v lru_layer" where
  "layer_Invalidate l key =
     (case gget (lr_entries l) key of None \<Rightarrow> l | Some a \<Rightarrow> removeElement l a)"

definition layer_Clear :: "'v lru_layer \<Rightarrow> 'v lru_layer" where
  "layer_Clear l =
     (let l1 = (if o_OnEvict (lr_opts l)
                then l\<lparr>lr_released := lr_released l @ map (\<lambda>a. e_value (deref l a)) (lr_order l)\<rparr>
                else l)
      in l1\<lparr>lr_order := [], lr_entries := [], lr_bytes := 0\<rparr>)"

definition layer_SetMaxEntries :: "'v lru_layer \<Rightarrow> int \<Rightarrow> 'v lru_layer option" where
  "layer_SetMaxEntries l n =
     (let n1 = (if n < 0 then 0 else n)
      in evictOverflow (l\<lparr>lr_opts := (lr_opts l)\<lparr>o_MaxEntries := n1\<rparr>\<rparr>))"

definition layer_Len :: "'v lru_layer \<Rightarrow> nat" where
  "layer_Len l = length (lr_entries l)"


section \<open>Specification: a recency list\<close>

text \<open>The live entries, newest first.\<close>

definition live :: "'v lru_layer \<Rightarrow> 'v lru_entry list" where
  "live l = map (deref l) (lr_order l)"

definition total_weight :: "'v lru_entry list \<Rightarrow> int" where
  "total_weight es = sum_list (map e_weight es)"

definition overfull :: "'v lru_options \<Rightarrow> 'v lru_entry list \<Rightarrow> bool" where
  "overfull opts es \<longleftrightarrow>
     (o_MaxEntries opts > 0 \<and> int (length es) > o_MaxEntries opts) \<or>
     (o_MaxBytes opts > 0 \<and> total_weight es > o_MaxBytes opts \<and> length es > 1)"

function lru_trim :: "'v lru_options \<Rightarrow> 'v lru_entry list \<Rightarrow> 'v lru_entry list" where
  "lru_trim opts es = (if overfull opts es then lru_trim opts (butlast es) else es)"
  by pat_completeness auto
termination
  by (relation "measure (\<lambda>(opts, es). length es)") (auto simp: overfull_def)

declare lru_trim.simps [simp del]

definition spec_put ::
  "'v lru_options \<Rightarrow> instant \<Rightarrow> string \<Rightarrow> 'v \<Rightarrow> 64 word \<Rightarrow> 'v lru_entry list \<Rightarrow> 'v lru_entry list" where
  "spec_put opts now key v generation es =
     (if o_MaxEntries opts = 0 then es
      else lru_trim opts
        (\<lparr>e_key = key, e_value = v,
          e_weight = (case o_Weigh opts of None \<Rightarrow> 0 | Some f \<Rightarrow> f v),
          e_version = generation,
          e_expiresAt = (if o_TTL opts > 0 then Some (now + o_TTL opts)
                         else case find (\<lambda>e. e_key e = key) es of
                                None \<Rightarrow> None | Some old \<Rightarrow> e_expiresAt old)\<rparr>
         # filter (\<lambda>e. e_key e \<noteq> key) es))"

definition spec_serves :: "instant \<Rightarrow> 64 word \<Rightarrow> 'v lru_entry \<Rightarrow> bool" where
  "spec_serves now generation e \<longleftrightarrow>
     (case e_expiresAt e of None \<Rightarrow> True | Some t \<Rightarrow> now \<le> t) \<and> e_version e = generation"

definition spec_get ::
  "instant \<Rightarrow> string \<Rightarrow> 64 word \<Rightarrow> 'v lru_entry list \<Rightarrow> 'v option \<times> 'v lru_entry list" where
  "spec_get now key generation es =
     (case find (\<lambda>e. e_key e = key) es of
        None \<Rightarrow> (None, es)
      | Some e \<Rightarrow> let rest = filter (\<lambda>x. e_key x \<noteq> key) es in
          if spec_serves now generation e then (Some (e_value e), e # rest) else (None, rest))"

section \<open>Invariant\<close>

definition lru_wf :: "'v lru_layer \<Rightarrow> bool" where
  "lru_wf l \<longleftrightarrow>
     distinct (lr_order l) \<and> gmap_ok (lr_entries l) \<and>
     set (lr_entries l) = (\<lambda>a. (e_key (deref l a), a)) ` set (lr_order l) \<and>
     lr_bytes l = total_weight (live l) \<and>
     (\<forall>a \<in> set (lr_order l). a < lr_next l) \<and>
     0 \<le> o_MaxEntries (lr_opts l)"

lemma deref_frame [simp]:
  "deref (l\<lparr>lr_evict := n\<rparr>) = deref l" "deref (l\<lparr>lr_hits := n\<rparr>) = deref l"
  "deref (l\<lparr>lr_misses := n\<rparr>) = deref l" "deref (l\<lparr>lr_order := xs\<rparr>) = deref l"
  "deref (l\<lparr>lr_opts := opts\<rparr>) = deref l" "deref (l\<lparr>lr_released := vs\<rparr>) = deref l"
  by (auto simp: deref_def)

lemma live_frame [simp]:
  "live (l\<lparr>lr_evict := n\<rparr>) = live l" "live (l\<lparr>lr_hits := n\<rparr>) = live l"
  "live (l\<lparr>lr_misses := n\<rparr>) = live l" "live (l\<lparr>lr_opts := opts\<rparr>) = live l"
  by (simp_all add: live_def)

lemma lru_wf_frame [simp]:
  "lru_wf (l\<lparr>lr_evict := n\<rparr>) = lru_wf l" "lru_wf (l\<lparr>lr_hits := n\<rparr>) = lru_wf l"
  "lru_wf (l\<lparr>lr_misses := n\<rparr>) = lru_wf l"
  by (simp_all add: lru_wf_def)

lemma lru_wfD:
  assumes "lru_wf l"
  shows "distinct (lr_order l)" "gmap_ok (lr_entries l)"
    "set (lr_entries l) = (\<lambda>a. (e_key (deref l a), a)) ` set (lr_order l)"
    "lr_bytes l = total_weight (live l)"
    "a \<in> set (lr_order l) \<Longrightarrow> a < lr_next l" "0 \<le> o_MaxEntries (lr_opts l)"
  using assms by (auto simp: lru_wf_def)

lemma lookup_iff:
  assumes "lru_wf l"
  shows "gget (lr_entries l) k = Some a \<longleftrightarrow> a \<in> set (lr_order l) \<and> e_key (deref l a) = k"
  using lru_wfD(2,3) [OF assms] by (auto simp: gget_mem)

lemma lookup_None:
  assumes "lru_wf l"
  shows "gget (lr_entries l) k = None \<longleftrightarrow> (\<forall>a \<in> set (lr_order l). e_key (deref l a) \<noteq> k)"
  using lookup_iff [OF assms, of k] by (metis not_None_eq)

lemma key_inj:
  assumes "lru_wf l" "a \<in> set (lr_order l)" "b \<in> set (lr_order l)"
    "e_key (deref l a) = e_key (deref l b)"
  shows "a = b"
proof -
  from assms have "gget (lr_entries l) (e_key (deref l a)) = Some a"
    and "gget (lr_entries l) (e_key (deref l a)) = Some b"
    by (auto simp: lookup_iff)
  then show ?thesis by simp
qed

lemma length_entries:
  assumes "lru_wf l"
  shows "length (lr_entries l) = length (lr_order l)"
proof -
  note wf = lru_wfD [OF assms]
  have "length (lr_entries l) = card (set (lr_entries l))"
    using wf(2) by (simp add: gmap_ok_def distinct_card distinct_map)
  also have "\<dots> = card (set (lr_order l))"
    unfolding wf(3) by (rule card_image) (auto simp: inj_on_def)
  finally show ?thesis using wf(1) by (simp add: distinct_card)
qed

lemma length_live [simp]: "length (live l) = length (lr_order l)"
  by (simp add: live_def)

lemma distinct_live_keys: "lru_wf l \<Longrightarrow> distinct (map e_key (live l))"
  using lru_wfD(1) key_inj by (fastforce simp: live_def distinct_map inj_on_def)

lemma live_filter_key:
  assumes "lru_wf l" "a \<in> set (lr_order l)"
  shows "map (deref l) (filter (\<lambda>x. x \<noteq> a) (lr_order l)) =
         filter (\<lambda>e. e_key e \<noteq> e_key (deref l a)) (live l)"
proof -
  have "filter (\<lambda>x. x \<noteq> a) (lr_order l) =
        filter (\<lambda>x. e_key (deref l x) \<noteq> e_key (deref l a)) (lr_order l)"
    using assms key_inj by (intro filter_cong) auto
  then show ?thesis by (simp add: live_def filter_map o_def)
qed

lemma find_live:
  assumes "lru_wf l" "gget (lr_entries l) k = Some a"
  shows "find (\<lambda>e. e_key e = k) (live l) = Some (deref l a)"
proof -
  from assms have a: "a \<in> set (lr_order l)" "e_key (deref l a) = k"
    by (auto simp: lookup_iff)
  then have "\<exists>e. find (\<lambda>e. e_key e = k) (live l) = Some e"
    by (fastforce simp: live_def find_None_iff simp flip: not_None_eq)
  then obtain e where e: "find (\<lambda>e. e_key e = k) (live l) = Some e" by blast
  then obtain b where "b \<in> set (lr_order l)" "deref l b = e" "e_key e = k"
    by (auto simp: live_def dest!: find_SomeD)
  then have "b = a" using assms(1) a key_inj by metis
  with e \<open>deref l b = e\<close> show ?thesis by simp
qed

lemma find_live_None:
  "lru_wf l \<Longrightarrow> gget (lr_entries l) k = None \<Longrightarrow> find (\<lambda>e. e_key e = k) (live l) = None"
  by (auto simp: find_None_iff lookup_None live_def)

section \<open>Removal\<close>

lemma removeElement_frame [simp]:
  "lr_opts (removeElement l a) = lr_opts l" "lr_elems (removeElement l a) = lr_elems l"
  "lr_next (removeElement l a) = lr_next l" "lr_evict (removeElement l a) = lr_evict l"
  "lr_hits (removeElement l a) = lr_hits l" "lr_misses (removeElement l a) = lr_misses l"
  "lr_order (removeElement l a) = filter (\<lambda>x. x \<noteq> a) (lr_order l)"
  "lr_entries (removeElement l a) = gdel (e_key (deref l a)) (lr_entries l)"
  "lr_bytes (removeElement l a) = lr_bytes l - e_weight (deref l a)"
  "lr_released (removeElement l a) =
     lr_released l @ (if o_OnEvict (lr_opts l) then [e_value (deref l a)] else [])"
  by (simp_all add: removeElement_def Let_def)

lemma deref_removeElement [simp]: "deref (removeElement l a) = deref l"
  by (simp add: deref_def fun_eq_iff)

lemma live_removeElement:
  "lru_wf l \<Longrightarrow> a \<in> set (lr_order l) \<Longrightarrow>
   live (removeElement l a) = filter (\<lambda>e. e_key e \<noteq> e_key (deref l a)) (live l)"
  using live_filter_key [of l a] by (simp add: live_def)

lemma set_gdel: "set (gdel k m) = {p \<in> set m. fst p \<noteq> k}"
  by (auto simp: AList.delete_eq)

lemma lru_wf_removeElement [wf_intros]:
  assumes "lru_wf l" "a \<in> set (lr_order l)"
  shows "lru_wf (removeElement l a)"
proof -
  note wf = lru_wfD [OF assms(1)]
  have "set (gdel (e_key (deref l a)) (lr_entries l)) =
        (\<lambda>b. (e_key (deref l b), b)) ` {b \<in> set (lr_order l). b \<noteq> a}"
    using assms key_inj unfolding set_gdel wf(3) by fastforce
  moreover have "total_weight (live (removeElement l a)) =
        total_weight (live l) - e_weight (deref l a)"
    using sum_list_filter_neq [OF wf(1) assms(2), of "\<lambda>x. e_weight (deref l x)"]
    by (simp add: total_weight_def live_def o_def)
  ultimately show ?thesis
    using wf by (simp add: lru_wf_def)
qed

section \<open>Eviction\<close>

lemma evictOldest_facts:
  assumes wf: "lru_wf l" and ne: "lr_order l \<noteq> []"
  shows "lru_wf (evictOldest l)" "live (evictOldest l) = butlast (live l)"
    "lr_opts (evictOldest l) = lr_opts l"
    "lr_released (evictOldest l) =
       lr_released l @ (if o_OnEvict (lr_opts l) then [e_value (last (live l))] else [])"
    "lr_evict (evictOldest l) = lr_evict l + 1"
    "lr_elems (evictOldest l) = lr_elems l"
proof -
  let ?a = "last (lr_order l)"
  have "lru_wf (removeElement l ?a)"
    using wf ne by (intro lru_wf_removeElement) auto
  then show "lru_wf (evictOldest l)"
    using ne by (simp add: evictOldest_def)
  show "live (evictOldest l) = butlast (live l)"
    using ne filter_neq_last [OF lru_wfD(1) [OF wf] ne]
    by (simp add: evictOldest_def live_def map_butlast)
qed (use ne in \<open>simp_all add: evictOldest_def live_def last_map\<close>)

lemma overfull_evict:
  assumes "lru_wf l"
  shows "evictOverflow l =
    (if overfull (lr_opts l) (live l) then evictOverflow (evictOldest l) else Some l)"
  by (subst evictOverflow.simps)
     (use assms in \<open>auto simp: overfull_def length_entries lru_wfD(4)\<close>)

lemma overfull_nonempty: "overfull opts es \<Longrightarrow> es \<noteq> []"
  by (auto simp: overfull_def)

lemma lru_trim_overfull: "overfull opts es \<Longrightarrow> lru_trim opts es = lru_trim opts (butlast es)"
  by (subst lru_trim.simps) simp

lemma lru_trim_fits: "\<not> overfull opts es \<Longrightarrow> lru_trim opts es = es"
  by (subst lru_trim.simps) simp

lemma lru_trim_take:
  "\<exists>k \<le> length es. lru_trim opts es = take k es \<and> \<not> overfull opts (take k es) \<and>
     (\<forall>j. k < j \<and> j \<le> length es \<longrightarrow> overfull opts (take j es))"
proof (induction opts es rule: lru_trim.induct)
  case (1 opts es)
  show ?case
  proof (cases "overfull opts es")
    case True
    then have ne: "es \<noteq> []" by (rule overfull_nonempty)
    from 1 [OF True] obtain k where k: "k \<le> length (butlast es)"
      "lru_trim opts (butlast es) = take k (butlast es)" "\<not> overfull opts (take k (butlast es))"
      "\<forall>j. k < j \<and> j \<le> length (butlast es) \<longrightarrow> overfull opts (take j (butlast es))" by blast
    have tk: "take j (butlast es) = take j es" if "j \<le> length es - 1" for j
      using that by (simp add: butlast_conv_take)
    have "overfull opts (take j es)" if "k < j" "j \<le> length es" for j
    proof (cases "j = length es")
      case True
      with \<open>overfull opts es\<close> show ?thesis by simp
    next
      case False
      with that k(4) tk show ?thesis by simp
    qed
    with k tk True show ?thesis
      by (intro exI [of _ k]) (simp add: lru_trim_overfull)
  next
    case False
    then show ?thesis
      by (intro exI [of _ "length es"]) (simp add: lru_trim_fits)
  qed
qed

lemma evictOverflow_refines:
  assumes "lru_wf l"
  shows "\<exists>l'. evictOverflow l = Some l' \<and> lru_wf l' \<and> lr_opts l' = lr_opts l \<and>
    lr_elems l' = lr_elems l \<and>
    live l' = lru_trim (lr_opts l) (live l) \<and>
    lr_released l' = lr_released l @ (if o_OnEvict (lr_opts l)
       then map e_value (rev (drop (length (live l')) (live l))) else [])"
  using assms
proof (induction "length (lr_order l)" arbitrary: l rule: less_induct)
  case less
  show ?case
  proof (cases "overfull (lr_opts l) (live l)")
    case False
    with less.prems show ?thesis by (simp add: overfull_evict lru_trim_fits)
  next
    case True
    then have ne: "live l \<noteq> []" "lr_order l \<noteq> []"
      using overfull_nonempty by (fastforce simp: live_def)+
    note ev = evictOldest_facts [OF less.prems ne(2)]
    have "length (live (evictOldest l)) < length (live l)"
      using ev(2) ne(2) by simp
    then have "length (lr_order (evictOldest l)) < length (lr_order l)" by simp
    from less.hyps [OF this ev(1)] obtain l' where l': "evictOverflow (evictOldest l) = Some l'"
      "lru_wf l'" "lr_opts l' = lr_opts l" "lr_elems l' = lr_elems l"
      "live l' = lru_trim (lr_opts l) (butlast (live l))"
      "lr_released l' = lr_released (evictOldest l) @ (if o_OnEvict (lr_opts l)
         then map e_value (rev (drop (length (live l')) (butlast (live l)))) else [])"
      unfolding ev(2,3,6) by blast
    have "length (live l') \<le> length (butlast (live l))"
      using lru_trim_take [of "butlast (live l)" "lr_opts l"] l'(5) by auto
    then have "drop (length (live l')) (live l) =
        drop (length (live l')) (butlast (live l)) @ [last (live l)]"
      using ne(1) by (metis append_butlast_last_id drop_append diff_is_0_eq drop0)
    with True less.prems l' ev(4) show ?thesis
      by (simp add: overfull_evict lru_trim_overfull)
  qed
qed

section \<open>The operations refine the recency list\<close>

lemma lru_wf_New [wf_intros]: "lru_wf (cache_New name opts)"
  by (simp add: cache_New_def lru_wf_def live_def total_weight_def Let_def)

lemma live_New [simp]: "live (cache_New name opts) = []"
  by (simp add: cache_New_def live_def Let_def)

lemma moveToFront_facts:
  assumes "lru_wf l" "a \<in> set (lr_order l)"
  shows "lru_wf (moveToFront l a)"
    "live (moveToFront l a) =
       deref l a # filter (\<lambda>e. e_key e \<noteq> e_key (deref l a)) (live l)"
proof -
  show live: "live (moveToFront l a) =
       deref l a # filter (\<lambda>e. e_key e \<noteq> e_key (deref l a)) (live l)"
    using live_filter_key [OF assms] by (simp add: moveToFront_def live_def)
  note wf = lru_wfD [OF assms(1)]
  have "total_weight (live (moveToFront l a)) = total_weight (live l)"
    using sum_list_filter_neq [OF wf(1) assms(2), of "\<lambda>x. e_weight (deref l x)"]
    by (simp add: total_weight_def moveToFront_def live_def o_def)
  with wf assms(2) show "lru_wf (moveToFront l a)"
    by (auto simp: moveToFront_def lru_wf_def)
qed

lemma layer_Get_refines:
  assumes "lru_wf l"
  shows "lru_wf (snd (layer_Get l now key generation)) \<and>
    lr_opts (snd (layer_Get l now key generation)) = lr_opts l \<and>
    (fst (layer_Get l now key generation), live (snd (layer_Get l now key generation))) =
      spec_get now key generation (live l)"
proof (cases "gget (lr_entries l) key")
  case None
  with assms show ?thesis
    by (simp add: layer_Get_def spec_get_def find_live_None)
next
  case (Some a)
  with assms have a: "a \<in> set (lr_order l)" "e_key (deref l a) = key"
    by (auto simp: lookup_iff)
  note mv = moveToFront_facts [OF assms a(1)]
  have opts: "lr_opts (moveToFront l a) = lr_opts l"
    by (simp add: moveToFront_def)
  show ?thesis
    using Some a mv opts assms lru_wf_removeElement [OF assms a(1)] live_removeElement [OF assms a(1)]
    by (auto simp: layer_Get_def spec_get_def spec_serves_def find_live Let_def not_le
        split: option.splits)
qed

lemma overwrite_facts:
  assumes wf: "lru_wf l" and a: "a \<in> set (lr_order l)" and key: "e_key new = e_key (deref l a)"
  defines "l1 \<equiv> l\<lparr>lr_elems := (lr_elems l)(a \<mapsto> new),
                   lr_bytes := lr_bytes l - e_weight (deref l a) + e_weight new\<rparr>"
  shows "lru_wf l1" "deref l1 a = new"
    "filter (\<lambda>e. e_key e \<noteq> e_key new) (live l1) = filter (\<lambda>e. e_key e \<noteq> e_key new) (live l)"
proof -
  have d: "deref l1 x = (if x = a then new else deref l x)" for x
    by (simp add: l1_def deref_def)
  then show "deref l1 a = new" by simp
  have order: "lr_order l1 = lr_order l" by (simp add: l1_def)
  have "filter (\<lambda>x. e_key (deref l1 x) \<noteq> e_key new) (lr_order l) =
        filter (\<lambda>x. e_key (deref l x) \<noteq> e_key new) (lr_order l)"
    using d key by (intro filter_cong) auto
  moreover have "map (deref l1) (filter (\<lambda>x. e_key (deref l x) \<noteq> e_key new) (lr_order l)) =
        map (deref l) (filter (\<lambda>x. e_key (deref l x) \<noteq> e_key new) (lr_order l))"
    using d key by auto
  ultimately show "filter (\<lambda>e. e_key e \<noteq> e_key new) (live l1) =
        filter (\<lambda>e. e_key e \<noteq> e_key new) (live l)"
    by (simp add: live_def order filter_map o_def)
  note w = lru_wfD [OF wf]
  have "sum_list (map (\<lambda>x. e_weight (deref l1 x)) (filter (\<lambda>x. x \<noteq> a) (lr_order l))) =
        sum_list (map (\<lambda>x. e_weight (deref l x)) (filter (\<lambda>x. x \<noteq> a) (lr_order l)))"
    using d by (intro arg_cong [where f = sum_list] map_cong) auto
  then have "total_weight (live l1) = total_weight (live l) - e_weight (deref l a) + e_weight new"
    using sum_list_filter_neq [OF w(1) a, of "\<lambda>x. e_weight (deref l x)"]
      sum_list_filter_neq [OF w(1) a, of "\<lambda>x. e_weight (deref l1 x)"] d [of a]
    by (simp add: total_weight_def live_def order o_def)
  moreover have "(\<lambda>x. (e_key (deref l1 x), x)) ` set (lr_order l) =
        (\<lambda>x. (e_key (deref l x), x)) ` set (lr_order l)"
    using d key by (intro image_cong) auto
  moreover have "lr_entries l1 = lr_entries l" "lr_next l1 = lr_next l" "lr_opts l1 = lr_opts l"
    "lr_bytes l1 = lr_bytes l - e_weight (deref l a) + e_weight new"
    by (simp_all add: l1_def)
  ultimately show "lru_wf l1"
    using w order by (auto simp: lru_wf_def)
qed

lemma insert_facts:
  assumes wf: "lru_wf l" and absent: "gget (lr_entries l) (e_key e) = None"
  defines "l1 \<equiv> l\<lparr>lr_elems := (lr_elems l)(lr_next l \<mapsto> e), lr_next := Suc (lr_next l),
                   lr_order := lr_next l # lr_order l,
                   lr_entries := gput (e_key e) (lr_next l) (lr_entries l),
                   lr_bytes := lr_bytes l + e_weight e\<rparr>"
  shows "lru_wf l1" "live l1 = e # live l"
proof -
  note w = lru_wfD [OF wf]
  have fresh: "lr_next l \<notin> set (lr_order l)" using w(5) by blast
  have d: "deref l1 x = (if x = lr_next l then e else deref l x)" for x
    by (simp add: l1_def deref_def)
  show live: "live l1 = e # live l"
    using fresh d by (auto simp: live_def l1_def)
  have "set (gput (e_key e) (lr_next l) (lr_entries l)) =
        insert (e_key e, lr_next l) (set (lr_entries l))"
    using absent by (simp add: update_nonempty map_of_eq_None_iff update_Some_unfold gput_set_absent)
  moreover have "(\<lambda>x. (e_key (deref l1 x), x)) ` set (lr_order l) = set (lr_entries l)"
    unfolding w(3) using fresh d by (intro image_cong) auto
  ultimately show "lru_wf l1"
    using w fresh d live by (auto simp: lru_wf_def l1_def total_weight_def less_Suc_eq)
qed

lemma layer_Put_state:
  assumes wf: "lru_wf l" and pos: "o_MaxEntries (lr_opts l) \<noteq> 0"
  shows "\<exists>l1. lru_wf l1 \<and> lr_opts l1 = lr_opts l \<and> lr_released l1 = lr_released l \<and>
    layer_Put l now key v generation = evictOverflow l1 \<and>
    (\<exists>e. e_key e = key \<and> e_value e = v \<and> live l1 = e # filter (\<lambda>x. e_key x \<noteq> key) (live l)) \<and>
    spec_put (lr_opts l) now key v generation (live l) = lru_trim (lr_opts l) (live l1)"
proof (cases "gget (lr_entries l) key")
  case None
  define e where "e = \<lparr>e_key = key, e_value = v, e_weight = weigh l v, e_version = generation,
    e_expiresAt = (if o_TTL (lr_opts l) > 0 then Some (now + o_TTL (lr_opts l)) else None)\<rparr>"
  have key: "e_key e = key" by (simp add: e_def)
  let ?l1 = "l\<lparr>lr_elems := (lr_elems l)(lr_next l \<mapsto> e), lr_next := Suc (lr_next l),
     lr_order := lr_next l # lr_order l, lr_entries := gput (e_key e) (lr_next l) (lr_entries l),
     lr_bytes := lr_bytes l + e_weight e\<rparr>"
  have ins: "lru_wf ?l1" "live ?l1 = e # live l"
    using insert_facts [OF wf, of e] None key by simp_all
  have "filter (\<lambda>x. e_key x \<noteq> key) (live l) = live l"
    using wf None by (auto simp: filter_id_conv lookup_None live_def)
  with ins show ?thesis
    using None pos wf
    by (intro exI [of _ ?l1])
       (simp add: layer_Put_def spec_put_def e_def weigh_def find_live_None Let_def)
next
  case (Some a)
  with wf have a: "a \<in> set (lr_order l)" "e_key (deref l a) = key"
    by (auto simp: lookup_iff)
  define new where "new = (deref l a)\<lparr>e_value := v, e_weight := weigh l v,
    e_version := generation, e_expiresAt := (if o_TTL (lr_opts l) > 0
      then Some (now + o_TTL (lr_opts l)) else e_expiresAt (deref l a))\<rparr>"
  have key: "e_key new = e_key (deref l a)" by (simp add: new_def)
  let ?l0 = "l\<lparr>lr_elems := (lr_elems l)(a \<mapsto> new),
                lr_bytes := lr_bytes l - e_weight (deref l a) + e_weight new\<rparr>"
  note ow = overwrite_facts [OF wf a(1) key]
  have "lru_wf (moveToFront ?l0 a)"
    "live (moveToFront ?l0 a) = new # filter (\<lambda>e. e_key e \<noteq> e_key new) (live l)"
    using moveToFront_facts [OF ow(1), of a] a(1) ow(2,3) by simp_all
  moreover have "lr_opts (moveToFront ?l0 a) = lr_opts l"
    "lr_released (moveToFront ?l0 a) = lr_released l"
    by (simp_all add: moveToFront_def)
  moreover have "layer_Put l now key v generation = evictOverflow (moveToFront ?l0 a)"
    using Some pos by (simp add: layer_Put_def new_def Let_def)
  moreover have "new = \<lparr>e_key = key, e_value = v,
      e_weight = (case o_Weigh (lr_opts l) of None \<Rightarrow> 0 | Some f \<Rightarrow> f v), e_version = generation,
      e_expiresAt = (if o_TTL (lr_opts l) > 0 then Some (now + o_TTL (lr_opts l))
                     else e_expiresAt (deref l a))\<rparr>"
    using a(2) by (cases "deref l a") (simp add: new_def weigh_def)
  then have "spec_put (lr_opts l) now key v generation (live l) =
      lru_trim (lr_opts l) (new # filter (\<lambda>e. e_key e \<noteq> e_key new) (live l))"
    using pos find_live [OF wf Some] by (simp add: spec_put_def)
  ultimately show ?thesis
    using key a(2) by (intro exI [of _ "moveToFront ?l0 a"]) (simp add: new_def)
qed

lemma layer_Put_refines:
  assumes "lru_wf l"
  shows "\<exists>l'. layer_Put l now key v generation = Some l' \<and> lru_wf l' \<and> lr_opts l' = lr_opts l \<and>
    live l' = spec_put (lr_opts l) now key v generation (live l)"
proof (cases "o_MaxEntries (lr_opts l) = 0")
  case True
  with assms show ?thesis by (simp add: layer_Put_def spec_put_def)
next
  case False
  from layer_Put_state [OF assms False] obtain l1 where
    l1: "lru_wf l1" "lr_opts l1 = lr_opts l" "layer_Put l now key v generation = evictOverflow l1"
      "spec_put (lr_opts l) now key v generation (live l) = lru_trim (lr_opts l) (live l1)"
    by blast
  from evictOverflow_refines [OF l1(1)] l1 show ?thesis by auto
qed

lemma layer_Invalidate_refines:
  "lru_wf l \<Longrightarrow> lru_wf (layer_Invalidate l key) \<and> lr_opts (layer_Invalidate l key) = lr_opts l \<and>
     live (layer_Invalidate l key) = filter (\<lambda>e. e_key e \<noteq> key) (live l)"
  using lookup_None [of l key] live_removeElement
  by (auto simp: layer_Invalidate_def lookup_iff lru_wf_removeElement live_def filter_id_conv
      split: option.split simp del: live_def) (auto simp: live_def)

lemma layer_Clear_refines:
  "lru_wf l \<Longrightarrow> lru_wf (layer_Clear l) \<and> lr_opts (layer_Clear l) = lr_opts l \<and> live (layer_Clear l) = []"
  by (auto simp: layer_Clear_def lru_wf_def live_def total_weight_def Let_def)

lemma layer_SetMaxEntries_refines:
  fixes n :: int
  assumes "lru_wf l"
  defines "opts' \<equiv> (lr_opts l)\<lparr>o_MaxEntries := max 0 n\<rparr>"
  shows "\<exists>l'. layer_SetMaxEntries l n = Some l' \<and> lru_wf l' \<and> lr_opts l' = opts' \<and>
     live l' = lru_trim opts' (live l)"
proof -
  let ?l1 = "l\<lparr>lr_opts := opts'\<rparr>"
  have "lru_wf ?l1" using assms(1) by (simp add: lru_wf_def opts'_def)
  from evictOverflow_refines [OF this] show ?thesis
    by (auto simp: layer_SetMaxEntries_def opts'_def Let_def max_def split: if_splits)
qed

section \<open>Runs of a layer\<close>

datatype 'v lru_op =
    OpGet instant string "64 word"
  | OpPut instant string 'v "64 word"
  | OpInvalidate string
  | OpClear
  | OpSetMaxEntries int

fun lru_cop :: "'v lru_op \<Rightarrow> 'v lru_layer \<Rightarrow> 'v lru_layer option" where
  "lru_cop (OpGet now key g) l = Some (snd (layer_Get l now key g))"
| "lru_cop (OpPut now key v g) l = layer_Put l now key v g"
| "lru_cop (OpInvalidate key) l = Some (layer_Invalidate l key)"
| "lru_cop OpClear l = Some (layer_Clear l)"
| "lru_cop (OpSetMaxEntries n) l = layer_SetMaxEntries l n"

type_synonym 'v lru_abs = "'v lru_options \<times> 'v lru_entry list"

fun lru_aop :: "'v lru_op \<Rightarrow> 'v lru_abs \<Rightarrow> 'v lru_abs" where
  "lru_aop (OpGet now key g) (opts, es) = (opts, snd (spec_get now key g es))"
| "lru_aop (OpPut now key v g) (opts, es) = (opts, spec_put opts now key v g es)"
| "lru_aop (OpInvalidate key) (opts, es) = (opts, filter (\<lambda>e. e_key e \<noteq> key) es)"
| "lru_aop OpClear (opts, es) = (opts, [])"
| "lru_aop (OpSetMaxEntries n) (opts, es) =
     (let opts' = opts\<lparr>o_MaxEntries := max 0 n\<rparr> in (opts', lru_trim opts' es))"

definition lru_abs :: "'v lru_layer \<Rightarrow> 'v lru_abs" where
  "lru_abs l = (lr_opts l, live l)"

lemma lru_cop_refines:
  assumes "lru_wf l"
  shows "\<exists>l'. lru_cop x l = Some l' \<and> lru_wf l' \<and> lru_abs l' = lru_aop x (lru_abs l)"
proof (cases x)
  case (OpGet now key g)
  then show ?thesis
    using layer_Get_refines [OF assms, of now key g] by (auto simp: lru_abs_def prod_eq_iff)
next
  case (OpPut now key v g)
  then show ?thesis
    using layer_Put_refines [OF assms, of now key v g] by (auto simp: lru_abs_def)
next
  case (OpSetMaxEntries n)
  then show ?thesis
    using layer_SetMaxEntries_refines [OF assms, of n] by (auto simp: lru_abs_def Let_def)
qed (use layer_Invalidate_refines [OF assms] layer_Clear_refines [OF assms] in
     \<open>auto simp: lru_abs_def\<close>)

interpretation lru: functional_refinement lru_cop lru_aop lru_wf lru_abs
  by unfold_locales (rule lru_cop_refines)

section \<open>Bounds\<close>

definition lru_bounded :: "'v lru_abs \<Rightarrow> bool" where
  "lru_bounded p \<longleftrightarrow>
     (let opts = fst p; es = snd p in
      (0 < o_MaxEntries opts \<longrightarrow> int (length es) \<le> o_MaxEntries opts) \<and>
      (\<forall>e \<in> set es. 0 \<le> e_weight e) \<and>
      (0 < o_MaxBytes opts \<longrightarrow> total_weight es \<le> o_MaxBytes opts \<or> length es \<le> 1))"

definition weigh_nonneg :: "'v lru_options \<Rightarrow> bool" where
  "weigh_nonneg opts \<longleftrightarrow> (\<forall>v. 0 \<le> (case o_Weigh opts of None \<Rightarrow> 0 | Some f \<Rightarrow> f v))"

lemma bounded_trim:
  "\<forall>e \<in> set es. 0 \<le> e_weight e \<Longrightarrow> lru_bounded (opts, lru_trim opts es)"
proof -
  assume nn: "\<forall>e \<in> set es. 0 \<le> e_weight e"
  obtain k where "lru_trim opts es = take k es" "\<not> overfull opts (take k es)"
    using lru_trim_take [of es opts] by blast
  moreover have "\<forall>e \<in> set (take k es). 0 \<le> e_weight e"
    using nn by (blast dest: in_set_takeD)
  ultimately show ?thesis
    by (auto simp: lru_bounded_def overfull_def Let_def)
qed

lemma total_weight_filter:
  "\<forall>e \<in> set es. 0 \<le> e_weight e \<Longrightarrow> total_weight (filter P es) \<le> total_weight es"
  by (induction es) (auto simp: total_weight_def)

lemma bounded_filter:
  assumes "lru_bounded (opts, es)"
  shows "lru_bounded (opts, filter P es)"
proof -
  have len: "length (filter P es) \<le> length es" by simp
  have w: "total_weight (filter P es) \<le> total_weight es"
    using assms by (intro total_weight_filter) (simp add: lru_bounded_def)
  from assms have "0 < o_MaxEntries opts \<longrightarrow> int (length (filter P es)) \<le> o_MaxEntries opts"
    unfolding lru_bounded_def Let_def fst_conv snd_conv using len by linarith
  moreover from assms have "0 < o_MaxBytes opts \<longrightarrow>
      total_weight (filter P es) \<le> o_MaxBytes opts \<or> length (filter P es) \<le> 1"
    unfolding lru_bounded_def Let_def fst_conv snd_conv using len w by linarith
  ultimately show ?thesis using assms by (simp add: lru_bounded_def Let_def)
qed

lemma filter_split_weight:
  assumes "distinct (map e_key es)" "find (\<lambda>e. e_key e = key) es = Some e"
  shows "Suc (length (filter (\<lambda>x. e_key x \<noteq> key) es)) = length es"
    "total_weight (e # filter (\<lambda>x. e_key x \<noteq> key) es) = total_weight es"
proof -
  from assms(2) have e: "e \<in> set es" "e_key e = key" by (auto dest: find_SomeD)
  have eq: "filter (\<lambda>x. e_key x \<noteq> key) es = filter (\<lambda>x. x \<noteq> e) es"
    using assms(1) e by (intro filter_cong) (auto simp: distinct_map inj_on_def)
  have d: "distinct es" using assms(1) by (simp add: distinct_map)
  show "Suc (length (filter (\<lambda>x. e_key x \<noteq> key) es)) = length es"
    using filter_neq_length [OF d e(1)] eq by simp
  show "total_weight (e # filter (\<lambda>x. e_key x \<noteq> key) es) = total_weight es"
    using sum_list_filter_neq [OF d e(1), of e_weight] eq by (simp add: total_weight_def)
qed

lemma bounded_get:
  assumes "distinct (map e_key es)" "lru_bounded (opts, es)"
  shows "lru_bounded (opts, snd (spec_get now key g es))"
proof (cases "find (\<lambda>e. e_key e = key) es")
  case None
  with assms(2) show ?thesis by (simp add: spec_get_def)
next
  case (Some e)
  note sp = filter_split_weight [OF assms(1) Some]
  have "0 \<le> e_weight e" using assms(2) Some by (auto simp: lru_bounded_def dest!: find_SomeD)
  then have "lru_bounded (opts, e # filter (\<lambda>x. e_key x \<noteq> key) es)"
    using assms(2) sp by (auto simp: lru_bounded_def)
  with Some bounded_filter [OF assms(2)] show ?thesis
    by (simp add: spec_get_def Let_def)
qed

lemma bounded_step:
  assumes "weigh_nonneg opts" "distinct (map e_key es)" "lru_bounded (opts, es)"
  shows "lru_bounded (lru_aop x (opts, es)) \<and> weigh_nonneg (fst (lru_aop x (opts, es)))"
proof -
  have nn: "\<forall>e \<in> set es. 0 \<le> e_weight e" using assms(3) by (simp add: lru_bounded_def)
  show ?thesis
  proof (cases x)
    case (OpPut now key v g)
    with assms nn show ?thesis
      by (auto simp: spec_put_def weigh_nonneg_def intro!: bounded_trim)
  next
    case (OpSetMaxEntries n)
    with assms nn show ?thesis
      by (auto simp: weigh_nonneg_def Let_def intro!: bounded_trim)
  next
    case (OpGet now key g)
    with assms show ?thesis by (simp add: bounded_get)
  next
    case (OpInvalidate key)
    with assms show ?thesis by (simp add: bounded_filter)
  next
    case OpClear
    with assms show ?thesis by (simp add: lru_bounded_def total_weight_def)
  qed
qed

lemma bounded_run:
  assumes "lru_wf l" "weigh_nonneg (lr_opts l)" "lru_bounded (lru_abs l)"
  shows "\<exists>l'. run_ops lru_cop ops l = Some l' \<and> lru_wf l' \<and> lru_bounded (lru_abs l')"
  using assms
proof (induction ops arbitrary: l)
  case (Cons x ops)
  from lru_cop_refines [OF Cons.prems(1), of x] obtain l' where
    l': "lru_cop x l = Some l'" "lru_wf l'" "lru_abs l' = lru_aop x (lru_abs l)" by blast
  have "lru_bounded (lru_abs l') \<and> weigh_nonneg (lr_opts l')"
    using bounded_step [of "lr_opts l" "live l" x] Cons.prems l'(3)
      distinct_live_keys [OF Cons.prems(1)]
    by (metis fst_conv lru_abs_def)
  with Cons.IH [OF l'(2)] l'(1) show ?case by simp
qed simp

section \<open>Properties\<close>


text \<open>
  No layer grows past its bounds: with a weigh function that is never negative, after any
  sequence of operations the entry count is at most a positive \<open>MaxEntries\<close>, and the byte
  counter is at most a positive \<open>MaxBytes\<close> unless a single entry is left.
\<close>
theorem lru_runs_bounded:
  assumes "weigh_nonneg (lr_opts (cache_New name opts))"
  shows "\<exists>l. run_ops lru_cop ops (cache_New name opts) = Some l \<and>
     (0 < o_MaxEntries (lr_opts l) \<longrightarrow> int (layer_Len l) \<le> o_MaxEntries (lr_opts l)) \<and>
     (0 < o_MaxBytes (lr_opts l) \<longrightarrow> lr_bytes l \<le> o_MaxBytes (lr_opts l) \<or> layer_Len l \<le> 1)"
proof -
  have "lru_bounded (lru_abs (cache_New name opts))"
    by (simp add: lru_abs_def lru_bounded_def total_weight_def)
  from bounded_run [OF lru_wf_New assms this, of ops] obtain l where
    l: "run_ops lru_cop ops (cache_New name opts) = Some l" "lru_wf l" "lru_bounded (lru_abs l)"
    by blast
  then show ?thesis
    using length_entries [OF l(2)] lru_wfD(4) [OF l(2)]
    by (auto simp: lru_bounded_def lru_abs_def layer_Len_def Let_def)
qed

definition demo_opts :: "nat lru_options" where
  "demo_opts = \<lparr>o_MaxEntries = 2, o_MaxBytes = 0, o_Weigh = Some (\<lambda>_. 1), o_TTL = 0, o_OnEvict = True\<rparr>"

theorem lru_runs_bounded_witness:
  "\<exists>l. run_ops lru_cop [OpPut 0 ''a'' (1::nat) 0, OpPut 1 ''b'' 2 0, OpPut 2 ''c'' 3 0]
        (cache_New ''hot'' demo_opts) = Some l \<and> int (layer_Len l) \<le> 2"
proof -
  have "weigh_nonneg (lr_opts (cache_New ''hot'' demo_opts))"
    by (simp add: weigh_nonneg_def cache_New_def demo_opts_def Let_def)
  from lru_runs_bounded [OF this, of "[OpPut 0 ''a'' (1::nat) 0, OpPut 1 ''b'' 2 0, OpPut 2 ''c'' 3 0]"]
  obtain l where l: "run_ops lru_cop [OpPut 0 ''a'' (1::nat) 0, OpPut 1 ''b'' 2 0, OpPut 2 ''c'' 3 0]
      (cache_New ''hot'' demo_opts) = Some l"
    "0 < o_MaxEntries (lr_opts l) \<longrightarrow> int (layer_Len l) \<le> o_MaxEntries (lr_opts l)"
    by blast
  from lru.run_refines [OF lru_wf_New, of "[OpPut 0 ''a'' (1::nat) 0, OpPut 1 ''b'' 2 0, OpPut 2 ''c'' 3 0]"
      "''hot''" demo_opts] l(1)
  have "lr_opts l = demo_opts"
    by (auto simp: lru_abs_def cache_New_def demo_opts_def Let_def)
  with l show ?thesis by (auto simp: demo_opts_def)
qed

text \<open>
  A value stored by \<open>Put\<close> is served by a later \<open>Get\<close> of the same key and generation
  until it expires, even when \<open>Put\<close> had to evict; a \<open>Get\<close> under any other generation is a miss.
\<close>
theorem put_then_get:
  assumes "lru_wf l" "0 < o_MaxEntries (lr_opts l)"
    and "0 < o_TTL (lr_opts l)" "later \<le> now + o_TTL (lr_opts l)"
  shows "\<exists>l'. layer_Put l now key v g = Some l' \<and> fst (layer_Get l' later key g) = Some v \<and>
     (\<forall>g'. g' \<noteq> g \<longrightarrow> fst (layer_Get l' later key g') = None)"
proof -
  from layer_Put_refines [OF assms(1), of now key v g] obtain l' where
    l': "layer_Put l now key v g = Some l'" "lru_wf l'"
      "live l' = spec_put (lr_opts l) now key v g (live l)" by blast
  define e where "e = \<lparr>e_key = key, e_value = v,
    e_weight = (case o_Weigh (lr_opts l) of None \<Rightarrow> 0 | Some f \<Rightarrow> f v), e_version = g,
    e_expiresAt = Some (now + o_TTL (lr_opts l))\<rparr>"
  have live: "live l' = lru_trim (lr_opts l) (e # filter (\<lambda>x. e_key x \<noteq> key) (live l))"
    using l'(3) assms(2,3) by (simp add: spec_put_def e_def)
  obtain k where k: "k \<le> length (e # filter (\<lambda>x. e_key x \<noteq> key) (live l))"
    "live l' = take k (e # filter (\<lambda>x. e_key x \<noteq> key) (live l))"
    "k < 1 \<longrightarrow> overfull (lr_opts l) (take 1 (e # filter (\<lambda>x. e_key x \<noteq> key) (live l)))"
    unfolding live using lru_trim_take [of "e # filter (\<lambda>x. e_key x \<noteq> key) (live l)" "lr_opts l"]
    by (metis One_nat_def Suc_leI length_greater_0_conv list.distinct(1))
  have "0 < k" using k(3) assms(2) by (cases k) (auto simp: overfull_def)
  with k(2) have "\<exists>es. live l' = e # es" by (cases k) auto
  then have find: "find (\<lambda>x. e_key x = key) (live l') = Some e" by (auto simp: e_def)
  have "fst (layer_Get l' later key g'') = fst (spec_get later key g'' (live l'))" for g''
    using layer_Get_refines [OF l'(2), of later key g''] by (metis fst_conv)
  with find l'(1) assms(4) show ?thesis
    by (auto simp: spec_get_def spec_serves_def e_def Let_def)
qed

theorem put_then_get_witness:
  "\<exists>l'. layer_Put (cache_New ''hot'' (demo_opts\<lparr>o_TTL := 10\<rparr>)) 0 ''a'' (7::nat) 1 = Some l' \<and>
     fst (layer_Get l' 5 ''a'' 1) = Some 7 \<and> (\<forall>g'. g' \<noteq> 1 \<longrightarrow> fst (layer_Get l' 5 ''a'' g') = None)"
  by (rule put_then_get [OF lru_wf_New])
     (simp_all add: cache_New_def demo_opts_def Let_def)

text \<open>
  Accounting of the \<open>OnEvict\<close> callback in \<open>Put\<close>: every value evicted to make room is
  released exactly once, and the only value that leaves the layer without being released is
  the one the new value overwrites under the same key.
\<close>
theorem put_release_accounting:
  assumes "lru_wf l" "o_MaxEntries (lr_opts l) \<noteq> 0" "o_OnEvict (lr_opts l)"
    and "layer_Put l now key v g = Some l'"
  shows "mset (map e_value (live l')) + mset (lr_released l')
       + mset (map e_value (filter (\<lambda>e. e_key e = key) (live l)))
     = mset (map e_value (live l)) + mset (lr_released l) + {#v#}"
proof -
  from layer_Put_state [OF assms(1,2), of now key v g] obtain l1 e where
    l1: "lru_wf l1" "lr_opts l1 = lr_opts l" "lr_released l1 = lr_released l"
      "layer_Put l now key v g = evictOverflow l1" "e_value e = v"
      "live l1 = e # filter (\<lambda>x. e_key x \<noteq> key) (live l)" by auto
  from evictOverflow_refines [OF l1(1)] l1 assms(3,4) have
    l': "live l' = lru_trim (lr_opts l) (live l1)"
      "lr_released l' = lr_released l @ map e_value (rev (drop (length (live l')) (live l1)))"
    by auto
  have "live l' = take (length (live l')) (live l1)"
    using lru_trim_take [of "live l1" "lr_opts l"] l'(1) by auto
  then have "mset (map e_value (live l')) + mset (map e_value (drop (length (live l')) (live l1)))
      = mset (map e_value (live l1))"
    by (metis append_take_drop_id mset_append map_append)
  moreover have "mset (lr_released l') =
      mset (lr_released l) + mset (map e_value (drop (length (live l')) (live l1)))"
    unfolding l'(2) by simp
  moreover have "mset (map e_value (live l1)) =
      {#v#} + image_mset e_value (filter_mset (\<lambda>x. e_key x \<noteq> key) (mset (live l)))"
    using l1(5,6) by simp
  moreover have "image_mset e_value (mset (live l)) =
      image_mset e_value (filter_mset (\<lambda>x. e_key x \<noteq> key) (mset (live l))) +
      image_mset e_value (filter_mset (\<lambda>x. e_key x = key) (mset (live l)))"
    using multiset_partition [of "mset (live l)" "\<lambda>x. e_key x \<noteq> key"]
    by (metis (no_types, lifting) filter_mset_cong image_mset_union)
  ultimately show ?thesis
    by (simp only: mset_map mset_filter union_assoc [symmetric]) (simp add: ac_simps)
qed

theorem put_release_accounting_witness:
  "\<exists>l l'. lru_wf l \<and> layer_Put l 1 ''a'' (8::nat) 1 = Some l' \<and>
     map e_value (live l) = [7] \<and> map e_value (live l') = [8] \<and> lr_released l' = [] \<and>
     mset (map e_value (live l')) + mset (lr_released l')
       + mset (map e_value (filter (\<lambda>e. e_key e = ''a'') (live l)))
     = mset (map e_value (live l)) + mset (lr_released l) + {#8#}"
proof -
  define l where "l = the (layer_Put (cache_New ''hot'' demo_opts) 0 ''a'' (7::nat) 1)"
  define l' where "l' = the (layer_Put l 1 ''a'' 8 1)"
  note defs = layer_Put_def cache_New_def demo_opts_def Let_def weigh_def evictOverflow.simps
    deref_def moveToFront_def live_def
  have wf: "lru_wf l"
    using layer_Put_refines [OF lru_wf_New, of "''hot''" demo_opts 0 "''a''" 7 1]
    by (auto simp: l_def)
  have l: "map e_value (live l) = [7]" "o_MaxEntries (lr_opts l) \<noteq> 0" "o_OnEvict (lr_opts l)"
    by (simp_all add: l_def defs)
  have l': "layer_Put l 1 ''a'' 8 1 = Some l'" "map e_value (live l') = [8]" "lr_released l' = []"
    by (simp_all add: l_def l'_def defs)
  from put_release_accounting [OF wf l(2,3) l'(1)] wf l l' show ?thesis
    by (intro exI [of _ l] exI [of _ l'] conjI)
qed

end
