(* ===== verification/GoHeap.thy ===== *)
theory GoHeap
  imports Prelude
begin

text \<open>
  Go's \<open>container/heap\<close> as the test queue uses it: the array form of a binary heap with
  \<open>up\<close>, \<open>down\<close>, \<open>Push\<close>, \<open>Pop\<close>, \<open>Remove\<close> and \<open>Fix\<close>, generic in the \<open>Less\<close> of the
  element type. The locale states what \<open>Less\<close> has to satisfy (a strict weak order) and proves
  once that the operations keep the heap order, keep the elements, and that \<open>Pop\<close> returns a
  least element.
\<close>

section \<open>Operations\<close>

definition heap_parent :: "nat \<Rightarrow> nat" where
  "heap_parent k = (k - 1) div 2"

definition list_swap :: "'a list \<Rightarrow> nat \<Rightarrow> nat \<Rightarrow> 'a list" where
  "list_swap h i j = h[i := h ! j, j := h ! i]"

function heap_up :: "('a \<Rightarrow> 'a \<Rightarrow> bool) \<Rightarrow> 'a list \<Rightarrow> nat \<Rightarrow> 'a list" where
  "heap_up lt h j =
     (let i = heap_parent j in
      if j = 0 \<or> \<not> lt (h ! j) (h ! i) then h else heap_up lt (list_swap h i j) i)"
  by pat_completeness auto
termination
  by (relation "measure (\<lambda>(lt, h, j). j)") (auto simp: heap_parent_def)

text \<open>The smaller child of \<open>i\<close> within the first \<open>n\<close> elements, assuming \<open>2 * i + 1 < n\<close>.\<close>

definition heap_child :: "('a \<Rightarrow> 'a \<Rightarrow> bool) \<Rightarrow> 'a list \<Rightarrow> nat \<Rightarrow> nat \<Rightarrow> nat" where
  "heap_child lt h i n =
     (if 2 * i + 2 < n \<and> lt (h ! (2 * i + 2)) (h ! (2 * i + 1)) then 2 * i + 2 else 2 * i + 1)"

function heap_down :: "('a \<Rightarrow> 'a \<Rightarrow> bool) \<Rightarrow> 'a list \<Rightarrow> nat \<Rightarrow> nat \<Rightarrow> 'a list \<times> nat" where
  "heap_down lt h i n =
     (if n \<le> 2 * i + 1 then (h, i)
      else let j = heap_child lt h i n in
        if \<not> lt (h ! j) (h ! i) then (h, i) else heap_down lt (list_swap h i j) j n)"
  by pat_completeness auto
termination
  by (relation "measure (\<lambda>(lt, h, i, n). n - i)") (auto simp: heap_child_def)

declare heap_up.simps [simp del] heap_down.simps [simp del]

definition heap_push :: "('a \<Rightarrow> 'a \<Rightarrow> bool) \<Rightarrow> 'a list \<Rightarrow> 'a \<Rightarrow> 'a list" where
  "heap_push lt h x = heap_up lt (h @ [x]) (length h)"

definition heap_fix :: "('a \<Rightarrow> 'a \<Rightarrow> bool) \<Rightarrow> 'a list \<Rightarrow> nat \<Rightarrow> 'a list" where
  "heap_fix lt h i =
     (let (h1, k) = heap_down lt h i (length h) in if k > i then h1 else heap_up lt h1 i)"

text \<open>\<open>Pop\<close> and \<open>Remove\<close> panic on an empty or too short slice: \<open>None\<close>.\<close>

definition heap_pop :: "('a \<Rightarrow> 'a \<Rightarrow> bool) \<Rightarrow> 'a list \<Rightarrow> ('a \<times> 'a list) option" where
  "heap_pop lt h =
     (if h = [] then None
      else let n = length h - 1;
               h1 = fst (heap_down lt (list_swap h 0 n) 0 n)
           in Some (last h1, butlast h1))"

definition heap_remove :: "('a \<Rightarrow> 'a \<Rightarrow> bool) \<Rightarrow> 'a list \<Rightarrow> nat \<Rightarrow> ('a \<times> 'a list) option" where
  "heap_remove lt h i =
     (if length h \<le> i then None
      else let n = length h - 1;
               h1 = (if n = i then h
                     else let (h2, k) = heap_down lt (list_swap h i n) i n
                          in if k > i then h2 else heap_up lt h2 i)
           in Some (last h1, butlast h1))"

definition heap_index :: "'a list \<Rightarrow> 'a \<Rightarrow> nat option" where
  "heap_index h x = find (\<lambda>i. h ! i = x) [0..<length h]"

section \<open>Heap order\<close>

definition heap_edge :: "('a \<Rightarrow> 'a \<Rightarrow> bool) \<Rightarrow> 'a list \<Rightarrow> nat \<Rightarrow> bool" where
  "heap_edge lt h k \<longleftrightarrow> \<not> lt (h ! k) (h ! heap_parent k)"

definition heap_ok :: "('a \<Rightarrow> 'a \<Rightarrow> bool) \<Rightarrow> 'a list \<Rightarrow> nat \<Rightarrow> bool" where
  "heap_ok lt h n \<longleftrightarrow> (\<forall>k. 0 < k \<longrightarrow> k < n \<longrightarrow> heap_edge lt h k)"

text \<open>
  All edges hold except possibly those at \<open>i\<close>, and the children of \<open>i\<close> are not before its
  parent: the state in the middle of a sift.
\<close>

definition heap_hole :: "('a \<Rightarrow> 'a \<Rightarrow> bool) \<Rightarrow> 'a list \<Rightarrow> nat \<Rightarrow> nat \<Rightarrow> bool" where
  "heap_hole lt h n i \<longleftrightarrow>
     (\<forall>k. 0 < k \<longrightarrow> k < n \<longrightarrow> k \<noteq> i \<longrightarrow> heap_parent k \<noteq> i \<longrightarrow> heap_edge lt h k) \<and>
     (\<forall>k. 0 < k \<longrightarrow> k < n \<longrightarrow> heap_parent k = i \<longrightarrow> 0 < i \<longrightarrow> \<not> lt (h ! k) (h ! heap_parent i))"

lemma heap_parent_lt: "0 < k \<Longrightarrow> heap_parent k < k"
  by (auto simp: heap_parent_def)

lemma heap_parent_iff: "0 < k \<Longrightarrow> heap_parent k = i \<longleftrightarrow> k = 2 * i + 1 \<or> k = 2 * i + 2"
  by (auto simp: heap_parent_def)

lemma length_list_swap [simp]: "length (list_swap h i j) = length h"
  by (simp add: list_swap_def)

lemma nth_list_swap:
  "i < length h \<Longrightarrow> j < length h \<Longrightarrow> k < length h \<Longrightarrow>
   list_swap h i j ! k = (if k = i then h ! j else if k = j then h ! i else h ! k)"
  by (auto simp: list_swap_def nth_list_update)

lemma mset_list_swap [simp]: "i < length h \<Longrightarrow> j < length h \<Longrightarrow> mset (list_swap h i j) = mset h"
  by (simp add: list_swap_def mset_swap)

lemma length_heap_up [simp]: "length (heap_up lt h j) = length h"
  by (induction lt h j rule: heap_up.induct) (subst heap_up.simps, auto simp: Let_def)

lemma mset_heap_up: "j < length h \<Longrightarrow> mset (heap_up lt h j) = mset h"
proof (induction lt h j rule: heap_up.induct)
  case (1 lt h j)
  then show ?case
    using heap_parent_lt [of j] by (subst heap_up.simps) (auto simp: Let_def)
qed

lemma heap_child_bounds: "2 * i + 1 < n \<Longrightarrow> i < heap_child lt h i n \<and> heap_child lt h i n < n"
  by (auto simp: heap_child_def)

lemma heap_down_facts:
  "n \<le> length h \<Longrightarrow> i < length h \<Longrightarrow>
   mset (fst (heap_down lt h i n)) = mset h \<and> length (fst (heap_down lt h i n)) = length h \<and>
   i \<le> snd (heap_down lt h i n) \<and> (\<forall>k. n \<le> k \<longrightarrow> k < length h \<longrightarrow> fst (heap_down lt h i n) ! k = h ! k)"
proof (induction lt h i n rule: heap_down.induct)
  case (1 lt h i n)
  show ?case
  proof (cases "n \<le> 2 * i + 1 \<or> \<not> lt (h ! heap_child lt h i n) (h ! i)")
    case True
    then show ?thesis by (subst heap_down.simps) (auto simp: Let_def heap_down.simps [of lt h i n])
  next
    case False
    let ?j = "heap_child lt h i n"
    from False have j: "i < ?j" "?j < n" using heap_child_bounds [of i n lt h] by auto
    have step: "heap_down lt h i n = heap_down lt (list_swap h i ?j) ?j n"
      using False by (subst heap_down.simps) (simp add: Let_def)
    have "mset (fst (heap_down lt (list_swap h i ?j) ?j n)) = mset (list_swap h i ?j) \<and>
      length (fst (heap_down lt (list_swap h i ?j) ?j n)) = length (list_swap h i ?j) \<and>
      ?j \<le> snd (heap_down lt (list_swap h i ?j) ?j n) \<and>
      (\<forall>k. n \<le> k \<longrightarrow> k < length (list_swap h i ?j) \<longrightarrow>
        fst (heap_down lt (list_swap h i ?j) ?j n) ! k = list_swap h i ?j ! k)"
      using 1 False j by simp
    with j 1(2,3) show ?thesis by (auto simp: step nth_list_swap)
  qed
qed

section \<open>Sifting under a strict weak order\<close>

locale strict_weak =
  fixes lt :: "'a \<Rightarrow> 'a \<Rightarrow> bool"
  assumes less_asym: "lt x y \<Longrightarrow> \<not> lt y x"
    and less_negtrans: "\<not> lt x y \<Longrightarrow> \<not> lt y z \<Longrightarrow> \<not> lt x z"
begin

lemma not_less_refl: "\<not> lt x x"
  using less_asym by blast

lemma swap_down_hole:
  assumes hole: "heap_hole lt h n i" and n: "n \<le> length h" "2 * i + 1 < n"
    and below: "lt (h ! heap_child lt h i n) (h ! i)"
  shows "heap_hole lt (list_swap h i (heap_child lt h i n)) n (heap_child lt h i n) \<and>
    heap_edge lt (list_swap h i (heap_child lt h i n)) (heap_child lt h i n) \<and>
    (0 < i \<longrightarrow> heap_edge lt (list_swap h i (heap_child lt h i n)) i)"
proof -
  let ?j = "heap_child lt h i n"
  let ?g = "list_swap h i ?j"
  have j: "i < ?j" "?j < n" "heap_parent ?j = i"
    using heap_child_bounds [OF n(2), of lt h] by (auto simp: heap_child_def heap_parent_def)
  have g: "?g ! k = (if k = i then h ! ?j else if k = ?j then h ! i else h ! k)" if "k < n" for k
    using that j n by (simp add: nth_list_swap)
  have sib: "\<not> lt (h ! k) (h ! ?j)" if "k = 2 * i + 1 \<or> k = 2 * i + 2" "k < n" for k
    using that less_asym not_less_refl by (auto simp: heap_child_def)
  have edge_j: "heap_edge lt ?g ?j"
    using g [of ?j] g [of i] j n less_asym [OF below] by (simp add: heap_edge_def)
  have edge_i: "heap_edge lt ?g i" if "0 < i"
  proof -
    have "\<not> lt (h ! ?j) (h ! heap_parent i)"
      using hole j that unfolding heap_hole_def by auto
    then show ?thesis
      using g [of i] g [of "heap_parent i"] heap_parent_lt [OF that] j by (simp add: heap_edge_def)
  qed
  have "heap_edge lt ?g k" if k: "0 < k" "k < n" "k \<noteq> ?j" "heap_parent k \<noteq> ?j" for k
  proof (cases "k = i \<or> heap_parent k = i")
    case True
    then show ?thesis
    proof
      assume "k = i"
      with edge_i k(1) show ?thesis by simp
    next
      assume p: "heap_parent k = i"
      with k have "k = 2 * i + 1 \<or> k = 2 * i + 2" by (simp add: heap_parent_iff)
      with sib k(2) have "\<not> lt (h ! k) (h ! ?j)" by blast
      with k p g [of k] g [of i] j heap_parent_lt [OF k(1)] show ?thesis by (simp add: heap_edge_def)
    qed
  next
    case False
    then have "heap_edge lt h k" using hole k unfolding heap_hole_def by auto
    with False k g [of k] g [of "heap_parent k"] heap_parent_lt [OF k(1)] show ?thesis
      by (simp add: heap_edge_def)
  qed
  moreover have "\<not> lt (?g ! k) (?g ! heap_parent ?j)" if k: "0 < k" "k < n" "heap_parent k = ?j" for k
  proof -
    have "heap_edge lt h k"
      using hole k j heap_parent_lt [OF k(1)] unfolding heap_hole_def by auto
    with k j g [of k] g [of i] n heap_parent_lt [OF k(1)] show ?thesis by (simp add: heap_edge_def)
  qed
  ultimately have "heap_hole lt ?g n ?j" by (auto simp: heap_hole_def)
  with edge_j edge_i show ?thesis by blast
qed

lemma heap_down_ok:
  "heap_hole lt h n i \<Longrightarrow> (0 < i \<longrightarrow> heap_edge lt h i) \<Longrightarrow> n \<le> length h \<Longrightarrow>
   heap_ok lt (fst (heap_down lt h i n)) n"
proof (induction "n - i" arbitrary: h i rule: less_induct)
  case less
  show ?case
  proof (cases "n \<le> 2 * i + 1 \<or> \<not> lt (h ! heap_child lt h i n) (h ! i)")
    case True
    have stop: "fst (heap_down lt h i n) = h"
      using True by (subst heap_down.simps) (auto simp: Let_def)
    have "heap_edge lt h k" if k: "0 < k" "k < n" for k
    proof (cases "heap_parent k = i")
      case p: True
      with k have two: "k = 2 * i + 1 \<or> k = 2 * i + 2" by (simp add: heap_parent_iff)
      with True k have child: "\<not> lt (h ! heap_child lt h i n) (h ! i)" by auto
      have "\<not> lt (h ! k) (h ! heap_child lt h i n)"
        using two k less_asym not_less_refl by (auto simp: heap_child_def)
      with child p show ?thesis using less_negtrans by (auto simp: heap_edge_def)
    next
      case False
      with less.prems k show ?thesis by (cases "k = i") (auto simp: heap_hole_def)
    qed
    with stop show ?thesis by (simp add: heap_ok_def)
  next
    case False
    let ?j = "heap_child lt h i n"
    from False have j: "i < ?j" "?j < n" using heap_child_bounds [of i n lt h] by auto
    have "heap_down lt h i n = heap_down lt (list_swap h i ?j) ?j n"
      using False by (subst heap_down.simps) (simp add: Let_def)
    with less.hyps [of ?j "list_swap h i ?j"] swap_down_hole [of h n i] less.prems False j
    show ?thesis by simp
  qed
qed

lemma heap_down_hole:
  assumes "heap_hole lt h n i" "n \<le> length h" "i < n"
  shows "if i < snd (heap_down lt h i n) then heap_ok lt (fst (heap_down lt h i n)) n
    else fst (heap_down lt h i n) = h \<and>
      (\<forall>k. 0 < k \<longrightarrow> k < n \<longrightarrow> k \<noteq> i \<longrightarrow> heap_edge lt h k)"
proof (cases "n \<le> 2 * i + 1 \<or> \<not> lt (h ! heap_child lt h i n) (h ! i)")
  case True
  have stop: "heap_down lt h i n = (h, i)"
    using True by (subst heap_down.simps) (auto simp: Let_def)
  have "heap_edge lt h k" if k: "0 < k" "k < n" "k \<noteq> i" for k
  proof (cases "heap_parent k = i")
    case p: True
    with k have two: "k = 2 * i + 1 \<or> k = 2 * i + 2" by (simp add: heap_parent_iff)
    with True k have child: "\<not> lt (h ! heap_child lt h i n) (h ! i)" by auto
    have "\<not> lt (h ! k) (h ! heap_child lt h i n)"
      using two k less_asym not_less_refl by (auto simp: heap_child_def)
    with child p show ?thesis using less_negtrans by (auto simp: heap_edge_def)
  next
    case False
    with assms(1) k show ?thesis by (auto simp: heap_hole_def)
  qed
  with stop show ?thesis by simp
next
  case False
  let ?j = "heap_child lt h i n"
  from False have j: "i < ?j" "?j < n" using heap_child_bounds [of i n lt h] by auto
  have step: "heap_down lt h i n = heap_down lt (list_swap h i ?j) ?j n"
    using False by (subst heap_down.simps) (simp add: Let_def)
  have "?j \<le> snd (heap_down lt (list_swap h i ?j) ?j n)"
    using heap_down_facts [of n "list_swap h i ?j" ?j lt] assms j by simp
  moreover have "heap_ok lt (fst (heap_down lt (list_swap h i ?j) ?j n)) n"
    using swap_down_hole [of h n i] assms False j by (intro heap_down_ok) auto
  ultimately show ?thesis using step j by simp
qed

lemma heap_up_ok:
  "(\<forall>k. 0 < k \<longrightarrow> k < n \<longrightarrow> k \<noteq> j \<longrightarrow> heap_edge lt h k) \<Longrightarrow>
   (\<forall>k. 0 < k \<longrightarrow> k < n \<longrightarrow> heap_parent k = j \<longrightarrow> 0 < j \<longrightarrow> \<not> lt (h ! k) (h ! heap_parent j)) \<Longrightarrow>
   j < n \<Longrightarrow> n \<le> length h \<Longrightarrow> heap_ok lt (heap_up lt h j) n"
proof (induction j arbitrary: h rule: less_induct)
  case (less j)
  show ?case
  proof (cases "j = 0 \<or> \<not> lt (h ! j) (h ! heap_parent j)")
    case True
    have "heap_up lt h j = h" using True by (subst heap_up.simps) (auto simp: Let_def)
    moreover have "heap_edge lt h k" if "0 < k" "k < n" for k
      using that True less.prems(1) by (cases "k = j") (auto simp: heap_edge_def)
    ultimately show ?thesis by (simp add: heap_ok_def)
  next
    case False
    let ?i = "heap_parent j"
    let ?g = "list_swap h ?i j"
    from False have i: "?i < j" "0 < j" by (auto intro: heap_parent_lt)
    have g: "?g ! k = (if k = ?i then h ! j else if k = j then h ! ?i else h ! k)" if "k < n" for k
      using that i less.prems(3,4) by (simp add: nth_list_swap)
    have edges: "heap_edge lt ?g k" if k: "0 < k" "k < n" "k \<noteq> ?i" for k
    proof (cases "k = j \<or> heap_parent k = j \<or> heap_parent k = ?i")
      case True
      then consider "k = j" | "k \<noteq> j" "heap_parent k = j" | "k \<noteq> j" "heap_parent k = ?i" by blast
      then show ?thesis
      proof cases
        case 1
        with False g [of k] g [of ?i] i k less_asym [of "h ! j" "h ! ?i"] show ?thesis by (simp add: heap_edge_def)
      next
        case 2
        with k g [of k] g [of j] less.prems(2,3) i show ?thesis by (auto simp: heap_edge_def)
      next
        case 3
        have "heap_edge lt h k" using k 3 less.prems(1) by auto
        then have "\<not> lt (h ! k) (h ! ?i)" using 3 by (simp add: heap_edge_def)
        moreover have "\<not> lt (h ! ?i) (h ! j)" using False less_asym by blast
        ultimately have "\<not> lt (h ! k) (h ! j)" by (rule less_negtrans)
        with 3 k g [of k] g [of ?i] i less.prems(3) show ?thesis by (simp add: heap_edge_def)
      qed
    next
      case False
      with k have "heap_edge lt h k" using less.prems(1) by auto
      with False k g [of k] g [of "heap_parent k"] heap_parent_lt [OF k(1)] show ?thesis
        by (auto simp: heap_edge_def)
    qed
    have kids: "\<not> lt (?g ! k) (?g ! heap_parent ?i)"
      if k: "0 < k" "k < n" "heap_parent k = ?i" "0 < ?i" for k
    proof -
      have pi: "heap_parent ?i < ?i" using k(4) by (rule heap_parent_lt)
      have e: "\<not> lt (h ! ?i) (h ! heap_parent ?i)"
        using less.prems(1,3) i k(4) by (auto simp: heap_edge_def)
      show ?thesis
      proof (cases "k = j")
        case True
        with e g [of k] g [of "heap_parent ?i"] pi i k show ?thesis by auto
      next
        case False
        then have "\<not> lt (h ! k) (h ! ?i)"
          using less.prems(1) k by (metis heap_edge_def)
        with e have "\<not> lt (h ! k) (h ! heap_parent ?i)" by (rule less_negtrans [rotated])
        moreover have "k \<noteq> ?i" using heap_parent_lt [OF k(1)] k(3) by simp
        ultimately show ?thesis using False g [of k] g [of "heap_parent ?i"] pi i k less.prems(3) by auto
      qed
    qed
    have "heap_ok lt (heap_up lt ?g ?i) n"
      using edges kids i less.prems(3,4) by (intro less.IH) auto
    moreover have "heap_up lt h j = heap_up lt ?g ?i"
      using False by (subst heap_up.simps) (simp add: Let_def)
    ultimately show ?thesis by simp
  qed
qed

lemma heap_root_least:
  assumes "heap_ok lt h n" "k < n"
  shows "\<not> lt (h ! k) (h ! 0)"
  using assms(2)
proof (induction k rule: less_induct)
  case (less k)
  show ?case
  proof (cases "k = 0")
    case True
    then show ?thesis by (simp add: not_less_refl)
  next
    case False
    with less assms(1) have "\<not> lt (h ! k) (h ! heap_parent k)"
      by (auto simp: heap_ok_def heap_edge_def)
    moreover have "\<not> lt (h ! heap_parent k) (h ! 0)"
      using False less heap_parent_lt [of k] by simp
    ultimately show ?thesis by (rule less_negtrans)
  qed
qed

lemma heap_push_ok:
  assumes "heap_ok lt h (length h)"
  shows "heap_ok lt (heap_push lt h x) (length (heap_push lt h x))"
    "mset (heap_push lt h x) = add_mset x (mset h)"
proof -
  have old: "heap_edge lt (h @ [x]) k" if "0 < k" "k < length h" for k
    using assms that heap_parent_lt [OF that(1)]
    by (simp add: heap_ok_def heap_edge_def nth_append)
  have "heap_ok lt (heap_up lt (h @ [x]) (length h)) (Suc (length h))"
  proof (rule heap_up_ok)
    show "\<forall>k. 0 < k \<longrightarrow> k < Suc (length h) \<longrightarrow> k \<noteq> length h \<longrightarrow> heap_edge lt (h @ [x]) k"
      using old by (simp add: less_Suc_eq)
    show "\<forall>k. 0 < k \<longrightarrow> k < Suc (length h) \<longrightarrow> heap_parent k = length h \<longrightarrow> 0 < length h \<longrightarrow>
        \<not> lt ((h @ [x]) ! k) ((h @ [x]) ! heap_parent (length h))"
      using heap_parent_lt by (metis not_less_eq)
  qed simp_all
  then show "heap_ok lt (heap_push lt h x) (length (heap_push lt h x))"
    by (simp add: heap_push_def)
  show "mset (heap_push lt h x) = add_mset x (mset h)"
    using mset_heap_up [of "length h" "h @ [x]" lt] by (simp add: heap_push_def)
qed

lemma heap_ok_butlast:
  assumes "heap_ok lt h (length h - 1)"
  shows "heap_ok lt (butlast h) (length (butlast h))"
  unfolding heap_ok_def
proof (intro allI impI)
  fix k assume k: "0 < k" "k < length (butlast h)"
  with assms have "heap_edge lt h k" by (simp add: heap_ok_def)
  moreover have "heap_parent k < length (butlast h)" using heap_parent_lt [OF k(1)] k(2) by simp
  ultimately show "heap_edge lt (butlast h) k"
    using k(2) by (simp add: heap_edge_def nth_butlast)
qed

lemma swap_last_hole:
  assumes ok: "heap_ok lt h (length h)" and i: "i < length h - 1"
  shows "heap_hole lt (list_swap h i (length h - 1)) (length h - 1) i"
proof -
  let ?n = "length h - 1"
  let ?g = "list_swap h i ?n"
  have g: "?g ! k = (if k = i then h ! ?n else h ! k)" if "k < ?n" for k
    using that i by (simp add: nth_list_swap)
  have edge: "\<not> lt (h ! k) (h ! heap_parent k)" if "0 < k" "k < length h" for k
    using ok that by (simp add: heap_ok_def heap_edge_def)
  have "heap_edge lt ?g k" if k: "0 < k" "k < ?n" "k \<noteq> i" "heap_parent k \<noteq> i" for k
    using k edge [of k] g [of k] g [of "heap_parent k"] heap_parent_lt [OF k(1)]
    by (simp add: heap_edge_def)
  moreover have "\<not> lt (?g ! k) (?g ! heap_parent i)"
    if k: "0 < k" "k < ?n" "heap_parent k = i" "0 < i" for k
  proof -
    have "\<not> lt (h ! k) (h ! i)" using edge [of k] k by simp
    moreover have "\<not> lt (h ! i) (h ! heap_parent i)" using edge [of i] k i by simp
    ultimately have "\<not> lt (h ! k) (h ! heap_parent i)" by (rule less_negtrans)
    moreover have "k \<noteq> i" using k heap_parent_lt [OF k(1)] by auto
    ultimately show ?thesis
      using k i g [of k] g [of "heap_parent i"] heap_parent_lt [OF k(4)] by simp
  qed
  ultimately show ?thesis by (auto simp: heap_hole_def)
qed

lemma heap_sift_ok:
  assumes "heap_hole lt h n i" "n \<le> length h" "i < n"
  defines "r \<equiv> (let (h1, k) = heap_down lt h i n in if i < k then h1 else heap_up lt h1 i)"
  shows "heap_ok lt r n" "mset r = mset h" "length r = length h"
    "\<And>k. n \<le> k \<Longrightarrow> k < length h \<Longrightarrow> i < snd (heap_down lt h i n) \<Longrightarrow> r ! k = h ! k"
proof -
  obtain h1 k where hk: "heap_down lt h i n = (h1, k)" by fastforce
  note facts = heap_down_facts [OF assms(2) order.strict_trans2 [OF assms(3,2)], of lt]
  note hole = heap_down_hole [OF assms(1-3)]
  show "heap_ok lt r n"
  proof (cases "i < k")
    case True
    with hole hk show ?thesis by (simp add: r_def)
  next
    case False
    with hole hk have "h1 = h" "\<forall>k. 0 < k \<longrightarrow> k < n \<longrightarrow> k \<noteq> i \<longrightarrow> heap_edge lt h k" by auto
    with assms(1-3) False hk show ?thesis
      by (auto simp: r_def heap_hole_def intro!: heap_up_ok)
  qed
  show "mset r = mset h" "length r = length h"
    using facts hk assms(2,3) by (auto simp: r_def mset_heap_up)
  show "\<And>k. n \<le> k \<Longrightarrow> k < length h \<Longrightarrow> i < snd (heap_down lt h i n) \<Longrightarrow> r ! k = h ! k"
    using facts hk by (auto simp: r_def)
qed

lemma heap_up_prefix:
  "j < n \<Longrightarrow> n \<le> length h \<Longrightarrow> n \<le> k \<Longrightarrow> k < length h \<Longrightarrow> heap_up lt h j ! k = h ! k"
proof (induction j arbitrary: h rule: less_induct)
  case (less j)
  show ?case
  proof (cases "j = 0 \<or> \<not> lt (h ! j) (h ! heap_parent j)")
    case True
    then show ?thesis by (subst heap_up.simps) (auto simp: Let_def)
  next
    case False
    then have i: "heap_parent j < j" by (simp add: heap_parent_lt)
    with less.prems less.IH [OF i, of "list_swap h (heap_parent j) j"]
    have "heap_up lt (list_swap h (heap_parent j) j) (heap_parent j) ! k = h ! k"
      by (simp add: nth_list_swap)
    with False show ?thesis by (subst heap_up.simps) (simp add: Let_def)
  qed
qed

lemma heap_remove_ok:
  assumes ok: "heap_ok lt h (length h)" and i: "i < length h"
  shows "\<exists>h'. heap_remove lt h i = Some (h ! i, h') \<and> heap_ok lt h' (length h') \<and>
    mset h = add_mset (h ! i) (mset h') \<and> length h' = length h - 1"
proof (cases "i = length h - 1")
  case True
  have ne: "h \<noteq> []" using i by auto
  have "heap_ok lt h (length h - 1)" using ok by (simp add: heap_ok_def)
  then have "heap_ok lt (butlast h) (length (butlast h))" by (rule heap_ok_butlast)
  moreover have "mset h = add_mset (last h) (mset (butlast h))"
    using ne by (metis append_butlast_last_id mset_append mset_single_iff_right union_mset_add_mset_right
        add.right_neutral mset.simps)
  ultimately show ?thesis
    using True i ne by (simp add: heap_remove_def last_conv_nth not_le)
next
  case False
  let ?n = "length h - 1"
  let ?g = "list_swap h i ?n"
  from False i have lt_n: "i < ?n" by simp
  define r where "r = (let (h1, k) = heap_down lt ?g i ?n in if i < k then h1 else heap_up lt h1 i)"
  have len: "?n \<le> length ?g" by simp
  note sift = heap_sift_ok [OF swap_last_hole [OF ok lt_n] len lt_n, folded r_def]
  have "r ! ?n = ?g ! ?n"
  proof (cases "i < snd (heap_down lt ?g i ?n)")
    case True
    then show ?thesis using sift(4) i by simp
  next
    case False
    with heap_down_hole [OF swap_last_hole [OF ok lt_n] len lt_n]
    have "fst (heap_down lt ?g i ?n) = ?g" by simp
    with False have "r = heap_up lt ?g i" by (auto simp: r_def split: prod.split)
    then show ?thesis using heap_up_prefix [OF lt_n len, of ?n] i by simp
  qed
  also have "\<dots> = h ! i" using i by (simp add: nth_list_swap)
  finally have rn: "r ! ?n = h ! i" .
  have "r \<noteq> []" using sift(3) i by auto
  then have last: "last r = h ! i" "r \<noteq> []"
    using rn sift(3) by (simp_all add: last_conv_nth)
  have "mset h = mset r" using sift(2) i by simp
  also have "\<dots> = add_mset (last r) (mset (butlast r))"
    using last(2) by (metis append_butlast_last_id mset_append mset_single_iff_right
        union_mset_add_mset_right add.right_neutral mset.simps)
  finally have "mset h = add_mset (h ! i) (mset (butlast r))" using last(1) by simp
  moreover have "heap_ok lt (butlast r) (length (butlast r))"
    using sift(1,3) by (intro heap_ok_butlast) simp
  moreover have "heap_remove lt h i = Some (last r, butlast r)"
    using i False by (simp add: heap_remove_def r_def Let_def)
  ultimately show ?thesis using last sift(3) by simp
qed

lemma heap_pop_remove: "heap_ok lt h (length h) \<Longrightarrow> h \<noteq> [] \<Longrightarrow> heap_pop lt h = heap_remove lt h 0"
proof -
  assume ok: "heap_ok lt h (length h)" and ne: "h \<noteq> []"
  show ?thesis
  proof (cases "length h = 1")
    case True
    then show ?thesis
      by (auto simp: heap_pop_def heap_remove_def list_swap_def heap_down.simps length_Suc_conv)
  next
    case False
    let ?n = "length h - 1"
    have n: "0 < ?n" using ne False by (cases h) auto
    have len: "?n \<le> length (list_swap h 0 ?n)" by simp
    note hole = heap_down_hole [OF swap_last_hole [OF ok n] len n]
    have "(let (h2, k) = heap_down lt (list_swap h 0 ?n) 0 ?n in if 0 < k then h2 else heap_up lt h2 0)
        = fst (heap_down lt (list_swap h 0 ?n) 0 ?n)"
      by (auto simp: Let_def heap_up.simps split: prod.split)
    with n ne show ?thesis by (simp add: heap_pop_def heap_remove_def Let_def)
  qed
qed

lemma heap_pop_ok:
  assumes ok: "heap_ok lt h (length h)" and ne: "h \<noteq> []"
  shows "\<exists>x h'. heap_pop lt h = Some (x, h') \<and> heap_ok lt h' (length h') \<and>
    mset h = add_mset x (mset h') \<and> (\<forall>y \<in> set h'. \<not> lt y x)"
proof -
  from heap_remove_ok [OF ok, of 0] ne obtain h' where
    h': "heap_remove lt h 0 = Some (h ! 0, h')" "heap_ok lt h' (length h')"
      "mset h = add_mset (h ! 0) (mset h')" by auto
  have "\<not> lt y (h ! 0)" if "y \<in> set h'" for y
  proof -
    have "y \<in># mset h" using h'(3) that by simp
    then obtain k where "k < length h" "y = h ! k" by (auto simp: in_set_conv_nth)
    then show ?thesis using heap_root_least [OF ok] by simp
  qed
  with h' heap_pop_remove [OF ok ne] show ?thesis by auto
qed

lemma heap_fix_ok:
  assumes "heap_hole lt h (length h) i" "i < length h"
  shows "heap_ok lt (heap_fix lt h i) (length (heap_fix lt h i))" "mset (heap_fix lt h i) = mset h"
  using heap_sift_ok [OF assms(1) order_refl assms(2)] by (simp_all add: heap_fix_def)

end

text \<open>
  Changing the key of the element at \<open>i\<close> only leaves a hole at \<open>i\<close>: what \<open>Fix\<close> repairs.
\<close>

lemma heap_hole_change:
  assumes sw: "strict_weak lt" and ok: "heap_ok lt h (length h)" and i: "i < length h"
    and d: "distinct h"
    and agree: "\<And>x y. x \<noteq> h ! i \<Longrightarrow> y \<noteq> h ! i \<Longrightarrow> lt' x y = lt x y"
  shows "heap_hole lt' h (length h) i"
proof -
  have neq: "h ! k \<noteq> h ! i" if "k \<noteq> i" "k < length h" for k
    using that d i by (simp add: nth_eq_iff_index_eq)
  have edge: "\<not> lt (h ! k) (h ! heap_parent k)" if "0 < k" "k < length h" for k
    using ok that by (simp add: heap_ok_def heap_edge_def)
  have "heap_edge lt' h k"
    if k: "0 < k" "k < length h" "k \<noteq> i" "heap_parent k \<noteq> i" for k
    using edge [OF k(1,2)] agree [OF neq [OF k(3,2)] neq [OF k(4)]] heap_parent_lt [OF k(1)] k(2)
    by (simp add: heap_edge_def)
  moreover have "\<not> lt' (h ! k) (h ! heap_parent i)"
    if k: "0 < k" "k < length h" "heap_parent k = i" "0 < i" for k
  proof -
    have "\<not> lt (h ! k) (h ! heap_parent i)"
      using strict_weak.less_negtrans [OF sw edge [OF k(1,2)], of "h ! heap_parent i"]
        edge [OF k(4) i] k(3) by simp
    moreover have "k \<noteq> i" "heap_parent i \<noteq> i" "heap_parent i < length h"
      using heap_parent_lt [OF k(1)] heap_parent_lt [OF k(4)] k i by auto
    ultimately show ?thesis using agree neq k(2) by simp
  qed
  ultimately show ?thesis by (auto simp: heap_hole_def)
qed

lemma heap_index_Some: "heap_index h x = Some i \<Longrightarrow> i < length h \<and> h ! i = x"
  by (auto simp: heap_index_def dest!: find_SomeD)

lemma heap_index_None: "heap_index h x = None \<longleftrightarrow> x \<notin> set h"
  by (auto simp: heap_index_def find_None_iff in_set_conv_nth)

section \<open>The priority-queue interface\<close>

text \<open>What the scheduler relies on: a bag of elements from which a least one is taken.\<close>

locale priority_queue = strict_weak lt for lt :: "'a \<Rightarrow> 'a \<Rightarrow> bool" +
  fixes push :: "'q \<Rightarrow> 'a \<Rightarrow> 'q"
    and pop :: "'q \<Rightarrow> ('a \<times> 'q) option"
    and invar :: "'q \<Rightarrow> bool"
    and content :: "'q \<Rightarrow> 'a multiset"
  assumes push_invar: "invar q \<Longrightarrow> invar (push q x)"
    and push_content: "invar q \<Longrightarrow> content (push q x) = add_mset x (content q)"
    and pop_None: "invar q \<Longrightarrow> pop q = None \<longleftrightarrow> content q = {#}"
    and pop_invar: "invar q \<Longrightarrow> pop q = Some (x, q') \<Longrightarrow> invar q'"
    and pop_content: "invar q \<Longrightarrow> pop q = Some (x, q') \<Longrightarrow> content q = add_mset x (content q')"
    and pop_least: "invar q \<Longrightarrow> pop q = Some (x, q') \<Longrightarrow> y \<in># content q \<Longrightarrow> \<not> lt y x"
begin

lemma pops_ordered:
  assumes "invar q" "pop q = Some (x, q1)" "pop q1 = Some (y, q2)"
  shows "\<not> lt y x"
proof -
  have "y \<in># content q1" using assms pop_content pop_invar by fastforce
  then have "y \<in># content q" using assms pop_content by fastforce
  with pop_least [OF assms(1,2)] show ?thesis by simp
qed

lemma push_nonempty: "invar q \<Longrightarrow> pop (push q x) \<noteq> None"
  by (simp add: pop_None push_invar push_content)

end

sublocale strict_weak \<subseteq> hpq: priority_queue lt "heap_push lt" "heap_pop lt"
  "\<lambda>h. heap_ok lt h (length h)" mset
proof (unfold_locales, goal_cases)
  case (1 q x)
  then show ?case by (rule heap_push_ok(1))
next
  case (2 q x)
  then show ?case by (rule heap_push_ok(2))
next
  case (3 q)
  then show ?case using heap_pop_ok [of q] by (auto simp: heap_pop_def)
next
  case (4 q x q')
  then have "q \<noteq> []" by (auto simp: heap_pop_def)
  with 4 show ?case using heap_pop_ok [of q] by auto
next
  case (5 q x q')
  then have "q \<noteq> []" by (auto simp: heap_pop_def)
  with 5 show ?case using heap_pop_ok [of q] by auto
next
  case (6 q x q' y)
  then have "q \<noteq> []" by (auto simp: heap_pop_def)
  with 6 heap_pop_ok [of q] have "mset q = add_mset x (mset q')" "\<forall>y \<in> set q'. \<not> lt y x" by auto
  with 6(3) show ?case using not_less_refl by auto
qed

end
