(* ===== verification/TestQueueData.thy ===== *)
theory TestQueueData
  imports GoHeap
begin

text \<open>
  The data model of the configuration test queue (\<open>engine/testqueue/queue.go\<close>) and its
  deferred-admission backlog (\<open>engine/testqueue/backlog.go\<close>): task states, results, tasks,
  the queue record, the pending heap's order, change notification and batch aggregation.
  Tasks are Go pointers shared by the heap, the in-flight map and the fingerprint index; the
  model keeps one store from task identifiers to tasks, and the three structures hold
  identifiers. A task's \<open>heapIdx\<close> is its position in the heap array, which is what \<open>Swap\<close>,
  \<open>Push\<close> and \<open>Pop\<close> maintain.
\<close>

section \<open>States, failures, results\<close>

datatype TaskState =
    StateQueued | StatePreparing | StateTesting | StateMeasuring
  | StatePassed | StateFailed | StateTimedOut | StateCancelled

definition IsTerminal :: "TaskState \<Rightarrow> bool" where
  "IsTerminal s = (case s of
      StatePassed \<Rightarrow> True | StateFailed \<Rightarrow> True | StateTimedOut \<Rightarrow> True | StateCancelled \<Rightarrow> True
    | _ \<Rightarrow> False)"

datatype FailureCategory =
    FailureNone | FailureNetwork | FailureAuth | FailureProtocol | FailureConfig
  | FailureBackendDown | FailureBackendReject | FailureTimeout | FailureCancelled | FailureUnknown

record test_result =
  r_Working :: bool
  r_Latency :: duration
  r_Measured :: bool
  r_Backend :: string
  r_TestedAt :: instant
  r_LastError :: string
  r_FailureCategory :: FailureCategory
  r_Protocol :: string
  r_Endpoint :: string
  r_PingMS :: int
  r_DurationMS :: int
  r_Quality :: string

definition zero_result :: test_result where
  "zero_result = \<lparr>r_Working = False, r_Latency = 0, r_Measured = False, r_Backend = [],
     r_TestedAt = 0, r_LastError = [], r_FailureCategory = FailureNone, r_Protocol = [],
     r_Endpoint = [], r_PingMS = 0, r_DurationMS = 0, r_Quality = []\<rparr>"

section \<open>Failure classification\<close>

text \<open>\<open>indexOf\<close> scans for the first occurrence; \<open>contains\<close> guards the empty pattern.\<close>

fun indexOf_from :: "string \<Rightarrow> string \<Rightarrow> nat \<Rightarrow> int" where
  "indexOf_from s sub i =
     (if take (length sub) s = sub then int i
      else case s of [] \<Rightarrow> -1 | _ # s' \<Rightarrow> if length s' < length sub then -1 else indexOf_from s' sub (Suc i))"

definition indexOf :: "string \<Rightarrow> string \<Rightarrow> int" where
  "indexOf s sub = (if length s < length sub then -1 else indexOf_from s sub 0)"

definition contains :: "string \<Rightarrow> string \<Rightarrow> bool" where
  "contains s sub \<longleftrightarrow> length sub > 0 \<and> length s \<ge> length sub \<and> indexOf s sub \<ge> 0"

text \<open>The error of the test context at the moment it is captured.\<close>

datatype ctx_err = CtxNone | CtxDeadlineExceeded | CtxCanceled

definition classifyCtxFailure :: "string option \<Rightarrow> ctx_err \<Rightarrow> FailureCategory" where
  "classifyCtxFailure err ctxErr =
     (case err of
        None \<Rightarrow> FailureNone
      | Some msg \<Rightarrow>
          if ctxErr = CtxDeadlineExceeded then FailureTimeout
          else if ctxErr = CtxCanceled then FailureCancelled
          else if contains msg ''connection refused'' \<or> contains msg ''no such host''
                  \<or> contains msg ''i/o timeout'' then FailureNetwork
          else if contains msg ''auth'' \<or> contains msg ''credential'' then FailureAuth
          else if contains msg ''protocol'' then FailureProtocol
          else if contains msg ''config'' \<or> contains msg ''invalid'' then FailureConfig
          else if contains msg ''backend'' then FailureBackendDown
          else FailureUnknown)"

definition errToString :: "string option \<Rightarrow> string" where
  "errToString err = (case err of None \<Rightarrow> [] | Some msg \<Rightarrow> msg)"

section \<open>Tasks, configuration, queue\<close>

text \<open>\<open>t_cancelFunc\<close> names the test context the published cancel function cancels.\<close>

record task =
  t_ID :: int
  t_Fingerprint :: string
  t_Protocol :: string
  t_Backends :: "string list"
  t_Priority :: int
  t_Source :: string
  t_Attempt :: int
  t_MaxAttempts :: int
  t_CreatedAt :: instant
  t_Deadline :: instant
  t_State :: TaskState
  t_Result :: test_result
  t_cancelFunc :: "nat option"
  t_batchID :: string

record tq_config =
  c_Concurrency :: int
  c_PerBackendConcurrency :: int
  c_Timeout :: duration
  c_MaxAttempts :: int
  c_CoreProbeConcurrency :: int
  c_Measurements :: int
  c_MaxQueueSize :: int
  c_Continuous :: bool
  c_OnlyFailed :: bool
  c_AdmissionBatch :: int
  c_AdmissionFloor :: int

record backlog_candidate =
  bc_Fingerprint :: string
  bc_Protocol :: string
  bc_Backends :: "string list"
  bc_Source :: string

record backlog_item =
  bi_candidate :: backlog_candidate
  bi_batchID :: string
  bi_priority :: int

record batch_state =
  b_id :: string
  b_startedAt :: instant
  b_planned :: int
  b_passed :: int
  b_failed :: int
  b_timedOut :: int
  b_cancelled :: int
  b_dropped :: int
  b_lastProgress :: "instant option"
  b_finished :: bool

datatype event_phase = PhaseProgress | PhaseComplete

record progress_event =
  ev_BatchID :: string
  ev_Phase :: event_phase
  ev_Planned :: int
  ev_Completed :: int
  ev_Passed :: int
  ev_Failed :: int
  ev_TimedOut :: int
  ev_Cancelled :: int
  ev_Dropped :: int
  ev_BacklogRemaining :: int
  ev_ElapsedMS :: int

text \<open>
  \<open>q_events\<close> is what the reporter has received, \<open>q_cancelledCtx\<close> the test contexts whose
  cancel function was invoked, and a change subscriber is a channel of capacity one.
\<close>

record queue =
  q_config :: tq_config
  q_tasks :: "int \<Rightarrow> task option"
  q_pending :: "int list"
  q_inflight :: "int list"
  q_byFingerprint :: "(string, int) gomap"
  q_results :: "(string, test_result) gomap"
  q_nextID :: int
  q_desiredWorkers :: int
  q_liveWorkers :: int
  q_totalEnqueued :: int
  q_totalCompleted :: int
  q_totalPassed :: int
  q_totalFailed :: int
  q_totalTimedOut :: int
  q_totalCancelled :: int
  q_perBackend :: "(string, int) gomap"
  q_durationSum :: int
  q_durationCount :: int
  q_latencySum :: int
  q_latencyCount :: int
  q_fastestLatency :: int
  q_slowestLatency :: int
  q_stopped :: bool
  q_started :: bool
  q_changeVersion :: "64 word"
  q_changeSubs :: "(nat, 64 word option) gomap"
  q_coreSlots :: int
  q_activeCores :: int
  q_paused :: bool
  q_backlog :: "backlog_item list"
  q_backlogSeen :: "string list"
  q_admissionHeld :: bool
  q_batch :: "batch_state option"
  q_reporter :: bool
  q_events :: "progress_event list"
  q_cancelledCtx :: "nat list"

definition DefaultCoreProbeConcurrency :: int where "DefaultCoreProbeConcurrency = 2"
definition MaxCoreProbeConcurrency :: int where "MaxCoreProbeConcurrency = 4"
definition DefaultAdmissionBatch :: int where "DefaultAdmissionBatch = 200"
definition DefaultAdmissionFloor :: int where "DefaultAdmissionFloor = 1000"
definition resultsCacheLimit :: nat where "resultsCacheLimit = 4096"
definition taskBytesEstimate :: int where "taskBytesEstimate = 400"

datatype mode = ModeQuick | ModeBalanced | ModeDeep | ModeRetestFailed | ModeTestAll
  | ModeTestSelected | ModeContinuous | ModeOther string

definition zero_config :: tq_config where
  "zero_config = \<lparr>c_Concurrency = 0, c_PerBackendConcurrency = 0, c_Timeout = 0, c_MaxAttempts = 0,
     c_CoreProbeConcurrency = 0, c_Measurements = 0, c_MaxQueueSize = 0, c_Continuous = False,
     c_OnlyFailed = False, c_AdmissionBatch = 0, c_AdmissionFloor = 0\<rparr>"

fun ModeConfig :: "mode \<Rightarrow> tq_config" where
  "ModeConfig ModeQuick = zero_config\<lparr>c_Concurrency := 2, c_Timeout := 5 * second,
     c_MaxAttempts := 1, c_Measurements := 1\<rparr>"
| "ModeConfig ModeBalanced = zero_config\<lparr>c_Concurrency := 4, c_Timeout := 10 * second,
     c_MaxAttempts := 2, c_Measurements := 1\<rparr>"
| "ModeConfig ModeDeep = zero_config\<lparr>c_Concurrency := 2, c_Timeout := 20 * second,
     c_MaxAttempts := 3, c_Measurements := 3\<rparr>"
| "ModeConfig ModeRetestFailed = zero_config\<lparr>c_Concurrency := 4, c_Timeout := 10 * second,
     c_MaxAttempts := 2, c_Measurements := 1, c_OnlyFailed := True\<rparr>"
| "ModeConfig ModeTestAll = zero_config\<lparr>c_Concurrency := 4, c_Timeout := 10 * second,
     c_MaxAttempts := 2, c_Measurements := 1\<rparr>"
| "ModeConfig ModeTestSelected = zero_config\<lparr>c_Concurrency := 4, c_Timeout := 10 * second,
     c_MaxAttempts := 2, c_Measurements := 1\<rparr>"
| "ModeConfig ModeContinuous = zero_config\<lparr>c_Concurrency := 2, c_Timeout := 10 * second,
     c_MaxAttempts := 1, c_Measurements := 1, c_Continuous := True\<rparr>"
| "ModeConfig (ModeOther _) = zero_config\<lparr>c_Concurrency := 4, c_Timeout := 10 * second,
     c_MaxAttempts := 2, c_Measurements := 1\<rparr>"

definition tq_New :: "tq_config \<Rightarrow> queue" where
  "tq_New config =
     (let c1 = (if c_Concurrency config < 0 then config\<lparr>c_Concurrency := 4\<rparr> else config);
          c2 = (if c_PerBackendConcurrency c1 \<le> 0 then c1\<lparr>c_PerBackendConcurrency := 2\<rparr> else c1);
          c3 = (if c_Timeout c2 \<le> 0 then c2\<lparr>c_Timeout := 10 * second\<rparr> else c2);
          c4 = (if c_MaxAttempts c3 \<le> 0 then c3\<lparr>c_MaxAttempts := 2\<rparr> else c3);
          c5 = (if c_CoreProbeConcurrency c4 \<le> 0
                then c4\<lparr>c_CoreProbeConcurrency := DefaultCoreProbeConcurrency\<rparr> else c4);
          c6 = (if c_CoreProbeConcurrency c5 > MaxCoreProbeConcurrency
                then c5\<lparr>c_CoreProbeConcurrency := MaxCoreProbeConcurrency\<rparr> else c5);
          c7 = (if c_Measurements c6 \<le> 0 then c6\<lparr>c_Measurements := 1\<rparr> else c6);
          c8 = (if c_MaxQueueSize c7 = 0 then c7\<lparr>c_MaxQueueSize := 10000\<rparr> else c7);
          c9 = (if c_AdmissionBatch c8 = 0 then c8\<lparr>c_AdmissionBatch := DefaultAdmissionBatch\<rparr> else c8)
      in \<lparr>q_config = c9, q_tasks = (\<lambda>_. None), q_pending = [], q_inflight = [],
          q_byFingerprint = [], q_results = [], q_nextID = 0,
          q_desiredWorkers = c_Concurrency c9, q_liveWorkers = 0, q_totalEnqueued = 0,
          q_totalCompleted = 0, q_totalPassed = 0, q_totalFailed = 0, q_totalTimedOut = 0,
          q_totalCancelled = 0, q_perBackend = [], q_durationSum = 0, q_durationCount = 0,
          q_latencySum = 0, q_latencyCount = 0, q_fastestLatency = 0, q_slowestLatency = 0,
          q_stopped = False, q_started = False, q_changeVersion = 0, q_changeSubs = [],
          q_coreSlots = 0, q_activeCores = 0, q_paused = False, q_backlog = [],
          q_backlogSeen = [], q_admissionHeld = False, q_batch = None, q_reporter = False,
          q_events = [], q_cancelledCtx = []\<rparr>)"

section \<open>The pending heap's order\<close>

text \<open>\<open>pendingHeap.Less\<close>: higher priority first, then the older task.\<close>

definition task_before :: "task \<Rightarrow> task \<Rightarrow> bool" where
  "task_before a b =
     (if t_Priority a \<noteq> t_Priority b then t_Priority a > t_Priority b
      else t_CreatedAt a < t_CreatedAt b)"

definition pending_Less :: "(int \<Rightarrow> task option) \<Rightarrow> int \<Rightarrow> int \<Rightarrow> bool" where
  "pending_Less tasks a b = task_before (the (tasks a)) (the (tasks b))"

interpretation pend: strict_weak "pending_Less tasks" for tasks
  by unfold_locales (auto simp: pending_Less_def task_before_def split: if_splits)

section \<open>Change notification\<close>

definition broadcastChangesLocked :: "queue \<Rightarrow> 64 word \<Rightarrow> queue" where
  "broadcastChangesLocked q version =
     q\<lparr>q_changeSubs :=
        map (\<lambda>(ch, buf). (ch, case buf of None \<Rightarrow> Some version | Some old \<Rightarrow> Some old)) (q_changeSubs q)\<rparr>"

definition notifyLocked :: "queue \<Rightarrow> queue" where
  "notifyLocked q =
     (let version = q_changeVersion q + 1
      in broadcastChangesLocked (q\<lparr>q_changeVersion := version\<rparr>) version)"

definition SubscribeChanges :: "queue \<Rightarrow> nat \<Rightarrow> queue" where
  "SubscribeChanges q ch = q\<lparr>q_changeSubs := q_changeSubs q @ [(ch, None)]\<rparr>"

section \<open>Batch aggregation\<close>

definition batch_completed :: "batch_state \<Rightarrow> int" where
  "batch_completed b = b_passed b + b_failed b + b_timedOut b + b_cancelled b"

definition mk_event :: "batch_state \<Rightarrow> event_phase \<Rightarrow> int \<Rightarrow> instant \<Rightarrow> progress_event" where
  "mk_event b phase remaining now = \<lparr>ev_BatchID = b_id b, ev_Phase = phase,
     ev_Planned = b_planned b, ev_Completed = batch_completed b, ev_Passed = b_passed b,
     ev_Failed = b_failed b, ev_TimedOut = b_timedOut b, ev_Cancelled = b_cancelled b,
     ev_Dropped = b_dropped b, ev_BacklogRemaining = remaining,
     ev_ElapsedMS = go_div (now - b_startedAt b) 1000000\<rparr>"

definition report :: "queue \<Rightarrow> progress_event \<Rightarrow> queue" where
  "report q ev = (if q_reporter q then q\<lparr>q_events := q_events q @ [ev]\<rparr> else q)"

definition batchCompletedLocked :: "queue \<Rightarrow> instant \<Rightarrow> queue" where
  "batchCompletedLocked q now =
     (case q_batch q of
        None \<Rightarrow> q
      | Some b \<Rightarrow>
          if b_finished b then q
          else if length (q_backlog q) > 0 then q
          else if batch_completed b < b_planned b then q
          else report (q\<lparr>q_batch := Some (b\<lparr>b_finished := True\<rparr>)\<rparr>) (mk_event b PhaseComplete 0 now))"

definition progressCadence :: duration where "progressCadence = 10 * second"

definition batchProgressLocked :: "queue \<Rightarrow> instant \<Rightarrow> bool \<Rightarrow> queue" where
  "batchProgressLocked q now force =
     (case q_batch q of
        None \<Rightarrow> q
      | Some b \<Rightarrow>
          if b_finished b then q
          else if \<not> force \<and> (case b_lastProgress b of None \<Rightarrow> False | Some t \<Rightarrow> now - t < progressCadence) then q
          else let b1 = b\<lparr>b_lastProgress := Some now\<rparr>; q1 = q\<lparr>q_batch := Some b1\<rparr>
               in if batch_completed b1 = 0 then q1
                  else report q1 (mk_event b1 PhaseProgress (int (length (q_backlog q))) now))"

definition OpenBatch :: "queue \<Rightarrow> instant \<Rightarrow> string \<Rightarrow> queue" where
  "OpenBatch q now batchID =
     (if batchID = [] then q
      else q\<lparr>q_batch := Some \<lparr>b_id = batchID, b_startedAt = now, b_planned = 0, b_passed = 0,
               b_failed = 0, b_timedOut = 0, b_cancelled = 0, b_dropped = 0,
               b_lastProgress = None, b_finished = False\<rparr>\<rparr>)"

definition SetReporter :: "queue \<Rightarrow> bool \<Rightarrow> queue" where
  "SetReporter q on = q\<lparr>q_reporter := on\<rparr>"

end
