(* ===== verification/TestQueue.thy ===== *)
theory TestQueue
  imports TestQueueData
begin

text \<open>
  The operations of the test queue: enqueueing with duplicate suppression, dequeueing, the
  single path to a terminal state (\<open>finishTaskLocked\<close>), cancellation, deferred admission
  from the backlog, the worker's run of one task through its attempts, and the worker-pool
  resizing protocol. Every function takes the queue, acts as the code does while it holds the
  queue lock, and returns the new queue; \<open>time.Now()\<close> is the argument \<open>now\<close>.
\<close>

section \<open>Statistics\<close>

definition recordDuration :: "queue \<Rightarrow> duration \<Rightarrow> queue" where
  "recordDuration q d =
     q\<lparr>q_durationSum := q_durationSum q + d, q_durationCount := q_durationCount q + 1\<rparr>"

definition recordLatency :: "queue \<Rightarrow> int \<Rightarrow> queue" where
  "recordLatency q ms =
     (if ms \<le> 0 then q
      else let q1 = q\<lparr>q_latencySum := q_latencySum q + ms, q_latencyCount := q_latencyCount q + 1\<rparr>;
               q2 = (if q_fastestLatency q1 \<noteq> 0 \<and> q_fastestLatency q1 \<le> ms then q1
                     else q1\<lparr>q_fastestLatency := ms\<rparr>)
           in if q_slowestLatency q2 \<ge> ms then q2 else q2\<lparr>q_slowestLatency := ms\<rparr>)"

definition avgLatencyMS :: "queue \<Rightarrow> int" where
  "avgLatencyMS q = (if q_latencyCount q = 0 then 0 else go_div (q_latencySum q) (q_latencyCount q))"

definition MemoryEstimate :: "queue \<Rightarrow> int" where
  "MemoryEstimate q = int (length (q_pending q) + length (q_inflight q)) * taskBytesEstimate"

section \<open>Terminal transitions\<close>

definition cancelledResult :: "instant \<Rightarrow> test_result" where
  "cancelledResult now = zero_result\<lparr>r_TestedAt := now, r_FailureCategory := FailureCancelled,
     r_LastError := ''cancelled''\<rparr>"

definition count_state :: "queue \<Rightarrow> TaskState \<Rightarrow> queue" where
  "count_state q st =
     (let q1 = q\<lparr>q_totalCompleted := q_totalCompleted q + 1\<rparr> in
      case st of
        StatePassed \<Rightarrow> q1\<lparr>q_totalPassed := q_totalPassed q1 + 1\<rparr>
      | StateFailed \<Rightarrow> q1\<lparr>q_totalFailed := q_totalFailed q1 + 1\<rparr>
      | StateTimedOut \<Rightarrow> q1\<lparr>q_totalTimedOut := q_totalTimedOut q1 + 1\<rparr>
      | StateCancelled \<Rightarrow> q1\<lparr>q_totalCancelled := q_totalCancelled q1 + 1\<rparr>
      | _ \<Rightarrow> q1)"

definition count_batch :: "batch_state \<Rightarrow> TaskState \<Rightarrow> batch_state" where
  "count_batch b st =
     (case st of
        StatePassed \<Rightarrow> b\<lparr>b_passed := b_passed b + 1\<rparr>
      | StateFailed \<Rightarrow> b\<lparr>b_failed := b_failed b + 1\<rparr>
      | StateTimedOut \<Rightarrow> b\<lparr>b_timedOut := b_timedOut b + 1\<rparr>
      | StateCancelled \<Rightarrow> b\<lparr>b_cancelled := b_cancelled b + 1\<rparr>
      | _ \<Rightarrow> b)"

definition cache_result :: "queue \<Rightarrow> string \<Rightarrow> test_result \<Rightarrow> queue" where
  "cache_result q fp result =
     (let rs = (if length (q_results q) \<ge> resultsCacheLimit then tl (q_results q) else q_results q)
      in q\<lparr>q_results := gput fp result rs\<rparr>)"

definition finish_batch :: "queue \<Rightarrow> instant \<Rightarrow> task \<Rightarrow> TaskState \<Rightarrow> queue" where
  "finish_batch q now t st =
     (case q_batch q of
        None \<Rightarrow> q
      | Some b \<Rightarrow>
          if t_batchID t \<noteq> [] \<and> b_id b = t_batchID t \<and> \<not> b_finished b
          then batchCompletedLocked
                 (batchProgressLocked (q\<lparr>q_batch := Some (count_batch b st)\<rparr>) now False) now
          else q)"

definition finish_latency :: "queue \<Rightarrow> test_result \<Rightarrow> queue" where
  "finish_latency q result =
     (if r_Working result \<and> r_Measured result
      then let ms1 = (if r_PingMS result \<le> 0 then go_div (r_Latency result) 1000000 else r_PingMS result);
               ms2 = (if ms1 \<le> 0 then 1 else ms1)
           in recordLatency q ms2
      else q)"

text \<open>Leaving the heap, the in-flight map and the fingerprint index.\<close>

definition unlink_task :: "queue \<Rightarrow> int \<Rightarrow> string \<Rightarrow> queue" where
  "unlink_task q tid fp =
     (let pending = (case heap_index (q_pending q) tid of
                       None \<Rightarrow> q_pending q
                     | Some i \<Rightarrow> (case heap_remove (pending_Less (q_tasks q)) (q_pending q) i of
                                   None \<Rightarrow> q_pending q | Some (_, h) \<Rightarrow> h))
      in q\<lparr>q_pending := pending, q_inflight := filter (\<lambda>x. x \<noteq> tid) (q_inflight q),
           q_byFingerprint := gdel fp (q_byFingerprint q)\<rparr>)"

definition mark_task :: "queue \<Rightarrow> int \<Rightarrow> task \<Rightarrow> TaskState \<Rightarrow> test_result \<Rightarrow> queue" where
  "mark_task q tid t st result =
     q\<lparr>q_tasks := (q_tasks q)(tid \<mapsto> t\<lparr>t_State := st, t_Result := result, t_cancelFunc := None\<rparr>),
       q_cancelledCtx := (case t_cancelFunc t of None \<Rightarrow> q_cancelledCtx q | Some c \<Rightarrow> c # q_cancelledCtx q)\<rparr>"

definition count_backend :: "queue \<Rightarrow> string \<Rightarrow> queue" where
  "count_backend q backend =
     (if backend = [] then q
      else q\<lparr>q_perBackend := gput backend
               ((case gget (q_perBackend q) backend of None \<Rightarrow> 0 | Some n \<Rightarrow> n) + 1) (q_perBackend q)\<rparr>)"

definition finishTaskLocked ::
  "queue \<Rightarrow> instant \<Rightarrow> int \<Rightarrow> TaskState \<Rightarrow> test_result \<Rightarrow> bool \<times> queue" where
  "finishTaskLocked q now tid st result =
     (case q_tasks q tid of
        None \<Rightarrow> (False, q)
      | Some t \<Rightarrow>
          if IsTerminal (t_State t) then (False, q)
          else
            let q1 = mark_task q tid t st result;
                q2 = unlink_task q1 tid (t_Fingerprint t);
                q3 = cache_result q2 (t_Fingerprint t) result;
                q4 = notifyLocked q3;
                q5 = count_state q4 st;
                q6 = count_backend q5 (r_Backend result);
                q7 = finish_batch q6 now t st
            in (True, finish_latency q7 result))"

section \<open>Enqueue\<close>

datatype EnqueueOption =
  EnqueueDefault | EnqueueAllowDuplicate | EnqueueReplaceIfHigher | EnqueueTry

datatype EnqueueError = ErrQueueFull | ErrDuplicate int | ErrQueueStopped

definition new_task ::
  "queue \<Rightarrow> instant \<Rightarrow> string \<Rightarrow> string \<Rightarrow> string list \<Rightarrow> int \<Rightarrow> string \<Rightarrow> string \<Rightarrow> task" where
  "new_task q now fp protocol backends priority source batchID =
     \<lparr>t_ID = q_nextID q + 1, t_Fingerprint = fp, t_Protocol = protocol, t_Backends = backends,
      t_Priority = priority, t_Source = source, t_Attempt = 1,
      t_MaxAttempts = c_MaxAttempts (q_config q), t_CreatedAt = now,
      t_Deadline = now + c_Timeout (q_config q) * (c_MaxAttempts (q_config q) + 1),
      t_State = StateQueued, t_Result = zero_result, t_cancelFunc = None, t_batchID = batchID\<rparr>"

definition add_task :: "queue \<Rightarrow> task \<Rightarrow> queue" where
  "add_task q t =
     (let tasks = (q_tasks q)(t_ID t \<mapsto> t)
      in q\<lparr>q_nextID := t_ID t, q_tasks := tasks,
           q_pending := heap_push (pending_Less tasks) (q_pending q) (t_ID t),
           q_byFingerprint := gput (t_Fingerprint t) (t_ID t) (q_byFingerprint q),
           q_totalEnqueued := q_totalEnqueued q + 1\<rparr>)"

definition raise_priority :: "queue \<Rightarrow> int \<Rightarrow> task \<Rightarrow> int \<Rightarrow> queue" where
  "raise_priority q tid t priority =
     (let tasks = (q_tasks q)(tid \<mapsto> t\<lparr>t_Priority := priority\<rparr>)
      in q\<lparr>q_tasks := tasks,
           q_pending := (case heap_index (q_pending q) tid of
                           None \<Rightarrow> q_pending q
                         | Some i \<Rightarrow> heap_fix (pending_Less tasks) (q_pending q) i)\<rparr>)"

text \<open>
  A duplicate is returned as the error with the existing task's identifier. \<open>heap.Fix\<close> at
  index \<open>-1\<close>, the index of an in-flight task, leaves the heap as it is.
\<close>

definition Enqueue ::
  "queue \<Rightarrow> instant \<Rightarrow> string \<Rightarrow> string \<Rightarrow> string list \<Rightarrow> int \<Rightarrow> string \<Rightarrow> EnqueueOption \<Rightarrow>
   (EnqueueError + int) \<times> queue" where
  "Enqueue q now fp protocol backends priority source opt =
     (if q_stopped q then (Inl ErrQueueStopped, q)
      else if c_MaxQueueSize (q_config q) > 0
              \<and> int (length (q_pending q)) \<ge> c_MaxQueueSize (q_config q)
      then (Inl ErrQueueFull, q)
      else
        let t = new_task q now fp protocol backends priority source [];
            create = (Inr (t_ID t), notifyLocked (add_task q t))
        in case gget (q_byFingerprint q) fp of
             None \<Rightarrow> create
           | Some tid \<Rightarrow>
               (case opt of
                  EnqueueDefault \<Rightarrow> (Inl (ErrDuplicate tid), q)
                | EnqueueReplaceIfHigher \<Rightarrow>
                    (case q_tasks q tid of
                       None \<Rightarrow> (Inl (ErrDuplicate tid), q)
                     | Some ex \<Rightarrow>
                         if priority > t_Priority ex
                         then (Inl (ErrDuplicate tid), raise_priority q tid ex priority)
                         else (Inl (ErrDuplicate tid), q))
                | EnqueueAllowDuplicate \<Rightarrow> create
                | EnqueueTry \<Rightarrow> create))"

section \<open>Dequeue\<close>

text \<open>One pass of the loop under the lock; \<open>None\<close> means the caller blocks and retries.\<close>

definition Dequeue :: "queue \<Rightarrow> (int \<times> queue) option" where
  "Dequeue q =
     (if length (q_pending q) > 0 \<and> \<not> q_paused q
      then case heap_pop (pending_Less (q_tasks q)) (q_pending q) of
             None \<Rightarrow> None
           | Some (tid, h) \<Rightarrow>
               Some (tid, q\<lparr>q_pending := h, q_inflight := tid # q_inflight q,
                  q_tasks := (q_tasks q)(tid := map_option (\<lambda>t. t\<lparr>t_State := StatePreparing\<rparr>) (q_tasks q tid))\<rparr>)
      else None)"

section \<open>Cancellation\<close>

definition Cancel :: "queue \<Rightarrow> instant \<Rightarrow> int \<Rightarrow> bool \<times> queue" where
  "Cancel q now tid =
     (if tid \<in> set (q_pending q) then finishTaskLocked q now tid StateCancelled (cancelledResult now)
      else if tid \<in> set (q_inflight q)
      then finishTaskLocked q now tid StateCancelled (cancelledResult now)
      else (False, q))"

definition CancelByFingerprint :: "queue \<Rightarrow> instant \<Rightarrow> string \<Rightarrow> int \<times> queue" where
  "CancelByFingerprint q now fp =
     (case gget (q_byFingerprint q) fp of
        None \<Rightarrow> (0, q)
      | Some tid \<Rightarrow>
          (let (ok, q') = finishTaskLocked q now tid StateCancelled (cancelledResult now)
           in (if ok then 1 else 0, q')))"

fun cancel_each :: "instant \<Rightarrow> int list \<Rightarrow> int \<times> queue \<Rightarrow> int \<times> queue" where
  "cancel_each now [] (n, q) = (n, q)"
| "cancel_each now (tid # tids) (n, q) =
     (let (ok, q') = finishTaskLocked q now tid StateCancelled (cancelledResult now)
      in cancel_each now tids (if ok then n + 1 else n, q'))"

definition from_source :: "queue \<Rightarrow> string \<Rightarrow> int \<Rightarrow> bool" where
  "from_source q src tid = (case q_tasks q tid of None \<Rightarrow> False | Some t \<Rightarrow> t_Source t = src)"

definition CancelBySource :: "queue \<Rightarrow> instant \<Rightarrow> string \<Rightarrow> int \<times> queue" where
  "CancelBySource q now src =
     (let (n, q1) = cancel_each now (filter (from_source q src) (q_pending q)) (0, q)
      in cancel_each now (filter (from_source q1 src) (q_inflight q1)) (n, q1))"

definition dropBacklogLocked :: "queue \<Rightarrow> queue" where
  "dropBacklogLocked q =
     (let dropped = int (length (q_backlog q));
          batch = (case q_batch q of
                     None \<Rightarrow> None
                   | Some b \<Rightarrow> if dropped > 0 \<and> \<not> b_finished b
                              then Some (b\<lparr>b_dropped := b_dropped b + dropped\<rparr>) else Some b)
      in q\<lparr>q_batch := batch, q_backlog := [], q_backlogSeen := []\<rparr>)"

text \<open>The loop \<open>for q.pending.Len() > 0\<close>, with the initial length as its bound.\<close>

fun cancel_pending :: "nat \<Rightarrow> instant \<Rightarrow> int \<times> queue \<Rightarrow> int \<times> queue" where
  "cancel_pending 0 now (n, q) = (n, q)"
| "cancel_pending (Suc fuel) now (n, q) =
     (case heap_pop (pending_Less (q_tasks q)) (q_pending q) of
        None \<Rightarrow> (n, q)
      | Some (tid, h) \<Rightarrow>
          (let (ok, q') = finishTaskLocked (q\<lparr>q_pending := h\<rparr>) now tid StateCancelled (cancelledResult now)
           in cancel_pending fuel now (if ok then n + 1 else n, q')))"

definition CancelAll :: "queue \<Rightarrow> instant \<Rightarrow> int \<times> queue" where
  "CancelAll q now =
     (let q1 = dropBacklogLocked q;
          (n, q2) = cancel_pending (length (q_pending q1)) now (0, q1)
      in cancel_each now (q_inflight q2) (n, q2))"

section \<open>Pause, stop, capacity\<close>

definition Pause :: "queue \<Rightarrow> queue" where
  "Pause q = (if q_stopped q then q else q\<lparr>q_paused := True\<rparr>)"

definition Resume :: "queue \<Rightarrow> queue" where
  "Resume q = notifyLocked (q\<lparr>q_paused := False\<rparr>)"

definition SetMaxQueueSize :: "queue \<Rightarrow> int \<Rightarrow> queue" where
  "SetMaxQueueSize q n =
     q\<lparr>q_config := (q_config q)\<lparr>c_MaxQueueSize := (if n < 0 then 0 else n)\<rparr>\<rparr>"

definition Stop :: "queue \<Rightarrow> queue" where
  "Stop q = (if q_stopped q then q
             else dropBacklogLocked (notifyLocked (q\<lparr>q_stopped := True\<rparr>)))"

section \<open>Deferred admission\<close>

definition admissionFloorLocked :: "queue \<Rightarrow> int" where
  "admissionFloorLocked q =
     (let floor1 = (if c_AdmissionFloor (q_config q) \<le> 0 then DefaultAdmissionFloor
                    else c_AdmissionFloor (q_config q))
      in if c_MaxQueueSize (q_config q) > 0 \<and> floor1 > c_MaxQueueSize (q_config q)
         then c_MaxQueueSize (q_config q) else floor1)"

definition admit_candidate :: "queue \<Rightarrow> instant \<Rightarrow> backlog_item \<Rightarrow> queue" where
  "admit_candidate q now item =
     (let c = bi_candidate item;
          t = new_task q now (bc_Fingerprint c) (bc_Protocol c) (bc_Backends c)
                (bi_priority item) (bc_Source c) (bi_batchID item);
          q1 = add_task q t;
          batch = (case q_batch q1 of
                     None \<Rightarrow> None
                   | Some b \<Rightarrow> if bi_batchID item = b_id b \<and> \<not> b_finished b
                              then Some (b\<lparr>b_planned := b_planned b + 1\<rparr>) else Some b)
      in q1\<lparr>q_batch := batch\<rparr>)"

function admit_loop :: "queue \<Rightarrow> instant \<Rightarrow> int \<Rightarrow> int \<times> queue" where
  "admit_loop q now admitted =
     (case q_backlog q of
        [] \<Rightarrow> (admitted, q)
      | item # rest \<Rightarrow>
          if \<not> admitted < c_AdmissionBatch (q_config q) then (admitted, q)
          else if c_MaxQueueSize (q_config q) > 0
               \<and> int (length (q_pending q) + length (q_inflight q)) \<ge> admissionFloorLocked q
          then (admitted, q)
          else if q_paused q then (admitted, q)
          else
            let fp = bc_Fingerprint (bi_candidate item);
                q1 = q\<lparr>q_backlog := rest, q_backlogSeen := filter (\<lambda>x. x \<noteq> fp) (q_backlogSeen q)\<rparr>
            in if gget (q_byFingerprint q) fp \<noteq> None then admit_loop q1 now admitted
               else admit_loop (admit_candidate q1 now item) now (admitted + 1))"
  by pat_completeness auto
termination
  by (relation "measure (\<lambda>(q, now, admitted). length (q_backlog q))")
     (auto simp: admit_candidate_def add_task_def Let_def)

declare admit_loop.simps [simp del]

definition admit :: "queue \<Rightarrow> instant \<Rightarrow> int \<times> queue" where
  "admit q now =
     (if q_stopped q \<or> q_admissionHeld q then (0, q)
      else let (admitted, q1) = admit_loop q now 0
           in (admitted, if admitted > 0 then notifyLocked q1 else q1))"

fun defer_candidates ::
  "string \<Rightarrow> int \<Rightarrow> backlog_candidate list \<Rightarrow> int \<times> queue \<Rightarrow> int \<times> queue" where
  "defer_candidates batchID priority [] (accepted, q) = (accepted, q)"
| "defer_candidates batchID priority (c # cs) (accepted, q) =
     (if bc_Fingerprint c = [] then defer_candidates batchID priority cs (accepted, q)
      else if gget (q_byFingerprint q) (bc_Fingerprint c) \<noteq> None
      then defer_candidates batchID priority cs (accepted, q)
      else if bc_Fingerprint c \<in> set (q_backlogSeen q)
      then defer_candidates batchID priority cs (accepted, q)
      else defer_candidates batchID priority cs
        (accepted + 1,
         q\<lparr>q_backlogSeen := bc_Fingerprint c # q_backlogSeen q,
           q_backlog := q_backlog q @ [\<lparr>bi_candidate = c, bi_batchID = batchID, bi_priority = priority\<rparr>]\<rparr>))"

definition EnqueueBacklog ::
  "queue \<Rightarrow> instant \<Rightarrow> string \<Rightarrow> backlog_candidate list \<Rightarrow> int \<Rightarrow> (int \<times> int) \<times> queue" where
  "EnqueueBacklog q now batchID candidates priority =
     (if candidates = [] then ((0, 0), q)
      else if q_stopped q then ((0, 0), q)
      else let (accepted, q1) = defer_candidates batchID priority candidates (0, q);
               (materialized, q2) = admit q1 now
           in ((accepted, materialized), q2))"

definition BacklogRemaining :: "queue \<Rightarrow> int" where
  "BacklogRemaining q = int (length (q_backlog q))"

definition PauseAdmission :: "queue \<Rightarrow> queue" where
  "PauseAdmission q = q\<lparr>q_admissionHeld := True\<rparr>"

definition ResumeAdmission :: "queue \<Rightarrow> instant \<Rightarrow> queue" where
  "ResumeAdmission q now = snd (admit (q\<lparr>q_admissionHeld := False\<rparr>) now)"

section \<open>Reads\<close>

definition Queued :: "queue \<Rightarrow> string \<Rightarrow> bool" where
  "Queued q fp \<longleftrightarrow> gget (q_byFingerprint q) fp \<noteq> None"

definition LiveState :: "queue \<Rightarrow> 64 word \<times> string list" where
  "LiveState q = (q_changeVersion q,
     map (\<lambda>tid. t_Fingerprint (the (q_tasks q tid))) (q_pending q @ q_inflight q))"

definition last_Result :: "queue \<Rightarrow> string \<Rightarrow> test_result option" where
  "last_Result q fp = gget (q_results q) fp"

end
