(* ===== verification/TestQueueRun.thy ===== *)
theory TestQueueRun
  imports TestQueue
begin

text \<open>
  The concurrent side of the test queue: \<open>runTask\<close> as a machine whose phases are the points
  where the worker waits for its environment (a core slot, the tester, the backoff timer), the
  worker-pool resizing protocol, and the whole system as a labelled transition function. One
  transition is one critical section of the code; any interleaving of workers and callers is
  a sequence of labels.
\<close>

section \<open>runTask\<close>

text \<open>
  \<open>RunTest\<close> holds a core slot; \<open>RunMeasure\<close> is an additional measurement of a passing test
  (the \<open>i\<close>-th, with the latency accumulated so far and the first test's duration).
\<close>

datatype run_phase =
    RunStart int
  | RunPark int
  | RunTest int nat
  | RunMeasure test_result duration int duration
  | RunBackoff int

text \<open>
  What a waiting worker can receive. \<open>InReturn\<close> is the tester's result, its error, the error
  of the test context captured before it is cancelled, and the measured duration.
\<close>

datatype run_input =
    InGo
  | InSlot nat
  | InCtxDone
  | InPoll
  | InReturn test_result "string option" ctx_err duration nat
  | InTimer

definition set_task :: "queue \<Rightarrow> int \<Rightarrow> (task \<Rightarrow> task) \<Rightarrow> queue" where
  "set_task q tid f = q\<lparr>q_tasks := (q_tasks q)(tid := map_option f (q_tasks q tid))\<rparr>"

definition is_cancelled :: "queue \<Rightarrow> int \<Rightarrow> bool" where
  "is_cancelled q tid = (case q_tasks q tid of None \<Rightarrow> False | Some t \<Rightarrow> t_State t = StateCancelled)"

definition max_attempts :: "queue \<Rightarrow> int \<Rightarrow> int" where
  "max_attempts q tid = (case q_tasks q tid of None \<Rightarrow> 0 | Some t \<Rightarrow> t_MaxAttempts t)"

text \<open>The end of the passing path: Measuring, then Passed.\<close>

definition run_pass :: "queue \<Rightarrow> instant \<Rightarrow> int \<Rightarrow> test_result \<Rightarrow> duration \<Rightarrow> queue" where
  "run_pass q now tid result dur =
     (if is_cancelled q tid then q
      else let q1 = set_task q tid (\<lambda>t. t\<lparr>t_State := StateMeasuring\<rparr>);
               (ok, q2) = finishTaskLocked q1 now tid StatePassed (result\<lparr>r_TestedAt := now\<rparr>)
           in if ok then recordDuration q2 dur else q2)"

definition run_fail ::
  "queue \<Rightarrow> instant \<Rightarrow> int \<Rightarrow> int \<Rightarrow> test_result \<Rightarrow> string option \<Rightarrow> ctx_err \<Rightarrow> duration \<Rightarrow>
   queue \<times> run_phase option" where
  "run_fail q now tid attempt result err ctxErr dur =
     (let category = classifyCtxFailure err ctxErr;
          result1 = result\<lparr>r_FailureCategory := category, r_LastError := errToString err,
                           r_TestedAt := now\<rparr>
      in if category = FailureCancelled
         then (snd (finishTaskLocked q now tid StateCancelled result1), None)
         else if attempt < max_attempts q tid then (q, Some (RunBackoff attempt))
         else let timedOut = (ctxErr = CtxDeadlineExceeded);
                  st = (if timedOut then StateTimedOut else StateFailed);
                  result2 = (if timedOut then result1\<lparr>r_FailureCategory := FailureTimeout\<rparr> else result1);
                  (ok, q1) = finishTaskLocked q now tid st result2
              in (if ok then recordDuration q1 dur else q1, None))"

text \<open>
  One transition of a run: \<open>None\<close> when the input does not fit the phase, otherwise the new
  queue and the next phase, where phase \<open>None\<close> means that \<open>runTask\<close> returned.
\<close>

fun run_step ::
  "queue \<Rightarrow> instant \<Rightarrow> int \<Rightarrow> run_phase \<Rightarrow> run_input \<Rightarrow> (queue \<times> run_phase option) option" where
  "run_step q now tid (RunStart n) InGo =
     Some (if n > max_attempts q tid then (q, None)
           else if is_cancelled q tid then (q, None)
           else (set_task q tid (\<lambda>t. t\<lparr>t_State := StateTesting, t_Attempt := n\<rparr>), Some (RunPark n)))"
| "run_step q now tid (RunPark n) InPoll =
     Some (if is_cancelled q tid then (q, None) else (q, Some (RunPark n)))"
| "run_step q now tid (RunPark n) InCtxDone = Some (q, None)"
| "run_step q now tid (RunPark n) (InSlot ctx) =
     (if q_coreSlots q < c_CoreProbeConcurrency (q_config q)
      then if is_cancelled q tid then Some (q, None)
           else Some ((set_task q tid (\<lambda>t. t\<lparr>t_cancelFunc := Some ctx\<rparr>))
                        \<lparr>q_coreSlots := q_coreSlots q + 1, q_activeCores := q_activeCores q + 1\<rparr>,
                      Some (RunTest n ctx))
      else None)"
| "run_step q now tid (RunTest n ctx) (InReturn result err ctxErr dur next) =
     (let q1 = (set_task q tid (\<lambda>t. t\<lparr>t_cancelFunc := None\<rparr>))
                 \<lparr>q_coreSlots := q_coreSlots q - 1, q_activeCores := q_activeCores q - 1\<rparr>
      in Some
        (if is_cancelled q1 tid then (recordDuration q1 dur, None)
         else if err = None \<and> r_Working result
         then if c_Measurements (q_config q1) > 1
              then (set_task q1 tid (\<lambda>t. t\<lparr>t_cancelFunc := Some next\<rparr>),
                    Some (RunMeasure result (r_Latency result) 1 dur))
              else (run_pass q1 now tid result dur, None)
         else run_fail q1 now tid n result err ctxErr dur))"
| "run_step q now tid (RunMeasure result lat i dur) (InReturn m mErr ctxErr mDur next) =
     (let q1 = set_task q tid (\<lambda>t. t\<lparr>t_cancelFunc := None\<rparr>)
      in Some
        (if is_cancelled q1 tid then (q1, None)
         else if mErr \<noteq> None \<or> \<not> r_Working m
         then (run_pass q1 now tid
                 (case mErr of None \<Rightarrow> m | Some msg \<Rightarrow> m\<lparr>r_LastError := msg\<rparr>) dur, None)
         else if i + 1 < c_Measurements (q_config q1)
         then (set_task q1 tid (\<lambda>t. t\<lparr>t_cancelFunc := Some next\<rparr>),
               Some (RunMeasure result (lat + r_Latency m) (i + 1) dur))
         else (run_pass q1 now tid
                 (result\<lparr>r_Latency := go_div (lat + r_Latency m) (c_Measurements (q_config q1))\<rparr>) dur,
               None)))"
| "run_step q now tid (RunBackoff n) InCtxDone =
     Some (snd (finishTaskLocked q now tid StateCancelled (cancelledResult now)), None)"
| "run_step q now tid (RunBackoff n) InTimer = Some (q, Some (RunStart (n + 1)))"
| "run_step q now tid _ _ = None"

section \<open>Worker pool\<close>

definition tq_Start :: "queue \<Rightarrow> queue" where
  "tq_Start q =
     (if q_started q then q
      else q\<lparr>q_started := True, q_desiredWorkers := c_Concurrency (q_config q),
             q_liveWorkers := q_liveWorkers q + max 0 (c_Concurrency (q_config q))\<rparr>)"

definition SetConcurrency :: "queue \<Rightarrow> int \<Rightarrow> queue" where
  "SetConcurrency q n =
     (if q_stopped q \<or> \<not> q_started q then q
      else let n1 = (if n < 0 then 0 else n);
               n2 = (if n1 > 64 then 64 else n1)
           in q\<lparr>q_desiredWorkers := n2,
                q_liveWorkers := (if q_liveWorkers q < n2 then n2 else q_liveWorkers q)\<rparr>)"

text \<open>The compare-and-swap at the top of the worker loop; \<open>True\<close> when the worker retires.\<close>

definition worker_retire :: "queue \<Rightarrow> bool \<times> queue" where
  "worker_retire q =
     (if q_liveWorkers q \<le> q_desiredWorkers q then (False, q)
      else (True, q\<lparr>q_liveWorkers := q_liveWorkers q - 1\<rparr>))"

text \<open>A worker blocked in \<open>Dequeue\<close> leaves when \<open>Stop\<close> has cancelled the context.\<close>

definition worker_exit :: "queue \<Rightarrow> queue" where
  "worker_exit q = (if q_stopped q then q\<lparr>q_liveWorkers := q_liveWorkers q - 1\<rparr> else q)"

section \<open>The system\<close>

record tq_sys =
  s_queue :: queue
  s_runs :: "(int, run_phase) gomap"

datatype tq_label =
    LEnqueue instant string string "string list" int string EnqueueOption
  | LDequeue
  | LRun instant int run_input
  | LCancel instant int
  | LCancelByFingerprint instant string
  | LCancelBySource instant string
  | LCancelAll instant
  | LPause
  | LResume
  | LSetMaxQueueSize int
  | LStop
  | LOpenBatch instant string
  | LSetReporter bool
  | LEnqueueBacklog instant string "backlog_candidate list" int
  | LPauseAdmission
  | LResumeAdmission instant
  | LStart
  | LSetConcurrency int
  | LRetire
  | LExit
  | LSubscribe nat

text \<open>When \<open>runTask\<close> returns the worker runs one admission step before its next turn.\<close>

fun sys_step :: "tq_label \<Rightarrow> tq_sys \<Rightarrow> tq_sys" where
  "sys_step (LEnqueue now fp proto backends prio src opt) s =
     s\<lparr>s_queue := snd (Enqueue (s_queue s) now fp proto backends prio src opt)\<rparr>"
| "sys_step LDequeue s =
     (if int (length (s_runs s)) < q_liveWorkers (s_queue s)
      then case Dequeue (s_queue s) of
             None \<Rightarrow> s
           | Some (tid, q) \<Rightarrow> s\<lparr>s_queue := q, s_runs := gput tid (RunStart 1) (s_runs s)\<rparr>
      else s)"
| "sys_step (LRun now tid inp) s =
     (case gget (s_runs s) tid of
        None \<Rightarrow> s
      | Some ph \<Rightarrow>
          (case run_step (s_queue s) now tid ph inp of
             None \<Rightarrow> s
           | Some (q, Some ph') \<Rightarrow> s\<lparr>s_queue := q, s_runs := gput tid ph' (s_runs s)\<rparr>
           | Some (q, None) \<Rightarrow> s\<lparr>s_queue := snd (admit q now), s_runs := gdel tid (s_runs s)\<rparr>))"
| "sys_step (LCancel now tid) s = s\<lparr>s_queue := snd (Cancel (s_queue s) now tid)\<rparr>"
| "sys_step (LCancelByFingerprint now fp) s = s\<lparr>s_queue := snd (CancelByFingerprint (s_queue s) now fp)\<rparr>"
| "sys_step (LCancelBySource now src) s = s\<lparr>s_queue := snd (CancelBySource (s_queue s) now src)\<rparr>"
| "sys_step (LCancelAll now) s = s\<lparr>s_queue := snd (CancelAll (s_queue s) now)\<rparr>"
| "sys_step LPause s = s\<lparr>s_queue := Pause (s_queue s)\<rparr>"
| "sys_step LResume s = s\<lparr>s_queue := Resume (s_queue s)\<rparr>"
| "sys_step (LSetMaxQueueSize n) s = s\<lparr>s_queue := SetMaxQueueSize (s_queue s) n\<rparr>"
| "sys_step LStop s = s\<lparr>s_queue := Stop (s_queue s)\<rparr>"
| "sys_step (LOpenBatch now bid) s = s\<lparr>s_queue := OpenBatch (s_queue s) now bid\<rparr>"
| "sys_step (LSetReporter on) s = s\<lparr>s_queue := SetReporter (s_queue s) on\<rparr>"
| "sys_step (LEnqueueBacklog now bid cs prio) s =
     s\<lparr>s_queue := snd (EnqueueBacklog (s_queue s) now bid cs prio)\<rparr>"
| "sys_step LPauseAdmission s = s\<lparr>s_queue := PauseAdmission (s_queue s)\<rparr>"
| "sys_step (LResumeAdmission now) s = s\<lparr>s_queue := ResumeAdmission (s_queue s) now\<rparr>"
| "sys_step LStart s = s\<lparr>s_queue := tq_Start (s_queue s)\<rparr>"
| "sys_step (LSetConcurrency n) s = s\<lparr>s_queue := SetConcurrency (s_queue s) n\<rparr>"
| "sys_step LRetire s =
     (if int (length (s_runs s)) < q_liveWorkers (s_queue s)
      then s\<lparr>s_queue := snd (worker_retire (s_queue s))\<rparr> else s)"
| "sys_step LExit s =
     (if int (length (s_runs s)) < q_liveWorkers (s_queue s)
      then s\<lparr>s_queue := worker_exit (s_queue s)\<rparr> else s)"
| "sys_step (LSubscribe ch) s = s\<lparr>s_queue := SubscribeChanges (s_queue s) ch\<rparr>"

definition sys_New :: "tq_config \<Rightarrow> tq_sys" where
  "sys_New config = \<lparr>s_queue = tq_New config, s_runs = []\<rparr>"

end
