(* ===== verification/TestQueueInv.thy ===== *)
theory TestQueueInv
  imports TestQueueRun
begin

text \<open>
  The invariant of the test queue and its preservation by every transition: heap order and
  disjointness of the pending heap and the in-flight map, agreement of task states with the
  structure a task is in, soundness of the fingerprint index, exact accounting of the global
  counters, bounded core slots, and a backlog without duplicates.
\<close>

section \<open>Views of the queue\<close>

text \<open>What the invariant reads, grouped so that unrelated updates are seen to keep it.\<close>

definition core_view :: "queue \<Rightarrow> tq_config \<times> (int \<Rightarrow> task option) \<times> int list \<times> int list \<times>
    (string, int) gomap \<times> int" where
  "core_view q = (q_config q, q_tasks q, q_pending q, q_inflight q, q_byFingerprint q, q_nextID q)"

definition count_view :: "queue \<Rightarrow> int \<times> int \<times> int \<times> int \<times> int \<times> int" where
  "count_view q = (q_totalEnqueued q, q_totalCompleted q, q_totalPassed q, q_totalFailed q,
     q_totalTimedOut q, q_totalCancelled q)"

definition slot_view :: "queue \<Rightarrow> int \<times> int \<times> int \<times> int \<times> bool \<times> bool" where
  "slot_view q = (q_coreSlots q, q_activeCores q, q_liveWorkers q, q_desiredWorkers q,
     q_started q, q_stopped q)"

definition backlog_view :: "queue \<Rightarrow> backlog_item list \<times> string list \<times> bool \<times> bool" where
  "backlog_view q = (q_backlog q, q_backlogSeen q, q_paused q, q_admissionHeld q)"

definition frame_view where
  "frame_view q = (core_view q, count_view q, slot_view q, backlog_view q)"

lemmas view_defs = frame_view_def core_view_def count_view_def slot_view_def backlog_view_def

named_theorems frame \<open>operations that keep everything the invariant reads\<close>

lemma frame_broadcast [frame]: "frame_view (broadcastChangesLocked q v) = frame_view q"
  by (simp add: broadcastChangesLocked_def view_defs)

lemma frame_notify [frame]: "frame_view (notifyLocked q) = frame_view q"
  by (simp add: notifyLocked_def Let_def frame_broadcast) (simp add: view_defs)

lemma frame_report [frame]: "frame_view (report q ev) = frame_view q"
  by (simp add: report_def view_defs)

lemma frame_batchCompleted [frame]: "frame_view (batchCompletedLocked q now) = frame_view q"
  by (auto simp: batchCompletedLocked_def frame_report split: option.split) (simp add: view_defs)

lemma frame_batchProgress [frame]: "frame_view (batchProgressLocked q now force) = frame_view q"
  by (auto simp: batchProgressLocked_def frame_report Let_def split: option.split)
     (simp_all add: view_defs)

lemma frame_finish_batch [frame]: "frame_view (finish_batch q now t st) = frame_view q"
  by (auto simp: finish_batch_def frame_batchCompleted frame_batchProgress split: option.split)
     (simp add: view_defs)

lemma frame_recordLatency [frame]: "frame_view (recordLatency q ms) = frame_view q"
  by (simp add: recordLatency_def Let_def view_defs)

lemma frame_finish_latency [frame]: "frame_view (finish_latency q r) = frame_view q"
  by (simp add: finish_latency_def Let_def frame_recordLatency)

lemma frame_recordDuration [frame]: "frame_view (recordDuration q d) = frame_view q"
  by (simp add: recordDuration_def view_defs)

lemma frame_cache_result [frame]: "frame_view (cache_result q fp r) = frame_view q"
  by (simp add: cache_result_def Let_def view_defs)

lemma frame_count_backend [frame]: "frame_view (count_backend q b) = frame_view q"
  by (simp add: count_backend_def view_defs)

lemma frame_OpenBatch [frame]: "frame_view (OpenBatch q now bid) = frame_view q"
  by (simp add: OpenBatch_def view_defs)

lemma frame_SetReporter [frame]: "frame_view (SetReporter q on) = frame_view q"
  by (simp add: SetReporter_def view_defs)

lemma frame_Subscribe [frame]: "frame_view (SubscribeChanges q ch) = frame_view q"
  by (simp add: SubscribeChanges_def view_defs)

section \<open>The invariant\<close>

text \<open>A stored task sits in exactly the structure its state names.\<close>

definition task_placed :: "int list \<Rightarrow> int list \<Rightarrow> int \<Rightarrow> int \<Rightarrow> task \<Rightarrow> bool" where
  "task_placed pending inflight next tid t \<longleftrightarrow> t_ID t = tid \<and> tid \<le> next \<and>
     (tid \<in> set pending \<longrightarrow> t_State t = StateQueued) \<and>
     (tid \<in> set inflight \<longrightarrow> t_State t \<in> {StatePreparing, StateTesting, StateMeasuring}) \<and>
     (tid \<notin> set pending \<longrightarrow> tid \<notin> set inflight \<longrightarrow> IsTerminal (t_State t))"

definition index_sound ::
  "(int \<Rightarrow> task option) \<Rightarrow> int list \<Rightarrow> int list \<Rightarrow> string \<Rightarrow> int \<Rightarrow> bool" where
  "index_sound tasks pending inflight fp tid \<longleftrightarrow> (tid \<in> set pending \<or> tid \<in> set inflight) \<and>
     (\<exists>t. tasks tid = Some t \<and> t_Fingerprint t = fp)"

definition tq_core :: "(int \<Rightarrow> task option) \<Rightarrow> int list \<Rightarrow> int list \<Rightarrow> (string, int) gomap \<Rightarrow> int \<Rightarrow> bool" where
  "tq_core tasks pending inflight idx next \<longleftrightarrow>
     heap_ok (pending_Less tasks) pending (length pending) \<and>
     distinct pending \<and> distinct inflight \<and> set pending \<inter> set inflight = {} \<and>
     (\<forall>tid \<in> set pending \<union> set inflight. tasks tid \<noteq> None) \<and>
     (\<forall>tid t. tasks tid = Some t \<longrightarrow> task_placed pending inflight next tid t) \<and>
     gmap_ok idx \<and>
     (\<forall>fp tid. gget idx fp = Some tid \<longrightarrow> index_sound tasks pending inflight fp tid)"

definition tq_counts :: "queue \<Rightarrow> bool" where
  "tq_counts q \<longleftrightarrow>
     q_totalEnqueued q = int (length (q_pending q)) + int (length (q_inflight q)) + q_totalCompleted q \<and>
     q_totalCompleted q =
       q_totalPassed q + q_totalFailed q + q_totalTimedOut q + q_totalCancelled q \<and>
     q_totalEnqueued q = q_nextID q"

definition backlog_fps :: "queue \<Rightarrow> string list" where
  "backlog_fps q = map (\<lambda>it. bc_Fingerprint (bi_candidate it)) (q_backlog q)"

definition tq_backlog :: "queue \<Rightarrow> bool" where
  "tq_backlog q \<longleftrightarrow> distinct (backlog_fps q) \<and> set (q_backlogSeen q) = set (backlog_fps q)"

definition tq_inv :: "queue \<Rightarrow> bool" where
  "tq_inv q \<longleftrightarrow>
     tq_core (q_tasks q) (q_pending q) (q_inflight q) (q_byFingerprint q) (q_nextID q) \<and>
     tq_counts q \<and> tq_backlog q"

lemma tq_inv_frame: "frame_view a = frame_view b \<Longrightarrow> tq_inv a = tq_inv b"
  by (simp add: tq_inv_def tq_counts_def tq_backlog_def backlog_fps_def view_defs)

section \<open>The heap order under task updates\<close>

lemma pending_Less_cong:
  "tasks tid = Some t \<Longrightarrow> t_Priority t' = t_Priority t \<Longrightarrow> t_CreatedAt t' = t_CreatedAt t \<Longrightarrow>
   pending_Less (tasks(tid \<mapsto> t')) = pending_Less tasks"
  by (auto simp: pending_Less_def task_before_def fun_eq_iff)

lemma heap_ok_cong:
  assumes "\<And>x y. x \<in> set h \<Longrightarrow> y \<in> set h \<Longrightarrow> lt' x y = lt x y"
  shows "heap_ok lt' h (length h) = heap_ok lt h (length h)"
proof -
  have "heap_edge lt' h k = heap_edge lt h k" if "0 < k" "k < length h" for k
    using that assms heap_parent_lt [OF that(1)] by (simp add: heap_edge_def)
  then show ?thesis by (auto simp: heap_ok_def)
qed

section \<open>Finishing a task\<close>

lemma count_state_views:
  "core_view (count_state q st) = core_view q" "slot_view (count_state q st) = slot_view q"
  "backlog_view (count_state q st) = backlog_view q"
  "IsTerminal st \<Longrightarrow> count_view (count_state q st) =
     (q_totalEnqueued q, q_totalCompleted q + 1,
      q_totalPassed q + (if st = StatePassed then 1 else 0),
      q_totalFailed q + (if st = StateFailed then 1 else 0),
      q_totalTimedOut q + (if st = StateTimedOut then 1 else 0),
      q_totalCancelled q + (if st = StateCancelled then 1 else 0))"
  by (cases st; simp add: count_state_def view_defs Let_def IsTerminal_def)+

lemma finish_views:
  fixes now :: instant and st :: TaskState and r :: test_result
  assumes "q_tasks q tid = Some t" "\<not> IsTerminal (t_State t)"
  defines "q' \<equiv> snd (finishTaskLocked q now tid st r)"
    and "u \<equiv> unlink_task (mark_task q tid t st r) tid (t_Fingerprint t)"
  shows "fst (finishTaskLocked q now tid st r)"
    "core_view q' = core_view u" "slot_view q' = slot_view q" "backlog_view q' = backlog_view q"
    "count_view q' = count_view (count_state q st)"
proof -
  let ?c = "count_state (notifyLocked (cache_result u (t_Fingerprint t) r)) st"
  have "frame_view q' = frame_view ?c"
    using assms(1,2)
    by (simp add: q'_def u_def finishTaskLocked_def Let_def frame_finish_latency frame_finish_batch
        frame_count_backend)
  then have c: "core_view q' = core_view ?c" "slot_view q' = slot_view ?c"
    "backlog_view q' = backlog_view ?c" "count_view q' = count_view ?c"
    by (simp_all add: frame_view_def)
  have n: "frame_view (notifyLocked (cache_result u (t_Fingerprint t) r)) = frame_view u"
    by (simp add: frame_notify frame_cache_result)
  show "core_view q' = core_view u" using c(1) n by (simp add: count_state_views frame_view_def)
  show "slot_view q' = slot_view q" "backlog_view q' = backlog_view q"
    using c(2,3) n
    by (simp_all add: count_state_views frame_view_def)
       (simp_all add: u_def unlink_task_def mark_task_def Let_def slot_view_def backlog_view_def)
  have "count_view u = count_view q"
    by (simp add: u_def unlink_task_def mark_task_def Let_def count_view_def)
  with n have "count_view (notifyLocked (cache_result u (t_Fingerprint t) r)) = count_view q"
    by (simp add: frame_view_def)
  then show "count_view q' = count_view (count_state q st)"
    using c(4) by (cases st) (simp_all add: count_state_def Let_def count_view_def)
  show "fst (finishTaskLocked q now tid st r)"
    using assms(1,2) by (simp add: finishTaskLocked_def Let_def)
qed

lemma finish_terminal:
  "q_tasks q tid = Some t \<Longrightarrow> IsTerminal (t_State t) \<Longrightarrow> finishTaskLocked q now tid st r = (False, q)"
  by (simp add: finishTaskLocked_def)

lemma finish_absent: "q_tasks q tid = None \<Longrightarrow> finishTaskLocked q now tid st r = (False, q)"
  by (simp add: finishTaskLocked_def)

lemma tq_coreD:
  assumes "tq_core tasks pending inflight idx next"
  shows "heap_ok (pending_Less tasks) pending (length pending)" "distinct pending" "distinct inflight"
    "set pending \<inter> set inflight = {}" "gmap_ok idx"
    "tid \<in> set pending \<or> tid \<in> set inflight \<Longrightarrow> tasks tid \<noteq> None"
    "tasks tid = Some t \<Longrightarrow> task_placed pending inflight next tid t"
    "gget idx fp = Some tid \<Longrightarrow> index_sound tasks pending inflight fp tid"
  using assms by (simp_all add: tq_core_def)

lemma IsTerminal_simps [simp]:
  "\<not> IsTerminal StateQueued" "\<not> IsTerminal StatePreparing" "\<not> IsTerminal StateTesting"
  "\<not> IsTerminal StateMeasuring" "IsTerminal StatePassed" "IsTerminal StateFailed"
  "IsTerminal StateTimedOut" "IsTerminal StateCancelled"
  by (simp_all add: IsTerminal_def)

lemma tq_core_terminal_iff:
  assumes "tq_core tasks pending inflight idx next" "tasks tid = Some t"
  shows "IsTerminal (t_State t) \<longleftrightarrow> tid \<notin> set pending \<and> tid \<notin> set inflight"
  using tq_coreD(7) [OF assms] by (auto simp: task_placed_def)

lemma mark_fields:
  "q_tasks (mark_task q tid t st r) =
     (q_tasks q)(tid \<mapsto> t\<lparr>t_State := st, t_Result := r, t_cancelFunc := None\<rparr>)"
  "q_pending (mark_task q tid t st r) = q_pending q"
  "q_inflight (mark_task q tid t st r) = q_inflight q"
  "q_byFingerprint (mark_task q tid t st r) = q_byFingerprint q"
  "q_nextID (mark_task q tid t st r) = q_nextID q"
  by (simp_all add: mark_task_def)

lemma unlink_fields:
  "q_tasks (unlink_task q tid fp) = q_tasks q"
  "q_inflight (unlink_task q tid fp) = filter (\<lambda>x. x \<noteq> tid) (q_inflight q)"
  "q_byFingerprint (unlink_task q tid fp) = gdel fp (q_byFingerprint q)"
  "q_nextID (unlink_task q tid fp) = q_nextID q"
  "q_pending (unlink_task q tid fp) =
     (case heap_index (q_pending q) tid of
        None \<Rightarrow> q_pending q
      | Some i \<Rightarrow> (case heap_remove (pending_Less (q_tasks q)) (q_pending q) i of
                    None \<Rightarrow> q_pending q | Some (_, h) \<Rightarrow> h))"
  by (simp_all add: unlink_task_def Let_def)

lemma unlink_pending:
  fixes st :: TaskState and r :: test_result
  assumes core: "tq_core (q_tasks q) (q_pending q) (q_inflight q) (q_byFingerprint q) (q_nextID q)"
    and t: "q_tasks q tid = Some t"
  defines "u \<equiv> unlink_task (mark_task q tid t st r) tid (t_Fingerprint t)"
  shows "heap_ok (pending_Less (q_tasks q)) (q_pending u) (length (q_pending u))"
    "mset (q_pending u) = mset (q_pending q) - {#tid#}"
proof -
  note D = tq_coreD [OF core]
  have less: "pending_Less ((q_tasks q)(tid \<mapsto> t\<lparr>t_State := st, t_Result := r, t_cancelFunc := None\<rparr>))
      = pending_Less (q_tasks q)"
    using t by (intro pending_Less_cong) simp_all
  have "heap_ok (pending_Less (q_tasks q)) (q_pending u) (length (q_pending u)) \<and>
      mset (q_pending u) = mset (q_pending q) - {#tid#}"
  proof (cases "heap_index (q_pending q) tid")
    case None
    then have "tid \<notin> set (q_pending q)" by (simp add: heap_index_None)
    with None D(1) show ?thesis by (simp add: u_def unlink_fields mark_fields)
  next
    case (Some i)
    then have i: "i < length (q_pending q)" "q_pending q ! i = tid"
      using heap_index_Some [OF Some] by simp_all
    from pend.heap_remove_ok [OF D(1) i(1)] obtain h where
      h: "heap_remove (pending_Less (q_tasks q)) (q_pending q) i = Some (tid, h)"
        "heap_ok (pending_Less (q_tasks q)) h (length h)" "mset (q_pending q) = add_mset tid (mset h)"
      using i(2) by blast
    with Some show ?thesis by (simp add: u_def unlink_fields mark_fields less del: fun_upd_apply)
  qed
  then show "heap_ok (pending_Less (q_tasks q)) (q_pending u) (length (q_pending u))"
    "mset (q_pending u) = mset (q_pending q) - {#tid#}" by blast+
qed

lemma mset_remove_distinct:
  assumes "distinct xs" "mset ys = mset xs - {#x#}"
  shows "distinct ys" "set ys = set xs - {x}"
    "length ys = (if x \<in> set xs then length xs - 1 else length xs)"
proof -
  have "distinct ys \<and> set ys = set xs - {x} \<and>
    length ys = (if x \<in> set xs then length xs - 1 else length xs)"
  proof (cases "x \<in> set xs")
    case True
    then have "mset xs = add_mset x (mset ys)" using assms(2) by simp
    then have p: "mset xs = mset (x # ys)" by simp
    then have "distinct (x # ys)" "set (x # ys) = set xs" "length (x # ys) = length xs"
      using assms(1) by (metis mset_eq_imp_distinct_iff, metis mset_eq_setD, metis mset_eq_length)
    with True show ?thesis by auto
  next
    case False
    then have "mset ys = mset xs" using assms(2) by (simp add: diff_single_trivial)
    with False assms(1) show ?thesis
      by (metis Diff_empty Diff_insert0 mset_eq_imp_distinct_iff mset_eq_length mset_eq_setD)
  qed
  then show "distinct ys" "set ys = set xs - {x}"
    "length ys = (if x \<in> set xs then length xs - 1 else length xs)" by blast+
qed

lemma finish_core:
  fixes st :: TaskState and r :: test_result
  assumes core: "tq_core (q_tasks q) (q_pending q) (q_inflight q) (q_byFingerprint q) (q_nextID q)"
    and t: "q_tasks q tid = Some t" and st: "IsTerminal st"
  defines "u \<equiv> unlink_task (mark_task q tid t st r) tid (t_Fingerprint t)"
  shows "tq_core (q_tasks u) (q_pending u) (q_inflight u) (q_byFingerprint u) (q_nextID u)"
proof -
  note D = tq_coreD [OF core]
  note pend = unlink_pending [OF core t, of st r, folded u_def]
  note rem = mset_remove_distinct [OF D(2) pend(2)]
  have tasks: "q_tasks u = (q_tasks q)(tid \<mapsto> t\<lparr>t_State := st, t_Result := r, t_cancelFunc := None\<rparr>)"
    and inf: "q_inflight u = filter (\<lambda>x. x \<noteq> tid) (q_inflight q)"
    and idx: "q_byFingerprint u = gdel (t_Fingerprint t) (q_byFingerprint q)"
    and nx: "q_nextID u = q_nextID q"
    by (simp_all add: u_def unlink_fields mark_fields)
  have less: "pending_Less (q_tasks u) = pending_Less (q_tasks q)"
    unfolding tasks using t by (intro pending_Less_cong) simp_all
  have index: "index_sound (q_tasks u) (q_pending u) (q_inflight u) fp x"
    if "gget (q_byFingerprint u) fp = Some x" for fp x
  proof -
    from that have "fp \<noteq> t_Fingerprint t" "gget (q_byFingerprint q) fp = Some x"
      by (simp_all add: idx split: if_splits)
    with D(8) [of fp x] t have "x \<noteq> tid" "index_sound (q_tasks q) (q_pending q) (q_inflight q) fp x"
      by (auto simp: index_sound_def)
    then show ?thesis by (auto simp: index_sound_def tasks rem(2) inf)
  qed
  have states: "task_placed (q_pending u) (q_inflight u) (q_nextID u) x tx"
    if "q_tasks u x = Some tx" for x tx
  proof (cases "x = tid")
    case True
    with that st D(7) [OF t] show ?thesis by (auto simp: task_placed_def tasks rem(2) inf nx)
  next
    case False
    with that have "q_tasks q x = Some tx" by (simp add: tasks)
    from D(7) [OF this] False show ?thesis by (simp add: task_placed_def rem(2) inf nx)
  qed
  have stored: "\<forall>x \<in> set (q_pending u) \<union> set (q_inflight u). q_tasks u x \<noteq> None"
    using D(6) by (auto simp: rem(2) inf tasks)
  have "set (q_pending u) \<inter> set (q_inflight u) = {}" "distinct (q_inflight u)" "gmap_ok (q_byFingerprint u)"
    using D(3,4,5) by (auto simp: rem(2) inf idx)
  with pend(1) rem(1) index states stored show ?thesis
    by (simp add: tq_core_def less)
qed

lemma finish_inv:
  assumes inv: "tq_inv q" and st: "IsTerminal st"
  shows "tq_inv (snd (finishTaskLocked q now tid st r))"
proof (cases "q_tasks q tid")
  case None
  with inv show ?thesis by (simp add: finish_absent)
next
  case (Some t)
  show ?thesis
  proof (cases "IsTerminal (t_State t)")
    case True
    with inv Some show ?thesis by (simp add: finish_terminal)
  next
    case False
    let ?q' = "snd (finishTaskLocked q now tid st r)"
    let ?u = "unlink_task (mark_task q tid t st r) tid (t_Fingerprint t)"
    note v = finish_views [OF Some False, of now st r]
    have core: "tq_core (q_tasks q) (q_pending q) (q_inflight q) (q_byFingerprint q) (q_nextID q)"
      using inv by (simp add: tq_inv_def)
    note D = tq_coreD [OF core]
    note rem = mset_remove_distinct [OF D(2) unlink_pending(2) [OF core Some, of st r]]
    have live: "tid \<in> set (q_pending q) \<or> tid \<in> set (q_inflight q)" using tq_core_terminal_iff [OF core Some] False by simp
    have "length (q_pending ?u) + length (q_inflight ?u) + 1 = length (q_pending q) + length (q_inflight q)"
    proof (cases "tid \<in> set (q_pending q)")
      case True
      then have "tid \<notin> set (q_inflight q)" using D(4) by blast
      then have "filter (\<lambda>x. x \<noteq> tid) (q_inflight q) = q_inflight q" by (auto simp: filter_id_conv)
      moreover have "0 < length (q_pending q)" using True by (cases "q_pending q") auto
      ultimately show ?thesis using True rem(3)
        by (simp add: unlink_fields(2) mark_fields)
    next
      case False
      with live have "Suc (length (filter (\<lambda>x. x \<noteq> tid) (q_inflight q))) = length (q_inflight q)"
        using filter_neq_length [OF D(3)] by simp
      moreover have "q_inflight ?u = filter (\<lambda>x. x \<noteq> tid) (q_inflight q)"
        by (simp add: unlink_fields mark_fields)
      ultimately show ?thesis using False rem(3) by simp
    qed
    moreover have "q_pending ?q' = q_pending ?u" "q_inflight ?q' = q_inflight ?u"
      "q_nextID ?q' = q_nextID q" "q_tasks ?q' = q_tasks ?u" "q_byFingerprint ?q' = q_byFingerprint ?u"
      using v(2) by (simp_all add: core_view_def unlink_fields(4) mark_fields)
    moreover have "count_view ?q' =
     (q_totalEnqueued q, q_totalCompleted q + 1,
      q_totalPassed q + (if st = StatePassed then 1 else 0),
      q_totalFailed q + (if st = StateFailed then 1 else 0),
      q_totalTimedOut q + (if st = StateTimedOut then 1 else 0),
      q_totalCancelled q + (if st = StateCancelled then 1 else 0))"
      using v(5) count_state_views(4) [OF st] by simp
    moreover have "tq_backlog ?q' = tq_backlog q"
      using v(4) by (simp add: tq_backlog_def backlog_fps_def backlog_view_def)
    moreover have "tq_core (q_tasks ?u) (q_pending ?u) (q_inflight ?u) (q_byFingerprint ?u) (q_nextID q)"
      using finish_core [OF core Some st, of r] by (simp add: unlink_fields(4) mark_fields)
    ultimately show ?thesis
      using inv st by (cases st) (auto simp: tq_inv_def tq_counts_def count_view_def IsTerminal_def)
  qed
qed

section \<open>Safe transitions\<close>

text \<open>
  A run holds its task while the task is in flight, or cancelled under it. \<open>safe_step X\<close>
  relates two queue states when the invariant carries over, the runs outside \<open>X\<close> keep holding
  their tasks, and the worker and slot counters stay as they are. It is reflexive and
  transitive, so the loops of the code are handled by induction.
\<close>

definition held :: "queue \<Rightarrow> int \<Rightarrow> bool" where
  "held q x \<longleftrightarrow> x \<in> set (q_inflight q) \<or> is_cancelled q x"

definition slots :: "queue \<Rightarrow> int \<times> int \<times> int \<times> int" where
  "slots q = (q_coreSlots q, q_activeCores q, q_liveWorkers q, c_CoreProbeConcurrency (q_config q))"

text \<open>A settled task keeps its outcome; the index is exact when it names every live task.\<close>

definition settled :: "queue \<Rightarrow> queue \<Rightarrow> bool" where
  "settled q q' \<longleftrightarrow> (\<forall>x t. q_tasks q x = Some t \<longrightarrow> IsTerminal (t_State t) \<longrightarrow>
     (\<exists>t'. q_tasks q' x = Some t' \<and> t_State t' = t_State t \<and> t_Result t' = t_Result t))"

definition idx_exact :: "queue \<Rightarrow> bool" where
  "idx_exact q \<longleftrightarrow> (\<forall>x t. x \<in> set (q_pending q) \<or> x \<in> set (q_inflight q) \<longrightarrow> q_tasks q x = Some t \<longrightarrow>
     gget (q_byFingerprint q) (t_Fingerprint t) = Some x)"

lemma idx_exactD:
  "idx_exact q \<Longrightarrow> x \<in> set (q_pending q) \<or> x \<in> set (q_inflight q) \<Longrightarrow> q_tasks q x = Some t \<Longrightarrow>
   gget (q_byFingerprint q) (t_Fingerprint t) = Some x"
  unfolding idx_exact_def by blast

lemma idx_exactI:
  "(\<And>x t. x \<in> set (q_pending q) \<or> x \<in> set (q_inflight q) \<Longrightarrow> q_tasks q x = Some t \<Longrightarrow>
     gget (q_byFingerprint q) (t_Fingerprint t) = Some x) \<Longrightarrow> idx_exact q"
  unfolding idx_exact_def by blast

definition safe_step :: "int set \<Rightarrow> bool \<Rightarrow> queue \<Rightarrow> queue \<Rightarrow> bool" where
  "safe_step X D q q' \<longleftrightarrow>
     (tq_inv q \<longrightarrow> tq_inv q' \<and> (\<forall>x. x \<notin> X \<longrightarrow> held q x \<longrightarrow> held q' x) \<and> slots q' = slots q \<and>
        settled q q' \<and> (\<not> D \<longrightarrow> idx_exact q \<longrightarrow> idx_exact q'))"

lemma settled_refl [simp]: "settled q q"
  by (simp add: settled_def)

lemma settled_trans: "settled a b \<Longrightarrow> settled b c \<Longrightarrow> settled a c"
  unfolding settled_def by metis

lemma safe_refl [intro, simp]: "safe_step X D q q"
  by (simp add: safe_step_def)

lemma safe_trans: "safe_step X D a b \<Longrightarrow> safe_step X D b c \<Longrightarrow> safe_step X D a c"
  unfolding safe_step_def using settled_trans by metis

lemma safe_mono: "safe_step X D a b \<Longrightarrow> X \<subseteq> Y \<Longrightarrow> safe_step Y D a b"
  unfolding safe_step_def by blast

lemma safe_stepI:
  assumes "tq_inv q \<Longrightarrow> tq_inv q'" "\<And>x. x \<notin> X \<Longrightarrow> tq_inv q \<Longrightarrow> held q x \<Longrightarrow> held q' x"
    "tq_inv q \<Longrightarrow> slots q' = slots q" "tq_inv q \<Longrightarrow> settled q q'"
    "tq_inv q \<Longrightarrow> \<not> D \<Longrightarrow> idx_exact q \<Longrightarrow> idx_exact q'"
  shows "safe_step X D q q'"
  using assms unfolding safe_step_def by blast

text \<open>Updates outside the tasks, the heap, the in-flight map and the index.\<close>

lemma safe_core:
  assumes "q_tasks q' = q_tasks q" "q_pending q' = q_pending q" "q_inflight q' = q_inflight q"
    "q_byFingerprint q' = q_byFingerprint q" "tq_inv q \<Longrightarrow> tq_inv q'" "slots q' = slots q"
  shows "safe_step X D q q'"
  using assms
  by (intro safe_stepI) (simp_all add: held_def is_cancelled_def settled_def idx_exact_def)

lemma safe_frame: "frame_view q' = frame_view q \<Longrightarrow> safe_step X D q q'"
  using tq_inv_frame [of q' q] by (intro safe_core) (simp_all add: slots_def view_defs)

lemma safe_frame_right: "safe_step X D q a \<Longrightarrow> frame_view b = frame_view a \<Longrightarrow> safe_step X D q b"
  by (rule safe_trans [OF _ safe_frame])

lemma finish_cases:
  obtains "finishTaskLocked q now tid st r = (False, q)"
  | t where "q_tasks q tid = Some t" "\<not> IsTerminal (t_State t)"
  by (cases "q_tasks q tid"; cases "IsTerminal (t_State (the (q_tasks q tid)))")
     (auto simp: finishTaskLocked_def)

lemma finish_fields:
  fixes now :: instant and st :: TaskState and r :: test_result
  assumes t: "q_tasks q tid = Some t" "\<not> IsTerminal (t_State t)"
  defines "q' \<equiv> snd (finishTaskLocked q now tid st r)"
  shows "q_tasks q' = (q_tasks q)(tid \<mapsto> t\<lparr>t_State := st, t_Result := r, t_cancelFunc := None\<rparr>)"
    "q_inflight q' = filter (\<lambda>x. x \<noteq> tid) (q_inflight q)"
    "q_byFingerprint q' = gdel (t_Fingerprint t) (q_byFingerprint q)"
    "tq_inv q \<Longrightarrow> set (q_pending q') = set (q_pending q) - {tid}"
proof -
  let ?u = "unlink_task (mark_task q tid t st r) tid (t_Fingerprint t)"
  have v: "core_view q' = core_view ?u" unfolding q'_def by (rule finish_views(2) [OF t])
  then show "q_tasks q' = (q_tasks q)(tid \<mapsto> t\<lparr>t_State := st, t_Result := r, t_cancelFunc := None\<rparr>)"
    "q_inflight q' = filter (\<lambda>x. x \<noteq> tid) (q_inflight q)"
    "q_byFingerprint q' = gdel (t_Fingerprint t) (q_byFingerprint q)"
    by (simp_all add: core_view_def unlink_fields mark_fields)
  assume "tq_inv q"
  then have core: "tq_core (q_tasks q) (q_pending q) (q_inflight q) (q_byFingerprint q) (q_nextID q)"
    by (simp add: tq_inv_def)
  have "q_pending q' = q_pending ?u" using v by (simp add: core_view_def)
  then show "set (q_pending q') = set (q_pending q) - {tid}"
    using mset_remove_distinct(2) [OF tq_coreD(2) [OF core] unlink_pending(2) [OF core t(1)]] by simp
qed

lemma finish_held:
  assumes "held q x" "x \<noteq> tid \<or> st = StateCancelled"
  shows "held (snd (finishTaskLocked q now tid st r)) x"
proof (cases rule: finish_cases [of q now tid st r])
  case (2 t)
  from finish_fields [OF this, of now st r] assms show ?thesis by (auto simp: held_def is_cancelled_def)
qed (use assms in simp)

lemma finish_settled: "settled q (snd (finishTaskLocked q now tid st r))"
proof (cases rule: finish_cases [of q now tid st r])
  case (2 t)
  from finish_fields(1) [OF this, of now st r] 2 show ?thesis by (auto simp: settled_def)
qed simp

lemma finish_exact:
  assumes inv: "tq_inv q" and ex: "idx_exact q"
  shows "idx_exact (snd (finishTaskLocked q now tid st r))"
proof (cases rule: finish_cases [of q now tid st r])
  case (2 t)
  have core: "tq_core (q_tasks q) (q_pending q) (q_inflight q) (q_byFingerprint q) (q_nextID q)"
    using inv by (simp add: tq_inv_def)
  have "gget (q_byFingerprint q) (t_Fingerprint t) = Some tid"
    using idx_exactD [OF ex _ 2(1)] 2(2) tq_core_terminal_iff [OF core 2(1)] by auto
  then have "t_Fingerprint tx \<noteq> t_Fingerprint t \<and> gget (q_byFingerprint q) (t_Fingerprint tx) = Some x"
    if "x \<noteq> tid" "x \<in> set (q_pending q) \<or> x \<in> set (q_inflight q)" "q_tasks q x = Some tx" for x tx
    using that idx_exactD [OF ex, of x tx] by auto
  then show ?thesis
    using finish_fields(1-3) [OF 2, of now st r] finish_fields(4) [OF 2 inv, of now st r]
    by (intro idx_exactI) auto
qed (use ex in simp)

lemma finish_slots: "slots (snd (finishTaskLocked q now tid st r)) = slots q"
proof (cases "\<exists>t. q_tasks q tid = Some t \<and> \<not> IsTerminal (t_State t)")
  case True
  then obtain t where t: "q_tasks q tid = Some t" "\<not> IsTerminal (t_State t)" by blast
  from finish_views(2,3) [OF t, of now st r] show ?thesis
    by (simp add: slots_def slot_view_def core_view_def) (simp add: unlink_task_def mark_task_def Let_def)
next
  case False
  then have "finishTaskLocked q now tid st r = (False, q)"
    by (cases "q_tasks q tid") (auto simp: finishTaskLocked_def)
  then show ?thesis by simp
qed

lemma safe_finish: "IsTerminal st \<Longrightarrow> safe_step {tid} D q (snd (finishTaskLocked q now tid st r))"
  by (rule safe_stepI) (auto simp: finish_inv finish_slots finish_settled finish_exact intro: finish_held)

lemma safe_cancel: "safe_step X D q (snd (finishTaskLocked q now tid StateCancelled r))"
  by (rule safe_stepI) (auto simp: finish_inv finish_slots finish_settled finish_exact intro: finish_held)

section \<open>Adding a task\<close>

lemma fresh_id:
  assumes "tq_inv q"
  shows "q_tasks q (q_nextID q + 1) = None" "q_nextID q + 1 \<notin> set (q_pending q)"
    "q_nextID q + 1 \<notin> set (q_inflight q)"
proof -
  have core: "tq_core (q_tasks q) (q_pending q) (q_inflight q) (q_byFingerprint q) (q_nextID q)"
    using assms by (simp add: tq_inv_def)
  show none: "q_tasks q (q_nextID q + 1) = None"
    using tq_coreD(7) [OF core, of "q_nextID q + 1"]
    by (cases "q_tasks q (q_nextID q + 1)") (auto simp: task_placed_def)
  show "q_nextID q + 1 \<notin> set (q_pending q)" "q_nextID q + 1 \<notin> set (q_inflight q)"
    using none tq_coreD(6) [OF core, of "q_nextID q + 1"] by auto
qed

lemma add_task_core:
  assumes inv: "tq_inv q" and t: "t_ID t = q_nextID q + 1" "t_State t = StateQueued"
  shows "tq_core (q_tasks (add_task q t)) (q_pending (add_task q t)) (q_inflight (add_task q t))
    (q_byFingerprint (add_task q t)) (q_nextID (add_task q t))"
    "mset (q_pending (add_task q t)) = add_mset (t_ID t) (mset (q_pending q))"
proof -
  let ?id = "q_nextID q + 1"
  let ?tasks = "(q_tasks q)(?id \<mapsto> t)"
  let ?h = "heap_push (pending_Less ?tasks) (q_pending q) ?id"
  have core: "tq_core (q_tasks q) (q_pending q) (q_inflight q) (q_byFingerprint q) (q_nextID q)"
    using inv by (simp add: tq_inv_def)
  note D = tq_coreD [OF core] and fresh = fresh_id [OF inv]
  have "heap_ok (pending_Less ?tasks) (q_pending q) (length (q_pending q))"
  proof (subst heap_ok_cong [of _ _ "pending_Less (q_tasks q)"])
    fix x y assume "x \<in> set (q_pending q)" "y \<in> set (q_pending q)"
    with fresh(2) have "x \<noteq> ?id" "y \<noteq> ?id" by auto
    then show "pending_Less ?tasks x y = pending_Less (q_tasks q) x y" by (simp add: pending_Less_def)
  qed (rule D(1))
  note push = pend.heap_push_ok [OF this, of ?id]
  have new: "set ?h = insert ?id (set (q_pending q))" using push(2) by (metis set_mset_add_mset_insert set_mset_mset)
  have "distinct ?h"
  proof -
    have "mset ?h = mset (?id # q_pending q)" using push(2) by simp
    then show ?thesis using D(2) fresh(2) by (metis distinct.simps(2) mset_eq_imp_distinct_iff)
  qed
  moreover have "task_placed ?h (q_inflight q) ?id x tx" if "?tasks x = Some tx" for x tx
    using that D(7) [of x tx] t fresh by (fastforce simp: task_placed_def new split: if_splits)
  moreover have "index_sound ?tasks ?h (q_inflight q) fp x"
    if "gget (gput (t_Fingerprint t) ?id (q_byFingerprint q)) fp = Some x" for fp x
    using that D(8) [of fp x] fresh(1) by (auto simp: index_sound_def new split: if_splits)
  ultimately show "tq_core (q_tasks (add_task q t)) (q_pending (add_task q t)) (q_inflight (add_task q t))
    (q_byFingerprint (add_task q t)) (q_nextID (add_task q t))"
    using push(1) D(3,4,5,6) fresh
    by (simp add: add_task_def Let_def tq_core_def t new)
  show "mset (q_pending (add_task q t)) = add_mset (t_ID t) (mset (q_pending q))"
    using push(2) by (simp add: add_task_def Let_def t)
qed

lemma safe_add_task:
  assumes t: "t_ID t = q_nextID q + 1" "t_State t = StateQueued"
    and fresh: "D \<or> gget (q_byFingerprint q) (t_Fingerprint t) = None"
  shows "safe_step X D q (add_task q t)"
proof (rule safe_stepI)
  assume inv: "tq_inv q"
  have "length (q_pending (add_task q t)) = Suc (length (q_pending q))"
    using add_task_core(2) [OF inv t] by (metis size_add_mset size_mset)
  with inv add_task_core(1) [OF inv t] t(1) show "tq_inv (add_task q t)"
    by (simp add: tq_inv_def tq_counts_def tq_backlog_def backlog_fps_def)
       (simp add: add_task_def Let_def)
  show "slots (add_task q t) = slots q" by (simp add: slots_def add_task_def Let_def)
  show "settled q (add_task q t)"
    using fresh_id(1) [OF inv] by (auto simp: settled_def add_task_def Let_def t)
  have "set (q_pending (add_task q t)) = insert (t_ID t) (set (q_pending q))"
    using add_task_core(2) [OF inv t] by (metis set_mset_add_mset_insert set_mset_mset)
  moreover have "q_tasks (add_task q t) = (q_tasks q)(t_ID t \<mapsto> t)" "q_inflight (add_task q t) = q_inflight q"
    "q_byFingerprint (add_task q t) = gput (t_Fingerprint t) (t_ID t) (q_byFingerprint q)"
    by (simp_all add: add_task_def Let_def)
  moreover have "t_Fingerprint tx \<noteq> t_Fingerprint t \<and> gget (q_byFingerprint q) (t_Fingerprint tx) = Some x"
    if "\<not> D" "idx_exact q" "x \<in> set (q_pending q) \<or> x \<in> set (q_inflight q)" "q_tasks q x = Some tx" for x tx
    using that fresh idx_exactD [OF that(2-4)] by auto
  ultimately show "idx_exact (add_task q t)" if "\<not> D" "idx_exact q"
    using that fresh_id [OF inv] t(1) by (intro idx_exactI) (auto split: if_splits)
  fix x assume "held q x"
  with fresh_id(1) [OF inv] show "held (add_task q t) x"
    by (auto simp: held_def is_cancelled_def add_task_def Let_def t)
qed

lemma new_task_fields:
  "t_ID (new_task q now fp proto backends prio src bid) = q_nextID q + 1"
  "t_State (new_task q now fp proto backends prio src bid) = StateQueued"
  "t_Fingerprint (new_task q now fp proto backends prio src bid) = fp"
  by (simp_all add: new_task_def)

section \<open>Raising a priority\<close>

lemma raise_priority_heap:
  assumes core: "tq_core (q_tasks q) (q_pending q) (q_inflight q) (q_byFingerprint q) (q_nextID q)"
    and t: "q_tasks q tid = Some t"
  shows "heap_ok (pending_Less (q_tasks (raise_priority q tid t p))) (q_pending (raise_priority q tid t p))
      (length (q_pending (raise_priority q tid t p)))"
    "mset (q_pending (raise_priority q tid t p)) = mset (q_pending q)"
proof -
  note D = tq_coreD [OF core]
  let ?lt = "pending_Less ((q_tasks q)(tid \<mapsto> t\<lparr>t_Priority := p\<rparr>))"
  let ?r = "raise_priority q tid t p"
  have agree: "?lt x y = pending_Less (q_tasks q) x y" if "x \<noteq> tid" "y \<noteq> tid" for x y
    using that by (simp add: pending_Less_def)
  have less: "pending_Less (q_tasks ?r) = ?lt" by (simp add: raise_priority_def Let_def)
  have "heap_ok ?lt (q_pending ?r) (length (q_pending ?r)) \<and> mset (q_pending ?r) = mset (q_pending q)"
  proof (cases "heap_index (q_pending q) tid")
    case None
    then have "tid \<notin> set (q_pending q)" by (simp add: heap_index_None)
    then have "?lt x y = pending_Less (q_tasks q) x y"
      if "x \<in> set (q_pending q)" "y \<in> set (q_pending q)" for x y using that by (intro agree) auto
    from heap_ok_cong [of "q_pending q" ?lt "pending_Less (q_tasks q)", OF this] D(1) have "heap_ok ?lt (q_pending q) (length (q_pending q))" by simp
    with None show ?thesis by (simp add: raise_priority_def Let_def)
  next
    case (Some i)
    then have i: "i < length (q_pending q)" "q_pending q ! i = tid"
      using heap_index_Some [OF Some] by simp_all
    have "heap_hole ?lt (q_pending q) (length (q_pending q)) i"
      using agree i(2) by (intro heap_hole_change [OF pend.strict_weak_axioms D(1) i(1) D(2)]) simp_all
    from pend.heap_fix_ok [OF this i(1)] Some show ?thesis by (simp add: raise_priority_def Let_def)
  qed
  then show "heap_ok (pending_Less (q_tasks ?r)) (q_pending ?r) (length (q_pending ?r))"
    "mset (q_pending ?r) = mset (q_pending q)" by (simp_all add: less)
qed

lemma safe_raise_priority:
  assumes t: "q_tasks q tid = Some t"
  shows "safe_step X D q (raise_priority q tid t p)"
proof (rule safe_stepI)
  let ?r = "raise_priority q tid t p"
  assume inv: "tq_inv q"
  then have core: "tq_core (q_tasks q) (q_pending q) (q_inflight q) (q_byFingerprint q) (q_nextID q)"
    by (simp add: tq_inv_def)
  note D = tq_coreD [OF core] and heap = raise_priority_heap [OF core t, of p]
  have set: "set (q_pending ?r) = set (q_pending q)" and dist: "distinct (q_pending ?r)"
    and len: "length (q_pending ?r) = length (q_pending q)"
    using heap(2) D(2) by (metis mset_eq_setD, metis mset_eq_imp_distinct_iff, metis mset_eq_length)
  have fields: "q_tasks ?r = (q_tasks q)(tid \<mapsto> t\<lparr>t_Priority := p\<rparr>)" "q_inflight ?r = q_inflight q"
    "q_byFingerprint ?r = q_byFingerprint q" "q_nextID ?r = q_nextID q"
    by (simp_all add: raise_priority_def Let_def)
  have "task_placed (q_pending ?r) (q_inflight ?r) (q_nextID ?r) x tx" if "q_tasks ?r x = Some tx" for x tx
    using that D(7) [of x] t by (auto simp: task_placed_def fields set split: if_splits)
  moreover have "index_sound (q_tasks ?r) (q_pending ?r) (q_inflight ?r) fp x"
    if "gget (q_byFingerprint ?r) fp = Some x" for fp x
    using that D(8) [of fp x] t by (auto simp: index_sound_def fields set)
  ultimately have "tq_core (q_tasks ?r) (q_pending ?r) (q_inflight ?r) (q_byFingerprint ?r) (q_nextID ?r)"
    using heap(1) dist D(3,4,5,6) unfolding tq_core_def by (simp add: fields set)
  with inv show "tq_inv ?r"
    by (simp add: tq_inv_def tq_counts_def tq_backlog_def backlog_fps_def len)
       (simp add: raise_priority_def Let_def)
  show "slots ?r = slots q" by (simp add: slots_def raise_priority_def Let_def)
  show "settled q ?r" using t by (auto simp: settled_def fields)
  show "idx_exact ?r" if "idx_exact q" using that t by (auto simp: idx_exact_def fields set)
  fix x assume "held q x"
  with t show "held ?r x" by (auto simp: held_def is_cancelled_def fields)
qed

lemma safe_Enqueue:
  assumes "D \<or> opt \<in> {EnqueueDefault, EnqueueReplaceIfHigher}"
  shows "safe_step X D q (snd (Enqueue q now fp proto backends prio src opt))"
proof -
  let ?t = "new_task q now fp proto backends prio src []"
  have new: "safe_step X D q (notifyLocked (add_task q ?t))"
    if "D \<or> gget (q_byFingerprint q) fp = None"
    by (rule safe_frame_right [OF safe_add_task]) (use that in \<open>simp_all add: new_task_fields frame_notify\<close>)
  show ?thesis
    using new safe_raise_priority assms
    by (auto simp: Enqueue_def Let_def split: option.split EnqueueOption.split)
qed

section \<open>Updating a task in flight\<close>

lemma safe_set_task:
  assumes keep: "\<And>t. t_ID (f t) = t_ID t \<and> t_Priority (f t) = t_Priority t \<and>
      t_CreatedAt (f t) = t_CreatedAt t \<and> t_Fingerprint (f t) = t_Fingerprint t \<and> t_Result (f t) = t_Result t"
    and state: "\<And>t. q_tasks q tid = Some t \<Longrightarrow> t_State (f t) = t_State t \<or>
      tid \<in> set (q_inflight q) \<and> t_State (f t) \<in> {StatePreparing, StateTesting, StateMeasuring}"
  shows "safe_step X D q (set_task q tid f)"
proof (cases "q_tasks q tid")
  case None
  then have "(q_tasks q)(tid := None) = q_tasks q" by (simp add: fun_upd_idem)
  with None have "set_task q tid f = q" by (simp add: set_task_def)
  then show ?thesis by simp
next
  case (Some t)
  let ?r = "set_task q tid f"
  have fields: "q_tasks ?r = (q_tasks q)(tid \<mapsto> f t)" "q_inflight ?r = q_inflight q"
    "q_pending ?r = q_pending q" "q_byFingerprint ?r = q_byFingerprint q" "q_nextID ?r = q_nextID q"
    by (simp_all add: set_task_def Some)
  have less: "pending_Less (q_tasks ?r) = pending_Less (q_tasks q)"
    unfolding fields by (rule pending_Less_cong [of "q_tasks q" tid t]) (simp_all add: keep Some)
  show ?thesis
  proof (rule safe_stepI)
    assume inv: "tq_inv q"
    then have core: "tq_core (q_tasks q) (q_pending q) (q_inflight q) (q_byFingerprint q) (q_nextID q)"
      by (simp add: tq_inv_def)
    note D = tq_coreD [OF core]
    have "task_placed (q_pending q) (q_inflight q) (q_nextID q) tid (f t)"
      using D(7) [OF Some] state [OF Some] D(4) keep [of t] by (auto simp: task_placed_def)
    then have "task_placed (q_pending q) (q_inflight q) (q_nextID q) x tx"
      if "q_tasks ?r x = Some tx" for x tx
      using that D(7) [of x] by (auto simp: fields split: if_splits)
    moreover have "index_sound (q_tasks ?r) (q_pending q) (q_inflight q) fp x"
      if "gget (q_byFingerprint q) fp = Some x" for fp x
      using D(8) [OF that] Some keep by (auto simp: index_sound_def fields)
    ultimately have "tq_core (q_tasks ?r) (q_pending q) (q_inflight q) (q_byFingerprint q) (q_nextID q)"
      using D(1-6) unfolding tq_core_def less by (simp add: fields)
    with inv show "tq_inv ?r"
      by (simp add: tq_inv_def tq_counts_def tq_backlog_def backlog_fps_def set_task_def)
    show "slots ?r = slots q" by (simp add: slots_def set_task_def)
    have "IsTerminal (t_State t) \<Longrightarrow> t_State (f t) = t_State t"
      using state [OF Some] tq_core_terminal_iff [OF core Some] by auto
    then show "settled q ?r" using Some keep by (auto simp: settled_def fields)
    show "idx_exact ?r" if "idx_exact q" using that Some keep by (auto simp: idx_exact_def fields)
    fix x assume "held q x"
    with state [OF Some] show "held ?r x"
      using Some by (auto simp: held_def is_cancelled_def fields split: option.splits)
  qed
qed

section \<open>Dequeue\<close>

lemma Dequeue_view:
  assumes inv: "tq_inv q" and d: "Dequeue q = Some (tid, q')"
  obtains t h where "q_tasks q tid = Some t" "tid \<in> set (q_pending q)"
    "q' = q\<lparr>q_pending := h, q_inflight := tid # q_inflight q,
            q_tasks := (q_tasks q)(tid \<mapsto> t\<lparr>t_State := StatePreparing\<rparr>)\<rparr>"
    "heap_ok (pending_Less (q_tasks q)) h (length h)" "mset (q_pending q) = add_mset tid (mset h)"
    "\<forall>x \<in> set (q_pending q). \<not> pending_Less (q_tasks q) x tid"
proof -
  have core: "tq_core (q_tasks q) (q_pending q) (q_inflight q) (q_byFingerprint q) (q_nextID q)"
    using inv by (simp add: tq_inv_def)
  note D = tq_coreD [OF core]
  have ne: "q_pending q \<noteq> []" using d by (auto simp: Dequeue_def split: if_splits)
  from pend.heap_pop_ok [OF D(1) ne] obtain x h where
    pop: "heap_pop (pending_Less (q_tasks q)) (q_pending q) = Some (x, h)"
      "heap_ok (pending_Less (q_tasks q)) h (length h)" "mset (q_pending q) = add_mset x (mset h)"
      "\<forall>y \<in> set h. \<not> pending_Less (q_tasks q) y x" by blast
  have x: "x = tid" using d pop(1) by (simp add: Dequeue_def split: if_splits)
  have set: "set (q_pending q) = insert tid (set h)"
    using pop(3) x by (metis set_mset_add_mset_insert set_mset_mset)
  then obtain t where t: "q_tasks q tid = Some t" using D(6) [of tid] by auto
  have "q' = q\<lparr>q_pending := h, q_inflight := tid # q_inflight q,
            q_tasks := (q_tasks q)(tid \<mapsto> t\<lparr>t_State := StatePreparing\<rparr>)\<rparr>"
    using d pop(1) x t by (simp add: Dequeue_def split: if_splits)
  moreover have "\<forall>y \<in> set (q_pending q). \<not> pending_Less (q_tasks q) y tid"
    using pop(4) x by (auto simp: set pend.not_less_refl)
  ultimately show ?thesis using that [of t h] t pop x set by simp
qed

lemma Dequeue_inv:
  assumes inv: "tq_inv q" and d: "Dequeue q = Some (tid, q')"
  shows "tq_inv q'" "\<not> held q tid" "held q' tid" "held q x \<Longrightarrow> held q' x" "slots q' = slots q"
    "settled q q'" "idx_exact q \<Longrightarrow> idx_exact q'"
proof -
  have core: "tq_core (q_tasks q) (q_pending q) (q_inflight q) (q_byFingerprint q) (q_nextID q)"
    using inv by (simp add: tq_inv_def)
  note D = tq_coreD [OF core]
  from Dequeue_view [OF inv d] obtain t h where
    t: "q_tasks q tid = Some t" and mem: "tid \<in> set (q_pending q)"
    and q': "q' = q\<lparr>q_pending := h, q_inflight := tid # q_inflight q,
            q_tasks := (q_tasks q)(tid \<mapsto> t\<lparr>t_State := StatePreparing\<rparr>)\<rparr>"
    and heap: "heap_ok (pending_Less (q_tasks q)) h (length h)"
    and ms: "mset (q_pending q) = add_mset tid (mset h)" .
  have "mset h = mset (q_pending q) - {#tid#}" using ms by simp
  note rem = mset_remove_distinct [OF D(2) this]
  have less: "pending_Less ((q_tasks q)(tid \<mapsto> t\<lparr>t_State := StatePreparing\<rparr>)) = pending_Less (q_tasks q)"
    by (rule pending_Less_cong [of "q_tasks q" tid t]) (simp_all add: t)
  have placed: "task_placed h (tid # q_inflight q) (q_nextID q) x tx"
    if "((q_tasks q)(tid \<mapsto> t\<lparr>t_State := StatePreparing\<rparr>)) x = Some tx" for x tx
    using that D(7) [of x] t D(4) mem by (auto simp: task_placed_def rem(2) split: if_splits)
  have "index_sound ((q_tasks q)(tid \<mapsto> t\<lparr>t_State := StatePreparing\<rparr>)) h (tid # q_inflight q) fp x"
    if "gget (q_byFingerprint q) fp = Some x" for fp x
    using D(8) [OF that] t by (auto simp: index_sound_def rem(2))
  moreover have "\<forall>x \<in> set h \<union> set (tid # q_inflight q).
      ((q_tasks q)(tid \<mapsto> t\<lparr>t_State := StatePreparing\<rparr>)) x \<noteq> None"
    using D(6) by (auto simp: rem(2))
  moreover have "distinct (tid # q_inflight q)" "set h \<inter> set (tid # q_inflight q) = {}"
    using D(3,4) mem by (auto simp: rem(2))
  ultimately
  have "tq_core (q_tasks q') (q_pending q') (q_inflight q') (q_byFingerprint q') (q_nextID q')"
    using placed heap rem(1) D(5) unfolding tq_core_def q' by (simp add: less del: fun_upd_apply)
  moreover have "Suc (length h) = length (q_pending q)" using rem(3) mem by (cases "q_pending q") auto
  then have "tq_counts q' = tq_counts q" by (simp add: q' tq_counts_def) arith
  ultimately show "tq_inv q'" using inv by (simp add: tq_inv_def tq_backlog_def backlog_fps_def q')
  have "t_State t = StateQueued" using D(7) [OF t] mem by (simp add: task_placed_def)
  then show "\<not> held q tid" using D(4) mem t by (auto simp: held_def is_cancelled_def)
  show "held q' tid" "held q x \<Longrightarrow> held q' x" using t by (auto simp: q' held_def is_cancelled_def)
  show "slots q' = slots q" by (simp add: q' slots_def)
  show "settled q q'" using t \<open>t_State t = StateQueued\<close> by (auto simp: q' settled_def)
  show "idx_exact q \<Longrightarrow> idx_exact q'" using t mem by (auto simp: q' idx_exact_def rem(2))
qed

section \<open>Cancellation\<close>

lemma safe_cancel_each: "safe_step X D q (snd (cancel_each now tids (n, q)))"
proof (induction tids arbitrary: n q)
  case (Cons tid tids)
  show ?case using safe_trans [OF safe_cancel Cons.IH] by (simp add: case_prod_unfold Let_def)
qed simp

lemma safe_dropBacklog: "safe_step X D q (dropBacklogLocked q)"
  by (rule safe_core)
     (simp_all add: dropBacklogLocked_def Let_def tq_inv_def tq_counts_def tq_backlog_def
        backlog_fps_def slots_def held_def is_cancelled_def)

text \<open>Popping the root and finishing it is finishing the root, for the heap removes it either way.\<close>

lemma finish_popped:
  assumes inv: "tq_inv q" and pop: "heap_pop (pending_Less (q_tasks q)) (q_pending q) = Some (tid, h)"
  shows "finishTaskLocked (q\<lparr>q_pending := h\<rparr>) now tid st r = finishTaskLocked q now tid st r"
proof -
  have core: "tq_core (q_tasks q) (q_pending q) (q_inflight q) (q_byFingerprint q) (q_nextID q)"
    using inv by (simp add: tq_inv_def)
  note D = tq_coreD [OF core]
  have ne: "q_pending q \<noteq> []" using pop by (auto simp: heap_pop_def)
  have rem: "heap_remove (pending_Less (q_tasks q)) (q_pending q) 0 = Some (tid, h)"
    using pop pend.heap_pop_remove [OF D(1) ne] by simp
  from pend.heap_remove_ok [OF D(1), of 0] ne rem have root: "q_pending q ! 0 = tid"
    and ms: "mset (q_pending q) = add_mset tid (mset h)" by auto
  have "[0..<length (q_pending q)] = 0 # [1..<length (q_pending q)]" using ne by (simp add: upt_conv_Cons)
  then have idx: "heap_index (q_pending q) tid = Some 0" using root by (simp add: heap_index_def)
  have "mset h = mset (q_pending q) - {#tid#}" using ms by simp
  from mset_remove_distinct(2) [OF D(2) this] have idx': "heap_index h tid = None"
    by (simp add: heap_index_None)
  have "unlink_task (mark_task (q\<lparr>q_pending := h\<rparr>) tid t st r) tid fp =
      unlink_task (mark_task q tid t st r) tid fp" if t: "q_tasks q tid = Some t" for t fp
  proof -
    have "pending_Less ((q_tasks q)(tid \<mapsto> t\<lparr>t_State := st, t_Result := r, t_cancelFunc := None\<rparr>))
      = pending_Less (q_tasks q)"
      by (rule pending_Less_cong [of "q_tasks q" tid t]) (simp_all add: t)
    with idx idx' rem show ?thesis
      by (simp add: unlink_task_def mark_task_def Let_def del: fun_upd_apply split: option.split)
  qed
  moreover have "tid \<in> set (q_pending q)" using ne root by (metis length_greater_0_conv nth_mem)
  then obtain t where "q_tasks q tid = Some t" "t_State t = StateQueued"
    using D(6) [of tid] D(7) [of tid] by (auto simp: task_placed_def)
  ultimately show ?thesis by (simp add: finishTaskLocked_def)
qed

lemma safe_cancel_pending: "safe_step X D q (snd (cancel_pending fuel now (n, q)))"
proof (induction fuel arbitrary: n q)
  case (Suc fuel)
  show ?case
  proof (cases "heap_pop (pending_Less (q_tasks q)) (q_pending q)")
    case (Some p)
    obtain tid h where p: "p = (tid, h)" by fastforce
    let ?f = "finishTaskLocked q now tid StateCancelled (cancelledResult now)"
    have "safe_step X D q (snd (cancel_pending fuel now (m, snd ?f)))" for m
      by (rule safe_trans [OF safe_cancel Suc.IH])
    then show ?thesis
      by (auto simp: safe_step_def finish_popped Some p case_prod_unfold Let_def)
  qed simp
qed simp

lemma safe_Cancels:
  "safe_step X D q (snd (Cancel q now tid))" "safe_step X D q (snd (CancelByFingerprint q now fp))"
  "safe_step X D q (snd (CancelBySource q now src))" "safe_step X D q (snd (CancelAll q now))"
proof -
  show "safe_step X D q (snd (Cancel q now tid))" by (simp add: Cancel_def safe_cancel)
  show "safe_step X D q (snd (CancelByFingerprint q now fp))"
    by (auto simp: CancelByFingerprint_def safe_cancel case_prod_unfold Let_def split: option.split)
  let ?a = "cancel_each now (filter (from_source q src) (q_pending q)) (0, q)"
  have "safe_step X D (snd ?a) (snd (cancel_each now (filter (from_source (snd ?a) src) (q_inflight (snd ?a))) ?a))"
    by (metis prod.collapse safe_cancel_each)
  then show "safe_step X D q (snd (CancelBySource q now src))"
    using safe_trans [OF safe_cancel_each] by (simp add: CancelBySource_def case_prod_unfold Let_def)
  let ?d = "dropBacklogLocked q"
  let ?b = "cancel_pending (length (q_pending ?d)) now (0, ?d)"
  have "safe_step X D (snd ?b) (snd (cancel_each now (q_inflight (snd ?b)) ?b))"
    by (metis prod.collapse safe_cancel_each)
  then show "safe_step X D q (snd (CancelAll q now))"
    using safe_trans [OF safe_trans [OF safe_dropBacklog safe_cancel_pending]]
    by (simp add: CancelAll_def case_prod_unfold Let_def)
qed

section \<open>Backlog and switches\<close>

lemma admit_candidate_frame:
  "core_view (admit_candidate q now item) = core_view (add_task q
     (new_task q now (bc_Fingerprint (bi_candidate item)) (bc_Protocol (bi_candidate item))
        (bc_Backends (bi_candidate item)) (bi_priority item) (bc_Source (bi_candidate item))
        (bi_batchID item)))"
  "count_view (admit_candidate q now item) = count_view (add_task q
     (new_task q now (bc_Fingerprint (bi_candidate item)) (bc_Protocol (bi_candidate item))
        (bc_Backends (bi_candidate item)) (bi_priority item) (bc_Source (bi_candidate item))
        (bi_batchID item)))"
  "slot_view (admit_candidate q now item) = slot_view q"
  "backlog_view (admit_candidate q now item) = backlog_view q"
  by (simp_all add: admit_candidate_def add_task_def Let_def view_defs)

lemma safe_admit_candidate:
  assumes "gget (q_byFingerprint q) (bc_Fingerprint (bi_candidate item)) = None"
  shows "safe_step X D q (admit_candidate q now item)"
proof -
  let ?t = "new_task q now (bc_Fingerprint (bi_candidate item)) (bc_Protocol (bi_candidate item))
        (bc_Backends (bi_candidate item)) (bi_priority item) (bc_Source (bi_candidate item))
        (bi_batchID item)"
  have "frame_view (admit_candidate q now item) = frame_view (add_task q ?t)"
    using admit_candidate_frame [of q now item]
    by (simp add: frame_view_def) (simp add: slot_view_def backlog_view_def add_task_def Let_def)
  from safe_frame_right [OF safe_add_task this] assms show ?thesis by (simp add: new_task_fields)
qed

lemma safe_pop_backlog:
  assumes "q_backlog q = item # rest"
  shows "safe_step X D q (q\<lparr>q_backlog := rest,
    q_backlogSeen := filter (\<lambda>x. x \<noteq> bc_Fingerprint (bi_candidate item)) (q_backlogSeen q)\<rparr>)"
proof -
  let ?fp = "bc_Fingerprint (bi_candidate item)"
  have "set (filter (\<lambda>x. x \<noteq> ?fp) (q_backlogSeen q)) =
      (\<lambda>it. bc_Fingerprint (bi_candidate it)) ` set rest" if "tq_backlog q"
  proof -
    let ?R = "(\<lambda>it. bc_Fingerprint (bi_candidate it)) ` set rest"
    have "?fp \<notin> ?R" "set (q_backlogSeen q) = insert ?fp ?R"
      using that assms by (simp_all add: tq_backlog_def backlog_fps_def)
    moreover have "{x \<in> insert a B. x \<noteq> a} = B" if "a \<notin> B" for a :: string and B using that by blast
    ultimately show ?thesis by simp
  qed
  with assms show ?thesis
    by (intro safe_core)
       (simp_all add: tq_inv_def tq_counts_def tq_backlog_def backlog_fps_def slots_def held_def is_cancelled_def)
qed

lemma safe_admit_loop: "safe_step X D q (snd (admit_loop q now n))"
proof (induction q now n rule: admit_loop.induct)
  case (1 q now n)
  show ?case
  proof (cases "q_backlog q")
    case Nil
    then show ?thesis by (subst admit_loop.simps) simp
  next
    case (Cons item rest)
    let ?fp = "bc_Fingerprint (bi_candidate item)"
    let ?q1 = "q\<lparr>q_backlog := rest, q_backlogSeen := filter (\<lambda>x. x \<noteq> ?fp) (q_backlogSeen q)\<rparr>"
    note pop = safe_pop_backlog [OF Cons, of X]
    show ?thesis
      using 1 [OF Cons _ _ _ refl refl] Cons
        safe_trans [OF pop] safe_trans [OF safe_trans [OF pop safe_admit_candidate]]
      by (subst admit_loop.simps) (auto simp: Let_def)
  qed
qed

lemma safe_admit: "safe_step X D q (snd (admit q now))"
  using safe_admit_loop [of X D q now 0] safe_frame_right [OF safe_admit_loop frame_notify]
  by (simp add: admit_def case_prod_unfold Let_def)

lemma safe_defer: "safe_step X D q (snd (defer_candidates bid prio cs (n, q)))"
proof (induction cs arbitrary: n q)
  case (Cons c cs)
  let ?q1 = "q\<lparr>q_backlogSeen := bc_Fingerprint c # q_backlogSeen q,
      q_backlog := q_backlog q @ [\<lparr>bi_candidate = c, bi_batchID = bid, bi_priority = prio\<rparr>]\<rparr>"
  have "safe_step X D q ?q1" if "bc_Fingerprint c \<notin> set (q_backlogSeen q)"
    using that
    by (intro safe_core)
       (auto simp: tq_inv_def tq_counts_def tq_backlog_def backlog_fps_def slots_def held_def is_cancelled_def)
  then have "safe_step X D q (snd (defer_candidates bid prio cs (m, ?q1)))"
    if "bc_Fingerprint c \<notin> set (q_backlogSeen q)" for m
    using that safe_trans [OF _ Cons.IH] by blast
  with Cons.IH show ?case by simp
qed simp

lemma safe_EnqueueBacklog: "safe_step X D q (snd (EnqueueBacklog q now bid cs prio))"
  using safe_trans [OF safe_defer safe_admit]
  by (simp add: EnqueueBacklog_def case_prod_unfold Let_def)

lemma safe_switches:
  "safe_step X D q (Pause q)" "safe_step X D q (Resume q)" "safe_step X D q (SetMaxQueueSize q n)"
  "safe_step X D q (PauseAdmission q)" "safe_step X D q (ResumeAdmission q now)" "safe_step X D q (Stop q)"
proof -
  have flag: "safe_step X D q (q\<lparr>q_paused := b\<rparr>)" "safe_step X D q (q\<lparr>q_admissionHeld := b\<rparr>)"
    "safe_step X D q (q\<lparr>q_stopped := b\<rparr>)" for b
    by (intro safe_core; simp add: tq_inv_def tq_counts_def tq_backlog_def backlog_fps_def slots_def
        held_def is_cancelled_def)+
  show "safe_step X D q (Pause q)" using flag(1) by (simp add: Pause_def)
  show "safe_step X D q (Resume q)"
    unfolding Resume_def by (rule safe_frame_right [OF flag(1) frame_notify])
  show "safe_step X D q (SetMaxQueueSize q n)"
    by (intro safe_core; simp add: SetMaxQueueSize_def tq_inv_def tq_counts_def tq_backlog_def
        backlog_fps_def slots_def held_def is_cancelled_def)
  show "safe_step X D q (PauseAdmission q)" using flag(2) by (simp add: PauseAdmission_def)
  show "safe_step X D q (ResumeAdmission q now)"
    unfolding ResumeAdmission_def by (rule safe_trans [OF flag(2) safe_admit])
  show "safe_step X D q (Stop q)"
    using safe_trans [OF safe_frame_right [OF flag(3) frame_notify] safe_dropBacklog]
    by (simp add: Stop_def)
qed

section \<open>Runs\<close>

definition testing :: "run_phase \<Rightarrow> int" where
  "testing ph = (case ph of RunTest _ _ \<Rightarrow> 1 | _ \<Rightarrow> 0)"

text \<open>
  One transition of a run whose task it holds: the invariant carries over, other runs keep
  their tasks, the core-slot counter moves with the run's own phase and stays within the
  configured concurrency, and unless the run returned it still holds its task.
\<close>

definition run_safe :: "bool \<Rightarrow> queue \<Rightarrow> int \<Rightarrow> run_phase \<Rightarrow> queue \<times> run_phase option \<Rightarrow> bool" where
  "run_safe D q tid ph res \<longleftrightarrow>
     (let q' = fst res; ph' = snd res; d = (case ph' of None \<Rightarrow> 0 | Some p \<Rightarrow> testing p) - testing ph in
      tq_inv q' \<and> (\<forall>x. x \<noteq> tid \<longrightarrow> held q x \<longrightarrow> held q' x) \<and> (ph' \<noteq> None \<longrightarrow> held q' tid) \<and>
      q_coreSlots q' = q_coreSlots q + d \<and> q_activeCores q' = q_activeCores q + d \<and>
      q_liveWorkers q' = q_liveWorkers q \<and>
      c_CoreProbeConcurrency (q_config q') = c_CoreProbeConcurrency (q_config q) \<and>
      (d > 0 \<longrightarrow> q_coreSlots q < c_CoreProbeConcurrency (q_config q)) \<and>
      settled q q' \<and> (\<not> D \<longrightarrow> idx_exact q \<longrightarrow> idx_exact q'))"

lemma run_safe_via:
  assumes "tq_inv q" "safe_step {tid} D q q'"
    and "ph' \<noteq> None \<Longrightarrow> held q' tid"
    and "(case ph' of None \<Rightarrow> 0 | Some p \<Rightarrow> testing p) = testing ph"
  shows "run_safe D q tid ph (q', ph')"
  using assms by (simp add: run_safe_def safe_step_def slots_def Let_def)

lemma testing_simps [simp]:
  "testing (RunStart n) = 0" "testing (RunPark n) = 0" "testing (RunTest n c) = 1"
  "testing (RunMeasure r l i d) = 0" "testing (RunBackoff n) = 0"
  by (simp_all add: testing_def)

lemma run_safe_done:
  "tq_inv q \<Longrightarrow> safe_step {tid} D q q' \<Longrightarrow> testing ph = 0 \<Longrightarrow> run_safe D q tid ph (q', None)"
  by (rule run_safe_via) simp_all

lemma run_safe_on:
  "tq_inv q \<Longrightarrow> safe_step {tid} D q q' \<Longrightarrow> held q' tid \<Longrightarrow> testing ph' = testing ph \<Longrightarrow>
   run_safe D q tid ph (q', Some ph')"
  by (rule run_safe_via) simp_all

lemma safe_clear_cancel: "safe_step X D q (set_task q tid (\<lambda>t. t\<lparr>t_cancelFunc := c\<rparr>))"
  by (rule safe_set_task) simp_all

lemma safe_mark_run:
  assumes "tid \<in> set (q_inflight q)" "st \<in> {StatePreparing, StateTesting, StateMeasuring}"
  shows "safe_step X D q (set_task q tid (\<lambda>t. t\<lparr>t_State := st, t_Attempt := n\<rparr>))"
    "safe_step X D q (set_task q tid (\<lambda>t. t\<lparr>t_State := st\<rparr>))"
  using assms by (auto intro!: safe_set_task)

lemma held_set_cancelFunc: "held (set_task q tid (\<lambda>t. t\<lparr>t_cancelFunc := c\<rparr>)) x = held q x"
  by (auto simp: held_def is_cancelled_def set_task_def split: option.split)

lemma safe_run_pass:
  assumes "held q tid"
  shows "safe_step {tid} D q (run_pass q now tid result dur)"
proof (cases "is_cancelled q tid")
  case True
  then show ?thesis by (simp add: run_pass_def)
next
  case False
  with assms have "tid \<in> set (q_inflight q)" by (simp add: held_def)
  from safe_trans [OF safe_mark_run(2) [OF this, of StateMeasuring] safe_finish [of StatePassed]]
  have f: "safe_step {tid} D q (snd (finishTaskLocked (set_task q tid (\<lambda>t. t\<lparr>t_State := StateMeasuring\<rparr>))
      now tid StatePassed (result\<lparr>r_TestedAt := now\<rparr>)))" by simp
  from f safe_frame_right [OF f frame_recordDuration] False show ?thesis
    by (simp add: run_pass_def Let_def case_prod_unfold)
qed

lemma safe_run_fail:
  "safe_step {tid} D q (fst (run_fail q now tid n result err ctxErr dur))"
  "snd (run_fail q now tid n result err ctxErr dur) \<noteq> None \<Longrightarrow>
     fst (run_fail q now tid n result err ctxErr dur) = q"
  "(case snd (run_fail q now tid n result err ctxErr dur) of None \<Rightarrow> 0 | Some p \<Rightarrow> testing p) = 0"
proof -
  have "safe_step {tid} D q (snd (finishTaskLocked q now tid st r))"
    "safe_step {tid} D q (recordDuration (snd (finishTaskLocked q now tid st r)) dur)"
    if "IsTerminal st" for st r
    using safe_finish [OF that] safe_frame_right [OF safe_finish [OF that] frame_recordDuration] by blast+
  then show "safe_step {tid} D q (fst (run_fail q now tid n result err ctxErr dur))"
    by (simp add: run_fail_def Let_def case_prod_unfold)
  show "snd (run_fail q now tid n result err ctxErr dur) \<noteq> None \<Longrightarrow>
     fst (run_fail q now tid n result err ctxErr dur) = q"
    by (auto simp: run_fail_def Let_def case_prod_unfold split: if_splits)
  show "(case snd (run_fail q now tid n result err ctxErr dur) of None \<Rightarrow> 0 | Some p \<Rightarrow> testing p) = 0"
    by (simp add: run_fail_def Let_def case_prod_unfold testing_def)
qed

lemma run_step_slot:
  assumes "tq_inv q" "held q tid" "run_step q now tid (RunPark n) (InSlot ctx) = Some res"
  shows "run_safe D q tid (RunPark n) res"
proof (cases "is_cancelled q tid")
  case True
  with assms show ?thesis by (auto simp: run_safe_def testing_def split: if_splits)
next
  case False
  let ?a = "set_task q tid (\<lambda>t. t\<lparr>t_cancelFunc := Some ctx\<rparr>)"
  let ?b = "?a\<lparr>q_coreSlots := q_coreSlots q + 1, q_activeCores := q_activeCores q + 1\<rparr>"
  have res: "res = (?b, Some (RunTest n ctx))" "q_coreSlots q < c_CoreProbeConcurrency (q_config q)"
    using assms(3) False by (auto split: if_splits)
  have "tq_inv ?a" "\<forall>x. held q x \<longrightarrow> held ?a x" "slots ?a = slots q" "settled q ?a"
    "\<not> D \<longrightarrow> idx_exact q \<longrightarrow> idx_exact ?a"
    using safe_clear_cancel [of "{}" D q tid "Some ctx"] assms(1) by (auto simp: safe_step_def)
  moreover have "tq_inv ?b = tq_inv ?a" "held ?b x = held ?a x" "settled q ?b = settled q ?a"
    "idx_exact ?b = idx_exact ?a" for x
    by (simp_all add: tq_inv_def tq_counts_def tq_backlog_def backlog_fps_def held_def is_cancelled_def
        settled_def idx_exact_def)
  ultimately show ?thesis using res assms(2) by (simp add: run_safe_def testing_def slots_def set_task_def)
qed

text \<open>Releasing the core slot when the tester returns, whatever follows.\<close>

lemma run_safe_release:
  fixes tid :: int
  assumes inv: "tq_inv q"
  defines "q1 \<equiv> (set_task q tid (\<lambda>t. t\<lparr>t_cancelFunc := None\<rparr>))
                 \<lparr>q_coreSlots := q_coreSlots q - 1, q_activeCores := q_activeCores q - 1\<rparr>"
  assumes next_step: "run_safe D q1 tid (RunStart 0) res"
    and no_slot: "(case snd res of None \<Rightarrow> 0 | Some p \<Rightarrow> testing p) = 0"
  shows "run_safe D q tid (RunTest n ctx) res"
proof -
  let ?a = "set_task q tid (\<lambda>t. t\<lparr>t_cancelFunc := None\<rparr>)"
  have "held q x \<Longrightarrow> held q1 x" for x
    using held_set_cancelFunc [of q tid None x] by (simp add: q1_def held_def is_cancelled_def)
  moreover have "settled q ?a" "\<not> D \<longrightarrow> idx_exact q \<longrightarrow> idx_exact ?a"
    using safe_clear_cancel [of "{}" D q tid None] inv by (auto simp: safe_step_def)
  then have "settled q q1" "\<not> D \<longrightarrow> idx_exact q \<longrightarrow> idx_exact q1"
    by (simp_all add: q1_def settled_def idx_exact_def)
  moreover have "q_coreSlots q1 = q_coreSlots q - 1" "q_activeCores q1 = q_activeCores q - 1"
    "q_liveWorkers q1 = q_liveWorkers q" "q_config q1 = q_config q"
    by (simp_all add: q1_def set_task_def)
  ultimately show ?thesis using next_step no_slot settled_trans
    by (auto simp: run_safe_def Let_def)
qed

lemma release_inv:
  assumes inv: "tq_inv q" "held q tid"
  defines "q1 \<equiv> (set_task q tid (\<lambda>t. t\<lparr>t_cancelFunc := None\<rparr>))
                 \<lparr>q_coreSlots := q_coreSlots q - 1, q_activeCores := q_activeCores q - 1\<rparr>"
  shows "tq_inv q1" "held q1 tid"
proof -
  let ?a = "set_task q tid (\<lambda>t. t\<lparr>t_cancelFunc := None\<rparr>)"
  have "tq_inv ?a" using safe_clear_cancel [of "{}" False q tid None] inv by (auto simp: safe_step_def)
  then show "tq_inv q1"
    by (simp add: q1_def tq_inv_def tq_counts_def tq_backlog_def backlog_fps_def)
  show "held q1 tid"
    using held_set_cancelFunc [of q tid None tid] inv by (simp add: q1_def held_def is_cancelled_def)
qed

lemma run_step_return:
  assumes inv: "tq_inv q" "held q tid"
    and step: "run_step q now tid (RunTest n ctx) (InReturn result err ctxErr dur nx) = Some res"
  shows "run_safe D q tid (RunTest n ctx) res"
proof -
  let ?q1 = "(set_task q tid (\<lambda>t. t\<lparr>t_cancelFunc := None\<rparr>))
                 \<lparr>q_coreSlots := q_coreSlots q - 1, q_activeCores := q_activeCores q - 1\<rparr>"
  note q1 = release_inv [OF inv]
  have cases: "res = (recordDuration ?q1 dur, None) \<or>
      res = (set_task ?q1 tid (\<lambda>t. t\<lparr>t_cancelFunc := Some nx\<rparr>), Some (RunMeasure result (r_Latency result) 1 dur)) \<or>
      res = (run_pass ?q1 now tid result dur, None) \<or> res = run_fail ?q1 now tid n result err ctxErr dur"
    using step by (auto simp: Let_def split: if_splits)
  have "run_safe D ?q1 tid (RunStart 0) res \<and> (case snd res of None \<Rightarrow> 0 | Some p \<Rightarrow> testing p) = 0"
    using cases
  proof (elim disjE)
    assume "res = (recordDuration ?q1 dur, None)"
    then show ?thesis by (simp add: run_safe_done [OF q1(1)] safe_frame [OF frame_recordDuration])
  next
    assume "res = (set_task ?q1 tid (\<lambda>t. t\<lparr>t_cancelFunc := Some nx\<rparr>), Some (RunMeasure result (r_Latency result) 1 dur))"
    then show ?thesis using q1(2) by (simp add: run_safe_on [OF q1(1)] safe_clear_cancel held_set_cancelFunc)
  next
    assume "res = (run_pass ?q1 now tid result dur, None)"
    then show ?thesis by (simp add: run_safe_done [OF q1(1)] safe_run_pass [OF q1(2)])
  next
    assume r: "res = run_fail ?q1 now tid n result err ctxErr dur"
    have "run_safe D ?q1 tid (RunStart 0) (fst res, snd res)"
      using safe_run_fail q1(2) unfolding r by (intro run_safe_via [OF q1(1)]) auto
    then show ?thesis using safe_run_fail(3) r by simp
  qed
  then show ?thesis using run_safe_release [OF inv(1)] by blast
qed

lemma run_step_measure:
  assumes inv: "tq_inv q" "held q tid"
    and step: "run_step q now tid (RunMeasure result lat i dur) (InReturn m mErr ctxErr mDur nx) = Some res"
  shows "run_safe D q tid (RunMeasure result lat i dur) res"
proof -
  let ?q1 = "set_task q tid (\<lambda>t. t\<lparr>t_cancelFunc := None\<rparr>)"
  have q1: "safe_step {tid} D q ?q1" "held ?q1 tid" using safe_clear_cancel held_set_cancelFunc inv(2) by blast+
  have cases: "res = (?q1, None) \<or> (\<exists>r. res = (run_pass ?q1 now tid r dur, None)) \<or>
      (\<exists>l j. res = (set_task ?q1 tid (\<lambda>t. t\<lparr>t_cancelFunc := Some nx\<rparr>), Some (RunMeasure result l j dur)))"
    using step by (auto simp: Let_def split: if_splits)
  then show ?thesis
  proof (elim disjE exE)
    assume "res = (?q1, None)"
    then show ?thesis by (simp add: run_safe_done [OF inv(1) q1(1)])
  next
    fix r assume "res = (run_pass ?q1 now tid r dur, None)"
    then show ?thesis
      by (simp add: run_safe_done [OF inv(1) safe_trans [OF q1(1) safe_run_pass [OF q1(2)]]])
  next
    fix l j assume "res = (set_task ?q1 tid (\<lambda>t. t\<lparr>t_cancelFunc := Some nx\<rparr>), Some (RunMeasure result l j dur))"
    then show ?thesis
      using q1(2) by (simp add: run_safe_on [OF inv(1) safe_trans [OF q1(1) safe_clear_cancel]] held_set_cancelFunc)
  qed
qed

lemma run_step_start:
  assumes inv: "tq_inv q" "held q tid" and step: "run_step q now tid (RunStart n) InGo = Some res"
  shows "run_safe D q tid (RunStart n) res"
proof -
  let ?q1 = "set_task q tid (\<lambda>t. t\<lparr>t_State := StateTesting, t_Attempt := n\<rparr>)"
  have "res = (q, None) \<or> \<not> is_cancelled q tid \<and> res = (?q1, Some (RunPark n))"
    using step by (auto split: if_splits)
  then show ?thesis
  proof (elim disjE conjE)
    assume "res = (q, None)"
    then show ?thesis by (simp add: run_safe_done [OF inv(1) safe_refl])
  next
    assume r: "\<not> is_cancelled q tid" "res = (?q1, Some (RunPark n))"
    then have fl: "tid \<in> set (q_inflight q)" using inv(2) by (simp add: held_def)
    then have "held ?q1 tid" by (simp add: held_def set_task_def)
    with r(2) show ?thesis
      by (simp add: run_safe_on [OF inv(1) safe_mark_run(1) [OF fl, of StateTesting]])
  qed
qed

lemma run_step_safe:
  assumes inv: "tq_inv q" "held q tid" and step: "run_step q now tid ph inp = Some res"
  shows "run_safe D q tid ph res"
proof (cases ph)
  case (RunStart n)
  with step run_step_start [OF inv] show ?thesis by (cases inp) (simp_all del: run_step.simps(1))
next
  case (RunPark n)
  with step show ?thesis
    using run_step_slot [OF inv] inv
    by (cases inp) (auto simp: run_safe_done run_safe_on simp del: run_step.simps(4) split: if_splits)
next
  case (RunTest n ctx)
  with step run_step_return [OF inv] show ?thesis by (cases inp) (simp_all del: run_step.simps(5))
next
  case (RunMeasure result lat i dur)
  with step run_step_measure [OF inv] show ?thesis by (cases inp) (simp_all del: run_step.simps(6))
next
  case (RunBackoff n)
  with step inv show ?thesis
    by (cases inp) (auto simp: run_safe_done run_safe_on safe_cancel)
qed

section \<open>The system invariant\<close>

definition sys_inv :: "bool \<Rightarrow> tq_sys \<Rightarrow> bool" where
  "sys_inv D s \<longleftrightarrow> (\<not> D \<longrightarrow> idx_exact (s_queue s)) \<and>
     tq_inv (s_queue s) \<and> gmap_ok (s_runs s) \<and>
     (\<forall>x ph. gget (s_runs s) x = Some ph \<longrightarrow> held (s_queue s) x) \<and>
     q_coreSlots (s_queue s) = sum_list (map (testing \<circ> snd) (s_runs s)) \<and>
     q_activeCores (s_queue s) = q_coreSlots (s_queue s) \<and>
     q_coreSlots (s_queue s) \<le> c_CoreProbeConcurrency (q_config (s_queue s)) \<and>
     c_CoreProbeConcurrency (q_config (s_queue s)) \<in> {1..MaxCoreProbeConcurrency} \<and>
     int (length (s_runs s)) \<le> q_liveWorkers (s_queue s)"

lemma sys_inv_safe:
  assumes "sys_inv D s" "safe_step {} D (s_queue s) q'"
  shows "sys_inv D (s\<lparr>s_queue := q'\<rparr>)"
  using assms by (simp add: sys_inv_def safe_step_def slots_def)

lemma sys_inv_workers:
  assumes "sys_inv D s" "int (length (s_runs s)) \<le> n"
    "q' = (s_queue s)\<lparr>q_liveWorkers := n\<rparr> \<or> q' = (s_queue s)\<lparr>q_liveWorkers := n, q_desiredWorkers := m\<rparr>
     \<or> q' = (s_queue s)\<lparr>q_liveWorkers := n, q_desiredWorkers := m, q_started := b\<rparr>"
  shows "sys_inv D (s\<lparr>s_queue := q'\<rparr>)"
proof -
  have "frame_view (q'\<lparr>q_liveWorkers := q_liveWorkers (s_queue s),
      q_desiredWorkers := q_desiredWorkers (s_queue s), q_started := q_started (s_queue s)\<rparr>) = frame_view (s_queue s)"
    using assms(3) by (auto simp: view_defs)
  from tq_inv_frame [OF this] have "tq_inv q'" using assms(1)
    by (simp add: sys_inv_def tq_inv_def tq_counts_def tq_backlog_def backlog_fps_def)
  with assms show ?thesis by (auto simp: sys_inv_def held_def is_cancelled_def idx_exact_def)
qed

lemma sum_map_put:
  fixes f :: "'b \<Rightarrow> int"
  assumes "gmap_ok m"
  shows "sum_list (map (f \<circ> snd) (gput k v m)) =
    sum_list (map (f \<circ> snd) m) - (case gget m k of None \<Rightarrow> 0 | Some u \<Rightarrow> f u) + f v"
  using assms by (induction m) (auto simp: gmap_ok_def split: option.splits)

lemma sum_map_del:
  fixes f :: "'b \<Rightarrow> int"
  assumes "gmap_ok m"
  shows "sum_list (map (f \<circ> snd) (gdel k m)) =
    sum_list (map (f \<circ> snd) m) - (case gget m k of None \<Rightarrow> 0 | Some u \<Rightarrow> f u)"
  using assms
proof (induction m)
  case (Cons p m)
  show ?case
  proof (cases "fst p = k")
    case True
    with Cons.prems have "k \<notin> fst ` set m" by (auto simp: gmap_ok_def)
    then have "gdel k m = m" by (simp add: delete_idem)
    with True show ?thesis by (cases p) simp
  next
    case False
    with Cons show ?thesis by (cases p) (auto simp: gmap_ok_def)
  qed
qed simp

lemma run_safeD:
  assumes "run_safe D q tid ph (q', ph')"
  defines "d \<equiv> (case ph' of None \<Rightarrow> 0 | Some p \<Rightarrow> testing p) - testing ph"
  shows "tq_inv q'" "x \<noteq> tid \<Longrightarrow> held q x \<Longrightarrow> held q' x" "ph' \<noteq> None \<Longrightarrow> held q' tid"
    "q_coreSlots q' = q_coreSlots q + d" "q_activeCores q' = q_activeCores q + d"
    "q_liveWorkers q' = q_liveWorkers q"
    "c_CoreProbeConcurrency (q_config q') = c_CoreProbeConcurrency (q_config q)"
    "d > 0 \<Longrightarrow> q_coreSlots q < c_CoreProbeConcurrency (q_config q)"
    "settled q q'" "\<not> D \<longrightarrow> idx_exact q \<longrightarrow> idx_exact q'"
  using assms(1) unfolding run_safe_def Let_def fst_conv snd_conv d_def by blast+

lemma testing_bounds: "0 \<le> testing ph" "testing ph \<le> 1"
  by (cases ph; simp)+

lemma sys_inv_continue:
  assumes inv: "sys_inv D s" and run: "gget (s_runs s) tid = Some ph"
    and safe: "run_safe D (s_queue s) tid ph (q', Some ph')"
  shows "sys_inv D (s\<lparr>s_queue := q', s_runs := gput tid ph' (s_runs s)\<rparr>)"
proof -
  note F = run_safeD [OF safe]
  have ok: "gmap_ok (s_runs s)" using inv by (simp add: sys_inv_def)
  have mem: "tid \<in> fst ` set (s_runs s)" using run by (force dest: map_of_SomeD)
  have "length (gput tid ph' (s_runs s)) = length (s_runs s)" using mem by (simp add: length_gput)
  moreover have "held q' x" if "gget (gput tid ph' (s_runs s)) x = Some p" for x p
    using that inv F(2,3) by (cases "x = tid") (auto simp: sys_inv_def)
  moreover have "q_coreSlots q' \<le> c_CoreProbeConcurrency (q_config q')"
  proof (cases "testing ph' - testing ph > 0")
    case True
    with F(4,7,8) testing_bounds [of ph] testing_bounds [of ph'] show ?thesis by simp
  next
    case False
    with F(4,7) inv show ?thesis by (simp add: sys_inv_def)
  qed
  ultimately show ?thesis
    using inv F(1,4,5,6,7,10) ok sum_map_put [OF ok, of testing tid ph'] run by (simp add: sys_inv_def)
qed

lemma sys_inv_return:
  assumes inv: "sys_inv D s" and run: "gget (s_runs s) tid = Some ph"
    and safe: "run_safe D (s_queue s) tid ph (q', None)"
  shows "sys_inv D (s\<lparr>s_queue := q', s_runs := gdel tid (s_runs s)\<rparr>)"
proof -
  note F = run_safeD [OF safe]
  have ok: "gmap_ok (s_runs s)" using inv by (simp add: sys_inv_def)
  have "held q' x" if "gget (gdel tid (s_runs s)) x = Some p" for x p
    using that inv F(2) by (cases "x = tid") (auto simp: sys_inv_def)
  moreover have "q_coreSlots q' \<le> c_CoreProbeConcurrency (q_config q')"
    using F(4,7) inv testing_bounds [of ph] by (simp add: sys_inv_def)
  moreover have "int (length (gdel tid (s_runs s))) \<le> q_liveWorkers q'"
    using F(6) inv length_gdel_le [of tid "s_runs s"] by (simp add: sys_inv_def)
  ultimately show ?thesis
    using inv F(1,4,5,7,10) ok sum_map_del [OF ok, of testing tid] run by (simp add: sys_inv_def)
qed

lemma sys_inv_LRun:
  assumes inv: "sys_inv D s" shows "sys_inv D (sys_step (LRun now tid inp) s)"
proof (cases "gget (s_runs s) tid")
  case None
  with inv show ?thesis by simp
next
  case run: (Some ph)
  show ?thesis
  proof (cases "run_step (s_queue s) now tid ph inp")
    case None
    with inv run show ?thesis by simp
  next
    case step: (Some res)
    from inv run have "tq_inv (s_queue s)" "held (s_queue s) tid" by (simp_all add: sys_inv_def)
    note safe = run_step_safe [OF this step]
    obtain q' p where res: "res = (q', p)" by fastforce
    show ?thesis
    proof (cases p)
      case None
      have "(s\<lparr>s_queue := q', s_runs := gdel tid (s_runs s)\<rparr>)\<lparr>s_queue := snd (admit q' now)\<rparr> =
          sys_step (LRun now tid inp) s"
        using res None run step by (cases s) simp
      with sys_inv_safe [OF sys_inv_return [OF inv run], of q' "snd (admit q' now)"] safe res None
      show ?thesis by (simp add: safe_admit del: sys_step.simps)
    next
      case (Some ph')
      with sys_inv_continue [OF inv run] safe res show ?thesis by (simp add: run step)
    qed
  qed
qed

lemma sys_inv_LDequeue:
  assumes inv: "sys_inv D s" shows "sys_inv D (sys_step LDequeue s)"
proof (cases "int (length (s_runs s)) < q_liveWorkers (s_queue s)")
  case True
  show ?thesis
  proof (cases "Dequeue (s_queue s)")
    case (Some p)
    obtain tid q' where p: "p = (tid, q')" by fastforce
    have tq: "tq_inv (s_queue s)" and ok: "gmap_ok (s_runs s)" using inv by (simp_all add: sys_inv_def)
    note D = Dequeue_inv [OF tq Some [unfolded p]]
    have "gget (s_runs s) tid = None"
      using inv D(2) by (cases "gget (s_runs s) tid") (auto simp: sys_inv_def)
    then have "length (gput tid (RunStart 1) (s_runs s)) = Suc (length (s_runs s))"
      "sum_list (map (testing \<circ> snd) (gput tid (RunStart 1) (s_runs s))) =
         sum_list (map (testing \<circ> snd) (s_runs s))"
      using sum_map_put [OF ok, of testing tid "RunStart 1"]
      by (simp_all add: gput_absent_length)
    then show ?thesis using inv D(1,3,4,5,7) ok True
      by (simp add: Some p sys_inv_def slots_def)
  qed (use inv in simp)
qed (use inv in simp)

lemma sys_inv_pool:
  assumes inv: "sys_inv D s"
  shows "sys_inv D (sys_step LStart s)" "sys_inv D (sys_step (LSetConcurrency n) s)"
    "sys_inv D (sys_step LRetire s)" "sys_inv D (sys_step LExit s)"
proof -
  have runs: "int (length (s_runs s)) \<le> q_liveWorkers (s_queue s)" using inv by (simp add: sys_inv_def)
  have same: "s\<lparr>s_queue := s_queue s\<rparr> = s" by simp
  show "sys_inv D (sys_step LStart s)"
    using inv runs sys_inv_workers [OF inv, of
        "q_liveWorkers (s_queue s) + max 0 (c_Concurrency (q_config (s_queue s)))" _
        "c_Concurrency (q_config (s_queue s))" True]
    by (simp add: tq_Start_def)
  show "sys_inv D (sys_step (LSetConcurrency n) s)"
  proof (cases "q_stopped (s_queue s) \<or> \<not> q_started (s_queue s)")
    case True
    with inv show ?thesis by (simp add: SetConcurrency_def)
  next
    case False
    let ?n = "let n1 = (if n < 0 then 0 else n) in if n1 > 64 then 64 else n1"
    let ?l = "if q_liveWorkers (s_queue s) < ?n then ?n else q_liveWorkers (s_queue s)"
    have "sys_inv D (s\<lparr>s_queue := (s_queue s)\<lparr>q_liveWorkers := ?l, q_desiredWorkers := ?n\<rparr>\<rparr>)"
      using runs by (intro sys_inv_workers [OF inv, of ?l _ ?n]) auto
    moreover have "SetConcurrency (s_queue s) n = (s_queue s)\<lparr>q_liveWorkers := ?l, q_desiredWorkers := ?n\<rparr>"
      using False by (simp add: SetConcurrency_def Let_def)
    ultimately show ?thesis by simp
  qed
  show "sys_inv D (sys_step LRetire s)" "sys_inv D (sys_step LExit s)"
    using inv runs sys_inv_workers [OF inv, of "q_liveWorkers (s_queue s) - 1"]
    by (simp_all add: worker_retire_def worker_exit_def)
qed

fun duplicates_allowed :: "tq_label \<Rightarrow> bool" where
  "duplicates_allowed (LEnqueue _ _ _ _ _ _ opt) \<longleftrightarrow> opt \<in> {EnqueueAllowDuplicate, EnqueueTry}"
| "duplicates_allowed _ \<longleftrightarrow> False"

lemma sys_inv_step:
  assumes "sys_inv D s" "D \<or> \<not> duplicates_allowed l"
  shows "sys_inv D (sys_step l s)"
proof (cases l)
  case (LEnqueue now fp proto backends prio src opt)
  then have "D \<or> opt \<in> {EnqueueDefault, EnqueueReplaceIfHigher}" using assms(2) by (cases opt) auto
  with assms(1) LEnqueue show ?thesis by (simp add: sys_inv_safe safe_Enqueue)
qed (use assms(1) in \<open>simp_all add: sys_inv_LRun sys_inv_LDequeue sys_inv_pool del: sys_step.simps(2,3,17,18,19,20),
      simp_all add: sys_inv_safe safe_Cancels safe_switches safe_EnqueueBacklog safe_frame frame\<close>)

lemma sys_inv_New: "sys_inv D (sys_New config)"
  by (simp add: sys_New_def sys_inv_def tq_New_def Let_def tq_inv_def tq_core_def tq_counts_def
      tq_backlog_def backlog_fps_def heap_ok_def MaxCoreProbeConcurrency_def DefaultCoreProbeConcurrency_def
      idx_exact_def)

text \<open>
  Any interleaving of callers and workers, from a new queue; with \<open>D\<close> false, without the
  enqueue options that admit duplicates.
\<close>

definition tq_step :: "bool \<Rightarrow> tq_sys \<Rightarrow> tq_sys \<Rightarrow> bool" where
  "tq_step D s t \<longleftrightarrow> (\<exists>l. (D \<or> \<not> duplicates_allowed l) \<and> t = sys_step l s)"

definition tq_init :: "tq_sys \<Rightarrow> bool" where
  "tq_init s \<longleftrightarrow> (\<exists>config. s = sys_New config)"

interpretation tqm: invariant_machine tq_init "tq_step D" "sys_inv D" for D
  by unfold_locales (auto simp: tq_init_def tq_step_def sys_inv_New sys_inv_step)

end
