(* ===== verification/TestQueueProps.thy ===== *)
theory TestQueueProps
  imports TestQueueInv
begin

text \<open>
  The correctness properties of the test queue, over every interleaving of callers and
  workers: accounting, core slots, permanence of outcomes, duplicate suppression, dequeue
  order, cancellation, deferred admission, and the places where the code departs from its
  own comments.
\<close>

section \<open>Outcomes are permanent\<close>

lemma settled_frame: "frame_view q' = frame_view q \<Longrightarrow> settled q q'"
  by (simp add: settled_def view_defs)

lemma safe_settled: "tq_inv q \<Longrightarrow> safe_step {} True q q' \<Longrightarrow> settled q q'"
  by (simp add: safe_step_def)

lemma settled_LRun:
  assumes inv: "sys_inv True s"
  shows "settled (s_queue s) (s_queue (sys_step (LRun now tid inp) s))"
proof (cases "gget (s_runs s) tid")
  case run: (Some ph)
  show ?thesis
  proof (cases "run_step (s_queue s) now tid ph inp")
    case step: (Some res)
    from inv run have "tq_inv (s_queue s)" "held (s_queue s) tid" by (simp_all add: sys_inv_def)
    note safe = run_step_safe [OF this step]
    obtain q' p where res: "res = (q', p)" by fastforce
    note F = run_safeD [OF safe [unfolded res]]
    have "settled q' (snd (admit q' now))" by (rule safe_settled [OF F(1) safe_admit])
    with F(9) have "settled (s_queue s) (snd (admit q' now))" by (rule settled_trans)
    with F(9) res show ?thesis by (cases p) (simp_all add: run step)
  qed (simp add: run)
qed simp

lemma settled_step:
  assumes inv: "sys_inv True s"
  shows "settled (s_queue s) (s_queue (sys_step l s))"
proof -
  have tq: "tq_inv (s_queue s)" using inv by (simp add: sys_inv_def)
  note safe = safe_settled [OF tq]
  have upd: "settled (s_queue s) ((s_queue s)\<lparr>q_liveWorkers := n\<rparr>)"
    "settled (s_queue s) ((s_queue s)\<lparr>q_desiredWorkers := m, q_liveWorkers := n\<rparr>)"
    "settled (s_queue s) ((s_queue s)\<lparr>q_started := b, q_desiredWorkers := m, q_liveWorkers := n\<rparr>)" for n m b
    by (simp_all add: settled_def)
  show ?thesis
  proof (cases l)
    case LDequeue
    then show ?thesis
      using Dequeue_inv(6) [OF tq] by (cases "Dequeue (s_queue s)") (auto split: prod.split)
  next
    case (LRun now tid inp)
    then show ?thesis using settled_LRun [OF inv] by blast
  next
    case LStart
    then show ?thesis using upd(3) by (simp add: tq_Start_def)
  next
    case (LSetConcurrency n)
    then show ?thesis using upd(2) by (simp add: SetConcurrency_def Let_def)
  next
    case LRetire
    then show ?thesis using upd(1) by (simp add: worker_retire_def)
  next
    case LExit
    then show ?thesis using upd(1) by (simp add: worker_exit_def)
  qed (simp_all add: safe safe_Enqueue safe_Cancels safe_switches safe_EnqueueBacklog safe_frame frame)
qed

lemma sys_inv_fold: "sys_inv True s \<Longrightarrow> sys_inv True (fold sys_step ls s)"
  by (induction ls arbitrary: s) (simp_all add: sys_inv_step)

lemma settled_fold: "sys_inv True s \<Longrightarrow> settled (s_queue s) (s_queue (fold sys_step ls s))"
proof (induction ls arbitrary: s)
  case (Cons l ls)
  from Cons.IH [OF sys_inv_step [OF Cons.prems, of l]] settled_step [OF Cons.prems]
  show ?case using settled_trans by (simp del: sys_step.simps) blast
qed simp

section \<open>Runs of the system\<close>

definition tq_run :: "tq_config \<Rightarrow> tq_label list \<Rightarrow> queue" where
  "tq_run config ls = s_queue (fold sys_step ls (sys_New config))"

lemma reach_fold:
  "reach tq_init (tq_step D) s \<Longrightarrow> list_all (\<lambda>l. D \<or> \<not> duplicates_allowed l) ls \<Longrightarrow>
   reach tq_init (tq_step D) (fold sys_step ls s)"
proof (induction ls arbitrary: s)
  case (Cons l ls)
  then have "reach tq_init (tq_step D) (sys_step l s)"
    by (intro reach_step [OF Cons.prems(1)]) (auto simp: tq_step_def)
  with Cons show ?case by (simp del: sys_step.simps)
qed simp

lemma run_inv:
  assumes "list_all (\<lambda>l. D \<or> \<not> duplicates_allowed l) ls"
  shows "sys_inv D (fold sys_step ls (sys_New config))"
  by (rule tqm.reach_inv [OF reach_fold [OF reach_init assms]]) (auto simp: tq_init_def)

lemma run_inv_any: "sys_inv True (fold sys_step ls (sys_New config))"
  by (rule run_inv) (simp add: list_all_iff)

lemma run_core:
  "tq_core (q_tasks (tq_run config ls)) (q_pending (tq_run config ls)) (q_inflight (tq_run config ls))
     (q_byFingerprint (tq_run config ls)) (q_nextID (tq_run config ls))"
  using run_inv_any [of ls config] by (simp add: tq_run_def sys_inv_def tq_inv_def)

section \<open>Cancelling everything\<close>

lemma finish_live:
  fixes now :: instant and r :: test_result
  assumes inv: "tq_inv q" and mem: "tid \<in> set (q_pending q) \<or> tid \<in> set (q_inflight q)"
  defines "q' \<equiv> snd (finishTaskLocked q now tid StateCancelled r)"
  shows "fst (finishTaskLocked q now tid StateCancelled r)" "tq_inv q'"
    "q_inflight q' = filter (\<lambda>x. x \<noteq> tid) (q_inflight q)"
    "set (q_pending q') = set (q_pending q) - {tid}" "q_backlog q' = q_backlog q"
proof -
  have core: "tq_core (q_tasks q) (q_pending q) (q_inflight q) (q_byFingerprint q) (q_nextID q)"
    using inv by (simp add: tq_inv_def)
  from tq_coreD(6) [OF core mem] obtain t where t: "q_tasks q tid = Some t" by blast
  have nt: "\<not> IsTerminal (t_State t)" using tq_core_terminal_iff [OF core t] mem by simp
  show "fst (finishTaskLocked q now tid StateCancelled r)" by (rule finish_views(1) [OF t nt])
  show "tq_inv q'" unfolding q'_def by (rule finish_inv [OF inv]) simp
  show "q_inflight q' = filter (\<lambda>x. x \<noteq> tid) (q_inflight q)" unfolding q'_def by (rule finish_fields(2) [OF t nt])
  show "set (q_pending q') = set (q_pending q) - {tid}" unfolding q'_def by (rule finish_fields(4) [OF t nt inv])
  show "q_backlog q' = q_backlog q"
    using finish_views(4) [OF t nt, of now StateCancelled r] by (simp add: q'_def backlog_view_def)
qed

lemma inv_distinct: "tq_inv q \<Longrightarrow> distinct (q_pending q) \<and> distinct (q_inflight q) \<and>
    set (q_pending q) \<inter> set (q_inflight q) = {}"
  by (auto simp: tq_inv_def tq_core_def)

lemma cancel_pending_all:
  assumes "tq_inv q" "length (q_pending q) \<le> fuel"
  shows "let (n', q') = cancel_pending fuel now (n, q) in
    tq_inv q' \<and> q_pending q' = [] \<and> q_inflight q' = q_inflight q \<and> q_backlog q' = q_backlog q \<and>
    n' = n + int (length (q_pending q))"
  using assms
proof (induction fuel arbitrary: n q)
  case (Suc fuel)
  show ?case
  proof (cases "q_pending q = []")
    case True
    with Suc.prems show ?thesis by (simp add: heap_pop_def)
  next
    case False
    have core: "tq_core (q_tasks q) (q_pending q) (q_inflight q) (q_byFingerprint q) (q_nextID q)"
      using Suc.prems(1) by (simp add: tq_inv_def)
    from pend.heap_pop_ok [OF tq_coreD(1) [OF core] False] obtain tid h where
      pop: "heap_pop (pending_Less (q_tasks q)) (q_pending q) = Some (tid, h)"
        "mset (q_pending q) = add_mset tid (mset h)" by blast
    have mem: "tid \<in> set (q_pending q)" using pop(2) by (metis set_mset_mset union_single_eq_member)
    let ?q' = "snd (finishTaskLocked q now tid StateCancelled (cancelledResult now))"
    note F = finish_live [OF Suc.prems(1) disjI1 [OF mem], of now "cancelledResult now"]
    have "card (set (q_pending ?q')) = card (set (q_pending q)) - 1"
      using F(4) mem by simp
    then have len: "length (q_pending ?q') = length (q_pending q) - 1"
      using inv_distinct [OF F(2)] inv_distinct [OF Suc.prems(1)] by (simp add: distinct_card)
    have infl: "q_inflight ?q' = q_inflight q"
      using F(3) inv_distinct [OF Suc.prems(1)] mem by (auto simp: filter_id_conv)
    have "length (q_pending ?q') \<le> fuel" using len Suc.prems(2) False by (cases "q_pending q") auto
    note IH = Suc.IH [OF F(2) this, of "n + 1"]
    have "cancel_pending (Suc fuel) now (n, q) = cancel_pending fuel now (n + 1, ?q')"
      using F(1) by (simp add: pop(1) finish_popped [OF Suc.prems(1) pop(1)] case_prod_unfold Let_def)
    moreover have "1 + int (length (q_pending ?q')) = int (length (q_pending q))"
      using len False by (cases "q_pending q") auto
    ultimately show ?thesis using IH F(5) infl by (simp add: case_prod_unfold Let_def)
  qed
qed simp

lemma cancel_each_all:
  assumes "tq_inv q" "distinct tids" "set tids \<subseteq> set (q_inflight q)" "q_pending q = []"
  shows "let (n', q') = cancel_each now tids (n, q) in
    tq_inv q' \<and> q_pending q' = [] \<and> q_inflight q' = filter (\<lambda>x. x \<notin> set tids) (q_inflight q) \<and>
    q_backlog q' = q_backlog q \<and> n' = n + int (length tids)"
  using assms
proof (induction tids arbitrary: n q)
  case (Cons tid tids)
  then have mem: "tid \<in> set (q_pending q) \<or> tid \<in> set (q_inflight q)" by simp
  let ?q' = "snd (finishTaskLocked q now tid StateCancelled (cancelledResult now))"
  note F = finish_live [OF Cons.prems(1) mem, of now "cancelledResult now"]
  have "set tids \<subseteq> set (q_inflight ?q')" using F(3) Cons.prems(2,3) by auto
  moreover have "q_pending ?q' = []" using F(4) Cons.prems(4) by simp
  ultimately have "let (n', q') = cancel_each now tids (n + 1, ?q') in
    tq_inv q' \<and> q_pending q' = [] \<and> q_inflight q' = filter (\<lambda>x. x \<notin> set tids) (q_inflight ?q') \<and>
    q_backlog q' = q_backlog ?q' \<and> n' = n + 1 + int (length tids)"
    using Cons.IH [OF F(2)] Cons.prems(2) by simp
  then show ?case using F(1,3,5) by (auto simp: case_prod_unfold Let_def intro!: filter_cong)
qed simp

lemma CancelAll_drains:
  assumes inv: "tq_inv q"
  shows "let (n, q') = CancelAll q now in
    tq_inv q' \<and> q_pending q' = [] \<and> q_inflight q' = [] \<and> q_backlog q' = [] \<and>
    n = int (length (q_pending q)) + int (length (q_inflight q))"
proof -
  let ?d = "dropBacklogLocked q"
  have d: "tq_inv ?d" "q_pending ?d = q_pending q" "q_inflight ?d = q_inflight q" "q_backlog ?d = []"
    using inv safe_dropBacklog [of "{}" True q] by (simp_all add: safe_step_def)
       (simp_all add: dropBacklogLocked_def Let_def)
  obtain n1 q1 where c: "cancel_pending (length (q_pending ?d)) now (0, ?d) = (n1, q1)" by fastforce
  have q1: "tq_inv q1" "q_pending q1 = []" "q_inflight q1 = q_inflight q" "q_backlog q1 = []"
    "n1 = int (length (q_pending q))"
    using cancel_pending_all [OF d(1) order_refl, of now 0] c d by (simp_all add: Let_def)
  have "distinct (q_inflight q1)" using inv_distinct [OF q1(1)] by simp
  from cancel_each_all [OF q1(1) this subset_refl q1(2), of now n1] c q1 show ?thesis
    by (auto simp: CancelAll_def Let_def case_prod_unfold filter_empty_conv)
qed

section \<open>Deferred admission\<close>

definition live_count :: "queue \<Rightarrow> int" where
  "live_count q = int (length (q_pending q) + length (q_inflight q))"

lemma admit_candidate_fields:
  "length (q_pending (admit_candidate q now item)) = Suc (length (q_pending q))"
  "q_inflight (admit_candidate q now item) = q_inflight q"
  "q_config (admit_candidate q now item) = q_config q"
  "q_backlog (admit_candidate q now item) = q_backlog q"
  by (simp_all add: admit_candidate_def add_task_def Let_def heap_push_def)

lemma floor_config: "q_config a = q_config b \<Longrightarrow> admissionFloorLocked a = admissionFloorLocked b"
  by (simp only: admissionFloorLocked_def)

lemma admit_loop_bounds:
  "let (m, q') = admit_loop q now n in
     n \<le> m \<and> m \<le> max n (c_AdmissionBatch (q_config q)) \<and> live_count q' = live_count q + (m - n) \<and>
     (c_MaxQueueSize (q_config q) > 0 \<longrightarrow> live_count q' \<le> max (live_count q) (admissionFloorLocked q)) \<and>
     (q_paused q \<longrightarrow> m = n) \<and> (q_backlog q = [] \<longrightarrow> m = n)"
proof (induction q now n rule: admit_loop.induct)
  case (1 q now n)
  show ?case
  proof (cases "q_backlog q = [] \<or> \<not> n < c_AdmissionBatch (q_config q) \<or>
      c_MaxQueueSize (q_config q) > 0 \<and> live_count q \<ge> admissionFloorLocked q \<or> q_paused q")
    case True
    then have "admit_loop q now n = (n, q)"
      by (subst admit_loop.simps) (auto simp: live_count_def split: list.split)
    then show ?thesis by simp
  next
    case False
    then obtain item rest where item: "q_backlog q = item # rest" by (cases "q_backlog q") auto
    let ?fp = "bc_Fingerprint (bi_candidate item)"
    let ?q1 = "q\<lparr>q_backlog := rest, q_backlogSeen := filter (\<lambda>x. x \<noteq> ?fp) (q_backlogSeen q)\<rparr>"
    have g: "n < c_AdmissionBatch (q_config q)" "\<not> q_paused q"
      "\<not> (c_MaxQueueSize (q_config q) > 0 \<and> live_count q \<ge> admissionFloorLocked q)" using False by blast+
    have q1: "live_count ?q1 = live_count q" "admissionFloorLocked ?q1 = admissionFloorLocked q"
      by (simp add: live_count_def) (rule floor_config, simp)
    have q2: "live_count (admit_candidate ?q1 now item) = live_count q + 1"
      "admissionFloorLocked (admit_candidate ?q1 now item) = admissionFloorLocked q"
      "q_config (admit_candidate ?q1 now item) = q_config q"
      by (simp add: live_count_def admit_candidate_fields)
         (rule floor_config, simp_all add: admit_candidate_fields)
    have loop: "admit_loop q now n = (if gget (q_byFingerprint q) ?fp \<noteq> None then admit_loop ?q1 now n
        else admit_loop (admit_candidate ?q1 now item) now (n + 1))"
      by (subst admit_loop.simps) (use item g in \<open>auto simp: live_count_def Let_def\<close>)
    show ?thesis
    proof (cases "gget (q_byFingerprint q) ?fp")
      case None
      with loop have l: "admit_loop q now n = admit_loop (admit_candidate ?q1 now item) now (n + 1)" by simp
      from 1(2) [OF item _ _ _ refl refl] None g have
        "let (m, q') = admit_loop (admit_candidate ?q1 now item) now (n + 1) in
         n + 1 \<le> m \<and> m \<le> max (n + 1) (c_AdmissionBatch (q_config q)) \<and> live_count q' = live_count q + 1 + (m - (n + 1)) \<and>
         (c_MaxQueueSize (q_config q) > 0 \<longrightarrow> live_count q' \<le> max (live_count q + 1) (admissionFloorLocked q))"
        by (auto simp: q2 live_count_def [of q] case_prod_unfold Let_def)
      with g l item show ?thesis by (auto simp: case_prod_unfold Let_def)
    next
      case (Some x)
      with loop have l: "admit_loop q now n = admit_loop ?q1 now n" by simp
      from 1(1) [OF item _ _ _ refl refl] Some g q1 l item show ?thesis
        by (auto simp: live_count_def [of q] case_prod_unfold Let_def)
    qed
  qed
qed

section \<open>Progress of a run\<close>

definition run_measure :: "queue \<Rightarrow> int \<Rightarrow> run_phase \<Rightarrow> nat" where
  "run_measure q tid ph =
     (let C = nat (c_Measurements (q_config q));
          base = (\<lambda>n. nat (max_attempts q tid + 1 - n) * (C + 9))
      in case ph of
           RunStart n \<Rightarrow> base n + C + 7
         | RunPark n \<Rightarrow> base n + C + 6
         | RunTest n _ \<Rightarrow> base n + C + 5
         | RunMeasure _ _ i _ \<Rightarrow> nat (int C - i)
         | RunBackoff n \<Rightarrow> base (n + 1) + C + 8)"

lemma max_attempts_set_task:
  "(\<And>t. t_MaxAttempts (f t) = t_MaxAttempts t) \<Longrightarrow> max_attempts (set_task q tid f) tid = max_attempts q tid"
  by (simp add: max_attempts_def set_task_def split: option.split)

lemma max_attempts_slots:
  "max_attempts (q\<lparr>q_coreSlots := a, q_activeCores := b\<rparr>) tid = max_attempts q tid"
  by (simp add: max_attempts_def)

lemma set_task_config: "q_config (set_task q tid f) = q_config q"
  by (simp add: set_task_def)

lemma base_step:
  "n < m \<Longrightarrow> nat (m + 1 - n) * k = nat (m - n) * k + (k::nat)" for n m :: int
proof -
  assume "n < m"
  then have "nat (m + 1 - n) = Suc (nat (m - n))" by simp
  then show ?thesis by simp
qed

lemma run_fail_next:
  "run_fail q now tid n result err ctxErr dur = (q', Some ph') \<Longrightarrow>
   q' = q \<and> ph' = RunBackoff n \<and> n < max_attempts q tid"
  by (auto simp: run_fail_def Let_def case_prod_unfold split: if_splits)

text \<open>
  C40. Every transition of a run that is not a poll of a parked worker brings the run closer to
  its end: the measure over the remaining attempts and measurements decreases, so a worker
  performs boundedly many tests per task.
\<close>

theorem run_step_progress:
  assumes "run_step q now tid ph inp = Some (q', Some ph')" "inp \<noteq> InPoll"
  shows "run_measure q' tid ph' < run_measure q tid ph"
  using assms
  by (cases "(q, now, tid, ph, inp)" rule: run_step.cases)
     (auto simp: run_measure_def Let_def max_attempts_set_task max_attempts_slots set_task_config base_step
        dest!: run_fail_next split: if_splits)

definition demo_config :: tq_config where
  "demo_config = (ModeConfig ModeBalanced)\<lparr>c_MaxQueueSize := 5, c_AdmissionBatch := 2\<rparr>"

definition demo_enqueue :: "instant \<Rightarrow> string \<Rightarrow> EnqueueOption \<Rightarrow> tq_label" where
  "demo_enqueue now fp opt = LEnqueue now fp ''vless'' [] now ''user'' opt"

theorem run_step_progress_witness:
  "run_measure (tq_New demo_config) 1 (RunStart 3) < run_measure (tq_New demo_config) 1 (RunBackoff 2)"
  using run_step_progress [of "tq_New demo_config" 0 1 "RunBackoff 2" InTimer "tq_New demo_config" "RunStart 3"]
  by simp

text \<open>
  C6. In every state the system can reach, each enqueued task is counted exactly once: it is
  pending, in flight, or completed with exactly one of the four outcomes; no task is both
  pending and in flight, and none appears twice.
\<close>

theorem tq_accounting:
  "q_totalEnqueued (tq_run config ls) =
     int (length (q_pending (tq_run config ls))) + int (length (q_inflight (tq_run config ls)))
     + q_totalPassed (tq_run config ls) + q_totalFailed (tq_run config ls)
     + q_totalTimedOut (tq_run config ls) + q_totalCancelled (tq_run config ls)
   \<and> distinct (q_pending (tq_run config ls) @ q_inflight (tq_run config ls))
   \<and> q_totalEnqueued (tq_run config ls) = q_nextID (tq_run config ls)"
  using run_inv_any [of ls config] inv_distinct [of "tq_run config ls"]
  by (simp add: tq_run_def sys_inv_def tq_inv_def tq_counts_def)


text \<open>
  C33. A task that reached a terminal state keeps that state and its result for ever: no late
  tester return, cancellation, retry or re-enqueue of the same fingerprint changes it.
\<close>

theorem tq_outcome_permanent:
  assumes "q_tasks (tq_run config ls) tid = Some t" "IsTerminal (t_State t)"
  shows "\<exists>t'. q_tasks (tq_run config (ls @ later)) tid = Some t' \<and>
    t_State t' = t_State t \<and> t_Result t' = t_Result t"
  using settled_fold [OF run_inv_any, of ls config later] assms
  by (simp add: settled_def tq_run_def)

lemma demo_cancelled:
  "map_option t_State (q_tasks (tq_run demo_config [demo_enqueue 1 ''a'' EnqueueDefault, LCancel 2 1]) 1)
     = Some StateCancelled"
  by code_simp

theorem tq_outcome_permanent_witness:
  "\<exists>t'. q_tasks (tq_run demo_config ([demo_enqueue 1 ''a'' EnqueueDefault, LCancel 2 1] @
      [demo_enqueue 3 ''a'' EnqueueDefault, LStart, LDequeue])) 1 = Some t' \<and> t_State t' = StateCancelled"
proof -
  from demo_cancelled obtain t where
    t: "q_tasks (tq_run demo_config [demo_enqueue 1 ''a'' EnqueueDefault, LCancel 2 1]) 1 = Some t"
      "t_State t = StateCancelled" by blast
  then show ?thesis
    using tq_outcome_permanent [OF t(1), of "[demo_enqueue 3 ''a'' EnqueueDefault, LStart, LDequeue]"] by auto
qed

text \<open>
  As long as no caller asks for duplicates, the live tasks have pairwise distinct
  fingerprints, and \<open>Queued\<close> answers exactly whether a live task has the fingerprint.
\<close>

theorem tq_no_duplicates:
  assumes "list_all (\<lambda>l. \<not> duplicates_allowed l) ls"
  shows "distinct (snd (LiveState (tq_run config ls))) \<and>
    (Queued (tq_run config ls) fp \<longleftrightarrow> fp \<in> set (snd (LiveState (tq_run config ls))))"
proof -
  let ?q = "tq_run config ls"
  let ?live = "q_pending ?q @ q_inflight ?q"
  have "list_all (\<lambda>l. False \<or> \<not> duplicates_allowed l) ls" using assms by simp
  from run_inv [OF this, of config] have inv: "tq_inv ?q" and ex: "idx_exact ?q"
    by (simp_all add: sys_inv_def tq_run_def)
  have name: "gget (q_byFingerprint ?q) (t_Fingerprint (the (q_tasks ?q x))) = Some x"
    if "x \<in> set ?live" for x
  proof -
    have mem: "x \<in> set (q_pending ?q) \<or> x \<in> set (q_inflight ?q)" using that by simp
    from tq_coreD(6) [OF run_core mem] obtain t where "q_tasks ?q x = Some t" by blast
    with idx_exactD [OF ex mem] show ?thesis by simp
  qed
  have "inj_on (\<lambda>tid. t_Fingerprint (the (q_tasks ?q tid))) (set ?live)"
  proof (rule inj_onI)
    fix x y assume x: "x \<in> set ?live" and y: "y \<in> set ?live"
      and eq: "t_Fingerprint (the (q_tasks ?q x)) = t_Fingerprint (the (q_tasks ?q y))"
    have "Some x = Some y" using name [OF x] name [OF y] by (simp only: eq)
    then show "x = y" by simp
  qed
  moreover have "distinct ?live" using inv_distinct [OF inv] by simp
  ultimately have "distinct (map (\<lambda>tid. t_Fingerprint (the (q_tasks ?q tid))) ?live)"
    by (simp only: distinct_map)
  moreover have "Queued ?q fp \<longleftrightarrow> fp \<in> set (map (\<lambda>tid. t_Fingerprint (the (q_tasks ?q tid))) ?live)"
  proof
    assume "Queued ?q fp"
    then obtain x where "gget (q_byFingerprint ?q) fp = Some x" by (auto simp: Queued_def)
    from tq_coreD(8) [OF run_core this] have "x \<in> set ?live" "t_Fingerprint (the (q_tasks ?q x)) = fp"
      by (auto simp: index_sound_def)
    then show "fp \<in> set (map (\<lambda>tid. t_Fingerprint (the (q_tasks ?q tid))) ?live)"
      unfolding list.set_map by (intro image_eqI [of _ _ x]) simp_all
  next
    assume "fp \<in> set (map (\<lambda>tid. t_Fingerprint (the (q_tasks ?q tid))) ?live)"
    then obtain x where "x \<in> set ?live" "fp = t_Fingerprint (the (q_tasks ?q x))"
      by (metis (no_types, lifting) imageE list.set_map)
    with name show "Queued ?q fp" by (simp add: Queued_def)
  qed
  ultimately show ?thesis by (simp add: LiveState_def)
qed

theorem tq_no_duplicates_witness:
  "list_all (\<lambda>l. \<not> duplicates_allowed l) [demo_enqueue 1 ''a'' EnqueueDefault, demo_enqueue 2 ''a'' EnqueueDefault] \<and>
   distinct (snd (LiveState (tq_run demo_config
     [demo_enqueue 1 ''a'' EnqueueDefault, demo_enqueue 2 ''a'' EnqueueDefault])))"
  using tq_no_duplicates [of "[demo_enqueue 1 ''a'' EnqueueDefault, demo_enqueue 2 ''a'' EnqueueDefault]"
      demo_config "''a''"]
  by (simp add: demo_enqueue_def)

text \<open>
  With \<open>EnqueueAllowDuplicate\<close> the index is not kept: two live tasks share a fingerprint,
  the first one finishes and removes the entry of the second, so \<open>Queued\<close> denies a task that is
  pending and a default enqueue of the same fingerprint creates yet another one.
\<close>

theorem duplicate_index_lost:
  "let q = tq_run demo_config [demo_enqueue 1 ''a'' EnqueueDefault,
             demo_enqueue 2 ''a'' EnqueueAllowDuplicate, LCancel 3 1]
   in q_pending q = [2] \<and> \<not> Queued q ''a'' \<and>
      fst (Enqueue q 4 ''a'' ''vless'' [] 0 ''user'' EnqueueDefault) = Inr 3"
  by code_simp

text \<open>
  \<open>Dequeue\<close> hands out, among all pending tasks, one of highest priority, and among those
  the oldest; the task moves from the heap to the in-flight map and is being prepared.
\<close>

theorem Dequeue_order:
  assumes "Dequeue (tq_run config ls) = Some (tid, q')"
  shows "\<exists>t. q_tasks (tq_run config ls) tid = Some t \<and>
    q_tasks q' tid = Some (t\<lparr>t_State := StatePreparing\<rparr>) \<and> tid \<in> set (q_inflight q') \<and>
    mset (q_pending (tq_run config ls)) = add_mset tid (mset (q_pending q')) \<and>
    (\<forall>x tx. x \<in> set (q_pending q') \<and> q_tasks (tq_run config ls) x = Some tx \<longrightarrow>
       t_Priority tx < t_Priority t \<or> t_Priority tx = t_Priority t \<and> t_CreatedAt t \<le> t_CreatedAt tx)"
proof -
  let ?q = "tq_run config ls"
  have inv: "tq_inv ?q" using run_inv_any [of ls config] by (simp add: sys_inv_def tq_run_def)
  from Dequeue_view [OF inv assms] obtain t h where
    t: "q_tasks ?q tid = Some t"
    and q': "q' = ?q\<lparr>q_pending := h, q_inflight := tid # q_inflight ?q,
            q_tasks := (q_tasks ?q)(tid \<mapsto> t\<lparr>t_State := StatePreparing\<rparr>)\<rparr>"
    and ms: "mset (q_pending ?q) = add_mset tid (mset h)"
    and first: "\<forall>x \<in> set (q_pending ?q). \<not> pending_Less (q_tasks ?q) x tid" .
  have "set h \<subseteq> set (q_pending ?q)" using ms by (metis set_mset_add_mset_insert set_mset_mset subset_insertI)
  then have "\<not> task_before tx t" if "x \<in> set h" "q_tasks ?q x = Some tx" for x tx
    using bspec [OF first, of x] that t by (auto simp: pending_Less_def)
  then have "t_Priority tx < t_Priority t \<or> t_Priority tx = t_Priority t \<and> t_CreatedAt t \<le> t_CreatedAt tx"
    if "x \<in> set h" "q_tasks ?q x = Some tx" for x tx
    using that by (fastforce simp: task_before_def split: if_splits)
  then have "\<forall>x tx. x \<in> set h \<and> q_tasks ?q x = Some tx \<longrightarrow>
    t_Priority tx < t_Priority t \<or> t_Priority tx = t_Priority t \<and> t_CreatedAt t \<le> t_CreatedAt tx" by blast
  with t ms show ?thesis by (simp add: q')
qed

lemma demo_dequeue:
  "map_option fst (Dequeue (tq_run demo_config [demo_enqueue 1 ''a'' EnqueueDefault,
     demo_enqueue 2 ''b'' EnqueueDefault, demo_enqueue 0 ''c'' EnqueueDefault])) = Some 2"
  by code_simp

theorem Dequeue_order_witness:
  "\<exists>q' t. Dequeue (tq_run demo_config [demo_enqueue 1 ''a'' EnqueueDefault,
     demo_enqueue 2 ''b'' EnqueueDefault, demo_enqueue 0 ''c'' EnqueueDefault]) = Some (2, q') \<and>
     q_tasks q' 2 = Some (t\<lparr>t_State := StatePreparing\<rparr>)"
  using demo_dequeue Dequeue_order by (fastforce simp: map_option_case split: option.splits)

text \<open>
  \<open>CancelAll\<close> leaves nothing behind: the pending heap, the in-flight map and the backlog are
  empty, and it reports exactly the number of tasks that were live.
\<close>

theorem CancelAll_empties:
  "fst (CancelAll (tq_run config ls) now) = live_count (tq_run config ls) \<and>
   q_pending (snd (CancelAll (tq_run config ls) now)) = [] \<and>
   q_inflight (snd (CancelAll (tq_run config ls) now)) = [] \<and>
   BacklogRemaining (snd (CancelAll (tq_run config ls) now)) = 0"
proof -
  have inv: "tq_inv (tq_run config ls)" using run_inv_any [of ls config] by (simp add: sys_inv_def tq_run_def)
  from CancelAll_drains [OF inv, of now] show ?thesis
    by (simp add: case_prod_unfold Let_def live_count_def BacklogRemaining_def)
qed

text \<open>
  One admission step creates at most \<open>AdmissionBatch\<close> tasks, never lifts the number of live
  tasks of a bounded queue above the admission floor, and admits nothing while the queue is
  stopped, paused or held.
\<close>

theorem admit_bounds:
  "0 \<le> fst (admit q now) \<and> fst (admit q now) \<le> max 0 (c_AdmissionBatch (q_config q)) \<and>
   live_count (snd (admit q now)) = live_count q + fst (admit q now) \<and>
   (if c_MaxQueueSize (q_config q) > 0
    then live_count (snd (admit q now)) \<le> max (live_count q) (admissionFloorLocked q) else True) \<and>
   (if q_stopped q \<or> q_paused q \<or> q_admissionHeld q then fst (admit q now) = 0 else True)"
proof -
  have "live_count (notifyLocked a) = live_count a" for a
    using frame_notify [of a] by (simp add: live_count_def view_defs)
  with admit_loop_bounds [of q now 0] show ?thesis
    by (auto simp: admit_def case_prod_unfold Let_def)
qed

text \<open>
  A negative \<open>AdmissionBatch\<close>, documented as admitting everything at once, admits nothing.
\<close>

theorem negative_batch_admits_nothing:
  assumes "c_AdmissionBatch (q_config q) < 0"
  shows "fst (admit q now) = 0"
  using admit_loop_bounds [of q now 0] assms by (auto simp: admit_def case_prod_unfold Let_def)

theorem negative_batch_admits_nothing_witness:
  "fst (admit (tq_New (demo_config\<lparr>c_AdmissionBatch := -1\<rparr>)) 0) = 0"
  by (rule negative_batch_admits_nothing) (simp add: tq_New_def Let_def demo_config_def zero_config_def)

text \<open>
  When an additional measurement of a passing test fails, the task still ends in
  \<open>StatePassed\<close> and is counted as passed, with a result that says it does not work.
\<close>

theorem failed_measurement_passes:
  "let q = tq_run (ModeConfig ModeDeep) [demo_enqueue 1 ''a'' EnqueueDefault, LStart, LDequeue,
             LRun 2 1 InGo, LRun 3 1 (InSlot 7),
             LRun 4 1 (InReturn (zero_result\<lparr>r_Working := True\<rparr>) None CtxNone 1 8),
             LRun 5 1 (InReturn zero_result (Some ''refused'') CtxNone 1 9)]
   in map_option (\<lambda>t. (t_State t, r_Working (t_Result t), r_LastError (t_Result t))) (q_tasks q 1)
        = Some (StatePassed, False, ''refused'') \<and> q_totalPassed q = 1"
  by code_simp

lemma indexOf_from_nonneg:
  "length sub \<le> length s \<Longrightarrow> 0 \<le> indexOf_from s sub i \<longleftrightarrow> (\<exists>a b. s = a @ sub @ b)"
proof (induction s sub i rule: indexOf_from.induct)
  case (1 s sub i)
  show ?case
  proof (cases "take (length sub) s = sub")
    case True
    then have "\<exists>a b. s = a @ sub @ b" by (metis append_Nil append_take_drop_id)
    with True show ?thesis by (subst indexOf_from.simps) simp
  next
    case no: False
    show ?thesis
    proof (cases s)
      case Nil
      with no 1(2) show ?thesis by simp
    next
      case (Cons c s')
      have tail: "(\<exists>a b. s = a @ sub @ b) \<longleftrightarrow> (\<exists>a b. s' = a @ sub @ b)"
      proof
        assume "\<exists>a b. s = a @ sub @ b"
        then obtain a b where ab: "s = a @ sub @ b" by blast
        with no have "a \<noteq> []" by auto
        with ab Cons show "\<exists>a b. s' = a @ sub @ b" by (cases a) auto
      next
        assume "\<exists>a b. s' = a @ sub @ b"
        then show "\<exists>a b. s = a @ sub @ b" using Cons by (metis append_Cons)
      qed
      show ?thesis
      proof (cases "length s' < length sub")
        case True
        then have "\<nexists>a b. s' = a @ sub @ b" by auto
        with True no Cons tail show ?thesis by (subst indexOf_from.simps) auto
      next
        case False
        with 1(1) [OF no Cons] no Cons tail show ?thesis
          by (subst indexOf_from.simps) simp
      qed
    qed
  qed
qed

declare indexOf_from.simps [simp del]

text \<open>
  The hand-written substring search behind the failure classification is exact:
  \<open>contains s sub\<close> holds precisely when the non-empty \<open>sub\<close> occurs in \<open>s\<close>.
\<close>

theorem contains_iff_occurs:
  "contains s sub \<longleftrightarrow> sub \<noteq> [] \<and> (\<exists>a b. s = a @ sub @ b)"
  using indexOf_from_nonneg [of sub s 0]
  by (auto simp: contains_def indexOf_def)


end
