(* ===== verification/NetAddr.thy ===== *)
theory NetAddr
  imports Prelude
begin

text \<open>
  What the sources use of Go's \<open>net\<close>, \<open>net/netip\<close>, \<open>strconv\<close> and \<open>encoding/binary\<close>: byte
  strings, big-endian 16-bit integers, decimal conversion, textual IP addresses, and
  \<open>host:port\<close> pairs. A Go string is the list of its bytes as characters.
\<close>

section \<open>Bytes and strings\<close>

definition str_bytes :: "string \<Rightarrow> bytes" where
  "str_bytes s = map (\<lambda>c. of_nat (of_char c)) s"

definition bytes_str :: "bytes \<Rightarrow> string" where
  "bytes_str bs = map (\<lambda>b. char_of (unat b)) bs"

lemma bytes_str_inverse [simp]: "bytes_str (str_bytes s) = s"
proof (induction s)
  case (Cons c s)
  have "of_char c \<in> {0..<256::nat}" using range_nat_of_char by blast
  then have "of_char c < (256 :: nat)" by simp
  then have "unat (of_nat (of_char c) :: byte) = of_char c" by (simp add: unat_of_nat)
  with Cons show ?case by (simp add: bytes_str_def str_bytes_def)
qed (simp add: bytes_str_def str_bytes_def)

lemma length_str_bytes [simp]: "length (str_bytes s) = length s"
  by (simp add: str_bytes_def)

text \<open>\<open>binary.BigEndian.PutUint16\<close> and \<open>Uint16\<close>, on values reduced to 16 bits.\<close>

definition put_uint16 :: "int \<Rightarrow> bytes" where
  "put_uint16 n = [of_int (n div 256), of_int n]"

definition get_uint16 :: "bytes \<Rightarrow> int" where
  "get_uint16 bs = (case bs of hi # lo # _ \<Rightarrow> 256 * uint hi + uint lo | _ \<Rightarrow> 0)"

lemma length_put_uint16 [simp]: "length (put_uint16 n) = 2"
  by (simp add: put_uint16_def)

lemma get_put_uint16: "0 \<le> n \<Longrightarrow> n < 65536 \<Longrightarrow> get_uint16 (put_uint16 n @ rest) = n"
  by (simp add: put_uint16_def get_uint16_def uint_word_of_int)

section \<open>Decimal numbers\<close>

definition digit_char :: "nat \<Rightarrow> char" where
  "digit_char d = char_of (48 + d)"

definition char_digit :: "char \<Rightarrow> nat option" where
  "char_digit c = (if 48 \<le> (of_char c :: nat) \<and> (of_char c :: nat) \<le> 57 then Some (of_char c - 48) else None)"

fun nat_str :: "nat \<Rightarrow> string" where
  "nat_str n = (if n < 10 then [digit_char n] else nat_str (n div 10) @ [digit_char (n mod 10)])"

declare nat_str.simps [simp del]

definition Itoa :: "int \<Rightarrow> string" where
  "Itoa n = (if n < 0 then CHR ''-'' # nat_str (nat (- n)) else nat_str (nat n))"

fun digits_value :: "nat \<Rightarrow> string \<Rightarrow> nat option" where
  "digits_value acc [] = Some acc"
| "digits_value acc (c # cs) =
     (case char_digit c of None \<Rightarrow> None | Some d \<Rightarrow> digits_value (10 * acc + d) cs)"

text \<open>\<open>strconv.Atoi\<close>: an optional sign, at least one digit, the range of a 64-bit integer.\<close>

definition Atoi :: "string \<Rightarrow> int option" where
  "Atoi s =
     (let neg = (case s of c # _ \<Rightarrow> c = CHR ''-'' | [] \<Rightarrow> False);
          body = (case s of c # cs \<Rightarrow> if c = CHR ''-'' \<or> c = CHR ''+'' then cs else s | [] \<Rightarrow> [])
      in if body = [] then None
         else case digits_value 0 body of
                None \<Rightarrow> None
              | Some n \<Rightarrow>
                  if neg then (if int n \<le> 2 ^ 63 then Some (- int n) else None)
                  else if int n < 2 ^ 63 then Some (int n) else None)"

lemma of_char_digit: "d < 10 \<Longrightarrow> (of_char (digit_char d) :: nat) = 48 + d"
  by (simp add: digit_char_def)

lemma char_digit_char [simp]: "d < 10 \<Longrightarrow> char_digit (digit_char d) = Some d"
  by (simp add: char_digit_def of_char_digit)

lemma digits_value_append:
  "digits_value acc (xs @ ys) = (case digits_value acc xs of None \<Rightarrow> None | Some v \<Rightarrow> digits_value v ys)"
  by (induction xs arbitrary: acc) (auto split: option.split)

lemma digits_value_nat_str: "digits_value 0 (nat_str n) = Some n"
proof (induction n rule: less_induct)
  case (less n)
  show ?case
  proof (cases "n < 10")
    case True
    then show ?thesis by (subst nat_str.simps) simp
  next
    case False
    then have "digits_value 0 (nat_str (n div 10)) = Some (n div 10)" using less by simp
    with False show ?thesis by (subst nat_str.simps) (simp add: digits_value_append)
  qed
qed

lemma nat_str_digits: "c \<in> set (nat_str n) \<Longrightarrow> \<exists>d < 10. c = digit_char d"
proof (induction n rule: less_induct)
  case (less n)
  show ?case
  proof (cases "n < 10")
    case True
    with less.prems show ?thesis by (subst (asm) nat_str.simps) auto
  next
    case False
    then have "c \<in> set (nat_str (n div 10)) \<or> c = digit_char (n mod 10)"
      using less.prems by (subst (asm) nat_str.simps) auto
    moreover have "n mod 10 < 10" by simp
    ultimately show ?thesis using less.IH [of "n div 10"] False by (metis div_less_dividend not_less
        one_less_numeral_iff semiring_norm(76) zero_less_numeral less_le_trans)
  qed
qed

lemma nat_str_nonempty [simp]: "nat_str n \<noteq> []"
  by (subst nat_str.simps) simp

lemma digit_char_neq:
  "d < 10 \<Longrightarrow> digit_char d \<noteq> CHR ''-''" "d < 10 \<Longrightarrow> digit_char d \<noteq> CHR ''+''"
  "d < 10 \<Longrightarrow> digit_char d \<noteq> CHR '':''" "d < 10 \<Longrightarrow> digit_char d \<noteq> CHR ''[''"
  "d < 10 \<Longrightarrow> digit_char d \<noteq> CHR '']''" "d < 10 \<Longrightarrow> digit_char d \<noteq> CHR ''.''"
  "d < 10 \<Longrightarrow> digit_char d \<noteq> CHR ''%''"
  by (rule notI, drule arg_cong [where f = "of_char :: char \<Rightarrow> nat"], simp add: of_char_digit)+

lemma Atoi_Itoa: "0 \<le> n \<Longrightarrow> n < 2 ^ 63 \<Longrightarrow> Atoi (Itoa n) = Some n"
proof -
  assume n: "0 \<le> n" "n < 2 ^ 63"
  obtain c cs where s: "nat_str (nat n) = c # cs" by (cases "nat_str (nat n)") auto
  then have "c \<noteq> CHR ''-''" "c \<noteq> CHR ''+''"
    using nat_str_digits [of c "nat n"] digit_char_neq by auto
  with s n digits_value_nat_str [of "nat n"] show ?thesis by (simp add: Atoi_def Itoa_def)
qed

section \<open>Host and port\<close>

definition index_byte :: "char \<Rightarrow> string \<Rightarrow> nat option" where
  "index_byte c s = find (\<lambda>i. s ! i = c) [0..<length s]"

definition last_index_byte :: "char \<Rightarrow> string \<Rightarrow> nat option" where
  "last_index_byte c s = find (\<lambda>i. s ! i = c) (rev [0..<length s])"

definition JoinHostPort :: "string \<Rightarrow> string \<Rightarrow> string" where
  "JoinHostPort host port =
     (if CHR '':'' \<in> set host then CHR ''['' # host @ '']:'' @ port else host @ CHR '':'' # port)"

definition SplitHostPort :: "string \<Rightarrow> (string \<times> string) option" where
  "SplitHostPort s =
     (case last_index_byte (CHR '':'') s of
        None \<Rightarrow> None
      | Some i \<Rightarrow>
          (case (if s ! 0 = CHR ''[''
                 then case index_byte (CHR '']'') s of
                        None \<Rightarrow> None
                      | Some e \<Rightarrow> if e + 1 = i then Some (take (e - 1) (drop 1 s), 1, e + 1) else None
                 else if CHR '':'' \<in> set (take i s) then None else Some (take i s, 0, 0)) of
             None \<Rightarrow> None
           | Some (host, j, k) \<Rightarrow>
               if CHR ''['' \<in> set (drop j s) \<or> CHR '']'' \<in> set (drop k s) then None
               else Some (host, drop (i + 1) s)))"

lemma find_rev_upt_last:
  assumes "i < n" "P i" "\<And>j. i < j \<Longrightarrow> j < n \<Longrightarrow> \<not> P j"
  shows "find P (rev [0..<n]) = Some i"
  using assms
proof (induction n)
  case (Suc n)
  then show ?case by (cases "i = n") auto
qed simp

lemma last_index_byte_append:
  assumes "c \<notin> set ys"
  shows "last_index_byte c (xs @ c # ys) = Some (length xs)"
  unfolding last_index_byte_def
proof (rule find_rev_upt_last)
  fix j assume j: "length xs < j" "j < length (xs @ c # ys)"
  then have "(xs @ c # ys) ! j = ys ! (j - Suc (length xs))" by (simp add: nth_append)
  moreover have "j - Suc (length xs) < length ys" using j by simp
  ultimately show "(xs @ c # ys) ! j \<noteq> c" using assms nth_mem by metis
qed simp_all

lemma find_upt_first:
  assumes "i < n" "P i" "\<And>j. j < i \<Longrightarrow> \<not> P j"
  shows "find P [0..<n] = Some i"
proof -
  have "find P (xs @ i # ys) = Some i" if "\<forall>x \<in> set xs. \<not> P x" for xs ys
    using that assms(2) by (induction xs) auto
  moreover have "[0..<n] = [0..<i] @ i # [Suc i..<n]"
    using assms(1) upt_add_eq_append [of 0 i "n - i"] by (simp add: upt_conv_Cons)
  ultimately show ?thesis using assms(3) by simp
qed

lemma index_byte_append:
  assumes "c \<notin> set xs"
  shows "index_byte c (xs @ c # ys) = Some (length xs)"
  unfolding index_byte_def
proof (rule find_upt_first)
  fix j assume "j < length xs"
  then show "(xs @ c # ys) ! j \<noteq> c" using assms nth_mem by (metis nth_append)
qed simp_all

text \<open>Joining and splitting a host without brackets and a port without brackets or colons.\<close>

lemma Split_Join:
  assumes h: "CHR ''['' \<notin> set host" "CHR '']'' \<notin> set host"
    and p: "CHR '':'' \<notin> set port" "CHR ''['' \<notin> set port" "CHR '']'' \<notin> set port"
  shows "SplitHostPort (JoinHostPort host port) = Some (host, port)"
proof (cases "CHR '':'' \<in> set host")
  case True
  let ?s = "CHR ''['' # host @ '']:'' @ port"
  have "last_index_byte (CHR '':'') ((CHR ''['' # host @ [CHR '']'']) @ CHR '':'' # port)
      = Some (length host + 2)"
    by (subst last_index_byte_append [OF p(1)]) simp
  then have l: "last_index_byte (CHR '':'') ?s = Some (length host + 2)" by simp
  have "index_byte (CHR '']'') ((CHR ''['' # host) @ CHR '']'' # CHR '':'' # port) = Some (length host + 1)"
    by (subst index_byte_append) (use h in auto)
  then have e: "index_byte (CHR '']'') ?s = Some (length host + 1)" by simp
  show ?thesis using l e True h p by (simp add: SplitHostPort_def JoinHostPort_def)
next
  case False
  have l: "last_index_byte (CHR '':'') (host @ CHR '':'' # port) = Some (length host)"
    by (rule last_index_byte_append [OF p(1)])
  have "(host @ CHR '':'' # port) ! 0 \<noteq> CHR ''[''"
    using h(1) by (cases host) auto
  with l False h p show ?thesis by (simp add: SplitHostPort_def JoinHostPort_def)
qed

lemma Itoa_chars:
  assumes "0 \<le> n"
  shows "CHR '':'' \<notin> set (Itoa n)" "CHR ''['' \<notin> set (Itoa n)" "CHR '']'' \<notin> set (Itoa n)"
  using assms nat_str_digits [of _ "nat n"] digit_char_neq(3-5) by (auto simp: Itoa_def; metis)+

section \<open>IPv4 addresses\<close>

text \<open>
  \<open>parseIPv4Fields\<close>: the state is the accumulated value, the number of digits of the current
  octet, the finished octets, and whether the previous character was a dot.
\<close>

fun parse4 :: "string \<Rightarrow> nat \<Rightarrow> nat \<Rightarrow> nat list \<Rightarrow> nat list option" where
  "parse4 [] val dl fields = (if length fields < 3 then None else Some (fields @ [val]))"
| "parse4 (c # cs) val dl fields =
     (case char_digit c of
        Some d \<Rightarrow>
          if dl = 1 \<and> val = 0 then None
          else if val * 10 + d > 255 then None
          else parse4 cs (val * 10 + d) (dl + 1) fields
      | None \<Rightarrow>
          if c \<noteq> CHR ''.'' then None
          else if dl = 0 \<or> cs = [] then None
          else if length fields = 3 then None
          else parse4 cs 0 0 (fields @ [val]))"

definition parseIPv4 :: "string \<Rightarrow> bytes option" where
  "parseIPv4 s = map_option (map of_nat) (parse4 s 0 0 [])"

definition ipv4_String :: "bytes \<Rightarrow> string" where
  "ipv4_String b = nat_str (unat (b ! 0)) @ ''.'' @ nat_str (unat (b ! 1)) @ ''.''
     @ nat_str (unat (b ! 2)) @ ''.'' @ nat_str (unat (b ! 3))"

section \<open>IPv6 addresses\<close>

definition hex_digit :: "char \<Rightarrow> nat option" where
  "hex_digit c =
     (let n = (of_char c :: nat) in
      if 48 \<le> n \<and> n \<le> 57 then Some (n - 48)
      else if 97 \<le> n \<and> n \<le> 102 then Some (n - 87)
      else if 65 \<le> n \<and> n \<le> 70 then Some (n - 55) else None)"

text \<open>The digits of one group: at most four; the rest of the string is returned.\<close>

fun hex_group :: "string \<Rightarrow> nat \<Rightarrow> nat \<Rightarrow> (nat \<times> nat \<times> string) option" where
  "hex_group [] off acc = Some (off, acc, [])"
| "hex_group (c # cs) off acc =
     (case hex_digit c of
        None \<Rightarrow> Some (off, acc, c # cs)
      | Some d \<Rightarrow> if off > 3 then None else hex_group cs (off + 1) (16 * acc + d))"

lemma hex_group_length: "hex_group s off acc = Some (o', a', s') \<Longrightarrow> o' + length s' = off + length s"
  by (induction s off acc rule: hex_group.induct) (fastforce split: option.splits if_splits)+

text \<open>The loop over the groups: the bytes so far and the position of the ellipsis.\<close>

function parse6 :: "string \<Rightarrow> bytes \<Rightarrow> nat option \<Rightarrow> (bytes \<times> nat option) option" where
  "parse6 s ip ell =
     (if length ip \<ge> 16 then (if s = [] then Some (ip, ell) else None)
      else case hex_group s 0 0 of
             None \<Rightarrow> None
           | Some (off, acc, s1) \<Rightarrow>
               if off = 0 then None
               else if s1 \<noteq> [] \<and> hd s1 = CHR ''.''
               then (if ell = None \<and> length ip \<noteq> 12 then None
                     else if length ip + 4 > 16 then None
                     else case parseIPv4 s of None \<Rightarrow> None | Some b \<Rightarrow> Some (ip @ b, ell))
               else let ip1 = ip @ [of_nat (acc div 256), of_nat acc] in
                    case s1 of
                      [] \<Rightarrow> Some (ip1, ell)
                    | c # s2 \<Rightarrow>
                        if c \<noteq> CHR '':'' \<or> s2 = [] then None
                        else if hd s2 = CHR '':''
                        then (if ell \<noteq> None then None
                              else if tl s2 = [] then Some (ip1, Some (length ip1))
                              else parse6 (tl s2) ip1 (Some (length ip1)))
                        else parse6 s2 ip1 ell)"
  by pat_completeness auto
termination
  by (relation "measure (\<lambda>(s, ip, ell). 16 - length ip)") auto

declare parse6.simps [simp del]

definition expand6 :: "bytes \<times> nat option \<Rightarrow> bytes option" where
  "expand6 p =
     (let (ip, ell) = p in
      if length ip < 16
      then case ell of None \<Rightarrow> None
           | Some e \<Rightarrow> Some (take e ip @ replicate (16 - length ip) 0 @ drop e ip)
      else if ell \<noteq> None then None else Some ip)"

definition parseIPv6 :: "string \<Rightarrow> (bytes \<times> string) option" where
  "parseIPv6 s0 =
     (case (case index_byte (CHR ''%'') s0 of
              None \<Rightarrow> Some (s0, [])
            | Some i \<Rightarrow> if drop (i + 1) s0 = [] then None else Some (take i s0, drop (i + 1) s0)) of
        None \<Rightarrow> None
      | Some (s, zone) \<Rightarrow>
          let lead = (take 2 s = ''::''); s1 = (if lead then drop 2 s else s) in
          if lead \<and> s1 = [] then Some (replicate 16 0, zone)
          else case parse6 s1 [] (if lead then Some 0 else None) of
                 None \<Rightarrow> None
               | Some p \<Rightarrow> map_option (\<lambda>ip. (ip, zone)) (expand6 p))"

text \<open>\<open>netip.ParseAddr\<close>: the first of dot, colon and percent decides.\<close>

datatype ipaddr = IP4 bytes | IP6 bytes string

definition ParseAddr :: "string \<Rightarrow> ipaddr option" where
  "ParseAddr s =
     (case find (\<lambda>c. c = CHR ''.'' \<or> c = CHR '':'' \<or> c = CHR ''%'') s of
        None \<Rightarrow> None
      | Some c \<Rightarrow>
          if c = CHR ''.'' then map_option IP4 (parseIPv4 s)
          else if c = CHR '':'' then map_option (\<lambda>(ip, zone). IP6 ip zone) (parseIPv6 s)
          else None)"

text \<open>\<open>net.ParseIP\<close>: the 16-byte form, zones rejected; \<open>To4\<close> undoes the mapping.\<close>

definition v4_prefix :: bytes where
  "v4_prefix = replicate 10 0 @ [0xff, 0xff]"

definition ParseIP :: "string \<Rightarrow> bytes option" where
  "ParseIP s =
     (case ParseAddr s of
        None \<Rightarrow> None
      | Some (IP4 b) \<Rightarrow> Some (v4_prefix @ b)
      | Some (IP6 b zone) \<Rightarrow> if zone = [] then Some b else None)"

definition To4 :: "bytes \<Rightarrow> bytes option" where
  "To4 ip = (if length ip = 4 then Some ip
             else if length ip = 16 \<and> take 12 ip = v4_prefix then Some (drop 12 ip) else None)"

text \<open>\<open>net.IP.String\<close>: dotted for IPv4 and IPv4-mapped, otherwise groups with the longest zero run elided.\<close>

definition hex_char :: "nat \<Rightarrow> char" where
  "hex_char d = char_of (if d < 10 then 48 + d else 87 + d)"

fun hex_str :: "nat \<Rightarrow> string" where
  "hex_str n = (if n < 16 then [hex_char n] else hex_str (n div 16) @ [hex_char (n mod 16)])"

declare hex_str.simps [simp del]

fun groups16 :: "bytes \<Rightarrow> nat list" where
  "groups16 (a # b # rest) = (256 * unat a + unat b) # groups16 rest"
| "groups16 _ = []"

definition zero_run :: "nat list \<Rightarrow> nat \<Rightarrow> nat" where
  "zero_run gs i = length (takeWhile (\<lambda>g. g = 0) (drop i gs))"

definition longest_zeros :: "nat list \<Rightarrow> (nat \<times> nat) option" where
  "longest_zeros gs =
     fold (\<lambda>i best. let l = zero_run gs i in
             if l \<ge> 2 \<and> l > (case best of None \<Rightarrow> 0 | Some (_, len) \<Rightarrow> len) then Some (i, l) else best)
       [0..<length gs] None"

definition join_groups :: "nat list \<Rightarrow> string" where
  "join_groups gs = (case gs of [] \<Rightarrow> [] | g # rest \<Rightarrow> hex_str g @ concat (map (\<lambda>x. CHR '':'' # hex_str x) rest))"

definition ipv6_String :: "bytes \<Rightarrow> string" where
  "ipv6_String b =
     (let gs = groups16 b in
      case longest_zeros gs of
        None \<Rightarrow> join_groups gs
      | Some (i, l) \<Rightarrow> join_groups (take i gs) @ ''::'' @ join_groups (drop (i + l) gs))"

definition ip_String :: "bytes \<Rightarrow> string" where
  "ip_String ip = (case To4 ip of Some b \<Rightarrow> ipv4_String b | None \<Rightarrow> ipv6_String ip)"

section \<open>Parsing and printing IPv4 addresses\<close>

lemma parse4_length: "parse4 s v d fs = Some r \<Longrightarrow> length fs \<le> 3 \<Longrightarrow> length r = 4"
  by (induction s v d fs rule: parse4.induct) (auto split: option.splits if_splits)

lemma parse4_bounds:
  "parse4 s v d fs = Some r \<Longrightarrow> v \<le> 255 \<Longrightarrow> \<forall>x \<in> set fs. x \<le> 255 \<Longrightarrow> \<forall>x \<in> set r. x \<le> 255"
  by (induction s v d fs rule: parse4.induct) (auto split: option.splits if_splits)

lemma parseIPv4_length: "parseIPv4 s = Some b \<Longrightarrow> length b = 4"
  by (auto simp: parseIPv4_def dest: parse4_length)

lemma char_digit_SomeD: "char_digit c = Some d \<Longrightarrow> d < 10 \<and> c = digit_char d"
proof -
  assume "char_digit c = Some d"
  then have "48 \<le> (of_char c :: nat)" "(of_char c :: nat) \<le> 57" "d = of_char c - 48"
    by (auto simp: char_digit_def split: if_splits)
  then show ?thesis by (simp add: digit_char_def)
qed

definition dotted_prefix :: "nat list \<Rightarrow> string" where
  "dotted_prefix fs = concat (map (\<lambda>f. nat_str f @ ''.'') fs)"

lemma nat_str_snoc: "0 < v \<Longrightarrow> d < 10 \<Longrightarrow> nat_str (v * 10 + d) = nat_str v @ [digit_char d]"
  by (subst nat_str.simps) simp

lemma parse4_canonical:
  "parse4 s v d fs = Some r \<Longrightarrow> (d = 0 \<longrightarrow> v = 0 \<and> s \<noteq> []) \<Longrightarrow> (1 < d \<longrightarrow> 0 < v) \<Longrightarrow>
   dotted_prefix fs @ (if d = 0 then [] else nat_str v) @ s =
     dotted_prefix (butlast r) @ nat_str (last r)"
proof (induction s v d fs rule: parse4.induct)
  case (1 v d fs)
  then show ?case by (auto split: if_splits)
next
  case (2 c cs v d fs)
  show ?case
  proof (cases "char_digit c")
    case None
    with 2(3) have dot: "c = CHR ''.''" "d \<noteq> 0" "cs \<noteq> []" "parse4 cs 0 0 (fs @ [v]) = Some r"
      "length fs \<noteq> 3" by (auto split: if_splits)
    from 2(1) [OF None _ _ _ dot(4)] dot show ?thesis by (simp add: dotted_prefix_def)
  next
    case (Some k)
    with 2(3) have g: "\<not> (d = 1 \<and> v = 0)" "\<not> 255 < v * 10 + k" "parse4 cs (v * 10 + k) (d + 1) fs = Some r"
      by (auto split: if_splits)
    have k: "k < 10" "c = digit_char k" using char_digit_SomeD [OF Some] by auto
    have v: "d \<noteq> 0 \<Longrightarrow> 0 < v" using g(1) 2(5) by (cases "d = 1") auto
    have "dotted_prefix fs @ nat_str (v * 10 + k) @ cs = dotted_prefix (butlast r) @ nat_str (last r)"
      using 2(2) [OF Some _ _ g(3)] g v 2(4) by (cases "d = 0") auto
    moreover have "nat_str (v * 10 + k) = (if d = 0 then [] else nat_str v) @ [c]"
      using nat_str_snoc [of v k] k v 2(4) by (cases "d = 0") (simp_all add: nat_str.simps)
    ultimately show ?thesis by simp
  qed
qed

lemma list_length4: "length xs = 4 \<Longrightarrow> \<exists>a b c d. xs = [a, b, c, d]"
  by (auto simp: numeral_eq_Suc length_Suc_conv)

lemma ipv4_String_parse:
  assumes "parseIPv4 s = Some b"
  shows "ipv4_String b = s"
proof -
  obtain r where r: "parse4 s 0 0 [] = Some r" "b = map of_nat r"
    using assms by (auto simp: parseIPv4_def)
  have "length r = 4" using parse4_length [OF r(1)] by simp
  then obtain a1 a2 a3 a4 where r4: "r = [a1, a2, a3, a4]" using list_length4 by blast
  have "\<forall>x \<in> set r. x \<le> 255" using parse4_bounds [OF r(1)] by simp
  then have u: "unat (of_nat x :: byte) = x" if "x \<in> set r" for x
  proof -
    have "x < 256" using that \<open>\<forall>x \<in> set r. x \<le> 255\<close> by fastforce
    then show ?thesis by (simp add: unat_of_nat)
  qed
  have "s \<noteq> []" using r(1) by auto
  with parse4_canonical [OF r(1)] have "s = dotted_prefix (butlast r) @ nat_str (last r)"
    by (simp add: dotted_prefix_def)
  with u r(2) r4 show ?thesis by (simp add: ipv4_String_def dotted_prefix_def)
qed

section \<open>Parsed addresses are 16 bytes long\<close>

lemma parse6_length:
  "parse6 s ip ell = Some (ip', ell') \<Longrightarrow> even (length ip) \<Longrightarrow> length ip \<le> 16 \<Longrightarrow> length ip' \<le> 16"
proof (induction s ip ell arbitrary: ip' ell' rule: parse6.induct)
  case (1 s ip ell)
  show ?case
  proof (cases "16 \<le> length ip")
    case True
    with 1(3,5) show ?thesis by (auto simp: parse6.simps [of s ip ell] split: if_splits)
  next
    case False
    with 1(4) have "length ip + 2 \<le> 16" by presburger
    with 1 False show ?thesis
      by (auto simp: parse6.simps [of s ip ell] Let_def parseIPv4_length
          split: if_splits option.splits list.splits prod.splits)
  qed
qed

lemma expand6_length: "expand6 (ip, ell) = Some r \<Longrightarrow> length ip \<le> 16 \<Longrightarrow> length r = 16"
  by (auto simp: expand6_def Let_def split: option.splits if_splits)

lemma parseIPv6_length:
  assumes "parseIPv6 s = Some (ip, zone)"
  shows "length ip = 16"
proof -
  have "ip = replicate 16 0 \<or> (\<exists>s1 e p. parse6 s1 [] e = Some p \<and> expand6 p = Some ip)"
    using assms unfolding parseIPv6_def Let_def
    by (auto simp del: replicate.simps split: option.splits if_splits prod.splits)
  then show ?thesis
  proof (elim disjE exE conjE)
    fix s1 e p assume p: "parse6 s1 [] e = Some p" "expand6 p = Some ip"
    obtain i l where il: "p = (i, l)" by fastforce
    from parse6_length [of s1 "[]" e i l] p expand6_length [of i l ip] show ?thesis by (simp add: il)
  qed simp
qed

lemma ParseIP_length: "ParseIP s = Some ip \<Longrightarrow> length ip = 16"
  by (auto simp: ParseIP_def ParseAddr_def v4_prefix_def parseIPv4_length parseIPv6_length
      split: option.splits ipaddr.splits if_splits prod.splits)

text \<open>The notation a parsed host is printed in; a host name stays as it is.\<close>

definition canonical_host :: "string \<Rightarrow> string" where
  "canonical_host host = (case ParseIP host of None \<Rightarrow> host | Some ip \<Rightarrow> ip_String ip)"

lemma ip_String_To4: "To4 ip = Some b \<Longrightarrow> length b = 4 \<Longrightarrow> ip_String b = ip_String ip"
  by (simp add: ip_String_def To4_def)

lemma canonical_host_v4:
  assumes "ParseAddr host = Some (IP4 b)"
  shows "canonical_host host = host"
proof -
  have b: "parseIPv4 host = Some b"
    using assms by (auto simp: ParseAddr_def split: option.splits if_splits prod.splits)
  then have "To4 (v4_prefix @ b) = Some b" by (simp add: To4_def v4_prefix_def parseIPv4_length)
  with assms b show ?thesis
    by (simp add: canonical_host_def ParseIP_def ip_String_def ipv4_String_parse)
qed

lemma hex_str_nonempty [simp]: "hex_str n \<noteq> []"
  by (subst hex_str.simps) simp

lemma ip_String_nonempty:
  assumes "length ip = 16"
  shows "ip_String ip \<noteq> []"
proof -
  obtain a b rest where "ip = a # b # rest" using assms by (cases ip; cases "tl ip") auto
  then have "join_groups (groups16 ip) \<noteq> []" by (simp add: join_groups_def)
  then show ?thesis by (auto simp: ip_String_def ipv4_String_def ipv6_String_def Let_def split: option.split)
qed

lemma canonical_host_nonempty:
  assumes "host \<noteq> []"
  shows "canonical_host host \<noteq> []"
proof (cases "ParseIP host")
  case (Some ip)
  with ip_String_nonempty [OF ParseIP_length [OF Some]] show ?thesis by (simp add: canonical_host_def)
qed (use assms in \<open>simp add: canonical_host_def\<close>)

section \<open>Reading from a stream\<close>

datatype io_err = IoEOF | IoUnexpectedEOF

text \<open>\<open>io.ReadFull\<close> on the raw stream, returning what is left of the stream.\<close>

definition ReadFull :: "bytes \<Rightarrow> nat \<Rightarrow> (io_err + bytes) \<times> bytes" where
  "ReadFull src n =
     (if n \<le> length src then (Inr (take n src), drop n src)
      else (Inl (if src = [] then IoEOF else IoUnexpectedEOF), []))"

end
