(* ===== verification/SsFraming.thy ===== *)
theory SsFraming
  imports NetAddr
begin

text \<open>
  The AEAD chunk framing of the Shadowsocks engine
  (\<open>engine/freecore/shadowsocks/framing.go\<close>): nonce counter, chunk reader, chunk writer. The
  cipher is a parameter, a pair of \<open>Seal\<close> and \<open>Open\<close> of \<open>crypto/cipher.AEAD\<close> for one session
  key and no associated data; what the code relies on is \<open>aead_ok\<close>. The underlying reader is
  the list of bytes the peer sent before closing, the underlying writer an arbitrary
  \<open>io.Writer\<close> given by its \<open>Write\<close> function.
\<close>

section \<open>Parameters\<close>

record aead =
  a_Seal :: "bytes \<Rightarrow> bytes \<Rightarrow> bytes"
  a_Open :: "bytes \<Rightarrow> bytes \<Rightarrow> bytes option"

definition nonceSize :: nat where "nonceSize = 12"
definition lengthFieldSize :: nat where "lengthFieldSize = 2"
definition tagSize :: nat where "tagSize = 16"
definition maxPayloadSize :: nat where "maxPayloadSize = 0x3FFF"

text \<open>
  The documented contract of an AEAD with 16-byte overhead: opening what was sealed under the
  same nonce returns the plaintext, and the lengths differ by the tag.
\<close>

definition aead_ok :: "aead \<Rightarrow> bool" where
  "aead_ok a \<longleftrightarrow>
     (\<forall>n p. a_Open a n (a_Seal a n p) = Some p \<and> length (a_Seal a n p) = length p + tagSize) \<and>
     (\<forall>n c p. a_Open a n c = Some p \<longrightarrow> length c = length p + tagSize)"

section \<open>The nonce counter\<close>

fun nextNonce :: "bytes \<Rightarrow> bytes" where
  "nextNonce [] = []"
| "nextNonce (b # bs) = (let b1 = b + 1 in if b1 \<noteq> 0 then b1 # bs else b1 # nextNonce bs)"

definition zeroNonce :: bytes where
  "zeroNonce = replicate nonceSize 0"

section \<open>Input and output\<close>

text \<open>
  An \<open>io.Writer\<close> maps its state and a buffer to the number of bytes written, an error and the
  new state. Slicing past the end of the buffer would panic.
\<close>

type_synonym ('w, 'e) writer = "'w \<Rightarrow> bytes \<Rightarrow> int \<times> 'e option \<times> 'w"

datatype 'e write_err = WriteFailed 'e | ErrShortWrite | WritePanic

function writeAll :: "('w, 'e) writer \<Rightarrow> 'w \<Rightarrow> bytes \<Rightarrow> 'e write_err option \<times> 'w" where
  "writeAll wr w p =
     (if p = [] then (None, w)
      else let (n, err, w1) = wr w p in
           case err of
             Some e \<Rightarrow> (Some (WriteFailed e), w1)
           | None \<Rightarrow>
               if n \<le> 0 then (Some ErrShortWrite, w1)
               else if n > int (length p) then (Some WritePanic, w1)
               else writeAll wr w1 (drop (nat n) p))"
  by pat_completeness auto
termination
  by (relation "measure (\<lambda>(wr, w, p). length p)") auto

declare writeAll.simps [simp del]

section \<open>The chunk reader\<close>

datatype ss_err =
    ErrEOF
  | ErrReadHeader io_err
  | ErrAuthHeader
  | ErrTooLong int
  | ErrReadPayload io_err
  | ErrAuthPayload

text \<open>\<open>errors.Is(err, io.EOF)\<close> looks through the wrapping.\<close>

fun is_EOF :: "ss_err \<Rightarrow> bool" where
  "is_EOF ErrEOF = True"
| "is_EOF (ErrReadHeader e) = (e = IoEOF)"
| "is_EOF (ErrReadPayload e) = (e = IoEOF)"
| "is_EOF _ = False"

record chunk_reader =
  cr_src :: bytes
  cr_aead :: aead
  cr_nonce :: bytes
  cr_payload :: bytes

definition newChunkReader :: "bytes \<Rightarrow> aead \<Rightarrow> chunk_reader" where
  "newChunkReader src a = \<lparr>cr_src = src, cr_aead = a, cr_nonce = zeroNonce, cr_payload = []\<rparr>"

definition pullPayload :: "chunk_reader \<Rightarrow> nat \<Rightarrow> ss_err option \<times> chunk_reader" where
  "pullPayload r len =
     (case ReadFull (cr_src r) (len + tagSize) of
        (Inl e, src) \<Rightarrow> (Some (ErrReadPayload e), r\<lparr>cr_src := src\<rparr>)
      | (Inr buf, src) \<Rightarrow>
          let r1 = r\<lparr>cr_src := src, cr_nonce := nextNonce (cr_nonce r)\<rparr> in
          (case a_Open (cr_aead r) (cr_nonce r) buf of
             None \<Rightarrow> (Some ErrAuthPayload, r1)
           | Some plain \<Rightarrow> (None, r1\<lparr>cr_payload := plain\<rparr>)))"

definition pullChunk :: "chunk_reader \<Rightarrow> ss_err option \<times> chunk_reader" where
  "pullChunk r =
     (case ReadFull (cr_src r) (lengthFieldSize + tagSize) of
        (Inl e, src) \<Rightarrow>
          (Some (if e = IoEOF then ErrEOF else ErrReadHeader e), r\<lparr>cr_src := src\<rparr>)
      | (Inr lenBuf, src) \<Rightarrow>
          let r1 = r\<lparr>cr_src := src, cr_nonce := nextNonce (cr_nonce r)\<rparr> in
          (case a_Open (cr_aead r) (cr_nonce r) lenBuf of
             None \<Rightarrow> (Some ErrAuthHeader, r1)
           | Some plain \<Rightarrow>
               let len = get_uint16 plain in
               if len = 0 then (Some ErrEOF, r1)
               else if len > int maxPayloadSize then (Some (ErrTooLong len), r1)
               else pullPayload r1 (nat len)))"

lemma pullPayload_src: "length (cr_src (snd (pullPayload r n))) \<le> length (cr_src r)"
  by (auto simp: pullPayload_def ReadFull_def Let_def split: option.split)

lemma pullChunk_src:
  assumes "pullChunk r = (None, r1)"
  shows "length (cr_src r1) < length (cr_src r)"
proof -
  have len: "18 \<le> length (cr_src r)"
    using assms by (auto simp: pullChunk_def ReadFull_def lengthFieldSize_def tagSize_def split: if_splits)
  obtain n k where "pullPayload (r\<lparr>cr_src := drop 18 (cr_src r), cr_nonce := n\<rparr>) k = (None, r1)"
    using assms
    by (auto simp: pullChunk_def ReadFull_def Let_def lengthFieldSize_def tagSize_def
        split: if_splits option.splits)
  then have "length (cr_src r1) \<le> length (cr_src r) - 18"
    using pullPayload_src [of "r\<lparr>cr_src := drop 18 (cr_src r), cr_nonce := n\<rparr>" k] by simp
  with len show ?thesis by linarith
qed

text \<open>\<open>Read\<close> into a buffer of \<open>n\<close> bytes.\<close>

function chunkReader_Read :: "chunk_reader \<Rightarrow> nat \<Rightarrow> (ss_err + bytes) \<times> chunk_reader" where
  "chunkReader_Read r n =
     (if n = 0 then (Inr [], r)
      else if cr_payload r \<noteq> []
      then (Inr (take n (cr_payload r)), r\<lparr>cr_payload := drop n (cr_payload r)\<rparr>)
      else case pullChunk r of
             (Some e, r1) \<Rightarrow> (Inl e, r1)
           | (None, r1) \<Rightarrow> chunkReader_Read r1 n)"
  by pat_completeness auto
termination
  by (relation "measure (\<lambda>(r, n). length (cr_src r))") (auto dest: pullChunk_src [OF sym])

declare chunkReader_Read.simps [simp del]

text \<open>
  \<open>io.ReadFull\<close> on the chunk reader. A bare end of stream after some bytes becomes an
  unexpected one; every other error is passed on. A read into a non-empty buffer never
  returns no bytes without an error (\<open>Read_nonempty\<close> below), so that branch is never taken.
\<close>

datatype full_err = FullErr ss_err | FullUnexpectedEOF

function chunk_ReadFull :: "chunk_reader \<Rightarrow> nat \<Rightarrow> bytes \<Rightarrow> (full_err + bytes) \<times> chunk_reader" where
  "chunk_ReadFull r n acc =
     (if n = 0 then (Inr acc, r)
      else case chunkReader_Read r n of
             (Inl e, r1) \<Rightarrow> (Inl (if acc \<noteq> [] \<and> e = ErrEOF then FullUnexpectedEOF else FullErr e), r1)
           | (Inr bs, r1) \<Rightarrow>
               if bs = [] then (Inl FullUnexpectedEOF, r1)
               else chunk_ReadFull r1 (n - length bs) (acc @ bs))"
  by pat_completeness auto
termination
  by (relation "measure (\<lambda>(r, n, acc). n)") auto

declare chunk_ReadFull.simps [simp del]

section \<open>The chunk writer\<close>

record 'w chunk_writer =
  cw_dst :: 'w
  cw_aead :: aead
  cw_nonce :: bytes

definition newChunkWriter :: "'w \<Rightarrow> aead \<Rightarrow> 'w chunk_writer" where
  "newChunkWriter dst a = \<lparr>cw_dst = dst, cw_aead = a, cw_nonce = zeroNonce\<rparr>"

definition writeChunk ::
  "('w, 'e) writer \<Rightarrow> 'w chunk_writer \<Rightarrow> bytes \<Rightarrow> 'e write_err option \<times> 'w chunk_writer" where
  "writeChunk wr w payload =
     (let n0 = cw_nonce w;
          header = a_Seal (cw_aead w) n0 (put_uint16 (int (length payload)));
          n1 = nextNonce n0;
          body = a_Seal (cw_aead w) n1 payload;
          (err, dst) = writeAll wr (cw_dst w) (header @ body)
      in (err, w\<lparr>cw_dst := dst, cw_nonce := nextNonce n1\<rparr>))"

function chunkWriter_loop ::
  "('w, 'e) writer \<Rightarrow> 'w chunk_writer \<Rightarrow> bytes \<Rightarrow> nat \<Rightarrow> nat \<times> 'e write_err option \<times> 'w chunk_writer" where
  "chunkWriter_loop wr w p written =
     (if p = [] then (written, None, w)
      else let size = min (length p) maxPayloadSize;
               (err, w1) = writeChunk wr w (take size p)
           in case err of
                Some e \<Rightarrow> (written, Some e, w1)
              | None \<Rightarrow> chunkWriter_loop wr w1 (drop size p) (written + size))"
  by pat_completeness auto
termination
  by (relation "measure (\<lambda>(wr, w, p, written). length p)") (auto simp: maxPayloadSize_def)

declare chunkWriter_loop.simps [simp del]

definition chunkWriter_Write ::
  "('w, 'e) writer \<Rightarrow> 'w chunk_writer \<Rightarrow> bytes \<Rightarrow> nat \<times> 'e write_err option \<times> 'w chunk_writer" where
  "chunkWriter_Write wr w p = chunkWriter_loop wr w p 0"

section \<open>The nonce counter counts\<close>

fun le_value :: "bytes \<Rightarrow> nat" where
  "le_value [] = 0"
| "le_value (b # bs) = unat b + 256 * le_value bs"

lemma length_nextNonce [simp]: "length (nextNonce n) = length n"
  by (induction n) (auto simp: Let_def)

lemma unat_byte: "unat (b :: byte) < 256"
  using unsigned_less [of b] by simp

lemma le_value_bound: "le_value n < 256 ^ length n"
proof (induction n)
  case (Cons b bs)
  have "unat b < 256" by (rule unat_byte)
  with Cons show ?case by simp
qed simp

lemma unat_add_one: "unat (b + 1 :: byte) = (unat b + 1) mod 256"
  by (simp add: unat_word_ariths)

lemma byte_wrap: "b + 1 = (0 :: byte) \<longleftrightarrow> unat b = 255"
proof -
  have "b + 1 = 0 \<longleftrightarrow> (unat b + 1) mod 256 = 0" using unat_add_one [of b] by (simp add: unat_eq_0 [symmetric])
  also have "\<dots> \<longleftrightarrow> unat b = 255" using unat_byte [of b] by (cases "unat b = 255") auto
  finally show ?thesis .
qed

lemma unat_inc: "b + 1 \<noteq> 0 \<Longrightarrow> unat (b + 1 :: byte) = unat b + 1"
  using unat_byte [of b] byte_wrap [of b] by (simp add: unat_add_one)

lemma le_value_next: "le_value (nextNonce n) = (le_value n + 1) mod 256 ^ length n"
proof (induction n)
  case (Cons b bs)
  show ?case
  proof (cases "b + 1 = 0")
    case True
    have "(le_value (b # bs) + 1) mod 256 ^ length (b # bs) =
        (256 * (le_value bs + 1)) mod (256 * 256 ^ length bs)"
      using iffD1 [OF byte_wrap True] by simp
    also have "\<dots> = 256 * ((le_value bs + 1) mod 256 ^ length bs)" by (rule mult_mod_right [symmetric])
    finally show ?thesis using True Cons by (simp add: Let_def)
  next
    case False
    then have u: "unat (b + 1) = unat b + 1" by (simp add: unat_inc)
    have "le_value ((b + 1) # bs) < 256 ^ length ((b + 1) # bs)" by (rule le_value_bound)
    then have "le_value (b # bs) + 1 < 256 ^ length (b # bs)" using u by simp
    with False u show ?thesis by (simp add: Let_def)
  qed
qed simp

lemma length_nonce_iter: "length ((nextNonce ^^ i) n) = length n"
  by (induction i) simp_all

lemma le_value_iter: "le_value ((nextNonce ^^ i) n) = (le_value n + i) mod 256 ^ length n"
proof (induction i)
  case 0
  then show ?case using le_value_bound [of n] by simp
next
  case (Suc i)
  then show ?case by (simp add: le_value_next length_nonce_iter mod_Suc_eq)
qed

lemma le_value_zero: "le_value (replicate k 0) = 0"
  by (induction k) simp_all

text \<open>
  C38. The nonce is a little-endian counter that starts at zero: all \<open>2\<^sup>9\<^sup>6\<close> nonces one direction
  of a connection can use before the counter wraps are pairwise different.
\<close>

theorem nonces_distinct:
  "inj_on (\<lambda>i. (nextNonce ^^ i) zeroNonce) {..<2 ^ 96}"
proof (rule inj_onI)
  fix i j :: nat assume ij: "i \<in> {..<2 ^ 96}" "j \<in> {..<2 ^ 96}"
    and eq: "(nextNonce ^^ i) zeroNonce = (nextNonce ^^ j) zeroNonce"
  have z: "le_value zeroNonce = 0" "length zeroNonce = 12"
    by (simp_all add: zeroNonce_def nonceSize_def le_value_zero)
  have "i mod 256 ^ 12 = j mod 256 ^ 12"
    using arg_cong [OF eq, of le_value] by (simp only: le_value_iter z add_0)
  with ij show "i = j" by simp
qed

section \<open>Reading back what was written\<close>

text \<open>The wire form of a list of chunks, and the reader states that hold it.\<close>

fun encode_chunks :: "aead \<Rightarrow> bytes \<Rightarrow> bytes list \<Rightarrow> bytes" where
  "encode_chunks a n [] = []"
| "encode_chunks a n (c # cs) =
     a_Seal a n (put_uint16 (int (length c))) @ a_Seal a (nextNonce n) c
       @ encode_chunks a (nextNonce (nextNonce n)) cs"

definition chunk_ok :: "bytes \<Rightarrow> bool" where
  "chunk_ok c \<longleftrightarrow> 0 < length c \<and> length c \<le> maxPayloadSize"

definition holds :: "chunk_reader \<Rightarrow> bytes list \<Rightarrow> bytes \<Rightarrow> bool" where
  "holds r cs rest \<longleftrightarrow> cr_src r = encode_chunks (cr_aead r) (cr_nonce r) cs @ rest \<and> list_all chunk_ok cs"

definition nonce_after :: "bytes \<Rightarrow> 'a list \<Rightarrow> bytes" where
  "nonce_after n cs = (nextNonce ^^ (2 * length cs)) n"

lemma pullChunk_next:
  assumes a: "aead_ok (cr_aead r)" and h: "holds r (c # cs) rest"
  shows "pullChunk r = (None, r\<lparr>cr_src := encode_chunks (cr_aead r) (nextNonce (nextNonce (cr_nonce r))) cs @ rest,
    cr_nonce := nextNonce (nextNonce (cr_nonce r)), cr_payload := c\<rparr>)"
proof -
  let ?a = "cr_aead r" and ?n = "cr_nonce r"
  let ?h = "a_Seal ?a ?n (put_uint16 (int (length c)))"
  let ?b = "a_Seal ?a (nextNonce ?n) c"
  let ?t = "encode_chunks ?a (nextNonce (nextNonce ?n)) cs @ rest"
  have c: "0 < length c" "length c \<le> 16383" using h by (simp_all add: holds_def chunk_ok_def maxPayloadSize_def)
  have seal: "a_Open ?a n (a_Seal ?a n p) = Some p" "length (a_Seal ?a n p) = length p + 16" for n p
    using a by (simp_all add: aead_ok_def tagSize_def)
  have src: "cr_src r = ?h @ ?b @ ?t" using h by (simp add: holds_def)
  have len: "get_uint16 (put_uint16 (int (length c))) = int (length c)"
    using get_put_uint16 [of "int (length c)" "[]"] c by simp
  have "ReadFull (cr_src r) (lengthFieldSize + tagSize) = (Inr ?h, ?b @ ?t)"
    by (simp add: src ReadFull_def lengthFieldSize_def tagSize_def seal)
  moreover have "ReadFull (?b @ ?t) (length c + tagSize) = (Inr ?b, ?t)"
    by (simp add: ReadFull_def tagSize_def seal)
  ultimately show ?thesis
    using c by (simp add: pullChunk_def pullPayload_def Let_def seal len maxPayloadSize_def)
qed

lemma holds_tail:
  "holds r (c # cs) rest \<Longrightarrow>
   holds (r\<lparr>cr_src := encode_chunks (cr_aead r) (nextNonce (nextNonce (cr_nonce r))) cs @ rest,
     cr_nonce := nextNonce (nextNonce (cr_nonce r)), cr_payload := p\<rparr>) cs rest"
  by (simp add: holds_def)

lemma Read_pull:
  assumes "cr_payload r = []" "pullChunk r = (None, r1)" "cr_payload r1 \<noteq> []" "0 < n"
  shows "chunkReader_Read r n = (Inr (take n (cr_payload r1)), r1\<lparr>cr_payload := drop n (cr_payload r1)\<rparr>)"
proof -
  have "chunkReader_Read r n = chunkReader_Read r1 n" using assms by (subst chunkReader_Read.simps) simp
  also have "\<dots> = (Inr (take n (cr_payload r1)), r1\<lparr>cr_payload := drop n (cr_payload r1)\<rparr>)"
    using assms by (subst chunkReader_Read.simps) simp
  finally show ?thesis .
qed

text \<open>One read delivers a non-empty prefix of the pending plaintext.\<close>

lemma Read_delivers:
  assumes a: "aead_ok (cr_aead r)" and h: "holds r cs rest" and n: "0 < n"
    and ne: "cr_payload r \<noteq> [] \<or> cs \<noteq> []"
  shows "\<exists>bs r' cs'. chunkReader_Read r n = (Inr bs, r') \<and> bs \<noteq> [] \<and> length bs \<le> n \<and>
    cr_payload r @ concat cs = bs @ cr_payload r' @ concat cs' \<and> holds r' cs' rest \<and>
    cr_aead r' = cr_aead r \<and> nonce_after (cr_nonce r') cs' = nonce_after (cr_nonce r) cs"
proof (cases "cr_payload r = []")
  case False
  then show ?thesis using n h
    by (intro exI [of _ "take n (cr_payload r)"] exI [of _ "r\<lparr>cr_payload := drop n (cr_payload r)\<rparr>"] exI [of _ cs])
       (simp add: chunkReader_Read.simps holds_def)
next
  case True
  with ne obtain c ds where cs: "cs = c # ds" by (cases cs) auto
  let ?r1 = "r\<lparr>cr_src := encode_chunks (cr_aead r) (nextNonce (nextNonce (cr_nonce r))) ds @ rest,
    cr_nonce := nextNonce (nextNonce (cr_nonce r)), cr_payload := c\<rparr>"
  have c: "c \<noteq> []" using h by (auto simp: cs holds_def chunk_ok_def)
  have read: "chunkReader_Read r n = (Inr (take n c), ?r1\<lparr>cr_payload := drop n c\<rparr>)"
    using Read_pull [OF True pullChunk_next [OF a h [unfolded cs]]] n c by simp
  have "holds (?r1\<lparr>cr_payload := drop n c\<rparr>) ds rest" using h by (simp add: holds_def cs)
  moreover have "nonce_after (nextNonce (nextNonce (cr_nonce r))) ds = nonce_after (cr_nonce r) cs"
    by (simp add: nonce_after_def cs funpow_swap1)
  ultimately show ?thesis using read n c True
    by (intro exI [of _ "take n c"] exI [of _ "?r1\<lparr>cr_payload := drop n c\<rparr>"] exI [of _ ds]) (simp add: cs)
qed

lemma ReadFull_delivers:
  assumes "aead_ok (cr_aead r)" "holds r cs rest" "n \<le> length (cr_payload r @ concat cs)"
  shows "\<exists>r' cs'. chunk_ReadFull r n acc = (Inr (acc @ take n (cr_payload r @ concat cs)), r') \<and>
    drop n (cr_payload r @ concat cs) = cr_payload r' @ concat cs' \<and> holds r' cs' rest \<and>
    cr_aead r' = cr_aead r \<and> nonce_after (cr_nonce r') cs' = nonce_after (cr_nonce r) cs"
  using assms
proof (induction n arbitrary: r cs acc rule: less_induct)
  case (less n)
  show ?case
  proof (cases "n = 0")
    case True
    with less.prems show ?thesis
      by (intro exI [of _ r] exI [of _ cs]) (simp add: chunk_ReadFull.simps)
  next
    case False
    with less.prems(3) have ne: "cr_payload r \<noteq> [] \<or> cs \<noteq> []" by auto
    from Read_delivers [OF less.prems(1,2) _ ne, of n] False obtain bs r1 cs1 where
      R: "chunkReader_Read r n = (Inr bs, r1)" "bs \<noteq> []" "length bs \<le> n"
        "cr_payload r @ concat cs = bs @ cr_payload r1 @ concat cs1" "holds r1 cs1 rest"
        "cr_aead r1 = cr_aead r" "nonce_after (cr_nonce r1) cs1 = nonce_after (cr_nonce r) cs" by auto
    have lt: "n - length bs < n" using R(2) False by simp
    have le: "n - length bs \<le> length (cr_payload r1 @ concat cs1)" using less.prems(3) R(4) by simp
    from less.IH [OF lt _ R(5) le, of "acc @ bs"] R(6) less.prems(1) obtain r2 cs2 where
      F: "chunk_ReadFull r1 (n - length bs) (acc @ bs) =
           (Inr ((acc @ bs) @ take (n - length bs) (cr_payload r1 @ concat cs1)), r2)"
        "drop (n - length bs) (cr_payload r1 @ concat cs1) = cr_payload r2 @ concat cs2" "holds r2 cs2 rest"
        "cr_aead r2 = cr_aead r1" "nonce_after (cr_nonce r2) cs2 = nonce_after (cr_nonce r1) cs1" by auto
    have "chunk_ReadFull r n acc = chunk_ReadFull r1 (n - length bs) (acc @ bs)"
      using R(1,2) False by (subst chunk_ReadFull.simps) simp
    with F R show ?thesis by (intro exI [of _ r2] exI [of _ cs2]) simp
  qed
qed

section \<open>Writing\<close>

text \<open>The documented contract of \<open>io.Writer\<close> as far as the code uses it: without an error, a prefix was written.\<close>

definition writer_ok :: "('w, 'e) writer \<Rightarrow> ('w \<Rightarrow> bytes) \<Rightarrow> bool" where
  "writer_ok wr content \<longleftrightarrow>
     (\<forall>w p n w'. wr w p = (n, None, w') \<longrightarrow>
        0 \<le> n \<and> n \<le> int (length p) \<and> content w' = content w @ take (nat n) p)"

lemma writeAll_content:
  "writer_ok wr content \<Longrightarrow> writeAll wr w p = (None, w') \<Longrightarrow> content w' = content w @ p"
proof (induction wr w p rule: writeAll.induct)
  case (1 wr w p)
  show ?case
  proof (cases "p = []")
    case True
    with 1 show ?thesis by (simp add: writeAll.simps)
  next
    case False
    obtain n err w1 where step: "wr w p = (n, err, w1)" by (cases "wr w p") auto
    with 1(3) False have ok: "err = None" "0 < n" "n \<le> int (length p)"
      "writeAll wr w1 (drop (nat n) p) = (None, w')"
      by (auto simp: writeAll.simps [of wr w p] split: option.splits if_splits)
    have "content w' = content w1 @ drop (nat n) p"
      using 1(1) [OF False refl step [symmetric] refl ok(1)] ok 1(2) by simp
    moreover have "content w1 = content w @ take (nat n) p"
      using 1(2) step ok(1) by (simp add: writer_ok_def)
    ultimately show ?thesis by simp
  qed
qed

lemma encode_append: "encode_chunks a n (cs @ ds) = encode_chunks a n cs @ encode_chunks a (nonce_after n cs) ds"
  by (induction cs arbitrary: n) (simp_all add: nonce_after_def funpow_swap1)

lemma nonce_after_append: "nonce_after n (cs @ ds) = nonce_after (nonce_after n cs) ds"
  by (simp add: nonce_after_def add_mult_distrib2 add.commute [of "2 * length cs"] funpow_add)

lemma chunkWriter_loop_content:
  assumes "writer_ok wr content" "chunkWriter_loop wr w p m = (k, None, w')"
  shows "\<exists>cs. concat cs = p \<and> list_all chunk_ok cs \<and> k = m + length p \<and>
    content (cw_dst w') = content (cw_dst w) @ encode_chunks (cw_aead w) (cw_nonce w) cs \<and>
    cw_nonce w' = nonce_after (cw_nonce w) cs \<and> cw_aead w' = cw_aead w"
  using assms
proof (induction wr w p m rule: chunkWriter_loop.induct)
  case (1 wr w p m)
  show ?case
  proof (cases "p = []")
    case True
    with 1(3) show ?thesis by (intro exI [of _ "[]"]) (simp add: chunkWriter_loop.simps nonce_after_def)
  next
    case False
    let ?size = "min (length p) maxPayloadSize"
    let ?c = "take ?size p"
    obtain err w1 where step: "writeChunk wr w ?c = (err, w1)" by fastforce
    with 1(3) False have ok: "err = None" "chunkWriter_loop wr w1 (drop ?size p) (m + ?size) = (k, None, w')"
      by (auto simp: chunkWriter_loop.simps [of wr w p m] Let_def split: option.splits)
    from 1(1) [OF False refl refl step [symmetric] ok(1) 1(2) ok(2)] obtain cs where
      cs: "concat cs = drop ?size p" "list_all chunk_ok cs" "k = m + ?size + length (drop ?size p)"
        "content (cw_dst w') = content (cw_dst w1) @ encode_chunks (cw_aead w1) (cw_nonce w1) cs"
        "cw_nonce w' = nonce_after (cw_nonce w1) cs" "cw_aead w' = cw_aead w1" by blast
    have w1: "cw_aead w1 = cw_aead w" "cw_nonce w1 = nextNonce (nextNonce (cw_nonce w))"
      using step by (auto simp: writeChunk_def Let_def case_prod_unfold)
    have "content (cw_dst w1) = content (cw_dst w) @ encode_chunks (cw_aead w) (cw_nonce w) [?c]"
      using step ok(1) writeAll_content [OF 1(2)]
      by (auto simp: writeChunk_def Let_def split: prod.splits)
    moreover have "chunk_ok ?c" using False by (simp add: chunk_ok_def maxPayloadSize_def)
    ultimately show ?thesis using cs w1
      by (intro exI [of _ "?c # cs"]) (auto simp: nonce_after_def funpow_swap1)
  qed
qed

text \<open>A caller writing several buffers in a row; \<open>None\<close> when one of the writes failed.\<close>

fun write_list :: "('w, 'e) writer \<Rightarrow> 'w chunk_writer \<Rightarrow> bytes list \<Rightarrow> 'w chunk_writer option" where
  "write_list wr w [] = Some w"
| "write_list wr w (p # ps) =
     (case chunkWriter_Write wr w p of
        (_, None, w') \<Rightarrow> write_list wr w' ps
      | (_, Some _, _) \<Rightarrow> None)"

lemma write_list_content:
  assumes "writer_ok wr content" "write_list wr w ps = Some w'"
  shows "\<exists>cs. concat cs = concat ps \<and> list_all chunk_ok cs \<and>
    content (cw_dst w') = content (cw_dst w) @ encode_chunks (cw_aead w) (cw_nonce w) cs \<and>
    cw_nonce w' = nonce_after (cw_nonce w) cs \<and> cw_aead w' = cw_aead w"
  using assms
proof (induction ps arbitrary: w)
  case Nil
  then show ?case by (intro exI [of _ "[]"]) (simp add: nonce_after_def)
next
  case (Cons p ps)
  obtain k w1 where w1: "chunkWriter_loop wr w p 0 = (k, None, w1)" "write_list wr w1 ps = Some w'"
    using Cons.prems(2) by (auto simp: chunkWriter_Write_def split: prod.splits option.splits)
  from chunkWriter_loop_content [OF Cons.prems(1) w1(1)] obtain cs where
    cs: "concat cs = p" "list_all chunk_ok cs"
      "content (cw_dst w1) = content (cw_dst w) @ encode_chunks (cw_aead w) (cw_nonce w) cs"
      "cw_nonce w1 = nonce_after (cw_nonce w) cs" "cw_aead w1 = cw_aead w" by auto
  from Cons.IH [OF Cons.prems(1) w1(2)] obtain ds where
    ds: "concat ds = concat ps" "list_all chunk_ok ds"
      "content (cw_dst w') = content (cw_dst w1) @ encode_chunks (cw_aead w1) (cw_nonce w1) ds"
      "cw_nonce w' = nonce_after (cw_nonce w1) ds" "cw_aead w' = cw_aead w1" by auto
  show ?case using cs ds
    by (intro exI [of _ "cs @ ds"]) (simp add: encode_append nonce_after_append)
qed

lemma Read_EOF:
  assumes "cr_payload r = []" "cr_src r = []" "0 < n"
  shows "fst (chunkReader_Read r n) = Inl ErrEOF"
  using assms
  by (subst chunkReader_Read.simps) (simp add: pullChunk_def ReadFull_def lengthFieldSize_def tagSize_def)

lemma roundtrip_at_end:
  assumes "cr_payload r @ concat cs = []" "holds r cs []" "0 < n"
  shows "fst (chunkReader_Read r n) = Inl ErrEOF"
proof -
  have "cs = []" using assms(1,2) by (cases cs) (auto simp: holds_def chunk_ok_def)
  then show ?thesis using assms by (intro Read_EOF) (auto simp: holds_def)
qed

section \<open>Properties\<close>

text \<open>
  A concrete cipher and a concrete writer for the witnesses: the tag is the padded nonce, and
  the writer accepts at most five bytes at a time.
\<close>

definition demo_tag :: "bytes \<Rightarrow> bytes" where
  "demo_tag n = take 16 (n @ replicate 16 0)"

definition demo_aead :: aead where
  "demo_aead = \<lparr>a_Seal = (\<lambda>n p. p @ demo_tag n),
     a_Open = (\<lambda>n c. if 16 \<le> length c \<and> drop (length c - 16) c = demo_tag n
                      then Some (take (length c - 16) c) else None)\<rparr>"

definition demo_writer :: "(bytes, unit) writer" where
  "demo_writer w p = (int (min 5 (length p)), None, w @ take 5 p)"

lemma demo_aead_ok: "aead_ok demo_aead"
  by (auto simp: aead_ok_def demo_aead_def demo_tag_def tagSize_def)

lemma demo_writer_ok: "writer_ok demo_writer (\<lambda>w. w)"
  by (auto simp: writer_ok_def demo_writer_def min_def)

text \<open>
  C16. What one side writes is what the other side reads: after any number of writes that
  returned no error, through any conforming writer, reading any number of bytes up to their
  total returns exactly that prefix of the written data, whatever the chunk boundaries, and
  after the last byte the reader reports the end of the stream.
\<close>

theorem framing_roundtrip:
  assumes "aead_ok a" "writer_ok wr content" "content dst = []"
    and "write_list wr (newChunkWriter dst a) ps = Some w" "n \<le> length (concat ps)"
  shows "\<exists>r. chunk_ReadFull (newChunkReader (content (cw_dst w)) a) n [] = (Inr (take n (concat ps)), r) \<and>
    (n = length (concat ps) \<longrightarrow> (\<forall>k > 0. fst (chunkReader_Read r k) = Inl ErrEOF))"
proof -
  from write_list_content [OF assms(2,4)] obtain cs where
    cs: "concat cs = concat ps" "list_all chunk_ok cs" "content (cw_dst w) = encode_chunks a zeroNonce cs"
    using assms(3) by (auto simp: newChunkWriter_def)
  let ?r = "newChunkReader (content (cw_dst w)) a"
  have h: "holds ?r cs []" using cs by (simp add: holds_def newChunkReader_def)
  have "cr_aead ?r = a" "cr_payload ?r = []" by (simp_all add: newChunkReader_def)
  with ReadFull_delivers [OF _ h, of n "[]"] assms(1,5) cs(1) obtain r' cs' where
    r': "chunk_ReadFull ?r n [] = (Inr (take n (concat ps)), r')"
      "drop n (concat ps) = cr_payload r' @ concat cs'" "holds r' cs' []" by auto
  then show ?thesis using roundtrip_at_end [OF _ r'(3)] by auto
qed

lemma demo_written:
  "map_option cw_dst (write_list demo_writer (newChunkWriter [] demo_aead) [[1, 2, 3], [4, 5]]) \<noteq> None"
  by code_simp

theorem framing_roundtrip_witness:
  "\<exists>w r. write_list demo_writer (newChunkWriter [] demo_aead) [[1, 2, 3], [4, 5]] = Some w \<and>
     chunk_ReadFull (newChunkReader (cw_dst w) demo_aead) 4 [] = (Inr [1, 2, 3, 4], r)"
proof -
  from demo_written obtain w where
    w: "write_list demo_writer (newChunkWriter [] demo_aead) [[1, 2, 3], [4, 5]] = Some w" by auto
  from framing_roundtrip [OF demo_aead_ok demo_writer_ok _ w, of 4] show ?thesis
    using w by auto
qed

lemma pullChunk_auth:
  assumes "pullChunk r = (None, r1)" "cr_payload r = []"
  shows "\<exists>c p. a_Open (cr_aead r) (nextNonce (cr_nonce r)) c = Some p \<and> cr_payload r1 = p \<and>
    cr_aead r1 = cr_aead r \<and> length c \<le> maxPayloadSize + tagSize \<and>
    cr_nonce r1 = nextNonce (nextNonce (cr_nonce r))"
  using assms
  by (auto simp: pullChunk_def pullPayload_def ReadFull_def Let_def split: if_splits option.splits)

text \<open>
  No unauthenticated byte reaches the caller, and no read buffers more than one chunk:
  what a read returns is a prefix of a plaintext that \<open>Open\<close> accepted under a nonce of the
  stream, and that plaintext is at most \<open>maxPayloadSize\<close> bytes long.
\<close>

theorem read_authenticated:
  assumes "aead_ok (cr_aead r)" "cr_payload r = []" "0 < n"
    and "chunkReader_Read r n = (Inr bs, r')"
  shows "\<exists>k c p. a_Open (cr_aead r) ((nextNonce ^^ k) (cr_nonce r)) c = Some p \<and>
    bs = take n p \<and> bs \<noteq> [] \<and> length p \<le> maxPayloadSize \<and> cr_payload r' = drop n p"
  using assms
proof (induction r n rule: chunkReader_Read.induct)
  case (1 r n)
  obtain e r1 where p: "pullChunk r = (e, r1)" by fastforce
  with 1(3-5) have e: "e = None" "chunkReader_Read r1 n = (Inr bs, r')"
    by (auto simp: chunkReader_Read.simps [of r n] split: option.splits)
  from pullChunk_auth [OF p [unfolded e(1)] 1(3)] obtain c q where
    q: "a_Open (cr_aead r) (nextNonce (cr_nonce r)) c = Some q" "cr_payload r1 = q" "cr_aead r1 = cr_aead r"
      "length c \<le> maxPayloadSize + tagSize" "cr_nonce r1 = nextNonce (nextNonce (cr_nonce r))" by blast
  show ?case
  proof (cases "q = []")
    case True
    from 1(1) [OF _ _ p [symmetric] e(1) _ _ 1(4) e(2)] 1(2-4) q True obtain k c' p' where
      k: "a_Open (cr_aead r) ((nextNonce ^^ k) (nextNonce (nextNonce (cr_nonce r)))) c' = Some p'"
        "bs = take n p'" "bs \<noteq> []" "length p' \<le> maxPayloadSize" "cr_payload r' = drop n p'" by auto
    then show ?thesis
      by (intro exI [of _ "k + 2"] exI [of _ c'] exI [of _ p']) (simp add: funpow_swap1)
  next
    case False
    have "length q \<le> maxPayloadSize" using 1(2) q(1,4) by (simp add: aead_ok_def)
    moreover have "bs = take n q" "cr_payload r' = drop n q"
      using e(2) 1(4) False q(2) by (auto simp: chunkReader_Read.simps [of r1 n])
    ultimately show ?thesis using q(1) False 1(4)
      by (intro exI [of _ 1] exI [of _ c] exI [of _ q]) simp
  qed
qed

definition demo_reader :: chunk_reader where
  "demo_reader = newChunkReader (encode_chunks demo_aead zeroNonce [[7, 8, 9]]) demo_aead"

lemma demo_read: "fst (chunkReader_Read demo_reader 2) = Inr [7, 8]"
  by code_simp

theorem read_authenticated_witness:
  "\<exists>k c p. a_Open demo_aead ((nextNonce ^^ k) zeroNonce) c = Some p \<and> [7, 8] = take 2 p"
proof -
  obtain r' where "chunkReader_Read demo_reader 2 = (Inr [7, 8], r')" using demo_read by (metis prod.collapse)
  from read_authenticated [OF _ _ _ this] demo_aead_ok show ?thesis
    by (auto simp: demo_reader_def newChunkReader_def)
qed

text \<open>
  The reader is not poisoned by a failure, although its comment says so: when the payload
  piece of a chunk fails to authenticate, the read reports it, and the next read silently
  continues with the following chunk, so the stream is missing a chunk in the middle.
\<close>

theorem reader_resumes_after_auth_failure:
  assumes "aead_ok a" "chunk_ok c" "chunk_ok d" "0 < n"
    and "length bad = length c + tagSize" "a_Open a (nextNonce zeroNonce) bad = None"
    and "src = a_Seal a zeroNonce (put_uint16 (int (length c))) @ bad
               @ encode_chunks a (nextNonce (nextNonce zeroNonce)) (d # ds)"
  shows "\<exists>r1 r2. chunkReader_Read (newChunkReader src a) n = (Inl ErrAuthPayload, r1) \<and>
    chunkReader_Read r1 n = (Inr (take n d), r2)"
proof -
  let ?r = "newChunkReader src a"
  let ?r1 = "?r\<lparr>cr_src := encode_chunks a (nextNonce (nextNonce zeroNonce)) (d # ds),
    cr_nonce := nextNonce (nextNonce zeroNonce)\<rparr>"
  have c: "0 < length c" "length c \<le> 16383" using assms(2) by (simp_all add: chunk_ok_def maxPayloadSize_def)
  have seal: "a_Open a m (a_Seal a m p) = Some p" "length (a_Seal a m p) = length p + 16" for m p
    using assms(1) by (simp_all add: aead_ok_def tagSize_def)
  have len: "get_uint16 (put_uint16 (int (length c))) = int (length c)"
    using get_put_uint16 [of "int (length c)" "[]"] c by simp
  have "pullChunk ?r = (Some ErrAuthPayload, ?r1)"
    using c assms(5,6)
    by (simp add: pullChunk_def pullPayload_def newChunkReader_def assms(7) ReadFull_def Let_def
        lengthFieldSize_def tagSize_def seal len maxPayloadSize_def)
  then have read1: "chunkReader_Read ?r n = (Inl ErrAuthPayload, ?r1)"
    using assms(4) by (subst chunkReader_Read.simps) (simp add: newChunkReader_def)
  let ?p = "\<lambda>n. nextNonce (nextNonce n)"
  have "holds (?r1\<lparr>cr_payload := []\<rparr>) [d] (encode_chunks a (?p (?p zeroNonce)) ds)"
    using assms(3) by (simp add: holds_def newChunkReader_def)
  then have h: "holds ?r1 [d] (encode_chunks a (?p (?p zeroNonce)) ds)" by (simp add: holds_def)
  have "pullChunk ?r1 = (None, ?r1\<lparr>cr_src := encode_chunks a (?p (?p zeroNonce)) ds,
      cr_nonce := ?p (?p zeroNonce), cr_payload := d\<rparr>)"
    using pullChunk_next [OF _ h] assms(1) by (simp add: newChunkReader_def)
  then have "\<exists>r2. chunkReader_Read ?r1 n = (Inr (take n d), r2)"
    using assms(3,4) Read_pull [of ?r1 _ n] by (simp add: newChunkReader_def chunk_ok_def)
  with read1 show ?thesis by blast
qed

theorem reader_resumes_after_auth_failure_witness:
  "\<exists>r1 r2. chunkReader_Read (newChunkReader
       (a_Seal demo_aead zeroNonce (put_uint16 2) @ replicate 18 0
         @ encode_chunks demo_aead (nextNonce (nextNonce zeroNonce)) [[5]]) demo_aead) 4
       = (Inl ErrAuthPayload, r1) \<and> chunkReader_Read r1 4 = (Inr [5], r2)"
  using reader_resumes_after_auth_failure [OF demo_aead_ok, of "[1, 2]" "[5]" 4 "replicate 18 0" _ "[]"]
  by (simp add: chunk_ok_def maxPayloadSize_def tagSize_def demo_aead_def demo_tag_def zeroNonce_def nonceSize_def
      numeral_eq_Suc Let_def)

text \<open>
  A stream cut exactly between the length piece and the payload piece of a chunk ends in
  an error that wraps \<open>io.EOF\<close>: a caller that asks \<open>errors.Is(err, io.EOF)\<close> takes the truncation
  for a clean end of stream, which the reader's comment excludes.
\<close>

theorem truncated_chunk_is_EOF:
  assumes "aead_ok a" "chunk_ok c" "0 < n"
  shows "\<exists>e. fst (chunkReader_Read (newChunkReader (a_Seal a zeroNonce (put_uint16 (int (length c)))) a) n) = Inl e
    \<and> e \<noteq> ErrEOF \<and> is_EOF e"
proof -
  let ?src = "a_Seal a zeroNonce (put_uint16 (int (length c)))"
  have c: "0 < length c" "length c \<le> 16383" using assms(2) by (simp_all add: chunk_ok_def maxPayloadSize_def)
  have seal: "a_Open a m (a_Seal a m p) = Some p" "length (a_Seal a m p) = length p + 16" for m p
    using assms(1) by (simp_all add: aead_ok_def tagSize_def)
  have len: "get_uint16 (put_uint16 (int (length c))) = int (length c)"
    using get_put_uint16 [of "int (length c)" "[]"] c by simp
  have "fst (pullChunk (newChunkReader ?src a)) = Some (ErrReadPayload IoEOF)"
    using c by (simp add: pullChunk_def pullPayload_def newChunkReader_def ReadFull_def Let_def
        lengthFieldSize_def tagSize_def seal len maxPayloadSize_def)
  then have "fst (chunkReader_Read (newChunkReader ?src a) n) = Inl (ErrReadPayload IoEOF)"
    using assms(3) by (subst chunkReader_Read.simps) (auto simp: newChunkReader_def split: prod.splits)
  then show ?thesis by simp
qed

theorem truncated_chunk_is_EOF_witness:
  "\<exists>e. fst (chunkReader_Read (newChunkReader (a_Seal demo_aead zeroNonce (put_uint16 3)) demo_aead) 1) = Inl e
    \<and> e \<noteq> ErrEOF \<and> is_EOF e"
  using truncated_chunk_is_EOF [OF demo_aead_ok, of "[1, 2, 3]" 1] by (simp add: chunk_ok_def maxPayloadSize_def)

end
