(* ===== verification/SsTunnel.thy ===== *)
theory SsTunnel
  imports SsFraming
begin

text \<open>
  Methods, key derivation, target addresses and the two handshakes of the Shadowsocks engine
  (\<open>method.go\<close>, \<open>kdf.go\<close>, \<open>address.go\<close>, \<open>client.go\<close>, \<open>server.go\<close> under
  \<open>engine/freecore/shadowsocks\<close>). The digest, the keyed hash and the cipher constructors are
  parameters; the random salts, the transport and the context state are inputs.
\<close>

section \<open>Methods\<close>

type_synonym ss_method = string

definition MethodAES128GCM :: ss_method where "MethodAES128GCM = ''aes-128-gcm''"
definition MethodAES256GCM :: ss_method where "MethodAES256GCM = ''aes-256-gcm''"
definition MethodChaCha20IETFPoly1305 :: ss_method where
  "MethodChaCha20IETFPoly1305 = ''chacha20-ietf-poly1305''"

lemmas method_defs = MethodAES128GCM_def MethodAES256GCM_def MethodChaCha20IETFPoly1305_def

definition ss_Supported :: "ss_method \<Rightarrow> bool" where
  "ss_Supported m \<longleftrightarrow> m \<in> {MethodAES128GCM, MethodAES256GCM, MethodChaCha20IETFPoly1305}"

definition ParseMethod :: "string \<Rightarrow> ss_method option" where
  "ParseMethod m = (if m \<in> {MethodAES128GCM, MethodAES256GCM, MethodChaCha20IETFPoly1305} then Some m else None)"

definition KeySize :: "ss_method \<Rightarrow> nat" where
  "KeySize m = (if m = MethodAES128GCM then 16
                else if m \<in> {MethodAES256GCM, MethodChaCha20IETFPoly1305} then 32 else 0)"

definition SaltSize :: "ss_method \<Rightarrow> nat" where
  "SaltSize m = (if m = MethodAES128GCM then 16
                 else if m \<in> {MethodAES256GCM, MethodChaCha20IETFPoly1305} then 32 else 0)"

definition TagSize :: "ss_method \<Rightarrow> nat" where
  "TagSize m = (if \<not> ss_Supported m then 0 else tagSize)"

section \<open>Key derivation\<close>

text \<open>The loop of \<open>evpBytesToKey\<close> ends only because the digest is not empty.\<close>

partial_function (option) evp_loop ::
  "(bytes \<Rightarrow> bytes) \<Rightarrow> bytes \<Rightarrow> nat \<Rightarrow> bytes \<Rightarrow> bytes \<Rightarrow> bytes option" where
  "evp_loop md5 password keyLen out prev =
     (if length out < keyLen
      then let prev1 = md5 (prev @ password) in evp_loop md5 password keyLen (out @ prev1) prev1
      else Some (take keyLen out))"

declare evp_loop.simps [code]

definition evpBytesToKey :: "(bytes \<Rightarrow> bytes) \<Rightarrow> bytes \<Rightarrow> nat \<Rightarrow> bytes option" where
  "evpBytesToKey md5 password keyLen = evp_loop md5 password keyLen [] []"

datatype key_err = ErrUnsupportedMethod | ErrEmptyPassword

definition DeriveKey :: "(bytes \<Rightarrow> bytes) \<Rightarrow> ss_method \<Rightarrow> string \<Rightarrow> (key_err + bytes) option" where
  "DeriveKey md5 m password =
     (if \<not> ss_Supported m then Some (Inl ErrUnsupportedMethod)
      else if password = [] then Some (Inl ErrEmptyPassword)
      else map_option Inr (evpBytesToKey md5 (str_bytes password) (KeySize m)))"

partial_function (option) hkdf_loop ::
  "(bytes \<Rightarrow> bytes \<Rightarrow> bytes) \<Rightarrow> bytes \<Rightarrow> bytes \<Rightarrow> nat \<Rightarrow> bytes \<Rightarrow> bytes \<Rightarrow> byte \<Rightarrow> bytes option" where
  "hkdf_loop hmac prk info outLen okm prev counter =
     (if length okm < outLen
      then let prev1 = hmac prk (prev @ info @ [counter])
           in hkdf_loop hmac prk info outLen (okm @ prev1) prev1 (counter + 1)
      else Some (take outLen okm))"

declare hkdf_loop.simps [code]

definition hkdfSHA1 :: "(bytes \<Rightarrow> bytes \<Rightarrow> bytes) \<Rightarrow> bytes \<Rightarrow> bytes \<Rightarrow> bytes \<Rightarrow> nat \<Rightarrow> bytes option" where
  "hkdfSHA1 hmac master salt info outLen =
     (let salt1 = (if salt = [] then replicate 20 0 else salt);
          prk = hmac salt1 master
      in hkdf_loop hmac prk info outLen [] [] 1)"

definition subkeyInfo :: string where "subkeyInfo = ''ss-subkey''"

definition deriveSubkey :: "(bytes \<Rightarrow> bytes \<Rightarrow> bytes) \<Rightarrow> bytes \<Rightarrow> bytes \<Rightarrow> nat \<Rightarrow> bytes option" where
  "deriveSubkey hmac master salt keyLen = hkdfSHA1 hmac master salt (str_bytes subkeyInfo) keyLen"

section \<open>Cipher construction\<close>

record ciphers =
  c_gcm :: "bytes \<Rightarrow> aead option"
  c_chacha :: "bytes \<Rightarrow> aead option"

definition newAEAD :: "ciphers \<Rightarrow> ss_method \<Rightarrow> bytes \<Rightarrow> aead option" where
  "newAEAD cs m key =
     (if m \<in> {MethodAES128GCM, MethodAES256GCM} then c_gcm cs key
      else if m = MethodChaCha20IETFPoly1305 then c_chacha cs key
      else None)"

section \<open>Target addresses\<close>

definition atypIPv4 :: byte where "atypIPv4 = 1"
definition atypDomain :: byte where "atypDomain = 3"
definition atypIPv6 :: byte where "atypIPv6 = 4"
definition maxDomainLength :: nat where "maxDomainLength = 255"

datatype addr_err = ErrPortRange int | ErrEmptyHost | ErrHostTooLong

definition AddrBytes :: "string \<Rightarrow> int \<Rightarrow> addr_err + bytes" where
  "AddrBytes host port =
     (if port < 1 \<or> port > 65535 then Inl (ErrPortRange port)
      else if host = [] then Inl ErrEmptyHost
      else case ParseIP host of
             Some ip \<Rightarrow>
               (case To4 ip of
                  Some v4 \<Rightarrow> Inr (atypIPv4 # v4 @ put_uint16 port)
                | None \<Rightarrow> Inr (atypIPv6 # ip @ put_uint16 port))
           | None \<Rightarrow>
               if length host > maxDomainLength then Inl ErrHostTooLong
               else Inr (atypDomain # of_nat (length host) # str_bytes host @ put_uint16 port))"

datatype target_err =
    TgtReadATYP full_err | TgtReadIPv4 full_err | TgtReadIPv6 full_err
  | TgtReadDomainLen full_err | TgtEmptyDomain | TgtReadDomain full_err
  | TgtReadPort full_err | TgtPortZero | TgtUnknownATYP byte

definition readTargetPort :: "chunk_reader \<Rightarrow> (target_err + int) \<times> chunk_reader" where
  "readTargetPort r =
     (case chunk_ReadFull r 2 [] of
        (Inl e, r1) \<Rightarrow> (Inl (TgtReadPort e), r1)
      | (Inr buf, r1) \<Rightarrow> if get_uint16 buf = 0 then (Inl TgtPortZero, r1) else (Inr (get_uint16 buf), r1))"

definition with_port :: "string \<Rightarrow> chunk_reader \<Rightarrow> (target_err + string) \<times> chunk_reader" where
  "with_port host r =
     (case readTargetPort r of
        (Inl e, r1) \<Rightarrow> (Inl e, r1)
      | (Inr port, r1) \<Rightarrow> (Inr (JoinHostPort host (Itoa port)), r1))"

definition readTarget :: "chunk_reader \<Rightarrow> (target_err + string) \<times> chunk_reader" where
  "readTarget r =
     (case chunk_ReadFull r 1 [] of
        (Inl e, r1) \<Rightarrow> (Inl (TgtReadATYP e), r1)
      | (Inr atyp, r1) \<Rightarrow>
          if hd atyp = atypIPv4
          then (case chunk_ReadFull r1 4 [] of
                  (Inl e, r2) \<Rightarrow> (Inl (TgtReadIPv4 e), r2)
                | (Inr ip, r2) \<Rightarrow> with_port (ip_String ip) r2)
          else if hd atyp = atypIPv6
          then (case chunk_ReadFull r1 16 [] of
                  (Inl e, r2) \<Rightarrow> (Inl (TgtReadIPv6 e), r2)
                | (Inr ip, r2) \<Rightarrow> with_port (ip_String ip) r2)
          else if hd atyp = atypDomain
          then (case chunk_ReadFull r1 1 [] of
                  (Inl e, r2) \<Rightarrow> (Inl (TgtReadDomainLen e), r2)
                | (Inr l, r2) \<Rightarrow>
                    if hd l = 0 then (Inl TgtEmptyDomain, r2)
                    else case chunk_ReadFull r2 (unat (hd l)) [] of
                           (Inl e, r3) \<Rightarrow> (Inl (TgtReadDomain e), r3)
                         | (Inr domain, r3) \<Rightarrow> with_port (bytes_str domain) r3)
          else (Inl (TgtUnknownATYP (hd atyp)), r1))"

section \<open>The client\<close>

record ss_client =
  sc_Host :: string
  sc_Port :: int
  sc_Password :: string
  sc_Method :: ss_method

datatype cfg_err = CfgMethod | CfgPassword | CfgHost | CfgPort int

definition sc_validate :: "ss_client \<Rightarrow> cfg_err option" where
  "sc_validate c =
     (if ParseMethod (sc_Method c) = None then Some CfgMethod
      else if sc_Password c = [] then Some CfgPassword
      else if sc_Host c = [] then Some CfgHost
      else if sc_Port c < 1 \<or> sc_Port c > 65535 then Some (CfgPort (sc_Port c))
      else None)"

text \<open>
  What the environment decides during a dial: whether the context is already done, the
  connection (or that dialling failed), whether the deadline could be set, and the salt.
\<close>

record 'w dial_env =
  de_ctxDone :: bool
  de_conn :: "'w option"
  de_deadline :: bool
  de_salt :: "bytes option"

record 'w tunnel =
  tn_writer :: "'w chunk_writer"
  tn_method :: ss_method
  tn_master :: bytes
  tn_done :: bool

datatype 'e dial_err =
    DialCtx | DialConfig cfg_err | DialTarget | DialPort | DialAddr addr_err | DialKey key_err
  | DialConnect | DialDeadline | DialSalt | DialSendSalt "'e write_err" | DialAEAD
  | DialSendTarget "'e write_err" | DialHang

text \<open>After the transport is connected: salt, subkey, first chunk.\<close>

definition client_hello ::
  "(bytes \<Rightarrow> bytes \<Rightarrow> bytes) \<Rightarrow> ciphers \<Rightarrow> ('w, 'e) writer \<Rightarrow> ss_method \<Rightarrow> bytes \<Rightarrow> bytes \<Rightarrow> bytes \<Rightarrow> 'w \<Rightarrow>
   'e dial_err + 'w tunnel" where
  "client_hello hmac cs wr m master salt target raw =
     (case writeAll wr raw salt of
        (Some e, _) \<Rightarrow> Inl (DialSendSalt e)
      | (None, raw1) \<Rightarrow>
          (case deriveSubkey hmac master salt (KeySize m) of
             None \<Rightarrow> Inl DialHang
           | Some subkey \<Rightarrow>
               (case newAEAD cs m subkey of
                  None \<Rightarrow> Inl DialAEAD
                | Some a \<Rightarrow>
                    (case chunkWriter_Write wr (newChunkWriter raw1 a) target of
                       (_, Some e, _) \<Rightarrow> Inl (DialSendTarget e)
                     | (_, None, w) \<Rightarrow>
                         Inr \<lparr>tn_writer = w, tn_method = m, tn_master = master, tn_done = False\<rparr>))))"

definition DialTCP ::
  "(bytes \<Rightarrow> bytes) \<Rightarrow> (bytes \<Rightarrow> bytes \<Rightarrow> bytes) \<Rightarrow> ciphers \<Rightarrow> ('w, 'e) writer \<Rightarrow> 'w dial_env \<Rightarrow>
   ss_client \<Rightarrow> string \<Rightarrow> 'e dial_err + 'w tunnel" where
  "DialTCP md5 hmac cs wr env c targetAddress =
     (if de_ctxDone env then Inl DialCtx
      else case sc_validate c of Some e \<Rightarrow> Inl (DialConfig e) | None \<Rightarrow>
      case SplitHostPort targetAddress of None \<Rightarrow> Inl DialTarget | Some (host, portStr) \<Rightarrow>
      case Atoi portStr of None \<Rightarrow> Inl DialPort | Some port \<Rightarrow>
      case AddrBytes host port of Inl e \<Rightarrow> Inl (DialAddr e) | Inr target \<Rightarrow>
      case DeriveKey md5 (sc_Method c) (sc_Password c) of
        None \<Rightarrow> Inl DialHang | Some (Inl e) \<Rightarrow> Inl (DialKey e) | Some (Inr master) \<Rightarrow>
      case de_conn env of None \<Rightarrow> Inl DialConnect | Some raw \<Rightarrow>
      if \<not> de_deadline env then Inl DialDeadline else
      case de_salt env of None \<Rightarrow> Inl DialSalt | Some salt \<Rightarrow>
      client_hello hmac cs wr (sc_Method c) master salt target raw)"

text \<open>Tunnel I/O fails fast once the tunnel is marked closed.\<close>

datatype 'e tunnel_err = ErrTunnelClosed | TunnelWrite "'e write_err"

definition markClosed :: "'w tunnel \<Rightarrow> 'w tunnel" where
  "markClosed t = t\<lparr>tn_done := True\<rparr>"

definition tunnel_Write ::
  "('w, 'e) writer \<Rightarrow> 'w tunnel \<Rightarrow> bytes \<Rightarrow> nat \<times> 'e tunnel_err option \<times> 'w tunnel" where
  "tunnel_Write wr t p =
     (if tn_done t then (0, Some ErrTunnelClosed, t)
      else let (n, err, w) = chunkWriter_Write wr (tn_writer t) p
           in (n, map_option TunnelWrite err, t\<lparr>tn_writer := w\<rparr>))"

section \<open>The server\<close>

record ss_server =
  sv_Password :: string
  sv_Method :: ss_method

datatype serve_err =
    ServeMethod | ServeKey key_err | ServeReadSalt io_err | ServeAEAD
  | ServeTarget target_err | ServeRejected string | ServeHang

text \<open>
  \<open>ServeConn\<close> up to the dial of the target: the bytes the client sent, and the target together
  with the reader that carries on with the data phase.
\<close>

definition ServeConn ::
  "(bytes \<Rightarrow> bytes) \<Rightarrow> (bytes \<Rightarrow> bytes \<Rightarrow> bytes) \<Rightarrow> ciphers \<Rightarrow> ss_server \<Rightarrow> (string \<Rightarrow> bool) option \<Rightarrow> bytes \<Rightarrow>
   serve_err + string \<times> chunk_reader" where
  "ServeConn md5 hmac cs sv validator src =
     (if ParseMethod (sv_Method sv) = None then Inl ServeMethod
      else case DeriveKey md5 (sv_Method sv) (sv_Password sv) of
        None \<Rightarrow> Inl ServeHang | Some (Inl e) \<Rightarrow> Inl (ServeKey e) | Some (Inr master) \<Rightarrow>
      case ReadFull src (SaltSize (sv_Method sv)) of
        (Inl e, _) \<Rightarrow> Inl (ServeReadSalt e) | (Inr salt, src1) \<Rightarrow>
      case deriveSubkey hmac master salt (KeySize (sv_Method sv)) of None \<Rightarrow> Inl ServeHang | Some subkey \<Rightarrow>
      case newAEAD cs (sv_Method sv) subkey of None \<Rightarrow> Inl ServeAEAD | Some a \<Rightarrow>
      case readTarget (newChunkReader src1 a) of
        (Inl e, _) \<Rightarrow> Inl (ServeTarget e) | (Inr target, r) \<Rightarrow>
      if (case validator of None \<Rightarrow> False | Some v \<Rightarrow> \<not> v target) then Inl (ServeRejected target)
      else Inr (target, r))"

section \<open>Key derivation against its references\<close>

text \<open>The blocks of \<open>EVP_BytesToKey\<close> and of the expansion step of RFC 5869.\<close>

fun evp_block :: "(bytes \<Rightarrow> bytes) \<Rightarrow> bytes \<Rightarrow> nat \<Rightarrow> bytes" where
  "evp_block md5 password 0 = []"
| "evp_block md5 password (Suc i) = md5 (evp_block md5 password i @ password)"

fun hkdf_T :: "(bytes \<Rightarrow> bytes \<Rightarrow> bytes) \<Rightarrow> bytes \<Rightarrow> bytes \<Rightarrow> nat \<Rightarrow> bytes" where
  "hkdf_T hmac prk info 0 = []"
| "hkdf_T hmac prk info (Suc i) = hmac prk (hkdf_T hmac prk info i @ info @ [of_nat (Suc i)])"

definition blocks_upto :: "(nat \<Rightarrow> bytes) \<Rightarrow> nat \<Rightarrow> bytes" where
  "blocks_upto f n = concat (map f [1..<Suc n])"

lemma blocks_Suc: "blocks_upto f (Suc n) = blocks_upto f n @ f (Suc n)"
  by (simp add: blocks_upto_def)

lemma blocks_length:
  assumes "\<And>i. length (f (Suc i)) = k"
  shows "length (blocks_upto f n) = n * k"
  by (induction n) (simp_all add: blocks_Suc assms, simp add: blocks_upto_def)

lemma blocks_take:
  assumes "\<And>i. length (f (Suc i)) = k" "L \<le> n * k" "n \<le> m"
  shows "take L (blocks_upto f m) = take L (blocks_upto f n)"
  using assms(3)
proof (induction m)
  case (Suc m)
  show ?case
  proof (cases "n = Suc m")
    case False
    with Suc have "take L (blocks_upto f m) = take L (blocks_upto f n)" "n \<le> m" by simp_all
    moreover have "L \<le> m * k" using assms(2) \<open>n \<le> m\<close> by (meson le_trans mult_le_mono1)
    ultimately show ?thesis using blocks_length [of f k m] assms(1) by (simp add: blocks_Suc)
  qed simp
qed simp

lemma evp_loop_blocks:
  assumes h: "\<And>x. length (md5 x) = 16" and "keyLen \<le> n * 16" "k \<le> n"
  shows "evp_loop md5 pw keyLen (blocks_upto (evp_block md5 pw) k) (evp_block md5 pw k) =
    Some (take keyLen (blocks_upto (evp_block md5 pw) n))"
  using assms(2,3)
proof (induction "n - k" arbitrary: k)
  case 0
  then have "k = n" by simp
  moreover have "length (blocks_upto (evp_block md5 pw) n) = n * 16" by (rule blocks_length) (simp add: h)
  ultimately show ?case using 0 by (subst evp_loop.simps) simp
next
  case (Suc d)
  let ?B = "evp_block md5 pw"
  have len: "length (blocks_upto ?B k) = k * 16" by (rule blocks_length) (simp add: h)
  show ?case
  proof (cases "k * 16 < keyLen")
    case True
    have "evp_loop md5 pw keyLen (blocks_upto ?B (Suc k)) (?B (Suc k)) = Some (take keyLen (blocks_upto ?B n))"
      using Suc.hyps(2) Suc.prems by (intro Suc.hyps(1)) simp_all
    with True len show ?thesis by (subst evp_loop.simps) (simp add: blocks_Suc Let_def)
  next
    case False
    have "take keyLen (blocks_upto ?B n) = take keyLen (blocks_upto ?B k)"
      using False Suc.prems by (intro blocks_take [where k = 16]) (simp_all add: h)
    with False len show ?thesis by (subst evp_loop.simps) simp
  qed
qed

lemma hkdf_loop_blocks:
  assumes h: "\<And>x. length (hmac prk x) = 20" and "outLen \<le> n * 20" "k \<le> n"
  shows "hkdf_loop hmac prk info outLen (blocks_upto (hkdf_T hmac prk info) k) (hkdf_T hmac prk info k)
      (of_nat (Suc k)) = Some (take outLen (blocks_upto (hkdf_T hmac prk info) n))"
  using assms(2,3)
proof (induction "n - k" arbitrary: k)
  case 0
  then have "k = n" by simp
  moreover have "length (blocks_upto (hkdf_T hmac prk info) n) = n * 20" by (rule blocks_length) (simp add: h)
  ultimately show ?case using 0 by (subst hkdf_loop.simps) simp
next
  case (Suc d)
  let ?T = "hkdf_T hmac prk info"
  have len: "length (blocks_upto ?T k) = k * 20" by (rule blocks_length) (simp add: h)
  show ?case
  proof (cases "k * 20 < outLen")
    case True
    have "hkdf_loop hmac prk info outLen (blocks_upto ?T (Suc k)) (?T (Suc k)) (of_nat (Suc (Suc k)))
        = Some (take outLen (blocks_upto ?T n))"
      using Suc.hyps(2) Suc.prems by (intro Suc.hyps(1)) simp_all
    with True len show ?thesis
      by (subst hkdf_loop.simps) (simp add: blocks_Suc Let_def add.commute add.left_commute)
  next
    case False
    have "take outLen (blocks_upto ?T n) = take outLen (blocks_upto ?T k)"
      using False Suc.prems by (intro blocks_take [where k = 20]) (simp_all add: h)
    with False len show ?thesis by (subst hkdf_loop.simps) simp
  qed
qed

lemma evp_reference:
  assumes "\<And>x. length (md5 x) = 16"
  shows "evpBytesToKey md5 pw keyLen = Some (take keyLen (blocks_upto (evp_block md5 pw) ((keyLen + 15) div 16)))"
  using evp_loop_blocks [of md5 keyLen "(keyLen + 15) div 16" 0 pw] assms
  by (simp add: evpBytesToKey_def blocks_upto_def)

lemma hkdf_reference:
  assumes "\<And>k x. length (hmac k x) = 20"
  shows "hkdfSHA1 hmac master salt info outLen =
    (let prk = hmac (if salt = [] then replicate 20 0 else salt) master
     in Some (take outLen (blocks_upto (hkdf_T hmac prk info) ((outLen + 19) div 20))))"
proof -
  let ?prk = "hmac (if salt = [] then replicate 20 0 else salt) master"
  have "hkdf_loop hmac ?prk info outLen [] [] 1 =
      Some (take outLen (blocks_upto (hkdf_T hmac ?prk info) ((outLen + 19) div 20)))"
    using hkdf_loop_blocks [of hmac ?prk outLen "(outLen + 19) div 20" 0 info] assms
    by (simp add: blocks_upto_def)
  then show ?thesis by (simp add: hkdfSHA1_def Let_def)
qed

section \<open>The server reads the target the client asked for\<close>

definition pending :: "chunk_reader \<Rightarrow> bytes \<Rightarrow> bytes \<Rightarrow> bool" where
  "pending r p rest \<longleftrightarrow> aead_ok (cr_aead r) \<and> (\<exists>cs. holds r cs rest \<and> cr_payload r @ concat cs = p)"

lemma ReadFull_pending:
  assumes "pending r (bs @ p) rest"
  obtains r' where "chunk_ReadFull r (length bs) [] = (Inr bs, r')" "pending r' p rest"
proof -
  obtain cs where cs: "holds r cs rest" "cr_payload r @ concat cs = bs @ p" "aead_ok (cr_aead r)"
    using assms by (auto simp: pending_def)
  from ReadFull_delivers [OF cs(3,1), of "length bs" "[]"] cs(2) obtain r' cs' where
    "chunk_ReadFull r (length bs) [] = (Inr bs, r')" "p = cr_payload r' @ concat cs'" "holds r' cs' rest"
    "cr_aead r' = cr_aead r" by auto
  then show ?thesis using that cs(3) by (auto simp: pending_def)
qed

lemma with_port_pending:
  assumes "pending r (put_uint16 port @ p) rest" "1 \<le> port" "port \<le> 65535"
  obtains r' where "with_port host r = (Inr (JoinHostPort host (Itoa port)), r')" "pending r' p rest"
proof -
  from ReadFull_pending [OF assms(1)] obtain r' where
    r': "chunk_ReadFull r 2 [] = (Inr (put_uint16 port), r')" "pending r' p rest" by auto
  have "get_uint16 (put_uint16 port) = port" using get_put_uint16 [of port "[]"] assms(2,3) by simp
  with r' assms(2) have "with_port host r = (Inr (JoinHostPort host (Itoa port)), r')"
    by (simp add: with_port_def readTargetPort_def)
  with r'(2) show ?thesis using that by blast
qed

lemma readTarget_AddrBytes:
  assumes enc: "AddrBytes host port = Inr bs" and pend: "pending r (bs @ p) rest"
  obtains r' where "readTarget r = (Inr (JoinHostPort (canonical_host host) (Itoa port)), r')" "pending r' p rest"
proof -
  have port: "1 \<le> port" "port \<le> 65535" and host: "host \<noteq> []"
    using enc by (auto simp: AddrBytes_def split: if_splits)
  have first: "bs = atyp # tl bs \<Longrightarrow> \<exists>r1. chunk_ReadFull r 1 [] = (Inr [atyp], r1) \<and> pending r1 (tl bs @ p) rest" for atyp
    using ReadFull_pending [of r "[atyp]" "tl bs @ p" rest] pend
    by (metis One_nat_def append_Cons append_Nil length_Cons list.size(3))
  show ?thesis
  proof (cases "ParseIP host")
    case (Some ip)
    have ip: "length ip = 16" by (rule ParseIP_length [OF Some])
    show ?thesis
    proof (cases "To4 ip")
      case None
      have bs: "bs = atypIPv6 # ip @ put_uint16 port"
        using enc Some None port host by (auto simp: AddrBytes_def split: if_splits)
      from first [of atypIPv6] bs obtain r1 where
        r1: "chunk_ReadFull r 1 [] = (Inr [atypIPv6], r1)" "pending r1 (ip @ put_uint16 port @ p) rest" by auto
      from ReadFull_pending [OF r1(2)] ip obtain r2 where
        r2: "chunk_ReadFull r1 16 [] = (Inr ip, r2)" "pending r2 (put_uint16 port @ p) rest" by auto
      from with_port_pending [OF r2(2) port, of "ip_String ip"] obtain r3 where
        r3: "with_port (ip_String ip) r2 = (Inr (JoinHostPort (ip_String ip) (Itoa port)), r3)" "pending r3 p rest" .
      have "readTarget r = (Inr (JoinHostPort (canonical_host host) (Itoa port)), r3)"
        using r1 r2 r3 Some by (simp add: readTarget_def canonical_host_def atypIPv4_def atypIPv6_def)
      with r3(2) show ?thesis using that by blast
    next
      case v4: (Some b)
      have b: "length b = 4" using v4 ip by (auto simp: To4_def split: if_splits)
      have bs: "bs = atypIPv4 # b @ put_uint16 port"
        using enc Some v4 port host by (auto simp: AddrBytes_def split: if_splits)
      from first [of atypIPv4] bs obtain r1 where
        r1: "chunk_ReadFull r 1 [] = (Inr [atypIPv4], r1)" "pending r1 (b @ put_uint16 port @ p) rest" by auto
      from ReadFull_pending [OF r1(2)] b obtain r2 where
        r2: "chunk_ReadFull r1 4 [] = (Inr b, r2)" "pending r2 (put_uint16 port @ p) rest" by auto
      from with_port_pending [OF r2(2) port, of "ip_String b"] obtain r3 where
        r3: "with_port (ip_String b) r2 = (Inr (JoinHostPort (ip_String b) (Itoa port)), r3)" "pending r3 p rest" .
      have "readTarget r = (Inr (JoinHostPort (canonical_host host) (Itoa port)), r3)"
        using r1 r2 r3 Some ip_String_To4 [OF v4 b] by (simp add: readTarget_def canonical_host_def)
      with r3(2) show ?thesis using that by blast
    qed
  next
    case None
    let ?l = "of_nat (length host) :: byte"
    have len: "length host \<le> 255" and bs: "bs = atypDomain # ?l # str_bytes host @ put_uint16 port"
      using enc None port host by (auto simp: AddrBytes_def maxDomainLength_def split: if_splits)
    have l: "unat ?l = length host" using len by (simp add: unat_of_nat)
    then have l0: "?l \<noteq> 0" using host by (metis length_0_conv unat_0)
    from first [of atypDomain] bs obtain r1 where
      r1: "chunk_ReadFull r 1 [] = (Inr [atypDomain], r1)"
        "pending r1 ([?l] @ str_bytes host @ put_uint16 port @ p) rest" by auto
    from ReadFull_pending [OF r1(2)] obtain r2 where
      r2: "chunk_ReadFull r1 1 [] = (Inr [?l], r2)" "pending r2 (str_bytes host @ put_uint16 port @ p) rest" by auto
    from ReadFull_pending [OF r2(2)] obtain r3 where
      r3: "chunk_ReadFull r2 (length host) [] = (Inr (str_bytes host), r3)" "pending r3 (put_uint16 port @ p) rest"
      by auto
    from with_port_pending [OF r3(2) port, of host] obtain r4 where
      r4: "with_port host r3 = (Inr (JoinHostPort host (Itoa port)), r4)" "pending r4 p rest" .
    have "readTarget r = (Inr (JoinHostPort (canonical_host host) (Itoa port)), r4)"
      using r1 r2 r3 r4 None l l0
      by (simp add: readTarget_def canonical_host_def atypIPv4_def atypIPv6_def atypDomain_def)
    with r4(2) show ?thesis using that by blast
  qed
qed

section \<open>Properties\<close>

text \<open>
  The derived keys are the ones the specifications define: the master key is the prefix of
  the digest chain of \<open>EVP_BytesToKey\<close>, the session subkey the prefix of the HKDF expansion of
  RFC 5869 over the extracted key, both loops end, and both keys have the length of the
  method's key.
\<close>

theorem kdf_correct:
  assumes "\<And>x. length (md5 x) = 16" "\<And>k x. length (hmac k x) = 20"
    and "ss_Supported m" "password \<noteq> []" "salt \<noteq> []"
  shows "\<exists>master subkey.
    DeriveKey md5 m password = Some (Inr master) \<and> length master = KeySize m \<and>
    master = take (KeySize m) (blocks_upto (evp_block md5 (str_bytes password)) 2) \<and>
    deriveSubkey hmac master salt (KeySize m) = Some subkey \<and> length subkey = KeySize m \<and>
    subkey = take (KeySize m) (blocks_upto (hkdf_T hmac (hmac salt master) (str_bytes ''ss-subkey'')) 2)"
proof -
  let ?B = "evp_block md5 (str_bytes password)"
  define master where "master = take (KeySize m) (blocks_upto ?B 2)"
  let ?T = "hkdf_T hmac (hmac salt master) (str_bytes ''ss-subkey'')"
  have k: "KeySize m \<in> {16, 32}" using assms(3) by (auto simp: KeySize_def ss_Supported_def)
  have lenB: "length (blocks_upto ?B n) = n * 16" for n by (rule blocks_length) (simp add: assms(1))
  have lenT: "length (blocks_upto ?T n) = n * 20" for n by (rule blocks_length) (simp add: assms(2))
  have "take (KeySize m) (blocks_upto ?B ((KeySize m + 15) div 16)) = master"
    unfolding master_def using k blocks_take [of ?B 16 "KeySize m" "(KeySize m + 15) div 16" 2] assms(1) by auto
  then have M: "DeriveKey md5 m password = Some (Inr master)"
    using assms evp_reference [of md5 "str_bytes password" "KeySize m"] by (simp add: DeriveKey_def)
  have "take (KeySize m) (blocks_upto ?T ((KeySize m + 19) div 20)) = take (KeySize m) (blocks_upto ?T 2)"
    using k blocks_take [of ?T 20 "KeySize m" "(KeySize m + 19) div 20" 2] assms(2) by auto
  then have S: "deriveSubkey hmac master salt (KeySize m) = Some (take (KeySize m) (blocks_upto ?T 2))"
    using assms(5) hkdf_reference [of hmac master salt "str_bytes ''ss-subkey''" "KeySize m"] assms(2)
    by (simp add: deriveSubkey_def subkeyInfo_def Let_def)
  from M S k lenB [of 2] lenT [of 2] show ?thesis
    by (intro exI [of _ master] exI [of _ "take (KeySize m) (blocks_upto ?T 2)"]) (auto simp: master_def)
qed

definition demo_md5 :: "bytes \<Rightarrow> bytes" where
  "demo_md5 x = replicate 15 0 @ [of_nat (length x)]"

definition demo_hmac :: "bytes \<Rightarrow> bytes \<Rightarrow> bytes" where
  "demo_hmac k x = replicate 19 0 @ [of_nat (length k + length x)]"

definition demo_ciphers :: ciphers where
  "demo_ciphers = \<lparr>c_gcm = (\<lambda>_. Some demo_aead), c_chacha = (\<lambda>_. Some demo_aead)\<rparr>"

theorem kdf_correct_witness:
  "\<exists>master. DeriveKey demo_md5 ''aes-256-gcm'' ''secret'' = Some (Inr master) \<and> length master = 32"
  using kdf_correct [of demo_md5 demo_hmac "''aes-256-gcm''" "''secret''" "[1]"]
  by (auto simp: demo_md5_def demo_hmac_def ss_Supported_def method_defs KeySize_def)

lemma DialTCP_Inr:
  assumes "DialTCP md5 hmac cs wr env c target = Inr t"
  obtains host portStr port addr master raw salt where
    "ParseMethod (sc_Method c) \<noteq> None" "SplitHostPort target = Some (host, portStr)"
    "Atoi portStr = Some port" "AddrBytes host port = Inr addr"
    "DeriveKey md5 (sc_Method c) (sc_Password c) = Some (Inr master)"
    "de_conn env = Some raw" "de_salt env = Some salt"
    "client_hello hmac cs wr (sc_Method c) master salt addr raw = Inr t"
  using assms unfolding DialTCP_def
  by (auto simp: sc_validate_def split: if_splits option.splits sum.splits prod.splits)

lemma client_hello_wire:
  assumes wr: "writer_ok wr content" and raw: "content raw = []"
    and t: "client_hello hmac cs wr m master salt addr raw = Inr t"
  shows "\<exists>subkey a ds. deriveSubkey hmac master salt (KeySize m) = Some subkey \<and> newAEAD cs m subkey = Some a \<and>
    concat ds = addr \<and> list_all chunk_ok ds \<and> cw_aead (tn_writer t) = a \<and>
    cw_nonce (tn_writer t) = nonce_after zeroNonce ds \<and>
    content (cw_dst (tn_writer t)) = salt @ encode_chunks a zeroNonce ds"
proof -
  obtain raw1 where w: "writeAll wr raw salt = (None, raw1)"
    using t unfolding client_hello_def by (cases "writeAll wr raw salt") (auto split: option.splits)
  obtain subkey where k: "deriveSubkey hmac master salt (KeySize m) = Some subkey"
    using t w unfolding client_hello_def by (auto split: option.splits)
  obtain a where a: "newAEAD cs m subkey = Some a"
    using t w k unfolding client_hello_def by (auto split: option.splits)
  obtain n w' where W: "chunkWriter_loop wr (newChunkWriter raw1 a) addr 0 = (n, None, w')" "tn_writer t = w'"
    using t w k a unfolding client_hello_def chunkWriter_Write_def by (auto split: option.splits prod.splits)
  have "content raw1 = salt" using writeAll_content [OF wr w] raw by simp
  with chunkWriter_loop_content [OF wr W(1)] k a W(2) show ?thesis
    by (auto simp: newChunkWriter_def)
qed

definition ciphers_ok :: "ciphers \<Rightarrow> bool" where
  "ciphers_ok cs \<longleftrightarrow> (\<forall>key a. c_gcm cs key = Some a \<or> c_chacha cs key = Some a \<longrightarrow> aead_ok a)"

lemma newAEAD_ok: "ciphers_ok cs \<Longrightarrow> newAEAD cs m key = Some a \<Longrightarrow> aead_ok a"
  by (auto simp: ciphers_ok_def newAEAD_def split: if_splits)

text \<open>
  C13. Client and server agree on the target and on every byte after it: whenever a dial
  succeeds and the client then writes any data without error, a server with the same password
  and method parses exactly the requested host (in canonical notation if it is an IP address)
  and port out of what was sent, and then reads exactly the client's data.
\<close>

theorem handshake_roundtrip:
  assumes "ciphers_ok cs" "writer_ok wr content"
    and "de_conn env = Some raw" "content raw = []"
    and "de_salt env = Some salt" "length salt = SaltSize (sc_Method c)"
    and "DialTCP md5 hmac cs wr env c target = Inr t"
    and "SplitHostPort target = Some (host, portStr)" "Atoi portStr = Some port"
    and "write_list wr (tn_writer t) ps = Some w"
  shows "\<exists>r. ServeConn md5 hmac cs \<lparr>sv_Password = sc_Password c, sv_Method = sc_Method c\<rparr> None
      (content (cw_dst w)) = Inr (JoinHostPort (canonical_host host) (Itoa port), r) \<and>
    fst (chunk_ReadFull r (length (concat ps)) []) = Inr (concat ps)"
proof -
  from DialTCP_Inr [OF assms(7)] assms(3,5,8,9) obtain addr master where
    d: "ParseMethod (sc_Method c) \<noteq> None" "AddrBytes host port = Inr addr"
      "DeriveKey md5 (sc_Method c) (sc_Password c) = Some (Inr master)"
      "client_hello hmac cs wr (sc_Method c) master salt addr raw = Inr t" by (metis option.inject prod.inject)
  from client_hello_wire [OF assms(2,4) d(4)] obtain subkey a ds where
    h: "deriveSubkey hmac master salt (KeySize (sc_Method c)) = Some subkey"
      "newAEAD cs (sc_Method c) subkey = Some a" "concat ds = addr" "list_all chunk_ok ds"
      "cw_aead (tn_writer t) = a" "cw_nonce (tn_writer t) = nonce_after zeroNonce ds"
      "content (cw_dst (tn_writer t)) = salt @ encode_chunks a zeroNonce ds" by blast
  from write_list_content [OF assms(2,10)] h obtain es where
    e: "concat es = concat ps" "list_all chunk_ok es"
      "content (cw_dst w) = salt @ encode_chunks a zeroNonce (ds @ es)" by (auto simp: encode_append)
  have a: "aead_ok a" by (rule newAEAD_ok [OF assms(1) h(2)])
  let ?src = "encode_chunks a zeroNonce (ds @ es)"
  have "holds (newChunkReader ?src a) (ds @ es) []" using h(4) e(2) by (simp add: holds_def newChunkReader_def)
  then have "pending (newChunkReader ?src a) (addr @ concat ps) []"
    using a h(3) e(1) unfolding pending_def by (auto simp: newChunkReader_def)
  from readTarget_AddrBytes [OF d(2) this] obtain r where
    r: "readTarget (newChunkReader ?src a) = (Inr (JoinHostPort (canonical_host host) (Itoa port)), r)"
      "pending r (concat ps @ []) []" by auto
  have "ReadFull (content (cw_dst w)) (SaltSize (sc_Method c)) = (Inr salt, ?src)"
    using e(3) assms(6) by (simp add: ReadFull_def)
  with d h r(1) have "ServeConn md5 hmac cs \<lparr>sv_Password = sc_Password c, sv_Method = sc_Method c\<rparr> None
      (content (cw_dst w)) = Inr (JoinHostPort (canonical_host host) (Itoa port), r)"
    by (auto simp: ServeConn_def)
  moreover from ReadFull_pending [OF r(2)] have "fst (chunk_ReadFull r (length (concat ps)) []) = Inr (concat ps)"
    by (metis fst_conv)
  ultimately show ?thesis by blast
qed

definition demo_client :: ss_client where
  "demo_client = \<lparr>sc_Host = ''proxy.example'', sc_Port = 8388, sc_Password = ''secret'',
     sc_Method = ''aes-128-gcm''\<rparr>"

definition demo_env :: "bytes dial_env" where
  "demo_env = \<lparr>de_ctxDone = False, de_conn = Some [], de_deadline = True, de_salt = Some (replicate 16 9)\<rparr>"

definition demo_tunnel :: "unit dial_err + bytes tunnel" where
  "demo_tunnel = DialTCP demo_md5 demo_hmac demo_ciphers demo_writer demo_env demo_client ''1.2.3.4:443''"

lemma demo_dial:
  "(case demo_tunnel of Inl _ \<Rightarrow> False | Inr t \<Rightarrow> write_list demo_writer (tn_writer t) [[1, 2], [3]] \<noteq> None)"
  "SplitHostPort ''1.2.3.4:443'' = Some (''1.2.3.4'', ''443'')" "Atoi ''443'' = Some 443"
  "canonical_host ''1.2.3.4'' = ''1.2.3.4''" "JoinHostPort ''1.2.3.4'' (Itoa 443) = ''1.2.3.4:443''"
  by code_simp+

theorem handshake_roundtrip_witness:
  "\<exists>t w r. demo_tunnel = Inr t \<and> write_list demo_writer (tn_writer t) [[1, 2], [3]] = Some w \<and>
    ServeConn demo_md5 demo_hmac demo_ciphers \<lparr>sv_Password = ''secret'', sv_Method = ''aes-128-gcm''\<rparr> None
      (cw_dst w) = Inr (''1.2.3.4:443'', r) \<and> fst (chunk_ReadFull r 3 []) = Inr [1, 2, 3]"
proof -
  from demo_dial(1) obtain t w where
    t: "demo_tunnel = Inr t" "write_list demo_writer (tn_writer t) [[1, 2], [3]] = Some w"
    by (auto split: sum.splits)
  have "ciphers_ok demo_ciphers" by (auto simp: ciphers_ok_def demo_ciphers_def demo_aead_ok)
  note hs = handshake_roundtrip [OF this demo_writer_ok, of demo_env "[]" "replicate 16 9" demo_client demo_md5
      demo_hmac "''1.2.3.4:443''" t "''1.2.3.4''" "''443''" 443 "[[1, 2], [3]]" w]
  have "\<exists>r. ServeConn demo_md5 demo_hmac demo_ciphers \<lparr>sv_Password = sc_Password demo_client,
      sv_Method = sc_Method demo_client\<rparr> None (cw_dst w)
      = Inr (JoinHostPort (canonical_host ''1.2.3.4'') (Itoa 443), r) \<and>
      fst (chunk_ReadFull r (length (concat [[1, 2], [3::byte]])) []) = Inr (concat [[1, 2], [3]])"
    by (rule hs) (use t demo_dial in \<open>simp_all add: demo_tunnel_def demo_env_def demo_client_def SaltSize_def
        method_defs del: write_list.simps\<close>)
  moreover have "length (concat [[1, 2], [3::byte]]) = 3" "concat [[1, 2], [3::byte]] = [1, 2, 3]" by simp_all
  ultimately show ?thesis using t unfolding demo_dial(4,5)
    by (auto simp only: demo_client_def ss_client.simps)
qed

end
