(* ===== verification/Socks5.thy ===== *)
theory Socks5
  imports NetAddr
begin

text \<open>
  The SOCKS5 client (\<open>engine/socks5/socks5.go\<close>) and the SOCKS5 inbound of the first-party
  engine (\<open>engine/freecore/inbound_socks5.go\<close>). A connection is the bytes the peer sends
  before it closes, the bytes written so far, how many more writes succeed, and the deadline.
\<close>

record conn =
  cn_in :: bytes
  cn_out :: bytes
  cn_writes :: nat
  cn_deadline :: "instant option"

definition conn_read :: "conn \<Rightarrow> nat \<Rightarrow> (io_err + bytes) \<times> conn" where
  "conn_read c n = (let (res, rest) = ReadFull (cn_in c) n in (res, c\<lparr>cn_in := rest\<rparr>))"

definition conn_write :: "conn \<Rightarrow> bytes \<Rightarrow> bool \<times> conn" where
  "conn_write c p =
     (if cn_writes c = 0 then (False, c)
      else (True, c\<lparr>cn_out := cn_out c @ p, cn_writes := cn_writes c - 1\<rparr>))"

section \<open>The client\<close>

datatype socks_err =
    SendGreeting | ReadGreeting io_err | NotSocks5 byte | AuthRequired | NoMethod | BadMethod byte
  | CredentialsTooLong | SendCredentials | ReadAuth io_err | BadAuthVersion byte | ErrAuthFailed byte
  | HostTooLong | SendConnect
  | ReadReply io_err | BadReplyVersion byte | ErrConnectRefused byte | ReadDomainLen io_err
  | ErrUnsupportedAtyp byte | ReadTail io_err
  | BadTarget | BadPort | DialProxy

definition authenticate :: "conn \<Rightarrow> string \<Rightarrow> string \<Rightarrow> socks_err option \<times> conn" where
  "authenticate c username password =
     (if length username > 255 \<or> length password > 255 then (Some CredentialsTooLong, c)
      else
        let req = [1, of_nat (length username)] @ str_bytes username
                  @ [of_nat (length password)] @ str_bytes password;
            (ok, c1) = conn_write c req
        in if \<not> ok then (Some SendCredentials, c1)
           else case conn_read c1 2 of
                  (Inl e, c2) \<Rightarrow> (Some (ReadAuth e), c2)
                | (Inr reply, c2) \<Rightarrow>
                    if reply ! 0 \<noteq> 1 then (Some (BadAuthVersion (reply ! 0)), c2)
                    else if reply ! 1 \<noteq> 0 then (Some (ErrAuthFailed (reply ! 1)), c2)
                    else (None, c2))"

definition skip_reply :: "conn \<Rightarrow> nat \<Rightarrow> socks_err option \<times> conn" where
  "skip_reply c n =
     (case conn_read c n of (Inl e, c1) \<Rightarrow> (Some (ReadTail e), c1) | (Inr _, c1) \<Rightarrow> (None, c1))"

definition readConnectReply :: "conn \<Rightarrow> socks_err option \<times> conn" where
  "readConnectReply c =
     (case conn_read c 4 of
        (Inl e, c1) \<Rightarrow> (Some (ReadReply e), c1)
      | (Inr h, c1) \<Rightarrow>
          if h ! 0 \<noteq> 5 then (Some (BadReplyVersion (h ! 0)), c1)
          else if h ! 1 \<noteq> 0 then (Some (ErrConnectRefused (h ! 1)), c1)
          else if h ! 3 = 1 then skip_reply c1 6
          else if h ! 3 = 3
          then (case conn_read c1 1 of
                  (Inl e, c2) \<Rightarrow> (Some (ReadDomainLen e), c2)
                | (Inr l, c2) \<Rightarrow> skip_reply c2 (unat (hd l) + 2))
          else if h ! 3 = 4 then skip_reply c1 18
          else (Some (ErrUnsupportedAtyp (h ! 3)), c1))"

text \<open>The address part of a request or reply; \<open>None\<close> when a host name does not fit.\<close>

definition socks_addr :: "string \<Rightarrow> bytes option" where
  "socks_addr host =
     (case ParseIP host of
        None \<Rightarrow> if length host > 255 then None
                else Some (3 # of_nat (length host) # str_bytes host)
      | Some ip \<Rightarrow> (case To4 ip of Some v4 \<Rightarrow> Some (1 # v4) | None \<Rightarrow> Some (4 # ip)))"

definition send_connect :: "conn \<Rightarrow> string \<Rightarrow> int \<Rightarrow> socks_err option \<times> conn" where
  "send_connect c host port =
     (case socks_addr host of
        None \<Rightarrow> (Some HostTooLong, c)
      | Some addr \<Rightarrow>
          let (ok, c1) = conn_write c ([5, 1, 0] @ addr @ put_uint16 port)
          in if \<not> ok then (Some SendConnect, c1) else readConnectReply c1)"

definition greeting :: "string \<Rightarrow> string \<Rightarrow> bytes" where
  "greeting username password = (if username \<noteq> [] \<or> password \<noteq> [] then [5, 2, 0, 2] else [5, 1, 0])"

definition handshake :: "conn \<Rightarrow> string \<Rightarrow> int \<Rightarrow> string \<Rightarrow> string \<Rightarrow> socks_err option \<times> conn" where
  "handshake c host port username password =
     (let hasAuth = (username \<noteq> [] \<or> password \<noteq> []);
          (ok, c1) = conn_write c (greeting username password)
      in if \<not> ok then (Some SendGreeting, c1)
         else case conn_read c1 2 of
                (Inl e, c2) \<Rightarrow> (Some (ReadGreeting e), c2)
              | (Inr reply, c2) \<Rightarrow>
                  if reply ! 0 \<noteq> 5 then (Some (NotSocks5 (reply ! 0)), c2)
                  else if reply ! 1 = 0 then send_connect c2 host port
                  else if reply ! 1 = 2
                  then (if \<not> hasAuth then (Some AuthRequired, c2)
                        else case authenticate c2 username password of
                               (Some e, c3) \<Rightarrow> (Some e, c3)
                             | (None, c3) \<Rightarrow> send_connect c3 host port)
                  else if reply ! 1 = 0xFF then (Some NoMethod, c2)
                  else (Some (BadMethod (reply ! 1)), c2))"

record socks_dialer =
  sd_Timeout :: duration
  sd_Username :: string
  sd_Password :: string

text \<open>
  \<open>Dial\<close>: the connection to the proxy, or that dialling it failed, and the deadline of the
  caller's context are inputs. On success the connection keeps the dial deadline.
\<close>

definition socks_Dial ::
  "socks_dialer \<Rightarrow> instant \<Rightarrow> instant option \<Rightarrow> conn option \<Rightarrow> string \<Rightarrow> socks_err + conn" where
  "socks_Dial d now ctxDeadline proxy addr =
     (case SplitHostPort addr of
        None \<Rightarrow> Inl BadTarget
      | Some (host, portStr) \<Rightarrow>
          (case Atoi portStr of
             None \<Rightarrow> Inl BadPort
           | Some port \<Rightarrow>
               if port \<le> 0 \<or> port > 65535 then Inl BadPort
               else
                 let timeout = (if sd_Timeout d \<le> 0 then 15 * second else sd_Timeout d);
                     deadline = (case ctxDeadline of None \<Rightarrow> now + timeout | Some t \<Rightarrow> min t (now + timeout))
                 in case proxy of
                      None \<Rightarrow> Inl DialProxy
                    | Some c \<Rightarrow>
                        (case handshake c host port (sd_Username d) (sd_Password d) of
                           (Some e, _) \<Rightarrow> Inl e
                         | (None, c1) \<Rightarrow> Inr (c1\<lparr>cn_deadline := Some deadline\<rparr>))))"

section \<open>The inbound\<close>

text \<open>\<open>greet\<close> first sets the handshake deadline, which may fail.\<close>

definition greet :: "bool \<Rightarrow> instant \<Rightarrow> conn \<Rightarrow> bool \<times> conn" where
  "greet deadlineOk deadline c0 =
     (if \<not> deadlineOk then (False, c0) else
      let c = c0\<lparr>cn_deadline := Some deadline\<rparr> in
      case conn_read c 2 of
        (Inl _, c1) \<Rightarrow> (False, c1)
      | (Inr h, c1) \<Rightarrow>
          if h ! 0 \<noteq> 5 then (False, c1)
          else if unat (h ! 1) = 0 then (False, c1)
          else case conn_read c1 (unat (h ! 1)) of
                 (Inl _, c2) \<Rightarrow> (False, c2)
               | (Inr methods, c2) \<Rightarrow>
                   if 0 \<in> set methods then (True, snd (conn_write c2 [5, 0]))
                   else (False, snd (conn_write c2 [5, 0xFF])))"

definition socks_reply :: "conn \<Rightarrow> byte \<Rightarrow> conn" where
  "socks_reply c code = snd (conn_write c [5, code, 0, 1, 0, 0, 0, 0, 0, 0])"

definition finish_connect :: "conn \<Rightarrow> byte \<Rightarrow> string \<Rightarrow> string option \<times> conn" where
  "finish_connect c cmd host =
     (case conn_read c 2 of
        (Inl _, c1) \<Rightarrow> (None, c1)
      | (Inr pb, c1) \<Rightarrow>
          if cmd \<noteq> 1 then (None, socks_reply c1 7)
          else if get_uint16 pb \<le> 0 \<or> host = [] then (None, socks_reply c1 1)
          else (Some (JoinHostPort host (Itoa (get_uint16 pb))), c1))"

definition readConnect :: "conn \<Rightarrow> string option \<times> conn" where
  "readConnect c =
     (case conn_read c 4 of
        (Inl _, c1) \<Rightarrow> (None, c1)
      | (Inr h, c1) \<Rightarrow>
          if h ! 0 \<noteq> 5 \<or> h ! 2 \<noteq> 0 then (None, c1)
          else if h ! 3 = 1
          then (case conn_read c1 4 of
                  (Inl _, c2) \<Rightarrow> (None, c2)
                | (Inr addr, c2) \<Rightarrow> finish_connect c2 (h ! 1) (ip_String addr))
          else if h ! 3 = 3
          then (case conn_read c1 1 of
                  (Inl _, c2) \<Rightarrow> (None, c2)
                | (Inr l, c2) \<Rightarrow>
                    (case conn_read c2 (unat (hd l)) of
                       (Inl _, c3) \<Rightarrow> (None, c3)
                     | (Inr name, c3) \<Rightarrow> finish_connect c3 (h ! 1) (bytes_str name)))
          else if h ! 3 = 4
          then (case conn_read c1 16 of
                  (Inl _, c2) \<Rightarrow> (None, c2)
                | (Inr addr, c2) \<Rightarrow> finish_connect c2 (h ! 1) (ip_String addr))
          else (None, socks_reply c1 8))"

text \<open>\<open>SplitHostPort\<close> and \<open>Atoi\<close> yield empty and zero when they fail; a long host name wraps its length byte.\<close>

definition socksSuccessReply :: "string \<Rightarrow> bytes" where
  "socksSuccessReply local =
     (let host = (case SplitHostPort local of None \<Rightarrow> [] | Some (h, _) \<Rightarrow> h);
          port = (case SplitHostPort local of None \<Rightarrow> 0 | Some (_, p) \<Rightarrow>
                    (case Atoi p of None \<Rightarrow> 0 | Some n \<Rightarrow> n));
          addr = (case ParseIP host of
                    None \<Rightarrow> 3 # of_nat (length host) # str_bytes host
                  | Some ip \<Rightarrow> (case To4 ip of Some v4 \<Rightarrow> 1 # v4 | None \<Rightarrow> 4 # ip))
      in [5, 0, 0] @ addr @ put_uint16 port)"

text \<open>\<open>Serve\<close>: the engine's pipe either refuses the target or reports the upstream's local address.\<close>

definition socks_Serve ::
  "bool \<Rightarrow> instant \<Rightarrow> conn \<Rightarrow> (string \<Rightarrow> string option) \<Rightarrow> string option \<times> conn" where
  "socks_Serve deadlineOk deadline c pipe =
     (case greet deadlineOk deadline c of
        (False, c1) \<Rightarrow> (None, c1)
      | (True, c1) \<Rightarrow>
          (case readConnect c1 of
             (None, c2) \<Rightarrow> (None, c2)
           | (Some target, c2) \<Rightarrow>
               (case pipe target of
                  None \<Rightarrow> (None, socks_reply c2 1)
                | Some local \<Rightarrow> (Some target, snd (conn_write c2 (socksSuccessReply local))))))"

section \<open>Reading and writing\<close>

lemma conn_read_prefix:
  "cn_in c = bs @ rest \<Longrightarrow> length bs = n \<Longrightarrow> conn_read c n = (Inr bs, c\<lparr>cn_in := rest\<rparr>)"
  by (simp add: conn_read_def ReadFull_def)

lemma conn_read_frame:
  "conn_read c n = (r, c') \<Longrightarrow> cn_out c' = cn_out c \<and> cn_deadline c' = cn_deadline c"
  by (auto simp: conn_read_def Let_def split: prod.splits)

lemma skip_reply_frame:
  "skip_reply c n = (r, c') \<Longrightarrow> cn_out c' = cn_out c"
  by (auto simp: skip_reply_def dest!: conn_read_frame split: prod.splits sum.splits)

lemma readConnectReply_frame: "readConnectReply c = (r, c') \<Longrightarrow> cn_out c' = cn_out c"
  by (auto simp: readConnectReply_def dest!: conn_read_frame skip_reply_frame
      split: prod.splits sum.splits if_splits)

lemma conn_write_deadline: "conn_write c p = (r, c') \<Longrightarrow> cn_deadline c' = cn_deadline c"
  by (auto simp: conn_write_def split: if_splits)

lemma socks_reply_deadline: "cn_deadline (socks_reply c code) = cn_deadline c"
  by (simp add: socks_reply_def conn_write_def)

lemma greet_deadline: "greet True dl c = (r, c') \<Longrightarrow> cn_deadline c' = Some dl"
  by (auto simp: greet_def Let_def conn_write_def dest!: conn_read_frame
      split: prod.splits sum.splits if_splits)

lemma finish_connect_deadline: "finish_connect c cmd h = (r, c') \<Longrightarrow> cn_deadline c' = cn_deadline c"
  by (auto simp: finish_connect_def socks_reply_deadline dest!: conn_read_frame
      split: prod.splits sum.splits if_splits)

lemma readConnect_deadline: "readConnect c = (r, c') \<Longrightarrow> cn_deadline c' = cn_deadline c"
  by (auto simp: readConnect_def socks_reply_deadline dest!: conn_read_frame finish_connect_deadline
      split: prod.splits sum.splits if_splits)

lemma conn_write_ok:
  "0 < cn_writes c \<Longrightarrow> conn_write c p = (True, c\<lparr>cn_out := cn_out c @ p, cn_writes := cn_writes c - 1\<rparr>)"
  by (simp add: conn_write_def)

text \<open>What the address part of a request or reply is, and how long.\<close>

lemma socks_addr_cases:
  assumes "socks_addr host = Some addr"
  obtains (v4) b where "addr = 1 # b" "length b = 4" "canonical_host host = ip_String b"
  | (v6) ip where "addr = 4 # ip" "length ip = 16" "canonical_host host = ip_String ip"
  | (name) "addr = 3 # of_nat (length host) # str_bytes host" "length host \<le> 255" "canonical_host host = host"
proof (cases "ParseIP host")
  case None
  with assms name show ?thesis by (auto simp: socks_addr_def canonical_host_def split: if_splits)
next
  case (Some ip)
  have ip: "length ip = 16" by (rule ParseIP_length [OF Some])
  show ?thesis
  proof (cases "To4 ip")
    case None
    with assms Some ip v6 [of ip] show ?thesis by (simp add: socks_addr_def canonical_host_def)
  next
    case v: (Some b)
    have "length b = 4" using v ip by (auto simp: To4_def split: if_splits)
    with assms Some v v4 [of b] ip_String_To4 [OF v] show ?thesis by (simp add: socks_addr_def canonical_host_def)
  qed
qed

lemma byte_of_length: "length host \<le> 255 \<Longrightarrow> unat (of_nat (length host) :: byte) = length host"
  by (simp add: unat_of_nat)

lemma readConnect_request:
  assumes "socks_addr host = Some addr" "host \<noteq> []"
    and "1 \<le> port" "port \<le> 65535" "canonical_host host \<noteq> []"
    and "cn_in c = [5, 1, 0] @ addr @ put_uint16 port @ rest"
  shows "readConnect c = (Some (JoinHostPort (canonical_host host) (Itoa port)), c\<lparr>cn_in := rest\<rparr>)"
proof -
  have port: "get_uint16 (put_uint16 port) = port" using get_put_uint16 [of port "[]"] assms(3,4) by simp
  have fin: "finish_connect (c\<lparr>cn_in := put_uint16 port @ rest\<rparr>) 1 h =
      (Some (JoinHostPort h (Itoa port)), c\<lparr>cn_in := rest\<rparr>)" if "h \<noteq> []" for h
    using that assms(3) port by (simp add: finish_connect_def conn_read_prefix [where bs = "put_uint16 port" and rest = rest])
  from assms(1) show ?thesis
  proof (cases rule: socks_addr_cases)
    case (v4 b)
    have "conn_read c 4 = (Inr [5, 1, 0, 1], c\<lparr>cn_in := b @ put_uint16 port @ rest\<rparr>)"
      using assms(6) v4 by (intro conn_read_prefix) simp_all
    moreover have "conn_read (c\<lparr>cn_in := b @ put_uint16 port @ rest\<rparr>) 4 =
        (Inr b, c\<lparr>cn_in := put_uint16 port @ rest\<rparr>)" using v4(2) by (simp add: conn_read_prefix)
    ultimately show ?thesis using fin assms(5) v4(3) by (simp add: readConnect_def)
  next
    case (v6 ip)
    have "conn_read c 4 = (Inr [5, 1, 0, 4], c\<lparr>cn_in := ip @ put_uint16 port @ rest\<rparr>)"
      using assms(6) v6 by (intro conn_read_prefix) simp_all
    moreover have "conn_read (c\<lparr>cn_in := ip @ put_uint16 port @ rest\<rparr>) 16 =
        (Inr ip, c\<lparr>cn_in := put_uint16 port @ rest\<rparr>)" using v6(2) by (simp add: conn_read_prefix)
    ultimately show ?thesis using fin assms(5) v6(3) by (simp add: readConnect_def)
  next
    case name
    let ?l = "of_nat (length host) :: byte"
    have "conn_read c 4 = (Inr [5, 1, 0, 3], c\<lparr>cn_in := [?l] @ str_bytes host @ put_uint16 port @ rest\<rparr>)"
      using assms(6) name by (intro conn_read_prefix) simp_all
    moreover have "conn_read (c\<lparr>cn_in := [?l] @ str_bytes host @ put_uint16 port @ rest\<rparr>) 1 =
        (Inr [?l], c\<lparr>cn_in := str_bytes host @ put_uint16 port @ rest\<rparr>)"
      by (simp add: conn_read_prefix [where bs = "[?l]"])
    moreover have "conn_read (c\<lparr>cn_in := str_bytes host @ put_uint16 port @ rest\<rparr>) (length host) =
        (Inr (str_bytes host), c\<lparr>cn_in := put_uint16 port @ rest\<rparr>)" by (simp add: conn_read_prefix)
    ultimately show ?thesis using fin assms(5) name(3) byte_of_length [OF name(2)]
      by (simp add: readConnect_def)
  qed
qed

lemma greet_greeting:
  assumes "cn_in c = greeting u p @ rest" "0 < cn_writes c"
  shows "greet True dl c = (True, c\<lparr>cn_in := rest, cn_out := cn_out c @ [5, 0],
    cn_writes := cn_writes c - 1, cn_deadline := Some dl\<rparr>)"
proof -
  obtain m ms where m: "greeting u p = [5, m] @ ms" "length ms = unat m" "0 < unat m" "0 \<in> set ms"
    by (cases "u \<noteq> [] \<or> p \<noteq> []")
       (auto simp: greeting_def intro!: that [of 2 "[0, 2]"] that [of 1 "[0]"])
  let ?c = "c\<lparr>cn_deadline := Some dl\<rparr>"
  have "conn_read ?c 2 = (Inr [5, m], ?c\<lparr>cn_in := ms @ rest\<rparr>)"
    using assms(1) m(1) by (intro conn_read_prefix) simp_all
  moreover have "conn_read (?c\<lparr>cn_in := ms @ rest\<rparr>) (unat m) = (Inr ms, ?c\<lparr>cn_in := rest\<rparr>)"
    using m(2) by (simp add: conn_read_prefix)
  ultimately show ?thesis using m(3,4) assms(2)
    by (cases c) (simp add: greet_def Let_def conn_write_def)
qed

text \<open>The host a success reply carries fits its length byte.\<close>

definition local_fits :: "string \<Rightarrow> bool" where
  "local_fits local \<longleftrightarrow> socks_addr (case SplitHostPort local of None \<Rightarrow> [] | Some (h, _) \<Rightarrow> h) \<noteq> None"

lemma success_reply_addr:
  assumes "local_fits local"
  obtains addr port h where "socksSuccessReply local = [5, 0, 0] @ addr @ put_uint16 port" "socks_addr h = Some addr"
proof -
  let ?h = "case SplitHostPort local of None \<Rightarrow> [] | Some (h, _) \<Rightarrow> h"
  obtain addr where a: "socks_addr ?h = Some addr" using assms by (auto simp: local_fits_def)
  then have "addr = (case ParseIP ?h of
                    None \<Rightarrow> 3 # of_nat (length ?h) # str_bytes ?h
                  | Some ip \<Rightarrow> (case To4 ip of Some v4 \<Rightarrow> 1 # v4 | None \<Rightarrow> 4 # ip))"
    by (auto simp: socks_addr_def split: option.splits if_splits)
  then show ?thesis using that a by (simp add: socksSuccessReply_def Let_def)
qed

lemma readConnectReply_success:
  assumes "local_fits local" "cn_in c = socksSuccessReply local @ rest"
  shows "readConnectReply c = (None, c\<lparr>cn_in := rest\<rparr>)"
proof -
  obtain addr port h where r: "socksSuccessReply local = [5, 0, 0] @ addr @ put_uint16 port" "socks_addr h = Some addr"
    using success_reply_addr [OF assms(1)] .
  have skip: "skip_reply (c\<lparr>cn_in := bs @ rest\<rparr>) n = (None, c\<lparr>cn_in := rest\<rparr>)" if "length bs = n" for bs n
    using that by (simp add: skip_reply_def conn_read_prefix [where bs = bs])
  from r(2) show ?thesis
  proof (cases rule: socks_addr_cases)
    case (v4 b)
    have "conn_read c 4 = (Inr [5, 0, 0, 1], c\<lparr>cn_in := (b @ put_uint16 port) @ rest\<rparr>)"
      using assms(2) r(1) v4 by (intro conn_read_prefix) simp_all
    with skip [of "b @ put_uint16 port" 6] v4(2) show ?thesis by (simp add: readConnectReply_def)
  next
    case (v6 ip)
    have "conn_read c 4 = (Inr [5, 0, 0, 4], c\<lparr>cn_in := (ip @ put_uint16 port) @ rest\<rparr>)"
      using assms(2) r(1) v6 by (intro conn_read_prefix) simp_all
    with skip [of "ip @ put_uint16 port" 18] v6(2) show ?thesis by (simp add: readConnectReply_def)
  next
    case name
    let ?l = "of_nat (length h) :: byte"
    have "conn_read c 4 = (Inr [5, 0, 0, 3], c\<lparr>cn_in := [?l] @ (str_bytes h @ put_uint16 port) @ rest\<rparr>)"
      using assms(2) r(1) name by (intro conn_read_prefix) simp_all
    moreover have "conn_read (c\<lparr>cn_in := [?l] @ (str_bytes h @ put_uint16 port) @ rest\<rparr>) 1 =
        (Inr [?l], c\<lparr>cn_in := (str_bytes h @ put_uint16 port) @ rest\<rparr>)"
      by (simp add: conn_read_prefix [where bs = "[?l]"])
    ultimately show ?thesis
      using skip [of "str_bytes h @ put_uint16 port" "length h + 2"] byte_of_length [OF name(2)]
      by (simp add: readConnectReply_def)
  qed
qed

definition connect_request :: "string \<Rightarrow> int \<Rightarrow> bytes" where
  "connect_request host port =
     [5, 1, 0] @ (case socks_addr host of None \<Rightarrow> [] | Some a \<Rightarrow> a) @ put_uint16 port"

section \<open>Properties\<close>

text \<open>
  C37. The engine's own client and inbound understand each other: what the client writes for a
  target, with or without credentials configured, the inbound parses to exactly that target
  (IP addresses in canonical notation) without consuming a byte of the data behind it; what
  the inbound answers, the client accepts without consuming a byte of the tunnelled data.
\<close>

theorem socks_client_server_agree:
  assumes "socks_addr host = Some addr" "host \<noteq> []" "1 \<le> port" "port \<le> 65535"
    and "cn_in s = greeting u p @ connect_request host port @ data" "1 < cn_writes s"
    and "pipe (JoinHostPort (canonical_host host) (Itoa port)) = Some local" "local_fits local"
    and "cn_in c = [5, 0] @ socksSuccessReply local @ answer" "1 < cn_writes c"
  shows "\<exists>s' c'. socks_Serve True dl s pipe = (Some (JoinHostPort (canonical_host host) (Itoa port)), s') \<and>
    cn_in s' = data \<and> cn_out s' = cn_out s @ [5, 0] @ socksSuccessReply local \<and>
    handshake c host port u p = (None, c') \<and>
    cn_in c' = answer \<and> cn_out c' = cn_out c @ greeting u p @ connect_request host port"
proof -
  let ?s1 = "s\<lparr>cn_in := connect_request host port @ data, cn_out := cn_out s @ [5, 0],
    cn_writes := cn_writes s - 1, cn_deadline := Some dl\<rparr>"
  have g: "greet True dl s = (True, ?s1)" using greet_greeting [OF assms(5)] assms(6) by simp
  have "readConnect ?s1 = (Some (JoinHostPort (canonical_host host) (Itoa port)), ?s1\<lparr>cn_in := data\<rparr>)"
    by (rule readConnect_request [OF assms(1-4) canonical_host_nonempty [OF assms(2)]])
       (simp add: connect_request_def assms(1))
  then have "\<exists>s'. socks_Serve True dl s pipe = (Some (JoinHostPort (canonical_host host) (Itoa port)), s') \<and>
    cn_in s' = data \<and> cn_out s' = cn_out s @ [5, 0] @ socksSuccessReply local"
    using g assms(6,7) by (simp add: socks_Serve_def conn_write_def)
  moreover
  let ?c1 = "c\<lparr>cn_out := cn_out c @ greeting u p, cn_writes := cn_writes c - 1\<rparr>"
  let ?c2 = "?c1\<lparr>cn_in := socksSuccessReply local @ answer\<rparr>"
  have "conn_write c (greeting u p) = (True, ?c1)" using assms(10) by (simp add: conn_write_def)
  moreover have "conn_read ?c1 2 = (Inr [5, 0], ?c2)" using assms(9) by (intro conn_read_prefix) simp_all
  moreover have "send_connect ?c2 host port =
      (None, ?c2\<lparr>cn_out := cn_out c @ greeting u p @ connect_request host port,
        cn_writes := cn_writes c - 2, cn_in := answer\<rparr>)"
    using assms(1,10) readConnectReply_success [OF assms(8)]
    by (simp add: send_connect_def conn_write_def connect_request_def Let_def numeral_2_eq_2)
  ultimately show ?thesis by (simp add: handshake_def Let_def)
qed

definition demo_conn :: "bytes \<Rightarrow> conn" where
  "demo_conn bs = \<lparr>cn_in = bs, cn_out = [], cn_writes = 5, cn_deadline = None\<rparr>"

theorem socks_client_server_agree_witness:
  "\<exists>s' c'. socks_Serve True 30 (demo_conn (greeting ''u'' ''p'' @ connect_request ''1.2.3.4'' 80 @ [7]))
        (\<lambda>t. Some ''10.0.0.1:999'') = (Some ''1.2.3.4:80'', s') \<and> cn_in s' = [7] \<and>
     handshake (demo_conn ([5, 0] @ socksSuccessReply ''10.0.0.1:999'' @ [8])) ''1.2.3.4'' 80 ''u'' ''p'' = (None, c') \<and>
     cn_in c' = [8]"
proof -
  have e: "socks_addr ''1.2.3.4'' = Some [1, 1, 2, 3, 4]" "local_fits ''10.0.0.1:999''"
    "JoinHostPort (canonical_host ''1.2.3.4'') (Itoa 80) = ''1.2.3.4:80''" by code_simp+
  from socks_client_server_agree [OF e(1), of 80 "demo_conn (greeting ''u'' ''p'' @ connect_request ''1.2.3.4'' 80 @ [7])"
      "''u''" "''p''" "[7]" "\<lambda>t. Some ''10.0.0.1:999''" "''10.0.0.1:999''"
      "demo_conn ([5, 0] @ socksSuccessReply ''10.0.0.1:999'' @ [8])" "[8]" 30] e(2,3)
  show ?thesis by (auto simp: demo_conn_def)
qed

text \<open>
  Credentials stay with the client unless the proxy selects username/password: whatever
  else a peer answers to the greeting, the client writes at most the greeting and the connect
  request, which do not depend on them beyond offering the method.
\<close>

theorem socks_credentials_only_on_request:
  assumes "take 2 (cn_in c) \<noteq> [5, 2]" "handshake c host port u p = (res, c')"
  shows "\<exists>x \<in> {[], greeting u p, greeting u p @ connect_request host port}. cn_out c' = cn_out c @ x"
proof -
  have rp: "cn_out (snd (readConnectReply d)) = cn_out d" for d
    using readConnectReply_frame [of d] by (metis prod.collapse)
  have sc: "cn_out (snd (send_connect d host port)) \<in> {cn_out d, cn_out d @ connect_request host port}" for d
    using rp by (auto simp: send_connect_def conn_write_def connect_request_def Let_def split: option.split)
  show ?thesis
  proof (cases "cn_writes c = 0")
    case True
    with assms(2) show ?thesis by (auto simp: handshake_def conn_write_def Let_def)
  next
    case False
    let ?c1 = "c\<lparr>cn_out := cn_out c @ greeting u p, cn_writes := cn_writes c - 1\<rparr>"
    show ?thesis
    proof (cases "2 \<le> length (cn_in c)")
      case True
      then obtain a b rest where ab: "cn_in c = a # b # rest" by (cases "cn_in c"; cases "tl (cn_in c)") auto
      let ?c2 = "?c1\<lparr>cn_in := rest\<rparr>"
      have "conn_read ?c1 2 = (Inr [a, b], ?c2)" using ab by (intro conn_read_prefix) simp_all
      with assms False ab have "c' = ?c2 \<or> (res, c') = send_connect ?c2 host port"
        by (auto simp: handshake_def conn_write_def Let_def split: if_splits)
      then show ?thesis using sc [of ?c2] by (auto simp: prod_eq_iff)
    next
      case short: False
      then have "\<exists>e. conn_read ?c1 2 = (Inl e, ?c1\<lparr>cn_in := []\<rparr>)" by (simp add: conn_read_def ReadFull_def)
      with assms(2) False show ?thesis by (auto simp: handshake_def conn_write_def Let_def)
    qed
  qed
qed

theorem socks_credentials_only_on_request_witness:
  "\<exists>x \<in> {[], greeting ''u'' ''p'', greeting ''u'' ''p'' @ connect_request ''h'' 80}.
     cn_out (snd (handshake (demo_conn [5, 0xFF]) ''h'' 80 ''u'' ''p'')) = x"
  using socks_credentials_only_on_request [of "demo_conn [5, 0xFF]" "''h''" 80 "''u''" "''p''"]
  by (simp add: demo_conn_def prod_eq_iff)

text \<open>
  A connection the SOCKS5 inbound hands over for relaying still carries the handshake
  deadline: the inbound sets it and never clears it, so the relay of every SOCKS5 session is
  cut off when the handshake timeout elapses.
\<close>

theorem socks_serve_keeps_handshake_deadline:
  assumes "socks_Serve True dl c pipe = (Some target, c')"
  shows "cn_deadline c' = Some dl"
proof -
  obtain c1 c2 where "greet True dl c = (True, c1)" "readConnect c1 = (Some target, c2)"
    "\<exists>l. c' = snd (conn_write c2 (socksSuccessReply l))"
    using assms by (auto simp: socks_Serve_def split: prod.splits bool.splits option.splits)
  then show ?thesis
    by (auto simp: conn_write_def dest!: greet_deadline readConnect_deadline)
qed

theorem socks_serve_keeps_handshake_deadline_witness:
  "cn_deadline (snd (socks_Serve True 30 (demo_conn ([5, 1, 0] @ connect_request ''h'' 80)) (\<lambda>t. Some ''10.0.0.1:9''))) = Some 30"
proof -
  have "fst (socks_Serve True 30 (demo_conn ([5, 1, 0] @ connect_request ''h'' 80)) (\<lambda>t. Some ''10.0.0.1:9'')) = Some ''h:80''"
    by code_simp
  then show ?thesis using socks_serve_keeps_handshake_deadline by (metis prod.collapse)
qed

end
