(* ===== verification/GoStrings.thy ===== *)
theory GoStrings
  imports NetAddr "HOL-Library.Sublist"
begin

text \<open>
  What the sources use of Go's \<open>strings\<close>, \<open>encoding/base64\<close> and \<open>encoding/hex\<close>: trimming and
  removing white space, lower-casing, substring search, joining and splitting, and the standard
  base64 decoder. A Go string is the list of its bytes as characters.
\<close>

section \<open>White space\<close>

text \<open>
  The UTF-8 encodings of the code points \<open>unicode.IsSpace\<close> accepts. None of them occurs inside
  the encoding of another code point, so scanning bytes and scanning runes find the same ones.
\<close>

definition space_runes :: "string list" where
  "space_runes =
     map (\<lambda>n. [char_of (n :: nat)]) [9, 10, 11, 12, 13, 32]
     @ map (map (\<lambda>n. char_of (n :: nat)))
         ([[0xC2, 0x85], [0xC2, 0xA0], [0xE1, 0x9A, 0x80], [0xE2, 0x80, 0xA8], [0xE2, 0x80, 0xA9],
           [0xE2, 0x80, 0xAF], [0xE2, 0x81, 0x9F], [0xE3, 0x80, 0x80]]
          @ map (\<lambda>k. [0xE2, 0x80, k]) [0x80..<0x8B])"

definition rune_prefix :: "string list \<Rightarrow> string \<Rightarrow> string option" where
  "rune_prefix rs s = find (\<lambda>r. r \<noteq> [] \<and> take (length r) s = r) rs"

lemma rune_prefix_SomeD:
  "rune_prefix rs s = Some r \<Longrightarrow> r \<in> set rs \<and> r \<noteq> [] \<and> s = r @ drop (length r) s"
proof -
  assume "rune_prefix rs s = Some r"
  then have r: "r \<in> set rs" "r \<noteq> []" "take (length r) s = r"
    unfolding rune_prefix_def by (auto dest: find_SomeD)
  have "s = take (length r) s @ drop (length r) s" by simp
  with r show ?thesis by simp
qed

lemma rune_prefix_NoneD: "rune_prefix rs s = None \<Longrightarrow> r \<in> set rs \<Longrightarrow> r \<noteq> [] \<Longrightarrow> take (length r) s \<noteq> r"
  by (auto simp: rune_prefix_def find_None_iff)

lemma rune_prefix_Nil [simp]: "rune_prefix rs [] = None"
  by (auto simp: rune_prefix_def find_None_iff)

function trim_left :: "string list \<Rightarrow> string \<Rightarrow> string" where
  "trim_left rs s = (case rune_prefix rs s of None \<Rightarrow> s | Some r \<Rightarrow> trim_left rs (drop (length r) s))"
  by pat_completeness auto
termination
proof (relation "measure (\<lambda>(rs, s). length s)", goal_cases)
  case (2 rs s r)
  have r: "r \<noteq> []" "s = r @ drop (length r) s" using rune_prefix_SomeD [OF 2] by auto
  then have "0 < length s" by (cases s) auto
  with r(1) show ?case by (simp add: diff_less)
qed simp

declare trim_left.simps [simp del]

text \<open>\<open>strings.TrimSpace\<close>.\<close>

definition TrimSpace :: "string \<Rightarrow> string" where
  "TrimSpace s = rev (trim_left (map rev space_runes) (rev (trim_left space_runes s)))"

text \<open>\<open>strings.Join(strings.Fields(s), "")\<close>: every white space code point removed.\<close>

function strip_runes :: "string list \<Rightarrow> string \<Rightarrow> string" where
  "strip_runes rs [] = []"
| "strip_runes rs (c # s) =
     (case rune_prefix rs (c # s) of
        None \<Rightarrow> c # strip_runes rs s
      | Some r \<Rightarrow> strip_runes rs (drop (length r) (c # s)))"
  by pat_completeness auto
termination
proof (relation "measure (\<lambda>(rs, s). length s)", goal_cases)
  case (3 rs c s r)
  then have "r \<noteq> []" using rune_prefix_SomeD by blast
  then show ?case by simp
qed simp_all

definition without_space :: "string \<Rightarrow> string" where
  "without_space s = strip_runes space_runes s"

section \<open>Trimming twice\<close>

lemma trim_left_fixed: "rune_prefix rs s = None \<Longrightarrow> trim_left rs s = s"
  by (subst trim_left.simps) simp

lemma trim_left_head: "rune_prefix rs (trim_left rs s) = None"
proof (induction rs s rule: trim_left.induct)
  case (1 rs s)
  show ?case
  proof (cases "rune_prefix rs s")
    case (Some r)
    with 1 show ?thesis by (subst trim_left.simps) simp
  qed (simp add: trim_left_fixed)
qed

lemma trim_left_suffix: "\<exists>p. s = p @ trim_left rs s"
proof (induction rs s rule: trim_left.induct)
  case (1 rs s)
  show ?case
  proof (cases "rune_prefix rs s")
    case (Some r)
    from 1 [OF Some] obtain p where "drop (length r) s = p @ trim_left rs (drop (length r) s)" by blast
    moreover have "s = r @ drop (length r) s" using rune_prefix_SomeD [OF Some] by simp
    ultimately have "s = (r @ p) @ trim_left rs s" using Some by (simp add: trim_left.simps [of rs s])
    then show ?thesis by blast
  qed (simp add: trim_left_fixed)
qed

lemma trim_left_idem: "trim_left rs (trim_left rs s) = trim_left rs s"
  by (rule trim_left_fixed) (rule trim_left_head)

text \<open>A prefix of a string without leading white space has none either.\<close>

lemma rune_prefix_shrink:
  assumes "rune_prefix rs (s @ t) = None"
  shows "rune_prefix rs s = None"
proof (rule ccontr)
  assume "rune_prefix rs s \<noteq> None"
  then obtain r where "rune_prefix rs s = Some r" by auto
  then have r: "r \<in> set rs" "r \<noteq> []" "s = r @ drop (length r) s" using rune_prefix_SomeD by auto
  have "take (length r) (s @ t) = r" by (subst r(3)) simp
  with rune_prefix_NoneD [OF assms r(1,2)] show False by simp
qed

theorem TrimSpace_idem [simp]: "TrimSpace (TrimSpace s) = TrimSpace s"
proof -
  let ?R = "map rev space_runes" and ?L = "trim_left space_runes s"
  let ?T = "rev (trim_left ?R (rev ?L))"
  obtain p where "rev ?L = p @ trim_left ?R (rev ?L)" using trim_left_suffix by blast
  then have "?L = ?T @ rev p" by (metis rev_append rev_rev_ident)
  with trim_left_head have "rune_prefix space_runes (?T @ rev p) = None" by metis
  then have "trim_left space_runes ?T = ?T" by (rule trim_left_fixed [OF rune_prefix_shrink])
  then show ?thesis by (simp add: TrimSpace_def trim_left_idem)
qed

lemma TrimSpace_Nil [simp]: "TrimSpace [] = []"
  by (simp add: TrimSpace_def trim_left_fixed)

section \<open>Lower case\<close>

text \<open>
  \<open>strings.ToLower\<close>: byte by byte on ASCII; otherwise \<open>strings.Map(unicode.ToLower, s)\<close>, whose
  Unicode tables are the parameter.
\<close>

definition is_ascii :: "string \<Rightarrow> bool" where
  "is_ascii s \<longleftrightarrow> (\<forall>c \<in> set s. (of_char c :: nat) < 128)"

definition lower_char :: "char \<Rightarrow> char" where
  "lower_char c = (if 65 \<le> (of_char c :: nat) \<and> (of_char c :: nat) \<le> 90 then char_of (of_char c + 32 :: nat) else c)"

definition ToLower :: "(string \<Rightarrow> string) \<Rightarrow> string \<Rightarrow> string" where
  "ToLower uni s = (if is_ascii s then map lower_char s else uni s)"

text \<open>
  What the sources rely on of the Unicode tables: lower-casing twice is lower-casing once, and it
  never makes white space at the ends of a trimmed string.
\<close>

definition unicode_lower_ok :: "(string \<Rightarrow> string) \<Rightarrow> bool" where
  "unicode_lower_ok uni \<longleftrightarrow>
     (\<forall>s. \<not> is_ascii s \<longrightarrow> ToLower uni (uni s) = uni s \<and> (TrimSpace s = s \<longrightarrow> TrimSpace (uni s) = uni s))"

lemma of_char_lt_256: "(of_char c :: nat) < 256"
proof -
  have "of_char c \<in> {0..<256::nat}" using range_nat_of_char by blast
  then show ?thesis by simp
qed

lemma of_char_lower:
  "(of_char (lower_char c) :: nat) =
     (if 65 \<le> (of_char c :: nat) \<and> (of_char c :: nat) \<le> 90 then of_char c + 32 else of_char c)"
  by (simp add: lower_char_def)

lemma lower_char_idem [simp]: "lower_char (lower_char c) = lower_char c"
  by (simp add: lower_char_def)

lemma is_ascii_lower [simp]: "is_ascii s \<Longrightarrow> is_ascii (map lower_char s)"
  by (auto simp: is_ascii_def of_char_lower)

lemma ToLower_idem:
  assumes "unicode_lower_ok uni"
  shows "ToLower uni (ToLower uni s) = ToLower uni s"
proof (cases "is_ascii s")
  case True
  then show ?thesis by (simp add: ToLower_def comp_def)
next
  case False
  with assms have "ToLower uni (uni s) = uni s" by (simp add: unicode_lower_ok_def)
  with False show ?thesis by (simp add: ToLower_def)
qed

text \<open>Lower-casing ASCII neither makes nor removes white space.\<close>

lemma lower_char_space:
  assumes "(of_char (lower_char c) :: nat) < 65"
  shows "lower_char c = c"
  using assms by (auto simp: of_char_lower lower_char_def split: if_splits)

lemma ascii_space_runes:
  assumes "r \<in> set space_runes" "is_ascii r"
  shows "\<exists>n \<in> {9, 10, 11, 12, 13, 32}. r = [char_of (n :: nat)]"
proof -
  have "(\<exists>n \<in> {9, 10, 11, 12, 13, 32}. r = [char_of (n :: nat)]) \<or>
      (\<exists>a \<in> {0xC2, 0xE1, 0xE2, 0xE3}. \<exists>t. r = char_of (a :: nat) # t)"
    using assms(1) unfolding space_runes_def set_append set_map by fastforce
  moreover have "\<not> is_ascii (char_of a # t)" if "a \<in> {0xC2, 0xE1, 0xE2, 0xE3 :: nat}" for a t
    using that by (auto simp: is_ascii_def)
  ultimately show ?thesis using assms(2) by blast
qed

lemma rune_prefix_lower:
  assumes a: "is_ascii s" and n: "rune_prefix rs s = None"
    and rs: "set rs \<subseteq> set space_runes \<union> rev ` set space_runes"
  shows "rune_prefix rs (map lower_char s) = None"
proof (rule ccontr)
  assume "rune_prefix rs (map lower_char s) \<noteq> None"
  then obtain r where "rune_prefix rs (map lower_char s) = Some r" by auto
  then have r: "r \<in> set rs" "r \<noteq> []" "map lower_char s = r @ drop (length r) (map lower_char s)"
    using rune_prefix_SomeD by auto
  have "is_ascii r" using is_ascii_lower [OF a] by (subst (asm) r(3)) (auto simp: is_ascii_def)
  with r(1) rs obtain n where n': "n \<in> {9, 10, 11, 12, 13, 32}" "r = [char_of (n :: nat)]"
    using ascii_space_runes [of r] ascii_space_runes [of "rev r"] by (force simp: is_ascii_def)
  then obtain c s' where s: "s = c # s'" "lower_char c = char_of n"
    using r(3) by (cases s) auto
  moreover have "lower_char c = c"
    by (rule lower_char_space) (use s(2) n'(1) in auto)
  ultimately have "take (length r) s = r" using n'(2) by simp
  with rune_prefix_NoneD [OF n r(1,2)] show False by simp
qed

lemma TrimSpace_fixed_iff:
  "TrimSpace s = s \<longleftrightarrow> rune_prefix space_runes s = None \<and> rune_prefix (map rev space_runes) (rev s) = None"
proof
  assume t: "TrimSpace s = s"
  obtain p where p: "s = p @ trim_left space_runes s" using trim_left_suffix by blast
  obtain q where q: "rev (trim_left space_runes s) = q @ rev (TrimSpace s)"
    using trim_left_suffix [of "rev (trim_left space_runes s)" "map rev space_runes"]
    by (auto simp: TrimSpace_def)
  have "length s = length p + length (trim_left space_runes s)"
    using p by (metis length_append)
  moreover have "length (trim_left space_runes s) = length q + length s"
    using q t by (metis length_append length_rev)
  ultimately have "p = []" "q = []" by auto
  with p q t have l: "trim_left space_runes s = s"
    and "trim_left (map rev space_runes) (rev s) = rev s"
    by (auto simp: TrimSpace_def)
  then show "rune_prefix space_runes s = None \<and> rune_prefix (map rev space_runes) (rev s) = None"
    using trim_left_head by metis
next
  assume "rune_prefix space_runes s = None \<and> rune_prefix (map rev space_runes) (rev s) = None"
  then show "TrimSpace s = s" by (simp add: TrimSpace_def trim_left_fixed)
qed

lemma TrimSpace_ToLower:
  assumes "unicode_lower_ok uni" "TrimSpace s = s"
  shows "TrimSpace (ToLower uni s) = ToLower uni s"
proof (cases "is_ascii s")
  case True
  have "is_ascii (rev s)" using True by (simp add: is_ascii_def)
  with True assms(2) have "rune_prefix space_runes (map lower_char s) = None"
    "rune_prefix (map rev space_runes) (map lower_char (rev s)) = None"
    unfolding TrimSpace_fixed_iff by (auto intro!: rune_prefix_lower)
  with True show ?thesis by (simp add: ToLower_def TrimSpace_fixed_iff rev_map)
next
  case False
  with assms show ?thesis by (simp add: ToLower_def unicode_lower_ok_def)
qed

text \<open>The normal form of most text fields of a configuration.\<close>

definition lower_trim :: "(string \<Rightarrow> string) \<Rightarrow> string \<Rightarrow> string" where
  "lower_trim uni s = ToLower uni (TrimSpace s)"

lemma lower_trim_idem: "unicode_lower_ok uni \<Longrightarrow> lower_trim uni (lower_trim uni s) = lower_trim uni s"
  by (simp add: lower_trim_def TrimSpace_ToLower ToLower_idem)

section \<open>Searching, joining, splitting\<close>

fun str_index :: "string \<Rightarrow> string \<Rightarrow> nat option" where
  "str_index n [] = (if n = [] then Some 0 else None)"
| "str_index n (c # s) = (if take (length n) (c # s) = n then Some 0 else map_option Suc (str_index n s))"

definition str_contains :: "string \<Rightarrow> string \<Rightarrow> bool" where
  "str_contains s n \<longleftrightarrow> str_index n s \<noteq> None"

definition HasPrefix :: "string \<Rightarrow> string \<Rightarrow> bool" where
  "HasPrefix s p \<longleftrightarrow> take (length p) s = p"

definition TrimPrefix :: "string \<Rightarrow> string \<Rightarrow> string" where
  "TrimPrefix s p = (if HasPrefix s p then drop (length p) s else s)"

definition HasSuffix :: "string \<Rightarrow> string \<Rightarrow> bool" where
  "HasSuffix s p \<longleftrightarrow> length p \<le> length s \<and> drop (length s - length p) s = p"

definition TrimSuffix :: "string \<Rightarrow> string \<Rightarrow> string" where
  "TrimSuffix s p = (if HasSuffix s p then take (length s - length p) s else s)"

fun str_join :: "string \<Rightarrow> string list \<Rightarrow> string" where
  "str_join sep [] = []"
| "str_join sep [x] = x"
| "str_join sep (x # y # xs) = x @ sep @ str_join sep (y # xs)"

fun split_char :: "char \<Rightarrow> string \<Rightarrow> string list" where
  "split_char d [] = [[]]"
| "split_char d (c # s) = (if c = d then [] # split_char d s
     else case split_char d s of [] \<Rightarrow> [[c]] | x # xs \<Rightarrow> (c # x) # xs)"

lemma split_char_nonempty [simp]: "split_char d s \<noteq> []"
  by (induction s) (auto split: list.split)

lemma split_char_fresh: "d \<notin> set x \<Longrightarrow> split_char d x = [x]"
  by (induction x) auto

lemma split_char_append: "d \<notin> set x \<Longrightarrow> split_char d (x @ d # s) = x # split_char d s"
  by (induction x) auto

lemma split_join:
  "\<forall>x \<in> set xs. d \<notin> set x \<Longrightarrow> xs \<noteq> [] \<Longrightarrow> split_char d (str_join [d] xs) = xs"
proof (induction xs)
  case (Cons x xs)
  then show ?case by (cases xs) (simp_all add: split_char_fresh split_char_append)
qed simp

text \<open>Joining is injective where no element contains the separator.\<close>

lemma str_join_inj:
  assumes "\<forall>x \<in> set xs. d \<notin> set x" "\<forall>y \<in> set ys. d \<notin> set y" "xs \<noteq> []" "ys \<noteq> []"
    and "str_join [d] xs = str_join [d] ys"
  shows "xs = ys"
  using split_join [OF assms(1,3)] split_join [OF assms(2,4)] assms(5) by metis

lemma str_join_nonempty: "\<forall>x \<in> set xs. x \<noteq> [] \<Longrightarrow> xs \<noteq> [] \<Longrightarrow> str_join sep xs \<noteq> []"
  by (induction sep xs rule: str_join.induct) auto

lemma str_index_Nil [simp]: "str_index [] s = Some 0"
  by (cases s) auto

lemma str_contains_iff: "str_contains s n \<longleftrightarrow> (\<exists>p q. s = p @ n @ q)"
proof (induction s)
  case Nil
  then show ?case by (simp add: str_contains_def)
next
  case (Cons c s)
  have pre: "take (length n) (c # s) = n \<longleftrightarrow> (\<exists>q. c # s = n @ q)"
    by (metis append_eq_conv_conj append_take_drop_id)
  show ?case
  proof (cases "take (length n) (c # s) = n")
    case True
    with pre obtain q where "c # s = [] @ n @ q" by auto
    then have "\<exists>p q. c # s = p @ n @ q" by blast
    with True show ?thesis by (simp add: str_contains_def)
  next
    case False
    then have "str_contains (c # s) n \<longleftrightarrow> str_contains s n" by (simp add: str_contains_def)
    also have "\<dots> \<longleftrightarrow> (\<exists>p q. c # s = (c # p) @ n @ q)" using Cons by simp
    also have "\<dots> \<longleftrightarrow> (\<exists>p q. c # s = p @ n @ q)"
      using False pre by (metis append_Cons append_Nil list.exhaust list.inject)
    finally show ?thesis .
  qed
qed

section \<open>Base64 and hexadecimal\<close>

definition b64_value :: "char \<Rightarrow> nat option" where
  "b64_value c =
     (let n = (of_char c :: nat) in
      if 65 \<le> n \<and> n \<le> 90 then Some (n - 65)
      else if 97 \<le> n \<and> n \<le> 122 then Some (n - 71)
      else if 48 \<le> n \<and> n \<le> 57 then Some (n + 4)
      else if n = 43 then Some 62 else if n = 47 then Some 63 else None)"

text \<open>
  \<open>base64.StdEncoding.DecodeString\<close> without its partial output: line breaks are skipped, padding
  is required and may only end the input, trailing bits are not checked.
\<close>

fun b64_quanta :: "string \<Rightarrow> bytes option" where
  "b64_quanta [] = Some []"
| "b64_quanta (a # b # c # d # rest) =
     (case (b64_value a, b64_value b) of
        (Some va, Some vb) \<Rightarrow>
          if c = CHR ''='' then (if d = CHR ''='' \<and> rest = [] then Some [of_nat (va * 4 + vb div 16)] else None)
          else (case b64_value c of
                  None \<Rightarrow> None
                | Some vc \<Rightarrow>
                    if d = CHR ''='' then
                      (if rest = [] then Some [of_nat (va * 4 + vb div 16), of_nat (vb * 16 + vc div 4)] else None)
                    else case b64_value d of
                           None \<Rightarrow> None
                         | Some vd \<Rightarrow>
                             map_option (\<lambda>bs. of_nat (va * 4 + vb div 16) # of_nat (vb * 16 + vc div 4)
                                 # of_nat (vc * 64 + vd) # bs) (b64_quanta rest))
      | _ \<Rightarrow> None)"
| "b64_quanta _ = None"

definition b64_decode :: "string \<Rightarrow> bytes option" where
  "b64_decode s = b64_quanta (filter (\<lambda>c. c \<noteq> CHR 0x0A \<and> c \<noteq> CHR 0x0D) s)"

definition hex_encode :: "bytes \<Rightarrow> string" where
  "hex_encode bs = concat (map (\<lambda>b. [hex_char (unat b div 16), hex_char (unat b mod 16)]) bs)"

lemma hex_char_inj: "a < 16 \<Longrightarrow> b < 16 \<Longrightarrow> hex_char a = hex_char b \<Longrightarrow> a = b"
proof -
  assume ab: "a < 16" "b < 16" "hex_char a = hex_char b"
  have "(of_char (hex_char n) :: nat) = (if n < 10 then 48 + n else 87 + n)" if "n < 16" for n
    using that by (simp add: hex_char_def)
  note v = this
  have "(if a < 10 then 48 + a else 87 + a) = (if b < 10 then 48 + b else 87 + b)"
    using v [OF ab(1)] v [OF ab(2)] ab(3) by metis
  then show ?thesis by (cases "a < 10"; cases "b < 10") simp_all
qed

lemma unat_lt2p_byte: "unat (b :: byte) < 256"
  using unsigned_less [of b] by simp

lemma hex_encode_inj: "hex_encode xs = hex_encode ys \<Longrightarrow> xs = ys"
proof (induction xs arbitrary: ys)
  case Nil
  then show ?case by (cases ys) (auto simp: hex_encode_def)
next
  case (Cons x xs)
  then obtain y ys' where ys: "ys = y # ys'" by (cases ys) (auto simp: hex_encode_def)
  have lt: "unat b div 16 < 16" for b :: byte
    using unat_lt2p_byte [of b] by (simp add: less_mult_imp_div_less)
  from Cons.prems ys have "hex_char (unat x div 16) = hex_char (unat y div 16)"
    "hex_char (unat x mod 16) = hex_char (unat y mod 16)" "hex_encode xs = hex_encode ys'"
    by (auto simp: hex_encode_def)
  then have "unat x div 16 = unat y div 16" "unat x mod 16 = unat y mod 16"
    using hex_char_inj lt by auto
  then have "unat x = unat y" by (metis div_mult_mod_eq)
  then have "x = y" by (rule unsigned_word_eqI)
  then show ?case using Cons.IH \<open>hex_encode xs = hex_encode ys'\<close> ys by simp
qed

end
