(* ===== verification/ConfigData.thy ===== *)
theory ConfigData
  imports GoStrings Complex_Main
begin

text \<open>
  The data of \<open>engine/config\<close>: the universal configuration record with its metrics, test history
  and value domains (\<open>config.go\<close>, \<open>metrics.go\<close>, \<open>types.go\<close>). Go's \<open>string\<close> types stay strings,
  64-bit integers are integers, a pointer to a metrics struct is an option.
\<close>

section \<open>Metrics and test history\<close>

record ping_metrics =
  pm_MinMS :: int
  pm_MaxMS :: int
  pm_SubMS :: bool
  pm_MedianMS :: int
  pm_AvgMS :: int
  pm_JitterMS :: int
  pm_PacketLoss :: rat
  pm_Samples :: int
  pm_Failures :: int
  pm_Timeouts :: int
  pm_At :: int

record url_metrics =
  um_URL :: string
  um_DNSMS :: int
  um_ConnectMS :: int
  um_TLSMS :: int
  um_TTFBMS :: int
  um_TotalMS :: int
  um_Status :: int
  um_Bytes :: int
  um_OK :: bool
  um_Timeout :: bool
  um_Error :: string
  um_At :: int

record handshake_metrics =
  hm_ReadyMS :: int
  hm_ProbeMS :: int
  hm_OK :: bool
  hm_At :: int

record test_observation =
  ob_At :: int
  ob_Working :: bool
  ob_LatencyMS :: int
  ob_TimedOut :: bool
  ob_Backend :: string
  ob_FailureClass :: string

text \<open>
  \<open>Age\<close> of a measurement, in nanoseconds, on 64-bit durations: the product with a millisecond
  wraps around.
\<close>

definition int64 :: "int \<Rightarrow> int" where
  "int64 n = (n + 2 ^ 63) mod 2 ^ 64 - 2 ^ 63"

definition millisecond :: duration where "millisecond = 1000000"

definition ping_Age :: "ping_metrics option \<Rightarrow> int \<Rightarrow> duration" where
  "ping_Age p now_ms =
     (case p of None \<Rightarrow> 0
      | Some m \<Rightarrow> if pm_At m = 0 then 0 else int64 (int64 (now_ms - pm_At m) * millisecond))"

definition url_Age :: "url_metrics option \<Rightarrow> int \<Rightarrow> duration" where
  "url_Age u now_ms =
     (case u of None \<Rightarrow> 0
      | Some m \<Rightarrow> if um_At m = 0 then 0 else int64 (int64 (now_ms - um_At m) * millisecond))"

section \<open>The configuration\<close>

text \<open>
  Every field but \<open>Chain\<close>: the earlier hops of a chain are configurations whose own \<open>Chain\<close> is
  never read, so the hops are base records and \<open>config\<close> extends the base by the hop list (a
  nil pointer in it is \<open>None\<close>).
\<close>

record config_base =
  c_ID :: string
  c_Type :: string
  c_Name :: string
  c_Address :: string
  c_Port :: int
  c_UUID :: string
  c_Username :: string
  c_Password :: string
  c_Method :: string
  c_Network :: string
  c_Path :: string
  c_Host :: string
  c_Service :: string
  c_Security :: string
  c_ServerName :: string
  c_FingerprintProfile :: string
  c_PublicKey :: string
  c_ShortID :: string
  c_Insecure :: bool
  c_Flow :: string
  c_Encryption :: string
  c_AlterID :: int
  c_HeaderType :: string
  c_ALPN :: "string list"
  c_SpiderX :: string
  c_CongestionControl :: string
  c_UDPRelayMode :: string
  c_Obfs :: string
  c_ObfsPassword :: string
  c_ECHEnabled :: bool
  c_ECHConfig :: string
  c_ECHConfigPath :: string
  c_ECHQueryServerName :: string
  c_PrivateKey :: string
  c_InterfaceAddress :: "string list"
  c_AllowedIPs :: "string list"
  c_DNS :: "string list"
  c_MTU :: int
  c_PersistentKeepalive :: int
  c_UpMbps :: int
  c_DownMbps :: int
  c_Source :: string
  c_SourceTrust :: string
  c_Working :: bool
  c_LatencyMS :: int
  c_TestedAt :: int
  c_TestBackend :: string
  c_TestEndpoint :: string
  c_TestDurationMS :: int
  c_TestHistory :: "test_observation list"
  c_Ping :: "ping_metrics option"
  c_URLTest :: "url_metrics option"
  c_Handshake :: "handshake_metrics option"
  c_LastSuccessAt :: int
  c_FailureStreak :: int
  c_LastFailureReason :: string
  c_LastFailureAt :: int
  c_LastFailureClass :: string

record config = config_base +
  c_Chain :: "config_base option list"

end
