(* ===== verification/Config.thy ===== *)
theory Config
  imports ConfigData
begin

text \<open>
  The operations of \<open>engine/config\<close>: normalisation, fingerprints, validation, redaction, failure
  classification, the bounded test history and the evidence tuple (\<open>config.go\<close>, \<open>validate.go\<close>,
  \<open>redact.go\<close>). The parameter \<open>uni\<close> is \<open>strings.Map(unicode.ToLower, _)\<close> on non-ASCII strings,
  \<open>sha\<close> is SHA-256.
\<close>

section \<open>Value domains\<close>

definition TUICCongestionControlValues :: "string list" where
  "TUICCongestionControlValues = [''bbr'', ''cubic'', ''new_reno'']"

definition TUICUDPRelayModeValues :: "string list" where
  "TUICUDPRelayModeValues = [''native'', ''quic'']"

definition Hysteria2ObfsValues :: "string list" where
  "Hysteria2ObfsValues = [''salamander'', ''gecko'']"

definition ValidHysteria2Obfs :: "string \<Rightarrow> bool" where
  "ValidHysteria2Obfs v \<longleftrightarrow> list_ex (\<lambda>x. v = x) Hysteria2ObfsValues"

definition ValidTUICCongestionControl :: "string \<Rightarrow> bool" where
  "ValidTUICCongestionControl v \<longleftrightarrow> list_ex (\<lambda>x. v = x) TUICCongestionControlValues"

definition ValidTUICUDPRelayMode :: "string \<Rightarrow> bool" where
  "ValidTUICUDPRelayMode v \<longleftrightarrow> list_ex (\<lambda>x. v = x) TUICUDPRelayModeValues"

definition RouteTrusted :: "('a config_base_scheme) \<Rightarrow> bool" where
  "RouteTrusted c \<longleftrightarrow> c_SourceTrust c = ''official'' \<or> c_SourceTrust c = ''user''"

definition IsChain :: "config \<Rightarrow> bool" where
  "IsChain c \<longleftrightarrow> length (c_Chain c) > 0"

definition ChainHops :: "config \<Rightarrow> config list" where
  "ChainHops c =
     map (\<lambda>h. config_base.extend h \<lparr>c_Chain = []\<rparr>) (List.map_filter id (c_Chain c)) @ [c]"

section \<open>Failure classes\<close>

definition AllFailureClasses :: "string list" where
  "AllFailureClasses =
     [''dns'', ''tcp'', ''tls'', ''handshake'', ''listener'', ''verify'', ''reset'', ''timeout'', ''transport'']"

definition ValidFailureClass :: "string \<Rightarrow> bool" where
  "ValidFailureClass v \<longleftrightarrow> list_ex (\<lambda>x. v = x) AllFailureClasses"

definition containsAny :: "string \<Rightarrow> string list \<Rightarrow> bool" where
  "containsAny text needles \<longleftrightarrow> list_ex (str_contains text) needles"

definition classify_rules :: "(string list \<times> string) list" where
  "classify_rules =
     [([''no such host'', ''dns'', ''lookup '', ''name resolution'', ''servfail'', ''nxdomain'', ''resolver''], ''dns''),
      ([''listener'', ''bind'', ''address already in use'', ''port in use''], ''listener''),
      ([''tls'', ''certificate'', ''x509'', ''alert'', ''reality'', ''ech'', ''cipher'', ''ssl''], ''tls''),
      ([''handshake timeout'', ''not ready'', ''startup timeout'', ''core exited'',
        ''process exited during startup''], ''handshake''),
      ([''connection reset'', ''reset'', ''broken pipe'', ''eof'', ''connection aborted''], ''reset''),
      ([''refused'', ''unreachable'', ''no route'', ''network is down''], ''tcp''),
      ([''verify'', ''verification'', ''quorum'', ''target fetch''], ''verify''),
      ([''socks'', ''proxy'', ''protocol'', ''transport'', ''unsupported'', ''malformed'', ''invalid ''], ''transport''),
      ([''timeout'', ''deadline'', ''timed out'', ''i/o timeout''], ''timeout'')]"

definition ClassifyFailure :: "(string \<Rightarrow> string) \<Rightarrow> string \<Rightarrow> string" where
  "ClassifyFailure uni reason =
     (let text = ToLower uni (TrimSpace reason) in
      if text = '''' then ''''
      else case find (\<lambda>(needles, cls). containsAny text needles) classify_rules of
             None \<Rightarrow> ''''
           | Some (needles, cls) \<Rightarrow> cls)"

section \<open>Test history and evidence\<close>

definition TestHistoryLimit :: nat where
  "TestHistoryLimit = 12"

definition AppendTestObservation :: "int \<Rightarrow> test_observation \<Rightarrow> 'a config_base_scheme \<Rightarrow> 'a config_base_scheme" where
  "AppendTestObservation now_ms obs c =
     (let obs' = (if ob_At obs = 0 then obs\<lparr>ob_At := now_ms\<rparr> else obs);
          hist = c_TestHistory c @ [obs'];
          excess = int (length hist) - int TestHistoryLimit
      in c\<lparr>c_TestHistory := if excess > 0 then drop (nat excess) hist else hist\<rparr>)"

record failure_evidence =
  ev_LastVerifiedAt :: int
  ev_LastFailureAt :: int
  ev_RecentFailureClass :: string
  ev_VerificationAgeMS :: int

definition config_Evidence :: "int \<Rightarrow> 'a config_base_scheme \<Rightarrow> failure_evidence" where
  "config_Evidence now_ms c =
     (let age = (if c_LastSuccessAt c \<ge> c_LastFailureAt c \<and> c_LastSuccessAt c > 0
                 then int64 (now_ms - c_LastSuccessAt c)
                 else if c_LastFailureAt c > 0 then int64 (now_ms - c_LastFailureAt c) else 0)
      in \<lparr>ev_LastVerifiedAt = c_LastSuccessAt c, ev_LastFailureAt = c_LastFailureAt c,
          ev_RecentFailureClass = c_LastFailureClass c,
          ev_VerificationAgeMS = if age < 0 then 0 else age\<rparr>)"

section \<open>Normalisation\<close>

definition newline :: string where "newline = [CHR 0x0A]"

definition ECHPEMBegin :: string where "ECHPEMBegin = ''-----BEGIN ECH CONFIGS-----''"
definition ECHPEMEnd :: string where "ECHPEMEnd = ''-----END ECH CONFIGS-----''"

definition isContinuedBase64 :: "string \<Rightarrow> bool" where
  "isContinuedBase64 s \<longleftrightarrow>
     (let compact = without_space s in
      length compact \<noteq> 0 \<and> length compact mod 4 = 0 \<and>
      list_all (\<lambda>r. b64_value r \<noteq> None \<or> r = CHR ''='') compact)"

definition normalizeECHConfig :: "string \<Rightarrow> string" where
  "normalizeECHConfig value =
     (if value = '''' \<or> str_contains value ECHPEMBegin then value
      else let body = without_space value in
           if body = '''' \<or> \<not> isContinuedBase64 body then value
           else ECHPEMBegin @ newline @ body @ newline @ ECHPEMEnd @ newline)"

fun compact_loop :: "string list \<Rightarrow> string list \<Rightarrow> string list" where
  "compact_loop seen [] = []"
| "compact_loop seen (v # vs) =
     (let value = TrimSpace v in
      if value = '''' then compact_loop seen vs
      else if value \<in> set seen then compact_loop seen vs
      else value # compact_loop (value # seen) vs)"

definition compactStrings :: "string list \<Rightarrow> string list" where
  "compactStrings values = compact_loop [] values"

definition config_Normalize :: "(string \<Rightarrow> string) \<Rightarrow> 'a config_base_scheme \<Rightarrow> 'a config_base_scheme" where
  "config_Normalize uni c =
     c\<lparr>c_Type := lower_trim uni (c_Type c),
       c_Address := lower_trim uni (c_Address c),
       c_Name := TrimSpace (c_Name c),
       c_Network := lower_trim uni (c_Network c),
       c_Security := lower_trim uni (c_Security c),
       c_Method := lower_trim uni (c_Method c),
       c_ServerName := TrimSpace (c_ServerName c),
       c_Host := TrimSpace (c_Host c),
       c_Path := TrimSpace (c_Path c),
       c_Service := TrimSpace (c_Service c),
       c_FingerprintProfile := lower_trim uni (c_FingerprintProfile c),
       c_PublicKey := TrimSpace (c_PublicKey c),
       c_ShortID := TrimSpace (c_ShortID c),
       c_Flow := lower_trim uni (c_Flow c),
       c_Encryption := lower_trim uni (c_Encryption c),
       c_HeaderType := lower_trim uni (c_HeaderType c),
       c_SpiderX := TrimSpace (c_SpiderX c),
       c_CongestionControl := lower_trim uni (c_CongestionControl c),
       c_UDPRelayMode := lower_trim uni (c_UDPRelayMode c),
       c_Obfs := lower_trim uni (c_Obfs c),
       c_ObfsPassword := TrimSpace (c_ObfsPassword c),
       c_ECHConfig := normalizeECHConfig (TrimSpace (c_ECHConfig c)),
       c_ECHConfigPath := TrimSpace (c_ECHConfigPath c),
       c_ECHQueryServerName := TrimSpace (c_ECHQueryServerName c),
       c_ALPN := compactStrings (c_ALPN c),
       c_PrivateKey := TrimSpace (c_PrivateKey c),
       c_LastFailureClass := (if ValidFailureClass (c_LastFailureClass c) then c_LastFailureClass c else ''''),
       c_AllowedIPs := compactStrings (map TrimSpace (c_AllowedIPs c)),
       c_InterfaceAddress := compactStrings (map TrimSpace (c_InterfaceAddress c)),
       c_DNS := compactStrings (map TrimSpace (c_DNS c))\<rparr>"

section \<open>Fingerprints\<close>

definition NUL :: char where "NUL = CHR 0x00"

definition fingerprint_fields :: "'a config_base_scheme \<Rightarrow> string list" where
  "fingerprint_fields c =
     [c_Type c, c_Address c, Itoa (c_Port c), c_UUID c, c_Username c, c_Password c, c_Method c,
      c_Network c, c_Path c, c_Host c, c_Service c, c_Security c, c_ServerName c,
      c_FingerprintProfile c, c_PublicKey c, c_ShortID c, str_join '','' (c_AllowedIPs c),
      str_join '','' (c_DNS c), Itoa (c_MTU c), Itoa (c_PersistentKeepalive c)]"

text \<open>\<open>Fingerprint\<close> normalises its receiver; the normalised configuration is returned too.\<close>

definition Fingerprint ::
  "(bytes \<Rightarrow> bytes) \<Rightarrow> (string \<Rightarrow> string) \<Rightarrow> 'a config_base_scheme \<Rightarrow> string \<times> 'a config_base_scheme" where
  "Fingerprint sha uni c =
     (let c' = config_Normalize uni c;
          data = str_join [NUL] (fingerprint_fields c')
      in (hex_encode (sha (str_bytes data)), c'))"

definition SetID :: "(bytes \<Rightarrow> bytes) \<Rightarrow> (string \<Rightarrow> string) \<Rightarrow> 'a config_base_scheme \<Rightarrow> 'a config_base_scheme" where
  "SetID sha uni c = (let (f, c') = Fingerprint sha uni c in c'\<lparr>c_ID := f\<rparr>)"

text \<open>
  The hops are normalised through their pointers as well; two entries of the chain that point to
  the same hop are two equal records here, and normalising the second again changes only
  \<open>ECHConfig\<close>, which no fingerprint reads.
\<close>

definition ChainFingerprint ::
  "(bytes \<Rightarrow> bytes) \<Rightarrow> (string \<Rightarrow> string) \<Rightarrow> config \<Rightarrow> string \<times> config" where
  "ChainFingerprint sha uni c =
     (if c_Chain c = [] then Fingerprint sha uni c
      else let (f, c') = Fingerprint sha uni c;
               hops = map (map_option (Fingerprint sha uni)) (c_Chain c');
               data = ''proxy-chain'' @ [NUL] @ f @ concat (map (\<lambda>h. [NUL] @ fst h) (List.map_filter id hops))
           in (hex_encode (sha (str_bytes data)), c'\<lparr>c_Chain := map (map_option snd) hops\<rparr>))"

section \<open>Redaction\<close>

definition SecretPlaceholder :: string where "SecretPlaceholder = ''***''"

definition SecretFields :: "'a config_base_scheme \<Rightarrow> string list" where
  "SecretFields c = filter (\<lambda>v. TrimSpace v \<noteq> '''') [c_UUID c, c_Password c, c_PublicKey c, c_PrivateKey c]"

definition redact_value :: "string \<Rightarrow> string" where
  "redact_value v = (if v \<noteq> '''' then SecretPlaceholder else v)"

definition Redacted :: "'a config_base_scheme \<Rightarrow> 'a config_base_scheme" where
  "Redacted c =
     c\<lparr>c_UUID := redact_value (c_UUID c), c_Password := redact_value (c_Password c),
       c_PublicKey := redact_value (c_PublicKey c), c_PrivateKey := redact_value (c_PrivateKey c)\<rparr>"

definition DisplayURL :: "'a config_base_scheme \<Rightarrow> string" where
  "DisplayURL c =
     (let scheme = (if c_Type c = '''' \<or> c_Type c = ''unknown'' then ''config'' else c_Type c);
          host = (if c_Address c = '''' then ''unknown'' else c_Address c);
          endpoint = JoinHostPort host (Itoa (c_Port c));
          parts = (if c_Security c \<noteq> '''' \<and> c_Security c \<noteq> ''none'' then [c_Security c] else [])
                @ (if c_Network c \<noteq> '''' \<and> c_Network c \<noteq> ''tcp'' then [c_Network c] else [])
      in scheme @ ''://'' @ SecretPlaceholder @ ''@'' @ endpoint
           @ (if length parts > 0 then '' ('' @ str_join '','' parts @ '')'' else ''''))"

definition DisplayString :: "'a config_base_scheme \<Rightarrow> string" where
  "DisplayString c = DisplayURL c"

section \<open>Validation\<close>

datatype config_err =
    MissingType | MissingAddress | InvalidPort int | UnsupportedProtocol string
  | VLESSUUID | VMessUUID | TrojanPassword | ShadowsocksMethod | ShadowsocksPassword
  | HysteriaAuth | HysteriaObfs string | TUICUUID | TUICPassword | TUICCongestion string
  | TUICRelay string | WireGuardKey | ECHNeedsTLS string | ECHNotApplicable string
  | ECHReality | ECHAmbiguous | ECHNotPEM

definition validateVLESS :: "'a config_base_scheme \<Rightarrow> config_err option" where
  "validateVLESS c = (if TrimSpace (c_UUID c) = '''' then Some VLESSUUID else None)"

definition validateVMess :: "'a config_base_scheme \<Rightarrow> config_err option" where
  "validateVMess c = (if TrimSpace (c_UUID c) = '''' then Some VMessUUID else None)"

definition validateTrojan :: "'a config_base_scheme \<Rightarrow> config_err option" where
  "validateTrojan c = (if TrimSpace (c_Password c) = '''' then Some TrojanPassword else None)"

definition validateShadowsocks :: "'a config_base_scheme \<Rightarrow> config_err option" where
  "validateShadowsocks c =
     (if TrimSpace (c_Method c) = '''' then Some ShadowsocksMethod
      else if TrimSpace (c_Password c) = '''' then Some ShadowsocksPassword else None)"

definition validateHysteria :: "'a config_base_scheme \<Rightarrow> config_err option" where
  "validateHysteria c =
     (if TrimSpace (c_Password c) = '''' \<and> TrimSpace (c_UUID c) = '''' then Some HysteriaAuth
      else if c_Type c = ''hysteria2'' then
        (if c_Obfs c \<noteq> '''' \<and> \<not> ValidHysteria2Obfs (c_Obfs c) then Some (HysteriaObfs (c_Obfs c)) else None)
      else None)"

definition validateTUIC :: "'a config_base_scheme \<Rightarrow> config_err option" where
  "validateTUIC c =
     (if TrimSpace (c_UUID c) = '''' then Some TUICUUID
      else if TrimSpace (c_Password c) = '''' then Some TUICPassword
      else if c_CongestionControl c \<noteq> '''' \<and> \<not> ValidTUICCongestionControl (c_CongestionControl c)
      then Some (TUICCongestion (c_CongestionControl c))
      else if c_UDPRelayMode c \<noteq> '''' \<and> \<not> ValidTUICUDPRelayMode (c_UDPRelayMode c)
      then Some (TUICRelay (c_UDPRelayMode c))
      else None)"

definition validateWireGuard :: "'a config_base_scheme \<Rightarrow> config_err option" where
  "validateWireGuard c = (if TrimSpace (c_PublicKey c) = '''' then Some WireGuardKey else None)"

definition validateProxy :: "'a config_base_scheme \<Rightarrow> config_err option" where
  "validateProxy c = None"

definition validECHPEM :: "string \<Rightarrow> bool" where
  "validECHPEM v =
     (let value = TrimSpace v in
      if \<not> HasPrefix value ECHPEMBegin \<or> \<not> str_contains value ECHPEMEnd then False
      else let body0 = TrimPrefix value ECHPEMBegin;
               body1 = (case str_index ECHPEMEnd body0 of None \<Rightarrow> body0 | Some e \<Rightarrow> take e body0);
               body = TrimSpace body1
           in if body = '''' then False
              else list_all (\<lambda>l. let line = TrimSpace l in
                     line = '''' \<or> (case b64_decode line of None \<Rightarrow> False | Some d \<Rightarrow> length d \<noteq> 0))
                   (split_char (CHR 0x0A) body))"

definition validateECH :: "'a config_base_scheme \<Rightarrow> config_err option" where
  "validateECH c =
     (if \<not> c_ECHEnabled c then None
      else if c_Type c \<notin> {''hysteria'', ''hysteria2'', ''tuic''} \<and>
              c_Type c \<in> {''vless'', ''vmess'', ''trojan'', ''shadowsocks''} \<and> c_Security c \<noteq> ''tls''
      then Some (ECHNeedsTLS (c_Security c))
      else if c_Type c \<notin> {''hysteria'', ''hysteria2'', ''tuic''} \<and>
              c_Type c \<notin> {''vless'', ''vmess'', ''trojan'', ''shadowsocks''}
      then Some (ECHNotApplicable (c_Type c))
      else if c_Security c = ''reality'' then Some ECHReality
      else if c_ECHConfig c \<noteq> '''' \<and> c_ECHConfigPath c \<noteq> '''' then Some ECHAmbiguous
      else if c_ECHConfig c \<noteq> '''' \<and> \<not> validECHPEM (c_ECHConfig c) then Some ECHNotPEM
      else None)"

text \<open>\<open>Validate\<close> normalises its receiver; the error and the normalised configuration are returned.\<close>

definition config_Validate ::
  "(string \<Rightarrow> string) \<Rightarrow> 'a config_base_scheme \<Rightarrow> config_err option \<times> 'a config_base_scheme" where
  "config_Validate uni c0 =
     (let c = config_Normalize uni c0 in
      (if c_Type c = '''' \<or> c_Type c = ''unknown'' then Some MissingType
       else if TrimSpace (c_Address c) = '''' then Some MissingAddress
       else if c_Port c < 1 \<or> c_Port c > 65535 then Some (InvalidPort (c_Port c))
       else case validateECH c of
              Some e \<Rightarrow> Some e
            | None \<Rightarrow>
                if c_Type c = ''vless'' then validateVLESS c
                else if c_Type c = ''vmess'' then validateVMess c
                else if c_Type c = ''trojan'' then validateTrojan c
                else if c_Type c = ''shadowsocks'' then validateShadowsocks c
                else if c_Type c = ''hysteria'' \<or> c_Type c = ''hysteria2'' then validateHysteria c
                else if c_Type c = ''tuic'' then validateTUIC c
                else if c_Type c = ''wireguard'' then validateWireGuard c
                else if c_Type c = ''socks'' \<or> c_Type c = ''http'' then validateProxy c
                else Some (UnsupportedProtocol (c_Type c)), c))"

definition config_Endpoint :: "'a config_base_scheme \<Rightarrow> string" where
  "config_Endpoint c = JoinHostPort (c_Address c) (Itoa (c_Port c))"

end
