(* ===== verification/ConfigProps.thy ===== *)
theory ConfigProps
  imports Config
begin

text \<open>
  Properties of the configuration model: lists are compacted to their first trimmed occurrences,
  normalisation is stable, fingerprints identify exactly the identity fields, validation does not
  depend on how often a configuration was normalised, raw ECH configurations are wrapped into an
  accepted envelope, redaction, failure classes and the bounded history.
\<close>

section \<open>Compacting lists of strings\<close>

text \<open>The reference: trim, drop the empty strings, keep the first of each value.\<close>

definition first_occurrences :: "'a list \<Rightarrow> 'a list" where
  "first_occurrences xs = rev (remdups (rev xs))"

lemma first_occurrences_Cons:
  "first_occurrences (x # xs) = x # filter (\<lambda>y. y \<noteq> x) (first_occurrences xs)"
proof -
  have "remdups (xs @ [x]) = filter (\<lambda>y. y \<noteq> x) (remdups xs) @ [x]" for xs :: "'a list"
  proof (induction xs)
    case (Cons y ys)
    then show ?case by (cases "y = x") (auto simp: filter_id_conv)
  qed simp
  then show ?thesis by (simp add: first_occurrences_def rev_filter)
qed

lemma compact_loop_eq:
  "compact_loop seen vs =
     filter (\<lambda>v. v \<notin> set seen) (first_occurrences (filter (\<lambda>v. v \<noteq> '''') (map TrimSpace vs)))"
proof (induction seen vs rule: compact_loop.induct)
  case (1 seen)
  then show ?case by (simp add: first_occurrences_def)
next
  case (2 seen v vs)
  let ?F = "first_occurrences (filter (\<lambda>v. v \<noteq> '''') (map TrimSpace vs))"
  consider "TrimSpace v = ''''" | "TrimSpace v \<noteq> ''''" "TrimSpace v \<in> set seen"
    | "TrimSpace v \<noteq> ''''" "TrimSpace v \<notin> set seen" by blast
  then show ?case
  proof cases
    case 2
    have "filter (\<lambda>y. y \<noteq> TrimSpace v \<and> y \<notin> set seen) ?F = filter (\<lambda>y. y \<notin> set seen) ?F"
      using 2(2) by (metis (mono_tags))
    with 2 "2.IH"(2) [OF refl 2] show ?thesis
      by (simp add: first_occurrences_Cons filter_filter conj_commute)
  next
    case 3
    with "2.IH"(3) [OF refl 3] show ?thesis
      by (simp add: Let_def first_occurrences_Cons filter_filter conj_commute)
  qed (use "2.IH"(1) in simp)
qed

lemma compactStrings_eq:
  "compactStrings vs = first_occurrences (filter (\<lambda>v. v \<noteq> '''') (map TrimSpace vs))"
  by (simp add: compactStrings_def compact_loop_eq)

lemma first_occurrences_distinct: "distinct xs \<Longrightarrow> first_occurrences xs = xs"
  by (simp add: first_occurrences_def distinct_remdups_id)

lemma compactStrings_elems:
  "x \<in> set (compactStrings vs) \<Longrightarrow> x \<noteq> '''' \<and> TrimSpace x = x"
  by (auto simp: compactStrings_eq first_occurrences_def)

lemma compactStrings_distinct: "distinct (compactStrings vs)"
  by (simp add: compactStrings_eq first_occurrences_def)

lemma compactStrings_map_trim: "compactStrings (map TrimSpace vs) = compactStrings vs"
  by (simp add: compactStrings_eq comp_def)

lemma compactStrings_idem [simp]: "compactStrings (compactStrings vs) = compactStrings vs"
proof -
  have "map TrimSpace (compactStrings vs) = compactStrings vs"
    using compactStrings_elems by (simp add: map_idI)
  moreover have "filter (\<lambda>v. v \<noteq> '''') (compactStrings vs) = compactStrings vs"
    using compactStrings_elems by (simp add: filter_id_conv)
  ultimately show ?thesis
    by (metis compactStrings_eq compactStrings_distinct first_occurrences_distinct)
qed

section \<open>White space and the characters of an envelope\<close>

lemma rune_prefix_hd: "rune_prefix rs (c # s) = Some r \<Longrightarrow> r \<in> set rs \<and> c \<in> set r"
proof -
  assume "rune_prefix rs (c # s) = Some r"
  then have r: "r \<in> set rs" "r \<noteq> []" "c # s = r @ drop (length r) (c # s)"
    using rune_prefix_SomeD by auto
  then have "c = hd r" by (metis hd_append2 list.sel(1))
  with r show ?thesis by simp
qed

lemma rune_prefix_fresh: "\<forall>r \<in> set rs. c \<notin> set r \<Longrightarrow> rune_prefix rs (c # s) = None"
  using rune_prefix_hd by (metis not_None_eq)

text \<open>The characters of a base64 text and of the envelope lines are in no white space code point.\<close>

lemma space_rune_codes:
  assumes "r \<in> set space_runes" "c \<in> set r"
  shows "(of_char c :: nat) \<le> 32 \<and> r = [c] \<or> 128 \<le> (of_char c :: nat)"
proof -
  have "r \<in> (\<lambda>n. [char_of (n :: nat)]) ` {9, 10, 11, 12, 13, 32} \<or>
      (\<exists>ns. r = map (\<lambda>n. char_of (n :: nat)) ns \<and> (\<forall>n \<in> set ns. 128 \<le> n \<and> n < 256))"
    using assms(1) unfolding space_runes_def set_append set_map by fastforce
  with assms(2) show ?thesis by auto
qed

definition graphic :: "char \<Rightarrow> bool" where
  "graphic c \<longleftrightarrow> 32 < (of_char c :: nat) \<and> (of_char c :: nat) < 128"

lemma graphic_fresh:
  assumes "graphic c"
  shows "\<forall>r \<in> set space_runes. c \<notin> set r" "\<forall>r \<in> set (map rev space_runes). c \<notin> set r"
  using assms space_rune_codes by (fastforce simp: graphic_def)+

lemma trim_left_graphic:
  assumes "graphic c"
  shows "trim_left space_runes (c # s) = c # s" "trim_left (map rev space_runes) (c # s) = c # s"
  using rune_prefix_fresh [OF graphic_fresh(1) [OF assms]] rune_prefix_fresh [OF graphic_fresh(2) [OF assms]]
  by (simp_all add: trim_left_fixed)

lemma newline_space: "[CHR 0x0A] \<in> set space_runes" "[CHR 0x0D] \<in> set space_runes"
proof -
  have "CHR 0x0A = char_of (10 :: nat)" "CHR 0x0D = char_of (13 :: nat)" by code_simp+
  then show "[CHR 0x0A] \<in> set space_runes" "[CHR 0x0D] \<in> set space_runes" by (simp_all add: space_runes_def)
qed

lemma trim_left_newline:
  "trim_left space_runes (CHR 0x0A # s) = trim_left space_runes s"
  "trim_left (map rev space_runes) (CHR 0x0A # s) = trim_left (map rev space_runes) s"
proof -
  have "rune_prefix rs (CHR 0x0A # s) = Some [CHR 0x0A]"
    if rs: "rs = space_runes \<or> rs = map rev space_runes" for rs
  proof -
    have "[CHR 0x0A] \<in> set rs" using newline_space(1) rs by (auto simp: image_iff)
    then obtain r where r: "rune_prefix rs (CHR 0x0A # s) = Some r"
      using rune_prefix_NoneD [of rs "CHR 0x0A # s" "[CHR 0x0A]"] by auto
    from rune_prefix_hd [OF this] rs have "r = [CHR 0x0A]"
      using space_rune_codes [of r "CHR 0x0A"] space_rune_codes [of "rev r" "CHR 0x0A"]
      by (auto simp: rev_swap)
    with r show ?thesis by simp
  qed
  then show "trim_left space_runes (CHR 0x0A # s) = trim_left space_runes s"
    "trim_left (map rev space_runes) (CHR 0x0A # s) = trim_left (map rev space_runes) s"
    by (subst trim_left.simps; simp)+
qed

text \<open>Trimming removes the line breaks around a text that begins and ends with graphic characters.\<close>

lemma TrimSpace_lines:
  assumes "s \<noteq> []" "graphic (hd s)" "graphic (last s)"
  shows "TrimSpace s = s" "TrimSpace (s @ newline) = s" "TrimSpace (newline @ s @ newline) = s"
proof -
  obtain c t where c: "s = c # t" using assms(1) by (cases s) auto
  obtain d u where d: "rev s = d # u" using assms(1) by (cases "rev s") auto
  have "graphic c" using c assms(2) by simp
  moreover have "graphic d" using d assms(3) by (metis hd_rev list.sel(1))
  ultimately have r: "trim_left space_runes (s @ x) = s @ x"
      "trim_left (map rev space_runes) (rev s @ x) = rev s @ x" for x
    using trim_left_graphic c d by auto
  from r [of "[]"] r(1) [of newline] show "TrimSpace s = s" "TrimSpace (s @ newline) = s"
    "TrimSpace (newline @ s @ newline) = s"
    by (simp_all add: TrimSpace_def newline_def trim_left_newline)
qed

section \<open>The ECH envelope\<close>

definition ech_envelope :: "string \<Rightarrow> string" where
  "ech_envelope body = ECHPEMBegin @ newline @ body @ newline @ ECHPEMEnd"

lemma ech_envelope_trim:
  "TrimSpace (ech_envelope body) = ech_envelope body"
  "TrimSpace (ech_envelope body @ newline) = ech_envelope body"
proof -
  have "graphic (CHR ''-'')" by (simp add: graphic_def)
  then have "ech_envelope body \<noteq> []" "graphic (hd (ech_envelope body))" "graphic (last (ech_envelope body))"
    by (simp_all add: ech_envelope_def ECHPEMBegin_def ECHPEMEnd_def)
  from TrimSpace_lines [OF this] show "TrimSpace (ech_envelope body) = ech_envelope body"
    "TrimSpace (ech_envelope body @ newline) = ech_envelope body" by simp_all
qed

lemma ech_envelope_contains: "str_contains (ech_envelope body) ECHPEMBegin"
  unfolding str_contains_iff ech_envelope_def by (metis append_Nil)

lemma normalizeECHConfig_cases:
  "normalizeECHConfig v = v \<or> normalizeECHConfig v = ech_envelope (without_space v) @ newline"
  by (simp add: normalizeECHConfig_def ech_envelope_def Let_def)

lemma normalizeECHConfig_stable:
  "normalizeECHConfig (TrimSpace (normalizeECHConfig (TrimSpace v))) = TrimSpace (normalizeECHConfig (TrimSpace v))"
  using normalizeECHConfig_cases [of "TrimSpace v"]
proof
  assume "normalizeECHConfig (TrimSpace v) = ech_envelope (without_space (TrimSpace v)) @ newline"
  then show ?thesis
    by (simp add: ech_envelope_trim) (simp add: normalizeECHConfig_def ech_envelope_contains)
qed simp

lemma validECHPEM_trim [simp]: "validECHPEM (TrimSpace v) = validECHPEM v"
  by (simp add: validECHPEM_def)

text \<open>Base64 text consists of graphic characters other than the dash, so nothing in it is stripped.\<close>

definition b64_char :: "char \<Rightarrow> bool" where
  "b64_char c \<longleftrightarrow> b64_value c \<noteq> None \<or> c = CHR ''=''"

lemma b64_char_graphic:
  assumes "b64_char c"
  shows "graphic c" "c \<noteq> CHR ''-''" "c \<noteq> CHR 0x0A" "c \<noteq> CHR 0x0D"
proof -
  have "(of_char c :: nat) \<in> {43, 47, 61} \<union> {48..57} \<union> {65..90} \<union> {97..122}"
    using assms by (auto simp: b64_char_def b64_value_def Let_def split: if_splits)
  then show "graphic c" "c \<noteq> CHR ''-''" "c \<noteq> CHR 0x0A" "c \<noteq> CHR 0x0D"
    by (auto simp: graphic_def)
qed

lemma without_space_graphic: "\<forall>c \<in> set s. graphic c \<Longrightarrow> without_space s = s"
proof (induction s)
  case (Cons c s)
  then have "rune_prefix space_runes (c # s) = None"
    by (intro rune_prefix_fresh graphic_fresh) simp
  with Cons show ?case by (simp add: without_space_def)
qed (simp add: without_space_def)

text \<open>What stays of a text: no line break does, every graphic character does.\<close>

lemma strip_runes_no_single: "[c] \<in> set rs \<Longrightarrow> c \<notin> set (strip_runes rs s)"
proof (induction rs s rule: strip_runes.induct)
  case (2 rs c' s)
  show ?case
  proof (cases "rune_prefix rs (c' # s)")
    case None
    then have "c' \<noteq> c" using rune_prefix_NoneD [OF None 2(3)] by auto
    with None 2 show ?thesis by simp
  qed (use 2 in simp)
qed simp

lemma strip_runes_keeps:
  "\<forall>r \<in> set rs. c \<notin> set r \<Longrightarrow> c \<in> set s \<Longrightarrow> c \<in> set (strip_runes rs s)"
proof (induction rs s rule: strip_runes.induct)
  case (2 rs c' s)
  show ?case
  proof (cases "rune_prefix rs (c' # s)")
    case (Some r)
    have r: "r \<in> set rs" "c' # s = r @ drop (length r) (c' # s)" using rune_prefix_SomeD [OF Some] by auto
    then have "c \<in> set (drop (length r) (c' # s))" using 2(3,4) by (metis UnE set_append)
    with 2(2) [OF Some 2(3)] Some show ?thesis by simp
  qed (use 2 in auto)
qed simp

lemma without_space_no_breaks:
  "filter (\<lambda>c. c \<noteq> CHR 0x0A \<and> c \<noteq> CHR 0x0D) (without_space s) = without_space s"
  unfolding without_space_def filter_id_conv using strip_runes_no_single newline_space by blast

lemma b64_quanta_chars:
  "b64_quanta s = Some d \<Longrightarrow> (\<forall>c \<in> set s. b64_char c) \<and> length s mod 4 = 0 \<and> (s \<noteq> [] \<longrightarrow> d \<noteq> [])"
proof (induction s arbitrary: d rule: b64_quanta.induct)
  case (2 a b c e rest)
  have ab: "b64_char a" "b64_char b" using 2(2) by (auto simp: b64_char_def split: option.splits)
  show ?case
  proof (cases "rest = [] \<and> (c = CHR ''='' \<or> e = CHR ''='')")
    case True
    with 2(2) ab show ?thesis by (auto simp: b64_char_def split: option.splits if_splits)
  next
    case False
    with 2(2) obtain va vb vc ve bs where v: "b64_value a = Some va" "b64_value b = Some vb"
        "c \<noteq> CHR ''=''" "b64_value c = Some vc" "e \<noteq> CHR ''=''" "b64_value e = Some ve"
        "b64_quanta rest = Some bs" "d \<noteq> []"
      by (auto split: option.splits if_splits)
    then have "(\<forall>c \<in> set rest. b64_char c) \<and> length rest mod 4 = 0" using 2(1) by blast
    with ab v show ?thesis by (auto simp: b64_char_def)
  qed
qed simp_all

lemma str_index_fresh:
  assumes "\<forall>c \<in> set p. c \<noteq> x"
  shows "str_index (x # n) (p @ x # n @ q) = Some (length p)"
  using assms by (induction p) auto

lemma base64_body:
  assumes "b64_decode (without_space w) = Some d" "d \<noteq> []"
  shows "\<forall>c \<in> set (without_space w). b64_char c" "length (without_space w) mod 4 = 0" "without_space w \<noteq> []"
  using b64_quanta_chars [of "without_space w" d] assms by (auto simp: b64_decode_def without_space_no_breaks)

lemma normalize_base64:
  assumes "b64_decode (without_space w) = Some d" "d \<noteq> []"
  shows "normalizeECHConfig w = ech_envelope (without_space w) @ newline"
proof -
  let ?b = "without_space w"
  note b = base64_body [OF assms]
  have g: "without_space ?b = ?b" using b(1) b64_char_graphic(1) by (intro without_space_graphic) blast
  have "CHR ''-'' \<notin> set w"
  proof
    assume "CHR ''-'' \<in> set w"
    moreover have "graphic (CHR ''-'')" by (simp add: graphic_def)
    ultimately have "CHR ''-'' \<in> set ?b"
      unfolding without_space_def by (intro strip_runes_keeps graphic_fresh)
    with b(1) b64_char_graphic(2) show False by blast
  qed
  moreover have "CHR ''-'' \<in> set ECHPEMBegin" by (simp add: ECHPEMBegin_def)
  ultimately have "\<not> str_contains w ECHPEMBegin" by (auto simp: str_contains_iff)
  moreover have "w \<noteq> []" using b(3) by (auto simp: without_space_def)
  moreover have "isContinuedBase64 ?b" using b g by (simp add: isContinuedBase64_def Let_def b64_char_def list_all_iff)
  ultimately show ?thesis using b(3) by (simp add: normalizeECHConfig_def ech_envelope_def Let_def)
qed

lemma validECHPEM_envelope:
  assumes "b64_decode (without_space w) = Some d" "d \<noteq> []"
  shows "validECHPEM (ech_envelope (without_space w) @ newline)"
proof -
  let ?b = "without_space w" and ?E = "ech_envelope (without_space w)"
  note b = base64_body [OF assms]
  have pre: "TrimPrefix ?E ECHPEMBegin = newline @ ?b @ newline @ ECHPEMEnd" "HasPrefix ?E ECHPEMBegin"
    by (simp_all add: TrimPrefix_def HasPrefix_def ech_envelope_def)
  obtain n where n: "ECHPEMEnd = CHR ''-'' # n" by (simp add: ECHPEMEnd_def)
  have "str_index (CHR ''-'' # n) ((newline @ ?b @ newline) @ CHR ''-'' # n @ []) = Some (length (newline @ ?b @ newline))"
    using b(1) b64_char_graphic(2) by (intro str_index_fresh) (auto simp: newline_def)
  then have idx: "str_index ECHPEMEnd (newline @ ?b @ newline @ ECHPEMEnd) = Some (length (newline @ ?b @ newline))"
    by (simp add: n)
  have "\<exists>p q. ?E = p @ ECHPEMEnd @ q" unfolding ech_envelope_def by (metis append_Nil2 append.assoc)
  then have c: "str_contains ?E ECHPEMEnd" by (simp add: str_contains_iff)
  have t: "TrimSpace ?b = ?b" "TrimSpace (newline @ ?b @ newline) = ?b"
    using b b64_char_graphic(1) by (intro TrimSpace_lines; simp)+
  have s: "split_char (CHR 0x0A) ?b = [?b]" using b(1) b64_char_graphic(3) by (intro split_char_fresh) blast
  have tk: "take (length (newline @ ?b @ newline)) (newline @ ?b @ newline @ ECHPEMEnd) = newline @ ?b @ newline"
    by simp
  have "validECHPEM ?E"
    unfolding validECHPEM_def Let_def ech_envelope_trim pre(1) idx option.case tk t(2) s
    using pre(2) c b(3) assms by (simp add: t(1))
  then show ?thesis using validECHPEM_trim [of "?E @ newline"] by (simp add: ech_envelope_trim)
qed

text \<open>
  A raw base64 ECH configuration list is accepted: white space removed, it is wrapped into an
  envelope that the validator recognises, provided it decodes to at least one byte.
\<close>

theorem ech_base64_accepted:
  assumes "b64_decode (without_space (TrimSpace v)) = Some d" "d \<noteq> []"
  shows "validECHPEM (normalizeECHConfig (TrimSpace v))"
  using validECHPEM_envelope [OF assms] normalize_base64 [OF assms] by simp

lemma base64_sample:
  "TrimSpace ''AEX+DQBB'' = ''AEX+DQBB''" "without_space ''AEX+DQBB'' = ''AEX+DQBB''"
  "b64_decode ''AEX+DQBB'' = Some [0x00, 0x45, 0xFE, 0x0D, 0x00, 0x41]"
proof -
  have "graphic (CHR ''A'')" "graphic (CHR ''B'')" "\<forall>c \<in> set ''AEX+DQBB''. graphic c"
    by (simp_all add: graphic_def)
  then show "TrimSpace ''AEX+DQBB'' = ''AEX+DQBB''" "without_space ''AEX+DQBB'' = ''AEX+DQBB''"
    by (intro TrimSpace_lines(1) without_space_graphic; simp)+
qed code_simp

theorem ech_base64_accepted_witness:
  "b64_decode (without_space (TrimSpace ''AEX+DQBB'')) = Some [0x00, 0x45, 0xFE, 0x0D, 0x00, 0x41]
   \<and> validECHPEM (normalizeECHConfig (TrimSpace ''AEX+DQBB''))"
  using ech_base64_accepted [of "''AEX+DQBB''"] base64_sample by simp

section \<open>Normalisation\<close>

lemma normalize_twice:
  assumes "unicode_lower_ok uni"
  shows "config_Normalize uni (config_Normalize uni c) =
    (config_Normalize uni c)\<lparr>c_ECHConfig := TrimSpace (c_ECHConfig (config_Normalize uni c))\<rparr>"
  unfolding config_Normalize_def
  by (simp add: lower_trim_idem [OF assms] compactStrings_map_trim normalizeECHConfig_stable)

text \<open>
  Normalising a configuration twice equals normalising it once, except for the line break that
  ends a wrapped ECH configuration, which the second normalisation trims; a third one changes
  nothing more. (The Unicode tables are assumed to lower-case idempotently and without making
  white space.)
\<close>

theorem normalize_stable:
  assumes "unicode_lower_ok uni"
  shows "config_Normalize uni (config_Normalize uni c) =
      (config_Normalize uni c)\<lparr>c_ECHConfig := TrimSpace (c_ECHConfig (config_Normalize uni c))\<rparr>
    \<and> config_Normalize uni (config_Normalize uni (config_Normalize uni c)) =
        config_Normalize uni (config_Normalize uni c)"
proof -
  note once = normalize_twice [OF assms]
  let ?N = "config_Normalize uni c" and ?T = "TrimSpace (c_ECHConfig (config_Normalize uni c))"
  have "config_Normalize uni (config_Normalize uni ?N) = ?N\<lparr>c_ECHConfig := ?T\<rparr>"
    by (subst once [of ?N], subst (1 2) once [of c]) simp
  with once [of c] show ?thesis by simp
qed

text \<open>Go's zero value of a configuration, from which the examples are built.\<close>

definition zero_config :: config where
  "zero_config =
     \<lparr>c_ID = '''', c_Type = '''', c_Name = '''', c_Address = '''', c_Port = 0, c_UUID = '''', c_Username = '''',
      c_Password = '''', c_Method = '''', c_Network = '''', c_Path = '''', c_Host = '''', c_Service = '''',
      c_Security = '''', c_ServerName = '''', c_FingerprintProfile = '''', c_PublicKey = '''', c_ShortID = '''',
      c_Insecure = False, c_Flow = '''', c_Encryption = '''', c_AlterID = 0, c_HeaderType = '''', c_ALPN = [],
      c_SpiderX = '''', c_CongestionControl = '''', c_UDPRelayMode = '''', c_Obfs = '''', c_ObfsPassword = '''',
      c_ECHEnabled = False, c_ECHConfig = '''', c_ECHConfigPath = '''', c_ECHQueryServerName = '''',
      c_PrivateKey = '''', c_InterfaceAddress = [], c_AllowedIPs = [], c_DNS = [], c_MTU = 0,
      c_PersistentKeepalive = 0, c_UpMbps = 0, c_DownMbps = 0, c_Source = '''', c_SourceTrust = '''',
      c_Working = False, c_LatencyMS = 0, c_TestedAt = 0, c_TestBackend = '''', c_TestEndpoint = '''',
      c_TestDurationMS = 0, c_TestHistory = [], c_Ping = None, c_URLTest = None, c_Handshake = None,
      c_LastSuccessAt = 0, c_FailureStreak = 0, c_LastFailureReason = '''', c_LastFailureAt = 0,
      c_LastFailureClass = '''', c_Chain = []\<rparr>"

lemma unicode_lower_ok_id: "unicode_lower_ok (\<lambda>s. s)"
  by (simp add: unicode_lower_ok_def ToLower_def)

definition ech_sample :: config where
  "ech_sample = zero_config\<lparr>c_Type := '' Trojan'', c_Address := ''Example.ORG'', c_Port := 443,
     c_Password := ''pw'', c_Security := ''TLS'', c_ECHEnabled := True, c_ECHConfig := ''AEX+DQBB''\<rparr>"

text \<open>The second normalisation does change something.\<close>

lemma normalize_sample:
  "c_ECHConfig (config_Normalize (\<lambda>s. s) ech_sample) = ech_envelope ''AEX+DQBB'' @ newline"
proof -
  have "normalizeECHConfig (TrimSpace ''AEX+DQBB'') = ech_envelope ''AEX+DQBB'' @ newline"
    using normalize_base64 [of "''AEX+DQBB''"] base64_sample by simp
  then show ?thesis by (simp add: config_Normalize_def ech_sample_def)
qed

theorem normalize_stable_witness:
  "unicode_lower_ok (\<lambda>s. s)
   \<and> config_Normalize (\<lambda>s. s) (config_Normalize (\<lambda>s. s) ech_sample) =
      (config_Normalize (\<lambda>s. s) ech_sample)\<lparr>c_ECHConfig := ech_envelope ''AEX+DQBB''\<rparr>
   \<and> config_Normalize (\<lambda>s. s) (config_Normalize (\<lambda>s. s) ech_sample) \<noteq> config_Normalize (\<lambda>s. s) ech_sample"
proof -
  have e: "config_Normalize (\<lambda>s. s) (config_Normalize (\<lambda>s. s) ech_sample) =
      (config_Normalize (\<lambda>s. s) ech_sample)\<lparr>c_ECHConfig := ech_envelope ''AEX+DQBB''\<rparr>"
    using normalize_stable [OF unicode_lower_ok_id, of ech_sample]
    by (simp add: normalize_sample ech_envelope_trim)
  have "c_ECHConfig (config_Normalize (\<lambda>s. s) (config_Normalize (\<lambda>s. s) ech_sample))
      \<noteq> c_ECHConfig (config_Normalize (\<lambda>s. s) ech_sample)"
    unfolding e by (simp add: normalize_sample newline_def)
  then have "config_Normalize (\<lambda>s. s) (config_Normalize (\<lambda>s. s) ech_sample) \<noteq> config_Normalize (\<lambda>s. s) ech_sample"
    by metis
  with e unicode_lower_ok_id show ?thesis by blast
qed

section \<open>Fingerprints\<close>

lemma nat_str_inj: "nat_str a = nat_str b \<Longrightarrow> a = b"
  by (metis digits_value_nat_str option.inject)

lemma nat_str_no_sign: "nat_str a \<noteq> CHR ''-'' # s"
proof
  assume "nat_str a = CHR ''-'' # s"
  then have "CHR ''-'' \<in> set (nat_str a)" by simp
  then show False using nat_str_digits digit_char_neq(1) by metis
qed

lemma Itoa_inj: "Itoa a = Itoa b \<Longrightarrow> a = b"
  using nat_str_inj [of "nat a" "nat b"] nat_str_inj [of "nat (- a)" "nat (- b)"]
    nat_str_no_sign [of "nat a"] nat_str_no_sign [of "nat b"]
  by (auto simp: Itoa_def split: if_splits; metis)

lemma Itoa_no_NUL: "NUL \<notin> set (Itoa n)"
proof -
  have "digit_char d \<noteq> NUL" if "d < 10" for d
  proof
    assume "digit_char d = NUL"
    then have "(of_char (digit_char d) :: nat) = of_char NUL" by simp
    then show False using of_char_digit [OF that] by (simp add: NUL_def)
  qed
  then have "NUL \<notin> set (nat_str m)" for m using nat_str_digits by metis
  then show ?thesis by (simp add: Itoa_def NUL_def)
qed

lemma str_bytes_inj: "str_bytes a = str_bytes b \<Longrightarrow> a = b"
  by (metis bytes_str_inverse)

text \<open>The fields a fingerprint stands for.\<close>

definition identity_of :: "'a config_base_scheme \<Rightarrow> string list \<times> string list \<times> string list \<times> int \<times> int \<times> int" where
  "identity_of c =
     ([c_Type c, c_Address c, c_UUID c, c_Username c, c_Password c, c_Method c, c_Network c, c_Path c,
       c_Host c, c_Service c, c_Security c, c_ServerName c, c_FingerprintProfile c, c_PublicKey c,
       c_ShortID c], c_AllowedIPs c, c_DNS c, c_Port c, c_MTU c, c_PersistentKeepalive c)"

text \<open>No field contains the separators of the fingerprint data.\<close>

definition separator_free :: "'a config_base_scheme \<Rightarrow> bool" where
  "separator_free c \<longleftrightarrow>
     list_all (\<lambda>x. NUL \<notin> set x) (fingerprint_fields c) \<and>
     list_all (\<lambda>x. CHR '','' \<notin> set x) (c_AllowedIPs c @ c_DNS c)"

lemma comma_join_inj:
  assumes "\<forall>x \<in> set xs. CHR '','' \<notin> set x \<and> x \<noteq> []" "\<forall>x \<in> set ys. CHR '','' \<notin> set x \<and> x \<noteq> []"
    and "str_join '','' xs = str_join '','' ys"
  shows "xs = ys"
proof -
  have "xs = [] \<longleftrightarrow> ys = []"
    using assms str_join_nonempty [of xs "'',''"] str_join_nonempty [of ys "'',''"] by (metis str_join.simps(1))
  then show ?thesis using str_join_inj [of xs "CHR '',''" ys] assms by blast
qed

lemma normalize_lists_nonempty:
  "x \<in> set (c_AllowedIPs (config_Normalize uni c) @ c_DNS (config_Normalize uni c)) \<Longrightarrow> x \<noteq> []"
  using compactStrings_elems by (auto simp: config_Normalize_def)

lemma fingerprint_fields_inj:
  assumes "fingerprint_fields c = fingerprint_fields d" "separator_free c" "separator_free d"
    and "\<forall>x \<in> set (c_AllowedIPs c @ c_DNS c). x \<noteq> []" "\<forall>x \<in> set (c_AllowedIPs d @ c_DNS d). x \<noteq> []"
  shows "identity_of c = identity_of d"
proof -
  have "c_AllowedIPs c = c_AllowedIPs d" "c_DNS c = c_DNS d"
    using assms by (auto simp: fingerprint_fields_def separator_free_def list_all_iff intro!: comma_join_inj)
  with assms(1) show ?thesis
    by (simp add: fingerprint_fields_def identity_of_def Itoa_inj)
qed

text \<open>
  C15. Two configurations without separator characters have the same fingerprint exactly if their
  normal forms agree in every identity field, or the two fingerprint texts are a collision of the
  hash function. Every other field, the WireGuard private key among them, does not matter.
\<close>

theorem fingerprint_identity:
  assumes "separator_free (config_Normalize uni c)" "separator_free (config_Normalize uni d)"
  shows "fst (Fingerprint sha uni c) = fst (Fingerprint sha uni d) \<longleftrightarrow>
      identity_of (config_Normalize uni c) = identity_of (config_Normalize uni d)
      \<or> (\<exists>x y. x \<noteq> y \<and> sha x = sha y
           \<and> x = str_bytes (str_join [NUL] (fingerprint_fields (config_Normalize uni c)))
           \<and> y = str_bytes (str_join [NUL] (fingerprint_fields (config_Normalize uni d))))"
proof -
  let ?c = "config_Normalize uni c" and ?d = "config_Normalize uni d"
  have "identity_of ?c = identity_of ?d"
    if "str_bytes (str_join [NUL] (fingerprint_fields ?c)) = str_bytes (str_join [NUL] (fingerprint_fields ?d))"
  proof -
    have "str_join [NUL] (fingerprint_fields ?c) = str_join [NUL] (fingerprint_fields ?d)"
      using that by (rule str_bytes_inj)
    then have "fingerprint_fields ?c = fingerprint_fields ?d"
      using assms by (intro str_join_inj [of _ NUL])
        (auto simp: separator_free_def list_all_iff fingerprint_fields_def)
    then show ?thesis using assms normalize_lists_nonempty [of _ uni c] normalize_lists_nonempty [of _ uni d]
      by (intro fingerprint_fields_inj ballI) blast+
  qed
  moreover have "fingerprint_fields ?c = fingerprint_fields ?d" if "identity_of ?c = identity_of ?d"
    using that by (simp add: fingerprint_fields_def identity_of_def)
  ultimately show ?thesis by (auto simp: Fingerprint_def Let_def dest: hex_encode_inj)
qed

definition wg_sample :: "string \<Rightarrow> config" where
  "wg_sample key = zero_config\<lparr>c_Type := ''wireguard'', c_Address := ''vpn'', c_Port := 51820,
     c_PublicKey := ''pub'', c_PrivateKey := key, c_AllowedIPs := [''10.0.0.0/8'', ''::/0'']\<rparr>"

lemma TrimSpace_graphic: "\<forall>c \<in> set s. graphic c \<Longrightarrow> TrimSpace s = s"
  by (cases "s = []") (auto intro: TrimSpace_lines(1))

lemma wg_sample_normal:
  assumes "key \<in> {''alice'', ''bob''}"
  shows "config_Normalize (\<lambda>s. s) (wg_sample key) = wg_sample key"
proof -
  have t: "TrimSpace ''wireguard'' = ''wireguard''" "TrimSpace ''vpn'' = ''vpn''" "TrimSpace ''pub'' = ''pub''"
    "TrimSpace ''alice'' = ''alice''" "TrimSpace ''bob'' = ''bob''"
    "TrimSpace ''10.0.0.0/8'' = ''10.0.0.0/8''" "TrimSpace ''::/0'' = ''::/0''"
    by (rule TrimSpace_graphic, simp add: graphic_def)+
  have l: "lower_trim (\<lambda>s. s) '''' = ''''" "lower_trim (\<lambda>s. s) ''wireguard'' = ''wireguard''"
    "lower_trim (\<lambda>s. s) ''vpn'' = ''vpn''"
    by (simp_all add: lower_trim_def t ToLower_def is_ascii_def lower_char_def)
  have e: "normalizeECHConfig '''' = ''''" "\<not> ValidFailureClass ''''" "compactStrings [] = []"
    by (simp_all add: normalizeECHConfig_def ValidFailureClass_def AllFailureClasses_def compactStrings_def)
  have "compactStrings [''10.0.0.0/8'', ''::/0''] = [''10.0.0.0/8'', ''::/0'']"
    by (simp add: compactStrings_def t Let_def)
  note c = this
  have "TrimSpace key = key" using assms t by auto
  with e l t c show ?thesis
    by (simp add: config_Normalize_def wg_sample_def zero_config_def del: TrimSpace_idem)
qed

text \<open>Two WireGuard accounts on one server have the same fingerprint, for every hash function.\<close>

theorem fingerprint_identity_witness:
  "separator_free (config_Normalize (\<lambda>s. s) (wg_sample ''alice''))
   \<and> separator_free (config_Normalize (\<lambda>s. s) (wg_sample ''bob''))
   \<and> (\<forall>sha. fst (Fingerprint sha (\<lambda>s. s) (wg_sample ''alice'')) = fst (Fingerprint sha (\<lambda>s. s) (wg_sample ''bob'')))
   \<and> c_PrivateKey (wg_sample ''alice'') \<noteq> c_PrivateKey (wg_sample ''bob'')"
proof -
  have n: "config_Normalize (\<lambda>s. s) (wg_sample ''alice'') = wg_sample ''alice''"
    "config_Normalize (\<lambda>s. s) (wg_sample ''bob'') = wg_sample ''bob''" by (rule wg_sample_normal, simp)+
  have f: "separator_free (wg_sample ''alice'')" "separator_free (wg_sample ''bob'')"
    by (simp_all add: separator_free_def fingerprint_fields_def wg_sample_def zero_config_def Itoa_no_NUL)
      (simp_all add: NUL_def)
  have i: "identity_of (wg_sample ''alice'') = identity_of (wg_sample ''bob'')"
    by (simp add: identity_of_def wg_sample_def)
  have "fst (Fingerprint sha (\<lambda>s. s) (wg_sample ''alice'')) = fst (Fingerprint sha (\<lambda>s. s) (wg_sample ''bob''))" for sha
    using fingerprint_identity [of "\<lambda>s. s" "wg_sample ''alice''" "wg_sample ''bob''" sha] n f i by simp
  with n f show ?thesis by (simp add: wg_sample_def)
qed

section \<open>Validation\<close>

text \<open>What an accepted configuration is, in its normal form.\<close>

definition protocol_ok :: "'a config_base_scheme \<Rightarrow> bool" where
  "protocol_ok c \<longleftrightarrow>
     (let has = (\<lambda>v. TrimSpace v \<noteq> ''''); t = c_Type c in
      t \<in> {''vless'', ''vmess''} \<and> has (c_UUID c) \<or>
      t = ''trojan'' \<and> has (c_Password c) \<or>
      t = ''shadowsocks'' \<and> has (c_Method c) \<and> has (c_Password c) \<or>
      t = ''hysteria'' \<and> (has (c_Password c) \<or> has (c_UUID c)) \<or>
      t = ''hysteria2'' \<and> (has (c_Password c) \<or> has (c_UUID c)) \<and> c_Obfs c \<in> {'''', ''salamander'', ''gecko''} \<or>
      t = ''tuic'' \<and> has (c_UUID c) \<and> has (c_Password c) \<and>
        c_CongestionControl c \<in> {'''', ''bbr'', ''cubic'', ''new_reno''} \<and> c_UDPRelayMode c \<in> {'''', ''native'', ''quic''} \<or>
      t = ''wireguard'' \<and> has (c_PublicKey c) \<or>
      t \<in> {''socks'', ''http''})"

definition ech_ok :: "'a config_base_scheme \<Rightarrow> bool" where
  "ech_ok c \<longleftrightarrow>
     (c_ECHEnabled c \<longrightarrow>
        (c_Type c \<in> {''hysteria'', ''hysteria2'', ''tuic''} \<and> c_Security c \<noteq> ''reality'' \<or>
         c_Type c \<in> {''vless'', ''vmess'', ''trojan'', ''shadowsocks''} \<and> c_Security c = ''tls'') \<and>
        (c_ECHConfig c = '''' \<or> c_ECHConfigPath c = '''' \<and> validECHPEM (c_ECHConfig c)))"

definition valid_config :: "'a config_base_scheme \<Rightarrow> bool" where
  "valid_config c \<longleftrightarrow>
     TrimSpace (c_Address c) \<noteq> '''' \<and> 1 \<le> c_Port c \<and> c_Port c \<le> 65535 \<and> protocol_ok c \<and> ech_ok c"

lemmas value_domains = ValidHysteria2Obfs_def Hysteria2ObfsValues_def ValidTUICCongestionControl_def
  TUICCongestionControlValues_def ValidTUICUDPRelayMode_def TUICUDPRelayModeValues_def

lemmas protocol_validators = validateVLESS_def validateVMess_def validateTrojan_def validateShadowsocks_def
  validateHysteria_def validateTUIC_def validateWireGuard_def validateProxy_def

lemma validateECH_iff: "validateECH c = None \<longleftrightarrow> ech_ok c"
  by (auto simp: validateECH_def ech_ok_def)

definition validate_protocol :: "'a config_base_scheme \<Rightarrow> config_err option" where
  "validate_protocol c =
     (if c_Type c = ''vless'' then validateVLESS c
      else if c_Type c = ''vmess'' then validateVMess c
      else if c_Type c = ''trojan'' then validateTrojan c
      else if c_Type c = ''shadowsocks'' then validateShadowsocks c
      else if c_Type c = ''hysteria'' \<or> c_Type c = ''hysteria2'' then validateHysteria c
      else if c_Type c = ''tuic'' then validateTUIC c
      else if c_Type c = ''wireguard'' then validateWireGuard c
      else if c_Type c = ''socks'' \<or> c_Type c = ''http'' then validateProxy c
      else Some (UnsupportedProtocol (c_Type c)))"

lemma validate_protocol_iff: "validate_protocol c = None \<longleftrightarrow> protocol_ok c"
proof (cases "c_Type c \<in> {''vless'', ''vmess'', ''trojan'', ''shadowsocks'', ''hysteria'', ''hysteria2'', ''tuic'',
    ''wireguard'', ''socks'', ''http''}")
  case True
  then show ?thesis
    unfolding insert_iff empty_iff
    by (elim disjE; simp add: validate_protocol_def protocol_ok_def protocol_validators value_domains)
next
  case False
  then show ?thesis by (simp add: validate_protocol_def protocol_ok_def)
qed

lemma protocol_ok_type: "protocol_ok c \<Longrightarrow> c_Type c \<noteq> '''' \<and> c_Type c \<noteq> ''unknown''"
  by (auto simp: protocol_ok_def Let_def)

lemma validate_iff: "fst (config_Validate uni c) = None \<longleftrightarrow> valid_config (config_Normalize uni c)"
proof -
  let ?c = "config_Normalize uni c"
  have "fst (config_Validate uni c) = None \<longleftrightarrow>
      \<not> (c_Type ?c = '''' \<or> c_Type ?c = ''unknown'') \<and> TrimSpace (c_Address ?c) \<noteq> '''' \<and>
      \<not> (c_Port ?c < 1 \<or> c_Port ?c > 65535) \<and> validateECH ?c = None \<and> validate_protocol ?c = None"
    unfolding config_Validate_def Let_def fst_conv validate_protocol_def [symmetric]
    by (simp split: option.split)
  then show ?thesis
    using protocol_ok_type [of ?c] by (auto simp: validateECH_iff validate_protocol_iff valid_config_def)
qed

lemma TrimSpace_ECH_empty:
  "TrimSpace (c_ECHConfig (config_Normalize uni c)) = '''' \<longleftrightarrow> c_ECHConfig (config_Normalize uni c) = ''''"
proof -
  let ?v = "TrimSpace (c_ECHConfig c)"
  have "ech_envelope b \<noteq> ''''" for b by (simp add: ech_envelope_def ECHPEMBegin_def)
  moreover have "c_ECHConfig (config_Normalize uni c) = normalizeECHConfig ?v" by (simp add: config_Normalize_def)
  ultimately show ?thesis using normalizeECHConfig_cases [of ?v] by (auto simp: ech_envelope_trim)
qed

lemma validateECH_trim:
  assumes "TrimSpace (c_ECHConfig c) = '''' \<longleftrightarrow> c_ECHConfig c = ''''"
  shows "validateECH (c\<lparr>c_ECHConfig := TrimSpace (c_ECHConfig c)\<rparr>) = validateECH c"
  using assms by (simp add: validateECH_def)

lemma validate_protocol_ECH [simp]: "validate_protocol (c\<lparr>c_ECHConfig := e\<rparr>) = validate_protocol c"
  by (simp add: validate_protocol_def protocol_validators)

lemma config_Validate_fst:
  "fst (config_Validate uni c) =
     (let n = config_Normalize uni c in
      if c_Type n = '''' \<or> c_Type n = ''unknown'' then Some MissingType
      else if TrimSpace (c_Address n) = '''' then Some MissingAddress
      else if c_Port n < 1 \<or> c_Port n > 65535 then Some (InvalidPort (c_Port n))
      else case validateECH n of Some e \<Rightarrow> Some e | None \<Rightarrow> validate_protocol n)"
  unfolding config_Validate_def Let_def fst_conv validate_protocol_def [symmetric] by (rule refl)

text \<open>
  C34. Validation accepts exactly the configurations whose normal form is well formed: a known
  protocol with its credentials and enumerated values, an address, a port from 1 to 65535, and
  Encrypted Client Hello only over TLS with at most one, well-formed source. The verdict on the
  normalised configuration that validation leaves behind is the same.
\<close>

theorem validate_verdict:
  assumes "unicode_lower_ok uni"
  shows "(fst (config_Validate uni c) = None \<longleftrightarrow> valid_config (config_Normalize uni c))
    \<and> fst (config_Validate uni (snd (config_Validate uni c))) = fst (config_Validate uni c)"
proof -
  have "snd (config_Validate uni c) = config_Normalize uni c" by (simp add: config_Validate_def Let_def)
  moreover have "config_Normalize uni (config_Normalize uni c) =
      (config_Normalize uni c)\<lparr>c_ECHConfig := TrimSpace (c_ECHConfig (config_Normalize uni c))\<rparr>"
    by (rule normalize_twice [OF assms])
  ultimately have "fst (config_Validate uni (snd (config_Validate uni c))) = fst (config_Validate uni c)"
    by (simp add: config_Validate_fst Let_def validateECH_trim [OF TrimSpace_ECH_empty] split: option.split)
  then show ?thesis by (simp add: validate_iff)
qed

theorem validate_verdict_witness:
  "unicode_lower_ok (\<lambda>s. s)
   \<and> fst (config_Validate (\<lambda>s. s) (wg_sample ''alice'')) = None
   \<and> fst (config_Validate (\<lambda>s. s) (snd (config_Validate (\<lambda>s. s) (wg_sample ''alice'')))) = None
   \<and> fst (config_Validate (\<lambda>s. s) zero_config) = Some MissingType"
proof -
  have t: "TrimSpace ''vpn'' = ''vpn''" "TrimSpace ''pub'' = ''pub''"
    by (rule TrimSpace_graphic, simp add: graphic_def)+
  have "valid_config (wg_sample ''alice'')"
    by (simp add: valid_config_def protocol_ok_def ech_ok_def wg_sample_def zero_config_def t)
  moreover have "config_Normalize (\<lambda>s. s) (wg_sample ''alice'') = wg_sample ''alice''"
    by (rule wg_sample_normal) simp
  moreover have "fst (config_Validate (\<lambda>s. s) zero_config) = Some MissingType"
    by (simp add: config_Validate_fst config_Normalize_def zero_config_def lower_trim_def ToLower_def is_ascii_def)
  ultimately show ?thesis
    using validate_verdict [OF unicode_lower_ok_id, of "wg_sample ''alice''"] unicode_lower_ok_id by simp
qed

text \<open>The obfuscation password of a Hysteria (version 1) configuration does not survive normalisation.\<close>

lemma hysteria_obfs_changed:
  "c_Obfs (config_Normalize (\<lambda>s. s) (zero_config\<lparr>c_Type := ''hysteria'', c_Obfs := ''SeCreT''\<rparr>)) = ''secret''"
proof -
  have "TrimSpace ''SeCreT'' = ''SeCreT''" by (rule TrimSpace_graphic) (simp add: graphic_def)
  moreover have "map lower_char ''SeCreT'' = ''secret''" by code_simp
  ultimately show ?thesis by (simp add: config_Normalize_def lower_trim_def ToLower_def is_ascii_def)
qed

section \<open>Redaction\<close>

text \<open>
  Redacted configurations and display URLs do not depend on the UUID, the password and the two
  keys (beyond whether they are set): replacing them changes neither. The user name and the
  obfuscation passwords stay in the redacted copy as they are.
\<close>

theorem redaction_hides:
  assumes "u = '''' \<longleftrightarrow> c_UUID c = ''''" "p = '''' \<longleftrightarrow> c_Password c = ''''"
    and "k = '''' \<longleftrightarrow> c_PublicKey c = ''''" "q = '''' \<longleftrightarrow> c_PrivateKey c = ''''"
  defines "d \<equiv> c\<lparr>c_UUID := u, c_Password := p, c_PublicKey := k, c_PrivateKey := q\<rparr>"
  shows "Redacted d = Redacted c \<and> DisplayURL d = DisplayURL c
    \<and> c_Username (Redacted c) = c_Username c \<and> c_ObfsPassword (Redacted c) = c_ObfsPassword c
    \<and> c_Obfs (Redacted c) = c_Obfs c"
  using assms by (simp add: Redacted_def redact_value_def DisplayURL_def)

definition hy2_sample :: "string \<Rightarrow> config" where
  "hy2_sample pw = zero_config\<lparr>c_Type := ''hysteria2'', c_Address := ''h'', c_Port := 443,
     c_Password := pw, c_Obfs := ''salamander'', c_ObfsPassword := ''hidden''\<rparr>"

theorem redaction_hides_witness:
  "Redacted (hy2_sample ''a'') = Redacted (hy2_sample ''b'')
   \<and> c_Password (Redacted (hy2_sample ''a'')) = ''***''
   \<and> c_ObfsPassword (Redacted (hy2_sample ''a'')) = ''hidden''
   \<and> ''hidden'' \<notin> set (SecretFields (hy2_sample ''a''))"
proof -
  have s: "(hy2_sample ''a'')\<lparr>c_UUID := '''', c_Password := ''b'', c_PublicKey := '''', c_PrivateKey := ''''\<rparr>
      = hy2_sample ''b''" by (simp add: hy2_sample_def zero_config_def)
  have r: "Redacted (hy2_sample ''b'') = Redacted (hy2_sample ''a'')
      \<and> c_ObfsPassword (Redacted (hy2_sample ''a'')) = c_ObfsPassword (hy2_sample ''a'')"
    using redaction_hides [of "''''" "hy2_sample ''a''" "''b''" "''''" "''''"] unfolding s
    by (simp add: hy2_sample_def zero_config_def)
  then show ?thesis
    by (simp add: hy2_sample_def zero_config_def Redacted_def redact_value_def SecretPlaceholder_def SecretFields_def)
qed

section \<open>Failure classes\<close>

lemma classify_rules_valid: "(needles, cls) \<in> set classify_rules \<Longrightarrow> ValidFailureClass cls"
  by (auto simp: classify_rules_def ValidFailureClass_def AllFailureClasses_def)

text \<open>
  A failure text is given one of the nine known classes or none, the class survives
  normalisation of the record it is stored in, and a class is only given to a text that contains
  one of its needles. The needle \<open>ech\<close> of the TLS class also occurs in the word mechanism.
\<close>

theorem classify_failure_domain:
  fixes uni :: "string \<Rightarrow> string" and reason :: string
  defines "text \<equiv> ToLower uni (TrimSpace reason)"
  shows "(ClassifyFailure uni reason = '''' \<or>
        ValidFailureClass (ClassifyFailure uni reason) \<and>
        (\<exists>needles. (needles, ClassifyFailure uni reason) \<in> set classify_rules
           \<and> (\<exists>n \<in> set needles. \<exists>p q. text = p @ n @ q)))
    \<and> c_LastFailureClass (config_Normalize uni (c\<lparr>c_LastFailureClass := ClassifyFailure uni reason\<rparr>)) =
        ClassifyFailure uni reason
    \<and> ClassifyFailure uni ''authentication mechanism refused'' = ''tls''"
proof -
  let ?k = "ClassifyFailure uni reason"
  have k: "?k = '''' \<or> (\<exists>needles. (needles, ?k) \<in> set classify_rules \<and> containsAny text needles)"
    unfolding ClassifyFailure_def Let_def text_def
    by (auto split: option.splits dest!: find_SomeD)
  then have v: "?k = '''' \<or> ValidFailureClass ?k" using classify_rules_valid by blast
  have n: "?k \<noteq> '''' \<longrightarrow> (\<exists>needles. (needles, ?k) \<in> set classify_rules \<and>
      (\<exists>n \<in> set needles. \<exists>p q. text = p @ n @ q))"
    using k by (auto simp: containsAny_def list_ex_iff str_contains_iff)
  have s: "c_LastFailureClass (config_Normalize uni (c\<lparr>c_LastFailureClass := ?k\<rparr>)) = ?k"
    using v by (auto simp: config_Normalize_def)
  let ?m = "''authentication mechanism refused''"
  have "TrimSpace ?m = ?m" by (rule TrimSpace_lines(1)) (simp_all add: graphic_def)
  moreover have "ToLower uni ?m = ?m" by (simp add: ToLower_def is_ascii_def lower_char_def)
  ultimately have "ClassifyFailure uni ?m = ''tls''"
    by (simp add: ClassifyFailure_def classify_rules_def containsAny_def str_contains_def)
  with v n s show ?thesis by blast
qed

section \<open>The bounded history\<close>

definition last_n :: "nat \<Rightarrow> 'a list \<Rightarrow> 'a list" where
  "last_n n xs = drop (length xs - n) xs"

lemma last_n_snoc: "last_n n (last_n n xs @ [x]) = last_n n (xs @ [x])"
  by (cases "n \<le> length xs") (auto simp: last_n_def Suc_diff_le)

definition stamped :: "int \<times> test_observation \<Rightarrow> test_observation" where
  "stamped p = (if ob_At (snd p) = 0 then (snd p)\<lparr>ob_At := fst p\<rparr> else snd p)"

lemma append_observation:
  "AppendTestObservation now obs c =
     c\<lparr>c_TestHistory := last_n TestHistoryLimit (c_TestHistory c @ [stamped (now, obs)])\<rparr>"
  by (auto simp: AppendTestObservation_def Let_def last_n_def stamped_def TestHistoryLimit_def nat_diff_distrib')

text \<open>
  Recording any sequence of test outcomes keeps exactly the twelve most recent observations of
  the old history and the new outcomes, in order, each stamped with the time it was recorded if it
  had none, and changes nothing else.
\<close>

theorem history_keeps_last:
  assumes "length (c_TestHistory c) \<le> TestHistoryLimit"
  shows "fold (\<lambda>(now, obs). AppendTestObservation now obs) os c =
      c\<lparr>c_TestHistory := last_n TestHistoryLimit (c_TestHistory c @ map stamped os)\<rparr>
    \<and> length (c_TestHistory (fold (\<lambda>(now, obs). AppendTestObservation now obs) os c)) \<le> TestHistoryLimit"
proof -
  have "fold (\<lambda>(now, obs). AppendTestObservation now obs) os c =
      c\<lparr>c_TestHistory := last_n TestHistoryLimit (c_TestHistory c @ map stamped os)\<rparr>"
  proof (induction os rule: rev_induct)
    case Nil
    with assms show ?case by (simp add: last_n_def)
  next
    case (snoc x xs)
    then show ?case
      by (cases x) (simp add: append_observation last_n_snoc [of _ "c_TestHistory c @ map stamped xs", simplified])
  qed
  moreover have "length (last_n n ys) \<le> n" for n and ys :: "test_observation list" by (simp add: last_n_def)
  ultimately show ?thesis by simp
qed

definition obs_sample :: "int \<Rightarrow> test_observation" where
  "obs_sample t = \<lparr>ob_At = 0, ob_Working = True, ob_LatencyMS = t, ob_TimedOut = False, ob_Backend = '''', ob_FailureClass = ''''\<rparr>"

theorem history_keeps_last_witness:
  "length (c_TestHistory zero_config) \<le> TestHistoryLimit
   \<and> map ob_LatencyMS (c_TestHistory (fold (\<lambda>(now, obs). AppendTestObservation now obs)
        (map (\<lambda>t. (t, obs_sample t)) [1..14]) zero_config)) = [3..14]"
proof -
  have "length (c_TestHistory zero_config) \<le> TestHistoryLimit" by (simp add: zero_config_def)
  from history_keeps_last [OF this, of "map (\<lambda>t. (t, obs_sample t)) [1..14]"]
  show ?thesis by (simp add: zero_config_def last_n_def TestHistoryLimit_def stamped_def obs_sample_def upto.simps)
qed

end
