(* ===== verification/Router.thy ===== *)
theory Router
  imports ConfigProps SsTunnel
begin

text \<open>
  The routing authority of the first-party engine (\<open>engine/freecore\<close>): what the sources use of
  \<open>net/netip\<close> prefixes, the normalised route (\<open>route.go\<close>, \<open>model.go\<close>), the router (\<open>router.go\<close>),
  and which dial each outbound issues for a routed flow (\<open>outbound.go\<close>, \<open>outbound_ss.go\<close>,
  \<open>engine.go\<close>). Network dials and name resolution are inputs.
\<close>

section \<open>Addresses and prefixes\<close>

definition addr_bytes :: "ipaddr \<Rightarrow> bytes" where
  "addr_bytes a = (case a of IP4 b \<Rightarrow> b | IP6 b zone \<Rightarrow> b)"

definition BitLen :: "ipaddr \<Rightarrow> nat" where
  "BitLen a = (case a of IP4 b \<Rightarrow> 32 | IP6 b zone \<Rightarrow> 128)"

definition has_zone :: "ipaddr \<Rightarrow> bool" where
  "has_zone a = (case a of IP4 b \<Rightarrow> False | IP6 b zone \<Rightarrow> zone \<noteq> [])"

definition addr_bits :: "bytes \<Rightarrow> bool list" where
  "addr_bits bs = concat (map (\<lambda>b. map (\<lambda>i. bit b (7 - i)) [0..<8]) bs)"

text \<open>A \<open>netip.Prefix\<close>; one whose length is out of range is invalid and contains nothing.\<close>

datatype ip_prefix = Prefix ipaddr int

definition prefix_Contains :: "ip_prefix \<Rightarrow> ipaddr \<Rightarrow> bool" where
  "prefix_Contains p ip =
     (case p of Prefix pip n \<Rightarrow>
        0 \<le> n \<and> n \<le> int (BitLen pip) \<and> \<not> has_zone ip \<and> BitLen pip = BitLen ip \<and>
        take (nat n) (addr_bits (addr_bytes pip)) = take (nat n) (addr_bits (addr_bytes ip)))"

definition Unmap :: "ipaddr \<Rightarrow> ipaddr" where
  "Unmap a = (case a of IP4 b \<Rightarrow> a | IP6 b zone \<Rightarrow> if take 12 b = v4_prefix then IP4 (drop 12 b) else a)"

text \<open>The predicates of \<open>netip.Addr\<close>, on addresses that are not IPv4-mapped.\<close>

definition IsLoopback :: "ipaddr \<Rightarrow> bool" where
  "IsLoopback a = (case a of IP4 b \<Rightarrow> b ! 0 = 127 | IP6 b zone \<Rightarrow> b = replicate 15 0 @ [1])"

definition IsLinkLocalUnicast :: "ipaddr \<Rightarrow> bool" where
  "IsLinkLocalUnicast a =
     (case a of IP4 b \<Rightarrow> b ! 0 = 169 \<and> b ! 1 = 254
      | IP6 b zone \<Rightarrow> b ! 0 = 0xfe \<and> uint (b ! 1) div 64 = 2)"

definition IsLinkLocalMulticast :: "ipaddr \<Rightarrow> bool" where
  "IsLinkLocalMulticast a =
     (case a of IP4 b \<Rightarrow> b ! 0 = 224 \<and> b ! 1 = 0 \<and> b ! 2 = 0
      | IP6 b zone \<Rightarrow> b ! 0 = 0xff \<and> uint (b ! 1) mod 16 = 2)"

definition IsInterfaceLocalMulticast :: "ipaddr \<Rightarrow> bool" where
  "IsInterfaceLocalMulticast a =
     (case a of IP4 b \<Rightarrow> False | IP6 b zone \<Rightarrow> b ! 0 = 0xff \<and> uint (b ! 1) mod 16 = 1)"

definition IsPrivate :: "ipaddr \<Rightarrow> bool" where
  "IsPrivate a =
     (case a of IP4 b \<Rightarrow> b ! 0 = 10 \<or> b ! 0 = 172 \<and> uint (b ! 1) div 16 = 1 \<or> b ! 0 = 192 \<and> b ! 1 = 168
      | IP6 b zone \<Rightarrow> uint (b ! 0) div 2 = 126)"

definition IsUnspecified :: "ipaddr \<Rightarrow> bool" where
  "IsUnspecified a = (case a of IP4 b \<Rightarrow> b = replicate 4 0 | IP6 b zone \<Rightarrow> b = replicate 16 0 \<and> zone = [])"

section \<open>Routes\<close>

record endpoint =
  ep_Host :: string
  ep_Port :: int

definition endpoint_String :: "endpoint \<Rightarrow> string" where
  "endpoint_String e = JoinHostPort (ep_Host e) (Itoa (ep_Port e))"

definition OutboundSOCKS5 :: string where "OutboundSOCKS5 = ''socks5''"
definition OutboundHTTP :: string where "OutboundHTTP = ''http''"
definition OutboundShadowsocks :: string where "OutboundShadowsocks = ''shadowsocks''"
definition OutboundDirect :: string where "OutboundDirect = ''direct''"

definition DefaultDialTimeout :: duration where "DefaultDialTimeout = 15 * second"

record route =
  rt_ConfigID :: string
  rt_Fingerprint :: string
  rt_DisplayURL :: string
  rt_Outbound :: string
  rt_Endpoint :: endpoint
  rt_Username :: string
  rt_Password :: string
  rt_Method :: string
  rt_Network :: string
  rt_Security :: string
  rt_DialTimeout :: duration
  rt_AuthRequired :: bool

datatype route_err =
    RouteMethod | RouteProtocol string | RouteNetwork string | RouteSecurity string | RouteChain
  | RouteNoPassword | RouteNoAddress | RoutePort int

definition NormalizeShadowsocksMethod :: "string \<Rightarrow> ss_method option" where
  "NormalizeShadowsocksMethod method = ParseMethod method"

text \<open>The protocol switch: the outbound kind and the Shadowsocks method.\<close>

definition route_protocol :: "config \<Rightarrow> route_err + string \<times> string" where
  "route_protocol cfg =
     (if c_Type cfg = ''socks'' then Inr (OutboundSOCKS5, '''')
      else if c_Type cfg = ''http'' then Inr (OutboundHTTP, '''')
      else if c_Type cfg = ''shadowsocks'' then
        (case NormalizeShadowsocksMethod (c_Method cfg) of
           None \<Rightarrow> Inl RouteMethod | Some m \<Rightarrow> Inr (OutboundShadowsocks, m))
      else Inl (RouteProtocol (c_Type cfg)))"

definition route_Normalize ::
  "(bytes \<Rightarrow> bytes) \<Rightarrow> (string \<Rightarrow> string) \<Rightarrow> config \<Rightarrow> route_err + route" where
  "route_Normalize sha uni cfg0 =
     (let cfg1 = config_Normalize uni cfg0;
          (fp, cfg) = Fingerprint sha uni cfg1;
          network = TrimSpace (c_Network cfg);
          security = TrimSpace (c_Security cfg)
      in case route_protocol cfg of
           Inl e \<Rightarrow> Inl e
         | Inr (outbound, method) \<Rightarrow>
             if network \<noteq> '''' \<and> network \<noteq> ''tcp'' then Inl (RouteNetwork (c_Network cfg))
             else if security \<noteq> '''' \<and> security \<noteq> ''none'' then Inl (RouteSecurity (c_Security cfg))
             else if IsChain cfg then Inl RouteChain
             else if c_Type cfg = ''shadowsocks'' \<and> TrimSpace (c_Password cfg) = '''' then Inl RouteNoPassword
             else if TrimSpace (c_Address cfg) = '''' then Inl RouteNoAddress
             else if c_Port cfg \<le> 0 \<or> c_Port cfg > 65535 then Inl (RoutePort (c_Port cfg))
             else Inr \<lparr>rt_ConfigID = c_ID cfg, rt_Fingerprint = fp, rt_DisplayURL = DisplayURL cfg,
                    rt_Outbound = outbound,
                    rt_Endpoint = \<lparr>ep_Host = TrimSpace (c_Address cfg), ep_Port = c_Port cfg\<rparr>,
                    rt_Username = c_Username cfg, rt_Password = c_Password cfg, rt_Method = method,
                    rt_Network = ''tcp'', rt_Security = ''none'', rt_DialTimeout = DefaultDialTimeout,
                    rt_AuthRequired = (c_Username cfg \<noteq> '''' \<or> c_Password cfg \<noteq> '''')\<rparr>)"

section \<open>The router\<close>

datatype route_action = ActionProxy | ActionDirect | ActionBlock

datatype decision_reason =
    ReasonMalformed | ReasonBlocked ipaddr ip_prefix | ReasonPrivate ipaddr
  | ReasonDirect ipaddr ip_prefix | ReasonDefault string endpoint

record router_decision =
  rd_Action :: route_action
  rd_Outbound :: string
  rd_ResolverChoice :: string
  rd_Reason :: decision_reason
  rd_RuleID :: string

record router_policy =
  rp_PrivateDirect :: bool
  rp_BlockCIDRs :: "ip_prefix list"
  rp_DirectCIDRs :: "ip_prefix list"
  rp_DefaultOutbound :: string

text \<open>The lazily initialised copies of the policy's lists are the lists themselves.\<close>

record default_router =
  dr_route :: route
  dr_policy :: router_policy

definition DefaultRouterWithPolicy :: "route \<Rightarrow> router_policy \<Rightarrow> default_router" where
  "DefaultRouterWithPolicy rt policy =
     \<lparr>dr_route = rt,
      dr_policy = (if rp_DefaultOutbound policy = '''' then policy\<lparr>rp_DefaultOutbound := rt_Outbound rt\<rparr> else policy)\<rparr>"

definition DefaultRouter :: "route \<Rightarrow> default_router" where
  "DefaultRouter rt =
     DefaultRouterWithPolicy rt \<lparr>rp_PrivateDirect = False, rp_BlockCIDRs = [], rp_DirectCIDRs = [],
       rp_DefaultOutbound = rt_Outbound rt\<rparr>"

definition literalAddr :: "string \<Rightarrow> ipaddr option" where
  "literalAddr host0 =
     (let host = (case index_byte (CHR ''%'') host0 of
                    None \<Rightarrow> host0
                  | Some i \<Rightarrow> if i > 0 then take i host0 else host0)
      in map_option Unmap (ParseAddr host))"

definition isLocalPrivate :: "ipaddr \<Rightarrow> bool" where
  "isLocalPrivate a \<longleftrightarrow> IsLoopback a \<or> IsLinkLocalUnicast a \<or> IsLinkLocalMulticast a \<or>
     IsInterfaceLocalMulticast a \<or> IsPrivate a \<or> IsUnspecified a"

definition router_init :: "default_router \<Rightarrow> router_decision" where
  "router_init r =
     \<lparr>rd_Action = ActionProxy, rd_Outbound = rp_DefaultOutbound (dr_policy r), rd_ResolverChoice = ''remote'',
      rd_Reason = ReasonDefault (rt_Outbound (dr_route r)) (rt_Endpoint (dr_route r)), rd_RuleID = ''default-policy''\<rparr>"

definition Decide :: "default_router \<Rightarrow> string \<Rightarrow> router_decision" where
  "Decide r target =
     (let pol = dr_policy r in
      case SplitHostPort (TrimSpace target) of
        None \<Rightarrow> \<lparr>rd_Action = ActionBlock, rd_Outbound = rp_DefaultOutbound pol, rd_ResolverChoice = '''',
                rd_Reason = ReasonMalformed, rd_RuleID = ''malformed-target''\<rparr>
      | Some (host, _) \<Rightarrow>
          (case literalAddr host of
             None \<Rightarrow> router_init r
           | Some addr \<Rightarrow>
               (case find (\<lambda>p. prefix_Contains p addr) (rp_BlockCIDRs pol) of
                  Some p \<Rightarrow> \<lparr>rd_Action = ActionBlock, rd_Outbound = rp_DefaultOutbound pol, rd_ResolverChoice = '''',
                             rd_Reason = ReasonBlocked addr p, rd_RuleID = ''block-list''\<rparr>
                | None \<Rightarrow>
                    if rp_PrivateDirect pol \<and> isLocalPrivate addr
                    then \<lparr>rd_Action = ActionDirect, rd_Outbound = OutboundDirect, rd_ResolverChoice = ''none'',
                          rd_Reason = ReasonPrivate addr, rd_RuleID = ''private-direct''\<rparr>
                    else (case find (\<lambda>p. prefix_Contains p addr) (rp_DirectCIDRs pol) of
                            Some p \<Rightarrow> \<lparr>rd_Action = ActionDirect, rd_Outbound = OutboundDirect,
                                       rd_ResolverChoice = ''engine'', rd_Reason = ReasonDirect addr p,
                                       rd_RuleID = ''direct-list''\<rparr>
                          | None \<Rightarrow> router_init r))))"

section \<open>Outbounds\<close>

text \<open>
  An outbound as \<open>outboundFor\<close> builds it; \<open>'d\<close> is the loop-prevention dialer the TUN dataplane
  supplies (\<open>None\<close>: plain system dialing), a resolver maps a host to its addresses or an error.
\<close>

type_synonym resolver = "string \<Rightarrow> ipaddr list option"

datatype 'd outbound =
    SOCKS5Outbound endpoint string string duration "'d option"
  | HTTPConnectOutbound endpoint string string duration "'d option"
  | ShadowsocksOutbound endpoint string string duration "'d option"
  | DirectOutbound duration "resolver option" "'d option"

definition outboundFor :: "route \<Rightarrow> 'd option \<Rightarrow> 'd outbound" where
  "outboundFor rt upstream =
     (if rt_Outbound rt = OutboundSOCKS5
      then SOCKS5Outbound (rt_Endpoint rt) (rt_Username rt) (rt_Password rt) (rt_DialTimeout rt) upstream
      else if rt_Outbound rt = OutboundHTTP
      then HTTPConnectOutbound (rt_Endpoint rt) (rt_Username rt) (rt_Password rt) (rt_DialTimeout rt) upstream
      else if rt_Outbound rt = OutboundShadowsocks
      then ShadowsocksOutbound (rt_Endpoint rt) (rt_Password rt) (rt_Method rt) (rt_DialTimeout rt) upstream
      else DirectOutbound 0 None upstream)"

definition isDomainTarget :: "string \<Rightarrow> bool" where
  "isDomainTarget address =
     (case SplitHostPort address of
        None \<Rightarrow> False
      | Some (host0, _) \<Rightarrow>
          let host = TrimSuffix (TrimPrefix host0 ''['') '']'' in host \<noteq> '''' \<and> ParseIP host = None)"

text \<open>\<open>netip.Addr.String\<close>.\<close>

definition addr_String :: "ipaddr \<Rightarrow> string" where
  "addr_String a =
     (case a of IP4 b \<Rightarrow> ipv4_String b
      | IP6 b zone \<Rightarrow> (if take 12 b = v4_prefix then ''::ffff:'' @ ipv4_String (drop 12 b) else ipv6_String b)
          @ (if zone = [] then '''' else CHR ''%'' # zone))"

datatype dial_failure = DialSplit | DialResolve | DialNoAddresses | DialBadTarget | DialBadConfig cfg_err | DialBadAddr addr_err

text \<open>
  The first network dial an outbound issues for a target: through which dialer and to which
  address, or the failure that comes before it.
\<close>

definition direct_dial :: "resolver option \<Rightarrow> 'd option \<Rightarrow> string \<Rightarrow> dial_failure + 'd option \<times> string" where
  "direct_dial resolver transport address =
     (case resolver of
        None \<Rightarrow> Inr (transport, address)
      | Some res \<Rightarrow>
          if \<not> isDomainTarget address then Inr (transport, address)
          else case SplitHostPort address of
                 None \<Rightarrow> Inl DialSplit
               | Some (host, port) \<Rightarrow>
                   (case res host of
                      None \<Rightarrow> Inl DialResolve
                    | Some [] \<Rightarrow> Inl DialNoAddresses
                    | Some (a # _) \<Rightarrow> Inr (transport, JoinHostPort (addr_String a) port)))"

definition socks5_dial :: "endpoint \<Rightarrow> 'd option \<Rightarrow> string \<Rightarrow> dial_failure + 'd option \<times> string" where
  "socks5_dial proxy transport address =
     (case SplitHostPort address of
        None \<Rightarrow> Inl DialBadTarget
      | Some (host, portStr) \<Rightarrow>
          (case Atoi portStr of
             None \<Rightarrow> Inl DialBadTarget
           | Some port \<Rightarrow> if port \<le> 0 \<or> port > 65535 then Inl DialBadTarget
                          else Inr (transport, endpoint_String proxy)))"

definition http_dial :: "endpoint \<Rightarrow> 'd option \<Rightarrow> string \<Rightarrow> dial_failure + 'd option \<times> string" where
  "http_dial proxy transport address = Inr (transport, endpoint_String proxy)"

text \<open>
  The Shadowsocks outbound hands host, port, password and method to \<open>ClientConfig.DialTCP\<close>, which
  dials on its own; the outbound's \<open>transport\<close> is not passed on.
\<close>

definition ss_outbound_client :: "endpoint \<Rightarrow> string \<Rightarrow> string \<Rightarrow> ss_client" where
  "ss_outbound_client proxy password method =
     \<lparr>sc_Host = ep_Host proxy, sc_Port = ep_Port proxy, sc_Password = password, sc_Method = method\<rparr>"

definition ss_dial :: "endpoint \<Rightarrow> string \<Rightarrow> string \<Rightarrow> 'd option \<Rightarrow> string \<Rightarrow> dial_failure + 'd option \<times> string" where
  "ss_dial proxy password method transport address =
     (let c = ss_outbound_client proxy password method in
      case sc_validate c of
        Some e \<Rightarrow> Inl (DialBadConfig e)
      | None \<Rightarrow>
          (case SplitHostPort address of
             None \<Rightarrow> Inl DialBadTarget
           | Some (host, portStr) \<Rightarrow>
               (case Atoi portStr of
                  None \<Rightarrow> Inl DialBadTarget
                | Some port \<Rightarrow>
                    (case AddrBytes host port of
                       Inl e \<Rightarrow> Inl (DialBadAddr e)
                     | Inr _ \<Rightarrow> Inr (None, JoinHostPort (sc_Host c) (Itoa (sc_Port c)))))))"

definition outbound_dial :: "'d outbound \<Rightarrow> string \<Rightarrow> dial_failure + 'd option \<times> string" where
  "outbound_dial ob address =
     (case ob of
        SOCKS5Outbound proxy _ _ _ transport \<Rightarrow> socks5_dial proxy transport address
      | HTTPConnectOutbound proxy _ _ _ transport \<Rightarrow> http_dial proxy transport address
      | ShadowsocksOutbound proxy password method _ transport \<Rightarrow> ss_dial proxy password method transport address
      | DirectOutbound _ resolver transport \<Rightarrow> direct_dial resolver transport address)"

text \<open>
  \<open>routeFlow\<close>: the decision picks no outbound, the direct outbound with the engine's resolver and
  no constrained dialer, or the outbound of the route.
\<close>

definition routeFlow :: "default_router \<Rightarrow> 'd outbound \<Rightarrow> resolver \<Rightarrow> string \<Rightarrow> router_decision \<times> 'd outbound option" where
  "routeFlow router outbound resolver target =
     (let decision = Decide router target in
      (decision,
       case rd_Action decision of
         ActionBlock \<Rightarrow> None
       | ActionDirect \<Rightarrow> Some (DirectOutbound DefaultDialTimeout (Some resolver) None)
       | ActionProxy \<Rightarrow> Some outbound))"

section \<open>Normalised routes\<close>

text \<open>The configurations the first-party engine takes, in normal form.\<close>

definition first_party :: "config \<Rightarrow> bool" where
  "first_party c \<longleftrightarrow>
     (c_Type c \<in> {''socks'', ''http''} \<or>
      c_Type c = ''shadowsocks'' \<and> ss_Supported (c_Method c) \<and> TrimSpace (c_Password c) \<noteq> '''') \<and>
     c_Network c \<in> {'''', ''tcp''} \<and> c_Security c \<in> {'''', ''none''} \<and> c_Chain c = [] \<and>
     TrimSpace (c_Address c) \<noteq> '''' \<and> 1 \<le> c_Port c \<and> c_Port c \<le> 65535"

lemma ParseMethod_Supported: "ParseMethod m = (if ss_Supported m then Some m else None)"
  by (simp add: ParseMethod_def ss_Supported_def)

lemma route_protocol_cases:
  "route_protocol c = Inr (ob, m) \<longleftrightarrow>
     c_Type c = ''socks'' \<and> ob = OutboundSOCKS5 \<and> m = '''' \<or> c_Type c = ''http'' \<and> ob = OutboundHTTP \<and> m = '''' \<or>
     c_Type c = ''shadowsocks'' \<and> ob = OutboundShadowsocks \<and> ss_Supported (c_Method c) \<and> m = c_Method c"
  by (auto simp: route_protocol_def NormalizeShadowsocksMethod_def ParseMethod_Supported)

lemma normal_trimmed:
  assumes "unicode_lower_ok uni"
  shows "TrimSpace (c_Network (config_Normalize uni c)) = c_Network (config_Normalize uni c)"
    "TrimSpace (c_Security (config_Normalize uni c)) = c_Security (config_Normalize uni c)"
    "TrimSpace (c_Address (config_Normalize uni c)) = c_Address (config_Normalize uni c)"
  by (simp_all add: config_Normalize_def lower_trim_def TrimSpace_ToLower [OF assms])

lemma normalize_twice_fields:
  assumes "unicode_lower_ok uni"
  shows "config_Normalize uni (config_Normalize uni c) = (config_Normalize uni c)\<lparr>c_ECHConfig := e\<rparr> \<Longrightarrow>
     first_party (config_Normalize uni (config_Normalize uni c)) = first_party (config_Normalize uni c)"
  by (simp add: first_party_def)

lemma route_Normalize_first_party:
  fixes c :: config
  assumes "unicode_lower_ok uni"
  defines "n \<equiv> config_Normalize uni (config_Normalize uni c)"
  shows "(\<exists>r. route_Normalize sha uni c = Inr r) \<longleftrightarrow> first_party n"
    and "route_Normalize sha uni c = Inr r \<Longrightarrow>
      rt_Endpoint r = \<lparr>ep_Host = c_Address n, ep_Port = c_Port n\<rparr> \<and> rt_Password r = c_Password n \<and>
      route_protocol n = Inr (rt_Outbound r, rt_Method r) \<and> rt_Fingerprint r = fst (Fingerprint sha uni (config_Normalize uni c))"
proof -
  have fp: "Fingerprint sha uni (config_Normalize uni c) = (fst (Fingerprint sha uni (config_Normalize uni c)), n)"
    by (simp add: n_def Fingerprint_def Let_def)
  note t = normal_trimmed [OF assms(1), of "config_Normalize uni c", folded n_def]
  show "(\<exists>r. route_Normalize sha uni c = Inr r) \<longleftrightarrow> first_party n"
  proof (cases "route_protocol n")
    case (Inl e)
    then have "\<not> first_party n" using route_protocol_cases [of n] by (auto simp: first_party_def)
    with Inl show ?thesis unfolding route_Normalize_def Let_def by (subst fp) simp
  next
    case (Inr p)
    obtain ob m where p: "p = (ob, m)" by (cases p)
    have ty: "c_Type n \<in> {''socks'', ''http''} \<or> c_Type n = ''shadowsocks'' \<and> ss_Supported (c_Method n)"
      using Inr p route_protocol_cases [of n ob m] by auto
    show ?thesis unfolding route_Normalize_def Let_def
      by (subst fp) (use Inr p ty t in \<open>auto simp: first_party_def IsChain_def\<close>)
  qed
  show "rt_Endpoint r = \<lparr>ep_Host = c_Address n, ep_Port = c_Port n\<rparr> \<and> rt_Password r = c_Password n \<and>
      route_protocol n = Inr (rt_Outbound r, rt_Method r) \<and> rt_Fingerprint r = fst (Fingerprint sha uni (config_Normalize uni c))"
    if "route_Normalize sha uni c = Inr r"
    using that unfolding route_Normalize_def Let_def
    by (subst (asm) fp) (use t in \<open>auto split: sum.splits if_splits\<close>)
qed

text \<open>
  A configuration becomes a route exactly if its normal form is one of the shapes the engine
  implements: SOCKS, HTTP, or Shadowsocks with a supported method and a password, over plain TCP
  without a security layer, no chain, with an address and a port from 1 to 65535. The route's
  Shadowsocks client then never fails its own validation, and the route carries the fingerprint of
  the configuration.
\<close>

theorem route_normalize_exact:
  assumes "unicode_lower_ok uni"
  shows "((\<exists>r. route_Normalize sha uni c = Inr r) \<longleftrightarrow> first_party (config_Normalize uni c))
    \<and> (\<forall>r. route_Normalize sha uni c = Inr r \<longrightarrow>
         rt_Outbound r \<in> {OutboundSOCKS5, OutboundHTTP, OutboundShadowsocks}
         \<and> rt_Fingerprint r = fst (Fingerprint sha uni c)
         \<and> (rt_Outbound r = OutboundShadowsocks \<longrightarrow>
              sc_validate (ss_outbound_client (rt_Endpoint r) (rt_Password r) (rt_Method r)) = None))"
proof -
  let ?n = "config_Normalize uni (config_Normalize uni c)"
  have fp: "first_party ?n = first_party (config_Normalize uni c)"
    by (rule normalize_twice_fields [OF assms normalize_twice [OF assms]])
  have id: "fst (Fingerprint sha uni (config_Normalize uni c)) = fst (Fingerprint sha uni c)"
    by (simp add: Fingerprint_def Let_def normalize_twice [OF assms] fingerprint_fields_def)
  have "rt_Outbound r \<in> {OutboundSOCKS5, OutboundHTTP, OutboundShadowsocks} \<and>
      rt_Fingerprint r = fst (Fingerprint sha uni c) \<and>
      (rt_Outbound r = OutboundShadowsocks \<longrightarrow>
        sc_validate (ss_outbound_client (rt_Endpoint r) (rt_Password r) (rt_Method r)) = None)"
    if r: "route_Normalize sha uni c = Inr r" for r
  proof -
    have ok: "first_party ?n" using r route_Normalize_first_party(1) [OF assms] by blast
    note f = route_Normalize_first_party(2) [OF assms r]
    then have p: "route_protocol ?n = Inr (rt_Outbound r, rt_Method r)" by simp
    have "TrimSpace (c_Address ?n) \<noteq> ''''" "1 \<le> c_Port ?n" "c_Port ?n \<le> 65535"
      using ok by (auto simp: first_party_def)
    moreover have "c_Type ?n = ''shadowsocks'' \<Longrightarrow> c_Password ?n \<noteq> ''''"
      using ok by (auto simp: first_party_def)
    ultimately show ?thesis using f p id
      by (auto simp: route_protocol_cases sc_validate_def ss_outbound_client_def ParseMethod_Supported
          OutboundSOCKS5_def OutboundHTTP_def OutboundShadowsocks_def)
  qed
  with route_Normalize_first_party(1) [OF assms, of sha c] fp show ?thesis by blast
qed

definition ss_sample :: config where
  "ss_sample = zero_config\<lparr>c_Type := ''shadowsocks'', c_Address := ''s'', c_Port := 8388,
     c_Method := ''aes-256-gcm'', c_Password := ''pw''\<rparr>"

lemma ss_sample_first_party: "first_party (config_Normalize (\<lambda>s. s) ss_sample)"
proof -
  have t: "TrimSpace ''shadowsocks'' = ''shadowsocks''" "TrimSpace ''s'' = ''s''" "TrimSpace ''pw'' = ''pw''"
    "TrimSpace ''aes-256-gcm'' = ''aes-256-gcm''"
    by (rule TrimSpace_graphic, simp add: graphic_def)+
  have l: "lower_trim (\<lambda>s. s) ''shadowsocks'' = ''shadowsocks''" "lower_trim (\<lambda>s. s) ''s'' = ''s''"
    "lower_trim (\<lambda>s. s) ''aes-256-gcm'' = ''aes-256-gcm''" "lower_trim (\<lambda>s. s) '''' = ''''"
    by (simp_all add: lower_trim_def t ToLower_def is_ascii_def lower_char_def)
  have "ss_Supported ''aes-256-gcm''" by (simp add: ss_Supported_def MethodAES256GCM_def)
  with l t show ?thesis by (simp add: first_party_def config_Normalize_def ss_sample_def zero_config_def)
qed

theorem route_normalize_exact_witness:
  "unicode_lower_ok (\<lambda>s. s)
   \<and> (\<exists>r. route_Normalize (\<lambda>b. b) (\<lambda>s. s) ss_sample = Inr r
        \<and> rt_Outbound r \<in> {OutboundSOCKS5, OutboundHTTP, OutboundShadowsocks})"
  using route_normalize_exact [OF unicode_lower_ok_id, of "\<lambda>b. b" ss_sample] ss_sample_first_party
    unicode_lower_ok_id by blast

section \<open>Decisions\<close>

definition literal_target :: "string \<Rightarrow> ipaddr \<Rightarrow> bool" where
  "literal_target target a \<longleftrightarrow>
     (\<exists>host port. SplitHostPort (TrimSpace target) = Some (host, port) \<and> literalAddr host = Some a)"

definition in_nets :: "ip_prefix list \<Rightarrow> ipaddr \<Rightarrow> bool" where
  "in_nets ps a \<longleftrightarrow> list_ex (\<lambda>p. prefix_Contains p a) ps"

lemma find_in_nets: "find (\<lambda>p. prefix_Contains p a) ps = None \<longleftrightarrow> \<not> in_nets ps a"
  by (auto simp: in_nets_def list_ex_iff find_None_iff)

lemma Decide_literal:
  assumes "SplitHostPort (TrimSpace target) = Some (host, port)" "literalAddr host = Some a"
  shows "rd_Action (Decide r target) =
      (if in_nets (rp_BlockCIDRs (dr_policy r)) a then ActionBlock
       else if rp_PrivateDirect (dr_policy r) \<and> isLocalPrivate a \<or> in_nets (rp_DirectCIDRs (dr_policy r)) a
       then ActionDirect else ActionProxy)"
    and "rd_ResolverChoice (Decide r target) = ''remote'' \<longleftrightarrow> rd_Action (Decide r target) = ActionProxy"
  using assms find_in_nets [of a "rp_BlockCIDRs (dr_policy r)"] find_in_nets [of a "rp_DirectCIDRs (dr_policy r)"]
  by (auto simp: Decide_def Let_def router_init_def split: option.splits)

lemma Decide_domain:
  assumes "SplitHostPort (TrimSpace target) = Some (host, port)" "literalAddr host = None"
  shows "Decide r target = router_init r"
  using assms by (simp add: Decide_def Let_def)

lemma Decide_malformed:
  assumes "SplitHostPort (TrimSpace target) = None"
  shows "rd_Action (Decide r target) = ActionBlock" "rd_ResolverChoice (Decide r target) = ''''"
  using assms by (simp_all add: Decide_def Let_def)

text \<open>
  C7. The router blocks exactly malformed targets and IP literals inside a blocked network, sends
  direct exactly the other IP literals that are local under a policy that keeps local traffic
  local or inside a direct network, and proxies everything else with remote name resolution. The
  default router never sends anything direct.
\<close>

theorem decide_exact:
  "(rd_Action (Decide r target) = ActionBlock \<longleftrightarrow>
        SplitHostPort (TrimSpace target) = None \<or> (\<exists>a. literal_target target a \<and> in_nets (rp_BlockCIDRs (dr_policy r)) a))
    \<and> (rd_Action (Decide r target) = ActionDirect \<longleftrightarrow>
        (\<exists>a. literal_target target a \<and> \<not> in_nets (rp_BlockCIDRs (dr_policy r)) a
           \<and> (rp_PrivateDirect (dr_policy r) \<and> isLocalPrivate a \<or> in_nets (rp_DirectCIDRs (dr_policy r)) a)))
    \<and> (rd_Action (Decide r target) = ActionProxy \<longleftrightarrow> rd_ResolverChoice (Decide r target) = ''remote'')
    \<and> rd_Action (Decide (DefaultRouter rt) target) =
        (if SplitHostPort (TrimSpace target) = None then ActionBlock else ActionProxy)"
proof (cases "SplitHostPort (TrimSpace target)")
  case None
  then show ?thesis using Decide_malformed [OF None] by (auto simp: literal_target_def)
next
  case (Some hp)
  obtain host port where hp: "SplitHostPort (TrimSpace target) = Some (host, port)" using Some by (cases hp) auto
  show ?thesis
  proof (cases "literalAddr host")
    case None
    have l: "\<not> literal_target target a" for a using hp None by (auto simp: literal_target_def)
    then show ?thesis using Decide_domain [OF hp None] hp by (simp add: router_init_def)
  next
    case (Some a)
    have l: "literal_target target b \<longleftrightarrow> b = a" for b using hp Some by (auto simp: literal_target_def)
    then show ?thesis using Decide_literal [OF hp Some] hp
      by (auto simp: DefaultRouter_def DefaultRouterWithPolicy_def in_nets_def)
  qed
qed

text \<open>The limited broadcast address is not local for the router.\<close>

lemma broadcast_not_local: "\<not> isLocalPrivate (IP4 [255, 255, 255, 255])"
  by code_simp

section \<open>Dials\<close>

text \<open>
  C14. Where a flow is first dialled when the dataplane supplies a loop-prevention dialer: a blocked
  flow dials nothing; a proxied flow is dialled to the remote of the route only, through the
  supplied dialer exactly if the remote is a SOCKS5 or HTTP one; a Shadowsocks remote and every
  direct flow are dialled through the plain system dialer.
\<close>

theorem flow_dials:
  fixes d :: 'd
  assumes kind: "rt_Outbound rt \<in> {OutboundSOCKS5, OutboundHTTP, OutboundShadowsocks}"
    and flow: "routeFlow router (outboundFor rt (Some d)) resolver target = (decision, ob)"
  shows "(rd_Action decision = ActionBlock \<longleftrightarrow> ob = None)
    \<and> (\<forall>out via addr. ob = Some out \<and> outbound_dial out target = Inr (via, addr) \<longrightarrow>
         (via = Some d \<longleftrightarrow> rd_Action decision = ActionProxy \<and> rt_Outbound rt \<noteq> OutboundShadowsocks)
         \<and> (rd_Action decision = ActionProxy \<longrightarrow> addr = endpoint_String (rt_Endpoint rt)))"
proof -
  have dec: "decision = Decide router target"
    and ob: "ob = (case rd_Action decision of ActionBlock \<Rightarrow> None
      | ActionDirect \<Rightarrow> Some (DirectOutbound DefaultDialTimeout (Some resolver) None)
      | ActionProxy \<Rightarrow> Some (outboundFor rt (Some d)))"
    using flow by (auto simp: routeFlow_def Let_def)
  have direct: "via = None" if "direct_dial res (None :: 'd option) t = Inr (via, addr)" for res t via addr
    using that by (auto simp: direct_dial_def split: option.splits if_splits list.splits)
  have proxy: "(via = Some d \<longleftrightarrow> rt_Outbound rt \<noteq> OutboundShadowsocks) \<and> addr = endpoint_String (rt_Endpoint rt)"
    if "outbound_dial (outboundFor rt (Some d)) target = Inr (via, addr)" for via addr
    using that kind
    by (auto simp: outbound_dial_def outboundFor_def socks5_dial_def http_dial_def ss_dial_def
        ss_outbound_client_def endpoint_String_def Let_def OutboundSOCKS5_def OutboundHTTP_def OutboundShadowsocks_def
        split: option.splits if_splits sum.splits)
  show ?thesis
  proof (cases "rd_Action decision")
    case ActionDirect
    then show ?thesis using ob direct by (auto simp: outbound_dial_def)
  qed (use ob proxy in auto)
qed

definition sample_route :: "string \<Rightarrow> route" where
  "sample_route kind =
     \<lparr>rt_ConfigID = '''', rt_Fingerprint = '''', rt_DisplayURL = '''', rt_Outbound = kind,
      rt_Endpoint = \<lparr>ep_Host = ''r'', ep_Port = 1\<rparr>, rt_Username = '''', rt_Password = ''pw'',
      rt_Method = ''aes-256-gcm'', rt_Network = ''tcp'', rt_Security = ''none'', rt_DialTimeout = 0, rt_AuthRequired = True\<rparr>"

lemma sample_target:
  "SplitHostPort (TrimSpace ''h:80'') = Some (''h'', ''80'')" "literalAddr ''h'' = None"
proof -
  have t: "TrimSpace ''h:80'' = ''h:80''" by (rule TrimSpace_graphic) (simp add: graphic_def)
  show "SplitHostPort (TrimSpace ''h:80'') = Some (''h'', ''80'')" unfolding t by code_simp
  show "literalAddr ''h'' = None" by code_simp
qed

text \<open>A proxied flow to a Shadowsocks remote does not use the supplied dialer (here the number 7).\<close>

theorem flow_dials_witness:
  "\<exists>decision ob out. routeFlow (DefaultRouter (sample_route OutboundShadowsocks))
       (outboundFor (sample_route OutboundShadowsocks) (Some (7 :: nat))) (\<lambda>h. None) ''h:80'' = (decision, ob) \<and>
     ob = Some out \<and> outbound_dial out ''h:80'' = Inr (None, ''r:1'') \<and> rd_Action decision \<noteq> ActionBlock"
proof -
  let ?rt = "sample_route OutboundShadowsocks" and ?out = "outboundFor (sample_route OutboundShadowsocks) (Some (7 :: nat))"
  let ?flow = "routeFlow (DefaultRouter ?rt) ?out (\<lambda>h. None) ''h:80''"
  have "rt_Outbound ?rt \<in> {OutboundSOCKS5, OutboundHTTP, OutboundShadowsocks}" by (simp add: sample_route_def)
  from flow_dials [OF this, of "DefaultRouter ?rt" 7 "\<lambda>h. None" "''h:80''" "fst ?flow" "snd ?flow"]
  have block: "rd_Action (fst ?flow) = ActionBlock \<longleftrightarrow> snd ?flow = None" by simp
  have flow: "snd ?flow = Some ?out" by (simp add: routeFlow_def Let_def Decide_domain [OF sample_target] router_init_def)
  have "outbound_dial ?out ''h:80'' = Inr (None, ''r:1'')" by code_simp
  with block flow show ?thesis by (metis option.distinct(1) prod.collapse)
qed

text \<open>A host split off a target carries no brackets, so the trimming of brackets does nothing.\<close>

lemma find_upt_before:
  assumes "find P [0..<n] = Some e" "j < e"
  shows "\<not> P j"
  using assms unfolding find_Some_iff by (auto simp: nth_append)

lemma SplitHostPort_host:
  assumes "SplitHostPort s = Some (host, port)"
  shows "CHR ''['' \<notin> set host" "CHR '']'' \<notin> set host"
proof -
  obtain i where i: "last_index_byte (CHR '':'') s = Some i"
    using assms by (auto simp: SplitHostPort_def split: option.splits)
  have "CHR ''['' \<notin> set host \<and> CHR '']'' \<notin> set host"
  proof (cases "s ! 0 = CHR ''[''")
    case True
    with assms i obtain e where e: "index_byte (CHR '']'') s = Some e" "host = take (e - 1) (drop 1 s)"
        "CHR ''['' \<notin> set (drop 1 s)"
      by (auto simp: SplitHostPort_def split: option.splits if_splits)
    have "e \<le> length s" using e(1) by (auto simp: index_byte_def find_Some_iff)
    have "CHR '']'' \<notin> set host"
    proof
      assume "CHR '']'' \<in> set host"
      then obtain j where j: "j < length host" "host ! j = CHR '']''" by (auto simp: in_set_conv_nth)
      then have "s ! (j + 1) = CHR '']''" "j + 1 < e" using e(2) \<open>e \<le> length s\<close> by auto
      with find_upt_before [OF e(1) [unfolded index_byte_def]] show False by blast
    qed
    with e show ?thesis by (auto dest: in_set_takeD)
  next
    case False
    with assms i show ?thesis by (auto simp: SplitHostPort_def split: if_splits dest: in_set_takeD)
  qed
  then show "CHR ''['' \<notin> set host" "CHR '']'' \<notin> set host" by simp_all
qed

lemma trim_brackets: "CHR ''['' \<notin> set h \<Longrightarrow> CHR '']'' \<notin> set h \<Longrightarrow> TrimSuffix (TrimPrefix h ''['') '']'' = h"
proof -
  assume h: "CHR ''['' \<notin> set h" "CHR '']'' \<notin> set h"
  have "\<not> HasPrefix h ''[''" using h(1) by (cases h) (auto simp: HasPrefix_def)
  moreover have "\<not> HasSuffix h '']''"
  proof
    assume "HasSuffix h '']''"
    then have "CHR '']'' \<in> set (drop (length h - 1) h)" by (simp add: HasSuffix_def)
    with h(2) show False using in_set_dropD by fastforce
  qed
  ultimately show ?thesis by (simp add: TrimPrefix_def TrimSuffix_def)
qed

lemma index_byte_None: "c \<notin> set s \<Longrightarrow> index_byte c s = None"
  by (auto simp: index_byte_def find_None_iff)

lemma literal_parses:
  assumes "literalAddr host = Some a" "CHR ''%'' \<notin> set host"
  shows "ParseIP host \<noteq> None"
proof -
  have i: "index_byte (CHR ''%'') host = None" by (rule index_byte_None [OF assms(2)])
  then obtain b where b: "ParseAddr host = Some b" using assms(1) by (auto simp: literalAddr_def)
  show ?thesis
  proof (cases b)
    case (IP6 ip zone)
    then have "parseIPv6 host = Some (ip, zone)" using b by (auto simp: ParseAddr_def split: option.splits if_splits)
    then have "zone = []" using i by (auto simp: parseIPv6_def Let_def split: option.splits if_splits)
    with b IP6 show ?thesis by (simp add: ParseIP_def)
  qed (use b in \<open>simp add: ParseIP_def\<close>)
qed

text \<open>
  A flow the router sends direct is dialled to its own target without consulting any name
  resolver, provided the target is trimmed and its address has no zone.
\<close>

theorem direct_flow_no_dns:
  assumes "rd_Action (Decide r target) = ActionDirect" "TrimSpace target = target" "CHR ''%'' \<notin> set target"
  shows "(\<exists>host port. SplitHostPort target = Some (host, port))
    \<and> (\<forall>resolver :: resolver. outbound_dial (DirectOutbound DefaultDialTimeout (Some resolver) via) target = Inr (via, target))"
proof -
  obtain host port where hp: "SplitHostPort target = Some (host, port)"
    using assms(1,2) Decide_malformed(1) [of target r] by (cases "SplitHostPort target") auto
  then obtain a where a: "literalAddr host = Some a"
    using assms(1,2) Decide_domain [of target host port r] by (cases "literalAddr host") (auto simp: router_init_def)
  have "CHR ''%'' \<notin> set host"
    using hp assms(3) by (auto simp: SplitHostPort_def split: option.splits if_splits dest!: in_set_takeD in_set_dropD)
  then have "ParseIP host \<noteq> None" by (rule literal_parses [OF a])
  then have "\<not> isDomainTarget target"
    using hp trim_brackets [OF SplitHostPort_host [OF hp]] by (simp add: isDomainTarget_def Let_def)
  then show ?thesis using hp by (simp add: outbound_dial_def direct_dial_def)
qed

definition lan_router :: default_router where
  "lan_router = DefaultRouterWithPolicy (sample_route OutboundSOCKS5)
     \<lparr>rp_PrivateDirect = True, rp_BlockCIDRs = [], rp_DirectCIDRs = [], rp_DefaultOutbound = ''''\<rparr>"

theorem direct_flow_no_dns_witness:
  "rd_Action (Decide lan_router ''10.0.0.1:80'') = ActionDirect
   \<and> (\<forall>resolver. outbound_dial (DirectOutbound DefaultDialTimeout (Some resolver) (None :: nat option)) ''10.0.0.1:80'' = Inr (None, ''10.0.0.1:80''))"
proof -
  have t: "TrimSpace ''10.0.0.1:80'' = ''10.0.0.1:80''" by (rule TrimSpace_graphic) (simp add: graphic_def)
  have hp: "SplitHostPort (TrimSpace ''10.0.0.1:80'') = Some (''10.0.0.1'', ''80'')" unfolding t by code_simp
  have l: "literalAddr ''10.0.0.1'' = Some (IP4 [10, 0, 0, 1])" by code_simp
  have "rd_Action (Decide lan_router ''10.0.0.1:80'') = ActionDirect"
    using Decide_literal(1) [OF hp l, of lan_router]
    by (simp add: lan_router_def DefaultRouterWithPolicy_def in_nets_def isLocalPrivate_def IsPrivate_def)
  with direct_flow_no_dns [OF this t, where via = "None :: nat option"] show ?thesis by simp
qed

text \<open>
  With a zone the router still sees a literal that needs no resolver, but the direct outbound hands
  the host to the resolver.
\<close>

lemma zone_literal_resolved:
  "rd_Action (Decide lan_router ''[::%e]:80'') = ActionDirect
   \<and> rd_ResolverChoice (Decide lan_router ''[::%e]:80'') = ''none''
   \<and> outbound_dial (DirectOutbound DefaultDialTimeout (Some (\<lambda>h. Some [IP4 [6, 6, 6, 6]])) (None :: nat option)) ''[::%e]:80''
       = Inr (None, ''6.6.6.6:80'')"
proof -
  have t: "TrimSpace ''[::%e]:80'' = ''[::%e]:80''" by (rule TrimSpace_graphic) (simp add: graphic_def)
  have hp: "SplitHostPort ''[::%e]:80'' = Some (''::%e'', ''80'')" by code_simp
  have l: "literalAddr ''::%e'' = Some (IP6 (replicate 16 0) [])" by code_simp
  have "isLocalPrivate (IP6 (replicate 16 0) [])"
    by (simp add: isLocalPrivate_def IsUnspecified_def)
  then have "rd_Action (Decide lan_router ''[::%e]:80'') = ActionDirect
      \<and> rd_ResolverChoice (Decide lan_router ''[::%e]:80'') = ''none''"
    using t hp l by (simp add: Decide_def Let_def lan_router_def DefaultRouterWithPolicy_def)
  moreover have "outbound_dial (DirectOutbound DefaultDialTimeout (Some (\<lambda>h. Some [IP4 [6, 6, 6, 6]])) (None :: nat option)) ''[::%e]:80''
       = Inr (None, ''6.6.6.6:80'')" by code_simp
  ultimately show ?thesis by simp
qed

end
