(* ===== verification/EngineLife.thy ===== *)
theory EngineLife
  imports Prelude
begin

text \<open>
  The lifecycle of one first-party engine run (\<open>engine/freecore/engine.go\<close>, \<open>session.go\<close>): the
  bounded session registry, the wait group of owned goroutines, the TUN admission sentinel, and
  the interleaving of \<open>Run\<close> or \<open>ServeFlowsOnly\<close>, \<open>Stop\<close>, the context watcher, the completion
  monitor, the accept loops and the served connections. A step is one critical section or one
  channel, wait group or listener operation of one goroutine.
\<close>

section \<open>The session registry\<close>

type_synonym session_id = "64 word"

datatype session_err = errDraining | errSessionLimit

text \<open>The registry keeps, per live session, whether it was finished (cancelled).\<close>

record session_registry =
  sr_sessions :: "(session_id, bool) gomap"
  sr_next :: session_id
  sr_max :: int
  sr_draining :: bool

definition DefaultMaxSessions :: int where
  "DefaultMaxSessions = 1024"

definition newSessionRegistry :: "int \<Rightarrow> session_registry" where
  "newSessionRegistry mx =
     \<lparr>sr_sessions = [], sr_next = 0, sr_max = (if mx \<le> 0 then DefaultMaxSessions else mx), sr_draining = False\<rparr>"

definition reg_begin :: "session_registry \<Rightarrow> (session_err + session_id) \<times> session_registry" where
  "reg_begin r =
     (if sr_draining r then (Inl errDraining, r)
      else if int (length (sr_sessions r)) \<ge> sr_max r then (Inl errSessionLimit, r)
      else let n = sr_next r + 1
           in (Inr n, r\<lparr>sr_next := n, sr_sessions := gput n False (sr_sessions r)\<rparr>))"

text \<open>The end function: finish (idempotent), then remove.\<close>

definition session_finish :: "session_id \<Rightarrow> session_registry \<Rightarrow> session_registry" where
  "session_finish n r =
     (case gget (sr_sessions r) n of None \<Rightarrow> r | Some _ \<Rightarrow> r\<lparr>sr_sessions := gput n True (sr_sessions r)\<rparr>)"

definition reg_end :: "session_id \<Rightarrow> session_registry \<Rightarrow> session_registry" where
  "reg_end n r = (let r1 = session_finish n r in r1\<lparr>sr_sessions := gdel n (sr_sessions r1)\<rparr>)"

definition beginDrain :: "session_registry \<Rightarrow> session_registry" where
  "beginDrain r = r\<lparr>sr_draining := True\<rparr>"

definition isDraining :: "session_registry \<Rightarrow> bool" where
  "isDraining r = sr_draining r"

section \<open>The engine\<close>

datatype listener_state = LNone | LOpen | LClosed
datatype ctx_state = NoCtx | CtxLive | CtxDone
datatype run_pc = RunStart | RunMixed | RunBound | RunCtx | RunAdmitted | RunAccepting | RunAccepted | RunWatched | RunDone | RunFailed
datatype stop_pc = StopIdle | StopDrain | StopAdmission | StopRelease | StopCancel | StopListeners | StopDone
datatype watch_pc = WatchOff | WatchWait | WatchAdmission | WatchRelease | WatchDrain | WatchListeners | WatchDone
datatype accept_pc = AccOff | AccRun | AccStop

text \<open>A goroutine that serves a connection or flow: before, inside and after its session.\<close>

datatype served = ServeNew | ServeSession session_id | ServeEnd

record engine =
  en_httpPort :: bool
  en_flowsOnly :: bool
  en_registry :: session_registry
  en_serveWG :: int
  en_tunAdmission :: bool
  en_mixed :: listener_state
  en_http :: listener_state
  en_parentDone :: bool
  en_ctx :: ctx_state
  en_stopOnce :: bool
  en_stopped :: bool
  en_stopErr :: bool
  en_run :: run_pc
  en_stop :: stop_pc
  en_watcher :: watch_pc
  en_monitor :: bool
  en_accMixed :: accept_pc
  en_accHTTP :: accept_pc
  en_served :: "served list"

datatype engine_err = ErrLocalPort | ErrHTTPPort

text \<open>The last argument tells which of \<open>Run\<close> and \<open>ServeFlowsOnly\<close> is called on the new engine.\<close>

definition NewEngine :: "int \<Rightarrow> int \<Rightarrow> int \<Rightarrow> bool \<Rightarrow> engine_err + engine" where
  "NewEngine localPort httpPort maxSessions flowsOnly =
     (if localPort \<le> 0 \<or> localPort > 65535 then Inl ErrLocalPort
      else if httpPort < 0 \<or> httpPort > 65535 then Inl ErrHTTPPort
      else Inr
       \<lparr>en_httpPort = (httpPort > 0), en_flowsOnly = flowsOnly, en_registry = newSessionRegistry maxSessions,
        en_serveWG = 0, en_tunAdmission = False, en_mixed = LNone, en_http = LNone, en_parentDone = False,
        en_ctx = NoCtx, en_stopOnce = False, en_stopped = False, en_stopErr = False,
        en_run = (if flowsOnly then RunBound else RunStart), en_stop = StopIdle, en_watcher = WatchOff,
        en_monitor = False, en_accMixed = AccOff, en_accHTTP = AccOff, en_served = []\<rparr>)"

definition wg_add :: "int \<Rightarrow> engine \<Rightarrow> engine" where
  "wg_add k e = e\<lparr>en_serveWG := en_serveWG e + k\<rparr>"

definition openTUNAdmission :: "engine \<Rightarrow> engine" where
  "openTUNAdmission e = (if en_tunAdmission e then e else wg_add 1 (e\<lparr>en_tunAdmission := True\<rparr>))"

definition admitTUNFlow :: "engine \<Rightarrow> bool \<times> engine" where
  "admitTUNFlow e = (if \<not> en_tunAdmission e then (False, e) else (True, wg_add 1 e))"

text \<open>
  \<open>closeTUNAdmission\<close>: the flag flips under the mutex, the sentinel is released after it; the
  first component tells whether a release is due.
\<close>

definition closeTUNAdmission :: "engine \<Rightarrow> bool \<times> engine" where
  "closeTUNAdmission e = (if \<not> en_tunAdmission e then (False, e) else (True, e\<lparr>en_tunAdmission := False\<rparr>))"

definition close_listener :: "listener_state \<Rightarrow> listener_state" where
  "close_listener l = (case l of LOpen \<Rightarrow> LClosed | _ \<Rightarrow> l)"

definition closeListeners :: "engine \<Rightarrow> engine" where
  "closeListeners e = e\<lparr>en_mixed := close_listener (en_mixed e), en_http := close_listener (en_http e)\<rparr>"

definition drain :: "engine \<Rightarrow> engine" where
  "drain e = e\<lparr>en_registry := beginDrain (en_registry e)\<rparr>"

definition stopping :: "engine \<Rightarrow> bool" where
  "stopping e = isDraining (en_registry e)"

definition recordStop :: "engine \<Rightarrow> engine" where
  "recordStop e = e\<lparr>en_stopErr := True\<rparr>"

definition cancel_ctx :: "engine \<Rightarrow> engine" where
  "cancel_ctx e = e\<lparr>en_ctx := (case en_ctx e of NoCtx \<Rightarrow> NoCtx | _ \<Rightarrow> CtxDone)\<rparr>"

definition markStopped :: "engine \<Rightarrow> engine" where
  "markStopped e = e\<lparr>en_stopped := True\<rparr>"

text \<open>\<open>Run\<close> and \<open>ServeFlowsOnly\<close>: the next critical section; the flag is whether a bind succeeds.\<close>

definition run_next :: "bool \<Rightarrow> engine \<Rightarrow> engine option" where
  "run_next ok e =
     (case en_run e of
        RunStart \<Rightarrow> Some (if ok then e\<lparr>en_mixed := LOpen, en_run := RunMixed\<rparr> else e\<lparr>en_run := RunFailed\<rparr>)
      | RunMixed \<Rightarrow>
          Some (if \<not> en_httpPort e then e\<lparr>en_run := RunBound\<rparr>
                else if ok then e\<lparr>en_http := LOpen, en_run := RunBound\<rparr>
                else e\<lparr>en_mixed := close_listener (en_mixed e), en_run := RunFailed\<rparr>)
      | RunBound \<Rightarrow> Some (e\<lparr>en_ctx := if en_parentDone e then CtxDone else CtxLive, en_run := RunCtx\<rparr>)
      | RunCtx \<Rightarrow> Some ((openTUNAdmission e)\<lparr>en_run := RunAdmitted\<rparr>)
      | RunAdmitted \<Rightarrow>
          Some (if en_flowsOnly e then e\<lparr>en_run := RunAccepted\<rparr>
                else (wg_add 1 e)\<lparr>en_accMixed := AccRun, en_run := RunAccepting\<rparr>)
      | RunAccepting \<Rightarrow>
          Some (if en_httpPort e then (wg_add 1 e)\<lparr>en_accHTTP := AccRun, en_run := RunAccepted\<rparr>
                else e\<lparr>en_run := RunAccepted\<rparr>)
      | RunAccepted \<Rightarrow> Some (e\<lparr>en_watcher := WatchWait, en_run := RunWatched\<rparr>)
      | RunWatched \<Rightarrow> Some (e\<lparr>en_monitor := True, en_run := RunDone\<rparr>)
      | RunDone \<Rightarrow> None
      | RunFailed \<Rightarrow> None)"

text \<open>The body of \<open>Stop\<close>, guarded by \<open>stopOnce\<close>; waiting for the grace period changes nothing.\<close>

definition stop_next :: "engine \<Rightarrow> engine option" where
  "stop_next e =
     (case en_stop e of
        StopIdle \<Rightarrow> None
      | StopDrain \<Rightarrow> Some ((drain e)\<lparr>en_stop := StopAdmission\<rparr>)
      | StopAdmission \<Rightarrow>
          Some (let (rel, e1) = closeTUNAdmission e in e1\<lparr>en_stop := if rel then StopRelease else StopCancel\<rparr>)
      | StopRelease \<Rightarrow> Some ((wg_add (- 1) e)\<lparr>en_stop := StopCancel\<rparr>)
      | StopCancel \<Rightarrow> Some ((cancel_ctx e)\<lparr>en_stop := StopListeners\<rparr>)
      | StopListeners \<Rightarrow> Some ((closeListeners e)\<lparr>en_stop := StopDone\<rparr>)
      | StopDone \<Rightarrow> None)"

definition stop_claim :: "engine \<Rightarrow> engine option" where
  "stop_claim e = (if en_stopOnce e then None else Some (e\<lparr>en_stopOnce := True, en_stop := StopDrain\<rparr>))"

text \<open>The goroutine that waits for the end of the engine context.\<close>

definition watch_next :: "engine \<Rightarrow> engine option" where
  "watch_next e =
     (case en_watcher e of
        WatchOff \<Rightarrow> None
      | WatchWait \<Rightarrow> if en_ctx e = CtxDone then Some (e\<lparr>en_watcher := WatchAdmission\<rparr>) else None
      | WatchAdmission \<Rightarrow>
          Some (let (rel, e1) = closeTUNAdmission e in e1\<lparr>en_watcher := if rel then WatchRelease else WatchDrain\<rparr>)
      | WatchRelease \<Rightarrow> Some ((wg_add (- 1) e)\<lparr>en_watcher := WatchDrain\<rparr>)
      | WatchDrain \<Rightarrow> Some ((drain e)\<lparr>en_watcher := WatchListeners\<rparr>)
      | WatchListeners \<Rightarrow> Some ((closeListeners e)\<lparr>en_watcher := WatchDone\<rparr>)
      | WatchDone \<Rightarrow> None)"

text \<open>
  One turn of an accept loop, given what \<open>Accept\<close> returned: a connection, the closed-listener
  error, or another error. \<open>AccStop\<close> is the loop inside its call of \<open>Stop\<close>.
\<close>

datatype accept_result = Accepted | ErrClosed | ErrOther

definition accept_turn :: "accept_result \<Rightarrow> engine \<Rightarrow> accept_pc \<times> engine" where
  "accept_turn res e =
     (case res of
        Accepted \<Rightarrow> (AccRun, (wg_add 1 e)\<lparr>en_served := ServeNew # en_served e\<rparr>)
      | ErrClosed \<Rightarrow> if stopping e then (AccOff, wg_add (- 1) e) else (AccStop, recordStop e)
      | ErrOther \<Rightarrow> (AccStop, recordStop e))"

text \<open>A served connection or flow: it opens a session or is refused, ends it, and is released.\<close>

definition serve_begin :: "nat \<Rightarrow> engine \<Rightarrow> engine" where
  "serve_begin i e =
     (case reg_begin (en_registry e) of
        (Inl _, _) \<Rightarrow> e\<lparr>en_served := (en_served e)[i := ServeEnd]\<rparr>
      | (Inr n, r) \<Rightarrow> e\<lparr>en_registry := r, en_served := (en_served e)[i := ServeSession n]\<rparr>)"

definition serve_end :: "nat \<Rightarrow> session_id \<Rightarrow> engine \<Rightarrow> engine" where
  "serve_end i n e = e\<lparr>en_registry := reg_end n (en_registry e), en_served := (en_served e)[i := ServeEnd]\<rparr>"

definition serve_release :: "nat \<Rightarrow> engine \<Rightarrow> engine" where
  "serve_release i e = (wg_add (- 1) e)\<lparr>en_served := take i (en_served e) @ drop (Suc i) (en_served e)\<rparr>"

definition HandleTUNFlow :: "engine \<Rightarrow> engine" where
  "HandleTUNFlow e = (case admitTUNFlow e of (False, _) \<Rightarrow> e | (True, e1) \<Rightarrow> e1\<lparr>en_served := ServeNew # en_served e1\<rparr>)"

text \<open>Every interleaving of the goroutines, the callers of \<open>Stop\<close> and the parent context.\<close>

inductive engine_step :: "engine \<Rightarrow> engine \<Rightarrow> bool" where
  step_run: "run_next ok e = Some t \<Longrightarrow> engine_step e t"
| step_stop_call: "stop_claim e = Some t \<Longrightarrow> engine_step e t"
| step_stop: "stop_next e = Some t \<Longrightarrow> engine_step e t"
| step_watch: "watch_next e = Some t \<Longrightarrow> engine_step e t"
| step_monitor: "en_monitor e \<Longrightarrow> en_serveWG e = 0 \<Longrightarrow> engine_step e (markStopped e)"
| step_parent: "engine_step e (e\<lparr>en_parentDone := True, en_ctx := (case en_ctx e of CtxLive \<Rightarrow> CtxDone | c \<Rightarrow> c)\<rparr>)"
| step_mixed: "en_accMixed e = AccRun \<Longrightarrow> (res = Accepted \<longrightarrow> en_mixed e = LOpen) \<Longrightarrow> (res = ErrClosed \<longrightarrow> en_mixed e = LClosed) \<Longrightarrow>
    accept_turn res e = (pc, t) \<Longrightarrow> engine_step e (t\<lparr>en_accMixed := pc\<rparr>)"
| step_http: "en_accHTTP e = AccRun \<Longrightarrow> (res = Accepted \<longrightarrow> en_http e = LOpen) \<Longrightarrow> (res = ErrClosed \<longrightarrow> en_http e = LClosed) \<Longrightarrow>
    accept_turn res e = (pc, t) \<Longrightarrow> engine_step e (t\<lparr>en_accHTTP := pc\<rparr>)"
| step_mixed_return: "en_accMixed e = AccStop \<Longrightarrow> en_stop e = StopDone \<Longrightarrow> engine_step e ((wg_add (- 1) e)\<lparr>en_accMixed := AccOff\<rparr>)"
| step_http_return: "en_accHTTP e = AccStop \<Longrightarrow> en_stop e = StopDone \<Longrightarrow> engine_step e ((wg_add (- 1) e)\<lparr>en_accHTTP := AccOff\<rparr>)"
| step_flow: "engine_step e (HandleTUNFlow e)"
| step_begin: "i < length (en_served e) \<Longrightarrow> en_served e ! i = ServeNew \<Longrightarrow> engine_step e (serve_begin i e)"
| step_skip: "i < length (en_served e) \<Longrightarrow> en_served e ! i = ServeNew \<Longrightarrow> engine_step e (e\<lparr>en_served := (en_served e)[i := ServeEnd]\<rparr>)"
| step_end: "i < length (en_served e) \<Longrightarrow> en_served e ! i = ServeSession n \<Longrightarrow> engine_step e (serve_end i n e)"
| step_release: "i < length (en_served e) \<Longrightarrow> en_served e ! i = ServeEnd \<Longrightarrow> engine_step e (serve_release i e)"

definition engine_init :: "engine \<Rightarrow> bool" where
  "engine_init e \<longleftrightarrow> (\<exists>localPort httpPort mx flowsOnly. NewEngine localPort httpPort mx flowsOnly = Inr e)"

section \<open>The registry stays within its bound\<close>

definition registry_ok :: "session_registry \<Rightarrow> bool" where
  "registry_ok r \<longleftrightarrow> gmap_ok (sr_sessions r) \<and> 0 < sr_max r \<and> int (length (sr_sessions r)) \<le> sr_max r"

lemma registry_ok_new: "registry_ok (newSessionRegistry mx)"
  by (simp add: registry_ok_def newSessionRegistry_def DefaultMaxSessions_def)

lemma registry_ok_begin: "registry_ok r \<Longrightarrow> reg_begin r = (res, r') \<Longrightarrow> registry_ok r'"
  by (auto simp: registry_ok_def reg_begin_def Let_def length_gput split: if_splits)

lemma registry_ok_end: "registry_ok r \<Longrightarrow> registry_ok (reg_end n r)"
proof -
  assume r: "registry_ok r"
  have "length (gdel n (gput n True (sr_sessions r))) \<le> length (sr_sessions r)"
    if "gget (sr_sessions r) n = Some x" for x
  proof -
    have "Suc (length (gdel n (gput n True (sr_sessions r)))) = length (gput n True (sr_sessions r))"
      using r by (intro length_gdel_present [where v = True]) (simp_all add: registry_ok_def)
    then show ?thesis using length_gput [of n True "sr_sessions r"] by (simp split: if_splits)
  qed
  moreover have "length (gdel n (sr_sessions r)) \<le> length (sr_sessions r)" by (rule length_gdel_le)
  ultimately show ?thesis
    using r by (auto simp: registry_ok_def reg_end_def session_finish_def Let_def split: option.split)
qed

lemma registry_ok_drain: "registry_ok r \<Longrightarrow> registry_ok (beginDrain r)"
  by (simp add: registry_ok_def beginDrain_def)

lemma keys_gdel: "fst ` set (gdel k m) = fst ` set m - {k}"
  by (force simp: AList.delete_eq)

lemma reg_end_keys: "fst ` set (sr_sessions (reg_end n r)) \<subseteq> fst ` set (sr_sessions r) - {n}"
proof -
  have "sr_sessions (session_finish n r) = sr_sessions r \<or> sr_sessions (session_finish n r) = gput n True (sr_sessions r)"
    by (simp add: session_finish_def split: option.split)
  then show ?thesis by (elim disjE) (simp_all add: reg_end_def Let_def keys_gdel dom_update)
qed

lemma reg_begin_keys:
  assumes "reg_begin r = (Inr n, r')"
  shows "fst ` set (sr_sessions r') = insert n (fst ` set (sr_sessions r))"
proof -
  have "sr_sessions r' = gput n False (sr_sessions r)" using assms by (auto simp: reg_begin_def Let_def split: if_splits)
  then show ?thesis by (simp add: dom_update)
qed

section \<open>The lifecycle invariant\<close>

text \<open>The references of the wait group that are owed a release.\<close>

definition owned :: "engine \<Rightarrow> int" where
  "owned e = of_bool (en_tunAdmission e) + of_bool (en_stop e = StopRelease) + of_bool (en_watcher e = WatchRelease)
     + of_bool (en_accMixed e \<noteq> AccOff) + of_bool (en_accHTTP e \<noteq> AccOff) + int (length (en_served e))"

definition wg_ok :: "engine \<Rightarrow> bool" where
  "wg_ok e \<longleftrightarrow> en_serveWG e = owned e"

definition sessions_ok :: "engine \<Rightarrow> bool" where
  "sessions_ok e \<longleftrightarrow> registry_ok (en_registry e) \<and>
     (\<forall>n \<in> fst ` set (sr_sessions (en_registry e)). ServeSession n \<in> set (en_served e))"

text \<open>What has not been started yet, by the progress of \<open>Run\<close>.\<close>

definition phase_ok :: "engine \<Rightarrow> bool" where
  "phase_ok e \<longleftrightarrow>
     (en_run e \<in> {RunStart, RunMixed, RunBound, RunCtx, RunFailed} \<longrightarrow> \<not> en_tunAdmission e \<and> en_served e = []) \<and>
     (en_run e \<in> {RunStart, RunMixed, RunBound, RunCtx, RunFailed, RunAdmitted} \<longrightarrow> en_accMixed e = AccOff) \<and>
     (en_run e \<in> {RunStart, RunMixed, RunBound, RunCtx, RunFailed, RunAdmitted, RunAccepting} \<longrightarrow> en_accHTTP e = AccOff) \<and>
     (en_run e \<notin> {RunWatched, RunDone} \<longrightarrow> en_watcher e = WatchOff) \<and>
     (en_monitor e \<longrightarrow> en_run e = RunDone) \<and>
     (en_stopOnce e \<longleftrightarrow> en_stop e \<noteq> StopIdle)"

text \<open>A listener is closed only after new sessions are refused, or by a failed bind.\<close>

definition drain_ok :: "engine \<Rightarrow> bool" where
  "drain_ok e \<longleftrightarrow>
     (en_stop e \<notin> {StopIdle, StopDrain} \<longrightarrow> stopping e) \<and>
     (en_watcher e \<in> {WatchListeners, WatchDone} \<longrightarrow> stopping e) \<and>
     (en_mixed e = LClosed \<or> en_http e = LClosed \<longrightarrow> stopping e \<or> en_run e = RunFailed)"

definition stopped_ok :: "engine \<Rightarrow> bool" where
  "stopped_ok e \<longleftrightarrow> (en_stopped e \<longrightarrow> en_monitor e \<and> en_serveWG e = 0)"

definition engine_inv :: "engine \<Rightarrow> bool" where
  "engine_inv e \<longleftrightarrow> wg_ok e \<and> sessions_ok e \<and> phase_ok e \<and> drain_ok e \<and> stopped_ok e"

lemmas engine_defs = openTUNAdmission_def admitTUNFlow_def closeTUNAdmission_def close_listener_def closeListeners_def
  drain_def stopping_def isDraining_def beginDrain_def recordStop_def cancel_ctx_def markStopped_def wg_add_def
  serve_begin_def serve_end_def serve_release_def HandleTUNFlow_def accept_turn_def

lemmas engine_next_defs = run_next_def stop_next_def stop_claim_def watch_next_def

inductive_cases engine_stepE: "engine_step e t"

lemma owned_nonneg: "0 \<le> owned e"
  by (simp add: owned_def)

lemma owned_zero:
  assumes "owned e = 0"
  shows "\<not> en_tunAdmission e" "en_stop e \<noteq> StopRelease" "en_watcher e \<noteq> WatchRelease" "en_accMixed e = AccOff"
    "en_accHTTP e = AccOff" "en_served e = []"
  using assms by (auto simp: owned_def of_bool_def split: if_splits)

lemma run_thread_inv:
  assumes "run_next ok e = Some t"
  shows "phase_ok e \<Longrightarrow> phase_ok t" "phase_ok e \<Longrightarrow> wg_ok e \<Longrightarrow> wg_ok t" "drain_ok e \<Longrightarrow> drain_ok t"
  using assms
  by (cases "en_run e"; simp add: run_next_def openTUNAdmission_def wg_add_def split: if_splits;
      clarsimp simp: phase_ok_def wg_ok_def owned_def drain_ok_def stopping_def close_listener_def split: listener_state.split)+

lemma stop_inv:
  assumes "stop_next e = Some t"
  shows "phase_ok e \<Longrightarrow> phase_ok t" "wg_ok e \<Longrightarrow> wg_ok t" "drain_ok e \<Longrightarrow> drain_ok t"
  using assms
  by (cases "en_stop e"; simp add: stop_next_def engine_defs split: if_splits;
      clarsimp simp: phase_ok_def wg_ok_def owned_def drain_ok_def stopping_def isDraining_def split: listener_state.split)+

lemma watch_inv:
  assumes "watch_next e = Some t"
  shows "phase_ok e \<Longrightarrow> phase_ok t" "wg_ok e \<Longrightarrow> wg_ok t" "drain_ok e \<Longrightarrow> drain_ok t"
  using assms
  by (cases "en_watcher e"; simp add: watch_next_def engine_defs split: if_splits;
      clarsimp simp: phase_ok_def wg_ok_def owned_def drain_ok_def stopping_def isDraining_def split: listener_state.split)+

lemma claim_inv:
  assumes "stop_claim e = Some t"
  shows "phase_ok e \<Longrightarrow> phase_ok t" "wg_ok e \<Longrightarrow> phase_ok e \<Longrightarrow> wg_ok t" "drain_ok e \<Longrightarrow> phase_ok e \<Longrightarrow> drain_ok t"
  using assms
  by (simp add: stop_claim_def split: if_splits;
      clarsimp simp: phase_ok_def wg_ok_def owned_def drain_ok_def stopping_def)+

text \<open>An accept loop that runs has been started, so \<open>Run\<close> is past its admission.\<close>

lemma accepting_phase:
  assumes "phase_ok e" "en_accMixed e \<noteq> AccOff \<or> en_accHTTP e \<noteq> AccOff"
  shows "en_run e \<notin> {RunStart, RunMixed, RunBound, RunCtx, RunFailed, RunAdmitted}"
    "en_accHTTP e \<noteq> AccOff \<Longrightarrow> en_run e \<noteq> RunAccepting"
  using assms by (cases "en_run e"; simp add: phase_ok_def; fail)+

lemma mixed_inv:
  assumes "en_accMixed e = AccRun" "accept_turn res e = (pc, t)" "phase_ok e"
  shows "phase_ok (t\<lparr>en_accMixed := pc\<rparr>)" "wg_ok e \<Longrightarrow> wg_ok (t\<lparr>en_accMixed := pc\<rparr>)"
    "drain_ok e \<Longrightarrow> drain_ok (t\<lparr>en_accMixed := pc\<rparr>)"
  using assms accepting_phase(1) [OF assms(3)]
  by (cases res; simp add: accept_turn_def wg_add_def recordStop_def split: if_splits;
      clarsimp simp: phase_ok_def wg_ok_def owned_def drain_ok_def stopping_def)+

lemma http_inv:
  assumes "en_accHTTP e = AccRun" "accept_turn res e = (pc, t)" "phase_ok e"
  shows "phase_ok (t\<lparr>en_accHTTP := pc\<rparr>)" "wg_ok e \<Longrightarrow> wg_ok (t\<lparr>en_accHTTP := pc\<rparr>)"
    "drain_ok e \<Longrightarrow> drain_ok (t\<lparr>en_accHTTP := pc\<rparr>)"
  using assms accepting_phase [OF assms(3)]
  by (cases res; simp add: accept_turn_def wg_add_def recordStop_def split: if_splits;
      clarsimp simp: phase_ok_def wg_ok_def owned_def drain_ok_def stopping_def)+

text \<open>The remaining steps change neither the program counters nor the listeners.\<close>

lemma frame_inv:
  assumes "phase_ok e" "t = e\<lparr>en_registry := r, en_serveWG := w, en_served := l\<rparr>"
    and "en_served e = [] \<Longrightarrow> en_tunAdmission e \<or> l = []"
  shows "phase_ok t" "drain_ok e \<Longrightarrow> sr_draining r = sr_draining (en_registry e) \<Longrightarrow> drain_ok t"
    "wg_ok e \<Longrightarrow> w - en_serveWG e = int (length l) - int (length (en_served e)) \<Longrightarrow> wg_ok t"
proof -
  show "phase_ok t" using assms(1,3) unfolding assms(2) by (cases "en_run e"; simp add: phase_ok_def; blast)
  show "drain_ok t" if "drain_ok e" "sr_draining r = sr_draining (en_registry e)"
    using that unfolding assms(2) by (simp add: drain_ok_def stopping_def isDraining_def)
  show "wg_ok t" if "wg_ok e" "w - en_serveWG e = int (length l) - int (length (en_served e))"
    using that unfolding assms(2) by (simp add: wg_ok_def owned_def)
qed

definition core_ok :: "engine \<Rightarrow> bool" where
  "core_ok e \<longleftrightarrow> phase_ok e \<and> wg_ok e \<and> drain_ok e"

lemma core_frame:
  assumes "core_ok e" "en_served e = [] \<Longrightarrow> en_tunAdmission e \<or> l = []"
    and "sr_draining r = sr_draining (en_registry e)"
    and "w - en_serveWG e = int (length l) - int (length (en_served e))"
  shows "core_ok (e\<lparr>en_registry := r, en_serveWG := w, en_served := l\<rparr>)"
  using assms frame_inv [where e = e and l = l and r = r and w = w, OF _ refl] by (simp add: core_ok_def)

lemma core_unchanged [simp]:
  "core_ok (e\<lparr>en_stopped := b\<rparr>) = core_ok e" "core_ok (e\<lparr>en_parentDone := b, en_ctx := c\<rparr>) = core_ok e"
  by (simp_all add: core_ok_def phase_ok_def wg_ok_def owned_def drain_ok_def stopping_def)

lemma serve_frames:
  "serve_begin i e = e\<lparr>en_registry := (case reg_begin (en_registry e) of (Inl _, _) \<Rightarrow> en_registry e | (Inr n, r) \<Rightarrow> r),
     en_serveWG := en_serveWG e,
     en_served := (en_served e)[i := (case reg_begin (en_registry e) of (Inl _, _) \<Rightarrow> ServeEnd | (Inr n, r) \<Rightarrow> ServeSession n)]\<rparr>"
  "serve_end i n e = e\<lparr>en_registry := reg_end n (en_registry e), en_serveWG := en_serveWG e, en_served := (en_served e)[i := ServeEnd]\<rparr>"
  "serve_release i e = e\<lparr>en_registry := en_registry e, en_serveWG := en_serveWG e - 1,
     en_served := take i (en_served e) @ drop (Suc i) (en_served e)\<rparr>"
  "e\<lparr>en_served := l\<rparr> = e\<lparr>en_registry := en_registry e, en_serveWG := en_serveWG e, en_served := l\<rparr>"
  by (cases "reg_begin (en_registry e)"; cases e;
      simp add: serve_begin_def serve_end_def serve_release_def wg_add_def split: sum.split)+

lemma begin_draining: "reg_begin r = (res, r') \<Longrightarrow> sr_draining r' = sr_draining r"
  by (auto simp: reg_begin_def Let_def split: if_splits)

lemma end_draining: "sr_draining (reg_end n r) = sr_draining r"
  by (simp add: reg_end_def session_finish_def Let_def split: option.split)

lemma core_step: "engine_step e t \<Longrightarrow> core_ok e \<Longrightarrow> core_ok t"
proof (erule engine_stepE, goal_cases)
  case (1 ok) then show ?case using run_thread_inv [of ok e t] by (simp add: core_ok_def)
next
  case 2 then show ?case using claim_inv [of e t] by (simp add: core_ok_def)
next
  case 3 then show ?case using stop_inv [of e t] by (simp add: core_ok_def)
next
  case 4 then show ?case using watch_inv [of e t] by (simp add: core_ok_def)
next
  case 5
  then show ?case by (simp add: markStopped_def)
next
  case 6
  then show ?case by simp
next
  case (7 res pc u) then show ?case using mixed_inv [of e res pc u] by (simp add: core_ok_def)
next
  case (8 res pc u) then show ?case using http_inv [of e res pc u] by (simp add: core_ok_def)
next
  case 9
  then show ?case by (simp add: core_ok_def wg_add_def phase_ok_def wg_ok_def owned_def drain_ok_def stopping_def)
next
  case 10
  then show ?case by (simp add: core_ok_def wg_add_def phase_ok_def wg_ok_def owned_def drain_ok_def stopping_def)
next
  case 11
  have "HandleTUNFlow e = e \<or> en_tunAdmission e \<and> HandleTUNFlow e =
      e\<lparr>en_registry := en_registry e, en_serveWG := en_serveWG e + 1, en_served := ServeNew # en_served e\<rparr>"
    by (cases e) (simp add: HandleTUNFlow_def admitTUNFlow_def wg_add_def)
  with 11 show ?case using core_frame [of e "ServeNew # en_served e" "en_registry e" "en_serveWG e + 1"] by auto
next
  case (12 i)
  then show ?case unfolding 12(2) serve_frames(1)
    by (intro core_frame) (auto split: prod.splits sum.splits dest: begin_draining)
next
  case (13 i)
  then show ?case unfolding 13(2) by (subst serve_frames(4), intro core_frame) auto
next
  case (14 i n)
  then show ?case unfolding 14(2) serve_frames(2) by (intro core_frame) (auto simp: end_draining)
next
  case (15 i)
  then show ?case unfolding 15(2) serve_frames(3) by (intro core_frame) auto
qed

text \<open>Sessions are held by goroutines that are being served.\<close>

lemma sessions_frame:
  assumes "sessions_ok e" "en_registry t = en_registry e \<or> en_registry t = beginDrain (en_registry e)"
    and "set (en_served e) \<subseteq> set (en_served t)"
  shows "sessions_ok t"
proof -
  have "sr_sessions (en_registry t) = sr_sessions (en_registry e)" using assms(2) by (auto simp: beginDrain_def)
  moreover have "registry_ok (en_registry t)" using assms(1,2) registry_ok_drain by (auto simp: sessions_ok_def)
  ultimately show ?thesis using assms(1,3) by (auto simp: sessions_ok_def)
qed

lemma step_keeps_sessions:
  "run_next ok e = Some t \<Longrightarrow> en_registry t = en_registry e \<and> en_served t = en_served e"
  "stop_claim e = Some t \<Longrightarrow> en_registry t = en_registry e \<and> en_served t = en_served e"
  "stop_next e = Some t \<Longrightarrow> (en_registry t = en_registry e \<or> en_registry t = beginDrain (en_registry e)) \<and> en_served t = en_served e"
  "watch_next e = Some t \<Longrightarrow> (en_registry t = en_registry e \<or> en_registry t = beginDrain (en_registry e)) \<and> en_served t = en_served e"
  "accept_turn res e = (pc, t) \<Longrightarrow> en_registry t = en_registry e \<and> set (en_served e) \<subseteq> set (en_served t)"
proof goal_cases
  case 1 then show ?case by (cases "en_run e"; simp add: run_next_def openTUNAdmission_def wg_add_def split: if_splits; clarsimp)
next
  case 2 then show ?case by (simp add: stop_claim_def split: if_splits; clarsimp)
next
  case 3 then show ?case by (cases "en_stop e"; simp add: stop_next_def engine_defs split: if_splits; clarsimp)
next
  case 4 then show ?case by (cases "en_watcher e"; simp add: watch_next_def engine_defs split: if_splits; clarsimp)
next
  case 5 then show ?case by (cases res; simp add: accept_turn_def wg_add_def recordStop_def split: if_splits; clarsimp)
qed

lemma sessions_served:
  assumes "sessions_ok e" "i < length (en_served e)" "registry_ok r"
    and "\<And>n. n \<in> fst ` set (sr_sessions r) \<Longrightarrow> ServeSession n = x \<or>
           n \<in> fst ` set (sr_sessions (en_registry e)) \<and> en_served e ! i \<noteq> ServeSession n"
  shows "sessions_ok (e\<lparr>en_registry := r, en_serveWG := w, en_served := (en_served e)[i := x]\<rparr>)"
proof -
  have "ServeSession n \<in> set ((en_served e)[i := x])" if "n \<in> fst ` set (sr_sessions r)" for n
    using assms(4) [OF that]
  proof
    assume "ServeSession n = x"
    then show ?thesis using assms(2) by (simp add: set_update_memI)
  next
    assume n: "n \<in> fst ` set (sr_sessions (en_registry e)) \<and> en_served e ! i \<noteq> ServeSession n"
    then have "ServeSession n \<in> set (en_served e)" using assms(1) by (auto simp: sessions_ok_def)
    then obtain j where "j < length (en_served e)" "en_served e ! j = ServeSession n" by (auto simp: in_set_conv_nth)
    moreover from this n have "j \<noteq> i" by auto
    ultimately have "(en_served e)[i := x] ! j = ServeSession n" "j < length ((en_served e)[i := x])" by auto
    then show ?thesis by (metis nth_mem)
  qed
  with assms(3) show ?thesis by (simp add: sessions_ok_def)
qed

lemma sessions_ended:
  assumes "sessions_ok e" "i < length (en_served e)" "en_served e ! i = ServeNew"
  shows "sessions_ok (e\<lparr>en_served := (en_served e)[i := ServeEnd]\<rparr>)"
  using sessions_served [of e i "en_registry e" ServeEnd "en_serveWG e"] assms
  by (simp add: sessions_ok_def)

lemma set_remove_nth:
  assumes "i < length xs" "y \<in> set xs" "y \<noteq> xs ! i"
  shows "y \<in> set (take i xs @ drop (Suc i) xs)"
  using assms by (metis Un_iff id_take_nth_drop set_ConsD set_append)

lemma sessions_step: "engine_step e t \<Longrightarrow> sessions_ok e \<Longrightarrow> sessions_ok t"
proof (erule engine_stepE, goal_cases)
  case (1 ok) then show ?case using step_keeps_sessions(1) [of ok e t] sessions_frame [of e t] by simp
next
  case 2 then show ?case using step_keeps_sessions(2) [of e t] sessions_frame [of e t] by simp
next
  case 3 then show ?case using step_keeps_sessions(3) [of e t] sessions_frame [of e t] by simp
next
  case 4 then show ?case using step_keeps_sessions(4) [of e t] sessions_frame [of e t] by simp
next
  case 5 then show ?case by (auto simp: markStopped_def intro: sessions_frame [of e])
next
  case 6 then show ?case by (auto intro: sessions_frame [of e])
next
  case (7 res pc u) then show ?case
    using step_keeps_sessions(5) [of res e pc u] sessions_frame [of e "u\<lparr>en_accMixed := pc\<rparr>"] by simp
next
  case (8 res pc u) then show ?case
    using step_keeps_sessions(5) [of res e pc u] sessions_frame [of e "u\<lparr>en_accHTTP := pc\<rparr>"] by simp
next
  case 9 then show ?case by (auto simp: wg_add_def intro: sessions_frame [of e])
next
  case 10 then show ?case by (auto simp: wg_add_def intro: sessions_frame [of e])
next
  case 11 then show ?case
    by (auto simp: HandleTUNFlow_def admitTUNFlow_def wg_add_def intro: sessions_frame [of e])
next
  case (12 i)
  obtain res r where b: "reg_begin (en_registry e) = (res, r)" by fastforce
  have ok: "registry_ok (en_registry e)" using 12 by (simp add: sessions_ok_def)
  show ?case
  proof (cases res)
    case (Inl x)
    then have "t = e\<lparr>en_served := (en_served e)[i := ServeEnd]\<rparr>" using 12(2) b by (simp add: serve_begin_def)
    with sessions_ended [OF 12(1,3,4)] show ?thesis by simp
  next
    case (Inr n)
    then have t: "t = e\<lparr>en_registry := r, en_serveWG := en_serveWG e, en_served := (en_served e)[i := ServeSession n]\<rparr>"
      using 12(2) b by (cases e) (simp add: serve_begin_def)
    show ?thesis unfolding t
      using 12 registry_ok_begin [OF ok b] reg_begin_keys [of "en_registry e" n r] b Inr by (intro sessions_served) auto
  qed
next
  case (13 i)
  then show ?case using sessions_ended by simp
next
  case (14 i n)
  have "registry_ok (reg_end n (en_registry e))" using 14 by (simp add: sessions_ok_def registry_ok_end)
  with 14 show ?case unfolding 14(2) serve_frames(2)
    using reg_end_keys [of n "en_registry e"] by (intro sessions_served) auto
next
  case (15 i)
  then have "\<forall>n \<in> fst ` set (sr_sessions (en_registry e)). ServeSession n \<in> set (take i (en_served e) @ drop (Suc i) (en_served e))"
    using set_remove_nth [of i "en_served e"] unfolding sessions_ok_def by (metis served.distinct(5))
  with 15 show ?case unfolding 15(2) serve_frames(3) by (simp add: sessions_ok_def)
qed

text \<open>Once stopped, nothing is owed and nothing is taken again.\<close>

lemma stopped_quiet:
  assumes "core_ok e" "stopped_ok e" "en_stopped e"
  shows "en_monitor e" "en_run e = RunDone" "\<not> en_tunAdmission e" "en_stop e \<noteq> StopRelease" "en_watcher e \<noteq> WatchRelease"
    "en_accMixed e = AccOff" "en_accHTTP e = AccOff" "en_served e = []" "en_serveWG e = 0"
proof -
  have "owned e = 0" "en_monitor e" "en_serveWG e = 0" using assms by (auto simp: core_ok_def wg_ok_def stopped_ok_def)
  moreover from this(2) have "en_run e = RunDone" using assms(1) by (simp add: core_ok_def phase_ok_def)
  ultimately show "en_monitor e" "en_run e = RunDone" "\<not> en_tunAdmission e" "en_stop e \<noteq> StopRelease" "en_watcher e \<noteq> WatchRelease"
    "en_accMixed e = AccOff" "en_accHTTP e = AccOff" "en_served e = []" "en_serveWG e = 0"
    using owned_zero [of e] by auto
qed

lemma stopped_step:
  "engine_step e t \<Longrightarrow> core_ok e \<Longrightarrow> stopped_ok e \<Longrightarrow> stopped_ok t \<and> (en_stopped e \<longrightarrow> en_stopped t)"
proof (erule engine_stepE, goal_cases)
  case (1 ok) then show ?case using stopped_quiet [OF 1(1,2)] 1(2)
    by (cases "en_run e"; simp add: run_next_def openTUNAdmission_def wg_add_def split: if_splits; clarsimp simp: stopped_ok_def)
next
  case 2 then show ?case using 2(2) by (simp add: stop_claim_def split: if_splits; clarsimp simp: stopped_ok_def)
next
  case 3 then show ?case using stopped_quiet [OF 3(1,2)] 3(2)
    by (cases "en_stop e"; simp add: stop_next_def engine_defs split: if_splits; clarsimp simp: stopped_ok_def)
next
  case 4 then show ?case using stopped_quiet [OF 4(1,2)] 4(2)
    by (cases "en_watcher e"; simp add: watch_next_def engine_defs split: if_splits; clarsimp simp: stopped_ok_def)
next
  case 5 then show ?case by (simp add: stopped_ok_def markStopped_def)
next
  case 6 then show ?case using 6(2) by (simp add: stopped_ok_def)
next
  case (7 res pc u) then show ?case using stopped_quiet(6) [OF 7(1,2)]
    by (cases res; simp add: accept_turn_def wg_add_def recordStop_def split: if_splits; clarsimp simp: stopped_ok_def)
next
  case (8 res pc u) then show ?case using stopped_quiet(7) [OF 8(1,2)]
    by (cases res; simp add: accept_turn_def wg_add_def recordStop_def split: if_splits; clarsimp simp: stopped_ok_def)
next
  case 9 then show ?case using stopped_quiet(6) [OF 9(1,2)] by (auto simp: wg_add_def stopped_ok_def)
next
  case 10 then show ?case using stopped_quiet(7) [OF 10(1,2)] by (auto simp: wg_add_def stopped_ok_def)
next
  case 11 then show ?case using stopped_quiet(3) [OF 11(1,2)] 11(2)
    by (auto simp: HandleTUNFlow_def admitTUNFlow_def wg_add_def stopped_ok_def)
next
  case (12 i) then show ?case using stopped_quiet(8) [OF 12(1,2)] by (auto simp: serve_frames(1) stopped_ok_def)
next
  case (13 i) then show ?case using stopped_quiet(8) [OF 13(1,2)] by (auto simp: stopped_ok_def)
next
  case (14 i n) then show ?case using stopped_quiet(8) [OF 14(1,2)] by (auto simp: serve_frames(2) stopped_ok_def)
next
  case (15 i) then show ?case using stopped_quiet(8) [OF 15(1,2)] by (auto simp: serve_frames(3) stopped_ok_def)
qed

lemma engine_inv_core: "engine_inv e \<longleftrightarrow> core_ok e \<and> sessions_ok e \<and> stopped_ok e"
  by (auto simp: engine_inv_def core_ok_def)

lemma engine_inv_init: "engine_init e \<Longrightarrow> engine_inv e"
proof -
  assume "engine_init e"
  then obtain lp hp mx fl where e: "NewEngine lp hp mx fl = Inr e" by (auto simp: engine_init_def)
  have "sr_sessions (newSessionRegistry mx) = []" by (simp add: newSessionRegistry_def)
  with e registry_ok_new [of mx] show ?thesis
    by (simp add: NewEngine_def split: if_splits)
      (clarsimp simp: engine_inv_def wg_ok_def owned_def sessions_ok_def phase_ok_def drain_ok_def stopped_ok_def)+
qed

interpretation life: invariant_machine engine_init engine_step engine_inv
proof unfold_locales
  show "engine_init s \<Longrightarrow> engine_inv s" for s by (rule engine_inv_init)
  show "engine_inv s \<Longrightarrow> engine_step s t \<Longrightarrow> engine_inv t" for s t
    using core_step sessions_step stopped_step unfolding engine_inv_core by blast
qed

section \<open>Shutdown\<close>

lemma length_sessions_le:
  assumes "sessions_ok e"
  shows "length (sr_sessions (en_registry e)) \<le> length (en_served e)"
proof -
  let ?m = "sr_sessions (en_registry e)"
  have "length ?m = card (fst ` set ?m)"
    using assms distinct_card [of "map fst ?m"] by (simp add: sessions_ok_def registry_ok_def gmap_ok_def)
  also have "\<dots> = card (ServeSession ` fst ` set ?m)" by (simp add: card_image inj_on_def)
  also have "\<dots> \<le> card (set (en_served e))"
    using assms by (intro card_mono) (auto simp: sessions_ok_def)
  also have "\<dots> \<le> length (en_served e)" by (rule card_length)
  finally show ?thesis .
qed

lemma stopped_forever:
  "engine_step\<^sup>*\<^sup>* e t \<Longrightarrow> engine_inv e \<Longrightarrow> en_stopped e \<Longrightarrow> engine_inv t \<and> en_stopped t"
proof (induction rule: rtranclp_induct)
  case (step t u)
  have "engine_inv t" "en_stopped t" using step.IH [OF step.prems] by blast+
  moreover from this(1) step(2) have "engine_inv u" by (rule life.inv_step)
  ultimately show ?case using stopped_step [OF step(2)] by (simp add: engine_inv_core)
qed simp

lemma add_only_while_held:
  assumes "engine_inv e" "engine_step e t" "en_serveWG t > en_serveWG e" "en_monitor e"
  shows "en_serveWG e > 0"
proof (rule ccontr)
  assume "\<not> en_serveWG e > 0"
  then have z: "en_serveWG e = 0" "owned e = 0"
    using assms(1) owned_nonneg [of e] by (auto simp: engine_inv_core core_ok_def wg_ok_def)
  then have s: "engine_inv (markStopped e)"
    using assms(1,4) by (intro life.inv_step [OF assms(1)] step_monitor)
  have "wg_ok t" using core_step [OF assms(2)] assms(1) by (simp add: engine_inv_core core_ok_def)
  then have "owned t > 0" using assms(3) z by (simp add: wg_ok_def)
  moreover have "en_run e = RunDone" using assms(1,4) by (simp add: engine_inv_def phase_ok_def)
  ultimately show False using assms(2,3) owned_zero [OF z(2)] z(1)
  proof (elim engine_stepE, goal_cases)
    case (1 ok) then show ?case by (simp add: run_next_def)
  next
    case 2 then show ?case by (simp add: stop_claim_def split: if_splits; clarsimp)
  next
    case 3 then show ?case by (cases "en_stop e"; simp add: stop_next_def engine_defs split: if_splits; clarsimp)
  next
    case 4 then show ?case by (cases "en_watcher e"; simp add: watch_next_def engine_defs split: if_splits; clarsimp)
  qed (simp_all add: markStopped_def HandleTUNFlow_def admitTUNFlow_def)
qed

text \<open>
  C1. In every reachable state of an engine run the wait group counts exactly the references still
  owed: the admission sentinel, the accept loops and the served connections, which include every
  live session; the session table is within its bound. When the engine reports that it stopped, no
  session, connection or accept loop is left and none ever appears again, whatever the
  interleaving. While the completion monitor waits, a reference is only added when another one is
  held.
\<close>

theorem engine_shutdown_complete:
  assumes "reach engine_init engine_step e"
  shows "en_serveWG e = owned e
    \<and> length (sr_sessions (en_registry e)) \<le> length (en_served e)
    \<and> int (length (sr_sessions (en_registry e))) \<le> sr_max (en_registry e)
    \<and> (\<forall>t. en_stopped e \<and> engine_step\<^sup>*\<^sup>* e t \<longrightarrow>
         en_stopped t \<and> owned t = 0 \<and> en_served t = [] \<and> sr_sessions (en_registry t) = [])
    \<and> (\<forall>t. en_monitor e \<and> engine_step e t \<and> en_serveWG t > en_serveWG e \<longrightarrow> en_serveWG e > 0)"
proof -
  have i: "engine_inv e" by (rule life.reach_inv [OF assms])
  have quiet: "en_stopped t \<and> owned t = 0 \<and> en_served t = [] \<and> sr_sessions (en_registry t) = []"
    if "en_stopped e" "engine_step\<^sup>*\<^sup>* e t" for t
  proof -
    have t: "engine_inv t" "en_stopped t" using stopped_forever [OF that(2) i that(1)] by auto
    then have "en_serveWG t = 0" "en_served t = []" using stopped_quiet [of t] by (auto simp: engine_inv_core)
    with t length_sessions_le [of t] show ?thesis by (simp add: engine_inv_def wg_ok_def)
  qed
  have "en_serveWG e = owned e" "sessions_ok e" using i by (auto simp: engine_inv_def wg_ok_def)
  then show ?thesis
    using quiet add_only_while_held [OF i] length_sessions_le [of e] by (auto simp: sessions_ok_def registry_ok_def)
qed

text \<open>Concrete runs: operations that are steps, executed one after the other.\<close>

definition monitor_op :: "engine \<Rightarrow> engine option" where
  "monitor_op e = (if en_monitor e \<and> en_serveWG e = 0 then Some (markStopped e) else None)"

lemma ops_keep_parent:
  "g \<in> {run_next True, stop_claim, stop_next, watch_next, monitor_op} \<Longrightarrow> g e = Some u \<Longrightarrow>
   engine_step e u \<and> en_parentDone u = en_parentDone e"
proof (elim insertE emptyE, goal_cases)
  case 1 then show ?case
    by (intro conjI step_run [of True]; simp; cases "en_run e"; simp add: run_next_def openTUNAdmission_def wg_add_def split: if_splits; clarsimp)
next
  case 2 then show ?case by (intro conjI step_stop_call; simp; simp add: stop_claim_def split: if_splits; clarsimp)
next
  case 3 then show ?case by (intro conjI step_stop; simp; cases "en_stop e"; simp add: stop_next_def engine_defs split: if_splits; clarsimp)
next
  case 4 then show ?case by (intro conjI step_watch; simp; cases "en_watcher e"; simp add: watch_next_def engine_defs split: if_splits; clarsimp)
next
  case 5 then show ?case by (auto simp: monitor_op_def markStopped_def intro: step_monitor [unfolded markStopped_def] split: if_splits)
qed

lemma ops_steps:
  "run_ops (\<lambda>g. g) gs e = Some t \<Longrightarrow> set gs \<subseteq> {run_next True, stop_claim, stop_next, watch_next, monitor_op} \<Longrightarrow>
   \<not> en_parentDone e \<Longrightarrow> (\<lambda>a b. engine_step a b \<and> \<not> en_parentDone b)\<^sup>*\<^sup>* e t"
proof (induction gs arbitrary: e)
  case (Cons g gs)
  then obtain u where u: "g e = Some u" "run_ops (\<lambda>g. g) gs u = Some t" by (auto split: option.splits)
  have "g \<in> {run_next True, stop_claim, stop_next, watch_next, monitor_op}" using Cons.prems(2) by simp
  with u(1) Cons.prems(3) have "engine_step e u \<and> \<not> en_parentDone u" using ops_keep_parent by blast
  with Cons.IH [OF u(2)] Cons.prems(2) show ?case by (simp add: converse_rtranclp_into_rtranclp)
qed simp

lemma quiet_steps: "(\<lambda>a b. engine_step a b \<and> \<not> en_parentDone b)\<^sup>*\<^sup>* e t \<Longrightarrow> engine_step\<^sup>*\<^sup>* e t"
  by (rule rtranclp_mono [THEN predicate2D]) auto

lemma reach_steps: "step\<^sup>*\<^sup>* e t \<Longrightarrow> reach init step e \<Longrightarrow> reach init step t"
  by (induction rule: rtranclp_induct) (auto intro: reach_step)

definition tun_engine :: engine where
  "tun_engine = (case NewEngine 1080 0 0 True of Inr e \<Rightarrow> e)"

definition stopped_engine :: engine where
  "stopped_engine = the (run_ops (\<lambda>g. g)
     [run_next True, run_next True, run_next True, run_next True, run_next True, stop_claim,
      stop_next, stop_next, stop_next, monitor_op] tun_engine)"

lemma stopped_engine_reach: "reach engine_init engine_step stopped_engine" "en_stopped stopped_engine"
proof -
  let ?gs = "[run_next True, run_next True, run_next True, run_next True, run_next True, stop_claim,
      stop_next, stop_next, stop_next, monitor_op]"
  have r: "run_ops (\<lambda>g. g) ?gs tun_engine = Some stopped_engine \<and> en_stopped stopped_engine"
    unfolding stopped_engine_def
    by (simp add: tun_engine_def NewEngine_def run_next_def stop_next_def stop_claim_def monitor_op_def engine_defs)
  have i: "engine_init tun_engine" unfolding engine_init_def
    by (intro exI [of _ 1080] exI [of _ 0] exI [of _ True]) (simp add: tun_engine_def NewEngine_def)
  have "engine_step\<^sup>*\<^sup>* tun_engine stopped_engine"
    by (rule quiet_steps, rule ops_steps [OF conjunct1 [OF r]]) (simp_all add: tun_engine_def NewEngine_def)
  from reach_steps [OF this reach_init [where init = engine_init, OF i]]
  show "reach engine_init engine_step stopped_engine" .
  show "en_stopped stopped_engine" using r by simp
qed

theorem engine_shutdown_complete_witness:
  "reach engine_init engine_step stopped_engine \<and> en_stopped stopped_engine
   \<and> en_serveWG stopped_engine = owned stopped_engine \<and> owned stopped_engine = 0
   \<and> sr_sessions (en_registry stopped_engine) = []"
  using engine_shutdown_complete [OF stopped_engine_reach(1)] stopped_engine_reach by blast

section \<open>Stopping before the engine is bound\<close>

text \<open>
  \<open>Stop\<close> has finished, the parent context lives, and \<open>Run\<close> has not created its context yet or
  created it afterwards: then nothing cancels it.
\<close>

definition orphaned :: "engine \<Rightarrow> bool" where
  "orphaned e \<longleftrightarrow> core_ok e \<and> en_stop e = StopDone \<and> \<not> en_parentDone e \<and> \<not> en_stopped e \<and>
     (en_run e \<in> {RunStart, RunMixed, RunBound, RunFailed} \<or>
      en_ctx e = CtxLive \<and> en_watcher e \<in> {WatchOff, WatchWait} \<and> (en_run e = RunCtx \<or> en_tunAdmission e))"

lemma orphaned_facts:
  assumes "orphaned e"
  shows "core_ok e" "en_stopOnce e" "en_stop e = StopDone" "\<not> en_parentDone e" "\<not> en_stopped e"
    "watch_next e = None" "en_monitor e \<Longrightarrow> en_serveWG e \<noteq> 0"
proof -
  show c: "core_ok e" and d: "en_stop e = StopDone" and "\<not> en_parentDone e" "\<not> en_stopped e"
    using assms by (auto simp: orphaned_def)
  then show "en_stopOnce e" by (simp add: core_ok_def phase_ok_def)
  show "watch_next e = None"
    using assms c by (cases "en_run e"; cases "en_watcher e"; simp add: orphaned_def core_ok_def phase_ok_def watch_next_def)
  show "en_serveWG e \<noteq> 0" if "en_monitor e"
  proof -
    have "en_run e = RunDone" using c that by (simp add: core_ok_def phase_ok_def)
    then have "en_tunAdmission e" using assms by (simp add: orphaned_def)
    then show ?thesis using c by (simp add: core_ok_def wg_ok_def owned_def)
  qed
qed

definition kept_open :: "engine \<Rightarrow> bool" where
  "kept_open e \<longleftrightarrow> en_mixed e \<noteq> LClosed \<or> en_run e = RunFailed"

lemma orphaned_run: "run_next ok e = Some t \<Longrightarrow> orphaned e \<Longrightarrow> core_ok t \<Longrightarrow> orphaned t \<and> (kept_open e \<longrightarrow> kept_open t)"
  by (cases "en_run e"; simp add: run_next_def openTUNAdmission_def wg_add_def split: if_splits; clarsimp simp: orphaned_def kept_open_def core_ok_def phase_ok_def)

text \<open>The steps of accept loops and served connections touch none of what makes an engine orphaned.\<close>

lemma orphaned_frame:
  assumes "orphaned e" "core_ok t"
    and "en_stop t = en_stop e" "en_parentDone t = en_parentDone e" "en_stopped t = en_stopped e" "en_run t = en_run e"
    and "en_ctx t = en_ctx e" "en_watcher t = en_watcher e" "en_tunAdmission t = en_tunAdmission e" "en_mixed t = en_mixed e"
  shows "orphaned t \<and> (kept_open e \<longrightarrow> kept_open t)"
  using assms unfolding orphaned_def kept_open_def by simp

lemma orphaned_step:
  assumes "engine_step e t" "\<not> en_parentDone t" "orphaned e"
  shows "orphaned t \<and> (kept_open e \<longrightarrow> kept_open t)"
proof -
  note f = orphaned_facts [OF assms(3)] and c = core_step [OF assms(1) orphaned_facts(1) [OF assms(3)]]
  show ?thesis using assms(1)
  proof (rule engine_stepE, goal_cases)
    case (1 ok) then show ?case using orphaned_run assms(3) c by blast
  next
    case 2 then show ?case using f by (simp add: stop_claim_def)
  next
    case 3 then show ?case using f by (simp add: stop_next_def)
  next
    case 4 then show ?case using f by simp
  next
    case 5 then show ?case using f by simp
  next
    case 6 then show ?case using assms(2) by simp
  next
    case (7 res pc u) then show ?case
      by (cases res; intro orphaned_frame [OF assms(3) c];
          simp add: accept_turn_def wg_add_def recordStop_def split: if_splits; clarsimp)
  next
    case (8 res pc u) then show ?case
      by (cases res; intro orphaned_frame [OF assms(3) c];
          simp add: accept_turn_def wg_add_def recordStop_def split: if_splits; clarsimp)
  next
    case 11 then show ?case
      by (intro orphaned_frame [OF assms(3) c]) (auto simp: HandleTUNFlow_def admitTUNFlow_def wg_add_def)
  next
    case (12 i) then show ?case by (intro orphaned_frame [OF assms(3) c]) (simp_all add: serve_frames(1))
  qed (intro orphaned_frame [OF assms(3) c]; simp add: wg_add_def serve_frames(2,3))+
qed

text \<open>
  If \<open>Stop\<close> completes before \<open>Run\<close> has created its context, the engine started by that \<open>Run\<close>
  never stops as long as the parent context lives: the admission sentinel is never released, every
  session is refused, and a listener that was not bound at the time of \<open>Stop\<close> stays open.
\<close>

theorem stop_before_run_never_stops:
  assumes "reach engine_init engine_step e" "en_stop e = StopDone" "en_run e \<in> {RunStart, RunMixed, RunBound}"
    and "\<not> en_parentDone e"
    and "(\<lambda>a b. engine_step a b \<and> \<not> en_parentDone b)\<^sup>*\<^sup>* e t"
  shows "\<not> en_stopped t \<and> stopping t
    \<and> (en_run t = RunDone \<longrightarrow> en_tunAdmission t \<and> en_serveWG t > 0 \<and> en_ctx t = CtxLive)
    \<and> (en_mixed e \<noteq> LClosed \<longrightarrow> en_mixed t \<noteq> LClosed \<or> en_run t = RunFailed)"
proof -
  have i: "engine_inv e" by (rule life.reach_inv [OF assms(1)])
  have "\<not> en_stopped e"
  proof
    assume "en_stopped e"
    then have "en_run e = RunDone" using i stopped_quiet(2) [of e] by (simp add: engine_inv_core)
    with assms(3) show False by auto
  qed
  then have e: "orphaned e" using i assms(2-4) by (auto simp: orphaned_def engine_inv_core)
  from assms(5) have t: "orphaned t \<and> (kept_open e \<longrightarrow> kept_open t)"
  proof (induction rule: rtranclp_induct)
    case (step t u)
    with orphaned_step [of t u] show ?case by blast
  qed (use e in simp)
  then have "core_ok t" "\<not> en_stopped t" "en_stop t = StopDone" using orphaned_facts by blast+
  moreover from this have "stopping t" by (simp add: core_ok_def drain_ok_def)
  moreover have "en_tunAdmission t \<and> en_ctx t = CtxLive" if "en_run t = RunDone" using t that by (simp add: orphaned_def)
  moreover have "en_serveWG t > 0" if "en_tunAdmission t"
    using \<open>core_ok t\<close> that by (simp add: core_ok_def wg_ok_def owned_def)
  ultimately show ?thesis using t by (auto simp: kept_open_def)
qed

definition proxy_engine :: engine where
  "proxy_engine = (case NewEngine 1080 0 0 False of Inr e \<Rightarrow> e)"

definition early_stop :: engine where
  "early_stop = the (run_ops (\<lambda>g. g) [stop_claim, stop_next, stop_next, stop_next, stop_next] proxy_engine)"

definition half_dead :: engine where
  "half_dead = the (run_ops (\<lambda>g. g) [run_next True, run_next True, run_next True, run_next True, run_next True,
     run_next True, run_next True, run_next True] early_stop)"

theorem stop_before_run_never_stops_witness:
  "reach engine_init engine_step early_stop \<and> en_stop early_stop = StopDone \<and> en_run early_stop = RunStart
   \<and> (\<lambda>a b. engine_step a b \<and> \<not> en_parentDone b)\<^sup>*\<^sup>* early_stop half_dead
   \<and> en_run half_dead = RunDone \<and> en_mixed half_dead = LOpen \<and> stopping half_dead \<and> \<not> en_stopped half_dead
   \<and> en_serveWG half_dead > 0"
proof -
  have r: "run_ops (\<lambda>g. g) [stop_claim, stop_next, stop_next, stop_next, stop_next] proxy_engine = Some early_stop \<and>
      en_stop early_stop = StopDone \<and> en_run early_stop = RunStart \<and> \<not> en_parentDone early_stop \<and> en_mixed early_stop = LNone"
    unfolding early_stop_def by (simp add: proxy_engine_def NewEngine_def stop_next_def stop_claim_def engine_defs)
  have h: "run_ops (\<lambda>g. g) [run_next True, run_next True, run_next True, run_next True, run_next True,
      run_next True, run_next True, run_next True] early_stop = Some half_dead \<and> en_run half_dead = RunDone \<and> en_mixed half_dead = LOpen"
    unfolding half_dead_def early_stop_def
    by (simp add: proxy_engine_def NewEngine_def stop_next_def stop_claim_def run_next_def engine_defs)
  have i: "engine_init proxy_engine" unfolding engine_init_def
    by (intro exI [of _ 1080] exI [of _ 0] exI [of _ False]) (simp add: proxy_engine_def NewEngine_def)
  have "engine_step\<^sup>*\<^sup>* proxy_engine early_stop"
    by (rule quiet_steps, rule ops_steps [OF conjunct1 [OF r]]) (simp_all add: proxy_engine_def NewEngine_def)
  note e = reach_steps [OF this reach_init [where init = engine_init, OF i]]
  have t: "(\<lambda>a b. engine_step a b \<and> \<not> en_parentDone b)\<^sup>*\<^sup>* early_stop half_dead"
    by (rule ops_steps [OF conjunct1 [OF h]]) (use r in auto)
  from stop_before_run_never_stops [OF e _ _ _ t] r h e t show ?thesis by auto
qed

end
