(* ===== verification/Wal.thy ===== *)
theory Wal
  imports NetAddr
begin

text \<open>
  The segmented write-ahead journal of the store (\<open>engine/store/wal.go\<close>): record encoding,
  replay with the discarding of a torn tail, opening, appending, rolling, checkpointing and the
  upgrade of a version 1 journal. The journal directory is the list of its segment files; the
  CRC-32 function is the parameter \<open>crc\<close>. Errors of the operating system other than the ones
  given as arguments do not occur; log sequence numbers stay below \<open>2^64\<close>.
\<close>

section \<open>Little-endian integers\<close>

fun put_le :: "nat \<Rightarrow> nat \<Rightarrow> bytes" where
  "put_le 0 n = []"
| "put_le (Suc k) n = of_nat n # put_le k (n div 256)"

fun get_le :: "bytes \<Rightarrow> nat" where
  "get_le [] = 0"
| "get_le (b # bs) = unat b + 256 * get_le bs"

lemma length_put_le [simp]: "length (put_le k n) = k"
  by (induction k arbitrary: n) auto

lemma get_put_le: "n < 256 ^ k \<Longrightarrow> get_le (put_le k n) = n"
proof (induction k arbitrary: n)
  case (Suc k)
  then have "n div 256 < 256 ^ k" by (simp add: less_mult_imp_div_less mult.commute)
  with Suc.IH have "get_le (put_le k (n div 256)) = n div 256" by blast
  then show ?case by (simp add: unat_of_nat)
qed simp

lemma put_get_le: "length bs = k \<Longrightarrow> put_le k (get_le bs) = bs"
proof (induction bs arbitrary: k)
  case (Cons b bs)
  have "(unat b + 256 * get_le bs) div 256 = get_le bs" using unsigned_less [of b, where ?'a = nat] by simp
  moreover have "(256 :: byte) = 0" by simp
  then have "of_nat (unat b + 256 * get_le bs) = b" by (simp only: of_nat_add of_nat_mult of_nat_numeral) simp
  ultimately show ?case using Cons by auto
qed simp

lemma ReadFull_exact: "length x = n \<Longrightarrow> ReadFull (x @ rest) n = (Inr x, rest)"
  by (simp add: ReadFull_def)

lemma ReadFull_split: "ReadFull src n = (Inr x, rest) \<Longrightarrow> src = x @ rest \<and> length x = n"
  by (auto simp: ReadFull_def split: if_splits)

section \<open>Records\<close>

definition opUpsert :: byte where "opUpsert = 1"
definition opDelete :: byte where "opDelete = 2"

definition walMagic :: bytes where "walMagic = str_bytes ''FIRW''"
definition walVersion :: nat where "walVersion = 2"
definition walHeaderSize :: nat where "walHeaderSize = 14"
definition legacyWalHeaderSize :: nat where "legacyWalHeaderSize = 18"
definition defaultSegmentMaxBytes :: nat where "defaultSegmentMaxBytes = 8 * 1024 * 1024"
definition MaxRecordBytes :: nat where "MaxRecordBytes = 8 * 1024 * 1024"

record journal_record =
  jr_Op :: byte
  jr_Key :: bytes
  jr_Value :: bytes

definition journalRecordSize :: "byte \<Rightarrow> bytes \<Rightarrow> nat" where
  "journalRecordSize op value = 1 + 32 + 4 + length value + 4"

definition journalCRC :: "(bytes \<Rightarrow> 32 word) \<Rightarrow> journal_record \<Rightarrow> nat" where
  "journalCRC crc r = unat (crc (jr_Op r # jr_Key r @ put_le 4 (length (jr_Value r)) @ jr_Value r))"

definition encode_record :: "(bytes \<Rightarrow> 32 word) \<Rightarrow> journal_record \<Rightarrow> bytes" where
  "encode_record crc r =
     jr_Op r # jr_Key r @ put_le 4 (length (jr_Value r)) @ jr_Value r @ put_le 4 (journalCRC crc r)"

datatype rec_result = RecEOF | RecCorrupt | Rec journal_record

text \<open>A piece that ends before its first byte is the end of the file, one cut inside is corrupt.\<close>

definition piece_err :: "io_err \<Rightarrow> rec_result" where
  "piece_err e = (case e of IoEOF \<Rightarrow> RecEOF | IoUnexpectedEOF \<Rightarrow> RecCorrupt)"

definition readJournalRecord :: "(bytes \<Rightarrow> 32 word) \<Rightarrow> bytes \<Rightarrow> rec_result \<times> bytes" where
  "readJournalRecord crc bs =
     (case ReadFull bs 1 of
        (Inl e, r0) \<Rightarrow> (RecEOF, r0)
      | (Inr ob, r0) \<Rightarrow>
          let op = hd ob in
          if op \<noteq> opUpsert \<and> op \<noteq> opDelete then (RecCorrupt, r0)
          else case ReadFull r0 32 of
                 (Inl e, r1) \<Rightarrow> (piece_err e, r1)
               | (Inr key, r1) \<Rightarrow>
                   (case ReadFull r1 4 of
                      (Inl e, r2) \<Rightarrow> (piece_err e, r2)
                    | (Inr lenBuf, r2) \<Rightarrow>
                        let valueLen = get_le lenBuf in
                        if valueLen > MaxRecordBytes then (RecCorrupt, r2)
                        else if op = opDelete \<and> valueLen \<noteq> 0 then (RecCorrupt, r2)
                        else case (if valueLen > 0 then ReadFull r2 valueLen else (Inr [], r2)) of
                               (Inl e, r3) \<Rightarrow> (piece_err e, r3)
                             | (Inr value, r3) \<Rightarrow>
                                 (case ReadFull r3 4 of
                                    (Inl e, r4) \<Rightarrow> (piece_err e, r4)
                                  | (Inr crcBuf, r4) \<Rightarrow>
                                      let out = \<lparr>jr_Op = op, jr_Key = key, jr_Value = value\<rparr> in
                                      if get_le crcBuf \<noteq> journalCRC crc out then (RecCorrupt, r4)
                                      else (Rec out, r4))))"

lemma ReadFull_length: "ReadFull src n = (Inr x, rest) \<Longrightarrow> length src = n + length rest \<and> length x = n"
  by (auto simp: ReadFull_def split: if_splits)

lemma readJournalRecord_shorter:
  assumes "readJournalRecord crc bs = (Rec r, rest)"
  shows "length rest < length bs"
  using assms unfolding readJournalRecord_def Let_def
  by (auto simp: piece_err_def split: prod.splits sum.splits if_splits io_err.splits dest!: ReadFull_length)

section \<open>Segments\<close>

text \<open>
  The callback receives operation, key, value and sequence number and changes the caller's state,
  or aborts with \<open>None\<close>.
\<close>

type_synonym 's replay_fn = "byte \<Rightarrow> bytes \<Rightarrow> bytes \<Rightarrow> nat \<Rightarrow> 's \<Rightarrow> 's option"

datatype wal_err =
    WalBadMagic nat | WalBadVersion nat nat | WalCorrupt nat | WalApply | WalContinuity nat nat nat
  | WalSegmentExists nat | WalWrite | WalSync

text \<open>
  The loop over the records of a segment, with the number of the segment: the error, the last
  sequence number, the end of the last valid record and the caller's state.
\<close>

function replay_loop ::
  "(bytes \<Rightarrow> 32 word) \<Rightarrow> nat \<Rightarrow> nat \<Rightarrow> bool \<Rightarrow> 's replay_fn \<Rightarrow> bytes \<Rightarrow> nat \<Rightarrow> nat \<Rightarrow> 's \<Rightarrow>
   wal_err option \<times> nat \<times> nat \<times> 's" where
  "replay_loop crc seq ckpt allow f bs lsn off s =
     (case readJournalRecord crc bs of
        (RecEOF, _) \<Rightarrow> (None, lsn, off, s)
      | (RecCorrupt, _) \<Rightarrow> (if allow then None else Some (WalCorrupt seq), lsn, off, s)
      | (Rec r, rest) \<Rightarrow>
          let lsn1 = lsn + 1; off1 = off + journalRecordSize (jr_Op r) (jr_Value r) in
          if lsn1 > ckpt then
            (case f (jr_Op r) (jr_Key r) (jr_Value r) lsn1 s of
               None \<Rightarrow> (Some WalApply, lsn1, off, s)
             | Some s1 \<Rightarrow> replay_loop crc seq ckpt allow f rest lsn1 off1 s1)
          else replay_loop crc seq ckpt allow f rest lsn1 off1 s)"
  by pat_completeness auto
termination
  by (relation "measure (\<lambda>(crc, seq, ckpt, allow, f, bs, lsn, off, s). length bs)")
    (auto dest: readJournalRecord_shorter [OF sym])

declare replay_loop.simps [simp del]

record segment_info =
  sg_seq :: nat
  sg_base :: nat
  sg_end :: nat
  sg_size :: nat

definition segment_header :: "nat \<Rightarrow> bytes" where
  "segment_header lsn = walMagic @ put_le 2 walVersion @ put_le 8 lsn"

definition readSegmentHeaderLSN :: "nat \<Rightarrow> bytes \<Rightarrow> wal_err + nat" where
  "readSegmentHeaderLSN seq bs =
     (if length bs < walHeaderSize then Inr 0
      else if take 4 bs \<noteq> walMagic then Inl (WalBadMagic seq)
      else let version = get_le (take 2 (drop 4 bs)) in
           if version \<noteq> walVersion then Inl (WalBadVersion seq version)
           else Inr (get_le (take 8 (drop 6 bs))))"

text \<open>
  \<open>replaySegment\<close>: a file shorter than its header has no records and counts as header-sized.
\<close>

definition replaySegment ::
  "(bytes \<Rightarrow> 32 word) \<Rightarrow> segment_info \<Rightarrow> bytes \<Rightarrow> nat \<Rightarrow> bool \<Rightarrow> 's replay_fn \<Rightarrow> 's \<Rightarrow>
   wal_err option \<times> nat \<times> nat \<times> 's" where
  "replaySegment crc seg bs ckpt allow f s =
     (if sg_size seg < walHeaderSize then (None, sg_base seg, walHeaderSize, s)
      else replay_loop crc (sg_seq seg) ckpt allow f (drop walHeaderSize bs) (sg_base seg) walHeaderSize s)"

section \<open>The journal\<close>

text \<open>
  The descriptor of the active segment: none, one that has been closed but is still referred to,
  or an open one positioned at the end of its file.
\<close>

datatype wal_file = NoFile | ClosedFile | OpenFile

record journal =
  jn_files :: "(nat, bytes) gomap"
  jn_legacy :: "bytes option"
  jn_file :: wal_file
  jn_segSeq :: nat
  jn_lsn :: nat
  jn_activeBytes :: nat
  jn_segmentMax :: nat
  jn_segEnd :: "nat list"
  jn_segSizes :: "nat list"
  jn_totalBytes :: int

text \<open>\<open>listSegments\<close>: the segments in the order of their sequence numbers, or the first bad header.\<close>

fun list_segments :: "(nat, bytes) gomap \<Rightarrow> wal_err + segment_info list" where
  "list_segments [] = Inr []"
| "list_segments ((seq, bs) # rest) =
     (case readSegmentHeaderLSN seq bs of
        Inl e \<Rightarrow> Inl e
      | Inr base \<Rightarrow>
          (case list_segments rest of
             Inl e \<Rightarrow> Inl e
           | Inr segs \<Rightarrow> Inr (\<lparr>sg_seq = seq, sg_base = base, sg_end = base, sg_size = length bs\<rparr> # segs)))"

definition listSegments :: "journal \<Rightarrow> wal_err + segment_info list" where
  "listSegments j = list_segments (sort_key fst (jn_files j))"

text \<open>
  \<open>journal.replay\<close>: every segment in turn; the last one may have a corrupt tail, which is cut off
  the file; a gap in the sequence numbers is an error unless the previous end is zero.
\<close>

fun journal_replay ::
  "(bytes \<Rightarrow> 32 word) \<Rightarrow> nat \<Rightarrow> 's replay_fn \<Rightarrow> nat \<Rightarrow> segment_info list \<Rightarrow> journal \<Rightarrow> 's \<Rightarrow>
   wal_err option \<times> segment_info list \<times> journal \<times> 's" where
  "journal_replay crc ckpt f prevEnd [] j s = (None, [], j, s)"
| "journal_replay crc ckpt f prevEnd (seg # segs) j s =
     (let bs = the (gget (jn_files j) (sg_seq seg)) in
      case replaySegment crc seg bs ckpt (segs = []) f s of
        (Some e, _, _, s1) \<Rightarrow> (Some e, seg # segs, j, s1)
      | (None, endLSN, good, s1) \<Rightarrow>
          if prevEnd \<noteq> 0 \<and> sg_base seg \<noteq> prevEnd then
            (Some (WalContinuity (sg_seq seg) (sg_base seg) prevEnd), seg # segs, j, s1)
          else
            let cut = (sg_size seg > good);
                j1 = (if cut then j\<lparr>jn_files := gput (sg_seq seg) (take good bs) (jn_files j)\<rparr> else j);
                seg1 = seg\<lparr>sg_end := endLSN, sg_size := if cut then good else sg_size seg\<rparr>;
                j2 = (if endLSN > jn_lsn j1 then j1\<lparr>jn_lsn := endLSN\<rparr> else j1);
                (e, segs2, j3, s2) = journal_replay crc ckpt f endLSN segs j2 s1
            in (e, seg1 # segs2, j3, s2))"

declare journal_replay.simps [simp del]

definition createSegment :: "journal \<Rightarrow> nat \<Rightarrow> wal_err option \<times> journal" where
  "createSegment j seq =
     (if gget (jn_files j) seq \<noteq> None then (Some (WalSegmentExists seq), j)
      else (None, j\<lparr>jn_files := gput seq (segment_header (jn_lsn j)) (jn_files j), jn_file := OpenFile, jn_segSeq := seq,
                    jn_activeBytes := walHeaderSize, jn_segEnd := jn_segEnd j @ [jn_lsn j],
                    jn_segSizes := jn_segSizes j @ [walHeaderSize], jn_totalBytes := jn_totalBytes j + int walHeaderSize\<rparr>))"

definition set_last :: "'a \<Rightarrow> 'a list \<Rightarrow> 'a list" where
  "set_last x xs = (if length xs > 0 then xs[length xs - 1 := x] else xs)"

definition rollLocked :: "journal \<Rightarrow> wal_err option \<times> journal" where
  "rollLocked j =
     (let j1 = j\<lparr>jn_segSizes := set_last (jn_activeBytes j) (jn_segSizes j)\<rparr> in
      if jn_file j \<noteq> OpenFile then (Some WalSync, j1)
      else createSegment (j1\<lparr>jn_file := ClosedFile\<rparr>) (jn_segSeq j + 1))"

definition openActive :: "journal \<Rightarrow> segment_info list \<Rightarrow> wal_err option \<times> journal" where
  "openActive j0 segs =
     (let j = j0\<lparr>jn_segEnd := map sg_end segs, jn_segSizes := map sg_size segs, jn_totalBytes := int (sum_list (map sg_size segs))\<rparr>
      in if segs \<noteq> [] then
           let seq = sg_seq (last segs);
               j1 = j\<lparr>jn_file := OpenFile, jn_segSeq := seq, jn_activeBytes := length (the (gget (jn_files j) seq)),
                      jn_segEnd := set_last (jn_lsn j) (jn_segEnd j)\<rparr>
           in if jn_activeBytes j1 \<ge> jn_segmentMax j1 then rollLocked j1 else (None, j1)
         else createSegment j 0)"

datatype write_fault = NoFault | WriteFault nat | SyncFault

text \<open>
  \<open>Append\<close>: one write and one sync for the batch. With a write fault only some bytes reach the
  file; with a sync fault all of them do and the call still fails; a descriptor that is not open
  takes no byte. The sequence number has advanced in every case.
\<close>

definition Append ::
  "(bytes \<Rightarrow> 32 word) \<Rightarrow> write_fault \<Rightarrow> journal_record list \<Rightarrow> journal \<Rightarrow> (wal_err + nat) \<times> journal" where
  "Append crc fault records j =
     (if records = [] then (Inr (jn_lsn j), j)
      else
        let buffer = concat (map (encode_record crc) records);
            j1 = j\<lparr>jn_lsn := jn_lsn j + length records\<rparr>;
            old = the (gget (jn_files j) (jn_segSeq j));
            written = (case fault of WriteFault n \<Rightarrow> take n buffer | _ \<Rightarrow> buffer);
            j2 = j1\<lparr>jn_files := gput (jn_segSeq j) (old @ written) (jn_files j)\<rparr>
        in if jn_file j \<noteq> OpenFile then (Inl WalWrite, j1)
           else case fault of
             WriteFault n \<Rightarrow> (Inl WalWrite, j2)
           | SyncFault \<Rightarrow> (Inl WalSync, j2)
           | NoFault \<Rightarrow>
               let j3 = j2\<lparr>jn_activeBytes := jn_activeBytes j + length buffer, jn_totalBytes := jn_totalBytes j + int (length buffer),
                           jn_segEnd := set_last (jn_lsn j2) (jn_segEnd j)\<rparr>
               in if jn_activeBytes j3 \<ge> jn_segmentMax j3 then
                    (case rollLocked j3 of (Some e, j4) \<Rightarrow> (Inl e, j4) | (None, j4) \<Rightarrow> (Inr (jn_lsn j4), j4))
                  else (Inr (jn_lsn j3), j3))"

text \<open>\<open>Checkpoint\<close>: how many leading segments are incorporated, then the removal.\<close>

fun removable :: "nat \<Rightarrow> nat list \<Rightarrow> nat" where
  "removable target (e # e2 # es) = (if e \<le> target then Suc (removable target (e2 # es)) else 0)"
| "removable target _ = 0"

definition remove_files :: "nat list \<Rightarrow> (nat, bytes) gomap \<Rightarrow> (nat, bytes) gomap" where
  "remove_files seqs files = fold gdel seqs files"

definition Checkpoint :: "nat \<Rightarrow> journal \<Rightarrow> wal_err option \<times> journal" where
  "Checkpoint target j =
     (if jn_segEnd j = [] \<or> jn_file j = NoFile then (None, j)
      else
        let removeActive = (target \<ge> jn_lsn j);
            removeCount = (if removeActive then length (jn_segEnd j) - 1 else removable target (jn_segEnd j))
        in if removeCount = 0 \<and> \<not> removeActive then (None, j)
           else
             let firstSeq = jn_segSeq j + 1 - length (jn_segEnd j);
                 toRemove = map (\<lambda>i. firstSeq + i) [0..<removeCount] @ (if removeActive then [jn_segSeq j] else []);
                 removedBytes = sum_list (take removeCount (jn_segSizes j)) + (if removeActive then jn_activeBytes j else 0)
             in if removeActive then
                  if jn_file j \<noteq> OpenFile then (Some WalSync, j)
                  else (case createSegment (j\<lparr>jn_file := NoFile, jn_segEnd := [], jn_segSizes := []\<rparr>) (jn_segSeq j + 1) of
                     (Some e, j1) \<Rightarrow> (Some e, j1)
                   | (None, j1) \<Rightarrow> (None, j1\<lparr>jn_totalBytes := jn_totalBytes j1 - int removedBytes,
                                            jn_files := remove_files toRemove (jn_files j1)\<rparr>))
                else (None, j\<lparr>jn_segSizes := (if removeCount \<le> length (jn_segSizes j) then drop removeCount (jn_segSizes j) else jn_segSizes j),
                              jn_segEnd := drop removeCount (jn_segEnd j),
                              jn_totalBytes := jn_totalBytes j - int removedBytes,
                              jn_files := remove_files toRemove (jn_files j)\<rparr>))"

text \<open>The records of a version 1 journal, up to its end or its corrupt tail.\<close>

function legacy_records :: "(bytes \<Rightarrow> 32 word) \<Rightarrow> bytes \<Rightarrow> journal_record list" where
  "legacy_records crc bs =
     (case readJournalRecord crc bs of
        (Rec r, rest) \<Rightarrow> r # legacy_records crc rest
      | (_, _) \<Rightarrow> [])"
  by pat_completeness auto
termination
  by (relation "measure (\<lambda>(crc, bs). length bs)") (auto dest: readJournalRecord_shorter [OF sym])

declare legacy_records.simps [simp del]

text \<open>The callback over the legacy records, all with sequence number 0; an abort keeps what was applied.\<close>

fun apply_all :: "'s replay_fn \<Rightarrow> journal_record list \<Rightarrow> 's \<Rightarrow> bool \<times> 's" where
  "apply_all f [] s = (True, s)"
| "apply_all f (r # rs) s =
     (case f (jr_Op r) (jr_Key r) (jr_Value r) 0 s of None \<Rightarrow> (False, s) | Some s1 \<Rightarrow> apply_all f rs s1)"

text \<open>
  \<open>migrateLegacyLog\<close>: replay the old file, journal its records again, remove it. The argument
  \<open>rm\<close> tells whether closing and removing the old file succeed; otherwise the file stays and the
  open still succeeds.
\<close>

definition drop_legacy :: "bool \<Rightarrow> journal \<Rightarrow> journal" where
  "drop_legacy rm j = (if rm then j\<lparr>jn_legacy := None\<rparr> else j)"

definition migrateLegacyLog ::
  "(bytes \<Rightarrow> 32 word) \<Rightarrow> bool \<Rightarrow> 's replay_fn \<Rightarrow> journal \<Rightarrow> 's \<Rightarrow> wal_err option \<times> journal \<times> 's" where
  "migrateLegacyLog crc rm f j s =
     (case jn_legacy j of
        None \<Rightarrow> (None, j, s)
      | Some bs \<Rightarrow>
          if length bs < legacyWalHeaderSize then (None, drop_legacy rm j, s)
          else if take 4 bs \<noteq> walMagic then (None, j, s)
          else
            let records = legacy_records crc (drop legacyWalHeaderSize bs);
                (ok, s1) = apply_all f records s
            in if \<not> ok then (Some WalApply, j, s1)
               else if records = [] then (None, drop_legacy rm j, s1)
               else case Append crc NoFault records j of
                      (Inl e, j1) \<Rightarrow> (Some e, j1, s1)
                    | (Inr _, j1) \<Rightarrow> (None, drop_legacy rm j1, s1))"

definition openJournal ::
  "(bytes \<Rightarrow> 32 word) \<Rightarrow> (nat, bytes) gomap \<Rightarrow> bytes option \<Rightarrow> bool \<Rightarrow> nat \<Rightarrow> nat \<Rightarrow> 's replay_fn \<Rightarrow> 's \<Rightarrow>
   wal_err option \<times> journal \<times> 's" where
  "openJournal crc files legacy rm ckpt minLSN f s =
     (let j = \<lparr>jn_files = files, jn_legacy = legacy, jn_file = NoFile, jn_segSeq = 0, jn_lsn = minLSN,
               jn_activeBytes = 0, jn_segmentMax = defaultSegmentMaxBytes, jn_segEnd = [], jn_segSizes = [],
               jn_totalBytes = 0\<rparr>
      in case listSegments j of
           Inl e \<Rightarrow> (Some e, j, s)
         | Inr segs \<Rightarrow>
             (case journal_replay crc ckpt f 0 segs j s of
                (Some e, _, j1, s1) \<Rightarrow> (Some e, j1, s1)
              | (None, segs1, j1, s1) \<Rightarrow>
                  (case openActive j1 segs1 of
                     (Some e, j2) \<Rightarrow> (Some e, j2, s1)
                   | (None, j2) \<Rightarrow> migrateLegacyLog crc rm f j2 s1)))"

definition journal_Close :: "journal \<Rightarrow> journal" where
  "journal_Close j = (if jn_file j = OpenFile then j\<lparr>jn_file := NoFile\<rparr> else j)"

definition CurrentLSN :: "journal \<Rightarrow> nat" where
  "CurrentLSN j = jn_lsn j"

definition segmentCount :: "journal \<Rightarrow> nat" where
  "segmentCount j = length (jn_segEnd j)"

definition walBytes :: "journal \<Rightarrow> int" where
  "walBytes j = jn_totalBytes j"

end
