(* ===== verification/Chunks.thy ===== *)
theory Chunks
  imports Wal
begin

text \<open>
  Chunk files (\<open>engine/chunks/chunks.go\<close>): the header codec, the grouping of records into
  batches, the writer and the lazy reader. A file is the list of its bytes; the CRC-32 function is
  the parameter \<open>crc\<close>. Files are replaced atomically, and the operations of the file system
  succeed.
\<close>

section \<open>The header\<close>

definition chunkMagic :: bytes where "chunkMagic = str_bytes ''FIRC''"
definition FormatVersion :: nat where "FormatVersion = 1"
definition HeaderSize :: nat where "HeaderSize = 20"
definition FlagCompressed :: nat where "FlagCompressed = 1"
definition MinTargetBytes :: nat where "MinTargetBytes = 64 * 1024"
definition MaxTargetBytes :: nat where "MaxTargetBytes = 64 * 1024 * 1024"

datatype chunk_err = ErrCorrupt | ErrTooLarge | ErrBadHeader | ErrNoRecords | ErrMissing | ChunkEOF

record chunk_header =
  hd_RecordCount :: nat
  hd_Checksum :: nat
  hd_Flags :: nat
  hd_Version :: nat

text \<open>\<open>Header.Validate\<close>: the version and the flags other than the compression bit.\<close>

definition header_Validate :: "chunk_header \<Rightarrow> chunk_err option" where
  "header_Validate h =
     (if hd_Version h \<noteq> FormatVersion then Some ErrBadHeader
      else if hd_Flags h div 2 \<noteq> 0 then Some ErrBadHeader
      else None)"

definition EncodeHeader :: "chunk_header \<Rightarrow> bytes" where
  "EncodeHeader h =
     chunkMagic @ put_le 2 (hd_Version h) @ put_le 2 (hd_Flags h) @ put_le 4 (hd_RecordCount h) @ put_le 4 0 @ put_le 4 (hd_Checksum h)"

definition DecodeHeader :: "bytes \<Rightarrow> chunk_err + chunk_header" where
  "DecodeHeader src =
     (if length src < HeaderSize then Inl ErrBadHeader
      else if take 4 src \<noteq> chunkMagic then Inl ErrBadHeader
      else Inr \<lparr>hd_RecordCount = get_le (take 4 (drop 8 src)), hd_Checksum = get_le (take 4 (drop 16 src)),
                hd_Flags = get_le (take 2 (drop 6 src)), hd_Version = get_le (take 2 (drop 4 src))\<rparr>)"

section \<open>Grouping\<close>

definition NewChunker :: "int \<Rightarrow> int" where
  "NewChunker targetBytes =
     (let t = (if targetBytes < int MinTargetBytes then int MinTargetBytes else targetBytes) in
      if t > int MaxTargetBytes then int MaxTargetBytes else t)"

text \<open>
  The loop of \<open>Chunker.Group\<close> over the sizes from index \<open>i\<close> on, with the current batch and its
  size; it returns the batches completed from here.
\<close>

fun group_loop :: "int \<Rightarrow> nat \<Rightarrow> nat list \<Rightarrow> int \<Rightarrow> int list \<Rightarrow> nat list list" where
  "group_loop target i current currentBytes [] = (if current \<noteq> [] then [current] else [])"
| "group_loop target i current currentBytes (size0 # sizes) =
     (let size = (if size0 < 0 then 0 else size0) in
      if size > int MaxRecordBytes then
        (if current \<noteq> [] then [current] else []) @ [i] # group_loop target (i + 1) [] 0 sizes
      else if current \<noteq> [] \<and> currentBytes + size > target then
        current # group_loop target (i + 1) [i] size sizes
      else group_loop target (i + 1) (current @ [i]) (currentBytes + size) sizes)"

definition Group :: "int \<Rightarrow> int list \<Rightarrow> nat list list" where
  "Group target sizes = group_loop target 0 [] 0 sizes"

section \<open>Writing\<close>

definition chunk_payload :: "bytes list \<Rightarrow> bytes" where
  "chunk_payload records = concat (map (\<lambda>r. put_le 4 (length r) @ r) records)"

record chunk_info =
  ci_Records :: nat
  ci_Bytes :: nat
  ci_Checksum :: nat

text \<open>\<open>WriteChunk\<close>: the bytes of the file and its description (the times and the name are left out).\<close>

definition WriteChunk :: "(bytes \<Rightarrow> 32 word) \<Rightarrow> bytes list \<Rightarrow> nat \<Rightarrow> chunk_err + bytes \<times> chunk_info" where
  "WriteChunk crc records flags =
     (if records = [] then Inl ErrNoRecords
      else
        let payload = chunk_payload records;
            checksum = unat (crc payload);
            head = EncodeHeader \<lparr>hd_RecordCount = length records mod 2 ^ 32, hd_Checksum = checksum,
                                 hd_Flags = flags, hd_Version = FormatVersion\<rparr>
        in Inr (head @ payload,
                \<lparr>ci_Records = length records, ci_Bytes = HeaderSize + length payload, ci_Checksum = checksum\<rparr>))"

section \<open>Reading\<close>

record chunk_reader_st =
  rd_rest :: bytes
  rd_header :: chunk_header
  rd_seen :: nat

definition OpenReader :: "bytes option \<Rightarrow> chunk_err + chunk_reader_st" where
  "OpenReader content =
     (case content of
        None \<Rightarrow> Inl ErrMissing
      | Some bs \<Rightarrow>
          (case ReadFull bs HeaderSize of
             (Inl _, _) \<Rightarrow> Inl ErrCorrupt
           | (Inr head, rest) \<Rightarrow>
               (case DecodeHeader head of
                  Inl e \<Rightarrow> Inl e
                | Inr h \<Rightarrow> Inr \<lparr>rd_rest = rest, rd_header = h, rd_seen = 0\<rparr>)))"

definition reader_Next :: "chunk_reader_st \<Rightarrow> (chunk_err + bytes) \<times> chunk_reader_st" where
  "reader_Next r =
     (if rd_seen r \<ge> hd_RecordCount (rd_header r) then (Inl ChunkEOF, r)
      else case ReadFull (rd_rest r) 4 of
             (Inl _, rest) \<Rightarrow> (Inl ErrCorrupt, r\<lparr>rd_rest := rest\<rparr>)
           | (Inr prefix, rest) \<Rightarrow>
               let len = get_le prefix in
               if len > MaxRecordBytes then (Inl ErrTooLarge, r\<lparr>rd_rest := rest\<rparr>)
               else case ReadFull rest len of
                      (Inl _, rest2) \<Rightarrow> (Inl ErrCorrupt, r\<lparr>rd_rest := rest2\<rparr>)
                    | (Inr rec, rest2) \<Rightarrow> (Inr rec, r\<lparr>rd_rest := rest2, rd_seen := rd_seen r + 1\<rparr>))"

text \<open>The record loop of \<open>ReadAll\<close> and \<open>Verify\<close>: all records up to the announced count, or the first error.\<close>

function read_records :: "chunk_reader_st \<Rightarrow> chunk_err + bytes list" where
  "read_records r =
     (case reader_Next r of
        (Inl e, _) \<Rightarrow> if e = ChunkEOF then Inr [] else Inl e
      | (Inr rec, r1) \<Rightarrow> (case read_records r1 of Inl e \<Rightarrow> Inl e | Inr recs \<Rightarrow> Inr (rec # recs)))"
  by pat_completeness auto
termination
  by (relation "measure (\<lambda>r. hd_RecordCount (rd_header r) - rd_seen r)")
    (auto simp: reader_Next_def Let_def split: if_splits prod.splits sum.splits)

declare read_records.simps [simp del]

definition ReadAll :: "bytes option \<Rightarrow> chunk_err + bytes list" where
  "ReadAll content =
     (case OpenReader content of Inl e \<Rightarrow> Inl e | Inr r \<Rightarrow> read_records r)"

definition Verify :: "(bytes \<Rightarrow> 32 word) \<Rightarrow> chunk_reader_st \<Rightarrow> chunk_err option" where
  "Verify crc r =
     (case read_records r of
        Inl e \<Rightarrow> Some e
      | Inr recs \<Rightarrow> if unat (crc (chunk_payload recs)) \<noteq> hd_Checksum (rd_header r) then Some ErrCorrupt else None)"

section \<open>Round trip\<close>

lemma length_EncodeHeader [simp]: "length (EncodeHeader h) = HeaderSize"
  by (simp add: EncodeHeader_def chunkMagic_def HeaderSize_def)

lemma decode_encode_header:
  assumes "hd_RecordCount h < 2 ^ 32" "hd_Checksum h < 2 ^ 32" "hd_Flags h < 2 ^ 16" "hd_Version h < 2 ^ 16"
  shows "DecodeHeader (EncodeHeader h) = Inr h"
proof -
  have "get_le (put_le 4 (hd_RecordCount h)) = hd_RecordCount h" "get_le (put_le 4 (hd_Checksum h)) = hd_Checksum h"
    "get_le (put_le 2 (hd_Flags h)) = hd_Flags h" "get_le (put_le 2 (hd_Version h)) = hd_Version h"
    using assms by (auto intro!: get_put_le)
  then show ?thesis
    by (simp add: DecodeHeader_def) (simp add: EncodeHeader_def chunkMagic_def HeaderSize_def)
qed

lemma chunk_payload_Cons [simp]: "chunk_payload (r # rs) = put_le 4 (length r) @ r @ chunk_payload rs"
  by (simp add: chunk_payload_def)

lemma chunk_payload_append [simp]: "chunk_payload (rs @ rs') = chunk_payload rs @ chunk_payload rs'"
  by (simp add: chunk_payload_def)

lemma chunk_payload_Nil [simp]: "chunk_payload [] = []"
  by (simp add: chunk_payload_def)

lemma get_put_len: "length r \<le> MaxRecordBytes \<Longrightarrow> get_le (put_le 4 (length r)) = length r"
  by (intro get_put_le) (simp add: MaxRecordBytes_def)

lemma read_records_payload:
  assumes "\<forall>r \<in> set recs. length r \<le> MaxRecordBytes"
    and "hd_RecordCount h = seen + length recs"
  shows "read_records \<lparr>rd_rest = chunk_payload recs @ rest, rd_header = h, rd_seen = seen\<rparr> = Inr recs"
  using assms
proof (induction recs arbitrary: seen)
  case Nil
  then show ?case by (subst read_records.simps) (simp add: reader_Next_def)
next
  case (Cons r recs)
  then have "reader_Next \<lparr>rd_rest = chunk_payload (r # recs) @ rest, rd_header = h, rd_seen = seen\<rparr> =
      (Inr r, \<lparr>rd_rest = chunk_payload recs @ rest, rd_header = h, rd_seen = seen + 1\<rparr>)"
    by (simp add: reader_Next_def ReadFull_exact [OF length_put_le] get_put_len ReadFull_exact Let_def)
  with Cons show ?case by (subst read_records.simps) simp
qed

text \<open>
  A chunk written with any flags is read back as the same records and passes verification,
  and its description gives its record count, length and checksum. The reader never looks at the
  flags or the version, so this includes flags the header validation rejects.
\<close>

theorem chunk_roundtrip:
  assumes "records \<noteq> []" "\<forall>r \<in> set records. length r \<le> MaxRecordBytes" "length records < 2 ^ 32" "flags < 2 ^ 16"
  shows "\<exists>bs info r. WriteChunk crc records flags = Inr (bs, info) \<and> ReadAll (Some bs) = Inr records \<and>
     OpenReader (Some bs) = Inr r \<and> Verify crc r = None \<and> hd_Flags (rd_header r) = flags \<and>
     ci_Records info = length records \<and> ci_Bytes info = length bs \<and> ci_Checksum info = hd_Checksum (rd_header r)"
proof -
  define h where "h = \<lparr>hd_RecordCount = length records, hd_Checksum = unat (crc (chunk_payload records)), hd_Flags = flags, hd_Version = FormatVersion\<rparr>"
  define r where "r = \<lparr>rd_rest = chunk_payload records, rd_header = h, rd_seen = 0\<rparr>"
  have "unat (crc (chunk_payload records)) < 2 ^ 32" using unsigned_less [of "crc (chunk_payload records)", where ?'a = nat] by simp
  then have dec: "DecodeHeader (EncodeHeader h) = Inr h"
    using assms(3,4) by (intro decode_encode_header) (simp_all add: h_def FormatVersion_def)
  let ?bs = "EncodeHeader h @ chunk_payload records"
  have w: "WriteChunk crc records flags =
      Inr (?bs, \<lparr>ci_Records = length records, ci_Bytes = HeaderSize + length (chunk_payload records), ci_Checksum = hd_Checksum h\<rparr>)"
    using assms(1,3) by (simp add: WriteChunk_def Let_def h_def)
  have o: "OpenReader (Some ?bs) = Inr r" by (simp add: OpenReader_def ReadFull_exact dec r_def)
  have recs: "read_records r = Inr records"
    using read_records_payload [of records h 0 "[]"] assms(2) by (simp add: r_def h_def)
  show ?thesis
    using w o recs by (simp add: ReadAll_def Verify_def r_def h_def)
qed

theorem chunk_roundtrip_witness:
  "\<exists>bs info r. WriteChunk (\<lambda>_. 7) [[1, 2], []] 6 = Inr (bs, info) \<and> ReadAll (Some bs) = Inr [[1, 2], []] \<and>
     OpenReader (Some bs) = Inr r \<and> header_Validate (rd_header r) = Some ErrBadHeader"
proof -
  obtain bs info r where "WriteChunk (\<lambda>_. 7) [[1, 2], []] 6 = Inr (bs, info)" "ReadAll (Some bs) = Inr [[1, 2], []]"
    "OpenReader (Some bs) = Inr r" and "hd_Flags (rd_header r) = 6"
    using chunk_roundtrip [of "[[1, 2], []]" 6 "\<lambda>_. 7"] by (auto simp: MaxRecordBytes_def)
  moreover from this(4) have "header_Validate (rd_header r) = Some ErrBadHeader" by (simp add: header_Validate_def)
  ultimately show ?thesis by blast
qed

section \<open>Grouping keeps every record\<close>

text \<open>The total of a batch, negative sizes counting as zero.\<close>

definition batch_bytes :: "int list \<Rightarrow> nat list \<Rightarrow> int" where
  "batch_bytes sizes batch = sum_list (map (\<lambda>i. max 0 (sizes ! i)) batch)"

lemma group_loop_order:
  "concat (group_loop target i current cb sizes) = current @ [i..<i + length sizes]"
proof (induction target i current cb sizes rule: group_loop.induct)
  case (2 target i current cb size0 sizes)
  have "[i..<i + length (size0 # sizes)] = i # [i + 1..<i + 1 + length sizes]" by (simp add: upt_conv_Cons del: upt_Suc)
  with 2 show ?case by (simp add: Let_def del: upt_Suc split del: if_split) (auto simp del: upt_Suc)
qed simp

lemma group_loop_nonempty: "[] \<notin> set (group_loop target i current cb sizes)"
  by (induction target i current cb sizes rule: group_loop.induct) (auto simp: Let_def)

lemma group_loop_bounded:
  assumes "length all = i + length sizes" "drop i all = sizes" "cb = batch_bytes all current"
    and "length current > 1 \<longrightarrow> cb \<le> target" "batch \<in> set (group_loop target i current cb sizes)" "length batch > 1"
  shows "batch_bytes all batch \<le> target"
  using assms
proof (induction target i current cb sizes rule: group_loop.induct)
  case (1 target i current cb)
  then show ?case by (auto split: if_splits)
next
  case (2 target i current cb size0 sizes)
  let ?size = "if size0 < 0 then 0 else size0"
  have size0: "all ! i = size0" using "2.prems"(1,2) by (metis nth_via_drop)
  have bb: "batch_bytes all (current @ [i]) = cb + ?size" "batch_bytes all [i] = ?size" "batch_bytes all [] = 0"
    using "2.prems"(3) by (auto simp: batch_bytes_def size0)
  have drop: "drop (i + 1) all = sizes" using "2.prems"(2) by (metis Suc_eq_plus1 drop_Suc list.sel(3) tl_drop)
  show ?case
  proof (cases "?size > int MaxRecordBytes")
    case True
    with "2.prems" have "batch = current \<or> batch = [i] \<or> batch \<in> set (group_loop target (i + 1) [] 0 sizes)"
      by (auto simp: Let_def split: if_splits)
    with "2.prems" "2.IH"(1) [OF refl True] drop bb(3) show ?thesis by auto
  next
    case small: False
    show ?thesis
    proof (cases "current \<noteq> [] \<and> cb + ?size > target")
      case True
      with "2.prems" small have "batch = current \<or> batch \<in> set (group_loop target (i + 1) [i] ?size sizes)"
        by (auto simp: Let_def split: if_splits)
      with "2.prems" "2.IH"(2) [OF refl small True] drop bb(2) show ?thesis by auto
    next
      case False
      with "2.prems"(5) small have "batch \<in> set (group_loop target (i + 1) (current @ [i]) (cb + ?size) sizes)"
        by (auto simp: Let_def split: if_splits)
      with "2.prems" "2.IH"(3) [OF refl small False] drop bb(1) False show ?thesis by auto
    qed
  qed
qed

text \<open>
  Grouping puts every record into exactly one batch, in order, makes no empty batch, and keeps
  every batch of more than one record within the target.
\<close>

theorem group_partition:
  "concat (Group target sizes) = [0..<length sizes] \<and> [] \<notin> set (Group target sizes) \<and>
   (\<forall>batch \<in> set (Group target sizes). length batch \<le> 1 \<or> batch_bytes sizes batch \<le> target)"
proof (intro conjI ballI)
  show "concat (Group target sizes) = [0..<length sizes]" by (simp add: Group_def group_loop_order)
  show "[] \<notin> set (Group target sizes)" by (simp add: Group_def group_loop_nonempty)
  fix batch assume "batch \<in> set (Group target sizes)"
  then show "length batch \<le> 1 \<or> batch_bytes sizes batch \<le> target"
    using group_loop_bounded [of sizes 0 sizes 0 "[]" target batch] by (force simp: Group_def batch_bytes_def not_le)
qed

theorem group_partition_witness:
  "concat (Group 10 [4, 5, 6]) = [0, 1, 2] \<and> Group 10 [4, 5, 6] = [[0, 1], [2]] \<and> batch_bytes [4, 5, 6] [0, 1] \<le> 10"
proof -
  have "Group 10 [4, 5, 6] = [[0, 1], [2]]" by (simp add: Group_def MaxRecordBytes_def)
  with group_partition [of 10 "[4, 5, 6]"] show ?thesis by (simp add: upt_conv_Cons)
qed

end
