(* ===== verification/Store.thy ===== *)
theory Store
  imports Chunks GoStrings "HOL-Library.List_Lexorder"
begin

text \<open>
  The persistent store (\<open>engine/store/store.go\<close>, \<open>memtable.go\<close>, \<open>flush.go\<close>, \<open>meta.go\<close>,
  \<open>compact.go\<close>): memtable levels, index, chunk registry, flush, recovery and compaction. The disk
  is part of the state: the metadata document (the JSON codec is exact), the bytes of the index
  file and of the chunk files, and the journal directory inside \<open>st_wal\<close>. The file handle cache is
  transparent. Sequence numbers of chunks stay below \<open>2^32\<close>. The stages of a flush and of a
  compaction that other goroutines can interleave with are definitions of their own.
\<close>

section \<open>Keys\<close>

definition hexNibble :: "char \<Rightarrow> nat option" where
  "hexNibble c =
     (let n = of_char c :: nat in
      if n \<ge> 48 \<and> n \<le> 57 then Some (n - 48)
      else if n \<ge> 97 \<and> n \<le> 102 then Some (n - 97 + 10)
      else None)"

fun hex_pairs :: "string \<Rightarrow> bytes option" where
  "hex_pairs [] = Some []"
| "hex_pairs (a # b # rest) =
     (case hexNibble a of None \<Rightarrow> None
      | Some hi \<Rightarrow> (case hexNibble b of None \<Rightarrow> None
          | Some lo \<Rightarrow> (case hex_pairs rest of None \<Rightarrow> None
              | Some bs \<Rightarrow> Some (of_nat (hi * 16 + lo) # bs))))"
| "hex_pairs [_] = None"

definition decodeKey :: "string \<Rightarrow> bytes option" where
  "decodeKey key = (if length key \<noteq> 64 then None else hex_pairs key)"

definition encodeKey :: "bytes \<Rightarrow> string" where
  "encodeKey key = hex_encode key"

fun lessKey :: "bytes \<Rightarrow> bytes \<Rightarrow> bool" where
  "lessKey (a # as) (b # bs) = (if a \<noteq> b then a < b else lessKey as bs)"
| "lessKey _ _ = False"

section \<open>Memtables\<close>

text \<open>An entry \<open>None\<close> is Go's nil value, the tombstone.\<close>

record memtable =
  mt_entries :: "(bytes, bytes option) gomap"
  mt_bytes :: int

definition newMemtable :: memtable where
  "newMemtable = \<lparr>mt_entries = [], mt_bytes = 0\<rparr>"

definition mt_len :: "memtable \<Rightarrow> nat" where
  "mt_len m = length (mt_entries m)"

definition mt_live :: "memtable \<Rightarrow> nat" where
  "mt_live m = length (filter (\<lambda>(k, v). v \<noteq> None) (mt_entries m))"

definition existing_bytes :: "memtable \<Rightarrow> bytes \<Rightarrow> int" where
  "existing_bytes m bin = (case gget (mt_entries m) bin of Some (Some v) \<Rightarrow> int (length v) | _ \<Rightarrow> 0)"

text \<open>Appending nothing to a nil slice gives a nil slice: an empty value would be a tombstone.\<close>

definition mt_put :: "bytes \<Rightarrow> bytes \<Rightarrow> memtable \<Rightarrow> memtable" where
  "mt_put bin v m =
     \<lparr>mt_entries = gput bin (if v = [] then None else Some v) (mt_entries m),
      mt_bytes = mt_bytes m - existing_bytes m bin + int (length v)\<rparr>"

definition mt_tombstone :: "bytes \<Rightarrow> memtable \<Rightarrow> memtable" where
  "mt_tombstone bin m =
     \<lparr>mt_entries = gput bin None (mt_entries m), mt_bytes = mt_bytes m - existing_bytes m bin\<rparr>"

definition mt_remove :: "bytes \<Rightarrow> memtable \<Rightarrow> memtable" where
  "mt_remove bin m =
     \<lparr>mt_entries = gdel bin (mt_entries m), mt_bytes = mt_bytes m - existing_bytes m bin\<rparr>"

record frozen_table =
  ft_table :: memtable
  ft_lsn :: nat

section \<open>The state\<close>

record loc =
  loc_chunk :: nat
  loc_offset :: nat

record chunk_meta =
  cm_Records :: int
  cm_Live :: int
  cm_Bytes :: int
  cm_Checksum :: nat

definition metaFormatVersion :: int where "metaFormatVersion = 2"
definition defaultMemtableRecords :: int where "defaultMemtableRecords = 4096"
definition defaultMemtableBytes :: int where "defaultMemtableBytes = 8 * 1024 * 1024"
definition defaultMaxFrozen :: nat where "defaultMaxFrozen = 2"

record disk_meta =
  dm_Version :: int
  dm_LSN :: nat
  dm_NextSequence :: nat
  dm_Count :: int
  dm_DeadRecords :: int
  dm_Chunks :: "(nat, chunk_meta) gomap"

datatype meta_file = MetaAbsent | MetaEmpty | MetaGarbage | MetaDoc disk_meta

record store_disk =
  dk_meta :: meta_file
  dk_preserved :: "disk_meta option"
  dk_index :: "bytes option"
  dk_chunks :: "(nat, bytes) gomap"

datatype store_status = StReady | StDegraded | StClosed

datatype store_err =
    ErrNotFound | ErrClosed | ErrBadKey | ErrEmptyValue | ErrReadRecord | ErrChunkFile chunk_err
  | ErrJournal wal_err | ErrWriteChunk | ErrPersistIndex | ErrPersistMeta | ErrCompactRead | ErrCallback

record store =
  st_active :: memtable
  st_frozen :: "frozen_table list"
  st_flushing :: "frozen_table option"
  st_chunksMap :: "(nat, chunk_meta) gomap"
  st_nextSeq :: nat
  st_lsn :: nat
  st_checkpointLSN :: nat
  st_deadRecs :: int
  st_status :: store_status
  st_index :: "(bytes, loc) gomap"
  st_wal :: journal
  st_disk :: store_disk
  st_closed :: bool
  st_stopping :: bool
  st_flushErr :: "store_err option"
  st_flushCount :: nat
  st_compactCount :: nat
  st_cachedCount :: int
  st_memtableRecords :: int
  st_memtableBytes :: int

section \<open>Reading\<close>

datatype level_state = LevelAbsent | LevelLive bytes | LevelTombstone

definition table_state :: "memtable \<Rightarrow> bytes \<Rightarrow> level_state" where
  "table_state m bin =
     (case gget (mt_entries m) bin of
        None \<Rightarrow> LevelAbsent
      | Some None \<Rightarrow> LevelTombstone
      | Some (Some v) \<Rightarrow> LevelLive v)"

fun first_state :: "memtable list \<Rightarrow> bytes \<Rightarrow> level_state" where
  "first_state [] bin = LevelAbsent"
| "first_state (m # ms) bin = (if table_state m bin \<noteq> LevelAbsent then table_state m bin else first_state ms bin)"

abbreviation flushing_tables :: "store \<Rightarrow> memtable list" where
  "flushing_tables s \<equiv> (case st_flushing s of None \<Rightarrow> [] | Some f \<Rightarrow> [ft_table f])"

text \<open>The levels from the newest to the oldest, as \<open>lookupLevels\<close> visits them.\<close>

definition levels :: "store \<Rightarrow> memtable list" where
  "levels s = st_active s # rev (map ft_table (st_frozen s)) @ flushing_tables s"

definition lookupLevels :: "store \<Rightarrow> bytes \<Rightarrow> level_state" where
  "lookupLevels s bin = first_state (levels s) bin"

definition readRecordAt :: "bytes \<Rightarrow> nat \<Rightarrow> store_err + bytes" where
  "readRecordAt bs offset =
     (if length bs < offset + 4 then Inl ErrReadRecord
      else let len = get_le (take 4 (drop offset bs)) in
           if len < 32 \<or> len > MaxRecordBytes then Inl ErrReadRecord
           else if length bs < offset + 4 + len then Inl ErrReadRecord
           else Inr (drop 32 (take len (drop (offset + 4) bs))))"

definition readRecord :: "store \<Rightarrow> loc \<Rightarrow> store_err + bytes" where
  "readRecord s position =
     (case gget (dk_chunks (st_disk s)) (loc_chunk position) of
        None \<Rightarrow> Inl ErrReadRecord
      | Some bs \<Rightarrow> readRecordAt bs (loc_offset position))"

definition store_get :: "store \<Rightarrow> bytes \<Rightarrow> store_err + bytes" where
  "store_get s bin =
     (case lookupLevels s bin of
        LevelTombstone \<Rightarrow> Inl ErrNotFound
      | LevelLive v \<Rightarrow> Inr v
      | LevelAbsent \<Rightarrow>
          (case gget (st_index s) bin of None \<Rightarrow> Inl ErrNotFound | Some position \<Rightarrow> readRecord s position))"

definition store_Get :: "store \<Rightarrow> string \<Rightarrow> store_err + bytes" where
  "store_Get s key =
     (case decodeKey key of
        None \<Rightarrow> Inl ErrBadKey
      | Some bin \<Rightarrow> if st_closed s then Inl ErrClosed else store_get s bin)"

definition isLive :: "store \<Rightarrow> bytes \<Rightarrow> bool" where
  "isLive s bin =
     (case lookupLevels s bin of
        LevelAbsent \<Rightarrow> gget (st_index s) bin \<noteq> None
      | LevelTombstone \<Rightarrow> False
      | LevelLive _ \<Rightarrow> True)"

definition store_Has :: "store \<Rightarrow> string \<Rightarrow> bool" where
  "store_Has s key =
     (case decodeKey key of None \<Rightarrow> False | Some bin \<Rightarrow> \<not> st_closed s \<and> isLive s bin)"

text \<open>\<open>derivedCount\<close>: one entry, then the tables in the order of the code.\<close>

definition count_entry :: "(bytes, loc) gomap \<Rightarrow> bytes \<times> bytes option \<Rightarrow> bytes list \<times> int \<Rightarrow> bytes list \<times> int" where
  "count_entry index e acc =
     (case e of (bin, v) \<Rightarrow> case acc of (seen, tot) \<Rightarrow>
        if bin \<in> set seen then (seen, tot)
        else (bin # seen,
              if v = None then (if gget index bin \<noteq> None then tot - 1 else tot)
              else (if gget index bin = None then tot + 1 else tot)))"

definition derivedCount :: "store \<Rightarrow> int" where
  "derivedCount s =
     snd (fold (count_entry (st_index s))
            (concat (map mt_entries (flushing_tables s @ rev (map ft_table (st_frozen s)) @ [st_active s])))
            ([], int (length (st_index s))))"

definition invalidateCount :: "store \<Rightarrow> store" where
  "invalidateCount s = s\<lparr>st_cachedCount := - 1\<rparr>"

definition store_Count :: "store \<Rightarrow> int \<times> store" where
  "store_Count s =
     (if st_closed s then (0, s)
      else if st_cachedCount s \<ge> 0 then (st_cachedCount s, s)
      else let n = derivedCount s in (n, s\<lparr>st_cachedCount := n\<rparr>))"

section \<open>Iterating\<close>

text \<open>A snapshot row: where the record is on disk and what the memtables say about it.\<close>

record iter_entry =
  it_position :: "loc option"
  it_state :: level_state

text \<open>\<open>setState\<close> for one entry of a table.\<close>

definition set_state :: "bytes \<times> bytes option \<Rightarrow> (bytes, iter_entry) gomap \<Rightarrow> (bytes, iter_entry) gomap" where
  "set_state e merged =
     (case e of (bin, v) \<Rightarrow>
        let entry = (case gget merged bin of Some r \<Rightarrow> r | None \<Rightarrow> \<lparr>it_position = None, it_state = LevelAbsent\<rparr>) in
        gput bin (entry\<lparr>it_state := (case v of None \<Rightarrow> LevelTombstone | Some x \<Rightarrow> LevelLive x)\<rparr>) merged)"

definition iterSnapshot :: "store \<Rightarrow> (bytes, iter_entry) gomap" where
  "iterSnapshot s =
     fold set_state
       (concat (map mt_entries (map ft_table (st_frozen s) @ flushing_tables s @ [st_active s])))
       (map (\<lambda>(bin, position). (bin, \<lparr>it_position = Some position, it_state = LevelAbsent\<rparr>)) (st_index s))"

text \<open>
  The rows of the snapshot in key order, handed to the callback, for a context that is not
  cancelled. The result is what the callback saw and the error.
\<close>

fun iterate_rows ::
  "store \<Rightarrow> (string \<Rightarrow> bytes \<Rightarrow> bool) \<Rightarrow> (bytes \<times> iter_entry) list \<Rightarrow> (string \<times> bytes) list \<times> store_err option" where
  "iterate_rows s fn [] = ([], None)"
| "iterate_rows s fn ((bin, entry) # rows) =
     (case it_state entry of
        LevelTombstone \<Rightarrow> iterate_rows s fn rows
      | LevelLive v \<Rightarrow>
          if \<not> fn (encodeKey bin) v then ([(encodeKey bin, v)], Some ErrCallback)
          else (case iterate_rows s fn rows of (out, e) \<Rightarrow> ((encodeKey bin, v) # out, e))
      | LevelAbsent \<Rightarrow>
          (case readRecord s (the (it_position entry)) of
             Inl e \<Rightarrow> ([], Some e)
           | Inr v \<Rightarrow>
               if \<not> fn (encodeKey bin) v then ([(encodeKey bin, v)], Some ErrCallback)
               else (case iterate_rows s fn rows of (out, e) \<Rightarrow> ((encodeKey bin, v) # out, e))))"

definition store_Iterate :: "store \<Rightarrow> (string \<Rightarrow> bytes \<Rightarrow> bool) \<Rightarrow> (string \<times> bytes) list \<times> store_err option" where
  "store_Iterate s fn =
     (if st_closed s then ([], Some ErrClosed)
      else iterate_rows s fn (sort_key fst (iterSnapshot s)))"

section \<open>Writing\<close>

text \<open>The flushed copy of a key becomes dead.\<close>

definition mark_dead :: "bytes \<Rightarrow> store \<Rightarrow> store" where
  "mark_dead bin s =
     (case gget (st_index s) bin of
        None \<Rightarrow> s
      | Some position \<Rightarrow>
          (case gget (st_chunksMap s) (loc_chunk position) of
             None \<Rightarrow> s
           | Some meta \<Rightarrow>
               if cm_Live meta > 0 then
                 s\<lparr>st_chunksMap := gput (loc_chunk position) (meta\<lparr>cm_Live := cm_Live meta - 1\<rparr>) (st_chunksMap s),
                   st_deadRecs := st_deadRecs s + 1\<rparr>
               else s))"

definition applyUpsert :: "bytes \<Rightarrow> bytes \<Rightarrow> store \<Rightarrow> store" where
  "applyUpsert bin v s =
     (if lookupLevels s bin \<noteq> LevelAbsent then s\<lparr>st_active := mt_put bin v (st_active s)\<rparr>
      else (mark_dead bin s)\<lparr>st_active := mt_put bin v (st_active s)\<rparr>)"

definition applyDelete :: "bytes \<Rightarrow> store \<Rightarrow> store" where
  "applyDelete bin s =
     (if lookupLevels s bin \<noteq> LevelAbsent then
        (mark_dead bin s)\<lparr>st_index := gdel bin (st_index s), st_active := mt_tombstone bin (st_active s)\<rparr>
      else if gget (st_index s) bin \<noteq> None then
        (mark_dead bin s)\<lparr>st_index := gdel bin (st_index s), st_active := mt_tombstone bin (st_active s)\<rparr>
      else s)"

definition memtablePressureLocked :: "store \<Rightarrow> bool" where
  "memtablePressureLocked s \<longleftrightarrow>
     int (mt_len (st_active s)) \<ge> st_memtableRecords s \<or> mt_bytes (st_active s) \<ge> st_memtableBytes s"

definition freezeLocked :: "store \<Rightarrow> store" where
  "freezeLocked s =
     (if mt_len (st_active s) = 0 then s
      else s\<lparr>st_frozen := st_frozen s @ [\<lparr>ft_table = st_active s, ft_lsn = st_lsn s\<rparr>], st_active := newMemtable\<rparr>)"

definition pendingTables :: "store \<Rightarrow> nat" where
  "pendingTables s = length (st_frozen s) + (case st_flushing s of None \<Rightarrow> 0 | Some _ \<Rightarrow> 1)"

text \<open>
  \<open>writeRecords\<close>: the error, whether the caller is throttled, and the state. A throttled caller
  waits, changing nothing, until fewer than \<open>defaultMaxFrozen\<close> tables are pending.
\<close>

definition writeRecords ::
  "(bytes \<Rightarrow> 32 word) \<Rightarrow> write_fault \<Rightarrow> journal_record list \<Rightarrow> store \<Rightarrow> store_err option \<times> bool \<times> store" where
  "writeRecords crc fault records s =
     (case Append crc fault records (st_wal s) of
        (Inl e, wal) \<Rightarrow> (Some (ErrJournal e), False, s\<lparr>st_wal := wal\<rparr>)
      | (Inr lastLSN, wal) \<Rightarrow>
          let s1 = fold (\<lambda>r. applyUpsert (jr_Key r) (jr_Value r)) records (s\<lparr>st_wal := wal\<rparr>);
              s2 = (if lastLSN > st_lsn s1 then s1\<lparr>st_lsn := lastLSN\<rparr> else s1);
              s3 = (if memtablePressureLocked s2 then freezeLocked s2 else s2)
          in (None, pendingTables s3 \<ge> defaultMaxFrozen, invalidateCount s3))"

text \<open>The validation loop of \<open>UpsertBatch\<close>.\<close>

fun batch_records :: "(string \<times> bytes) list \<Rightarrow> store_err + journal_record list" where
  "batch_records [] = Inr []"
| "batch_records ((key, v) # pairs) =
     (if v = [] then Inl ErrEmptyValue
      else case decodeKey key of
             None \<Rightarrow> Inl ErrBadKey
           | Some bin \<Rightarrow>
               (case batch_records pairs of
                  Inl e \<Rightarrow> Inl e
                | Inr rs \<Rightarrow> Inr (\<lparr>jr_Op = opUpsert, jr_Key = bin, jr_Value = v\<rparr> # rs)))"

definition UpsertBatch ::
  "(bytes \<Rightarrow> 32 word) \<Rightarrow> write_fault \<Rightarrow> (string \<times> bytes) list \<Rightarrow> store \<Rightarrow> store_err option \<times> bool \<times> store" where
  "UpsertBatch crc fault pairs s =
     (if pairs = [] then (None, False, s)
      else if st_closed s then (Some ErrClosed, False, s)
      else case batch_records pairs of
             Inl e \<Rightarrow> (Some e, False, s)
           | Inr records \<Rightarrow> writeRecords crc fault records s)"

definition Upsert :: "(bytes \<Rightarrow> 32 word) \<Rightarrow> write_fault \<Rightarrow> string \<Rightarrow> bytes \<Rightarrow> store \<Rightarrow> store_err option \<times> bool \<times> store" where
  "Upsert crc fault key v s = UpsertBatch crc fault [(key, v)] s"

definition store_Delete :: "(bytes \<Rightarrow> 32 word) \<Rightarrow> write_fault \<Rightarrow> string \<Rightarrow> store \<Rightarrow> store_err option \<times> store" where
  "store_Delete crc fault key s =
     (case decodeKey key of
        None \<Rightarrow> (Some ErrBadKey, s)
      | Some bin \<Rightarrow>
          if st_closed s then (Some ErrClosed, s)
          else if \<not> isLive s bin then (None, s)
          else case Append crc fault [\<lparr>jr_Op = opDelete, jr_Key = bin, jr_Value = []\<rparr>] (st_wal s) of
                 (Inl e, wal) \<Rightarrow> (Some (ErrJournal e), s\<lparr>st_wal := wal\<rparr>)
               | (Inr _, wal) \<Rightarrow> (None, invalidateCount (applyDelete bin (s\<lparr>st_wal := wal\<rparr>))))"

definition applyReplay :: "byte \<Rightarrow> bytes \<Rightarrow> bytes \<Rightarrow> nat \<Rightarrow> store \<Rightarrow> store option" where
  "applyReplay op bin v lsn s =
     (let s1 = (if op = opUpsert then applyUpsert bin v s else if op = opDelete then applyDelete bin s else s);
          s2 = (if lsn > st_lsn s1 then s1\<lparr>st_lsn := lsn\<rparr> else s1)
      in Some (invalidateCount s2))"

section \<open>Persisting\<close>

definition indexMagic :: bytes where "indexMagic = str_bytes ''FIRI''"
definition indexEntrySize :: nat where "indexEntrySize = 44"

definition index_row :: "bytes \<times> loc \<Rightarrow> bytes" where
  "index_row e = (case e of (bin, position) \<Rightarrow> bin @ put_le 4 (loc_chunk position) @ put_le 8 (loc_offset position))"

definition index_bytes :: "(bytes, loc) gomap \<Rightarrow> bytes" where
  "index_bytes index = indexMagic @ [1, 0] @ put_le 4 (length index) @ concat (map index_row index)"

definition persistIndex :: "store \<Rightarrow> store" where
  "persistIndex s = s\<lparr>st_disk := (st_disk s)\<lparr>dk_index := Some (index_bytes (st_index s))\<rparr>\<rparr>"

definition persistMeta :: "store \<Rightarrow> store" where
  "persistMeta s =
     s\<lparr>st_disk := (st_disk s)\<lparr>dk_meta :=
        MetaDoc \<lparr>dm_Version = metaFormatVersion, dm_LSN = st_checkpointLSN s, dm_NextSequence = st_nextSeq s,
                 dm_Count = derivedCount s, dm_DeadRecords = st_deadRecs s, dm_Chunks = st_chunksMap s\<rparr>\<rparr>\<rparr>"

definition nextSequence :: "store \<Rightarrow> nat \<times> store" where
  "nextSequence s = (st_nextSeq s + 1, s\<lparr>st_nextSeq := st_nextSeq s + 1\<rparr>)"

section \<open>Flushing\<close>

fun offsets_from :: "nat \<Rightarrow> bytes list \<Rightarrow> nat list" where
  "offsets_from off [] = []"
| "offsets_from off (r # rs) = off # offsets_from (off + 4 + length r) rs"

text \<open>The live entries of a table in key order.\<close>

definition live_entries :: "memtable \<Rightarrow> (bytes \<times> bytes) list" where
  "live_entries m =
     concat (map (\<lambda>bin. case gget (mt_entries m) bin of Some (Some v) \<Rightarrow> [(bin, v)] | _ \<Rightarrow> [])
       (sort (map fst (mt_entries m))))"

definition write_locs :: "nat \<Rightarrow> (bytes \<times> bytes) list \<Rightarrow> (bytes \<times> loc) list" where
  "write_locs seq kvs =
     zip (map fst kvs)
       (map (\<lambda>off. \<lparr>loc_chunk = seq, loc_offset = off\<rparr>) (offsets_from HeaderSize (map (\<lambda>(k, v). k @ v) kvs)))"

datatype flush_fault = FlushOk | ChunkFault | IndexFault | MetaFault

text \<open>
  The stages of \<open>flushTable\<close>. \<open>flush_chunk\<close> allocates a sequence number and writes the chunk file,
  \<open>flush_install\<close> is the critical section that registers it.
\<close>

definition flush_chunk ::
  "(bytes \<Rightarrow> 32 word) \<Rightarrow> flush_fault \<Rightarrow> (bytes \<times> bytes) list \<Rightarrow> store \<Rightarrow> (store_err + nat \<times> chunk_info) \<times> store" where
  "flush_chunk crc fault kvs s =
     (case nextSequence s of (seq, s1) \<Rightarrow>
        if fault = ChunkFault then (Inl ErrWriteChunk, s1)
        else case WriteChunk crc (map (\<lambda>(k, v). k @ v) kvs) 0 of
               Inl e \<Rightarrow> (Inl (ErrChunkFile e), s1)
             | Inr (bs, info) \<Rightarrow>
                 (Inr (seq, info), s1\<lparr>st_disk := (st_disk s1)\<lparr>dk_chunks := gput seq bs (dk_chunks (st_disk s1))\<rparr>\<rparr>))"

definition new_chunk_meta :: "chunk_info \<Rightarrow> int \<Rightarrow> chunk_meta" where
  "new_chunk_meta info live =
     \<lparr>cm_Records = int (ci_Records info), cm_Live = live, cm_Bytes = int (ci_Bytes info), cm_Checksum = ci_Checksum info\<rparr>"

definition flush_install :: "nat \<Rightarrow> chunk_info \<Rightarrow> (bytes \<times> bytes) list \<Rightarrow> nat \<Rightarrow> store \<Rightarrow> store" where
  "flush_install seq info kvs lsn s =
     s\<lparr>st_chunksMap := gput seq (new_chunk_meta info (int (ci_Records info))) (st_chunksMap s),
       st_index := fold (\<lambda>(k, l). gput k l) (write_locs seq kvs) (st_index s),
       st_checkpointLSN := lsn\<rparr>"

definition flush_checkpoint :: "nat \<Rightarrow> store \<Rightarrow> store_err option \<times> store" where
  "flush_checkpoint lsn s =
     (case Checkpoint lsn (st_wal s) of
        (Some e, wal) \<Rightarrow> (Some (ErrJournal e), s\<lparr>st_wal := wal\<rparr>)
      | (None, wal) \<Rightarrow> (None, s\<lparr>st_wal := wal\<rparr>))"

definition flush_meta :: "flush_fault \<Rightarrow> nat \<Rightarrow> store \<Rightarrow> store_err option \<times> store" where
  "flush_meta fault lsn s =
     (if fault = MetaFault then (Some ErrPersistMeta, s) else flush_checkpoint lsn (persistMeta s))"

definition flushTable :: "(bytes \<Rightarrow> 32 word) \<Rightarrow> flush_fault \<Rightarrow> frozen_table \<Rightarrow> store \<Rightarrow> store_err option \<times> store" where
  "flushTable crc fault table s =
     (let kvs = live_entries (ft_table table) in
      if kvs \<noteq> [] then
        (case flush_chunk crc fault kvs s of
           (Inl e, s1) \<Rightarrow> (Some e, s1)
         | (Inr (seq, info), s1) \<Rightarrow>
             let s2 = flush_install seq info kvs (ft_lsn table) s1 in
             if fault = IndexFault then (Some ErrPersistIndex, s2)
             else flush_meta fault (ft_lsn table) (persistIndex s2))
      else flush_meta fault (ft_lsn table) (s\<lparr>st_checkpointLSN := ft_lsn table\<rparr>))"

definition flush_begin :: "store \<Rightarrow> (frozen_table \<times> store) option" where
  "flush_begin s =
     (if st_flushing s \<noteq> None \<or> st_frozen s = [] then None
      else Some (hd (st_frozen s), s\<lparr>st_frozen := tl (st_frozen s), st_flushing := Some (hd (st_frozen s))\<rparr>))"

definition flush_end :: "frozen_table \<Rightarrow> store_err option \<Rightarrow> store \<Rightarrow> store" where
  "flush_end table err s =
     (let s1 = s\<lparr>st_flushing := None\<rparr> in
      case err of
        Some e \<Rightarrow>
          if st_stopping s1 then s1\<lparr>st_flushErr := Some e\<rparr>
          else s1\<lparr>st_frozen := table # st_frozen s1, st_flushErr := Some e,
                  st_status := (if st_status s1 = StReady then StDegraded else st_status s1)\<rparr>
      | None \<Rightarrow> s1\<lparr>st_flushErr := None, st_flushCount := st_flushCount s1 + 1\<rparr>)"

definition flushOne :: "(bytes \<Rightarrow> 32 word) \<Rightarrow> flush_fault \<Rightarrow> store \<Rightarrow> bool \<times> store" where
  "flushOne crc fault s =
     (case flush_begin s of
        None \<Rightarrow> (False, s)
      | Some (table, s1) \<Rightarrow>
          (case flushTable crc fault table s1 of (err, s2) \<Rightarrow> (True, flush_end table err s2)))"

text \<open>
  \<open>drainForShutdown\<close> flushes each remaining table once; \<open>faults\<close> tells the fault of each attempt.
  Every attempt takes one table from the queue, so the length of the queue bounds the attempts.
\<close>

fun drain_loop :: "(bytes \<Rightarrow> 32 word) \<Rightarrow> (nat \<Rightarrow> flush_fault) \<Rightarrow> nat \<Rightarrow> store \<Rightarrow> store" where
  "drain_loop crc faults 0 s = s"
| "drain_loop crc faults (Suc n) s =
     (case flush_begin s of
        None \<Rightarrow> s
      | Some (table, s1) \<Rightarrow>
          (case flushTable crc (faults n) table s1 of
             (err, s2) \<Rightarrow>
               let s3 = s2\<lparr>st_flushing := None\<rparr>;
                   s4 = (case err of Some e \<Rightarrow> s3\<lparr>st_flushErr := Some e\<rparr> | None \<Rightarrow> s3\<lparr>st_flushCount := st_flushCount s3 + 1\<rparr>)
               in drain_loop crc faults n s4))"

definition drainForShutdown :: "(bytes \<Rightarrow> 32 word) \<Rightarrow> (nat \<Rightarrow> flush_fault) \<Rightarrow> store \<Rightarrow> store" where
  "drainForShutdown crc faults s = drain_loop crc faults (length (st_frozen s)) s"

text \<open>The worker's loop over \<open>flushOne\<close> when no flush fails.\<close>

fun flush_all :: "(bytes \<Rightarrow> 32 word) \<Rightarrow> nat \<Rightarrow> store \<Rightarrow> store" where
  "flush_all crc 0 s = s"
| "flush_all crc (Suc n) s = (case flushOne crc FlushOk s of (False, s1) \<Rightarrow> s1 | (True, s1) \<Rightarrow> flush_all crc n s1)"

text \<open>\<open>Flush\<close> with a worker that is idle and does not fail.\<close>

definition store_Flush :: "(bytes \<Rightarrow> 32 word) \<Rightarrow> store \<Rightarrow> store_err option \<times> store" where
  "store_Flush crc s =
     (if st_closed s then (Some ErrClosed, s)
      else let s1 = freezeLocked s; s2 = flush_all crc (length (st_frozen s1)) s1 in (st_flushErr s2, s2))"

definition store_Close :: "(bytes \<Rightarrow> 32 word) \<Rightarrow> (nat \<Rightarrow> flush_fault) \<Rightarrow> store \<Rightarrow> store_err option \<times> store" where
  "store_Close crc faults s =
     (if st_closed s then (None, s)
      else let s1 = freezeLocked (s\<lparr>st_closed := True, st_stopping := True\<rparr>);
               s2 = drainForShutdown crc faults s1;
               s3 = s2\<lparr>st_wal := journal_Close (st_wal s2), st_status := StClosed\<rparr>
           in (st_flushErr s3, s3))"

section \<open>Loading\<close>

text \<open>\<open>loadIndex\<close>: the rows of the index file; later rows replace earlier ones with the same key.\<close>

fun index_rows :: "nat \<Rightarrow> bytes \<Rightarrow> (bytes, loc) gomap \<Rightarrow> (bytes, loc) gomap" where
  "index_rows 0 bs index = index"
| "index_rows (Suc n) bs index =
     index_rows n (drop indexEntrySize bs)
       (gput (take 32 bs)
          \<lparr>loc_chunk = get_le (take 4 (drop 32 bs)), loc_offset = get_le (take 8 (drop 36 bs))\<rparr> index)"

definition parse_index :: "bytes \<Rightarrow> (bytes, loc) gomap option" where
  "parse_index raw =
     (if length raw < 10 \<or> take 4 raw \<noteq> indexMagic then None
      else if raw ! 4 \<noteq> 1 then None
      else let count = get_le (take 4 (drop 6 raw)) in
           if length raw < 10 + count * indexEntrySize then None
           else Some (index_rows count (drop 10 raw) []))"

definition loadIndex :: "store \<Rightarrow> store option" where
  "loadIndex s =
     (case dk_index (st_disk s) of
        None \<Rightarrow> None
      | Some raw \<Rightarrow> (case parse_index raw of None \<Rightarrow> None | Some index \<Rightarrow> Some (s\<lparr>st_index := index\<rparr>)))"

definition validateIndex :: "store \<Rightarrow> bool" where
  "validateIndex s \<longleftrightarrow> list_all (\<lambda>(bin, position). gget (st_chunksMap s) (loc_chunk position) \<noteq> None) (st_index s)"

text \<open>\<open>rebuildIndex\<close>: the chunks of the registry in the order of their numbers.\<close>

fun scan_records :: "nat \<Rightarrow> nat \<Rightarrow> bytes list \<Rightarrow> (bytes, loc) gomap \<Rightarrow> (bytes, loc) gomap" where
  "scan_records seq off [] index = index"
| "scan_records seq off (r # rs) index =
     scan_records seq (off + 4 + length r) rs
       (if length r > 32 then gput (take 32 r) \<lparr>loc_chunk = seq, loc_offset = off\<rparr> index else index)"

fun scan_chunks :: "(nat, bytes) gomap \<Rightarrow> nat list \<Rightarrow> (bytes, loc) gomap \<Rightarrow> store_err + (bytes, loc) gomap" where
  "scan_chunks files [] index = Inr index"
| "scan_chunks files (seq # seqs) index =
     (case ReadAll (gget files seq) of
        Inl e \<Rightarrow> Inl (ErrChunkFile e)
      | Inr records \<Rightarrow> scan_chunks files seqs (scan_records seq HeaderSize records index))"

definition rebuildIndex :: "store \<Rightarrow> store_err + store" where
  "rebuildIndex s =
     (case scan_chunks (dk_chunks (st_disk s)) (sort (map fst (st_chunksMap s))) [] of
        Inl e \<Rightarrow> Inl e
      | Inr index \<Rightarrow> Inr (s\<lparr>st_index := index\<rparr>))"

text \<open>\<open>rebuildFromChunks\<close>: every chunk file with a readable header.\<close>

definition register_chunk :: "nat \<times> bytes \<Rightarrow> store \<Rightarrow> store" where
  "register_chunk file s =
     (case file of (seq, bs) \<Rightarrow>
        case OpenReader (Some bs) of
          Inl _ \<Rightarrow> s
        | Inr reader \<Rightarrow>
            let h = rd_header reader;
                meta = \<lparr>cm_Records = int (hd_RecordCount h), cm_Live = int (hd_RecordCount h), cm_Bytes = 0, cm_Checksum = hd_Checksum h\<rparr>;
                s1 = s\<lparr>st_chunksMap := gput seq meta (st_chunksMap s)\<rparr>
            in if seq \<ge> st_nextSeq s1 then s1\<lparr>st_nextSeq := seq + 1\<rparr> else s1)"

definition rebuildFromChunks :: "store \<Rightarrow> store" where
  "rebuildFromChunks s = fold register_chunk (dk_chunks (st_disk s)) s"

definition removeOrphanChunks :: "store \<Rightarrow> store" where
  "removeOrphanChunks s =
     s\<lparr>st_disk := (st_disk s)\<lparr>dk_chunks := filter (\<lambda>(seq, bs). gget (st_chunksMap s) seq \<noteq> None) (dk_chunks (st_disk s))\<rparr>\<rparr>"

datatype read_meta = MetaOk disk_meta | MetaNotExist | MetaCorrupt | MetaFuture disk_meta

text \<open>An empty, undecodable or old document counts as lost metadata, a newer one is kept aside.\<close>

definition readMeta :: "store \<Rightarrow> read_meta" where
  "readMeta s =
     (case dk_meta (st_disk s) of
        MetaAbsent \<Rightarrow> MetaNotExist
      | MetaEmpty \<Rightarrow> MetaCorrupt
      | MetaGarbage \<Rightarrow> MetaCorrupt
      | MetaDoc m \<Rightarrow>
          if dm_Version m > metaFormatVersion then MetaFuture m
          else if dm_Version m \<noteq> metaFormatVersion then MetaCorrupt
          else MetaOk m)"

definition preserveFutureMeta :: "disk_meta \<Rightarrow> store \<Rightarrow> store" where
  "preserveFutureMeta m s = s\<lparr>st_disk := (st_disk s)\<lparr>dk_preserved := Some m, dk_meta := MetaAbsent\<rparr>\<rparr>"

definition load_registry :: "disk_meta \<Rightarrow> store \<Rightarrow> store" where
  "load_registry m s =
     (let present = filter (\<lambda>(seq, c). gget (dk_chunks (st_disk s)) seq \<noteq> None) (dm_Chunks m);
          s1 = s\<lparr>st_chunksMap := present, st_nextSeq := dm_NextSequence m, st_checkpointLSN := dm_LSN m,
                 st_lsn := dm_LSN m, st_deadRecs := dm_DeadRecords m,
                 st_status := (if length present < length (dm_Chunks m) then StDegraded else st_status s)\<rparr>
      in removeOrphanChunks s1)"

definition loadOrRecover :: "store \<Rightarrow> store_err + store" where
  "loadOrRecover s =
     (let s1 = (case readMeta s of
                  MetaOk m \<Rightarrow> load_registry m s
                | MetaNotExist \<Rightarrow> rebuildFromChunks s
                | MetaCorrupt \<Rightarrow> rebuildFromChunks s
                | MetaFuture m \<Rightarrow> rebuildFromChunks (preserveFutureMeta m s))
      in case loadIndex s1 of
           None \<Rightarrow> rebuildIndex s1
         | Some s2 \<Rightarrow> if validateIndex s2 then Inr s2 else rebuildIndex s2)"

definition orDefault :: "int \<Rightarrow> int \<Rightarrow> int" where
  "orDefault v fallback = (if v \<le> 0 then fallback else v)"

definition empty_journal :: journal where
  "empty_journal = \<lparr>jn_files = [], jn_legacy = None, jn_file = NoFile, jn_segSeq = 0, jn_lsn = 0, jn_activeBytes = 0,
     jn_segmentMax = defaultSegmentMaxBytes, jn_segEnd = [], jn_segSizes = [], jn_totalBytes = 0\<rparr>"

definition new_store :: "store_disk \<Rightarrow> int \<Rightarrow> int \<Rightarrow> store" where
  "new_store disk memRecords memBytes =
     \<lparr>st_active = newMemtable, st_frozen = [], st_flushing = None, st_chunksMap = [], st_nextSeq = 0, st_lsn = 0,
      st_checkpointLSN = 0, st_deadRecs = 0, st_status = StReady, st_index = [], st_wal = empty_journal, st_disk = disk,
      st_closed = False, st_stopping = False, st_flushErr = None, st_flushCount = 0, st_compactCount = 0,
      st_cachedCount = - 1, st_memtableRecords = orDefault memRecords defaultMemtableRecords,
      st_memtableBytes = orDefault memBytes defaultMemtableBytes\<rparr>"

text \<open>\<open>Open\<close> on a directory: the disk of the store and the files of its journal.\<close>

definition store_Open ::
  "(bytes \<Rightarrow> 32 word) \<Rightarrow> store_disk \<Rightarrow> (nat, bytes) gomap \<Rightarrow> bytes option \<Rightarrow> bool \<Rightarrow> int \<Rightarrow> int \<Rightarrow> store_err + store" where
  "store_Open crc disk files legacy rm memRecords memBytes =
     (case loadOrRecover (new_store disk memRecords memBytes) of
        Inl e \<Rightarrow> Inl e
      | Inr s \<Rightarrow>
          (case openJournal crc files legacy rm (st_checkpointLSN s) (st_checkpointLSN s) applyReplay s of
             (Some e, _, _) \<Rightarrow> Inl (ErrJournal e)
           | (None, wal, s1) \<Rightarrow>
               let s2 = s1\<lparr>st_wal := wal\<rparr> in
               Inr (if CurrentLSN wal > st_lsn s2 then s2\<lparr>st_lsn := CurrentLSN wal\<rparr> else s2)))"

section \<open>Compaction\<close>

text \<open>The references of a compaction: the index entries into the victims, in key order.\<close>

definition compact_refs :: "nat list \<Rightarrow> store \<Rightarrow> (bytes \<times> loc) list" where
  "compact_refs grp s = sort_key fst (filter (\<lambda>(bin, position). loc_chunk position \<in> set grp) (st_index s))"

fun read_refs :: "store \<Rightarrow> (bytes \<times> loc) list \<Rightarrow> store_err + (bytes \<times> bytes) list" where
  "read_refs s [] = Inr []"
| "read_refs s ((bin, position) # refs) =
     (case readRecord s position of
        Inl e \<Rightarrow> Inl ErrCompactRead
      | Inr v \<Rightarrow> (case read_refs s refs of Inl e \<Rightarrow> Inl e | Inr kvs \<Rightarrow> Inr ((bin, v) # kvs)))"

text \<open>The swap: an entry is redirected only when it is still the one that was read.\<close>

fun compact_swap :: "(bytes \<times> loc) list \<Rightarrow> (bytes \<times> loc) list \<Rightarrow> (bytes, loc) gomap \<times> nat \<Rightarrow> (bytes, loc) gomap \<times> nat" where
  "compact_swap ((bin, position) # refs) ((_, new) # locs) (index, swapped) =
     compact_swap refs locs
       (if gget index bin = Some position then (gput bin new index, swapped + 1) else (index, swapped))"
| "compact_swap _ _ acc = acc"

definition retireVictims :: "nat list \<Rightarrow> int \<Rightarrow> store \<Rightarrow> store" where
  "retireVictims grp extraDead s =
     (let metas = filter (\<lambda>(seq, m). seq \<in> set grp) (st_chunksMap s);
          reclaimed = sum_list (map (\<lambda>(seq, m). cm_Records m - cm_Live m) metas)
      in s\<lparr>st_chunksMap := filter (\<lambda>(seq, m). seq \<notin> set grp) (st_chunksMap s),
           st_deadRecs := st_deadRecs s + extraDead - reclaimed,
           st_disk := (st_disk s)\<lparr>dk_chunks := filter (\<lambda>(seq, bs). seq \<notin> set grp) (dk_chunks (st_disk s))\<rparr>\<rparr>)"

definition compactGroup :: "(bytes \<Rightarrow> 32 word) \<Rightarrow> flush_fault \<Rightarrow> nat list \<Rightarrow> store \<Rightarrow> store_err option \<times> store" where
  "compactGroup crc fault grp s =
     (let refs = compact_refs grp s in
      case read_refs s refs of
        Inl e \<Rightarrow> (Some e, s)
      | Inr kvs \<Rightarrow>
          if kvs = [] then (None, retireVictims grp 0 s)
          else case flush_chunk crc fault kvs s of
                 (Inl e, s1) \<Rightarrow> (Some e, s1)
               | (Inr (seq, info), s1) \<Rightarrow>
                   (case compact_swap refs (write_locs seq kvs) (st_index s1, 0) of
                      (index, swapped) \<Rightarrow>
                        let s2 = invalidateCount (s1\<lparr>st_index := index,
                               st_chunksMap := gput seq (new_chunk_meta info (int swapped)) (st_chunksMap s1)\<rparr>)
                        in (None, retireVictims grp (int (length kvs) - int swapped) s2)))"

text \<open>The dead share is above one half; the quotient of the code is exact enough below \<open>2^50\<close> records.\<close>

definition compact_victims :: "store \<Rightarrow> nat list" where
  "compact_victims s =
     sort (map fst (filter (\<lambda>(seq, m). cm_Records m = 0 \<or> 2 * (cm_Records m - cm_Live m) > cm_Records m) (st_chunksMap s)))"

function compact_groups :: "nat list \<Rightarrow> nat list list" where
  "compact_groups victims = (if victims = [] then [] else take 8 victims # compact_groups (drop 8 victims))"
  by pat_completeness auto
termination by (relation "measure length") auto

declare compact_groups.simps [simp del]

fun compact_all :: "(bytes \<Rightarrow> 32 word) \<Rightarrow> nat list list \<Rightarrow> store \<Rightarrow> store_err option \<times> store" where
  "compact_all crc [] s = (None, s)"
| "compact_all crc (grp # groups) s =
     (case compactGroup crc FlushOk grp s of
        (Some e, s1) \<Rightarrow> (Some e, s1)
      | (None, s1) \<Rightarrow> compact_all crc groups s1)"

definition store_Compact :: "(bytes \<Rightarrow> 32 word) \<Rightarrow> store \<Rightarrow> store_err option \<times> store" where
  "store_Compact crc s =
     (case store_Flush crc s of
        (Some e, s1) \<Rightarrow> (Some e, s1)
      | (None, s1) \<Rightarrow>
          if compact_victims s1 = [] then (None, s1)
          else case compact_all crc (compact_groups (compact_victims s1)) s1 of
                 (Some e, s2) \<Rightarrow> (Some e, s2)
               | (None, s2) \<Rightarrow>
                   let s3 = persistMeta (persistIndex s2) in (None, s3\<lparr>st_compactCount := st_compactCount s3 + 1\<rparr>))"

section \<open>Verification\<close>

fun verify_chunks :: "(bytes \<Rightarrow> 32 word) \<Rightarrow> (nat, bytes) gomap \<Rightarrow> nat list \<Rightarrow> store_err option" where
  "verify_chunks crc files [] = None"
| "verify_chunks crc files (seq # seqs) =
     (case OpenReader (gget files seq) of
        Inl e \<Rightarrow> if e = ErrMissing then verify_chunks crc files seqs else Some (ErrChunkFile e)
      | Inr reader \<Rightarrow>
          (case Verify crc reader of
             Some e \<Rightarrow> Some (ErrChunkFile e)
           | None \<Rightarrow> verify_chunks crc files seqs))"

definition VerifyAll :: "(bytes \<Rightarrow> 32 word) \<Rightarrow> store \<Rightarrow> store_err option" where
  "VerifyAll crc s =
     (if st_closed s then Some ErrClosed
      else verify_chunks crc (dk_chunks (st_disk s)) (sort (map fst (st_chunksMap s))))"

definition pendingKeysLocked :: "store \<Rightarrow> nat" where
  "pendingKeysLocked s =
     mt_len (st_active s) + sum_list (map (mt_len \<circ> ft_table) (st_frozen s)) + sum_list (map mt_len (flushing_tables s))"

end
