(* ===== verification/WalProps.thy ===== *)
theory WalProps
  imports Wal
begin

text \<open>
  Correctness of the write-ahead journal: records read back as written and a torn record is never
  taken for one; the invariant that ties the segment files to the bookkeeping, kept by appending,
  rolling, checkpointing and opening; recovery after a crash; and what happens after a torn
  segment creation, a failed write and an oversized value.
\<close>

section \<open>Reading back records\<close>

definition rec_ok :: "journal_record \<Rightarrow> bool" where
  "rec_ok r \<longleftrightarrow> (jr_Op r = opUpsert \<or> jr_Op r = opDelete) \<and> length (jr_Key r) = 32 \<and>
     length (jr_Value r) \<le> MaxRecordBytes \<and> (jr_Op r = opDelete \<longrightarrow> jr_Value r = [])"

abbreviation rec_size :: "journal_record \<Rightarrow> nat" where
  "rec_size r \<equiv> journalRecordSize (jr_Op r) (jr_Value r)"

abbreviation encode_all :: "(bytes \<Rightarrow> 32 word) \<Rightarrow> journal_record list \<Rightarrow> bytes" where
  "encode_all crc rs \<equiv> concat (map (encode_record crc) rs)"

abbreviation size_all :: "journal_record list \<Rightarrow> nat" where
  "size_all rs \<equiv> sum_list (map rec_size rs)"

lemma length_encode_record: "length (jr_Key r) = 32 \<Longrightarrow> length (encode_record crc r) = rec_size r"
  by (simp add: encode_record_def journalRecordSize_def)

lemma length_encode_all: "list_all rec_ok rs \<Longrightarrow> length (encode_all crc rs) = size_all rs"
  by (induction rs) (auto simp: length_encode_record rec_ok_def)

lemma get_put_crc [simp]: "get_le (put_le 4 (journalCRC crc r)) = journalCRC crc r"
proof -
  have "unat w < 2 ^ 32" for w :: "32 word" using unsigned_less [of w] by simp
  then have "journalCRC crc r < 2 ^ 32" unfolding journalCRC_def by blast
  then show ?thesis by (intro get_put_le) simp
qed

lemma read_encode_record:
  assumes "rec_ok r"
  shows "readJournalRecord crc (encode_record crc r @ rest) = (Rec r, rest)"
proof -
  obtain op key v where r: "r = \<lparr>jr_Op = op, jr_Key = key, jr_Value = v\<rparr>" by (cases r) auto
  have len: "get_le (put_le 4 (length v)) = length v"
    using assms r by (intro get_put_le) (simp add: rec_ok_def MaxRecordBytes_def)
  have op: "ReadFull (op # xs) 1 = (Inr [op], xs)" for xs by (simp add: ReadFull_def)
  have val: "(if length v > 0 then ReadFull (v @ xs) (length v) else (Inr [], v @ xs)) = (Inr v, xs)" for xs
    by (simp add: ReadFull_exact)
  have guards: "\<not> (op \<noteq> opUpsert \<and> op \<noteq> opDelete)" "\<not> MaxRecordBytes < length v"
      "\<not> (op = opDelete \<and> length v \<noteq> 0)" "length key = 32"
    using assms r by (auto simp: rec_ok_def)
  have enc: "encode_record crc r @ rest = op # key @ put_le 4 (length v) @ v @ put_le 4 (journalCRC crc r) @ rest"
    by (simp add: encode_record_def r)
  show ?thesis
    unfolding enc readJournalRecord_def op
    by (simp only: prod.case sum.case list.sel Let_def guards if_False ReadFull_exact [OF guards(4)]
        ReadFull_exact [OF length_put_le] len val) (simp add: r [symmetric])
qed

text \<open>Whatever is read as a record is the encoding of a well-formed record.\<close>

lemma read_record_inv:
  assumes "readJournalRecord crc bs = (Rec r, rest)"
  shows "bs = encode_record crc r @ rest \<and> rec_ok r"
proof -
  obtain op key lenBuf v crcBuf r0 r1 r2 r3 where
    pieces: "bs = [op] @ r0" "op = opUpsert \<or> op = opDelete" "r0 = key @ r1" "length key = 32"
      "r1 = lenBuf @ r2" "length lenBuf = 4" "get_le lenBuf \<le> MaxRecordBytes"
      "op = opDelete \<longrightarrow> get_le lenBuf = 0" "r2 = v @ r3" "length v = get_le lenBuf"
      "r3 = crcBuf @ rest" "length crcBuf = 4" "r = \<lparr>jr_Op = op, jr_Key = key, jr_Value = v\<rparr>"
      "get_le crcBuf = journalCRC crc r"
    using assms unfolding readJournalRecord_def Let_def
    by (auto simp: piece_err_def length_Suc_conv split: prod.splits sum.splits if_splits io_err.splits dest!: ReadFull_split)
  from pieces(6,10) have "put_le 4 (length v) = lenBuf" by (simp add: put_get_le)
  moreover from pieces(12,14) have "put_le 4 (journalCRC crc r) = crcBuf" by (metis put_get_le)
  ultimately show ?thesis using pieces by (auto simp: encode_record_def rec_ok_def)
qed

lemma read_more:
  assumes "readJournalRecord crc bs = (Rec r, rest)"
  shows "readJournalRecord crc (bs @ xs) = (Rec r, rest @ xs)"
  using read_record_inv [OF assms] by (simp add: read_encode_record)

lemma read_torn_record:
  assumes "rec_ok r" "n < rec_size r"
  shows "fst (readJournalRecord crc (take n (encode_record crc r))) \<in> {RecEOF, RecCorrupt}"
proof (cases "readJournalRecord crc (take n (encode_record crc r))")
  case (Pair e rest)
  show ?thesis
  proof (cases e)
    case (Rec r')
    with Pair have "readJournalRecord crc (take n (encode_record crc r)) = (Rec r', rest)" by simp
    from read_more [OF this, of "drop n (encode_record crc r)"]
    have "readJournalRecord crc (encode_record crc r) = (Rec r', rest @ drop n (encode_record crc r))" by simp
    with read_encode_record [OF assms(1), of crc "[]"] have "drop n (encode_record crc r) = []" by simp
    with assms length_encode_record [of r crc] show ?thesis by (simp add: rec_ok_def)
  qed (use Pair in simp_all)
qed

section \<open>Replaying records\<close>

text \<open>What replay does to the caller's state: the records after the checkpoint, in order.\<close>

fun apply_log :: "'s replay_fn \<Rightarrow> nat \<Rightarrow> nat \<Rightarrow> journal_record list \<Rightarrow> 's \<Rightarrow> 's option" where
  "apply_log f ckpt lsn [] s = Some s"
| "apply_log f ckpt lsn (r # rs) s =
     (if lsn + 1 > ckpt then
        (case f (jr_Op r) (jr_Key r) (jr_Value r) (lsn + 1) s of
           None \<Rightarrow> None | Some s1 \<Rightarrow> apply_log f ckpt (lsn + 1) rs s1)
      else apply_log f ckpt (lsn + 1) rs s)"

lemma apply_log_append:
  "apply_log f ckpt lsn (rs @ rs') s =
     (case apply_log f ckpt lsn rs s of None \<Rightarrow> None | Some s1 \<Rightarrow> apply_log f ckpt (lsn + length rs) rs' s1)"
  by (induction rs arbitrary: lsn s) (auto split: option.splits)

lemma apply_log_skip: "lsn + length rs \<le> ckpt \<Longrightarrow> apply_log f ckpt lsn rs s = Some s"
  by (induction rs arbitrary: lsn) auto

text \<open>How many records of a batch are complete in its first \<open>n\<close> bytes.\<close>

fun complete_records :: "nat \<Rightarrow> journal_record list \<Rightarrow> nat" where
  "complete_records n [] = 0"
| "complete_records n (r # rs) = (if rec_size r \<le> n then Suc (complete_records (n - rec_size r) rs) else 0)"

lemma complete_records_le: "complete_records n rs \<le> length rs"
  by (induction rs arbitrary: n) auto

lemma complete_records_all: "size_all rs \<le> n \<Longrightarrow> complete_records n rs = length rs"
  by (induction rs arbitrary: n) auto

lemma replay_loop_torn:
  assumes "list_all rec_ok rs" "allow \<or> size_all rs \<le> n"
    and "apply_log f ckpt lsn (take (complete_records n rs) rs) s = Some s'"
  shows "replay_loop crc seq ckpt allow f (take n (encode_all crc rs)) lsn off s =
           (None, lsn + complete_records n rs, off + size_all (take (complete_records n rs) rs), s')"
  using assms
proof (induction rs arbitrary: n lsn off s)
  case Nil
  then show ?case by (simp add: replay_loop.simps [of _ _ _ _ _ "[]"] readJournalRecord_def ReadFull_def)
next
  case (Cons r rs)
  have len: "length (encode_record crc r) = rec_size r" and ok: "rec_ok r"
    using Cons.prems(1) by (auto simp: length_encode_record rec_ok_def)
  show ?case
  proof (cases "rec_size r \<le> n")
    case True
    then have "take n (encode_all crc (r # rs)) = encode_record crc r @ take (n - rec_size r) (encode_all crc rs)"
      using len by simp
    moreover have "allow \<or> size_all rs \<le> n - rec_size r" using Cons.prems(2) True by auto
    ultimately show ?thesis
      using True Cons.prems(1,3) Cons.IH [of "n - rec_size r" "lsn + 1" _ "off + rec_size r"]
      by (subst replay_loop.simps)
        (auto simp: read_encode_record [OF ok] Let_def split: if_splits option.splits)
  next
    case False
    then have *: "take n (encode_all crc (r # rs)) = take n (encode_record crc r)" using len by simp
    obtain e rest where e: "readJournalRecord crc (take n (encode_record crc r)) = (e, rest)"
      and "e = RecEOF \<or> e = RecCorrupt"
      using read_torn_record [OF ok, of n crc] False by (auto simp: prod_eq_iff)
    then show ?thesis
      using False Cons.prems(2,3) unfolding * by (subst replay_loop.simps) auto
  qed
qed

lemma replay_loop_full:
  assumes "list_all rec_ok rs" "apply_log f ckpt lsn rs s = Some s'"
  shows "replay_loop crc seq ckpt allow f (encode_all crc rs) lsn off s = (None, lsn + length rs, off + size_all rs, s')"
  using replay_loop_torn [of rs allow "size_all rs" f ckpt lsn s s' crc seq off] assms
  by (simp add: complete_records_all length_encode_all)

section \<open>Segment files\<close>

definition seg_bytes :: "(bytes \<Rightarrow> 32 word) \<Rightarrow> nat \<Rightarrow> journal_record list \<Rightarrow> bytes" where
  "seg_bytes crc base rs = segment_header base @ encode_all crc rs"

definition seg_size :: "journal_record list \<Rightarrow> nat" where
  "seg_size rs = walHeaderSize + size_all rs"

text \<open>The directory that holds the given records, segment by segment, from a first number and base.\<close>

fun disk :: "(bytes \<Rightarrow> 32 word) \<Rightarrow> nat \<Rightarrow> nat \<Rightarrow> journal_record list list \<Rightarrow> (nat, bytes) gomap" where
  "disk crc q b [] = []"
| "disk crc q b (rs # rss) = (q, seg_bytes crc b rs) # disk crc (Suc q) (b + length rs) rss"

fun seg_ends :: "nat \<Rightarrow> journal_record list list \<Rightarrow> nat list" where
  "seg_ends b [] = []"
| "seg_ends b (rs # rss) = (b + length rs) # seg_ends (b + length rs) rss"

fun seg_infos :: "bool \<Rightarrow> nat \<Rightarrow> nat \<Rightarrow> journal_record list list \<Rightarrow> segment_info list" where
  "seg_infos d q b [] = []"
| "seg_infos d q b (rs # rss) =
     \<lparr>sg_seq = q, sg_base = b, sg_end = (if d then b + length rs else b), sg_size = seg_size rs\<rparr>
       # seg_infos d (Suc q) (b + length rs) rss"

lemma length_segment_header [simp]: "length (segment_header b) = walHeaderSize"
  by (simp add: segment_header_def walMagic_def walHeaderSize_def)

lemma length_seg_bytes: "list_all rec_ok rs \<Longrightarrow> length (seg_bytes crc b rs) = seg_size rs"
  by (simp add: seg_bytes_def seg_size_def length_encode_all)

lemma read_header:
  assumes "b < 2 ^ 64"
  shows "readSegmentHeaderLSN seq (segment_header b @ rest) = Inr b"
proof -
  have "get_le (put_le 2 walVersion) = walVersion" by (intro get_put_le) (simp add: walVersion_def)
  moreover have "get_le (put_le 8 b) = b" using assms by (intro get_put_le) simp
  ultimately show ?thesis
    by (simp add: readSegmentHeaderLSN_def segment_header_def walMagic_def walHeaderSize_def)
qed

lemma disk_append:
  "disk crc q b (rss @ rss') = disk crc q b rss @ disk crc (q + length rss) (b + length (concat rss)) rss'"
  by (induction rss arbitrary: q b) (auto simp: add.assoc)

lemma disk_keys: "map fst (disk crc q b rss) = [q..<q + length rss]"
  by (induction rss arbitrary: q b) (simp_all add: upt_conv_Cons del: upt_Suc)

lemma disk_absent: "k < q \<or> q + length rss \<le> k \<Longrightarrow> gget (disk crc q b rss) k = None"
  using disk_keys [of crc q b rss] by (auto simp: map_of_eq_None_iff simp flip: set_map)

lemma length_disk [simp]: "length (disk crc q b rss) = length rss"
  by (induction rss arbitrary: q b) auto

lemma seg_infos_append:
  "seg_infos d q b (rss @ rss') = seg_infos d q b rss @ seg_infos d (q + length rss) (b + length (concat rss)) rss'"
  by (induction rss arbitrary: q b) (auto simp: add.assoc)

lemma seg_ends_append: "seg_ends b (rss @ rss') = seg_ends b rss @ seg_ends (b + length (concat rss)) rss'"
  by (induction rss arbitrary: b) (auto simp: add.assoc)

lemma length_seg_ends [simp]: "length (seg_ends b rss) = length rss"
  by (induction rss arbitrary: b) auto

lemma map_seg_infos [simp]:
  "map sg_end (seg_infos True q b rss) = seg_ends b rss" "map sg_size (seg_infos d q b rss) = map seg_size rss"
  by (induction rss arbitrary: q b) auto

lemma sort_disk:
  "sort_key fst (disk crc q b rss @ [(q + length rss, x)]) = disk crc q b rss @ [(q + length rss, x)]"
  by (rule sort_key_id_if_sorted) (simp add: disk_keys sorted_append del: upt_Suc)

lemma gput_last: "gget xs k = None \<Longrightarrow> gput k v (xs @ [(k, w)]) = xs @ [(k, v)]"
  by (induction xs) auto

lemma gput_new: "gget xs k = None \<Longrightarrow> gput k v xs = xs @ [(k, v)]"
  by (induction xs) auto

lemma list_segments_append:
  "list_segments (xs @ ys) =
     (case list_segments xs of Inl e \<Rightarrow> Inl e
      | Inr a \<Rightarrow> (case list_segments ys of Inl e \<Rightarrow> Inl e | Inr c \<Rightarrow> Inr (a @ c)))"
  by (induction xs rule: list_segments.induct) (auto split: sum.splits)

lemma list_segments_disk:
  assumes "b + length (concat rss) < 2 ^ 64" "list_all (list_all rec_ok) rss"
  shows "list_segments (disk crc q b rss) = Inr (seg_infos False q b rss)"
  using assms
proof (induction rss arbitrary: q b)
  case (Cons rs rss)
  then have "readSegmentHeaderLSN q (seg_bytes crc b rs) = Inr b" by (simp add: seg_bytes_def read_header)
  with Cons show ?case by (simp add: length_seg_bytes)
qed simp

section \<open>The invariant of the journal\<close>

definition wal_inv :: "(bytes \<Rightarrow> 32 word) \<Rightarrow> nat \<Rightarrow> nat \<Rightarrow> journal_record list list \<Rightarrow> journal_record list \<Rightarrow> journal \<Rightarrow> bool" where
  "wal_inv crc q b rss rs j \<longleftrightarrow>
     jn_files j = disk crc q b (rss @ [rs]) \<and> jn_file j = OpenFile \<and> jn_segSeq j = q + length rss \<and>
     jn_lsn j = b + length (concat rss) + length rs \<and> jn_activeBytes j = seg_size rs \<and>
     jn_segEnd j = seg_ends b (rss @ [rs]) \<and> (\<exists>z. jn_segSizes j = map seg_size rss @ [z]) \<and>
     jn_totalBytes j = int (sum_list (map seg_size (rss @ [rs]))) \<and>
     list_all (list_all rec_ok) rss \<and> list_all rec_ok rs \<and> jn_lsn j < 2 ^ 64 \<and> jn_segmentMax j = defaultSegmentMaxBytes"

lemma set_last_snoc [simp]: "set_last x (xs @ [y]) = xs @ [x]"
  by (simp add: set_last_def)

lemma active_file:
  "gget (disk crc q b (rss @ [rs])) (q + length rss) = Some (seg_bytes crc (b + length (concat rss)) rs)"
  by (simp add: disk_append disk_absent map_add_def)

lemma roll_inv:
  assumes "wal_inv crc q b rss rs j"
  shows "\<exists>j'. rollLocked j = (None, j') \<and> wal_inv crc q b (rss @ [rs]) [] j' \<and> jn_lsn j' = jn_lsn j"
proof -
  have "gget (disk crc q b (rss @ [rs])) (Suc (q + length rss)) = None" by (simp add: disk_absent)
  then show ?thesis
    using assms
    by (auto simp: wal_inv_def rollLocked_def createSegment_def Let_def gput_new disk_append [of _ _ _ "rss @ [rs]"]
        seg_ends_append [of _ "rss @ [rs]"] seg_bytes_def seg_size_def add.assoc simp del: append_assoc)
qed

lemma append_inv:
  assumes inv: "wal_inv crc q b rss rs j" and ok: "list_all rec_ok new" and lsn: "jn_lsn j + length new < 2 ^ 64"
  shows "\<exists>rss' rs' j'. Append crc NoFault new j = (Inr (jn_lsn j + length new), j') \<and> wal_inv crc q b rss' rs' j' \<and>
           concat rss' @ rs' = concat rss @ rs @ new"
proof (cases "new = []")
  case False
  define j3 where "j3 = j\<lparr>jn_lsn := jn_lsn j + length new,
     jn_files := gput (jn_segSeq j) (the (gget (jn_files j) (jn_segSeq j)) @ encode_all crc new) (jn_files j),
     jn_activeBytes := jn_activeBytes j + length (encode_all crc new), jn_totalBytes := jn_totalBytes j + int (length (encode_all crc new)),
     jn_segEnd := set_last (jn_lsn j + length new) (jn_segEnd j)\<rparr>"
  have inv3: "wal_inv crc q b rss (rs @ new) j3"
    using inv ok lsn
    by (auto simp: wal_inv_def j3_def active_file disk_append gput_last disk_absent seg_bytes_def seg_size_def
        length_encode_all seg_ends_append map_add_def)
  have open_j: "jn_file j = OpenFile" using inv by (simp add: wal_inv_def)
  have lsn3: "jn_lsn j3 = jn_lsn j + length new" by (simp add: j3_def)
  have app: "Append crc NoFault new j =
      (if jn_activeBytes j3 \<ge> jn_segmentMax j3 then
         (case rollLocked j3 of (Some e, j4) \<Rightarrow> (Inl e, j4) | (None, j4) \<Rightarrow> (Inr (jn_lsn j4), j4))
       else (Inr (jn_lsn j3), j3))"
    using False open_j by (simp add: Append_def Let_def j3_def)
  show ?thesis
  proof (cases "jn_activeBytes j3 \<ge> jn_segmentMax j3")
    case True
    with roll_inv [OF inv3] app lsn3 show ?thesis by (fastforce intro: exI [of _ "rss @ [rs @ new]"])
  next
    case nr: False
    with inv3 app lsn3 show ?thesis by (auto intro!: exI [of _ rss] exI [of _ "rs @ new"])
  qed
qed (use inv in \<open>auto simp: Append_def\<close>)

section \<open>Checkpoints\<close>

lemma gdel_notin: "gget xs k = None \<Longrightarrow> gdel k xs = xs"
  by (induction xs) (auto simp: AList.delete_eq)

lemma remove_prefix:
  "m \<le> length rss \<Longrightarrow> remove_files (map ((+) q) [0..<m]) (disk crc q b rss) =
     disk crc (q + m) (b + length (concat (take m rss))) (drop m rss)"
proof (induction m)
  case (Suc m)
  then obtain rs rest where d: "drop m rss = rs # rest" by (metis Cons_nth_drop_Suc Suc_le_lessD)
  then have rest: "drop (Suc m) rss = rest" "rss ! m = rs" by (simp_all add: drop_Suc drop_tl nth_via_drop)
  moreover have "take (Suc m) rss = take m rss @ [rs]" using Suc.prems rest(2) by (simp add: take_Suc_conv_app_nth)
  moreover have "gdel (q + m) (disk crc (q + m) x (rs # rest)) = disk crc (Suc (q + m)) (x + length rs) rest" for x
    using gdel_notin [OF disk_absent, of "q + m" "Suc (q + m)" rest crc "x + length rs"] by (simp add: AList.delete_eq)
  ultimately show ?case using Suc d by (simp add: remove_files_def flip: add.assoc)
qed (simp add: remove_files_def)

lemma remove_prefix_map:
  "m \<le> length rss \<Longrightarrow> remove_files (map (\<lambda>i. q + i) [0..<m]) (disk crc q b rss) =
     disk crc (q + m) (b + length (concat (take m rss))) (drop m rss)"
  using remove_prefix [of m rss q crc b] by simp

lemma removable_le: "removable t es \<le> length es - 1"
  by (induction t es rule: removable.induct) auto

lemma removable_incorporated:
  "removable t (seg_ends b rss) > 0 \<Longrightarrow> b + length (concat (take (removable t (seg_ends b rss)) rss)) \<le> t"
proof (induction rss arbitrary: b)
  case (Cons rs rss)
  show ?case
  proof (cases rss)
    case (Cons rs2 rest)
    with Cons.prems have le: "b + length rs \<le> t" by (auto split: if_splits)
    show ?thesis
    proof (cases "removable t (seg_ends (b + length rs) rss) > 0")
      case True
      from Cons.IH [OF this] le Cons show ?thesis by (simp add: add.assoc)
    next
      case False
      with le Cons show ?thesis by simp
    qed
  qed (use Cons.prems in simp)
qed simp

text \<open>
  A checkpoint succeeds, keeps the invariant, and what it removes is a prefix of the log whose
  records all have a sequence number up to the target.
\<close>

lemma seg_ends_drop: "drop m (seg_ends b rss) = seg_ends (b + length (concat (take m rss))) (drop m rss)"
  by (induction rss arbitrary: b m) (auto simp: drop_Cons' take_Cons' add.assoc gr0_conv_Suc)

lemma checkpoint_partial:
  assumes inv: "wal_inv crc q b rss rs j" and less: "\<not> jn_lsn j \<le> t"
  defines "m \<equiv> removable t (jn_segEnd j)"
  shows "m \<le> length rss"
    and "\<exists>j'. Checkpoint t j = (None, j') \<and> wal_inv crc (q + m) (b + length (concat (take m rss))) (drop m rss) rs j'"
proof -
  have ends: "jn_segEnd j = seg_ends b (rss @ [rs])" using inv by (simp add: wal_inv_def)
  show m: "m \<le> length rss" using removable_le [of t "jn_segEnd j"] by (simp add: m_def ends)
  from inv obtain z where sizes: "jn_segSizes j = map seg_size rss @ [z]" by (auto simp: wal_inv_def)
  have total: "sum_list (map seg_size rss) = sum_list (map seg_size (take m rss)) + sum_list (map seg_size (drop m rss))"
    using sum_list_append [of "map seg_size (take m rss)" "map seg_size (drop m rss)"] by (simp flip: map_append)
  have recs: "length (concat rss) = length (concat (take m rss)) + length (concat (drop m rss))"
    by (metis append_take_drop_id concat_append length_append)
  show "\<exists>j'. Checkpoint t j = (None, j') \<and> wal_inv crc (q + m) (b + length (concat (take m rss))) (drop m rss) rs j'"
  proof (cases "m = 0")
    case True
    then have "Checkpoint t j = (None, j)" using less by (simp add: Checkpoint_def Let_def m_def)
    with inv True show ?thesis by simp
  next
    case False
    let ?j = "j\<lparr>jn_segSizes := drop m (jn_segSizes j), jn_segEnd := drop m (jn_segEnd j),
        jn_totalBytes := jn_totalBytes j - int (sum_list (take m (jn_segSizes j))),
        jn_files := remove_files (map (\<lambda>i. q + i) [0..<m]) (jn_files j)\<rparr>"
    have segs: "jn_segEnd j \<noteq> []" "length (jn_segEnd j) = Suc (length rss)" using m False by (auto simp: ends m_def)
    moreover have "jn_file j = OpenFile" "jn_segSeq j = q + length rss" using inv by (simp_all add: wal_inv_def)
    ultimately have "Checkpoint t j = (None, ?j)"
      using less False m sizes by (simp add: Checkpoint_def Let_def m_def [symmetric])
    moreover have "wal_inv crc (q + m) (b + length (concat (take m rss))) (drop m rss) rs ?j"
      using inv m sizes total recs
      by (auto simp: wal_inv_def remove_prefix_map ends seg_ends_drop take_map drop_map list_all_length)
    ultimately show ?thesis by blast
  qed
qed

lemma checkpoint_full:
  assumes inv: "wal_inv crc q b rss rs j" and le: "jn_lsn j \<le> t"
  shows "\<exists>j'. Checkpoint t j = (None, j') \<and> wal_inv crc (q + length rss + 1) (jn_lsn j) [] [] j'"
proof -
  let ?d = "disk crc q b (rss @ [rs])"
  have new: "gget ?d (Suc (q + length rss)) = None" by (simp add: disk_absent)
  have rm: "map (\<lambda>i. q + i) [0..<length rss] @ [q + length rss] = map (\<lambda>i. q + i) [0..<length (rss @ [rs])]" by simp
  have lsn: "jn_lsn j = b + length (concat (rss @ [rs]))" using inv by (simp add: wal_inv_def)
  have files: "remove_files (map (\<lambda>i. q + i) [0..<length (rss @ [rs])]) (?d @ [(Suc (q + length rss), segment_header (jn_lsn j))]) =
      [(Suc (q + length rss), segment_header (jn_lsn j))]"
    using remove_prefix_map [of "length (rss @ [rs])" "rss @ [rs] @ [[]]" q crc b]
    by (simp add: disk_append lsn seg_bytes_def add.assoc del: upt_Suc)
  from inv obtain z where sizes: "jn_segSizes j = map seg_size rss @ [z]" by (auto simp: wal_inv_def)
  have nonempty: "jn_segEnd j \<noteq> []" using inv by (auto simp: wal_inv_def seg_ends_append)
  let ?j = "j\<lparr>jn_files := [(Suc (q + length rss), segment_header (jn_lsn j))], jn_file := OpenFile, jn_segSeq := Suc (q + length rss),
      jn_activeBytes := walHeaderSize, jn_segEnd := [jn_lsn j], jn_segSizes := [walHeaderSize],
      jn_totalBytes := jn_totalBytes j + int walHeaderSize - int (sum_list (map seg_size rss) + seg_size rs)\<rparr>"
  have "Checkpoint t j = (None, ?j)"
    using inv le sizes new files [unfolded rm [symmetric]] nonempty
    by (simp add: Checkpoint_def Let_def wal_inv_def createSegment_def gput_new)
  moreover have "wal_inv crc (q + length rss + 1) (jn_lsn j) [] [] ?j"
    using inv by (auto simp: wal_inv_def seg_bytes_def seg_size_def)
  ultimately show ?thesis by blast
qed

lemma checkpoint_inv:
  assumes inv: "wal_inv crc q b rss rs j"
  shows "\<exists>q' b' gone rss' rs' j'. Checkpoint t j = (None, j') \<and> wal_inv crc q' b' rss' rs' j' \<and>
     concat rss @ rs = gone @ concat rss' @ rs' \<and> b' = b + length gone \<and> (gone \<noteq> [] \<longrightarrow> b' \<le> t)"
proof (cases "jn_lsn j \<le> t")
  case True
  from checkpoint_full [OF inv True] obtain j' where
    "Checkpoint t j = (None, j')" "wal_inv crc (q + length rss + 1) (jn_lsn j) [] [] j'" by blast
  moreover have "jn_lsn j = b + length (concat rss @ rs)" using inv by (simp add: wal_inv_def)
  ultimately show ?thesis using True by (intro exI conjI) (assumption+, auto)
next
  case False
  let ?m = "removable t (jn_segEnd j)"
  from checkpoint_partial [OF inv False] obtain j' where m: "?m \<le> length rss" and
    j': "Checkpoint t j = (None, j')" "wal_inv crc (q + ?m) (b + length (concat (take ?m rss))) (drop ?m rss) rs j'" by blast
  have "jn_segEnd j = seg_ends b (rss @ [rs])" using inv by (simp add: wal_inv_def)
  with removable_incorporated [of t b "rss @ [rs]"] m
  have "?m > 0 \<longrightarrow> b + length (concat (take ?m rss)) \<le> t" by simp
  then have "concat (take ?m rss) \<noteq> [] \<longrightarrow> b + length (concat (take ?m rss)) \<le> t" by (cases "?m = 0") auto
  moreover have "concat rss @ rs = concat (take ?m rss) @ concat (drop ?m rss) @ rs"
    by (metis append_assoc append_take_drop_id concat_append)
  ultimately show ?thesis using j' by blast
qed

section \<open>Opening\<close>

definition torn_disk :: "(bytes \<Rightarrow> 32 word) \<Rightarrow> nat \<Rightarrow> nat \<Rightarrow> journal_record list list \<Rightarrow> journal_record list \<Rightarrow> nat \<Rightarrow> (nat, bytes) gomap" where
  "torn_disk crc q b rss rs n =
     disk crc q b rss @ [(q + length rss, segment_header (b + length (concat rss)) @ take n (encode_all crc rs))]"

text \<open>The segments before the last are replayed in full and left as they are.\<close>

lemma replay_prefix:
  assumes "\<And>k bs. gget (disk crc q b rss) k = Some bs \<Longrightarrow> gget (jn_files j) k = Some bs"
    and "list_all (list_all rec_ok) rss" "apply_log f ckpt b (concat rss) s = Some s1"
    and "prev = 0 \<or> prev = b" "tail \<noteq> []"
  shows "journal_replay crc ckpt f prev (seg_infos False q b rss @ tail) j s =
     (let (e, segs2, j3, s2) = journal_replay crc ckpt f (if rss = [] then prev else b + length (concat rss)) tail
            (if rss = [] then j else j\<lparr>jn_lsn := max (jn_lsn j) (b + length (concat rss))\<rparr>) s1
      in (e, seg_infos True q b rss @ segs2, j3, s2))"
  using assms
proof (induction rss arbitrary: q b j s prev)
  case Nil
  then show ?case by (simp add: split_beta)
next
  case (Cons rs rss)
  have fl: "gget (jn_files j) q = Some (seg_bytes crc b rs)" using Cons.prems(1) [of q] by simp
  from Cons.prems(3) obtain s' where s': "apply_log f ckpt b rs s = Some s'" "apply_log f ckpt (b + length rs) (concat rss) s' = Some s1"
    by (auto simp: apply_log_append split: option.splits)
  have ok: "list_all rec_ok rs" "list_all (list_all rec_ok) rss" using Cons.prems(2) by auto
  let ?seg = "\<lparr>sg_seq = q, sg_base = b, sg_end = b, sg_size = seg_size rs\<rparr>"
  have seg: "replaySegment crc ?seg (seg_bytes crc b rs) ckpt allow f s = (None, b + length rs, seg_size rs, s')" for allow
    using replay_loop_full [OF ok(1) s'(1)] by (simp add: replaySegment_def seg_size_def seg_bytes_def)
  let ?j = "j\<lparr>jn_lsn := max (jn_lsn j) (b + length rs)\<rparr>"
  have j: "(if jn_lsn j < b + length rs then j\<lparr>jn_lsn := b + length rs\<rparr> else j) = ?j" by auto
  have tail: "gget (jn_files ?j) k = Some bs" if "gget (disk crc (Suc q) (b + length rs) rss) k = Some bs" for k bs
    using that Cons.prems(1) [of k bs] disk_absent [of q "Suc q" rss crc "b + length rs"] by (cases "k = q") auto
  let ?rest = "seg_infos False (Suc q) (b + length rs) rss @ tail"
  have step: "journal_replay crc ckpt f prev (?seg # ?rest) j s =
      (let (e, segs2, j3, s2) = journal_replay crc ckpt f (b + length rs) ?rest ?j s'
       in (e, ?seg\<lparr>sg_end := b + length rs\<rparr> # segs2, j3, s2))"
    using Cons.prems(4) j by (auto simp: journal_replay.simps(2) fl seg Let_def split: prod.splits)
  have IH: "journal_replay crc ckpt f (b + length rs) ?rest ?j s' =
     (let (e, segs2, j3, s2) = journal_replay crc ckpt f
            (if rss = [] then b + length rs else b + length rs + length (concat rss)) tail
            (if rss = [] then ?j else ?j\<lparr>jn_lsn := max (jn_lsn ?j) (b + length rs + length (concat rss))\<rparr>) s1
      in (e, seg_infos True (Suc q) (b + length rs) rss @ segs2, j3, s2))"
    by (rule Cons.IH [OF tail ok(2) s'(2) disjI2 [OF refl] Cons.prems(5)])
  have l: "(if rss = [] then ?j else ?j\<lparr>jn_lsn := max (jn_lsn ?j) (b + length rs + length (concat rss))\<rparr>) =
      j\<lparr>jn_lsn := max (jn_lsn j) (b + length (concat (rs # rss)))\<rparr>" by (simp add: add.assoc)
  have p: "(if rss = [] then b + length rs else b + length rs + length (concat rss)) = b + length (concat (rs # rss))" by simp
  show ?case
    unfolding seg_infos.simps append_Cons if_False step IH l p by (simp add: split_beta Let_def)
qed

lemma complete_size: "size_all (take (complete_records n rs) rs) \<le> n"
proof (induction rs arbitrary: n)
  case (Cons r rs)
  from Cons [of "n - rec_size r"] show ?case by auto
qed simp

lemma take_complete:
  assumes "list_all rec_ok rs" "k \<le> length rs"
  shows "take (size_all (take k rs)) (encode_all crc rs) = encode_all crc (take k rs)"
proof -
  have "encode_all crc rs = encode_all crc (take k rs) @ encode_all crc (drop k rs)"
    by (simp flip: concat_append map_append)
  moreover have "length (encode_all crc (take k rs)) = size_all (take k rs)"
    using assms by (intro length_encode_all) (simp add: list_all_length)
  ultimately show ?thesis by simp
qed

lemma replay_single:
  assumes "replaySegment crc seg bs ckpt True f s = (None, e, good, s1)"
    and "gget (jn_files j) (sg_seq seg) = Some bs" "prev = 0 \<or> prev = sg_base seg"
  shows "journal_replay crc ckpt f prev [seg] j s =
     (None, [seg\<lparr>sg_end := e, sg_size := min (sg_size seg) good\<rparr>],
      j\<lparr>jn_files := if sg_size seg > good then gput (sg_seq seg) (take good bs) (jn_files j) else jn_files j,
        jn_lsn := max (jn_lsn j) e\<rparr>, s1)"
  using assms by (auto simp: journal_replay.simps Let_def max_def min_def)

lemma replay_last:
  fixes B n :: nat and rs :: "journal_record list"
  defines "k \<equiv> complete_records n rs"
  assumes files: "jn_files j = pre @ [(Q, segment_header B @ take n (encode_all crc rs))]" "gget pre Q = None"
    and ok: "list_all rec_ok rs" and prev: "prev = 0 \<or> prev = B"
    and app: "apply_log f ckpt B (take k rs) s1 = Some s2"
  shows "journal_replay crc ckpt f prev
      [\<lparr>sg_seq = Q, sg_base = B, sg_end = B, sg_size = walHeaderSize + min (size_all rs) n\<rparr>] j s1 =
      (None, [\<lparr>sg_seq = Q, sg_base = B, sg_end = B + k, sg_size = seg_size (take k rs)\<rparr>],
       j\<lparr>jn_files := pre @ [(Q, seg_bytes crc B (take k rs))], jn_lsn := max (jn_lsn j) (B + k)\<rparr>, s2)"
proof -
  let ?enc = "encode_all crc rs" and ?z = "size_all (take k rs)"
  have z: "?z \<le> n" and k: "k \<le> length rs" unfolding k_def by (rule complete_size, rule complete_records_le)
  have tk: "take ?z ?enc = encode_all crc (take k rs)" by (rule take_complete [OF ok k])
  have len: "length (take n ?enc) = min (size_all rs) n" using ok by (simp add: length_encode_all)
  have bs: "the (gget (jn_files j) Q) = segment_header B @ take n ?enc"
    using files by (simp add: map_add_def)
  have seg: "replaySegment crc \<lparr>sg_seq = Q, sg_base = B, sg_end = B, sg_size = walHeaderSize + min (size_all rs) n\<rparr>
      (segment_header B @ take n ?enc) ckpt True f s1 = (None, B + k, walHeaderSize + ?z, s2)"
    using replay_loop_torn [OF ok, of True n f ckpt B s1 s2 crc Q walHeaderSize] app
    by (simp add: replaySegment_def k_def)
  have cut: "take (walHeaderSize + ?z) (segment_header B @ take n ?enc) = seg_bytes crc B (take k rs)"
    using z tk by (simp add: seg_bytes_def min_def)
  have same: "segment_header B @ take n ?enc = seg_bytes crc B (take k rs)" if "\<not> ?z < min (size_all rs) n"
  proof -
    have "take ?z (take n ?enc) = take n ?enc" by (rule take_all) (use that len in linarith)
    with z tk show ?thesis by (simp add: seg_bytes_def min_def)
  qed
  let ?f = "pre @ [(Q, seg_bytes crc B (take k rs))]"
  let ?seg = "\<lparr>sg_seq = Q, sg_base = B, sg_end = B, sg_size = walHeaderSize + min (size_all rs) n\<rparr>"
  have newfiles: "(if sg_size ?seg > walHeaderSize + ?z
       then gput (sg_seq ?seg) (take (walHeaderSize + ?z) (segment_header B @ take n ?enc)) (jn_files j) else jn_files j) = ?f"
    unfolding cut using same files by (auto simp: gput_last)
  have le: "?z \<le> size_all rs"
    using sum_list_append [of "map rec_size (take k rs)" "map rec_size (drop k rs)"] by (simp flip: map_append)
  then have "?seg\<lparr>sg_end := B + k, sg_size := min (sg_size ?seg) (walHeaderSize + ?z)\<rparr> =
      \<lparr>sg_seq = Q, sg_base = B, sg_end = B + k, sg_size = seg_size (take k rs)\<rparr>"
    using z by (simp add: seg_size_def)
  moreover have "gget (jn_files j) (sg_seq ?seg) = Some (segment_header B @ take n ?enc)" using files by (simp add: map_add_def)
  ultimately show ?thesis
    using replay_single [OF seg, of j prev, unfolded newfiles] prev by simp
qed

lemma openActive_inv:
  assumes "jn_files j = disk crc q b (rss @ [rs])" "jn_lsn j = b + length (concat rss) + length rs"
    "list_all (list_all rec_ok) rss" "list_all rec_ok rs" "jn_lsn j < 2 ^ 64" "jn_segmentMax j = defaultSegmentMaxBytes"
  shows "\<exists>rss' rs' j'. openActive j (seg_infos True q b (rss @ [rs])) = (None, j') \<and> wal_inv crc q b rss' rs' j' \<and>
     concat rss' @ rs' = concat rss @ rs \<and> jn_legacy j' = jn_legacy j"
proof -
  define j1 where "j1 = j\<lparr>jn_segSizes := map seg_size (rss @ [rs]),
     jn_totalBytes := int (sum_list (map seg_size (rss @ [rs]))), jn_file := OpenFile, jn_segSeq := q + length rss,
     jn_activeBytes := seg_size rs, jn_segEnd := seg_ends b (rss @ [rs])\<rparr>"
  have inv: "wal_inv crc q b rss rs j1" using assms by (simp add: wal_inv_def j1_def)
  have leg: "jn_legacy (snd (rollLocked j1)) = jn_legacy j" by (simp add: rollLocked_def createSegment_def Let_def j1_def)
  have len: "length (seg_bytes crc (b + length (concat rss)) rs) = seg_size rs" using assms(4) by (rule length_seg_bytes)
  have "openActive j (seg_infos True q b (rss @ [rs])) = (if jn_activeBytes j1 \<ge> jn_segmentMax j1 then rollLocked j1 else (None, j1))"
    using assms(1,2) len active_file [of crc q b rss rs]
    by (simp add: openActive_def Let_def j1_def seg_infos_append seg_ends_append)
  with inv roll_inv [OF inv] leg show ?thesis
    by (cases "jn_activeBytes j1 \<ge> jn_segmentMax j1") (force simp: j1_def)+
qed

lemma list_segments_torn:
  assumes "b + length (concat rss) < 2 ^ 64" "list_all (list_all rec_ok) rss" "list_all rec_ok rs"
  shows "list_segments (sort_key fst (torn_disk crc q b rss rs n)) =
    Inr (seg_infos False q b rss @
      [\<lparr>sg_seq = q + length rss, sg_base = b + length (concat rss), sg_end = b + length (concat rss),
        sg_size = walHeaderSize + min (size_all rs) n\<rparr>])"
  using assms
  by (simp add: torn_disk_def sort_disk list_segments_append list_segments_disk read_header length_encode_all)

lemma open_torn:
  fixes rss :: "journal_record list list" and rs :: "journal_record list"
  defines "k n \<equiv> complete_records n rs"
  assumes ok: "list_all (list_all rec_ok) rss" "list_all rec_ok rs"
    and bnd: "b + length (concat rss) + length rs < 2 ^ 64" "minLSN \<le> b + length (concat rss) + k n"
    and app: "apply_log f ckpt b (concat rss @ take (k n) rs) s = Some s2"
  shows "\<exists>rss' rs' j'. openJournal crc (torn_disk crc q b rss rs n) None rm ckpt minLSN f s = (None, j', s2) \<and>
     wal_inv crc q b rss' rs' j' \<and> concat rss' @ rs' = concat rss @ take (k n) rs"
proof -
  let ?B = "b + length (concat rss)" and ?Q = "q + length rss" and ?files = "torn_disk crc q b rss rs n"
  define j0 where "j0 = \<lparr>jn_files = ?files, jn_legacy = None, jn_file = NoFile, jn_segSeq = 0, jn_lsn = minLSN,
      jn_activeBytes = 0, jn_segmentMax = defaultSegmentMaxBytes, jn_segEnd = [], jn_segSizes = [], jn_totalBytes = 0\<rparr>"
  let ?last = "[\<lparr>sg_seq = ?Q, sg_base = ?B, sg_end = ?B, sg_size = walHeaderSize + min (size_all rs) n\<rparr>]"
  from app obtain s1 where s1: "apply_log f ckpt b (concat rss) s = Some s1" "apply_log f ckpt ?B (take (k n) rs) s1 = Some s2"
    by (auto simp: apply_log_append split: option.splits)
  have lookup: "gget (jn_files j0) key = Some bs" if "gget (disk crc q b rss) key = Some bs" for key bs
    using that by (simp add: j0_def torn_disk_def)
  define jr where "jr = (if rss = [] then j0 else j0\<lparr>jn_lsn := max (jn_lsn j0) ?B\<rparr>)"
  have filesr: "jn_files jr = disk crc q b rss @ [(?Q, segment_header ?B @ take n (encode_all crc rs))]"
    by (simp add: jr_def j0_def torn_disk_def)
  define j1 where "j1 = jr\<lparr>jn_files := disk crc q b rss @ [(?Q, seg_bytes crc ?B (take (k n) rs))], jn_lsn := max (jn_lsn jr) (?B + k n)\<rparr>"
  have len: "length (take (k n) rs) = k n" using complete_records_le [of n rs] by (simp add: k_def)
  have last: "journal_replay crc ckpt f (if rss = [] then 0 else ?B) ?last jr s1 =
      (None, seg_infos True ?Q ?B [take (k n) rs], j1, s2)"
    using replay_last [OF filesr disk_absent ok(2), of "if rss = [] then 0 else ?B" f ckpt s1 s2] s1(2) len
    by (simp add: j1_def k_def)
  have replay: "journal_replay crc ckpt f 0 (seg_infos False q b rss @ ?last) j0 s =
      (None, seg_infos True q b (rss @ [take (k n) rs]), j1, s2)"
    using replay_prefix [where prev = 0 and tail = ?last, OF lookup ok(1) s1(1)] last by (simp add: jr_def seg_infos_append)
  have lsn: "jn_lsn j1 = ?B + k n" using bnd(2) by (auto simp: j1_def jr_def j0_def)
  have "\<exists>rss' rs' j'. openActive j1 (seg_infos True q b (rss @ [take (k n) rs])) = (None, j') \<and> wal_inv crc q b rss' rs' j' \<and>
     concat rss' @ rs' = concat rss @ take (k n) rs \<and> jn_legacy j' = jn_legacy j1"
    using ok bnd(1) len lsn complete_records_le [of n rs]
    by (intro openActive_inv) (auto simp: j1_def jr_def j0_def disk_append list_all_length k_def)
  then obtain rss' rs' j' where act: "openActive j1 (seg_infos True q b (rss @ [take (k n) rs])) = (None, j')"
    "wal_inv crc q b rss' rs' j'" "concat rss' @ rs' = concat rss @ take (k n) rs" "jn_legacy j' = None"
    by (auto simp: j1_def jr_def j0_def split: if_splits)
  have "openJournal crc ?files None rm ckpt minLSN f s = (None, j', s2)"
    using list_segments_torn [of b rss rs crc q n] ok bnd(1) replay act(1,4)
    by (simp add: openJournal_def Let_def listSegments_def migrateLegacyLog_def j0_def)
  with act(2,3) show ?thesis by blast
qed

lemma open_empty:
  assumes "minLSN < 2 ^ 64"
  shows "\<exists>j'. openJournal crc [] None rm ckpt minLSN f s = (None, j', s) \<and> wal_inv crc 0 minLSN [] [] j'"
  using assms
  by (simp add: openJournal_def Let_def listSegments_def journal_replay.simps openActive_def createSegment_def
      migrateLegacyLog_def wal_inv_def seg_bytes_def seg_size_def)

section \<open>Runs of the journal\<close>

text \<open>
  The files a crash leaves: what is on disk and the first \<open>n\<close> bytes of the batch being written.
\<close>

definition crash_files :: "(bytes \<Rightarrow> 32 word) \<Rightarrow> journal \<Rightarrow> nat \<Rightarrow> journal_record list \<Rightarrow> (nat, bytes) gomap" where
  "crash_files crc j n batch =
     gput (jn_segSeq j) (the (gget (jn_files j) (jn_segSeq j)) @ take n (encode_all crc batch)) (jn_files j)"

text \<open>
  A run starts with an empty directory and appends, checkpoints, crashes and reopens. Next to the
  journal it keeps the records acknowledged or recovered so far and the highest checkpoint.
\<close>

type_synonym wal_run = "journal \<times> journal_record list \<times> nat"

definition wal_start :: "(bytes \<Rightarrow> 32 word) \<Rightarrow> wal_run \<Rightarrow> bool" where
  "wal_start crc r \<longleftrightarrow>
     (case r of (j, acked, c) \<Rightarrow> acked = [] \<and> c = 0 \<and> openJournal crc [] None True 0 0 (\<lambda>op key v lsn s. Some s) () = (None, j, ()))"

inductive wal_step :: "(bytes \<Rightarrow> 32 word) \<Rightarrow> wal_run \<Rightarrow> wal_run \<Rightarrow> bool" for crc where
  append: "list_all rec_ok rs \<Longrightarrow> length acked + length rs < 2 ^ 64 \<Longrightarrow> Append crc NoFault rs j = (Inr lsn, j') \<Longrightarrow>
     wal_step crc (j, acked, c) (j', acked @ rs, c)"
| checkpoint: "Checkpoint t j = (None, j') \<Longrightarrow> wal_step crc (j, acked, c) (j', acked, max c t)"
| crash: "list_all rec_ok batch \<Longrightarrow> length acked + length batch < 2 ^ 64 \<Longrightarrow> c \<le> ckpt \<Longrightarrow> minLSN \<le> length acked \<Longrightarrow>
     openJournal crc (crash_files crc j n batch) None rm ckpt minLSN (\<lambda>op key v lsn s. Some s) () = (None, j', ()) \<Longrightarrow>
     wal_step crc (j, acked, c) (j', acked @ take (complete_records n batch) batch, c)"

definition wal_ok :: "(bytes \<Rightarrow> 32 word) \<Rightarrow> wal_run \<Rightarrow> bool" where
  "wal_ok crc r \<longleftrightarrow> (case r of (j, acked, c) \<Rightarrow>
     \<exists>gone q rss rs. wal_inv crc q (length gone) rss rs j \<and> acked = gone @ concat rss @ rs \<and> length gone \<le> c)"

lemma wal_okI:
  "wal_inv crc q b rss rs j \<Longrightarrow> length gone = b \<Longrightarrow> acked = gone @ concat rss @ rs \<Longrightarrow> b \<le> c \<Longrightarrow> wal_ok crc (j, acked, c)"
  unfolding wal_ok_def by auto

lemma crash_torn:
  assumes inv: "wal_inv crc q b rss rs j"
  shows "crash_files crc j n batch = torn_disk crc q b rss (rs @ batch) (size_all rs + n)"
proof -
  have "length (encode_all crc rs) = size_all rs" using inv by (simp add: wal_inv_def length_encode_all)
  then show ?thesis
    using inv by (simp add: wal_inv_def crash_files_def torn_disk_def active_file disk_append gput_last disk_absent seg_bytes_def map_add_def)
qed

lemma complete_records_append:
  "complete_records (size_all rs + n) (rs @ batch) = length rs + complete_records n batch"
  by (induction rs) auto

text \<open>Reopening after a crash, from any state of a run.\<close>

lemma crash_open:
  assumes "wal_ok crc (j, acked, c)" "list_all rec_ok batch" "length acked + length batch < 2 ^ 64" "c \<le> ckpt"
    "minLSN \<le> length acked" "apply_log f ckpt 0 (acked @ take (complete_records n batch) batch) s = Some s'"
  shows "\<exists>j'. openJournal crc (crash_files crc j n batch) None rm ckpt minLSN f s = (None, j', s') \<and>
     wal_ok crc (j', acked @ take (complete_records n batch) batch, c) \<and>
     jn_lsn j' = length acked + complete_records n batch"
proof -
  let ?k = "complete_records n batch"
  from assms(1) obtain gone q rss rs where inv: "wal_inv crc q (length gone) rss rs j"
    and acked: "acked = gone @ concat rss @ rs" and gone: "length gone \<le> c"
    by (auto simp: wal_ok_def)
  have ok: "list_all (list_all rec_ok) rss" "list_all rec_ok (rs @ batch)" using inv assms(2) by (auto simp: wal_inv_def)
  have tk: "take (complete_records (size_all rs + n) (rs @ batch)) (rs @ batch) = rs @ take ?k batch"
    by (simp add: complete_records_append)
  have app: "apply_log f ckpt (length gone) (concat rss @ rs @ take ?k batch) s = Some s'"
    using assms(4,6) gone apply_log_skip [of 0 gone ckpt f s] by (simp add: acked apply_log_append)
  have "\<exists>rss' rs' j'. openJournal crc (crash_files crc j n batch) None rm ckpt minLSN f s = (None, j', s') \<and>
     wal_inv crc q (length gone) rss' rs' j' \<and> concat rss' @ rs' = concat rss @ rs @ take ?k batch"
    unfolding crash_torn [OF inv] tk [symmetric]
    using ok assms(3,5) app by (intro open_torn) (auto simp: acked tk complete_records_append)
  then obtain rss' rs' j' where o: "openJournal crc (crash_files crc j n batch) None rm ckpt minLSN f s = (None, j', s')"
    "wal_inv crc q (length gone) rss' rs' j'" "concat rss' @ rs' = concat rss @ rs @ take ?k batch" by blast
  from o(3) have "length (concat rss') + length rs' = length (concat rss @ rs @ take ?k batch)"
    by (metis length_append)
  then have "jn_lsn j' = length acked + ?k"
    using o(2) complete_records_le [of n batch] by (simp add: wal_inv_def acked)
  moreover have "wal_ok crc (j', acked @ take ?k batch, c)"
    using o(3) gone by (intro wal_okI [OF o(2)]) (auto simp: acked)
  ultimately show ?thesis using o(1) by blast
qed

lemma wal_ok_append:
  assumes "wal_ok crc (j, acked, c)" "list_all rec_ok rs" "length acked + length rs < 2 ^ 64"
  shows "\<exists>j'. Append crc NoFault rs j = (Inr (length acked + length rs), j') \<and> wal_ok crc (j', acked @ rs, c)"
proof -
  from assms(1) obtain gone q rss rs0 where inv: "wal_inv crc q (length gone) rss rs0 j"
    and acked: "acked = gone @ concat rss @ rs0" and gone: "length gone \<le> c" by (auto simp: wal_ok_def)
  have lsn: "jn_lsn j = length acked" using inv by (simp add: wal_inv_def acked)
  from append_inv [OF inv assms(2)] assms(3) obtain rss' rs' j' where
    "Append crc NoFault rs j = (Inr (length acked + length rs), j')" "wal_inv crc q (length gone) rss' rs' j'"
    "concat rss' @ rs' = concat rss @ rs0 @ rs"
    by (auto simp: lsn)
  with gone show ?thesis by (auto simp: acked intro!: wal_okI)
qed

lemma wal_ok_checkpoint:
  assumes "wal_ok crc (j, acked, c)"
  shows "\<exists>j'. Checkpoint t j = (None, j') \<and> wal_ok crc (j', acked, max c t)"
proof -
  from assms(1) obtain gone0 q rss rs where inv: "wal_inv crc q (length gone0) rss rs j"
    and acked: "acked = gone0 @ concat rss @ rs" and gone0: "length gone0 \<le> c" by (auto simp: wal_ok_def)
  from checkpoint_inv [OF inv, of t] obtain q' b' gone rss' rs' j' where
    cp: "Checkpoint t j = (None, j')" "wal_inv crc q' b' rss' rs' j'" "concat rss @ rs = gone @ concat rss' @ rs'"
    "b' = length gone0 + length gone" "gone \<noteq> [] \<longrightarrow> b' \<le> t" by blast
  have "wal_ok crc (j', acked, max c t)"
    using cp(3-5) gone0 by (intro wal_okI [OF cp(2), of "gone0 @ gone"]) (cases "gone = []"; auto simp: acked)+
  with cp(1) show ?thesis by blast
qed

lemma apply_log_total: "\<exists>s'. apply_log (\<lambda>op key v lsn s. Some s) ckpt lsn rs s = Some s'"
  by (induction rs arbitrary: lsn) auto

interpretation waljournal: invariant_machine "wal_start crc" "wal_step crc" "wal_ok crc" for crc
proof unfold_locales
  fix r assume "wal_start crc r"
  then show "wal_ok crc r"
    using open_empty [of 0 crc True 0 "\<lambda>op key v lsn s. Some s" "()"]
    by (auto simp: wal_start_def wal_ok_def intro!: exI [of _ "[]"])
next
  fix r r' assume "wal_ok crc r" "wal_step crc r r'"
  from this(2,1) show "wal_ok crc r'"
  proof (induction rule: wal_step.induct)
    case (append rs acked j lsn j' c)
    then show ?case using wal_ok_append [of crc j acked c rs] by auto
  next
    case (checkpoint t j j' acked c)
    then show ?case using wal_ok_checkpoint [of crc j acked c t] by auto
  next
    case (crash batch acked c ckpt minLSN j n rm j')
    then show ?case
      using crash_open [of crc j acked c batch ckpt minLSN "\<lambda>op key v lsn s. Some s" n "()" "()" rm]
        apply_log_total [of ckpt 0 "acked @ take (complete_records n batch) batch" "()"] by auto
  qed
qed

lemma wal_ok_files:
  assumes "wal_ok crc (j, acked, c)"
  shows "walBytes j = int (sum_list (map (length \<circ> snd) (jn_files j)))" "CurrentLSN j = length acked"
    "segmentCount j = length (jn_files j)"
proof -
  from assms obtain gone q rss rs where inv: "wal_inv crc q (length gone) rss rs j"
    and acked: "acked = gone @ concat rss @ rs" by (auto simp: wal_ok_def)
  have "list_all (list_all rec_ok) xss \<Longrightarrow> sum_list (map (length \<circ> snd) (disk crc q b xss)) = sum_list (map seg_size xss)" for q b xss
    by (induction xss arbitrary: q b) (auto simp: length_seg_bytes)
  from this [of "rss @ [rs]" q "length gone"] inv
  show "walBytes j = int (sum_list (map (length \<circ> snd) (jn_files j)))" by (simp add: wal_inv_def walBytes_def)
  show "CurrentLSN j = length acked" "segmentCount j = length (jn_files j)"
    using inv by (simp_all add: wal_inv_def CurrentLSN_def segmentCount_def acked)
qed

section \<open>After a fault\<close>

text \<open>A record with a value above the limit of the reader is corrupt when read back.\<close>

lemma read_oversized:
  assumes "jr_Op r = opUpsert" "length (jr_Key r) = 32" "MaxRecordBytes < length (jr_Value r)" "length (jr_Value r) < 2 ^ 32"
  shows "\<exists>rest'. readJournalRecord crc (encode_record crc r @ rest) = (RecCorrupt, rest')"
proof -
  have op: "ReadFull (opUpsert # xs) 1 = (Inr [opUpsert], xs)" for xs by (simp add: ReadFull_def)
  have len: "get_le (put_le 4 (length (jr_Value r))) = length (jr_Value r)"
    using assms(4) by (intro get_put_le) simp
  have enc: "encode_record crc r @ rest = opUpsert # jr_Key r @ put_le 4 (length (jr_Value r)) @ jr_Value r @ put_le 4 (journalCRC crc r) @ rest"
    using assms(1) by (simp add: encode_record_def)
  show ?thesis
    unfolding enc readJournalRecord_def op
    using assms(3) by (simp add: Let_def ReadFull_exact [OF assms(2)] ReadFull_exact [OF length_put_le] len)
qed

lemma replay_loop_then:
  assumes "list_all rec_ok rs" "apply_log f ckpt lsn rs s = Some s'"
  shows "replay_loop crc seq ckpt allow f (encode_all crc rs @ bs) lsn off s =
           replay_loop crc seq ckpt allow f bs (lsn + length rs) (off + size_all rs) s'"
  using assms
proof (induction rs arbitrary: lsn off s)
  case (Cons r rs)
  have "readJournalRecord crc (encode_all crc (r # rs) @ bs) = (Rec r, encode_all crc rs @ bs)"
    using Cons.prems(1) read_encode_record [of r crc "encode_all crc rs @ bs"] by simp
  with Cons.prems show ?case
    by (subst replay_loop.simps) (auto simp: Cons.IH Let_def add.assoc split: if_splits option.splits)
qed simp

lemma wal_ok_obtain:
  assumes "reach (wal_start crc) (wal_step crc) (j, acked, c)"
  obtains gone q rss rs where "wal_inv crc q (length gone) rss rs j" "acked = gone @ concat rss @ rs" "length gone \<le> c"
  using waljournal.reach_inv [OF assms] by (auto simp: wal_ok_def)

text \<open>Opening a directory whose segments before the last are the given ones, up to the last segment.\<close>

lemma open_prefix:
  assumes inv: "list_all (list_all rec_ok) rss" "b + length (concat rss) < 2 ^ 64" "apply_log f ckpt b (concat rss) s = Some s1"
    and files: "files = disk crc q b rss @ [(q + length rss, x)] @ ys" "sorted (map fst files)"
    and infos: "list_segments ((q + length rss, x) # ys) = Inr tail" "tail \<noteq> []"
    and err: "\<And>prev j. prev = (if rss = [] then 0 else b + length (concat rss)) \<Longrightarrow> jn_files j = files \<Longrightarrow>
       \<exists>segs j'. journal_replay crc ckpt f prev tail j s1 = (Some e, segs, j', s2)"
  shows "\<exists>j'. openJournal crc files None rm ckpt minLSN f s = (Some e, j', s2)"
proof -
  define j0 where "j0 = \<lparr>jn_files = files, jn_legacy = None, jn_file = NoFile, jn_segSeq = 0, jn_lsn = minLSN,
      jn_activeBytes = 0, jn_segmentMax = defaultSegmentMaxBytes, jn_segEnd = [], jn_segSizes = [], jn_totalBytes = 0\<rparr>"
  have lookup: "gget (jn_files j0) key = Some bs" if "gget (disk crc q b rss) key = Some bs" for key bs
    using that by (simp add: j0_def files(1))
  have segs: "listSegments j0 = Inr (seg_infos False q b rss @ tail)"
    using files infos list_segments_disk [OF inv(2,1)]
    by (simp add: listSegments_def j0_def sort_key_id_if_sorted list_segments_append)
  have "\<exists>segs j'. journal_replay crc ckpt f 0 (seg_infos False q b rss @ tail) j0 s = (Some e, segs, j', s2)"
    using replay_prefix [where prev = 0 and tail = tail, OF lookup inv(1,3) disjI1 [OF refl] infos(2)]
      err [OF refl, of "if rss = [] then j0 else j0\<lparr>jn_lsn := max (jn_lsn j0) (b + length (concat rss))\<rparr>"]
    by (auto simp: j0_def)
  then show ?thesis using segs by (auto simp: openJournal_def Let_def j0_def)
qed

lemma torn_creation_open:
  assumes inv: "wal_inv crc q b rss rs j" "b + length (concat rss @ rs) \<noteq> 0"
    and app: "apply_log f ckpt b (concat rss @ rs) s = Some s'" and short: "length bs < walHeaderSize"
  shows "\<exists>j'. openJournal crc (jn_files j @ [(jn_segSeq j + 1, bs)]) None rm ckpt minLSN f s =
     (Some (WalContinuity (jn_segSeq j + 1) 0 (b + length (concat rss @ rs))), j', s')"
proof (rule open_prefix [where rss = "rss @ [rs]" and ys = "[]" and x = bs and b = b and q = q])
  let ?seg = "\<lparr>sg_seq = q + length rss + 1, sg_base = 0, sg_end = 0, sg_size = length bs\<rparr>"
  show "list_all (list_all rec_ok) (rss @ [rs])" "b + length (concat (rss @ [rs])) < 2 ^ 64"
    "apply_log f ckpt b (concat (rss @ [rs])) s = Some s'"
    using inv app by (auto simp: wal_inv_def)
  show "jn_files j @ [(jn_segSeq j + 1, bs)] = disk crc q b (rss @ [rs]) @ [(q + length (rss @ [rs]), bs)] @ []"
    using inv by (simp add: wal_inv_def)
  show "sorted (map fst (jn_files j @ [(jn_segSeq j + 1, bs)]))"
    using inv by (simp add: wal_inv_def disk_keys sorted_append del: upt_Suc)
  show "list_segments [(q + length (rss @ [rs]), bs)] = Inr [?seg]"
    using short by (simp add: readSegmentHeaderLSN_def)
  show "\<exists>segs j'. journal_replay crc ckpt f prev [?seg] j1 s' =
       (Some (WalContinuity (jn_segSeq j + 1) 0 (b + length (concat rss @ rs))), segs, j', s')"
    if "prev = (if rss @ [rs] = [] then 0 else b + length (concat (rss @ [rs])))" for prev j1
    using that inv short by (auto simp: journal_replay.simps replaySegment_def wal_inv_def Let_def)
qed simp

lemma oversized_append:
  assumes inv: "wal_inv crc q b rss rs j" and big: "length (jr_Key r) = 32" "MaxRecordBytes < length (jr_Value r)"
  shows "\<exists>j'. Append crc NoFault [r] j = (Inr (jn_lsn j + 1), j') \<and>
     jn_files j' = disk crc q b rss @ [(q + length rss, segment_header (b + length (concat rss)) @ encode_all crc rs @ encode_record crc r),
       (q + length rss + 1, segment_header (jn_lsn j + 1))]"
proof -
  have len: "length (encode_record crc r) = rec_size r" using big(1) by (rule length_encode_record)
  have "jn_segmentMax j \<le> jn_activeBytes j + rec_size r"
    using inv big(2) by (simp add: wal_inv_def defaultSegmentMaxBytes_def MaxRecordBytes_def journalRecordSize_def seg_size_def)
  then show ?thesis
    using inv
    by (simp add: Append_def Let_def wal_inv_def rollLocked_def createSegment_def len disk_append gput_last disk_absent
        map_add_def seg_bytes_def gput_new add.assoc)
qed

lemma oversized_open:
  assumes inv: "wal_inv crc q b rss rs j" and lsn: "jn_lsn j + 1 < 2 ^ 64"
    and r: "jr_Op r = opUpsert" "length (jr_Key r) = 32" "MaxRecordBytes < length (jr_Value r)" "length (jr_Value r) < 2 ^ 32"
    and app: "apply_log f ckpt b (concat rss @ rs) s = Some s'"
    and files: "files = disk crc q b rss @ [(q + length rss, segment_header (b + length (concat rss)) @ encode_all crc rs @ encode_record crc r),
       (q + length rss + 1, segment_header (jn_lsn j + 1))]"
  shows "\<exists>j'. openJournal crc files None rm ckpt minLSN f s = (Some (WalCorrupt (q + length rss)), j', s')"
proof -
  let ?B = "b + length (concat rss)" and ?x = "segment_header (b + length (concat rss)) @ encode_all crc rs @ encode_record crc r"
  let ?seg = "\<lparr>sg_seq = q + length rss, sg_base = ?B, sg_end = ?B, sg_size = length ?x\<rparr>"
  let ?seg2 = "\<lparr>sg_seq = q + length rss + 1, sg_base = jn_lsn j + 1, sg_end = jn_lsn j + 1, sg_size = walHeaderSize\<rparr>"
  have ok: "list_all (list_all rec_ok) rss" "list_all rec_ok rs" "?B < 2 ^ 64" using inv by (auto simp: wal_inv_def)
  from app obtain s1 where s1: "apply_log f ckpt b (concat rss) s = Some s1" "apply_log f ckpt ?B rs s1 = Some s'"
    by (auto simp: apply_log_append split: option.splits)
  have loop: "fst (replay_loop crc seq ckpt False f (encode_all crc rs @ encode_record crc r) ?B off s1) = Some (WalCorrupt seq)"
      "snd (snd (snd (replay_loop crc seq ckpt False f (encode_all crc rs @ encode_record crc r) ?B off s1))) = s'" for seq off
    using read_oversized [OF r, of crc "[]"]
    by (auto simp: replay_loop_then [OF ok(2) s1(2)] replay_loop.simps [of _ _ _ _ _ "encode_record crc r"])
  show ?thesis
  proof (rule open_prefix [where rss = rss and ys = "[(q + length rss + 1, segment_header (jn_lsn j + 1))]" and x = ?x and b = b and q = q,
        OF ok(1,3) s1(1)])
    show "files = disk crc q b rss @ [(q + length rss, ?x)] @ [(q + length rss + 1, segment_header (jn_lsn j + 1))]"
      using files by simp
    show "sorted (map fst files)" by (simp add: files disk_keys sorted_append del: upt_Suc)
    show "list_segments ((q + length rss, ?x) # [(q + length rss + 1, segment_header (jn_lsn j + 1))]) = Inr [?seg, ?seg2]"
      using read_header [of "jn_lsn j + 1" _ "[]"] lsn ok(3) by (simp add: read_header)
    show "\<exists>segs j'. journal_replay crc ckpt f prev [?seg, ?seg2] j1 s1 = (Some (WalCorrupt (q + length rss)), segs, j', s')"
      if "jn_files j1 = files" for prev j1
    proof -
      have "gget (jn_files j1) (q + length rss) = Some ?x" using that files by (simp add: disk_absent map_add_def)
      moreover obtain l off where "replay_loop crc (q + length rss) ckpt False f (encode_all crc rs @ encode_record crc r) ?B walHeaderSize s1 =
          (Some (WalCorrupt (q + length rss)), l, off, s')"
        using loop [of "q + length rss" walHeaderSize] by (metis prod.collapse)
      ultimately show ?thesis
        by (subst journal_replay.simps(2)) (simp add: replaySegment_def)
    qed
  qed simp
qed

text \<open>
  The acknowledged batches after a failed one: the failed batch has used sequence numbers that no
  record of the file carries.
\<close>

definition wal_drift :: "(bytes \<Rightarrow> 32 word) \<Rightarrow> nat \<Rightarrow> nat \<Rightarrow> journal_record list list \<Rightarrow> journal_record list \<Rightarrow> nat \<Rightarrow> journal \<Rightarrow> bool" where
  "wal_drift crc q b rss rs l j \<longleftrightarrow>
     jn_files j = disk crc q b (rss @ [rs]) \<and> jn_file j = OpenFile \<and> jn_segSeq j = q + length rss \<and>
     jn_lsn j = l \<and> jn_activeBytes j = seg_size rs \<and> jn_segmentMax j = defaultSegmentMaxBytes"

lemma failed_append_drift:
  assumes "wal_inv crc q b rss rs j" "rs1 \<noteq> []"
  shows "\<exists>j1. Append crc (WriteFault 0) rs1 j = (Inl WalWrite, j1) \<and> wal_drift crc q b rss rs (jn_lsn j + length rs1) j1"
  using assms
  by (auto simp: Append_def Let_def wal_inv_def wal_drift_def active_file disk_append gput_last disk_absent map_add_def)

lemma append_drift:
  assumes "wal_drift crc q b rss rs l j" "list_all rec_ok new" "seg_size rs + size_all new < defaultSegmentMaxBytes" "new \<noteq> []"
  shows "\<exists>j'. Append crc NoFault new j = (Inr (l + length new), j') \<and> wal_drift crc q b rss (rs @ new) (l + length new) j'"
  using assms length_encode_all [OF assms(2), of crc]
  by (auto simp: Append_def Let_def wal_drift_def active_file disk_append gput_last disk_absent map_add_def
      seg_bytes_def seg_size_def)

lemma disk_torn:
  "list_all rec_ok rs \<Longrightarrow> disk crc q b (rss @ [rs]) = torn_disk crc q b rss rs (size_all rs)"
  using length_encode_all [of rs crc] by (simp add: torn_disk_def disk_append seg_bytes_def)

section \<open>Properties\<close>

text \<open>
  The bytes read as a journal record are exactly the encoding of a well-formed record: what is
  written reads back, nothing else does, and the stream stands right after it.
\<close>

theorem journal_record_exact:
  "readJournalRecord crc bs = (Rec r, rest) \<longleftrightarrow> bs = encode_record crc r @ rest \<and> rec_ok r"
  using read_record_inv read_encode_record by blast

text \<open>
  C2. Crash recovery. After any run of appends, checkpoints, crashes and reopenings, a crash that
  leaves any number of bytes of the batch being written, and a reopening with a checkpoint not
  below the ones taken: the journal opens, and the callback sees every acknowledged record above
  the checkpoint and the complete records of the torn batch, in order and with their sequence
  numbers, and nothing more.
\<close>

theorem journal_recovers_acknowledged:
  assumes "reach (wal_start crc) (wal_step crc) (j, acked, c)"
    and "list_all rec_ok batch" "length acked + length batch < 2 ^ 64" "c \<le> ckpt" "minLSN \<le> length acked"
    and "apply_log f ckpt 0 (acked @ take (complete_records n batch) batch) s = Some s'"
  shows "\<exists>j'. openJournal crc (crash_files crc j n batch) None rm ckpt minLSN f s = (None, j', s') \<and>
     jn_lsn j' = length acked + complete_records n batch"
  using crash_open [OF waljournal.reach_inv [OF assms(1)] assms(2-6)] by blast

text \<open>
  C36. In every state of a run an append of well-formed records is acknowledged with the sequence
  number of its last record, a checkpoint succeeds, and the O(1) byte count, the sequence number
  and the segment count are those of the files.
\<close>

theorem journal_always_usable:
  assumes "reach (wal_start crc) (wal_step crc) (j, acked, c)"
    and "list_all rec_ok rs" "length acked + length rs < 2 ^ 64"
  shows "(\<exists>j'. Append crc NoFault rs j = (Inr (length acked + length rs), j')) \<and> (\<exists>j'. Checkpoint t j = (None, j')) \<and>
     walBytes j = int (sum_list (map (length \<circ> snd) (jn_files j))) \<and> CurrentLSN j = length acked \<and>
     segmentCount j = length (jn_files j)"
proof -
  note ok = waljournal.reach_inv [OF assms(1)]
  from wal_ok_append [OF ok assms(2,3)] wal_ok_checkpoint [OF ok, of t] wal_ok_files [OF ok] show ?thesis by blast
qed

text \<open>
  A crash while the next segment is created leaves a file shorter than its header. Although
  such a file is meant to count as an empty segment, opening the journal then fails: the short
  file is given base 0, which breaks continuity with the segments before it.
\<close>

theorem torn_creation_blocks_open:
  assumes "reach (wal_start crc) (wal_step crc) (j, acked, c)"
    and "acked \<noteq> []" "length bs < walHeaderSize" "c \<le> ckpt" "apply_log f ckpt 0 acked s = Some s'"
  shows "\<exists>j'. openJournal crc (jn_files j @ [(jn_segSeq j + 1, bs)]) None rm ckpt minLSN f s =
     (Some (WalContinuity (jn_segSeq j + 1) 0 (length acked)), j', s')"
proof -
  from wal_ok_obtain [OF assms(1)] obtain gone q rss rs where inv: "wal_inv crc q (length gone) rss rs j"
    and acked: "acked = gone @ concat rss @ rs" and gone: "length gone \<le> c" .
  have "apply_log f ckpt (length gone) (concat rss @ rs) s = Some s'"
    using assms(4,5) gone apply_log_skip [of 0 gone ckpt f s] by (simp add: acked apply_log_append)
  from torn_creation_open [OF inv _ this assms(3), of rm minLSN] assms(2) show ?thesis by (simp add: acked)
qed

text \<open>
  A value longer than the 8 MiB the reader accepts is acknowledged by the append, and the
  journal can then never be opened again: its segment is not the last one and holds a record that
  reads as corrupt.
\<close>

theorem oversized_value_blocks_open:
  assumes "reach (wal_start crc) (wal_step crc) (j, acked, c)" "length acked + 1 < 2 ^ 64"
    and "jr_Op r = opUpsert" "length (jr_Key r) = 32" "MaxRecordBytes < length (jr_Value r)" "length (jr_Value r) < 2 ^ 32"
    and "c \<le> ckpt" "apply_log f ckpt 0 acked s = Some s'"
  shows "\<exists>j' j''. Append crc NoFault [r] j = (Inr (length acked + 1), j') \<and>
     openJournal crc (jn_files j') None rm ckpt minLSN f s = (Some (WalCorrupt (jn_segSeq j)), j'', s')"
proof -
  from wal_ok_obtain [OF assms(1)] obtain gone q rss rs where inv: "wal_inv crc q (length gone) rss rs j"
    and acked: "acked = gone @ concat rss @ rs" and gone: "length gone \<le> c" .
  have app: "apply_log f ckpt (length gone) (concat rss @ rs) s = Some s'"
    using assms(7,8) gone apply_log_skip [of 0 gone ckpt f s] by (simp add: acked apply_log_append)
  have lsn: "jn_lsn j = length acked" "jn_segSeq j = q + length rss" using inv by (simp_all add: wal_inv_def acked)
  from oversized_append [OF inv assms(4,5)] oversized_open [OF inv _ assms(3-6) app refl] assms(2) show ?thesis
    by (auto simp: lsn)
qed

text \<open>
  A write that fails without reaching the file still uses up sequence numbers. A batch that is
  acknowledged two appends later is then lost by a recovery from the checkpoint at the append
  before it, although its own sequence numbers are above that checkpoint: the records of the file
  are counted from the segment's base, so they look older than they are.
\<close>

theorem failed_append_loses_acknowledged:
  assumes "reach (wal_start crc) (wal_step crc) (j, acked, c)"
    and "list_all rec_ok rs2" "list_all rec_ok rs3" "rs1 \<noteq> []" "rs2 \<noteq> []" "rs3 \<noteq> []" "length rs3 \<le> length rs1"
    and "length acked + length rs1 + length rs2 + length rs3 < 2 ^ 64" "minLSN \<le> length acked"
    and "jn_activeBytes j + size_all rs2 + size_all rs3 < jn_segmentMax j"
  shows "\<exists>j1 j2 j3 j4 l2 l3. Append crc (WriteFault 0) rs1 j = (Inl WalWrite, j1) \<and>
     Append crc NoFault rs2 j1 = (Inr l2, j2) \<and> Append crc NoFault rs3 j2 = (Inr l3, j3) \<and> l2 + length rs3 = l3 \<and>
     openJournal crc (jn_files j3) None rm l2 minLSN f s = (None, j4, s)"
proof -
  from wal_ok_obtain [OF assms(1)] obtain gone q rss rs where inv: "wal_inv crc q (length gone) rss rs j"
    and acked: "acked = gone @ concat rss @ rs" .
  have j: "jn_lsn j = length acked" "jn_activeBytes j = seg_size rs" "jn_segmentMax j = defaultSegmentMaxBytes"
    using inv by (simp_all add: wal_inv_def acked)
  from failed_append_drift [OF inv assms(4)] obtain j1 where
    j1: "Append crc (WriteFault 0) rs1 j = (Inl WalWrite, j1)" "wal_drift crc q (length gone) rss rs (jn_lsn j + length rs1) j1" by blast
  let ?l = "jn_lsn j + length rs1 + length rs2"
  from append_drift [OF j1(2) assms(2) _ assms(5)] assms(10) obtain j2 where
    j2: "Append crc NoFault rs2 j1 = (Inr ?l, j2)" "wal_drift crc q (length gone) rss (rs @ rs2) ?l j2" by (auto simp: j)
  from append_drift [OF j2(2) assms(3) _ assms(6)] assms(10) obtain j3 where
    j3: "Append crc NoFault rs3 j2 = (Inr (?l + length rs3), j3)" "wal_drift crc q (length gone) rss ((rs @ rs2) @ rs3) (?l + length rs3) j3"
    by (auto simp: j seg_size_def)
  let ?all = "(rs @ rs2) @ rs3"
  have ok: "list_all (list_all rec_ok) rss" "list_all rec_ok ?all" using inv assms(2,3) by (auto simp: wal_inv_def)
  have tk: "take (complete_records (size_all ?all) ?all) ?all = ?all" "complete_records (size_all ?all) ?all = length ?all"
    by (simp_all only: complete_records_all order_refl take_all)
  have files: "jn_files j3 = torn_disk crc q (length gone) rss ?all (size_all ?all)"
    using j3(2) disk_torn [OF ok(2)] by (simp only: wal_drift_def)
  have skip: "apply_log f ?l (length gone) (concat rss @ ?all) s = Some s"
    using assms(7) by (intro apply_log_skip) (simp add: j acked)
  have "\<exists>rss' rs' j'. openJournal crc (jn_files j3) None rm ?l minLSN f s = (None, j', s) \<and>
     wal_inv crc q (length gone) rss' rs' j' \<and> concat rss' @ rs' = concat rss @ take (complete_records (size_all ?all) ?all) ?all"
    unfolding files
  proof (rule open_torn [OF ok])
    show "apply_log f ?l (length gone) (concat rss @ take (complete_records (size_all ?all) ?all) ?all) s = Some s"
      unfolding tk(1) by (rule skip)
    show "minLSN \<le> length gone + length (concat rss) + complete_records (size_all ?all) ?all"
      unfolding tk(2) using assms(9) by (simp add: acked)
    show "length gone + length (concat rss) + length ?all < 2 ^ 64" using assms(8) by (simp add: acked)
  qed
  then obtain j4 where "openJournal crc (jn_files j3) None rm ?l minLSN f s = (None, j4, s)" by blast
  with j1(1) j2(1) j3(1) show ?thesis by blast
qed

section \<open>Instances\<close>

definition crc0 :: "bytes \<Rightarrow> 32 word" where "crc0 bs = 0"

definition put_a :: journal_record where
  "put_a = \<lparr>jr_Op = opUpsert, jr_Key = replicate 32 7, jr_Value = [1, 2, 3]\<rparr>"

definition del_a :: journal_record where
  "del_a = \<lparr>jr_Op = opDelete, jr_Key = replicate 32 7, jr_Value = []\<rparr>"

definition collect :: "(byte \<times> bytes \<times> nat) list replay_fn" where
  "collect op key v lsn s = Some (s @ [(op, v, lsn)])"

lemma record_sel [simp]:
  "jr_Op put_a = opUpsert" "jr_Value put_a = [1, 2, 3]" "jr_Key put_a = replicate 32 7"
  "jr_Op del_a = opDelete" "jr_Value del_a = []" "jr_Key del_a = replicate 32 7" "opUpsert \<noteq> opDelete"
  by (simp_all add: put_a_def del_a_def opUpsert_def opDelete_def)

lemma records_ok [simp]: "rec_ok put_a" "rec_ok del_a"
  by (simp_all add: rec_ok_def MaxRecordBytes_def)

lemma record_sizes [simp]: "journalRecordSize opUpsert [1, 2, 3] = 44" "journalRecordSize opDelete [] = 41"
  by (simp_all add: journalRecordSize_def)

lemma start_reachable: "\<exists>j. reach (wal_start crc) (wal_step crc) (j, [], 0) \<and> jn_activeBytes j = walHeaderSize \<and> jn_segmentMax j = defaultSegmentMaxBytes"
proof -
  from open_empty [of 0 crc True 0 "\<lambda>op key v lsn s. Some s" "()"] obtain j where
    j: "openJournal crc [] None True 0 0 (\<lambda>op key v lsn s. Some s) () = (None, j, ())" "wal_inv crc 0 0 [] [] j" by auto
  then have "reach (wal_start crc) (wal_step crc) (j, [], 0)" by (intro reach_init) (simp add: wal_start_def)
  with j(2) show ?thesis by (auto simp: wal_inv_def seg_size_def)
qed

lemma one_reachable: "\<exists>j. reach (wal_start crc) (wal_step crc) (j, [put_a], 0)"
proof -
  from start_reachable obtain j where j: "reach (wal_start crc) (wal_step crc) (j, [], 0)" by blast
  from wal_ok_append [OF waljournal.reach_inv [OF j], of "[put_a]"] obtain j' where
    "Append crc NoFault [put_a] j = (Inr 1, j')" by auto
  from wal_step.append [OF _ _ this, of "[]" 0] have "wal_step crc (j, [], 0) (j', [put_a], 0)" by simp
  with j show ?thesis by (blast intro: reach_step)
qed

theorem journal_recovers_acknowledged_witness:
  "\<exists>j j'. reach (wal_start crc0) (wal_step crc0) (j, [put_a], 0) \<and>
     openJournal crc0 (crash_files crc0 j 50 [del_a, put_a]) None True 0 0 collect [] =
       (None, j', [(opUpsert, [1, 2, 3], 1), (opDelete, [], 2)]) \<and> jn_lsn j' = 2"
proof -
  obtain j where j: "reach (wal_start crc0) (wal_step crc0) (j, [put_a], 0)" using one_reachable by blast
  have app: "apply_log collect 0 0 ([put_a] @ take (complete_records 50 [del_a, put_a]) [del_a, put_a]) [] =
      Some [(opUpsert, [1, 2, 3], 1), (opDelete, [], 2)]"
    by (simp add: collect_def)
  show ?thesis
    using journal_recovers_acknowledged [OF j _ _ _ _ app, of 0 True] j by auto
qed

theorem journal_always_usable_witness:
  "\<exists>j j'. reach (wal_start crc0) (wal_step crc0) (j, [put_a], 0) \<and> Append crc0 NoFault [del_a] j = (Inr (1 + 1), j')"
proof -
  obtain j where j: "reach (wal_start crc0) (wal_step crc0) (j, [put_a], 0)" using one_reachable by blast
  with journal_always_usable [OF j, of "[del_a]" 0] show ?thesis by auto
qed

theorem torn_creation_blocks_open_witness:
  "\<exists>(j :: journal) j'. openJournal crc0 (jn_files j @ [(jn_segSeq j + 1, [70, 73])]) None True 0 0 collect [] =
     (Some (WalContinuity (jn_segSeq j + 1) 0 1), j', [(opUpsert, [1, 2, 3], 1)])"
proof -
  obtain j where j: "reach (wal_start crc0) (wal_step crc0) (j, [put_a], 0)" using one_reachable by blast
  have app: "apply_log collect 0 0 [put_a] [] = Some [(opUpsert, [1, 2, 3], 1)]" by (simp add: collect_def)
  from torn_creation_blocks_open [OF j _ _ _ app, of "[70, 73]" True 0]
  show ?thesis by (simp add: walHeaderSize_def) blast
qed

theorem oversized_value_blocks_open_witness:
  "\<exists>j j' j''. Append crc0 NoFault [put_a\<lparr>jr_Value := replicate (MaxRecordBytes + 1) 0\<rparr>] j = (Inr (1 + 1), j') \<and>
     openJournal crc0 (jn_files j') None True 0 0 collect [] =
       (Some (WalCorrupt (jn_segSeq j)), j'', [(opUpsert, [1, 2, 3], 1)])"
proof -
  obtain j where j: "reach (wal_start crc0) (wal_step crc0) (j, [put_a], 0)" using one_reachable by blast
  have app: "apply_log collect 0 0 [put_a] [] = Some [(opUpsert, [1, 2, 3], 1)]" by (simp add: collect_def)
  have "MaxRecordBytes + 1 < 2 ^ 32" by (simp add: MaxRecordBytes_def)
  with oversized_value_blocks_open [OF j _ _ _ _ _ _ app, of "put_a\<lparr>jr_Value := replicate (MaxRecordBytes + 1) 0\<rparr>" True 0]
  show ?thesis by simp blast
qed

theorem failed_append_loses_acknowledged_witness:
  "\<exists>j j1 j2 j3 j4 l2 l3. Append crc0 (WriteFault 0) [put_a] j = (Inl WalWrite, j1) \<and>
     Append crc0 NoFault [put_a] j1 = (Inr l2, j2) \<and> Append crc0 NoFault [del_a] j2 = (Inr l3, j3) \<and> l2 + 1 = l3 \<and>
     openJournal crc0 (jn_files j3) None True l2 0 collect [] = (None, j4, [])"
proof -
  obtain j where j: "reach (wal_start crc0) (wal_step crc0) (j, [], 0)" "jn_activeBytes j = walHeaderSize" "jn_segmentMax j = defaultSegmentMaxBytes"
    using start_reachable by blast
  have "walHeaderSize + size_all [put_a] + size_all [del_a] < defaultSegmentMaxBytes"
    by (simp add: walHeaderSize_def defaultSegmentMaxBytes_def)
  with failed_append_loses_acknowledged [OF j(1), of "[put_a]" "[del_a]" "[put_a]" 0 True collect "[]"] j(2,3)
  show ?thesis by simp blast
qed

end
