(* ===== verification/StoreProps.thy ===== *)
theory StoreProps
  imports Store WalProps
begin

text \<open>
  Correctness of the store: the codecs of keys, of the index file and of record positions; the
  refinement of a map by runs of writes, deletes and interleaved flush stages; and the runs and
  crashes after which a deleted record is back or a live one gone.
\<close>

section \<open>Codecs\<close>

lemma hexNibble_hex_char: "n < 16 \<Longrightarrow> hexNibble (hex_char n) = Some n"
  by (auto simp: hexNibble_def hex_char_def Let_def)

lemma hex_char_hexNibble: "hexNibble c = Some n \<Longrightarrow> n < 16 \<and> hex_char n = c"
  by (auto simp: hexNibble_def hex_char_def Let_def split: if_splits)

lemma hex_pairs_encode: "hex_pairs (hex_encode bs) = Some bs"
proof (induction bs)
  case (Cons b bs)
  have "unat b div 16 < 16" "unat b mod 16 < 16" using unat_lt2p_byte [of b] by (simp_all add: less_mult_imp_div_less)
  moreover have "(of_nat (unat b div 16 * 16 + unat b mod 16) :: byte) = b" by (simp only: div_mult_mod_eq) simp
  ultimately show ?case using Cons by (simp add: hex_encode_def hexNibble_hex_char del: of_nat_add of_nat_mult)
qed (simp add: hex_encode_def)

lemma length_hex_encode [simp]: "length (hex_encode bs) = 2 * length bs"
  by (induction bs) (auto simp: hex_encode_def)

lemma hex_pairs_inv: "hex_pairs s = Some bs \<Longrightarrow> s = hex_encode bs"
proof (induction s arbitrary: bs rule: hex_pairs.induct)
  case (2 a b rest)
  then obtain hi lo bs' where p: "hexNibble a = Some hi" "hexNibble b = Some lo" "hex_pairs rest = Some bs'"
    "bs = of_nat (hi * 16 + lo) # bs'"
    by (auto split: option.splits)
  note hl = hex_char_hexNibble [OF p(1)] hex_char_hexNibble [OF p(2)]
  then have "unat (of_nat (hi * 16 + lo) :: byte) = hi * 16 + lo" by (simp only: unat_of_nat) simp
  moreover have "rest = hex_encode bs'" using 2 p(1-3) by blast
  ultimately show ?case using p(4) hl by (simp add: hex_encode_def del: of_nat_add of_nat_mult)
qed (auto simp: hex_encode_def)

text \<open>
  The keys the store accepts are exactly the 64 lower-case hexadecimal digits of a 32-byte
  fingerprint, and decoding inverts the encoding that iteration reports.
\<close>

theorem key_roundtrip: "decodeKey s = Some bin \<longleftrightarrow> s = encodeKey bin \<and> length bin = 32"
  using hex_pairs_encode [of bin] hex_pairs_inv [of s bin] by (auto simp: decodeKey_def encodeKey_def split: if_splits)

lemma length_index_row: "length k = 32 \<Longrightarrow> length (index_row (k, l)) = 44"
  by (simp add: index_row_def)

definition index_ok :: "(bytes, loc) gomap \<Rightarrow> bool" where
  "index_ok index \<longleftrightarrow> gmap_ok index \<and> length index < 2 ^ 32 \<and>
     (\<forall>(k, l) \<in> set index. length k = 32 \<and> loc_chunk l < 2 ^ 32 \<and> loc_offset l < 2 ^ 64)"

lemma gput_snoc: "k \<notin> fst ` set m \<Longrightarrow> gput k v m = m @ [(k, v)]"
  by (induction m) auto

lemma index_rows_read:
  assumes "gmap_ok (acc @ rows)" "\<forall>(k, l) \<in> set rows. length k = 32 \<and> loc_chunk l < 2 ^ 32 \<and> loc_offset l < 2 ^ 64"
  shows "index_rows (length rows) (concat (map index_row rows)) acc = acc @ rows"
  using assms
proof (induction rows arbitrary: acc)
  case (Cons e rows)
  obtain k l where e: "e = (k, l)" by (cases e)
  have len: "length k = 32" "loc_chunk l < 256 ^ 4" "loc_offset l < 256 ^ 8" using Cons.prems(2) e by auto
  have "k \<notin> fst ` set acc" using Cons.prems(1) by (auto simp: gmap_ok_def e)
  moreover have "drop 44 (index_row (k, l) @ xs) = xs" for xs using length_index_row [OF len(1), of l] by simp
  moreover have "gmap_ok ((acc @ [(k, l)]) @ rows)" using Cons.prems(1) e by simp
  moreover have "take 32 (index_row (k, l) @ xs) = k"
      "\<lparr>loc_chunk = get_le (take 4 (drop 32 (index_row (k, l) @ xs))), loc_offset = get_le (take 8 (drop 36 (index_row (k, l) @ xs)))\<rparr> = l" for xs
    using len by (simp_all add: index_row_def get_put_le)
  ultimately show ?case
    using Cons.IH [of "acc @ [(k, l)]"] Cons.prems(2)
    by (simp add: e indexEntrySize_def gput_snoc)
qed simp

text \<open>
  The index file reads back as the index that was written, entry by entry.
\<close>

theorem index_file_roundtrip:
  assumes "index_ok (st_index s)"
  shows "loadIndex (persistIndex s) = Some (persistIndex s)"
proof -
  let ?raw = "index_bytes (st_index s)"
  have len: "length (concat (map index_row idx)) = length idx * 44" if "\<forall>(k, l) \<in> set idx. length k = 32" for idx
    using that by (induction idx) (auto simp: length_index_row)
  have "\<forall>(k, l) \<in> set (st_index s). length k = 32" using assms by (auto simp: index_ok_def)
  note body = len [OF this]
  have cnt: "get_le (put_le 4 (length (st_index s))) = length (st_index s)"
    using assms by (intro get_put_le) (simp add: index_ok_def)
  have rows: "index_rows (length (st_index s)) (concat (map index_row (st_index s))) [] = st_index s"
    using index_rows_read [of "[]" "st_index s"] assms by (auto simp: index_ok_def)
  have "parse_index ?raw = Some (st_index s)"
    by (simp add: parse_index_def index_bytes_def indexMagic_def indexEntrySize_def body cnt rows nth_append)
  then show ?thesis by (simp add: loadIndex_def persistIndex_def)
qed

theorem index_file_roundtrip_witness:
  "loadIndex (persistIndex ((new_store \<lparr>dk_meta = MetaAbsent, dk_preserved = None, dk_index = None, dk_chunks = []\<rparr> 0 0)
       \<lparr>st_index := [(replicate 32 7, \<lparr>loc_chunk = 1, loc_offset = 20\<rparr>)]\<rparr>)) =
   Some (persistIndex ((new_store \<lparr>dk_meta = MetaAbsent, dk_preserved = None, dk_index = None, dk_chunks = []\<rparr> 0 0)
       \<lparr>st_index := [(replicate 32 7, \<lparr>loc_chunk = 1, loc_offset = 20\<rparr>)]\<rparr>))"
  by (rule index_file_roundtrip) (simp add: index_ok_def gmap_ok_def)

section \<open>Positions in a chunk\<close>

lemma readRecordAt_payload:
  assumes "length k = 32" "length (k @ v) \<le> MaxRecordBytes"
  shows "readRecordAt (pre @ put_le 4 (length (k @ v)) @ (k @ v) @ post) (length pre) = Inr v"
  using assms get_put_len [OF assms(2)] by (simp add: readRecordAt_def Let_def)

lemma write_locs_read:
  assumes "(k, l) \<in> set (zip (map fst kvs) (map (\<lambda>off. \<lparr>loc_chunk = seq, loc_offset = off\<rparr>) (offsets_from (length pre) (map (\<lambda>(k, v). k @ v) kvs))))"
    and "\<forall>(k, v) \<in> set kvs. length k = 32 \<and> length k + length v \<le> MaxRecordBytes"
  shows "loc_chunk l = seq \<and> (\<exists>v. (k, v) \<in> set kvs \<and> readRecordAt (pre @ chunk_payload (map (\<lambda>(k, v). k @ v) kvs)) (loc_offset l) = Inr v)"
  using assms
proof (induction kvs arbitrary: pre)
  case (Cons kv kvs)
  obtain k0 v0 where kv: "kv = (k0, v0)" by (cases kv)
  show ?case
  proof (cases "(k, l) = (k0, \<lparr>loc_chunk = seq, loc_offset = length pre\<rparr>)")
    case True
    with Cons.prems(2) readRecordAt_payload [of k0 v0 pre "chunk_payload (map (\<lambda>(k, v). k @ v) kvs)"] kv
    show ?thesis by auto
  next
    case False
    let ?pre = "pre @ put_le 4 (length (k0 @ v0)) @ (k0 @ v0)"
    have "length pre + 4 + length (k0 @ v0) = length ?pre" by simp
    with Cons.prems False kv Cons.IH [of ?pre] show ?thesis by (auto simp: add.assoc)
  qed
qed simp

lemma write_locs_keys: "fst ` set (write_locs seq kvs) = fst ` set kvs"
proof -
  have "length (offsets_from off rs) = length rs" for off rs by (induction rs arbitrary: off) auto
  then have "map fst (write_locs seq kvs) = map fst kvs" by (simp add: write_locs_def)
  then show ?thesis by (metis list.set_map)
qed

lemma chunk_locs:
  assumes "WriteChunk crc (map (\<lambda>(k, v). k @ v) kvs) 0 = Inr (bs, info)"
    and "\<forall>(k, v) \<in> set kvs. length k = 32 \<and> length k + length v \<le> MaxRecordBytes" "(k, l) \<in> set (write_locs seq kvs)"
  shows "loc_chunk l = seq \<and> (\<exists>v. (k, v) \<in> set kvs \<and> readRecordAt bs (loc_offset l) = Inr v)"
proof -
  obtain head where bs: "bs = head @ chunk_payload (map (\<lambda>(k, v). k @ v) kvs)" "length head = HeaderSize"
    using assms(1) by (auto simp: WriteChunk_def Let_def split: if_splits)
  show ?thesis
    using write_locs_read [of k l kvs seq head] assms(2,3) bs by (simp add: write_locs_def)
qed

lemma fold_gput_locs:
  "(\<exists>l. gget (fold (\<lambda>(k, l). gput k l) locs idx) k = Some l \<and> (k, l) \<in> set locs) \<or>
   (k \<notin> fst ` set locs \<and> gget (fold (\<lambda>(k, l). gput k l) locs idx) k = gget idx k)"
proof (induction locs arbitrary: idx)
  case (Cons e locs)
  show ?case using Cons [of "gput (fst e) (snd e) idx"] by (cases e) (force split: if_splits)
qed simp

lemma live_entries_iff: "(k, v) \<in> set (live_entries m) \<longleftrightarrow> table_state m k = LevelLive v"
proof -
  have picked: "(k, v) \<in> set (concat (map (\<lambda>bin. case f bin of Some (Some v) \<Rightarrow> [(bin, v)] | _ \<Rightarrow> []) ks)) \<longleftrightarrow>
      k \<in> set ks \<and> f k = Some (Some v)" for f ks
    by (induction ks) (auto split: option.splits)
  have "gget (mt_entries m) k = Some (Some v) \<Longrightarrow> k \<in> fst ` set (mt_entries m)" by (force dest: map_of_SomeD)
  moreover have "(k, v) \<in> set (live_entries m) \<longleftrightarrow> k \<in> fst ` set (mt_entries m) \<and> gget (mt_entries m) k = Some (Some v)"
    unfolding live_entries_def picked by simp
  ultimately show ?thesis
    by (auto simp: table_state_def split: option.splits)
qed

section \<open>Levels\<close>

definition table_live :: "memtable \<Rightarrow> bytes \<Rightarrow> bool" where
  "table_live m k \<longleftrightarrow> (\<exists>v. table_state m k = LevelLive v)"

definition table_ok :: "memtable \<Rightarrow> bool" where
  "table_ok m \<longleftrightarrow> (\<forall>k v. table_state m k = LevelLive v \<longrightarrow> length k = 32 \<and> 32 + length v \<le> MaxRecordBytes)"

text \<open>A tombstone hides nothing: no older level and no index entry has the key.\<close>

fun tombs_ok :: "(bytes, loc) gomap \<Rightarrow> memtable list \<Rightarrow> bool" where
  "tombs_ok index [] \<longleftrightarrow> True"
| "tombs_ok index (m # ms) \<longleftrightarrow>
     (\<forall>k. table_state m k = LevelTombstone \<longrightarrow> gget index k = None \<and> (\<forall>m' \<in> set ms. \<not> table_live m' k)) \<and> tombs_ok index ms"

lemma table_state_new [simp]: "table_state newMemtable k = LevelAbsent"
  by (simp add: table_state_def newMemtable_def)

lemma table_state_put: "v \<noteq> [] \<Longrightarrow> table_state (mt_put k v m) k' = (if k' = k then LevelLive v else table_state m k')"
  by (simp add: table_state_def mt_put_def)

lemma table_state_tombstone: "table_state (mt_tombstone k m) k' = (if k' = k then LevelTombstone else table_state m k')"
  by (simp add: table_state_def mt_tombstone_def)

lemma table_ok_new [simp]: "table_ok newMemtable"
  by (simp add: table_ok_def)

lemma table_ok_put:
  "table_ok m \<Longrightarrow> v \<noteq> [] \<Longrightarrow> length k = 32 \<Longrightarrow> 32 + length v \<le> MaxRecordBytes \<Longrightarrow> table_ok (mt_put k v m)"
  by (simp add: table_ok_def table_state_put)

lemma table_ok_tombstone: "table_ok m \<Longrightarrow> table_ok (mt_tombstone k m)"
  by (simp add: table_ok_def table_state_tombstone)

lemma tombs_ok_append:
  "tombs_ok index (ms @ ms') \<longleftrightarrow> tombs_ok index ms \<and> tombs_ok index ms' \<and>
     (\<forall>m \<in> set ms. \<forall>k. table_state m k = LevelTombstone \<longrightarrow> (\<forall>m' \<in> set ms'. \<not> table_live m' k))"
  by (induction ms) auto

lemma tombs_ok_index:
  "tombs_ok index ms \<Longrightarrow> (\<And>k. gget index' k \<noteq> None \<Longrightarrow> gget index k = None \<Longrightarrow> \<forall>m \<in> set ms. table_state m k \<noteq> LevelTombstone) \<Longrightarrow>
   tombs_ok index' ms"
  by (induction ms) (auto, metis not_Some_eq)

lemma first_state_append:
  "first_state (ms @ ms') k = (if first_state ms k \<noteq> LevelAbsent then first_state ms k else first_state ms' k)"
  by (induction ms) auto

lemma first_state_absent: "first_state ms k = LevelAbsent \<longleftrightarrow> (\<forall>m \<in> set ms. table_state m k = LevelAbsent)"
  by (induction ms) auto

lemma tombs_ok_first: "tombs_ok index ms \<Longrightarrow> first_state ms k = LevelTombstone \<Longrightarrow> gget index k = None \<and> (\<forall>m \<in> set ms. \<not> table_live m k)"
  by (induction ms) (auto simp: table_live_def split: if_splits)

section \<open>The map a store stands for\<close>

definition store_abs :: "store \<Rightarrow> bytes \<Rightarrow> bytes option" where
  "store_abs s k = (case store_get s k of Inl _ \<Rightarrow> None | Inr v \<Rightarrow> Some v)"

definition index_readable :: "store \<Rightarrow> bool" where
  "index_readable s \<longleftrightarrow> (\<forall>k l. gget (st_index s) k = Some l \<longrightarrow> (\<exists>v. readRecord s l = Inr v))"

definition chunks_below :: "store \<Rightarrow> bool" where
  "chunks_below s \<longleftrightarrow> (\<forall>seq. gget (dk_chunks (st_disk s)) seq \<noteq> None \<longrightarrow> seq \<le> st_nextSeq s)"

text \<open>What the flush worker is doing.\<close>

datatype flush_pc = FIdle | FBegun frozen_table | FWritten frozen_table nat chunk_info | FInstalled frozen_table

definition index_holds :: "store \<Rightarrow> memtable \<Rightarrow> bool" where
  "index_holds s m \<longleftrightarrow> (\<forall>k v. table_state m k = LevelLive v \<longrightarrow> (\<exists>l. gget (st_index s) k = Some l \<and> readRecord s l = Inr v))"

fun pc_ok :: "flush_pc \<Rightarrow> store \<Rightarrow> bool" where
  "pc_ok FIdle s \<longleftrightarrow> st_flushing s = None"
| "pc_ok (FBegun t) s \<longleftrightarrow> st_flushing s = Some t"
| "pc_ok (FWritten t seq info) s \<longleftrightarrow> st_flushing s = Some t \<and> seq \<le> st_nextSeq s \<and>
     (\<forall>(k, l) \<in> set (write_locs seq (live_entries (ft_table t))).
        \<exists>v. table_state (ft_table t) k = LevelLive v \<and> readRecord s l = Inr v)"
| "pc_ok (FInstalled t) s \<longleftrightarrow> st_flushing s = Some t \<and> index_holds s (ft_table t)"

definition store_inv :: "flush_pc \<Rightarrow> store \<Rightarrow> bool" where
  "store_inv pc s \<longleftrightarrow> (\<forall>m \<in> set (levels s). table_ok m) \<and> tombs_ok (st_index s) (levels s) \<and>
     index_readable s \<and> chunks_below s \<and> pc_ok pc s"

text \<open>The record the index gives, and how it combines with the levels.\<close>

definition index_value :: "store \<Rightarrow> bytes \<Rightarrow> bytes option" where
  "index_value s k = (case gget (st_index s) k of None \<Rightarrow> None | Some l \<Rightarrow> (case readRecord s l of Inl _ \<Rightarrow> None | Inr v \<Rightarrow> Some v))"

fun level_result :: "level_state \<Rightarrow> bytes option \<Rightarrow> bytes option" where
  "level_result LevelAbsent d = d"
| "level_result (LevelLive v) d = Some v"
| "level_result LevelTombstone d = None"

lemma store_abs_eq: "store_abs s k = level_result (first_state (levels s) k) (index_value s k)"
  by (simp add: store_abs_def store_get_def lookupLevels_def index_value_def split: level_state.split option.split)

lemma index_value_cong: "st_index s' = st_index s \<Longrightarrow> readRecord s' = readRecord s \<Longrightarrow> index_value s' = index_value s"
  unfolding index_value_def by (rule ext) presburger

text \<open>The result of \<open>Get\<close> from the map.\<close>

lemma store_get_abs:
  assumes "index_readable s"
  shows "store_get s k = (case store_abs s k of None \<Rightarrow> Inl ErrNotFound | Some v \<Rightarrow> Inr v)"
proof (cases "first_state (levels s) k")
  case LevelAbsent
  show ?thesis
  proof (cases "gget (st_index s) k")
    case (Some l)
    with assms obtain v where "readRecord s l = Inr v" by (auto simp: index_readable_def)
    with LevelAbsent Some show ?thesis by (simp add: store_abs_eq index_value_def store_get_def lookupLevels_def)
  qed (use LevelAbsent in \<open>simp add: store_abs_eq index_value_def store_get_def lookupLevels_def\<close>)
qed (simp_all add: store_abs_eq store_get_def lookupLevels_def)

section \<open>Operations and the map\<close>

text \<open>What the read path depends on; operations that keep it keep the map and the invariant.\<close>

definition same_view :: "store \<Rightarrow> store \<Rightarrow> bool" where
  "same_view s s' \<longleftrightarrow> levels s' = levels s \<and> st_index s' = st_index s \<and> dk_chunks (st_disk s') = dk_chunks (st_disk s) \<and>
     st_nextSeq s' = st_nextSeq s \<and> st_flushing s' = st_flushing s"

lemma readRecord_disk: "dk_chunks (st_disk s') = dk_chunks (st_disk s) \<Longrightarrow> readRecord s' = readRecord s"
  by (rule ext) (simp add: readRecord_def)

lemma pc_ok_frame:
  assumes "st_flushing s' = st_flushing s" "st_index s' = st_index s" "readRecord s' = readRecord s" "st_nextSeq s' = st_nextSeq s"
  shows "pc_ok pc s' = pc_ok pc s"
  using assms by (cases pc) (simp_all add: index_holds_def)

lemma same_view_inv:
  assumes "same_view s s'" "store_inv pc s"
  shows "store_inv pc s' \<and> store_abs s' = store_abs s"
proof -
  have rd: "readRecord s' = readRecord s" using assms(1) by (intro readRecord_disk) (simp add: same_view_def)
  then have "store_abs s' = store_abs s"
    using assms(1) index_value_cong [of s' s] by (intro ext) (simp add: store_abs_eq same_view_def)
  moreover have "pc_ok pc s' = pc_ok pc s" using assms(1) rd by (intro pc_ok_frame) (simp_all add: same_view_def)
  ultimately show ?thesis
    using assms rd by (simp add: store_inv_def index_readable_def chunks_below_def same_view_def)
qed

lemma levels_cong: "st_active s' = st_active s \<Longrightarrow> st_frozen s' = st_frozen s \<Longrightarrow> st_flushing s' = st_flushing s \<Longrightarrow> levels s' = levels s"
  by (simp add: levels_def)

lemma mark_dead_frame [simp]:
  "st_active (mark_dead k s) = st_active s" "st_frozen (mark_dead k s) = st_frozen s" "st_flushing (mark_dead k s) = st_flushing s"
  "st_index (mark_dead k s) = st_index s" "st_disk (mark_dead k s) = st_disk s" "st_nextSeq (mark_dead k s) = st_nextSeq s"
  "st_wal (mark_dead k s) = st_wal s" "st_lsn (mark_dead k s) = st_lsn s" "st_closed (mark_dead k s) = st_closed s"
  by (simp_all add: mark_dead_def split: option.splits)

definition older_levels :: "store \<Rightarrow> memtable list" where
  "older_levels s = rev (map ft_table (st_frozen s)) @ flushing_tables s"

lemma levels_older: "levels s = st_active s # older_levels s"
  by (simp add: levels_def older_levels_def)

lemma upsert_view:
  "st_active (applyUpsert k v s) = mt_put k v (st_active s)" "older_levels (applyUpsert k v s) = older_levels s"
  "st_index (applyUpsert k v s) = st_index s" "st_disk (applyUpsert k v s) = st_disk s"
  "st_nextSeq (applyUpsert k v s) = st_nextSeq s" "st_flushing (applyUpsert k v s) = st_flushing s"
  "st_frozen (applyUpsert k v s) = st_frozen s"
  by (simp_all add: applyUpsert_def older_levels_def)

lemma applyUpsert_refines:
  assumes inv: "store_inv pc s" and ok: "v \<noteq> []" "length k = 32" "32 + length v \<le> MaxRecordBytes"
  shows "store_inv pc (applyUpsert k v s) \<and> store_abs (applyUpsert k v s) = (store_abs s)(k \<mapsto> v)"
proof -
  let ?s = "applyUpsert k v s"
  have lv: "levels ?s = mt_put k v (st_active s) # older_levels s" "levels s = st_active s # older_levels s"
    by (simp_all add: levels_older upsert_view)
  have rd: "readRecord ?s = readRecord s" by (rule readRecord_disk) (simp add: upsert_view)
  have "pc_ok pc ?s = pc_ok pc s" by (rule pc_ok_frame) (simp_all add: rd upsert_view)
  moreover have "store_abs ?s = (store_abs s)(k \<mapsto> v)"
    using index_value_cong [of ?s s] by (intro ext) (simp add: store_abs_eq lv rd upsert_view table_state_put [OF ok(1)])
  moreover have "tombs_ok (st_index s) (levels ?s)"
    using inv by (simp add: store_inv_def lv table_state_put [OF ok(1)])
  moreover have "\<forall>m \<in> set (levels ?s). table_ok m"
    using inv ok by (simp add: store_inv_def lv table_ok_put)
  ultimately show ?thesis
    using inv by (simp add: store_inv_def index_readable_def chunks_below_def rd upsert_view)
qed

text \<open>A delete is safe when no older level holds the key live.\<close>

definition delete_safe :: "store \<Rightarrow> bytes \<Rightarrow> bool" where
  "delete_safe s k \<longleftrightarrow> (\<forall>m \<in> set (older_levels s). \<not> table_live m k)"

lemma pc_ok_delete:
  assumes "pc_ok pc s" "delete_safe s k" "st_flushing s' = st_flushing s" "st_nextSeq s' = st_nextSeq s"
    "readRecord s' = readRecord s" "st_index s' = gdel k (st_index s)"
  shows "pc_ok pc s'"
proof (cases pc)
  case (FInstalled t)
  then have "\<not> table_live (ft_table t) k" using assms(1,2) by (simp add: delete_safe_def older_levels_def)
  with FInstalled assms show ?thesis by (auto simp: index_holds_def table_live_def)
qed (use assms in simp_all)

lemma tombs_ok_delete: "tombs_ok index ms \<Longrightarrow> tombs_ok (gdel k index) ms"
  by (rule tombs_ok_index) (auto split: if_splits)

lemma applyDelete_refines:
  assumes inv: "store_inv pc s" and safe: "delete_safe s k"
  shows "store_inv pc (applyDelete k s) \<and> store_abs (applyDelete k s) = (store_abs s)(k := None)"
proof (cases "lookupLevels s k = LevelAbsent \<and> gget (st_index s) k = None")
  case True
  then have "store_abs s k = None" by (simp add: store_abs_eq lookupLevels_def index_value_def)
  with True inv show ?thesis by (auto simp: applyDelete_def fun_upd_idem)
next
  case False
  let ?s = "(mark_dead k s)\<lparr>st_index := gdel k (st_index s), st_active := mt_tombstone k (st_active s)\<rparr>"
  have eq: "applyDelete k s = ?s" using False by (auto simp: applyDelete_def)
  have lv: "levels ?s = mt_tombstone k (st_active s) # older_levels s" "levels s = st_active s # older_levels s"
    by (simp_all add: levels_older) (simp add: older_levels_def)
  have rd: "readRecord ?s = readRecord s" by (rule readRecord_disk) simp
  have "pc_ok pc s" using inv by (simp add: store_inv_def)
  from this safe have "pc_ok pc ?s" by (rule pc_ok_delete) (simp_all add: rd)
  moreover have "store_abs ?s = (store_abs s)(k := None)"
  proof
    fix k'
    have "index_value ?s k' = (if k' = k then None else index_value s k')" unfolding index_value_def rd by simp
    then show "store_abs ?s k' = ((store_abs s)(k := None)) k'" by (simp add: store_abs_eq lv table_state_tombstone)
  qed
  moreover have "tombs_ok (gdel k (st_index s)) (levels ?s)"
    using inv safe by (simp add: store_inv_def lv table_state_tombstone delete_safe_def tombs_ok_delete)
  moreover have "index_readable ?s" using inv unfolding store_inv_def index_readable_def rd by simp
  moreover have "\<forall>m \<in> set (levels ?s). table_ok m" using inv by (simp add: store_inv_def lv table_ok_tombstone)
  ultimately show ?thesis
    unfolding eq using inv by (simp add: store_inv_def chunks_below_def)
qed

lemma freeze_refines:
  assumes inv: "store_inv pc s"
  shows "store_inv pc (freezeLocked s) \<and> store_abs (freezeLocked s) = store_abs s"
proof (cases "mt_len (st_active s) = 0")
  case False
  have lv: "levels (freezeLocked s) = newMemtable # levels s" using False by (simp add: freezeLocked_def levels_def)
  have v: "st_index (freezeLocked s) = st_index s" "st_disk (freezeLocked s) = st_disk s" "st_nextSeq (freezeLocked s) = st_nextSeq s"
    "st_flushing (freezeLocked s) = st_flushing s" by (simp_all add: freezeLocked_def)
  then have rd: "readRecord (freezeLocked s) = readRecord s" by (intro readRecord_disk) simp
  have "pc_ok pc (freezeLocked s) = pc_ok pc s" by (rule pc_ok_frame) (simp_all add: rd v)
  moreover have "store_abs (freezeLocked s) = store_abs s" 
    using index_value_cong [of "freezeLocked s" s] by (intro ext) (simp add: store_abs_eq lv rd v)
  ultimately show ?thesis
    using inv by (simp add: store_inv_def lv v index_readable_def chunks_below_def rd)
qed (use inv in \<open>simp add: freezeLocked_def\<close>)

section \<open>The stages of a flush\<close>

lemma begin_refines:
  assumes inv: "store_inv FIdle s" and b: "flush_begin s = Some (t, s')"
  shows "store_inv (FBegun t) s' \<and> store_abs s' = store_abs s"
proof -
  from b obtain fs where fs: "st_frozen s = t # fs" "st_flushing s = None" "s' = s\<lparr>st_frozen := fs, st_flushing := Some t\<rparr>"
    by (cases "st_frozen s") (auto simp: flush_begin_def split: if_splits)
  then have lv: "levels s' = levels s" by (simp add: levels_def)
  have v: "st_index s' = st_index s" "st_disk s' = st_disk s" "st_nextSeq s' = st_nextSeq s" "st_flushing s' = Some t" by (simp_all add: fs)
  then have rd: "readRecord s' = readRecord s" by (intro readRecord_disk) simp
  have "store_abs s' = store_abs s" using index_value_cong [OF v(1) rd] by (intro ext) (simp add: store_abs_eq lv)
  with inv show ?thesis by (simp add: store_inv_def lv v index_readable_def chunks_below_def rd)
qed

lemma chunk_reads:
  assumes below: "chunks_below s" and c: "flush_chunk crc fault kvs s = (r, s')"
  shows "st_active s' = st_active s" "st_frozen s' = st_frozen s" "st_flushing s' = st_flushing s" "st_index s' = st_index s"
    "chunks_below s'" "\<And>l v. readRecord s l = Inr v \<Longrightarrow> readRecord s' l = Inr v"
proof -
  have d: "st_active s' = st_active s" "st_frozen s' = st_frozen s" "st_flushing s' = st_flushing s" "st_index s' = st_index s"
      "st_nextSeq s' = st_nextSeq s + 1"
      "dk_chunks (st_disk s') = dk_chunks (st_disk s) \<or> (\<exists>bs. dk_chunks (st_disk s') = gput (st_nextSeq s + 1) bs (dk_chunks (st_disk s)))"
    using c by (auto simp: flush_chunk_def nextSequence_def split: if_splits sum.splits prod.splits)
  show "st_active s' = st_active s" "st_frozen s' = st_frozen s" "st_flushing s' = st_flushing s" "st_index s' = st_index s" by (rule d)+
  show "chunks_below s'" using below d(5,6) unfolding chunks_below_def by (auto split: if_splits) (meson le_SucI option.discI)+
  have new: "gget (dk_chunks (st_disk s)) (st_nextSeq s + 1) = None" using below by (auto simp: chunks_below_def)
  show "readRecord s' l = Inr v" if "readRecord s l = Inr v" for l v
    using that d(6) new by (auto simp: readRecord_def split: option.splits if_splits)
qed

lemma chunk_frame:
  assumes below: "chunks_below s" and readable: "index_readable s"
    and c: "flush_chunk crc fault kvs s = (r, s')"
  shows "levels s' = levels s" "st_index s' = st_index s" "st_flushing s' = st_flushing s" "chunks_below s'" "index_readable s'"
    "index_value s' = index_value s"
proof -
  note d = chunk_reads [OF below c]
  show "st_index s' = st_index s" "st_flushing s' = st_flushing s" "chunks_below s'" by (rule d)+
  show "levels s' = levels s" by (simp add: levels_def d)
  show "index_readable s'" using readable d(6) unfolding index_readable_def d(4) by blast
  show "index_value s' = index_value s"
  proof
    fix k
    show "index_value s' k = index_value s k"
    proof (cases "gget (st_index s) k")
      case (Some l)
      with readable obtain v where "readRecord s l = Inr v" by (auto simp: index_readable_def)
      with d(6) Some show ?thesis by (simp add: index_value_def d(4))
    qed (simp add: index_value_def d(4))
  qed
qed

lemma index_holds_keep:
  "index_holds s m \<Longrightarrow> st_index s' = st_index s \<Longrightarrow> (\<And>l v. readRecord s l = Inr v \<Longrightarrow> readRecord s' l = Inr v) \<Longrightarrow> index_holds s' m"
  unfolding index_holds_def by metis

text \<open>Where the records of a written table are.\<close>

lemma chunk_written:
  assumes "flush_chunk crc fault (live_entries m) s = (Inr (seq, info), s')" "table_ok m" "(k, l) \<in> set (write_locs seq (live_entries m))"
  shows "\<exists>v. table_state m k = LevelLive v \<and> readRecord s' l = Inr v"
proof -
  obtain bs where w: "WriteChunk crc (map (\<lambda>(k, v). k @ v) (live_entries m)) 0 = Inr (bs, info)"
    and seq: "gget (dk_chunks (st_disk s')) seq = Some bs"
    using assms(1) by (auto simp: flush_chunk_def nextSequence_def split: if_splits sum.splits prod.splits)
  have ok: "\<forall>(k, v) \<in> set (live_entries m). length k = 32 \<and> length k + length v \<le> MaxRecordBytes"
    using assms(2) by (auto simp: table_ok_def live_entries_iff)
  show ?thesis using chunk_locs [OF w ok assms(3)] seq by (auto simp: live_entries_iff readRecord_def)
qed

text \<open>What registering it does to the index: the live keys of the table point to their values, the others stay.\<close>

lemma install_index:
  assumes "\<And>k l. (k, l) \<in> set (write_locs seq (live_entries m)) \<Longrightarrow> \<exists>v. table_state m k = LevelLive v \<and> readRecord s l = Inr v"
  shows "(\<exists>l v. gget (st_index (flush_install seq info (live_entries m) lsn s)) k = Some l \<and> table_state m k = LevelLive v \<and> readRecord s l = Inr v) \<or>
      (\<not> table_live m k \<and> gget (st_index (flush_install seq info (live_entries m) lsn s)) k = gget (st_index s) k)"
proof -
  have "table_live m k \<longleftrightarrow> k \<in> fst ` set (write_locs seq (live_entries m))"
    unfolding write_locs_keys by (force simp: table_live_def simp flip: live_entries_iff)
  with fold_gput_locs [of "write_locs seq (live_entries m)" "st_index s" k] assms show ?thesis
    by (simp add: flush_install_def) blast
qed

lemma chunk_refines:
  assumes inv: "store_inv (FBegun t) s"
    and c: "flush_chunk crc fault (live_entries (ft_table t)) s = (Inr (seq, info), s')"
  shows "store_inv (FWritten t seq info) s' \<and> store_abs s' = store_abs s"
proof -
  have fl: "st_flushing s = Some t" using inv by (simp add: store_inv_def)
  have b: "chunks_below s" "index_readable s" using inv by (simp_all add: store_inv_def)
  note f = chunk_frame [OF b c]
  have seq: "st_nextSeq s' = seq"
    using c by (auto simp: flush_chunk_def nextSequence_def split: if_splits sum.splits prod.splits)
  have "table_ok (ft_table t)" using inv fl by (simp add: store_inv_def levels_def)
  note chunk_written [OF c this]
  then have "pc_ok (FWritten t seq info) s'" using fl f(3) seq by auto
  moreover have "store_abs s' = store_abs s" by (rule ext) (simp add: store_abs_eq f)
  ultimately show ?thesis using inv f by (simp add: store_inv_def)
qed

lemma end_refines:
  assumes inv: "store_inv pc s" and fl: "st_flushing s = Some t"
    and ok: "(err \<noteq> None \<and> \<not> st_stopping s) \<or> index_holds s (ft_table t)"
  shows "store_inv FIdle (flush_end t err s) \<and> store_abs (flush_end t err s) = store_abs s"
proof -
  let ?s = "flush_end t err s"
  have v: "st_index ?s = st_index s" "st_disk ?s = st_disk s" "st_nextSeq ?s = st_nextSeq s" "st_flushing ?s = None"
    by (simp_all add: flush_end_def Let_def split: option.splits)
  then have rd: "readRecord ?s = readRecord s" by (intro readRecord_disk) simp
  note iv = index_value_cong [OF v(1) rd]
  show ?thesis
  proof (cases "err \<noteq> None \<and> \<not> st_stopping s")
    case True
    then have lv: "levels ?s = levels s" using fl by (auto simp: flush_end_def levels_def Let_def)
    then have "store_abs ?s = store_abs s" using iv by (intro ext) (simp add: store_abs_eq)
    with inv lv v rd show ?thesis by (simp add: store_inv_def index_readable_def chunks_below_def)
  next
    case False
    let ?ms = "st_active s # rev (map ft_table (st_frozen s))"
    have lv: "levels ?s = ?ms" "levels s = ?ms @ [ft_table t]"
      using False fl by (auto simp: flush_end_def levels_def Let_def split: option.splits)
    have holds: "index_holds s (ft_table t)" using ok False by auto
    have tombs: "tombs_ok (st_index s) (?ms @ [ft_table t])" using inv by (simp add: store_inv_def lv(2))
    have "store_abs ?s k = store_abs s k" for k
    proof (cases "first_state ?ms k = LevelAbsent")
      case True
      have "level_result (table_state (ft_table t) k) (index_value s k) = index_value s k"
      proof (cases "table_state (ft_table t) k")
        case LevelTombstone
        then have "gget (st_index s) k = None" using tombs by (simp add: tombs_ok_append)
        then show ?thesis by (simp add: index_value_def LevelTombstone)
      next
        case (LevelLive v)
        then obtain l where "gget (st_index s) k = Some l" "readRecord s l = Inr v" using holds by (auto simp: index_holds_def)
        then show ?thesis by (simp add: index_value_def LevelLive)
      qed simp
      with True show ?thesis by (simp add: store_abs_eq lv iv first_state_append del: append.simps)
    qed (simp add: store_abs_eq lv iv first_state_append del: append.simps)
    then have "store_abs ?s = store_abs s" by (rule ext)
    moreover have "tombs_ok (st_index s) ?ms" using tombs unfolding tombs_ok_append by blast
    ultimately show ?thesis
      using inv lv v rd by (simp add: store_inv_def index_readable_def chunks_below_def)
  qed
qed

lemma install_refines:
  assumes inv: "store_inv (FWritten t seq info) s"
  shows "store_inv (FInstalled t) (flush_install seq info (live_entries (ft_table t)) lsn s) \<and>
     store_abs (flush_install seq info (live_entries (ft_table t)) lsn s) = store_abs s"
proof -
  let ?locs = "write_locs seq (live_entries (ft_table t))" and ?s = "flush_install seq info (live_entries (ft_table t)) lsn s"
  have fl: "st_flushing s = Some t" and locs: "\<And>k l. (k, l) \<in> set ?locs \<Longrightarrow> \<exists>v. table_state (ft_table t) k = LevelLive v \<and> readRecord s l = Inr v"
    using inv by (auto simp: store_inv_def)
  have v: "levels ?s = levels s" "st_disk ?s = st_disk s" "st_nextSeq ?s = st_nextSeq s" "st_flushing ?s = Some t"
    by (simp_all add: flush_install_def levels_def fl)
  then have rd: "readRecord ?s = readRecord s" by (intro readRecord_disk) simp
  note idx = install_index [where seq = seq and info = info and lsn = lsn, OF locs]
  have holds: "index_holds ?s (ft_table t)"
    unfolding index_holds_def rd
  proof (intro allI impI)
    fix k v assume "table_state (ft_table t) k = LevelLive v"
    with idx [where k = k] show "\<exists>l. gget (st_index ?s) k = Some l \<and> readRecord s l = Inr v" by (auto simp: table_live_def)
  qed
  have lv: "levels s = (st_active s # rev (map ft_table (st_frozen s))) @ [ft_table t]" by (simp add: levels_def fl)
  have tombs: "tombs_ok (st_index s) (levels s)" using inv by (simp add: store_inv_def)
  have "tombs_ok (st_index ?s) (levels s)"
  proof (rule tombs_ok_index [OF tombs], rule ballI, rule notI)
    fix k m assume k: "gget (st_index ?s) k \<noteq> None" "gget (st_index s) k = None"
      and m: "m \<in> set (levels s)" "table_state m k = LevelTombstone"
    from idx [where k = k] k have live: "table_live (ft_table t) k" by (auto simp: table_live_def)
    from m tombs live show False
      unfolding lv tombs_ok_append by (auto simp: table_live_def)
  qed
  moreover have "index_readable ?s"
    unfolding index_readable_def rd
  proof (intro allI impI)
    fix k l assume "gget (st_index ?s) k = Some l"
    moreover have "index_readable s" using inv by (simp add: store_inv_def)
    ultimately show "\<exists>v. readRecord s l = Inr v" using idx [where k = k] by (auto simp: index_readable_def)
  qed
  moreover have "store_abs ?s k = store_abs s k" for k
  proof (cases "first_state (levels s) k = LevelAbsent")
    case True
    then have "table_state (ft_table t) k = LevelAbsent" unfolding first_state_absent lv by simp
    then have "\<not> table_live (ft_table t) k" by (simp add: table_live_def)
    with idx [where k = k] have "gget (st_index ?s) k = gget (st_index s) k" by (auto simp: table_live_def)
    then have "index_value ?s k = index_value s k" unfolding index_value_def rd by simp
    with True show ?thesis by (simp add: store_abs_eq v)
  qed (cases "first_state (levels s) k"; simp add: store_abs_eq v)
  ultimately show ?thesis
    using inv holds by (auto simp: store_inv_def v chunks_below_def)
qed

section \<open>Runs\<close>

text \<open>
  The callers' operations and the stages of the flush worker as interleaved steps. A step carries
  the change the caller was promised: the records of an acknowledged batch, the key of an
  acknowledged delete, or nothing.
\<close>

datatype store_event = EvUpsert "journal_record list" | EvDelete bytes | EvNone

definition small_batch :: "(string \<times> bytes) list \<Rightarrow> bool" where
  "small_batch pairs \<longleftrightarrow> list_all (\<lambda>(key, v). 32 + length v \<le> MaxRecordBytes) pairs"

inductive store_step :: "(bytes \<Rightarrow> 32 word) \<Rightarrow> store_event \<Rightarrow> flush_pc \<times> store \<Rightarrow> flush_pc \<times> store \<Rightarrow> bool" for crc where
  upsert_ok: "small_batch pairs \<Longrightarrow> UpsertBatch crc fault pairs s = (None, th, s') \<Longrightarrow> batch_records pairs = Inr rs \<Longrightarrow>
     store_step crc (EvUpsert rs) (pc, s) (pc, s')"
| upsert_fails: "UpsertBatch crc fault pairs s = (Some e, th, s') \<Longrightarrow> store_step crc EvNone (pc, s) (pc, s')"
| delete_ok: "decodeKey key = Some bin \<Longrightarrow> delete_safe s bin \<Longrightarrow> store_Delete crc fault key s = (None, s') \<Longrightarrow>
     store_step crc (EvDelete bin) (pc, s) (pc, s')"
| delete_fails: "store_Delete crc fault key s = (Some e, s') \<Longrightarrow> store_step crc EvNone (pc, s) (pc, s')"
| count: "store_Count s = (n, s') \<Longrightarrow> store_step crc EvNone (pc, s) (pc, s')"
| freeze: "store_step crc EvNone (pc, s) (pc, freezeLocked s)"
| flush_take: "flush_begin s = Some (t, s') \<Longrightarrow> store_step crc EvNone (FIdle, s) (FBegun t, s')"
| flush_write: "live_entries (ft_table t) \<noteq> [] \<Longrightarrow> flush_chunk crc fault (live_entries (ft_table t)) s = (Inr (seq, info), s') \<Longrightarrow>
     store_step crc EvNone (FBegun t, s) (FWritten t seq info, s')"
| flush_write_fails: "flush_chunk crc fault (live_entries (ft_table t)) s = (Inl e, s') \<Longrightarrow> \<not> st_stopping s \<Longrightarrow>
     store_step crc EvNone (FBegun t, s) (FIdle, flush_end t (Some e) s')"
| flush_register: "store_step crc EvNone (FWritten t seq info, s) (FInstalled t, flush_install seq info (live_entries (ft_table t)) (ft_lsn t) s)"
| flush_empty: "live_entries (ft_table t) = [] \<Longrightarrow> store_step crc EvNone (FBegun t, s) (FInstalled t, s\<lparr>st_checkpointLSN := ft_lsn t\<rparr>)"
| flush_index: "store_step crc EvNone (FInstalled t, s) (FInstalled t, persistIndex s)"
| flush_registry: "store_step crc EvNone (FInstalled t, s) (FInstalled t, persistMeta s)"
| flush_journal: "flush_checkpoint (ft_lsn t) s = (e, s') \<Longrightarrow> store_step crc EvNone (FInstalled t, s) (FInstalled t, s')"
| flush_done: "store_step crc EvNone (FInstalled t, s) (FIdle, flush_end t err s)"

text \<open>The specification: a map from keys to values.\<close>

fun map_event :: "store_event \<Rightarrow> (bytes \<Rightarrow> bytes option) \<Rightarrow> (bytes \<Rightarrow> bytes option)" where
  "map_event (EvUpsert rs) m = fold (\<lambda>r m. m(jr_Key r \<mapsto> jr_Value r)) rs m"
| "map_event (EvDelete bin) m = m(bin := None)"
| "map_event EvNone m = m"

lemma batch_records_ok:
  "batch_records pairs = Inr rs \<Longrightarrow> small_batch pairs \<Longrightarrow>
   \<forall>r \<in> set rs. jr_Value r \<noteq> [] \<and> length (jr_Key r) = 32 \<and> 32 + length (jr_Value r) \<le> MaxRecordBytes"
  by (induction pairs arbitrary: rs rule: batch_records.induct)
    (auto simp: small_batch_def key_roundtrip split: if_splits option.splits sum.splits)

lemma fold_upsert_refines:
  assumes "store_inv pc s" "\<forall>r \<in> set rs. jr_Value r \<noteq> [] \<and> length (jr_Key r) = 32 \<and> 32 + length (jr_Value r) \<le> MaxRecordBytes"
  shows "store_inv pc (fold (\<lambda>r. applyUpsert (jr_Key r) (jr_Value r)) rs s) \<and>
     store_abs (fold (\<lambda>r. applyUpsert (jr_Key r) (jr_Value r)) rs s) = map_event (EvUpsert rs) (store_abs s)"
  using assms
proof (induction rs arbitrary: s)
  case (Cons r rs)
  then have "store_inv pc (applyUpsert (jr_Key r) (jr_Value r) s)"
    "store_abs (applyUpsert (jr_Key r) (jr_Value r) s) = (store_abs s)(jr_Key r \<mapsto> jr_Value r)"
    using applyUpsert_refines [OF Cons.prems(1)] by auto
  with Cons.IH [OF this(1)] Cons.prems(2) show ?case by (simp only: map_event.simps fold_simps list.set_intros list.set ball_simps insert_iff) auto
qed simp

lemma same_view_simps [simp]:
  "same_view s (s\<lparr>st_wal := w\<rparr>)" "same_view s (s\<lparr>st_lsn := n\<rparr>)" "same_view s (invalidateCount s)" "same_view s (persistIndex s)"
  "same_view s (persistMeta s)" "same_view s (s\<lparr>st_checkpointLSN := n\<rparr>)" "same_view s (s\<lparr>st_cachedCount := c\<rparr>)" "same_view s s"
  by (simp_all add: same_view_def levels_def invalidateCount_def persistIndex_def persistMeta_def)

lemma upsert_refines:
  assumes inv: "store_inv pc s" and small: "small_batch pairs"
    and u: "UpsertBatch crc fault pairs s = (None, th, s')" and rs: "batch_records pairs = Inr rs"
  shows "store_inv pc s' \<and> store_abs s' = map_event (EvUpsert rs) (store_abs s)"
proof (cases "pairs = []")
  case True
  with u rs inv show ?thesis by (auto simp: UpsertBatch_def)
next
  case False
  then have w: "writeRecords crc fault rs s = (None, th, s')" using u rs by (auto simp: UpsertBatch_def split: if_splits)
  obtain lsn wal where a: "Append crc fault rs (st_wal s) = (Inr lsn, wal)"
    using w by (auto simp: writeRecords_def Let_def split: prod.splits sum.splits)
  let ?s0 = "s\<lparr>st_wal := wal\<rparr>"
  define s1 where "s1 = fold (\<lambda>r. applyUpsert (jr_Key r) (jr_Value r)) rs ?s0"
  define s2 where "s2 = (if lsn > st_lsn s1 then s1\<lparr>st_lsn := lsn\<rparr> else s1)"
  define s3 where "s3 = (if memtablePressureLocked s2 then freezeLocked s2 else s2)"
  have s': "s' = invalidateCount s3" using w a by (auto simp: writeRecords_def Let_def s1_def s2_def s3_def)
  have i0: "store_inv pc ?s0 \<and> store_abs ?s0 = store_abs s" by (rule same_view_inv [OF _ inv]) simp
  then have i1: "store_inv pc s1 \<and> store_abs s1 = map_event (EvUpsert rs) (store_abs s)"
    unfolding s1_def using fold_upsert_refines [OF conjunct1 [OF i0] batch_records_ok [OF rs small]] by simp
  have "same_view s1 s2" by (simp add: s2_def)
  then have i2: "store_inv pc s2 \<and> store_abs s2 = store_abs s1" using i1 same_view_inv by blast
  then have i3: "store_inv pc s3 \<and> store_abs s3 = store_abs s2" using freeze_refines [of pc s2] by (simp add: s3_def)
  have "store_inv pc s' \<and> store_abs s' = store_abs s3" unfolding s' using i3 same_view_inv [of s3 "invalidateCount s3" pc] by simp
  with i1 i2 i3 show ?thesis by simp
qed

lemma upsert_fails_view: "UpsertBatch crc fault pairs s = (Some e, th, s') \<Longrightarrow> same_view s s'"
  by (auto simp: UpsertBatch_def writeRecords_def Let_def split: if_splits sum.splits prod.splits)

lemma delete_fails_view: "store_Delete crc fault key s = (Some e, s') \<Longrightarrow> same_view s s'"
  by (auto simp: store_Delete_def split: if_splits sum.splits prod.splits option.splits)

lemma not_live_abs: "index_readable s \<Longrightarrow> \<not> isLive s k \<Longrightarrow> store_abs s k = None"
  by (auto simp: isLive_def store_abs_eq lookupLevels_def index_value_def split: level_state.splits)

lemma delete_refines:
  assumes inv: "store_inv pc s" and safe: "delete_safe s bin" and key: "decodeKey key = Some bin"
    and d: "store_Delete crc fault key s = (None, s')"
  shows "store_inv pc s' \<and> store_abs s' = map_event (EvDelete bin) (store_abs s)"
proof (cases "isLive s bin")
  case False
  have "index_readable s" using inv by (simp add: store_inv_def)
  from not_live_abs [OF this False] d key False inv show ?thesis
    by (auto simp: store_Delete_def fun_upd_idem split: if_splits)
next
  case True
  then obtain wal where s': "s' = invalidateCount (applyDelete bin (s\<lparr>st_wal := wal\<rparr>))"
    using d key by (auto simp: store_Delete_def split: if_splits sum.splits prod.splits)
  let ?s0 = "s\<lparr>st_wal := wal\<rparr>"
  have i0: "store_inv pc ?s0 \<and> store_abs ?s0 = store_abs s" by (rule same_view_inv [OF _ inv]) simp
  have "delete_safe ?s0 bin" using safe by (simp add: delete_safe_def older_levels_def)
  from applyDelete_refines [OF conjunct1 [OF i0] this] i0
  have i1: "store_inv pc (applyDelete bin ?s0)" "store_abs (applyDelete bin ?s0) = (store_abs s)(bin := None)" by simp_all
  from same_view_inv [OF _ i1(1), of "invalidateCount (applyDelete bin ?s0)"] i1(2) show ?thesis by (simp add: s')
qed

lemma empty_installed:
  assumes "store_inv (FBegun t) s" "live_entries (ft_table t) = []"
  shows "store_inv (FInstalled t) s"
proof -
  have "index_holds s (ft_table t)" using assms(2) by (auto simp: index_holds_def simp flip: live_entries_iff)
  with assms(1) show ?thesis by (simp add: store_inv_def)
qed

lemma step_refines:
  assumes "store_step crc ev (pc, s) (pc', s')" "store_inv pc s"
  shows "store_inv pc' s' \<and> store_abs s' = map_event ev (store_abs s)"
  using assms
proof (cases rule: store_step.cases)
  case (upsert_ok pairs fault th rs)
  then show ?thesis using upsert_refines assms(2) by blast
next
  case (upsert_fails fault pairs e th)
  then show ?thesis using same_view_inv [OF upsert_fails_view] assms(2) by auto
next
  case (delete_ok key bin fault)
  then show ?thesis using delete_refines assms(2) by blast
next
  case (delete_fails fault key e)
  then show ?thesis using same_view_inv [OF delete_fails_view] assms(2) by auto
next
  case (count n)
  then have "same_view s s'" by (auto simp: store_Count_def Let_def split: if_splits)
  then show ?thesis using count same_view_inv assms(2) by auto
next
  case freeze
  then show ?thesis using freeze_refines assms(2) by auto
next
  case (flush_take t)
  then show ?thesis using begin_refines assms(2) by auto
next
  case (flush_write t fault seq info)
  then show ?thesis using chunk_refines assms(2) by auto
next
  case (flush_write_fails fault t e s1)
  have b: "chunks_below s" "index_readable s" and fl: "st_flushing s = Some t" using assms(2) flush_write_fails by (simp_all add: store_inv_def)
  note f = chunk_frame [OF b flush_write_fails(5)]
  have "st_stopping s1 = st_stopping s"
    using flush_write_fails(5) by (auto simp: flush_chunk_def nextSequence_def split: if_splits sum.splits prod.splits)
  moreover have "store_inv (FBegun t) s1 \<and> store_abs s1 = store_abs s"
    using assms(2) f flush_write_fails(2) by (auto simp: store_inv_def store_abs_eq intro!: ext)
  moreover have "st_flushing s1 = Some t" using f fl by simp
  ultimately show ?thesis using end_refines [of "FBegun t" s1 t "Some e"] flush_write_fails by auto
next
  case (flush_register t seq info)
  then show ?thesis using install_refines assms(2) by auto
next
  case (flush_empty t)
  then have "store_inv (FInstalled t) s" using empty_installed assms(2) by auto
  then show ?thesis using flush_empty same_view_inv [of s s'] by auto
next
  case (flush_index t)
  then show ?thesis using same_view_inv [of s s'] assms(2) by auto
next
  case (flush_registry t)
  then show ?thesis using same_view_inv [of s s'] assms(2) by auto
next
  case (flush_journal t e)
  then have "same_view s s'" by (auto simp: flush_checkpoint_def split: prod.splits option.splits)
  then show ?thesis using flush_journal same_view_inv assms(2) by auto
next
  case (flush_done t err)
  then have "st_flushing s = Some t" "index_holds s (ft_table t)" using assms(2) by (auto simp: store_inv_def)
  then show ?thesis using end_refines [of pc s t err] flush_done assms(2) by auto
qed

section \<open>Refinement of a map\<close>

definition empty_disk :: store_disk where
  "empty_disk = \<lparr>dk_meta = MetaAbsent, dk_preserved = None, dk_index = None, dk_chunks = []\<rparr>"

text \<open>A run: it starts with the opening of an empty directory; the events are in order.\<close>

inductive store_run :: "(bytes \<Rightarrow> 32 word) \<Rightarrow> store_event list \<Rightarrow> flush_pc \<times> store \<Rightarrow> bool" for crc where
  run_start: "store_Open crc empty_disk [] None True memRecords memBytes = Inr s \<Longrightarrow> store_run crc [] (FIdle, s)"
| run_step: "store_run crc evs st \<Longrightarrow> store_step crc ev st st' \<Longrightarrow> store_run crc (evs @ [ev]) st'"

lemma open_empty_inv:
  assumes "store_Open crc empty_disk [] None True memRecords memBytes = Inr s"
  shows "store_inv FIdle s" "store_abs s = Map.empty"
proof -
  let ?s0 = "new_store empty_disk memRecords memBytes"
  have load: "loadOrRecover ?s0 = Inr ?s0"
    by (simp add: loadOrRecover_def readMeta_def new_store_def empty_disk_def rebuildFromChunks_def loadIndex_def rebuildIndex_def)
  have ck: "st_checkpointLSN ?s0 = 0" by (simp add: new_store_def)
  obtain wal where "openJournal crc [] None True 0 0 applyReplay ?s0 = (None, wal, ?s0)"
    by (simp add: openJournal_def Let_def listSegments_def journal_replay.simps openActive_def createSegment_def migrateLegacyLog_def)
  with assms load have "same_view ?s0 s" by (auto simp: store_Open_def ck Let_def same_view_def levels_def split: if_splits)
  moreover have "store_inv FIdle ?s0"
    by (simp add: store_inv_def levels_def new_store_def index_readable_def chunks_below_def empty_disk_def)
  moreover have "store_abs ?s0 = Map.empty"
    by (rule ext) (simp add: store_abs_eq levels_def new_store_def index_value_def)
  ultimately show "store_inv FIdle s" "store_abs s = Map.empty" using same_view_inv by auto
qed

lemma run_refines_map:
  "store_run crc evs st \<Longrightarrow> store_inv (fst st) (snd st) \<and> store_abs (snd st) = fold map_event evs Map.empty"
proof (induction rule: store_run.induct)
  case (run_start memRecords memBytes s)
  then show ?case using open_empty_inv by auto
next
  case (run_step evs st ev st')
  then show ?case using step_refines [of crc ev "fst st" "snd st" "fst st'" "snd st'"] by simp
qed

text \<open>
  C3. The store is a map: after any interleaving of acknowledged and failed batches and deletes,
  counts, freezes and flush stages with and without failures, in which no delete hits a key that is
  live in a table waiting to be flushed, \<open>Get\<close> returns what the acknowledged writes left, and
  \<open>Has\<close> agrees with it.
\<close>

theorem store_refines_map:
  assumes "store_run crc evs (pc, s)"
  shows "store_get s bin = (case fold map_event evs Map.empty bin of None \<Rightarrow> Inl ErrNotFound | Some v \<Rightarrow> Inr v) \<and>
     (isLive s bin \<longleftrightarrow> fold map_event evs Map.empty bin \<noteq> None)"
proof -
  from run_refines_map [OF assms] have inv: "store_inv pc s" and abs: "store_abs s = fold map_event evs Map.empty" by simp_all
  then have idx: "index_readable s" by (simp add: store_inv_def)
  have "isLive s bin \<longleftrightarrow> store_abs s bin \<noteq> None"
  proof (cases "first_state (levels s) bin = LevelAbsent \<and> gget (st_index s) bin \<noteq> None")
    case True
    then obtain l where l: "gget (st_index s) bin = Some l" by blast
    with idx obtain v where "readRecord s l = Inr v" unfolding index_readable_def by blast
    with True l show ?thesis by (simp add: isLive_def store_abs_eq lookupLevels_def index_value_def)
  qed (auto simp: isLive_def store_abs_eq lookupLevels_def index_value_def split: level_state.split)
  with store_get_abs [OF idx, of bin] abs show ?thesis by simp
qed

section \<open>A whole flush\<close>

text \<open>The effect of a flush on disk and index.\<close>

definition flush_effect :: "store \<Rightarrow> memtable \<Rightarrow> store \<Rightarrow> bool" where
  "flush_effect s m s' \<longleftrightarrow> chunks_below s' \<and> (\<forall>l v. readRecord s l = Inr v \<longrightarrow> readRecord s' l = Inr v) \<and>
     (\<forall>k. (\<exists>l v. gget (st_index s') k = Some l \<and> table_state m k = LevelLive v \<and> readRecord s' l = Inr v) \<or>
          (\<not> table_live m k \<and> gget (st_index s') k = gget (st_index s) k))"

lemma flush_effect_cong:
  assumes "flush_effect s m s'" "dk_chunks (st_disk t) = dk_chunks (st_disk s)" "st_index t = st_index s"
    "dk_chunks (st_disk t') = dk_chunks (st_disk s')" "st_index t' = st_index s'" "st_nextSeq t' = st_nextSeq s'"
  shows "flush_effect t m t'"
  using assms readRecord_disk [OF assms(2)] readRecord_disk [OF assms(4)] by (simp add: flush_effect_def chunks_below_def)

lemma flush_effect_live:
  "flush_effect s m s' \<Longrightarrow> table_state m k = LevelLive v \<Longrightarrow> \<exists>l. gget (st_index s') k = Some l \<and> readRecord s' l = Inr v"
  unfolding flush_effect_def table_live_def by (metis level_state.inject)

lemma flush_effect_other: "flush_effect s m s' \<Longrightarrow> \<not> table_live m k \<Longrightarrow> gget (st_index s') k = gget (st_index s) k"
  unfolding flush_effect_def table_live_def by blast

lemma flush_effect_reads: "flush_effect s m s' \<Longrightarrow> readRecord s l = Inr v \<Longrightarrow> readRecord s' l = Inr v"
  by (simp add: flush_effect_def)

abbreviation same_tables :: "store \<Rightarrow> store \<Rightarrow> bool" where
  "same_tables s s' \<equiv> st_active s' = st_active s \<and> st_frozen s' = st_frozen s \<and> st_flushing s' = st_flushing s"

lemma flushTable_effect:
  assumes below: "chunks_below s" and ok: "table_ok (ft_table t)" and f: "flushTable crc FlushOk t s = (None, s')"
  shows "same_tables s s' \<and> flush_effect s (ft_table t) s'"
proof -
  have fin: "same_tables s1 s2 \<and> st_index s2 = st_index s1 \<and> dk_chunks (st_disk s2) = dk_chunks (st_disk s1) \<and> st_nextSeq s2 = st_nextSeq s1"
    if "flush_meta FlushOk lsn s1 = (None, s2)" for lsn s1 s2
    using that by (auto simp: flush_meta_def flush_checkpoint_def persistMeta_def split: prod.splits option.splits)
  show ?thesis
  proof (cases "live_entries (ft_table t) = []")
    case True
    then have m: "flush_meta FlushOk (ft_lsn t) (s\<lparr>st_checkpointLSN := ft_lsn t\<rparr>) = (None, s')" using f by (simp add: flushTable_def)
    have "readRecord s' = readRecord s" using fin [OF m] by (intro readRecord_disk) simp
    moreover have "\<not> table_live (ft_table t) k" for k using True by (auto simp: table_live_def simp flip: live_entries_iff)
    ultimately show ?thesis using fin [OF m] below by (simp add: chunks_below_def flush_effect_def)
  next
    case False
    obtain seq info s1 where c: "flush_chunk crc FlushOk (live_entries (ft_table t)) s = (Inr (seq, info), s1)"
      using False f by (auto simp: flushTable_def Let_def split: prod.splits sum.splits)
    let ?s2 = "flush_install seq info (live_entries (ft_table t)) (ft_lsn t) s1"
    have m: "flush_meta FlushOk (ft_lsn t) (persistIndex ?s2) = (None, s')" using False f c by (simp add: flushTable_def Let_def)
    note r = chunk_reads [OF below c]
    have v: "same_tables s1 s'" "st_index s' = st_index ?s2" "dk_chunks (st_disk s') = dk_chunks (st_disk s1)" "st_nextSeq s' = st_nextSeq s1"
      using fin [OF m] by (simp_all add: persistIndex_def flush_install_def)
    have rd: "readRecord s' = readRecord s1" by (rule readRecord_disk) (simp add: v)
    have idx: "(\<exists>l v. gget (st_index ?s2) k = Some l \<and> table_state (ft_table t) k = LevelLive v \<and> readRecord s1 l = Inr v) \<or>
      (\<not> table_live (ft_table t) k \<and> gget (st_index ?s2) k = gget (st_index s1) k)" for k
      by (rule install_index) (rule chunk_written [OF c ok])
    show ?thesis
      unfolding flush_effect_def using r idx by (simp add: v rd chunks_below_def)
  qed
qed

lemma flushOne_effect:
  assumes below: "chunks_below s" and fs: "st_frozen s = t # fs" "st_flushing s = None" and ok: "table_ok (ft_table t)"
    and f: "flushOne crc FlushOk s = (b, s')" and noerr: "st_flushErr s' = None"
  shows "st_active s' = st_active s \<and> st_frozen s' = fs \<and> st_flushing s' = None \<and> flush_effect s (ft_table t) s' \<and> b"
proof -
  let ?s1 = "s\<lparr>st_frozen := fs, st_flushing := Some t\<rparr>"
  obtain err s2 where ft: "flushTable crc FlushOk t ?s1 = (err, s2)" and s': "s' = flush_end t err s2" and b
    using f fs by (auto simp: flushOne_def flush_begin_def split: prod.splits)
  have "err = None" using noerr s' by (auto simp: flush_end_def Let_def split: option.splits if_splits)
  note ft = ft [unfolded this] and s' = s' [unfolded this]
  have "chunks_below ?s1" using below by (simp add: chunks_below_def)
  from flushTable_effect [OF this ok ft] have e: "same_tables ?s1 s2" "flush_effect ?s1 (ft_table t) s2" by simp_all
  have "flush_effect s (ft_table t) s'"
    by (rule flush_effect_cong [OF e(2)]) (simp_all add: s' flush_end_def Let_def)
  with e(1) \<open>b\<close> show ?thesis by (simp add: s' flush_end_def Let_def)
qed

text \<open>The stages of \<open>flushTable\<close> and \<open>flush_end\<close> are steps of the run.\<close>

abbreviation quiet_steps :: "(bytes \<Rightarrow> 32 word) \<Rightarrow> flush_pc \<times> store \<Rightarrow> flush_pc \<times> store \<Rightarrow> bool" where
  "quiet_steps crc \<equiv> (store_step crc EvNone)\<^sup>*\<^sup>*"

lemma flush_meta_steps:
  assumes "flush_meta fault (ft_lsn t) s = (err, s')"
  shows "quiet_steps crc (FInstalled t, s) (FIdle, flush_end t err s')"
proof (cases "fault = MetaFault")
  case True
  with assms show ?thesis by (auto simp: flush_meta_def intro: store_step.flush_done)
next
  case False
  have "quiet_steps crc (FInstalled t, s) (FInstalled t, persistMeta s)" by (rule r_into_rtranclp, rule store_step.flush_registry)
  also have "store_step crc EvNone (FInstalled t, persistMeta s) (FInstalled t, s')"
    using assms False by (intro store_step.flush_journal [of t _ err]) (simp add: flush_meta_def)
  also have "store_step crc EvNone (FInstalled t, s') (FIdle, flush_end t err s')" by (rule store_step.flush_done)
  finally show ?thesis by simp
qed

lemma flush_is_steps:
  assumes "flushTable crc fault t s = (err, s')" "\<not> st_stopping s"
  shows "quiet_steps crc (FBegun t, s) (FIdle, flush_end t err s')"
proof (cases "live_entries (ft_table t) = []")
  case True
  have "store_step crc EvNone (FBegun t, s) (FInstalled t, s\<lparr>st_checkpointLSN := ft_lsn t\<rparr>)" by (rule store_step.flush_empty [OF True])
  also have "quiet_steps crc (FInstalled t, s\<lparr>st_checkpointLSN := ft_lsn t\<rparr>) (FIdle, flush_end t err s')"
    using assms True by (intro flush_meta_steps [of fault]) (simp add: flushTable_def)
  finally show ?thesis .
next
  case False
  obtain r s1 where c: "flush_chunk crc fault (live_entries (ft_table t)) s = (r, s1)" by fastforce
  show ?thesis
  proof (cases r)
    case (Inl e)
    with assms c False have "err = Some e" "s' = s1" by (auto simp: flushTable_def Let_def)
    with store_step.flush_write_fails [of crc fault t s e s1] c Inl assms(2) show ?thesis by auto
  next
    case (Inr si)
    then obtain seq info where si: "r = Inr (seq, info)" by (cases si) auto
    let ?s2 = "flush_install seq info (live_entries (ft_table t)) (ft_lsn t) s1"
    have "quiet_steps crc (FBegun t, s) (FWritten t seq info, s1)"
      using c si False by (intro r_into_rtranclp store_step.flush_write) simp_all
    also have "store_step crc EvNone (FWritten t seq info, s1) (FInstalled t, ?s2)" by (rule store_step.flush_register)
    also have "quiet_steps crc (FInstalled t, ?s2) (FIdle, flush_end t err s')"
    proof (cases "fault = IndexFault")
      case True
      with assms(1) c si False show ?thesis by (auto simp: flushTable_def Let_def intro: store_step.flush_done)
    next
      case nf: False
      have "store_step crc EvNone (FInstalled t, ?s2) (FInstalled t, persistIndex ?s2)" by (rule store_step.flush_index)
      also have "quiet_steps crc (FInstalled t, persistIndex ?s2) (FIdle, flush_end t err s')"
        using assms(1) c si False nf by (intro flush_meta_steps [of fault]) (simp add: flushTable_def Let_def)
      finally show ?thesis .
    qed
    finally show ?thesis by simp
  qed
qed

section \<open>Deleted records that come back\<close>

text \<open>
  C31. A delete that hits a key whose value waits in a frozen table is acknowledged and effective at
  first, but when the worker has flushed that table and then the one with the tombstone, the
  deleted value is back: the older table puts the key into the index, and the tombstone is
  dropped without taking it out.
\<close>

theorem deleted_key_resurrected:
  assumes run: "store_run crc evs (FIdle, s)" and t: "st_frozen s = [t]" "table_state (ft_table t) bin = LevelLive v"
    and act: "table_state (st_active s) bin = LevelAbsent"
    and del: "decodeKey key = Some bin" "store_Delete crc fault key s = (None, s1)"
    and f1: "flushOne crc FlushOk (freezeLocked s1) = (b2, s2)" "st_flushErr s2 = None"
    and f2: "flushOne crc FlushOk s2 = (b3, s3)" "st_flushErr s3 = None"
  shows "store_get s1 bin = Inl ErrNotFound \<and> store_get s3 bin = Inr v"
proof -
  have inv: "store_inv FIdle s" using run_refines_map [OF run] by simp
  then have below: "chunks_below s" and fl: "st_flushing s = None" and ok: "table_ok (ft_table t)" "table_ok (st_active s)"
    by (simp_all add: store_inv_def levels_def t)
  have lk: "lookupLevels s bin = LevelLive v" by (simp add: lookupLevels_def levels_def t act fl)
  have live: "isLive s bin" by (simp add: isLive_def lk)
  obtain wal where s1: "s1 = invalidateCount (applyDelete bin (s\<lparr>st_wal := wal\<rparr>))"
    using del live by (auto simp: store_Delete_def split: if_splits sum.splits prod.splits)
  have "lookupLevels (s\<lparr>st_wal := wal\<rparr>) bin = LevelLive v" using lk by (simp add: lookupLevels_def levels_def)
  then have v1: "st_active s1 = mt_tombstone bin (st_active s)" "st_frozen s1 = [t]" "st_flushing s1 = None"
    "st_disk s1 = st_disk s" "st_nextSeq s1 = st_nextSeq s"
    by (simp_all add: s1 invalidateCount_def applyDelete_def t fl)
  have gone: "store_get s1 bin = Inl ErrNotFound"
    by (simp add: store_get_def lookupLevels_def levels_def v1 table_state_tombstone)
  have ne: "mt_len (st_active s1) \<noteq> 0" by (auto simp: v1 mt_len_def mt_tombstone_def length_gput)
  let ?t2 = "\<lparr>ft_table = st_active s1, ft_lsn = st_lsn s1\<rparr>"
  have fz: "freezeLocked s1 = s1\<lparr>st_frozen := [t, ?t2], st_active := newMemtable\<rparr>" using ne by (simp add: freezeLocked_def v1)
  have "chunks_below (freezeLocked s1)" using below by (simp add: fz chunks_below_def v1)
  from flushOne_effect [OF this _ _ ok(1) f1]
  have e1: "st_active s2 = newMemtable" "st_frozen s2 = [?t2]" "st_flushing s2 = None" "flush_effect (freezeLocked s1) (ft_table t) s2"
    by (simp_all add: fz v1)
  obtain l where l: "gget (st_index s2) bin = Some l" "readRecord s2 l = Inr v"
    using flush_effect_live [OF e1(4) t(2)] by blast
  have b2: "chunks_below s2" using e1(4) by (simp add: flush_effect_def)
  have ok2: "table_ok (ft_table ?t2)" using ok(2) by (simp add: v1 table_ok_tombstone)
  from flushOne_effect [OF b2 e1(2,3) ok2 f2]
  have e2: "st_active s3 = newMemtable" "st_frozen s3 = []" "st_flushing s3 = None" "flush_effect s2 (st_active s1) s3"
    using e1(1) by simp_all
  have "\<not> table_live (st_active s1) bin" by (simp add: v1 table_live_def table_state_tombstone)
  then have "gget (st_index s3) bin = Some l" "readRecord s3 l = Inr v"
    using flush_effect_other [OF e2(4)] flush_effect_reads [OF e2(4)] l by simp_all
  with gone show ?thesis by (simp add: store_get_def lookupLevels_def levels_def e2)
qed

section \<open>A concrete run\<close>

definition key0 :: string where "key0 = replicate 64 (CHR ''0'')"
definition bin0 :: bytes where "bin0 = replicate 32 0"

abbreviation put0 :: "bytes \<Rightarrow> journal_record" where
  "put0 v \<equiv> \<lparr>jr_Op = opUpsert, jr_Key = bin0, jr_Value = v\<rparr>"

abbreviation crc_zero :: "bytes \<Rightarrow> 32 word" where
  "crc_zero \<equiv> \<lambda>_. 0"

lemma decode_key0: "decodeKey key0 = Some bin0"
proof -
  have "hex_encode [0] = [CHR ''0'', CHR ''0'']" by code_simp
  then have "hex_encode (replicate n 0) = replicate (2 * n) (CHR ''0'')" for n
    by (induction n) (auto simp: hex_encode_def)
  from this [of 32] show ?thesis unfolding key_roundtrip by (simp add: key0_def bin0_def encodeKey_def)
qed

lemma open_ready:
  "\<exists>w. store_Open crc empty_disk [] None True r b = Inr ((new_store empty_disk r b)\<lparr>st_wal := w\<rparr>) \<and> wal_inv crc 0 0 [] [] w"
proof -
  let ?init = "new_store empty_disk r b"
  have load: "loadOrRecover ?init = Inr ?init"
    by (simp add: loadOrRecover_def readMeta_def new_store_def empty_disk_def rebuildFromChunks_def loadIndex_def rebuildIndex_def)
  from open_empty [of 0 crc True 0 applyReplay ?init] obtain w where
    w: "openJournal crc [] None True 0 0 applyReplay ?init = (None, w, ?init)" "wal_inv crc 0 0 [] [] w" by auto
  moreover from w(2) have "jn_lsn w = 0" by (simp add: wal_inv_def)
  ultimately have "store_Open crc empty_disk [] None True r b = Inr (?init\<lparr>st_wal := w\<rparr>)"
    using load by (simp add: store_Open_def CurrentLSN_def Let_def new_store_def)
  with w(2) show ?thesis by blast
qed

text \<open>One upsert into a store whose memtables hold one record: the table is frozen at once.\<close>

lemma run_upserted:
  assumes v: "v \<noteq> []" "32 + length v \<le> MaxRecordBytes"
  shows "\<exists>s rss rs. store_run crc [EvUpsert [put0 v]] (FIdle, s) \<and>
     s = (new_store empty_disk 1 0)\<lparr>st_wal := st_wal s, st_lsn := 1,
            st_frozen := [\<lparr>ft_table = mt_put bin0 v newMemtable, ft_lsn = 1\<rparr>]\<rparr> \<and>
     wal_inv crc 0 0 rss rs (st_wal s) \<and> concat rss @ rs = [put0 v]"
proof -
  from open_ready [of crc 1 0] obtain w where w: "store_Open crc empty_disk [] None True 1 0 = Inr ((new_store empty_disk 1 0)\<lparr>st_wal := w\<rparr>)"
    "wal_inv crc 0 0 [] [] w" by blast
  let ?init = "(new_store empty_disk 1 0)\<lparr>st_wal := w\<rparr>"
  have "jn_lsn w = 0" using w(2) by (simp add: wal_inv_def)
  with append_inv [OF w(2), of "[put0 v]"] v obtain rss rs w' where
    a: "Append crc NoFault [put0 v] w = (Inr 1, w')" "wal_inv crc 0 0 rss rs w'" "concat rss @ rs = [put0 v]"
    by (auto simp: rec_ok_def bin0_def opUpsert_def opDelete_def)
  let ?s = "(new_store empty_disk 1 0)\<lparr>st_wal := w', st_lsn := 1,
            st_frozen := [\<lparr>ft_table = mt_put bin0 v newMemtable, ft_lsn = 1\<rparr>]\<rparr>"
  have rs: "batch_records [(key0, v)] = Inr [put0 v]" using v by (simp add: decode_key0)
  have "UpsertBatch crc NoFault [(key0, v)] ?init = (None, False, ?s)"
    using v unfolding UpsertBatch_def rs
    by (simp add: writeRecords_def a(1) Let_def new_store_def applyUpsert_def lookupLevels_def levels_def mark_dead_def
        memtablePressureLocked_def freezeLocked_def mt_len_def mt_put_def newMemtable_def pendingTables_def defaultMaxFrozen_def
        invalidateCount_def orDefault_def table_state_def)
  then have "store_step crc (EvUpsert [put0 v]) (FIdle, ?init) (FIdle, ?s)"
    by (rule store_step.upsert_ok [rotated]) (use v rs in \<open>simp_all add: small_batch_def\<close>)
  with store_run.run_step [OF store_run.run_start [OF w(1)]] have "store_run crc [EvUpsert [put0 v]] (FIdle, ?s)" by fastforce
  with a(2,3) show ?thesis by (intro exI [of _ ?s]) auto
qed

theorem store_refines_map_witness:
  "\<exists>s. store_run crc_zero [EvUpsert [put0 [7]]] (FIdle, s) \<and> store_get s bin0 = Inr [7] \<and> isLive s bin0"
proof -
  from run_upserted [of "[7]" crc_zero] obtain s where s: "store_run crc_zero [EvUpsert [put0 [7]]] (FIdle, s)"
    by (auto simp: MaxRecordBytes_def)
  with store_refines_map [OF s, of bin0] show ?thesis by auto
qed

lemma flush_frozen_ok:
  assumes fl: "st_flushing s = None" "st_frozen s = t # ts" and cp: "\<exists>w. Checkpoint (ft_lsn t) (st_wal s) = (None, w)"
  shows "\<exists>s'. flushOne crc FlushOk s = (True, s') \<and> st_flushErr s' = None \<and> st_flushing s' = None \<and> st_frozen s' = ts \<and>
     Checkpoint (ft_lsn t) (st_wal s) = (None, st_wal s')"
proof (cases "live_entries (ft_table t) = []")
  case True
  then show ?thesis using assms
    by (auto simp: flushOne_def flush_begin_def flushTable_def flush_meta_def flush_checkpoint_def flush_end_def Let_def persistMeta_def)
next
  case False
  then show ?thesis using assms
    by (auto simp: flushOne_def flush_begin_def flushTable_def flush_meta_def flush_checkpoint_def flush_end_def Let_def persistMeta_def
        persistIndex_def flush_chunk_def nextSequence_def WriteChunk_def flush_install_def)
qed

theorem deleted_key_resurrected_witness:
  "\<exists>s s1 s2 s3. store_Delete crc_zero NoFault key0 s = (None, s1) \<and> flushOne crc_zero FlushOk (freezeLocked s1) = (True, s2) \<and>
     flushOne crc_zero FlushOk s2 = (True, s3) \<and> store_get s1 bin0 = Inl ErrNotFound \<and> store_get s3 bin0 = Inr [7]"
proof -
  from run_upserted [of "[7]" crc_zero] obtain s rss rs where run: "store_run crc_zero [EvUpsert [put0 [7]]] (FIdle, s)"
    and s: "s = (new_store empty_disk 1 0)\<lparr>st_wal := st_wal s, st_lsn := 1,
            st_frozen := [\<lparr>ft_table = mt_put bin0 [7] newMemtable, ft_lsn = 1\<rparr>]\<rparr>"
    and w: "wal_inv crc_zero 0 0 rss rs (st_wal s)" "concat rss @ rs = [put0 [7]]"
    by (auto simp: MaxRecordBytes_def)
  have sel: "st_frozen s = [\<lparr>ft_table = mt_put bin0 [7] newMemtable, ft_lsn = 1\<rparr>]" "st_active s = newMemtable" "st_flushing s = None"
    "\<not> st_closed s" "st_lsn s = 1"
    by (subst s; simp add: new_store_def)+
  have ts: "table_state (mt_put bin0 [7] newMemtable) bin0 = LevelLive [7]" by (simp add: table_state_put)
  have live: "isLive s bin0" by (simp add: isLive_def lookupLevels_def levels_def sel ts)
  let ?d = "\<lparr>jr_Op = opDelete, jr_Key = bin0, jr_Value = []\<rparr>"
  have "length (concat rss @ rs) = 1" unfolding w(2) by simp
  then have "jn_lsn (st_wal s) = 1" using w(1) by (simp add: wal_inv_def)
  with append_inv [OF w(1), of "[?d]"] obtain rss' rs' w' where
    a: "Append crc_zero NoFault [?d] (st_wal s) = (Inr 2, w')" "wal_inv crc_zero 0 0 rss' rs' w'"
    by (auto simp: rec_ok_def bin0_def MaxRecordBytes_def)
  obtain s1 where s1: "store_Delete crc_zero NoFault key0 s = (None, s1)" "s1 = invalidateCount (applyDelete bin0 (s\<lparr>st_wal := w'\<rparr>))"
    by (simp add: store_Delete_def decode_key0 sel live a(1))
  have f: "st_flushing s1 = None \<and> st_frozen s1 = st_frozen s \<and> st_active s1 = mt_tombstone bin0 newMemtable \<and> st_wal s1 = w' \<and> st_lsn s1 = 1"
    by (simp add: s1(2) applyDelete_def lookupLevels_def levels_def sel ts invalidateCount_def)
  then have fr: "st_flushing (freezeLocked s1) = None" "st_frozen (freezeLocked s1) = st_frozen s @ [\<lparr>ft_table = mt_tombstone bin0 newMemtable, ft_lsn = 1\<rparr>]"
    "st_wal (freezeLocked s1) = w'"
    by (simp_all add: freezeLocked_def mt_len_def mt_tombstone_def newMemtable_def)
  from checkpoint_inv [OF a(2), of 1] obtain w2 rss2 rs2 q2 b2 where c1: "Checkpoint 1 w' = (None, w2)" "wal_inv crc_zero q2 b2 rss2 rs2 w2" by blast
  from checkpoint_inv [OF c1(2), of 1] obtain w3 where c2: "Checkpoint 1 w2 = (None, w3)" by blast
  from flush_frozen_ok [OF fr(1), of _ _ crc_zero] fr sel c1(1) obtain s2 where
    s2: "flushOne crc_zero FlushOk (freezeLocked s1) = (True, s2)" "st_flushErr s2 = None" "st_flushing s2 = None"
      "st_frozen s2 = [\<lparr>ft_table = mt_tombstone bin0 newMemtable, ft_lsn = 1\<rparr>]" "st_wal s2 = w2" by auto
  from flush_frozen_ok [OF s2(3,4), of crc_zero] c2 s2(5) obtain s3 where
    s3: "flushOne crc_zero FlushOk s2 = (True, s3)" "st_flushErr s3 = None" by auto
  have "table_state (ft_table \<lparr>ft_table = mt_put bin0 [7] newMemtable, ft_lsn = 1\<rparr>) bin0 = LevelLive [7]" by (simp add: ts)
  from deleted_key_resurrected [OF run sel(1) this _ decode_key0 s1(1) s2(1,2) s3] sel(2) show ?thesis
    using s1(1) s2(1) s3(1) by auto
qed

end
