(* ===== verification/StoreScan.thy ===== *)
theory StoreScan
  imports StoreProps
begin

text \<open>
  What \<open>Iterate\<close> and \<open>Count\<close> say about a store with several tables.
\<close>

section \<open>Iterating\<close>

fun entry_state :: "bytes option option \<Rightarrow> level_state" where
  "entry_state None = LevelAbsent"
| "entry_state (Some None) = LevelTombstone"
| "entry_state (Some (Some v)) = LevelLive v"

lemma entry_state_absent [simp]: "entry_state e = LevelAbsent \<longleftrightarrow> e = None"
  by (cases e rule: entry_state.cases) auto

lemma table_state_entry: "table_state m k = entry_state (gget (mt_entries m) k)"
  by (simp add: table_state_def split: option.split)

lemma first_state_entries: "first_state ms k = entry_state (gget (concat (map mt_entries ms)) k)"
  by (induction ms) (auto simp: table_state_entry map_add_def split: option.splits)

text \<open>Folding \<open>set_state\<close>: the last entry for a key decides.\<close>

definition row_position :: "iter_entry option \<Rightarrow> loc option" where
  "row_position r = (case r of None \<Rightarrow> None | Some e \<Rightarrow> it_position e)"

lemma set_state_gget:
  "gget (set_state (k0, v0) merged) k =
     (if k = k0 then Some \<lparr>it_position = row_position (gget merged k0), it_state = entry_state (Some v0)\<rparr> else gget merged k)"
  by (cases v0) (auto simp: set_state_def Let_def row_position_def split: option.split)

fun row_of :: "iter_entry option \<Rightarrow> bytes option option \<Rightarrow> iter_entry option" where
  "row_of r None = r"
| "row_of r (Some v) = Some \<lparr>it_position = row_position r, it_state = entry_state (Some v)\<rparr>"

lemma row_position_row_of [simp]: "row_position (row_of r e) = row_position r"
  by (cases e) (simp_all add: row_position_def)

lemma set_state_fold: "gget (fold set_state es merged) k = row_of (gget merged k) (gget (rev es) k)"
proof (induction es arbitrary: merged)
  case (Cons e es)
  obtain k0 v0 where e: "e = (k0, v0)" by (cases e)
  have "gget (rev (e # es)) k = (case gget (rev es) k of None \<Rightarrow> if k = k0 then Some v0 else None | Some v \<Rightarrow> Some v)"
    by (auto simp: e map_add_def split: option.split)
  then show ?case
    by (cases "gget (rev es) k") (simp_all only: fold_Cons o_apply Cons e set_state_gget, auto simp: row_position_def)
qed simp

lemma gget_rev:
  assumes "gmap_ok m"
  shows "gget (rev m) k = gget m k"
proof -
  have "gmap_ok (rev m)" using assms by (simp add: gmap_ok_def rev_map [symmetric])
  then show ?thesis using gget_mem [OF assms, of k] gget_mem [of "rev m" k] by (metis not_Some_eq set_rev)
qed

lemma gget_rev_entries:
  "\<forall>m \<in> set ms. gmap_ok (mt_entries m) \<Longrightarrow> gget (rev (concat (map mt_entries ms))) k = gget (concat (map mt_entries (rev ms))) k"
  by (induction ms) (auto simp: gget_rev map_add_def split: option.splits)

definition tables_distinct :: "store \<Rightarrow> bool" where
  "tables_distinct s \<longleftrightarrow> gmap_ok (st_index s) \<and> (\<forall>m \<in> set (levels s). gmap_ok (mt_entries m))"

text \<open>What a snapshot says about a key: the active table, then the one being flushed, then the frozen ones.\<close>

definition iter_levels :: "store \<Rightarrow> memtable list" where
  "iter_levels s = st_active s # flushing_tables s @ rev (map ft_table (st_frozen s))"

lemma snapshot_state:
  assumes "tables_distinct s"
  shows "gget (iterSnapshot s) k =
     (if first_state (iter_levels s) k = LevelAbsent \<and> gget (st_index s) k = None then None
      else Some \<lparr>it_position = gget (st_index s) k, it_state = first_state (iter_levels s) k\<rparr>)"
proof -
  let ?ms = "map ft_table (st_frozen s) @ flushing_tables s @ [st_active s]"
  let ?base = "map (\<lambda>(bin, position). (bin, \<lparr>it_position = Some position, it_state = LevelAbsent\<rparr>)) (st_index s)"
  have base: "gget ?base k = map_option (\<lambda>p. \<lparr>it_position = Some p, it_state = LevelAbsent\<rparr>) (gget (st_index s) k)"
    by (simp add: map_of_map)
  have "\<forall>m \<in> set ?ms. gmap_ok (mt_entries m)" using assms(1) by (auto simp: tables_distinct_def levels_def)
  from gget_rev_entries [OF this, of k]
  have "gget (rev (concat (map mt_entries ?ms))) k = gget (concat (map mt_entries (rev ?ms))) k" .
  moreover have "rev ?ms = iter_levels s" by (cases "st_flushing s") (auto simp: iter_levels_def)
  ultimately have "gget (rev (concat (map mt_entries ?ms))) k = gget (concat (map mt_entries (iter_levels s))) k" by (simp only:)
  moreover define e where "e = gget (concat (map mt_entries (iter_levels s))) k"
  ultimately have e: "gget (rev (concat (map mt_entries ?ms))) k = e" "first_state (iter_levels s) k = entry_state e"
    by (simp_all only: first_state_entries)
  have "row_position (map_option (\<lambda>p. \<lparr>it_position = Some p, it_state = LevelAbsent\<rparr>) p) = p" for p :: "loc option"
    by (cases p) (simp_all add: row_position_def)
  then show ?thesis
    unfolding iterSnapshot_def set_state_fold base e
    by (cases e; cases "gget (st_index s) k") (auto simp: row_position_def)
qed

section \<open>Counting\<close>

definition count_delta :: "(bytes, loc) gomap \<Rightarrow> bytes \<Rightarrow> bytes option option \<Rightarrow> int" where
  "count_delta index k e =
     (case entry_state e of
        LevelAbsent \<Rightarrow> 0
      | LevelTombstone \<Rightarrow> if gget index k \<noteq> None then - 1 else 0
      | LevelLive v \<Rightarrow> if gget index k = None then 1 else 0)"

lemma count_entry_cases:
  "count_entry index (k, v) (seen, n) =
     (if k \<in> set seen then (seen, n) else (k # seen, n + count_delta index k (Some v)))"
  by (cases v) (auto simp: count_entry_def count_delta_def)

lemma count_fold:
  "snd (fold (count_entry index) es (seen, n)) =
     n + (\<Sum>k \<in> fst ` set es - set seen. count_delta index k (gget es k))"
proof (induction es arbitrary: seen n)
  case (Cons e es)
  obtain k0 v0 where e: "e = (k0, v0)" by (cases e)
  let ?d = "\<lambda>k. count_delta index k (gget es k)" and ?d' = "\<lambda>k. count_delta index k (gget (e # es) k)"
  show ?case
  proof (cases "k0 \<in> set seen")
    case True
    then have "fst ` set (e # es) - set seen = fst ` set es - set seen" by (auto simp: e)
    moreover have "sum ?d' (fst ` set es - set seen) = sum ?d (fst ` set es - set seen)"
      using True by (intro sum.cong) (auto simp: e)
    ultimately show ?thesis using True by (simp add: e count_entry_cases Cons)
  next
    case False
    have set: "fst ` set (e # es) - set seen = insert k0 (fst ` set es - set (k0 # seen))" using False by (auto simp: e)
    have "sum ?d' (fst ` set es - set (k0 # seen)) = sum ?d (fst ` set es - set (k0 # seen))"
      by (intro sum.cong) (auto simp: e)
    then have "sum ?d' (fst ` set (e # es) - set seen) = count_delta index k0 (Some v0) + sum ?d (fst ` set es - set (k0 # seen))"
      unfolding set by (subst sum.insert) (auto simp: e)
    then show ?thesis using False by (simp add: e count_entry_cases Cons)
  qed
qed simp

text \<open>The order in which \<open>derivedCount\<close> visits the tables; the first one that knows a key decides.\<close>

definition count_levels :: "store \<Rightarrow> memtable list" where
  "count_levels s = flushing_tables s @ rev (map ft_table (st_frozen s)) @ [st_active s]"

fun counted_live :: "level_state \<Rightarrow> loc option \<Rightarrow> bool" where
  "counted_live LevelAbsent p = (p \<noteq> None)"
| "counted_live LevelTombstone p = False"
| "counted_live (LevelLive v) p = True"

definition counted :: "store \<Rightarrow> bytes set" where
  "counted s = {k. counted_live (first_state (count_levels s) k) (gget (st_index s) k)}"

lemma card_as_sum: "finite U \<Longrightarrow> X \<subseteq> U \<Longrightarrow> int (card X) = (\<Sum>k \<in> U. of_bool (k \<in> X))"
  by (simp add: sum.If_cases of_bool_def Int_absorb1)

lemma gget_none_keys: "gget m k = None \<longleftrightarrow> k \<notin> fst ` set m"
  by (metis dom_map_of_conv_image_fst domIff)

lemma derivedCount_counted:
  assumes "gmap_ok (st_index s)"
  shows "finite (counted s) \<and> derivedCount s = int (card (counted s))"
proof -
  let ?es = "concat (map mt_entries (count_levels s))" and ?D = "fst ` set (st_index s)"
  let ?S = "fst ` set ?es"
  have len: "int (length (st_index s)) = int (card ?D)"
    using assms distinct_card [of "map fst (st_index s)"] by (simp add: gmap_ok_def)
  have point: "of_bool (k \<in> ?D) + (if k \<in> ?S then count_delta (st_index s) k (gget ?es k) else 0) = (of_bool (k \<in> counted s) :: int)" for k
  proof -
    define e where "e = gget ?es k"
    have e: "k \<in> ?S \<longleftrightarrow> e \<noteq> None" "first_state (count_levels s) k = entry_state e"
      unfolding e_def gget_none_keys first_state_entries by simp_all
    have "k \<in> ?D \<longleftrightarrow> gget (st_index s) k \<noteq> None" by (simp add: gget_none_keys)
    then show ?thesis unfolding e counted_def e_def [symmetric] mem_Collect_eq
      by (cases e rule: entry_state.cases) (auto simp: count_delta_def)
  qed
  have fin: "finite (?D \<union> ?S)" by simp
  have sub: "counted s \<subseteq> ?D \<union> ?S"
  proof
    fix k assume "k \<in> counted s"
    with point [of k] show "k \<in> ?D \<union> ?S" by (auto split: if_splits)
  qed
  have "derivedCount s = int (card ?D) + (\<Sum>k \<in> ?S. count_delta (st_index s) k (gget ?es k))"
    unfolding derivedCount_def count_fold len count_levels_def by simp
  also have "(\<Sum>k \<in> ?S. count_delta (st_index s) k (gget ?es k)) =
      (\<Sum>k \<in> ?D \<union> ?S. if k \<in> ?S then count_delta (st_index s) k (gget ?es k) else 0)"
    by (rule sum.mono_neutral_cong_left) auto
  also have "int (card ?D) + \<dots> = (\<Sum>k \<in> ?D \<union> ?S. of_bool (k \<in> counted s))"
    unfolding card_as_sum [OF fin Un_upper1] sum.distrib [symmetric] point ..
  finally show ?thesis using card_as_sum [OF fin sub] finite_subset [OF sub fin] by simp
qed

section \<open>The tables of a run\<close>

lemma mt_put_ok: "gmap_ok (mt_entries m) \<Longrightarrow> gmap_ok (mt_entries (mt_put k v m))"
  by (simp add: mt_put_def)

lemma mt_tombstone_ok: "gmap_ok (mt_entries m) \<Longrightarrow> gmap_ok (mt_entries (mt_tombstone k m))"
  by (simp add: mt_tombstone_def)

lemma distinct_frame:
  "tables_distinct s \<Longrightarrow> st_index s' = st_index s \<Longrightarrow> set (levels s') \<subseteq> set (levels s) \<Longrightarrow> tables_distinct s'"
  by (auto simp: tables_distinct_def)

lemma distinct_upsert: "tables_distinct s \<Longrightarrow> tables_distinct (applyUpsert k v s)"
  by (auto simp: tables_distinct_def applyUpsert_def levels_def mt_put_ok)

lemma distinct_delete: "tables_distinct s \<Longrightarrow> tables_distinct (applyDelete k s)"
  by (auto simp: tables_distinct_def applyDelete_def levels_def mt_tombstone_ok)

lemma distinct_freeze: "tables_distinct s \<Longrightarrow> tables_distinct (freezeLocked s)"
  by (auto simp: tables_distinct_def freezeLocked_def levels_def newMemtable_def gmap_ok_def)

lemma gmap_ok_fold_gput: "gmap_ok m \<Longrightarrow> gmap_ok (fold (\<lambda>(k, l). gput k l) kls m)"
  by (induction kls arbitrary: m) (auto split: prod.split)

lemma distinct_install: "tables_distinct s \<Longrightarrow> tables_distinct (flush_install seq info kvs lsn s)"
  by (auto simp: tables_distinct_def flush_install_def levels_def intro!: gmap_ok_fold_gput)

lemma same_view_distinct: "same_view s s' \<Longrightarrow> tables_distinct s \<Longrightarrow> tables_distinct s'"
  by (simp add: same_view_def tables_distinct_def)

lemma distinct_fold_upsert: "tables_distinct s \<Longrightarrow> tables_distinct (fold (\<lambda>r. applyUpsert (jr_Key r) (jr_Value r)) rs s)"
  by (induction rs arbitrary: s) (auto simp: distinct_upsert)

lemma distinct_upsert_batch:
  assumes "tables_distinct s" "UpsertBatch crc fault pairs s = (e, th, s')"
  shows "tables_distinct s'"
proof -
  have d: "tables_distinct (s1\<lparr>st_lsn := n\<rparr>)" "tables_distinct (invalidateCount s1)" if "tables_distinct s1" for s1 n
    using same_view_distinct [OF _ that] by simp_all
  have w: "tables_distinct (s\<lparr>st_wal := w\<rparr>)" for w using same_view_distinct [OF _ assms(1)] by simp
  from assms show ?thesis
    by (auto simp: UpsertBatch_def writeRecords_def Let_def w split: if_splits sum.splits prod.splits
        intro!: d distinct_freeze distinct_fold_upsert)
qed

lemma distinct_delete_op:
  assumes "tables_distinct s" "store_Delete crc fault key s = (e, s')"
  shows "tables_distinct s'"
proof -
  have w: "tables_distinct (s\<lparr>st_wal := w\<rparr>)" for w using same_view_distinct [OF _ assms(1)] by simp
  then have "tables_distinct (invalidateCount (applyDelete bin (s\<lparr>st_wal := w\<rparr>)))" for w bin
    by (rule same_view_distinct [OF same_view_simps(3) distinct_delete])
  with w assms show ?thesis by (auto simp: store_Delete_def split: if_splits sum.splits prod.splits option.splits)
qed

lemma distinct_begin: "tables_distinct s \<Longrightarrow> flush_begin s = Some (t, s') \<Longrightarrow> tables_distinct s'"
  by (cases "st_frozen s") (auto simp: flush_begin_def tables_distinct_def levels_def split: if_splits)

lemma flush_chunk_tables:
  "flush_chunk crc fault kvs s = (r, s') \<Longrightarrow> st_index s' = st_index s \<and> levels s' = levels s \<and> st_flushing s' = st_flushing s"
  by (auto simp: flush_chunk_def nextSequence_def levels_def split: if_splits sum.splits prod.splits)

lemma distinct_chunk: "tables_distinct s \<Longrightarrow> flush_chunk crc fault kvs s = (r, s') \<Longrightarrow> tables_distinct s'"
  using flush_chunk_tables by (metis distinct_frame order_refl)

lemma distinct_end: "tables_distinct s \<Longrightarrow> st_flushing s = Some t \<Longrightarrow> tables_distinct (flush_end t err s)"
  by (auto simp: flush_end_def tables_distinct_def levels_def Let_def split: option.split)

lemma distinct_step:
  assumes "store_step crc ev (pc, s) (pc', s')" "store_inv pc s" "tables_distinct s"
  shows "tables_distinct s'"
  using assms
proof (cases rule: store_step.cases)
  case (count n)
  then have "same_view s s'" by (auto simp: store_Count_def Let_def split: if_splits)
  then show ?thesis using same_view_distinct assms(3) by blast
next
  case (flush_write_fails fault t e s1)
  then have "st_flushing s1 = Some t" "tables_distinct s1"
    using assms(2,3) distinct_chunk flush_chunk_tables by (auto simp: store_inv_def)
  then show ?thesis using distinct_end flush_write_fails by blast
next
  case (flush_journal t e)
  then have "same_view s s'" by (auto simp: flush_checkpoint_def split: prod.splits option.splits)
  then show ?thesis using same_view_distinct assms(3) by blast
next
  case (flush_done t err)
  then show ?thesis using distinct_end assms(2,3) by (auto simp: store_inv_def)
next
  case (flush_empty t)
  then show ?thesis using same_view_distinct [OF same_view_simps(6) assms(3)] by simp
next
  case (flush_index t)
  then show ?thesis using same_view_distinct [OF same_view_simps(4) assms(3)] by simp
next
  case (flush_registry t)
  then show ?thesis using same_view_distinct [OF same_view_simps(5) assms(3)] by simp
next
  case (flush_register t seq info)
  then show ?thesis using distinct_install assms(3) by simp
next
  case freeze
  then show ?thesis using distinct_freeze assms(3) by simp
qed (use assms(3) distinct_upsert_batch distinct_delete_op distinct_begin distinct_chunk in \<open>fast+\<close>)

lemma run_distinct: "store_run crc evs st \<Longrightarrow> tables_distinct (snd st)"
proof (induction rule: store_run.induct)
  case (run_start memRecords memBytes s)
  then obtain w where "s = (new_store empty_disk memRecords memBytes)\<lparr>st_wal := w\<rparr>"
    using open_ready [of crc memRecords memBytes] by auto
  then show ?case by (simp add: tables_distinct_def levels_def new_store_def newMemtable_def gmap_ok_def)
next
  case (run_step evs st ev st')
  then show ?case
    using distinct_step [of crc ev "fst st" "snd st" "fst st'" "snd st'"] run_refines_map [OF run_step(1)] by simp
qed

section \<open>What an iteration hands out\<close>

fun row_value :: "store \<Rightarrow> iter_entry \<Rightarrow> bytes option" where
  "row_value s e = (case it_state e of
     LevelTombstone \<Rightarrow> None
   | LevelLive v \<Rightarrow> Some v
   | LevelAbsent \<Rightarrow> (case readRecord s (the (it_position e)) of Inl _ \<Rightarrow> None | Inr v \<Rightarrow> Some v))"

definition row_pairs :: "store \<Rightarrow> (bytes \<times> iter_entry) list \<Rightarrow> (bytes \<times> bytes) list" where
  "row_pairs s rows = map (\<lambda>(k, e). (k, the (row_value s e))) (filter (\<lambda>(k, e). row_value s e \<noteq> None) rows)"

lemma iterate_rows_all:
  "\<forall>(k, e) \<in> set rows. it_state e = LevelAbsent \<longrightarrow> (\<exists>v. readRecord s (the (it_position e)) = Inr v) \<Longrightarrow>
   iterate_rows s (\<lambda>_ _. True) rows = (map (\<lambda>(k, v). (encodeKey k, v)) (row_pairs s rows), None)"
proof (induction rows)
  case (Cons r rows)
  obtain k e where r: "r = (k, e)" by (cases r)
  have "iterate_rows s (\<lambda>_ _. True) rows = (map (\<lambda>(k, v). (encodeKey k, v)) (row_pairs s rows), None)" using Cons by auto
  then show ?case using Cons(2) by (cases "it_state e") (auto simp: r row_pairs_def)
qed (simp add: row_pairs_def)

lemma gmap_ok_set_state: "gmap_ok m \<Longrightarrow> gmap_ok (set_state e m)"
  by (cases e) (auto simp: set_state_def Let_def split: option.split)

lemma gmap_ok_snapshot:
  assumes "gmap_ok (st_index s)"
  shows "gmap_ok (iterSnapshot s)"
proof -
  have fold: "gmap_ok m \<Longrightarrow> gmap_ok (fold set_state es m)" for es m
    by (induction es arbitrary: m) (auto simp: gmap_ok_set_state)
  have "gmap_ok (map (\<lambda>(k, p). (k, \<lparr>it_position = Some p, it_state = LevelAbsent\<rparr>)) (st_index s))"
    using assms by (simp add: gmap_ok_def comp_def case_prod_unfold)
  then show ?thesis unfolding iterSnapshot_def by (rule fold)
qed

definition iterated :: "store \<Rightarrow> bytes \<Rightarrow> bytes option" where
  "iterated s k = level_result (first_state (iter_levels s) k) (index_value s k)"

lemma iterate_effect:
  assumes d: "tables_distinct s" and r: "index_readable s" and c: "\<not> st_closed s"
  shows "\<exists>kvs. store_Iterate s (\<lambda>_ _. True) = (map (\<lambda>(k, v). (encodeKey k, v)) kvs, None) \<and>
     sorted (map fst kvs) \<and> distinct (map fst kvs) \<and> (\<forall>k v. (k, v) \<in> set kvs \<longleftrightarrow> iterated s k = Some v)"
proof -
  let ?rows = "sort_key fst (iterSnapshot s)"
  have ok: "gmap_ok (iterSnapshot s)" using d gmap_ok_snapshot by (simp add: tables_distinct_def)
  have mem: "(k, e) \<in> set ?rows \<longleftrightarrow> gget (iterSnapshot s) k = Some e" for k e
    using gget_mem [OF ok] by simp
  have "\<forall>(k, e) \<in> set ?rows. it_state e = LevelAbsent \<longrightarrow> (\<exists>v. readRecord s (the (it_position e)) = Inr v)"
  proof safe
    fix k e assume "(k, e) \<in> set ?rows" and abs: "it_state e = LevelAbsent"
    then have "gget (st_index s) k \<noteq> None" "it_position e = gget (st_index s) k"
      unfolding mem snapshot_state [OF d] by (auto split: if_splits)
    then show "\<exists>v. readRecord s (the (it_position e)) = Inr v" using r by (auto simp: index_readable_def)
  qed
  from iterate_rows_all [OF this] have out: "store_Iterate s (\<lambda>_ _. True) = (map (\<lambda>(k, v). (encodeKey k, v)) (row_pairs s ?rows), None)"
    using c by (simp add: store_Iterate_def)
  have keys: "map fst (row_pairs s rows) = map fst (filter (\<lambda>(k, e). row_value s e \<noteq> None) rows)" for rows
    by (simp add: row_pairs_def comp_def case_prod_unfold)
  have "sorted (map fst ?rows)" by (rule sorted_sort_key)
  then have "sorted (map fst (row_pairs s ?rows))" unfolding keys by (rule sorted_filter)
  moreover have "distinct (map fst ?rows)" using ok
    by (metis gmap_ok_def distinct_map distinct_sort set_sort)
  then have "distinct (map fst (row_pairs s ?rows))" unfolding keys by (simp add: distinct_map_filter)
  moreover have "(k, v) \<in> set (row_pairs s ?rows) \<longleftrightarrow> iterated s k = Some v" for k v
  proof -
    have "(k, v) \<in> set (row_pairs s ?rows) \<longleftrightarrow> (\<exists>e. gget (iterSnapshot s) k = Some e \<and> row_value s e = Some v)"
      using mem by (auto simp: row_pairs_def image_iff)
    also have "\<dots> \<longleftrightarrow> iterated s k = Some v"
      using r unfolding snapshot_state [OF d] iterated_def index_value_def index_readable_def
      by (cases "first_state (iter_levels s) k"; cases "gget (st_index s) k") auto
    finally show ?thesis .
  qed
  ultimately show ?thesis using out by blast
qed

text \<open>
  Iterating over a store hands out exactly the map the acknowledged writes left, each key once
  and in key order, whenever no flush is under way or no further table is waiting behind it.
\<close>

theorem iterate_lists_map:
  assumes run: "store_run crc evs (pc, s)" and "\<not> st_closed s" and one: "st_flushing s = None \<or> st_frozen s = []"
  shows "\<exists>kvs. store_Iterate s (\<lambda>_ _. True) = (map (\<lambda>(k, v). (encodeKey k, v)) kvs, None) \<and>
     sorted (map fst kvs) \<and> distinct (map fst kvs) \<and> (\<forall>k v. (k, v) \<in> set kvs \<longleftrightarrow> fold map_event evs Map.empty k = Some v)"
proof -
  from run_refines_map [OF run] have inv: "index_readable s" "store_abs s = fold map_event evs Map.empty"
    by (simp_all add: store_inv_def)
  have "iter_levels s = levels s" using one by (auto simp: iter_levels_def levels_def)
  then have "iterated s = store_abs s" by (simp add: iterated_def store_abs_eq fun_eq_iff)
  with inv(2) iterate_effect [OF _ inv(1) assms(2)] run_distinct [OF run] show ?thesis by simp
qed

text \<open>
  While a table is being flushed and a newer one waits behind it, iterating hands out the older
  value of a key that both hold, although \<open>Get\<close> returns the newer one.
\<close>

theorem iterate_hands_out_stale:
  assumes run: "store_run crc evs (pc, s)" and "\<not> st_closed s"
    and f: "st_flushing s = Some f" "table_state (ft_table f) k = LevelLive old"
    and t: "st_frozen s = [t]" "table_state (ft_table t) k = LevelLive new" and a: "table_state (st_active s) k = LevelAbsent"
  shows "store_get s k = Inr new \<and> (\<exists>kvs. store_Iterate s (\<lambda>_ _. True) = (map (\<lambda>(k, v). (encodeKey k, v)) kvs, None) \<and>
     (k, old) \<in> set kvs \<and> distinct (map fst kvs))"
proof -
  have "index_readable s" using run_refines_map [OF run] by (simp add: store_inv_def)
  from iterate_effect [OF _ this assms(2)] run_distinct [OF run] obtain kvs where
    "store_Iterate s (\<lambda>_ _. True) = (map (\<lambda>(k, v). (encodeKey k, v)) kvs, None)" "distinct (map fst kvs)"
    "(k, old) \<in> set kvs \<longleftrightarrow> iterated s k = Some old" by auto
  moreover have "iterated s k = Some old" by (simp add: iterated_def iter_levels_def f a)
  moreover have "store_get s k = Inr new" by (simp add: store_get_def lookupLevels_def levels_def t a)
  ultimately show ?thesis by blast
qed

section \<open>When the count is exact\<close>

text \<open>The tables that know a key agree on whether it is live.\<close>

definition tables_agree :: "store \<Rightarrow> bool" where
  "tables_agree s \<longleftrightarrow> (\<forall>k. \<forall>m \<in> set (levels s). \<forall>m' \<in> set (levels s).
     table_state m k \<noteq> LevelAbsent \<and> table_live m' k \<longrightarrow> table_live m k)"

lemma counted_live_first:
  "counted_live (first_state ms k) p \<longleftrightarrow>
     (if \<forall>m \<in> set ms. table_state m k = LevelAbsent then p \<noteq> None else \<exists>v. first_state ms k = LevelLive v)"
  unfolding first_state_absent [symmetric] by (cases "first_state ms k") simp_all

lemma first_state_mem: "first_state ms k \<noteq> LevelAbsent \<Longrightarrow> \<exists>m \<in> set ms. table_state m k = first_state ms k"
  by (induction ms) auto

lemma first_live:
  assumes "\<forall>m \<in> set ms. \<forall>m' \<in> set ms. table_state m k \<noteq> LevelAbsent \<and> table_live m' k \<longrightarrow> table_live m k"
  shows "(\<exists>v. first_state ms k = LevelLive v) \<longleftrightarrow> (\<exists>m \<in> set ms. table_live m k)"
proof
  assume "\<exists>v. first_state ms k = LevelLive v"
  then show "\<exists>m \<in> set ms. table_live m k" using first_state_mem [of ms k] unfolding table_live_def by force
next
  assume "\<exists>m \<in> set ms. table_live m k"
  then obtain m' where m': "m' \<in> set ms" "table_live m' k" by blast
  then have first: "first_state ms k \<noteq> LevelAbsent" unfolding first_state_absent table_live_def by force
  from first_state_mem [OF this] obtain m where m: "m \<in> set ms" "table_state m k = first_state ms k" by blast
  with assms [rule_format, OF m(1) m'(1)] first m'(2) have "table_live m k" by simp
  with m(2) show "\<exists>v. first_state ms k = LevelLive v" by (simp add: table_live_def)
qed

lemma counted_levels:
  assumes "tables_agree s"
  shows "counted_live (first_state (count_levels s) k) p \<longleftrightarrow> counted_live (first_state (levels s) k) p"
proof -
  have set: "set (count_levels s) = set (levels s)" by (auto simp: count_levels_def levels_def)
  have agree: "\<forall>m \<in> set (levels s). \<forall>m' \<in> set (levels s). table_state m k \<noteq> LevelAbsent \<and> table_live m' k \<longrightarrow> table_live m k"
    by (rule spec [OF assms [unfolded tables_agree_def]])
  show ?thesis
    unfolding counted_live_first first_live [OF agree] first_live [of "count_levels s" k, unfolded set, OF agree] set ..
qed

lemma counted_live_result:
  assumes "index_readable s"
  shows "counted_live st (gget (st_index s) k) \<longleftrightarrow> level_result st (index_value s k) \<noteq> None"
proof -
  have "gget (st_index s) k \<noteq> None \<longleftrightarrow> index_value s k \<noteq> None"
  proof (cases "gget (st_index s) k")
    case (Some l)
    with assms obtain v where "readRecord s l = Inr v" unfolding index_readable_def by blast
    with Some show ?thesis by (simp add: index_value_def)
  qed (simp add: index_value_def)
  then show ?thesis by (cases st) simp_all
qed

text \<open>
  When no key is live in one table and deleted in another, the count of a store whose cached
  count was invalidated is the number of keys of the map the acknowledged writes left.
\<close>

theorem count_is_size_of_map:
  assumes run: "store_run crc evs (pc, s)" and c: "\<not> st_closed s" "st_cachedCount s < 0" and agree: "tables_agree s"
  shows "fst (store_Count s) = int (card (dom (fold map_event evs Map.empty))) \<and> finite (dom (fold map_event evs Map.empty))"
proof -
  from run_refines_map [OF run] have inv: "index_readable s" "store_abs s = fold map_event evs Map.empty"
    by (simp_all add: store_inv_def)
  have "counted s = dom (store_abs s)"
    unfolding counted_def counted_levels [OF agree]
    unfolding counted_live_result [OF inv(1)] store_abs_eq [symmetric] by auto
  with inv(2) derivedCount_counted [of s] run_distinct [OF run] c show ?thesis
    by (simp add: tables_distinct_def store_Count_def Let_def)
qed

text \<open>
  Deleting a key whose value waits in a frozen table does not change the count, although the key
  can no longer be read and every other key can be read as before.
\<close>

theorem count_keeps_deleted:
  assumes run: "store_run crc evs (FIdle, s)" and t: "st_frozen s = [t]" "table_state (ft_table t) bin = LevelLive v"
    and act: "table_state (st_active s) bin = LevelAbsent"
    and del: "decodeKey key = Some bin" "store_Delete crc fault key s = (None, s1)"
  shows "store_get s bin = Inr v \<and> store_get s1 bin = Inl ErrNotFound \<and> (\<forall>k. k \<noteq> bin \<longrightarrow> store_get s1 k = store_get s k) \<and>
     fst (store_Count s1) = fst (store_Count (invalidateCount s))"
proof -
  have fl: "st_flushing s = None" using run_refines_map [OF run] by (simp add: store_inv_def)
  have lk: "lookupLevels s bin = LevelLive v" by (simp add: lookupLevels_def levels_def t act)
  then have live: "isLive s bin" by (simp add: isLive_def)
  then obtain wal where s1: "s1 = invalidateCount (applyDelete bin (s\<lparr>st_wal := wal\<rparr>))" and open': "\<not> st_closed s"
    using del by (auto simp: store_Delete_def split: if_splits sum.splits prod.splits)
  have f: "st_index s1 = gdel bin (st_index s)" "st_active s1 = mt_tombstone bin (st_active s)" "st_frozen s1 = [t]"
    "st_flushing s1 = None" "st_closed s1 = False" "st_cachedCount s1 = - 1" "st_disk s1 = st_disk s"
    using lk open' by (simp_all add: s1 applyDelete_def invalidateCount_def t fl lookupLevels_def levels_def)
  have lv: "levels s = [st_active s, ft_table t]" "levels s1 = [mt_tombstone bin (st_active s), ft_table t]"
    "count_levels s = [ft_table t, st_active s]" "count_levels s1 = [ft_table t, mt_tombstone bin (st_active s)]"
    by (simp_all add: levels_def count_levels_def f t fl)
  have rd: "readRecord s1 = readRecord s" by (rule readRecord_disk) (simp add: f)
  have get: "store_get s1 k = store_get s k" if "k \<noteq> bin" for k
  proof -
    have "lookupLevels s1 k = lookupLevels s k" "gget (st_index s1) k = gget (st_index s) k"
      using that by (simp_all add: lookupLevels_def lv table_state_tombstone f)
    then show ?thesis unfolding store_get_def rd by (simp only:)
  qed
  have "counted s1 = counted s"
    by (auto simp: counted_def lv table_state_tombstone f t)
  moreover have "gmap_ok (st_index s)" "gmap_ok (st_index s1)" using run_distinct [OF run] by (auto simp: tables_distinct_def f)
  ultimately have "derivedCount s1 = derivedCount s" using derivedCount_counted by metis
  moreover have "derivedCount (invalidateCount s) = derivedCount s" by (simp add: derivedCount_def invalidateCount_def)
  ultimately have "fst (store_Count s1) = fst (store_Count (invalidateCount s))"
    using open' by (simp add: store_Count_def f Let_def) (simp add: invalidateCount_def)
  moreover have "store_get s1 bin = Inl ErrNotFound" by (simp add: store_get_def lookupLevels_def lv table_state_tombstone)
  moreover have "store_get s bin = Inr v" by (simp add: store_get_def lk)
  ultimately show ?thesis using get by blast
qed

section \<open>Concrete runs\<close>

abbreviation frozen0 :: "bytes \<Rightarrow> nat \<Rightarrow> frozen_table" where
  "frozen0 v n \<equiv> \<lparr>ft_table = mt_put bin0 v newMemtable, ft_lsn = n\<rparr>"

lemma upserted_fields:
  "\<exists>s rss rs. store_run crc_zero [EvUpsert [put0 [7]]] (FIdle, s) \<and> st_frozen s = [frozen0 [7] 1] \<and> st_active s = newMemtable \<and>
     st_flushing s = None \<and> \<not> st_closed s \<and> st_lsn s = 1 \<and> st_cachedCount s = - 1 \<and> st_memtableRecords s = 1 \<and> st_index s = [] \<and>
     wal_inv crc_zero 0 0 rss rs (st_wal s) \<and> jn_lsn (st_wal s) = 1"
proof -
  from run_upserted [of "[7]" crc_zero] obtain s rss rs where run: "store_run crc_zero [EvUpsert [put0 [7]]] (FIdle, s)"
    and s: "s = (new_store empty_disk 1 0)\<lparr>st_wal := st_wal s, st_lsn := 1, st_frozen := [frozen0 [7] 1]\<rparr>"
    and w: "wal_inv crc_zero 0 0 rss rs (st_wal s)" "concat rss @ rs = [put0 [7]]"
    by (auto simp: MaxRecordBytes_def)
  have "length (concat rss @ rs) = 1" unfolding w(2) by simp
  then have "jn_lsn (st_wal s) = 1" using w(1) by (simp add: wal_inv_def)
  moreover have "st_frozen s = [frozen0 [7] 1] \<and> st_active s = newMemtable \<and> st_flushing s = None \<and> \<not> st_closed s \<and> st_lsn s = 1 \<and>
    st_cachedCount s = - 1 \<and> st_memtableRecords s = 1 \<and> st_index s = []"
    if "s = (new_store empty_disk 1 0)\<lparr>st_wal := j, st_lsn := 1, st_frozen := [frozen0 [7] 1]\<rparr>" for j
    using that by (simp add: new_store_def orDefault_def)
  ultimately show ?thesis using run w(1) s by blast
qed

theorem iterate_lists_map_witness:
  "\<exists>s kvs. store_Iterate s (\<lambda>_ _. True) = (map (\<lambda>(k, v). (encodeKey k, v)) kvs, None) \<and> (bin0, [7]) \<in> set kvs"
proof -
  from upserted_fields obtain s where s: "store_run crc_zero [EvUpsert [put0 [7]]] (FIdle, s)" "st_flushing s = None" "\<not> st_closed s" by blast
  from iterate_lists_map [OF s(1,3)] s(2) obtain kvs where
    "store_Iterate s (\<lambda>_ _. True) = (map (\<lambda>(k, v). (encodeKey k, v)) kvs, None)"
    "\<forall>k v. (k, v) \<in> set kvs \<longleftrightarrow> fold map_event [EvUpsert [put0 [7]]] Map.empty k = Some v" by blast
  moreover from this have "(bin0, [7]) \<in> set kvs" by simp
  ultimately show ?thesis by blast
qed

theorem count_is_size_of_map_witness: "\<exists>s. store_run crc_zero [EvUpsert [put0 [7]]] (FIdle, s) \<and> fst (store_Count s) = 1"
proof -
  from upserted_fields obtain s where s: "store_run crc_zero [EvUpsert [put0 [7]]] (FIdle, s)" "st_frozen s = [frozen0 [7] 1]"
    "st_active s = newMemtable" "st_flushing s = None" "\<not> st_closed s" "st_cachedCount s = - 1" by blast
  have "tables_agree s" by (simp add: tables_agree_def levels_def s table_live_def)
  with count_is_size_of_map [OF s(1,5)] s(6) have "fst (store_Count s) = int (card (dom [bin0 \<mapsto> [7]]))" by simp
  with s(1) show ?thesis by auto
qed

theorem count_keeps_deleted_witness:
  "\<exists>s s1. store_Delete crc_zero NoFault key0 s = (None, s1) \<and> store_get s1 bin0 = Inl ErrNotFound \<and>
     fst (store_Count s1) = fst (store_Count (invalidateCount s))"
proof -
  from upserted_fields obtain s rss rs where s: "store_run crc_zero [EvUpsert [put0 [7]]] (FIdle, s)" "st_frozen s = [frozen0 [7] 1]"
    "st_active s = newMemtable" "st_flushing s = None" "\<not> st_closed s" "wal_inv crc_zero 0 0 rss rs (st_wal s)" "jn_lsn (st_wal s) = 1" by blast
  have ts: "table_state (ft_table (frozen0 [7] 1)) bin0 = LevelLive [7]" by (simp add: table_state_put)
  then have live: "isLive s bin0" by (simp add: isLive_def lookupLevels_def levels_def s)
  from append_inv [OF s(6), of "[\<lparr>jr_Op = opDelete, jr_Key = bin0, jr_Value = []\<rparr>]"] s(7) obtain w where
    "Append crc_zero NoFault [\<lparr>jr_Op = opDelete, jr_Key = bin0, jr_Value = []\<rparr>] (st_wal s) = (Inr 2, w)"
    by (auto simp: rec_ok_def bin0_def MaxRecordBytes_def)
  then obtain s1 where s1: "store_Delete crc_zero NoFault key0 s = (None, s1)"
    by (simp add: store_Delete_def decode_key0 s(5) live)
  from count_keeps_deleted [OF s(1,2) ts _ decode_key0 s1] s(3) s1 show ?thesis by auto
qed

theorem iterate_hands_out_stale_witness:
  "\<exists>s kvs. store_get s bin0 = Inr [9] \<and> store_Iterate s (\<lambda>_ _. True) = (map (\<lambda>(k, v). (encodeKey k, v)) kvs, None) \<and> (bin0, [7]) \<in> set kvs"
proof -
  from upserted_fields obtain s rss rs where s: "store_run crc_zero [EvUpsert [put0 [7]]] (FIdle, s)" "st_frozen s = [frozen0 [7] 1]"
    "st_active s = newMemtable" "st_flushing s = None" "\<not> st_closed s" "st_lsn s = 1" "st_memtableRecords s = 1"
    "wal_inv crc_zero 0 0 rss rs (st_wal s)" "jn_lsn (st_wal s) = 1" by blast
  let ?b = "s\<lparr>st_frozen := [], st_flushing := Some (frozen0 [7] 1)\<rparr>"
  have "flush_begin s = Some (frozen0 [7] 1, ?b)" by (simp add: flush_begin_def s)
  from store_run.run_step [OF s(1) store_step.flush_take [OF this]]
  have b: "store_run crc_zero [EvUpsert [put0 [7]], EvNone] (FBegun (frozen0 [7] 1), ?b)" by simp
  from append_inv [OF s(8), of "[put0 [9]]"] s(9) obtain w where
    a: "Append crc_zero NoFault [put0 [9]] (st_wal s) = (Inr 2, w)"
    by (auto simp: rec_ok_def bin0_def MaxRecordBytes_def opUpsert_def opDelete_def)
  have rs: "batch_records [(key0, [9])] = Inr [put0 [9]]" by (simp add: decode_key0)
  have ts: "table_state (mt_put bin0 v newMemtable) bin0 = LevelLive v" if "v \<noteq> []" for v
    using that by (simp add: table_state_put)
  have len: "mt_len (mt_put bin0 [9] newMemtable) = 1" by (simp add: mt_len_def mt_put_def newMemtable_def)
  obtain th s2 where u: "UpsertBatch crc_zero NoFault [(key0, [9])] ?b = (None, th, s2)" "st_flushing s2 = Some (frozen0 [7] 1)"
    "st_frozen s2 = [frozen0 [9] 2]" "st_active s2 = newMemtable" "\<not> st_closed s2"
    unfolding UpsertBatch_def rs
    by (simp add: writeRecords_def a Let_def applyUpsert_def lookupLevels_def levels_def s ts memtablePressureLocked_def
        len freezeLocked_def invalidateCount_def)
  from store_run.run_step [OF b store_step.upsert_ok [OF _ u(1) rs]]
  have run: "store_run crc_zero [EvUpsert [put0 [7]], EvNone, EvUpsert [put0 [9]]] (FBegun (frozen0 [7] 1), s2)"
    by (simp add: small_batch_def MaxRecordBytes_def)
  from iterate_hands_out_stale [OF run u(5,2) _ u(3), of bin0 "[7]" "[9]"] show ?thesis by (auto simp: ts u(4))
qed

end
