(* ===== verification/StoreCompact.thy ===== *)
theory StoreCompact
  imports StoreScan
begin

text \<open>
  Compaction: it keeps the map a store stands for, and what a crash in the middle of it costs.
\<close>

section \<open>The registry of a run\<close>

definition registry_ok :: "store \<Rightarrow> bool" where
  "registry_ok s \<longleftrightarrow> (\<forall>k. gget (st_index s) k \<noteq> None \<longrightarrow> length k = 32) \<and>
     (\<forall>seq. gget (st_chunksMap s) seq \<noteq> None \<longrightarrow> seq \<le> st_nextSeq s)"






lemma registry_simps [simp]:
  "registry_ok (s\<lparr>st_wal := w\<rparr>) = registry_ok s" "registry_ok (s\<lparr>st_lsn := n\<rparr>) = registry_ok s"
  "registry_ok (invalidateCount s) = registry_ok s" "registry_ok (freezeLocked s) = registry_ok s"
  "registry_ok (persistIndex s) = registry_ok s" "registry_ok (persistMeta s) = registry_ok s"
  "registry_ok (s\<lparr>st_checkpointLSN := n\<rparr>) = registry_ok s" "registry_ok (s\<lparr>st_cachedCount := c\<rparr>) = registry_ok s"
  "registry_ok (flush_end t err s) = registry_ok s" "registry_ok (s\<lparr>st_frozen := f, st_flushing := g\<rparr>) = registry_ok s"
  by (auto simp: registry_ok_def invalidateCount_def freezeLocked_def persistIndex_def persistMeta_def flush_end_def Let_def split: option.split)





section \<open>One group of victims\<close>
















section \<open>Compaction keeps the map\<close>










lemma fold_quiet [simp]: "(map_event EvNone ^^ n) m = m"
  by (induction n) auto




section \<open>A crash during a compaction\<close>




section \<open>Concrete compactions\<close>





end
