(* ===== verification/ConnVerify.thy ===== *)
theory ConnVerify
  imports Config NetAddr
begin

text \<open>
  The verification of a tunnel (\<open>engine/connection/verify.go\<close>): the target set and its quorum,
  one probe of a target, the two rounds of \<open>VerifyTunnel\<close>, the classification of failures. The
  network enters as data: what parsing a target, the dial and the HTTP request returned, and at
  which points the context was found cancelled.
\<close>

section \<open>Options\<close>

definition DefaultVerifyTimeout :: duration where "DefaultVerifyTimeout = 12 * second"
definition MaxVerifyTargets :: nat where "MaxVerifyTargets = 4"

definition DefaultVerifyTargets :: "string list" where
  "DefaultVerifyTargets =
     [''https://www.gstatic.com/generate_204'', ''https://cp.cloudflare.com/generate_204'',
      ''https://www.apple.com/library/test/success.html'']"

record verify_options =
  vo_URL :: string
  vo_Targets :: "string list"
  vo_Timeout :: duration
  vo_PerTarget :: duration
  vo_Retries :: int
  vo_Backoff :: duration
  vo_Quorum :: int

definition verify_normalize :: "verify_options \<Rightarrow> verify_options" where
  "verify_normalize o0 =
     (let o1 = (if vo_Timeout o0 \<le> 0 then o0\<lparr>vo_Timeout := DefaultVerifyTimeout\<rparr> else o0);
          o2 = (if vo_PerTarget o1 \<le> 0 then o1\<lparr>vo_PerTarget := vo_Timeout o1 div 2\<rparr> else o1);
          o3 = (if vo_PerTarget o2 < second then o2\<lparr>vo_PerTarget := second\<rparr> else o2);
          o4 = (if vo_PerTarget o3 > 8 * second then o3\<lparr>vo_PerTarget := 8 * second\<rparr> else o3);
          o5 = (if vo_Retries o4 < 0 then o4\<lparr>vo_Retries := 0\<rparr> else o4);
          o6 = (if vo_Retries o5 > 2 then o5\<lparr>vo_Retries := 2\<rparr> else o5);
          o7 = (if vo_Retries o6 = 0 then o6\<lparr>vo_Retries := 1\<rparr> else o6)
      in if vo_Backoff o7 \<le> 0 then o7\<lparr>vo_Backoff := 400 * 1000000\<rparr> else o7)"

definition effectiveTargets :: "verify_options \<Rightarrow> string list" where
  "effectiveTargets o0 =
     (if vo_URL o0 \<noteq> [] then [vo_URL o0]
      else let targets = filter (\<lambda>t. t \<noteq> []) (map TrimSpace (vo_Targets o0))
           in take MaxVerifyTargets (if targets = [] then DefaultVerifyTargets else targets))"

definition quorumFor :: "nat \<Rightarrow> int \<Rightarrow> int" where
  "quorumFor n requested =
     (if requested > 0 then (if requested > int n then int n else requested)
      else let q = (int n + 1) div 2 in if q < 1 then 1 else q)"

section \<open>Failure classes\<close>

definition FailureNone :: string where "FailureNone = []"
definition FailureTimeout :: string where "FailureTimeout = ''timeout''"
definition FailureRefused :: string where "FailureRefused = ''refused''"
definition FailureReset :: string where "FailureReset = ''reset''"
definition FailureTLS :: string where "FailureTLS = ''tls''"
definition FailureHTTP :: string where "FailureHTTP = ''http_status''"
definition FailureProxyHand :: string where "FailureProxyHand = ''proxy_handshake''"
definition FailureCore :: string where "FailureCore = ''core''"

lemmas failure_defs = FailureNone_def FailureTimeout_def FailureRefused_def FailureReset_def FailureTLS_def
  FailureHTTP_def FailureProxyHand_def FailureCore_def

text \<open>\<open>lower\<close> is the Unicode part of \<open>strings.ToLower\<close>.\<close>

definition ClassifyVerifyFailure :: "(string \<Rightarrow> string) \<Rightarrow> url_metrics \<Rightarrow> string" where
  "ClassifyVerifyFailure lower m =
     (if um_OK m then FailureNone
      else if um_Error m = ''timeout'' then FailureTimeout
      else if um_Error m = ''refused'' then FailureRefused
      else if um_Error m = ''reset'' then FailureReset
      else if um_Error m = ''proxy'' then FailureProxyHand
      else if um_Error m = ''cancelled'' then FailureTimeout
      else let low = ToLower lower (um_Error m) in
           if str_contains low ''tls'' \<or> str_contains low ''certificate'' \<or> str_contains low ''handshake'' then FailureTLS
           else if um_Status m \<ge> 400 then FailureHTTP
           else FailureReset)"

record target_result =
  tr_URL :: string
  tr_OK :: bool
  tr_Status :: int
  tr_LatencyMS :: int
  tr_Measured :: bool
  tr_TunnelProbeMS :: int
  tr_Attempts :: int
  tr_Retried :: bool
  tr_Error :: string
  tr_FailureClass :: string
  tr_Timeout :: bool

definition isTransient :: "target_result \<Rightarrow> bool" where
  "isTransient t =
     (if tr_FailureClass t \<in> {FailureTimeout, FailureReset, FailureProxyHand} then True
      else if tr_FailureClass t = FailureHTTP then tr_Status t \<ge> 500
      else False)"

definition aggregate_order :: "string list" where
  "aggregate_order = [FailureCore, FailureRefused, FailureTLS, FailureHTTP, FailureProxyHand, FailureReset, FailureTimeout]"

definition class_counts :: "target_result list \<Rightarrow> string \<Rightarrow> nat" where
  "class_counts targets c = length (filter (\<lambda>t. \<not> tr_OK t \<and> tr_FailureClass t \<noteq> FailureNone \<and> tr_FailureClass t = c) targets)"

definition aggregateFailureClass :: "target_result list \<Rightarrow> bool \<Rightarrow> string" where
  "aggregateFailureClass targets cancelled =
     (if cancelled then FailureTimeout
      else if list_all (\<lambda>t. tr_OK t \<or> tr_FailureClass t = FailureNone) targets then FailureReset
      else case filter (\<lambda>c. class_counts targets c > 0) aggregate_order of
             [] \<Rightarrow> FailureReset
           | c # _ \<Rightarrow> c)"

section \<open>One probe\<close>

text \<open>An error of the network: its text, whether it is of the timeout family and whether it is a cancellation.\<close>

record net_error =
  ne_msg :: string
  ne_timeout :: bool
  ne_cancelled :: bool

definition boundedText :: "string \<Rightarrow> nat \<Rightarrow> string" where
  "boundedText s limit = (if length s \<le> limit then s else take limit s)"

definition classifyDialError :: "net_error option \<Rightarrow> string" where
  "classifyDialError err =
     (case err of
        None \<Rightarrow> []
      | Some e \<Rightarrow>
          if ne_timeout e \<or> str_contains (ne_msg e) ''timeout'' \<or> str_contains (ne_msg e) ''timed out'' \<or>
             str_contains (ne_msg e) ''deadline'' then ''timeout''
          else if str_contains (ne_msg e) ''refused'' then ''refused''
          else if str_contains (ne_msg e) ''reset'' then ''reset''
          else if ne_cancelled e then ''cancelled''
          else if str_contains (ne_msg e) ''socks'' then ''proxy''
          else boundedText (ne_msg e) 80)"

definition verify_joinHostPort :: "string \<Rightarrow> string \<Rightarrow> string" where
  "verify_joinHostPort host port =
     (if CHR '':'' \<in> set host \<and> \<not> HasPrefix host ''['' then ''['' @ host @ '']:'' @ port else host @ '':'' @ port)"

definition no_metrics :: url_metrics where
  "no_metrics = \<lparr>um_URL = [], um_DNSMS = 0, um_ConnectMS = 0, um_TLSMS = 0, um_TTFBMS = 0, um_TotalMS = 0, um_Status = 0,
     um_Bytes = 0, um_OK = False, um_Timeout = False, um_Error = [], um_At = 0\<rparr>"

text \<open>What the HTTP request through the tunnel gave: an error with the elapsed time, or a status.\<close>

datatype http_outcome = HttpBadRequest | HttpError net_error int | HttpStatus int int

definition http_ok :: "int \<Rightarrow> bool" where
  "http_ok status \<longleftrightarrow> status \<ge> 200 \<and> status < 400"

definition verifyThroughDialer :: "string \<Rightarrow> int \<Rightarrow> http_outcome \<Rightarrow> url_metrics" where
  "verifyThroughDialer targetURL started out =
     (case out of
        HttpBadRequest \<Rightarrow> no_metrics\<lparr>um_URL := targetURL, um_At := started, um_Error := ''invalid request''\<rparr>
      | HttpError e ms \<Rightarrow> no_metrics\<lparr>um_URL := targetURL, um_At := started, um_Error := classifyDialError (Some e),
                                    um_Timeout := ne_timeout e, um_TotalMS := ms\<rparr>
      | HttpStatus status ms \<Rightarrow>
          no_metrics\<lparr>um_URL := targetURL, um_At := started, um_Status := status, um_OK := http_ok status, um_TotalMS := ms,
                     um_Error := (if http_ok status then [] else ''HTTP '' @ Itoa status @ '' through tunnel'')\<rparr>)"

text \<open>
  What a probe meets: whether the target parses to a host (\<open>pb_host\<close>), the time left before the
  overall deadline, the outcome and duration of the dial, the outcome of the request.
\<close>

record probe_env =
  pb_host :: bool
  pb_remaining :: "duration option"
  pb_dial :: "net_error option"
  pb_dialMS :: int
  pb_http :: http_outcome
  pb_at :: int

definition MarkedInvalid :: "string \<Rightarrow> target_result \<Rightarrow> target_result" where
  "MarkedInvalid reason t = t\<lparr>tr_Error := reason, tr_FailureClass := FailureCore\<rparr>"

definition probe_budget :: "verify_options \<Rightarrow> probe_env \<Rightarrow> duration" where
  "probe_budget opts pe =
     (case pb_remaining pe of
        None \<Rightarrow> vo_PerTarget opts
      | Some r \<Rightarrow> if r < vo_PerTarget opts then r else vo_PerTarget opts)"

definition probeTarget :: "(string \<Rightarrow> string) \<Rightarrow> verify_options \<Rightarrow> string \<Rightarrow> probe_env \<Rightarrow> target_result" where
  "probeTarget lower opts targetURL pe =
     (let t = \<lparr>tr_URL = targetURL, tr_OK = False, tr_Status = 0, tr_LatencyMS = 0, tr_Measured = False, tr_TunnelProbeMS = 0,
               tr_Attempts = 1, tr_Retried = False, tr_Error = [], tr_FailureClass = FailureNone, tr_Timeout = False\<rparr>
      in if \<not> pb_host pe then MarkedInvalid ''invalid verify target'' t
         else if probe_budget opts pe \<le> 0 then MarkedInvalid ''verification budget exhausted'' t
         else case pb_dial pe of
           Some e \<Rightarrow>
             let msg = classifyDialError (Some e) in
             t\<lparr>tr_LatencyMS := pb_dialMS pe, tr_Measured := pb_dialMS pe > 0, tr_Error := msg,
               tr_Timeout := ne_timeout e \<or> msg = ''timeout'',
               tr_FailureClass := ClassifyVerifyFailure lower (no_metrics\<lparr>um_Error := msg\<rparr>)\<rparr>
         | None \<Rightarrow>
             let m = verifyThroughDialer targetURL (pb_at pe) (pb_http pe);
                 r = t\<lparr>tr_TunnelProbeMS := pb_dialMS pe, tr_Status := um_Status m, tr_LatencyMS := um_TotalMS m, tr_Measured := True,
                       tr_Error := um_Error m, tr_Timeout := um_Timeout m, tr_FailureClass := ClassifyVerifyFailure lower m\<rparr>
             in if um_OK m then r\<lparr>tr_OK := True, tr_Error := [], tr_FailureClass := FailureNone\<rparr> else r)"

section \<open>The rounds\<close>

record verify_result =
  vr_OK :: bool
  vr_Metrics :: url_metrics
  vr_TunnelProbeMS :: int
  vr_FailureClass :: string
  vr_Targets :: "target_result list"
  vr_Succeeded :: int
  vr_Required :: int
  vr_Probes :: int
  vr_Retries :: int

definition no_verify :: verify_result where
  "no_verify = \<lparr>vr_OK = False, vr_Metrics = no_metrics, vr_TunnelProbeMS = 0, vr_FailureClass = [], vr_Targets = [], vr_Succeeded = 0,
     vr_Required = 0, vr_Probes = 0, vr_Retries = 0\<rparr>"

definition maxOne :: "int \<Rightarrow> int" where
  "maxOne v = (if v < 1 then 1 else v)"

definition verify_Describe :: "verify_result \<Rightarrow> string" where
  "verify_Describe r =
     (if vr_OK r then
        ''verified: '' @ (if vr_Required r > 0 then ''quorum '' @ Itoa (vr_Succeeded r) @ ''/'' @ Itoa (vr_Required r) else ''quorum'') @
        '' (HTTP '' @ Itoa (um_Status (vr_Metrics r)) @ '' in '' @ Itoa (um_TotalMS (vr_Metrics r)) @ '' ms, tunnel probe '' @
        Itoa (vr_TunnelProbeMS r) @ '' ms, '' @ Itoa (maxOne (vr_Probes r)) @ '' probes)''
      else if vr_FailureClass r = FailureCore then
        ''verification failed ('' @ vr_FailureClass r @ ''): '' @ um_Error (vr_Metrics r)
      else
        ''verification failed ('' @ vr_FailureClass r @ '', '' @ Itoa (vr_Succeeded r) @ ''/'' @ Itoa (maxOne (vr_Required r)) @
        '' targets): '' @ um_Error (vr_Metrics r))"

definition tally :: "target_result list \<Rightarrow> int \<times> int" where
  "tally results = (int (length (filter tr_OK results)), sum_list (map tr_Attempts results))"

definition retryableTargets :: "target_result list \<Rightarrow> string list" where
  "retryableTargets results =
     map tr_URL (filter (\<lambda>t. \<not> tr_OK t \<and> isTransient t \<and>
        \<not> (tr_FailureClass t = FailureTimeout \<and> \<not> tr_Timeout t \<and> tr_Error t = [])) results)"

definition mergeTargetResult :: "target_result \<Rightarrow> target_result \<Rightarrow> target_result" where
  "mergeTargetResult standing retry = retry\<lparr>tr_Attempts := tr_Attempts standing + 1, tr_Retried := True\<rparr>"

text \<open>The slot of a URL is the last target with it.\<close>

definition last_index :: "target_result list \<Rightarrow> string \<Rightarrow> nat option" where
  "last_index results u = gget (rev (zip (map tr_URL results) [0..<length results])) u"

fun merge_retries :: "target_result list \<Rightarrow> (string \<Rightarrow> nat option) \<Rightarrow> target_result list \<Rightarrow> int \<Rightarrow> target_result list \<times> int" where
  "merge_retries results index [] probes = (results, probes)"
| "merge_retries results index (r # retried) probes =
     (case index (tr_URL r) of
        None \<Rightarrow> merge_retries results index retried probes
      | Some i \<Rightarrow> merge_retries (results[i := mergeTargetResult (results ! i) r]) index retried (probes + 1))"

fun best_target :: "nat \<Rightarrow> target_result list \<Rightarrow> (nat \<times> int) option \<Rightarrow> (nat \<times> int) option" where
  "best_target i [] best = best"
| "best_target i (t # ts) best =
     best_target (Suc i) ts
       (if \<not> tr_OK t then best
        else case best of
               None \<Rightarrow> Some (i, tr_LatencyMS t)
             | Some (j, l) \<Rightarrow> if tr_LatencyMS t < l then Some (i, tr_LatencyMS t) else best)"

definition finishSuccess :: "int \<Rightarrow> verify_result \<Rightarrow> verify_result" where
  "finishSuccess now r =
     (case best_target 0 (vr_Targets r) None of
        None \<Rightarrow> r\<lparr>vr_OK := True\<rparr>
      | Some (i, _) \<Rightarrow>
          let winner = vr_Targets r ! i in
          r\<lparr>vr_Metrics := no_metrics\<lparr>um_URL := tr_URL winner, um_At := now, um_Status := tr_Status winner, um_OK := True,
                                    um_TotalMS := tr_LatencyMS winner\<rparr>,
            vr_TunnelProbeMS := tr_TunnelProbeMS winner, vr_OK := True\<rparr>)"

fun failure_loop :: "int \<Rightarrow> target_result list \<Rightarrow> url_metrics \<Rightarrow> url_metrics" where
  "failure_loop now [] m = m"
| "failure_loop now (t # ts) m =
     (if tr_OK t then failure_loop now ts m
      else let m1 = m\<lparr>um_URL := tr_URL t, um_At := now\<rparr> in
           if tr_Status t > 0 then m1\<lparr>um_Status := tr_Status t, um_Error := ''HTTP '' @ Itoa (tr_Status t) @ '' through tunnel''\<rparr>
           else failure_loop now ts (m1\<lparr>um_Error := boundedText (tr_Error t) 120, um_Timeout := tr_Timeout t\<rparr>))"

definition failureMetrics :: "int \<Rightarrow> target_result list \<Rightarrow> url_metrics" where
  "failureMetrics now results = failure_loop now results no_metrics"

text \<open>
  The environment of a verification: what each probe of each round meets, and whether the context is
  cancelled after the first round, after the backoff and at the end.
\<close>

record verify_env =
  ve_probe :: "nat \<Rightarrow> nat \<Rightarrow> probe_env"
  ve_cancelled1 :: bool
  ve_cancelled2 :: bool
  ve_cancelled3 :: bool
  ve_now :: int

definition probeTargets :: "(string \<Rightarrow> string) \<Rightarrow> verify_options \<Rightarrow> (nat \<Rightarrow> probe_env) \<Rightarrow> string list \<Rightarrow> target_result list" where
  "probeTargets lower opts envs targets = map (\<lambda>(i, t). probeTarget lower opts t (envs i)) (enumerate 0 targets)"

definition VerifyTunnel :: "(string \<Rightarrow> string) \<Rightarrow> verify_env \<Rightarrow> string \<Rightarrow> verify_options \<Rightarrow> verify_result" where
  "VerifyTunnel lower ve endpoint opts0 =
     (let opts = verify_normalize opts0;
          targets = effectiveTargets opts;
          r0 = no_verify\<lparr>vr_Required := quorumFor (length targets) (vo_Quorum opts)\<rparr>
      in if endpoint = [] then r0\<lparr>vr_Metrics := no_metrics\<lparr>um_Error := ''no local endpoint''\<rparr>, vr_FailureClass := FailureCore\<rparr>
         else
           let results = probeTargets lower opts (ve_probe ve 0) targets;
               r1 = r0\<lparr>vr_Targets := results, vr_Succeeded := fst (tally results), vr_Probes := snd (tally results)\<rparr>
           in if vr_Succeeded r1 \<ge> vr_Required r1 then finishSuccess (ve_now ve) r1
              else
                let retries = retryableTargets results;
                    r2 = (if retries \<noteq> [] \<and> \<not> ve_cancelled1 ve \<and> \<not> ve_cancelled2 ve then
                            (let retried = probeTargets lower opts (ve_probe ve 1) retries in
                             case merge_retries results (last_index results) retried (vr_Probes r1) of
                               (merged, probes) \<Rightarrow>
                                 r1\<lparr>vr_Targets := merged, vr_Succeeded := fst (tally merged), vr_Probes := probes,
                                    vr_Retries := int (length retried)\<rparr>)
                          else r1)
                in if ve_cancelled3 ve then
                     r2\<lparr>vr_FailureClass := aggregateFailureClass (vr_Targets r2) True, vr_Metrics := failureMetrics (ve_now ve) (vr_Targets r2)\<rparr>
                   else if vr_Succeeded r2 \<ge> vr_Required r2 then finishSuccess (ve_now ve) r2
                   else r2\<lparr>vr_FailureClass := aggregateFailureClass (vr_Targets r2) False,
                           vr_Metrics := failureMetrics (ve_now ve) (vr_Targets r2)\<rparr>)"

section \<open>Targets and quorum\<close>

lemma effectiveTargets_bounds: "1 \<le> length (effectiveTargets opts) \<and> length (effectiveTargets opts) \<le> MaxVerifyTargets"
  by (auto simp: effectiveTargets_def Let_def MaxVerifyTargets_def DefaultVerifyTargets_def Suc_le_eq)

lemma quorum_bounds: "1 \<le> n \<Longrightarrow> 1 \<le> quorumFor n requested \<and> quorumFor n requested \<le> int n"
  by (auto simp: quorumFor_def Let_def)

text \<open>Without a request the quorum is the half rounded up: for an even number of targets that is not a majority.\<close>

lemma quorum_half: "requested \<le> 0 \<Longrightarrow> 1 \<le> n \<Longrightarrow> quorumFor n requested = (int n + 1) div 2"
  by (auto simp: quorumFor_def Let_def)

lemma quorum_no_majority: "quorumFor 2 0 = 1 \<and> quorumFor 4 0 = 2"
  by (simp add: quorumFor_def)


section \<open>The winner\<close>





lemma finishSuccess_frame [simp]:
  "vr_OK (finishSuccess now r)" "vr_Targets (finishSuccess now r) = vr_Targets r" "vr_Succeeded (finishSuccess now r) = vr_Succeeded r"
  "vr_Required (finishSuccess now r) = vr_Required r" "vr_FailureClass (finishSuccess now r) = vr_FailureClass r"
  "vr_Probes (finishSuccess now r) = vr_Probes r" "vr_Retries (finishSuccess now r) = vr_Retries r"
  by (auto simp: finishSuccess_def Let_def split: option.split)

section \<open>Verdicts\<close>

text \<open>The result before the verdict: after one round or after two.\<close>

definition verify_round1 :: "(string \<Rightarrow> string) \<Rightarrow> verify_env \<Rightarrow> verify_options \<Rightarrow> target_result list" where
  "verify_round1 lower ve opts0 = probeTargets lower (verify_normalize opts0) (ve_probe ve 0) (effectiveTargets (verify_normalize opts0))"





lemma VerifyTunnel_cases:
  fixes lower ve opts0
  defines "opts \<equiv> verify_normalize opts0"
  defines "results \<equiv> verify_round1 lower ve opts0"
  defines "r1 \<equiv> no_verify\<lparr>vr_Required := quorumFor (length (effectiveTargets opts)) (vo_Quorum opts), vr_Targets := results,
             vr_Succeeded := fst (tally results), vr_Probes := snd (tally results)\<rparr>"
  defines "retried \<equiv> probeTargets lower opts (ve_probe ve 1) (retryableTargets results)"
  assumes e: "endpoint \<noteq> []"
  obtains (first) "vr_Required r1 \<le> vr_Succeeded r1" "VerifyTunnel lower ve endpoint opts0 = finishSuccess (ve_now ve) r1"
  | (second) r2 where "r2 = r1 \<or> (\<exists>merged probes. merge_retries results (last_index results) retried (vr_Probes r1) = (merged, probes) \<and>
         r2 = r1\<lparr>vr_Targets := merged, vr_Succeeded := fst (tally merged), vr_Probes := probes, vr_Retries := int (length retried)\<rparr>)"
      "(vr_Required r2 \<le> vr_Succeeded r2 \<and> VerifyTunnel lower ve endpoint opts0 = finishSuccess (ve_now ve) r2) \<or>
       (\<exists>c. VerifyTunnel lower ve endpoint opts0 =
          r2\<lparr>vr_FailureClass := aggregateFailureClass (vr_Targets r2) c, vr_Metrics := failureMetrics (ve_now ve) (vr_Targets r2)\<rparr>)"
proof (cases "vr_Required r1 \<le> vr_Succeeded r1")
  case True
  then show ?thesis using e by (intro first) (simp_all add: VerifyTunnel_def Let_def r1_def results_def verify_round1_def opts_def)
next
  case False
  define r2 where "r2 = (if retryableTargets results \<noteq> [] \<and> \<not> ve_cancelled1 ve \<and> \<not> ve_cancelled2 ve then
      (case merge_retries results (last_index results) retried (vr_Probes r1) of
         (merged, probes) \<Rightarrow> r1\<lparr>vr_Targets := merged, vr_Succeeded := fst (tally merged), vr_Probes := probes, vr_Retries := int (length retried)\<rparr>)
      else r1)"
  have "VerifyTunnel lower ve endpoint opts0 =
      (if ve_cancelled3 ve then r2\<lparr>vr_FailureClass := aggregateFailureClass (vr_Targets r2) True, vr_Metrics := failureMetrics (ve_now ve) (vr_Targets r2)\<rparr>
       else if vr_Required r2 \<le> vr_Succeeded r2 then finishSuccess (ve_now ve) r2
       else r2\<lparr>vr_FailureClass := aggregateFailureClass (vr_Targets r2) False, vr_Metrics := failureMetrics (ve_now ve) (vr_Targets r2)\<rparr>)"
    using e False unfolding VerifyTunnel_def Let_def r2_def retried_def r1_def results_def verify_round1_def opts_def by simp
  then show ?thesis by (intro second [of r2]) (auto simp: r2_def split: prod.splits if_splits)
qed


lemma probeTarget_attempts [simp]: "tr_Attempts (probeTarget lower opts u pe) = 1" "tr_URL (probeTarget lower opts u pe) = u"
  by (simp_all add: probeTarget_def Let_def MarkedInvalid_def split: option.split)

lemma length_probeTargets [simp]: "length (probeTargets lower opts envs ts) = length ts"
  by (simp add: probeTargets_def)

lemma probeTargets_attempts: "sum_list (map tr_Attempts (probeTargets lower opts envs ts)) = int (length ts)"
proof -
  have "map tr_Attempts (probeTargets lower opts envs ts) = map (\<lambda>_. 1) (enumerate 0 ts)"
    by (simp add: probeTargets_def case_prod_unfold)
  then show ?thesis by (simp add: sum_list_triv)
qed

lemma probeTargets_urls: "map tr_URL (probeTargets lower opts envs ts) = ts"
  by (simp add: probeTargets_def case_prod_unfold map_snd_enumerate [symmetric] del: map_snd_enumerate) (simp add: comp_def)

lemma merge_retries_bounds:
  "merge_retries results index retried probes = (merged, probes') \<Longrightarrow>
   length merged = length results \<and> probes \<le> probes' \<and> probes' \<le> probes + int (length retried)"
  by (induction results index retried probes rule: merge_retries.induct) (auto split: option.splits)

lemma retryable_length: "length (retryableTargets results) \<le> length results"
  by (simp add: retryableTargets_def)


text \<open>
  A verification is bounded: it probes one to four targets, at most eight times in all, and its
  quorum lies between one and the number of targets.
\<close>

theorem verify_bounded:
  "vr_Probes (VerifyTunnel lower ve endpoint opts) \<le> 8 \<and> vr_Retries (VerifyTunnel lower ve endpoint opts) \<le> 4 \<and>
   length (vr_Targets (VerifyTunnel lower ve endpoint opts)) \<le> 4 \<and>
   1 \<le> vr_Required (VerifyTunnel lower ve endpoint opts) \<and> vr_Required (VerifyTunnel lower ve endpoint opts) \<le> 4"
proof -
  let ?o = "verify_normalize opts" and ?res = "verify_round1 lower ve opts"
  have n: "1 \<le> length (effectiveTargets ?o)" "length (effectiveTargets ?o) \<le> 4"
    using effectiveTargets_bounds [of ?o] by (simp_all add: MaxVerifyTargets_def)
  have q: "1 \<le> quorumFor (length (effectiveTargets ?o)) (vo_Quorum ?o)" "quorumFor (length (effectiveTargets ?o)) (vo_Quorum ?o) \<le> 4"
    using quorum_bounds [OF n(1), of "vo_Quorum ?o"] n(2) by linarith+
  have res: "length ?res = length (effectiveTargets ?o)" "snd (tally ?res) = int (length (effectiveTargets ?o))"
    by (simp_all add: verify_round1_def tally_def probeTargets_attempts)
  have ret: "length (retryableTargets ?res) \<le> 4" using retryable_length [of ?res] res n by simp
  show ?thesis
  proof (cases "endpoint = []")
    case True
    then show ?thesis using q by (simp add: VerifyTunnel_def Let_def no_verify_def)
  next
    case False
    then show ?thesis
    proof (cases rule: VerifyTunnel_cases [where lower = lower and ve = ve and ?opts0.0 = opts])
      case first
      then show ?thesis using q n res by (simp add: no_verify_def)
    next
      case (second r2)
      have "vr_Probes r2 \<le> 8 \<and> vr_Retries r2 \<le> 4 \<and> length (vr_Targets r2) \<le> 4 \<and> 1 \<le> vr_Required r2 \<and> vr_Required r2 \<le> 4"
        using second(1) q n res ret by (auto simp: no_verify_def dest!: merge_retries_bounds)
      with second(2) show ?thesis by auto
    qed
  qed
qed

section \<open>Retries\<close>

lemma merge_retries_other:
  "merge_retries results index retried probes = (merged, probes') \<Longrightarrow> \<forall>r \<in> set retried. index (tr_URL r) \<noteq> Some i \<Longrightarrow>
   merged ! i = results ! i"
  by (induction results index retried probes rule: merge_retries.induct) (auto split: option.splits)

lemma last_index_some:
  assumes "last_index results u = Some i"
  shows "i < length results \<and> tr_URL (results ! i) = u"
proof -
  have "(u, i) \<in> set (zip (map tr_URL results) [0..<length results])"
    using map_of_SomeD [OF assms [unfolded last_index_def]] by simp
  then show ?thesis by (auto simp: set_zip)
qed

text \<open>
  Only transient failures are probed again: when the targets are distinct, a target that answered
  in the first round or failed for a reason that is not transient is reported as the first round
  left it, with one attempt.
\<close>

theorem verify_retries_only_transient:
  assumes e: "endpoint \<noteq> []" and d: "distinct (effectiveTargets (verify_normalize opts))"
    and i: "i < length (verify_round1 lower ve opts)"
    and t: "tr_OK (verify_round1 lower ve opts ! i) \<or> \<not> isTransient (verify_round1 lower ve opts ! i)"
  shows "vr_Targets (VerifyTunnel lower ve endpoint opts) ! i = verify_round1 lower ve opts ! i \<and>
     tr_Attempts (verify_round1 lower ve opts ! i) = 1"
proof -
  let ?res = "verify_round1 lower ve opts"
  have urls: "map tr_URL ?res = effectiveTargets (verify_normalize opts)" by (simp add: verify_round1_def probeTargets_urls)
  have att: "tr_Attempts (?res ! i) = 1" using i by (simp add: verify_round1_def probeTargets_def case_prod_unfold)
  have notin: "tr_URL (?res ! i) \<notin> set (retryableTargets ?res)"
  proof
    assume "tr_URL (?res ! i) \<in> set (retryableTargets ?res)"
    then obtain k where k: "k < length ?res" "tr_URL (?res ! k) = tr_URL (?res ! i)" "\<not> tr_OK (?res ! k)" "isTransient (?res ! k)"
      by (auto simp: retryableTargets_def in_set_conv_nth)
    have "k = i" using d [folded urls] k(1,2) i by (metis length_map nth_eq_iff_index_eq nth_map)
    with k t show False by simp
  qed
  have other: "merged ! i = ?res ! i"
    if "merge_retries ?res (last_index ?res) (probeTargets lower o' envs (retryableTargets ?res)) n = (merged, n')" for o' envs n merged n'
  proof (rule merge_retries_other [OF that], safe)
    fix r assume "r \<in> set (probeTargets lower o' envs (retryableTargets ?res))" "last_index ?res (tr_URL r) = Some i"
    moreover have "tr_URL r \<in> set (retryableTargets ?res)"
      using calculation(1) probeTargets_urls [of lower o' envs "retryableTargets ?res"] by (metis image_eqI list.set_map)
    ultimately show False using last_index_some notin by metis
  qed
  from e show ?thesis
  proof (cases rule: VerifyTunnel_cases [where lower = lower and ve = ve and ?opts0.0 = opts])
    case first
    then show ?thesis using att by simp
  next
    case (second r2)
    have "vr_Targets r2 ! i = ?res ! i" using second(1) other by auto
    with second(2) att show ?thesis by auto
  qed
qed

definition invalid_env :: verify_env where
  "invalid_env = \<lparr>ve_probe = (\<lambda>_ _. \<lparr>pb_host = False, pb_remaining = None, pb_dial = None, pb_dialMS = 0, pb_http = HttpBadRequest, pb_at = 0\<rparr>),
     ve_cancelled1 = False, ve_cancelled2 = False, ve_cancelled3 = False, ve_now = 0\<rparr>"

definition one_target :: verify_options where
  "one_target = \<lparr>vo_URL = ''https://a'', vo_Targets = [], vo_Timeout = 0, vo_PerTarget = 0, vo_Retries = 0, vo_Backoff = 0, vo_Quorum = 0\<rparr>"

theorem verify_retries_only_transient_witness:
  "tr_FailureClass (vr_Targets (VerifyTunnel id invalid_env ''127.0.0.1:1080'' one_target) ! 0) = FailureCore \<and>
   tr_Attempts (vr_Targets (VerifyTunnel id invalid_env ''127.0.0.1:1080'' one_target) ! 0) = 1"
proof -
  have targets: "effectiveTargets (verify_normalize one_target) = [''https://a'']"
    by (simp add: effectiveTargets_def verify_normalize_def one_target_def DefaultVerifyTimeout_def second_def)
  have r: "length (verify_round1 id invalid_env one_target) = 1" "tr_FailureClass (verify_round1 id invalid_env one_target ! 0) = FailureCore"
    by (simp_all add: verify_round1_def targets probeTargets_def probeTarget_def invalid_env_def MarkedInvalid_def Let_def)
  have "\<not> isTransient (verify_round1 id invalid_env one_target ! 0)" unfolding isTransient_def r(2) by (simp add: failure_defs)
  with verify_retries_only_transient [of "''127.0.0.1:1080''" one_target 0 id invalid_env] targets r show ?thesis by simp
qed

end
