(* ===== verification/CoreSelect.thy ===== *)
theory CoreSelect
  imports ConfigProps "HOL-Library.List_Lexorder" "HOL-Library.Product_Lexorder" "HOL-Library.Char_ord"
begin

text \<open>
  The registry of protocol cores (\<open>engine/core\<close>): declared capabilities (\<open>capability.go\<close>), the
  registered backends with the result of their discovery (\<open>registry.go\<close>), the deterministic
  selection of a backend (\<open>selection.go\<close>) and the cache of generated documents
  (\<open>gencache.go\<close>). A backend's own code enters as its name, its \<open>Supports\<close> predicate and its
  optional capability declaration; the executable locator is a parameter of the refresh.
\<close>

section \<open>Capabilities\<close>

record capabilities =
  ca_Protocols :: "string list"
  ca_Transports :: "string list"
  ca_Securities :: "string list"
  ca_Flows :: "string list"
  ca_TLSMandatory :: "string list"
  ca_ECH :: bool

definition SupportsECH :: "capabilities \<Rightarrow> 'a config_base_scheme \<Rightarrow> bool" where
  "SupportsECH c cfg \<longleftrightarrow> \<not> c_ECHEnabled cfg \<or> ca_ECH c"

definition SupportsProtocol :: "capabilities \<Rightarrow> string \<Rightarrow> bool" where
  "SupportsProtocol c t \<longleftrightarrow> t \<in> set (ca_Protocols c)"

definition SupportsTransport :: "capabilities \<Rightarrow> string \<Rightarrow> bool" where
  "SupportsTransport c network \<longleftrightarrow> (if network = [] \<or> network = ''tcp'' then ''tcp'' else network) \<in> set (ca_Transports c)"

definition SupportsSecurity :: "capabilities \<Rightarrow> string \<Rightarrow> bool" where
  "SupportsSecurity c security \<longleftrightarrow> (if security = [] then ''none'' else security) \<in> set (ca_Securities c)"

definition SupportsFlow :: "capabilities \<Rightarrow> string \<Rightarrow> bool" where
  "SupportsFlow c flow \<longleftrightarrow> flow = [] \<or> flow \<in> set (ca_Flows c)"

definition RequiresTLS :: "capabilities \<Rightarrow> string \<Rightarrow> bool" where
  "RequiresTLS c t \<longleftrightarrow> t \<in> set (ca_TLSMandatory c)"

definition cap_Matches :: "capabilities \<Rightarrow> 'a config_base_scheme \<Rightarrow> bool" where
  "cap_Matches c cfg \<longleftrightarrow> SupportsProtocol c (c_Type cfg) \<and> SupportsTransport c (c_Network cfg) \<and>
     SupportsSecurity c (c_Security cfg) \<and> SupportsFlow c (c_Flow cfg) \<and> SupportsECH c cfg"

definition cap_Summary :: "capabilities \<Rightarrow> string" where
  "cap_Summary c =
     str_join '' ''
       ((if ca_Protocols c \<noteq> [] then [str_join ''/'' (ca_Protocols c)] else []) @
        (if ca_Transports c \<noteq> [] then [str_join ''/'' (ca_Transports c)] else []) @
        (if length (ca_Securities c) > 1 \<or> length (ca_Securities c) = 1 \<and> hd (ca_Securities c) \<noteq> ''none''
         then [str_join ''/'' (ca_Securities c)] else []))"

definition no_capabilities :: capabilities where
  "no_capabilities = \<lparr>ca_Protocols = [], ca_Transports = [], ca_Securities = [], ca_Flows = [], ca_TLSMandatory = [], ca_ECH = False\<rparr>"

section \<open>The registry\<close>

datatype backend_status = StatusAvailable | StatusMissing | StatusInvalid

text \<open>A backend: \<open>bk_Capabilities\<close> and \<open>bk_Availability\<close> are \<open>None\<close> when it does not implement the interface.\<close>

record availability =
  av_status :: backend_status
  av_version :: string
  av_path :: string
  av_note :: string
  av_origin :: string
  av_ownership :: string

record core_backend =
  bk_Name :: string
  bk_Supports :: "config \<Rightarrow> bool"
  bk_Capabilities :: "capabilities option"
  bk_Availability :: "availability option"

record registered_backend =
  rb_core :: core_backend
  rb_priority :: int
  rb_status :: backend_status
  rb_version :: string
  rb_path :: string
  rb_note :: string
  rb_origin :: string
  rb_ownership :: string

record backend_info =
  bi_Name :: string
  bi_Status :: backend_status
  bi_Version :: string
  bi_Path :: string
  bi_Priority :: int
  bi_Capabilities :: capabilities
  bi_Summary :: string
  bi_Note :: string
  bi_Origin :: string
  bi_Ownership :: string

type_synonym registry = "(string, registered_backend) gomap"

datatype core_err = ErrBackendNil | ErrBackendName | ErrNoCandidate string string

definition Register :: "core_backend option \<Rightarrow> int \<Rightarrow> registry \<Rightarrow> core_err option \<times> registry" where
  "Register c priority r =
     (case c of
        None \<Rightarrow> (Some ErrBackendNil, r)
      | Some b \<Rightarrow>
          if bk_Name b = [] then (Some ErrBackendName, r)
          else (None, gput (bk_Name b)
                  \<lparr>rb_core = b, rb_priority = priority, rb_status = StatusMissing, rb_version = [], rb_path = [],
                   rb_note = [], rb_origin = [], rb_ownership = []\<rparr> r))"

definition registry_Get :: "registry \<Rightarrow> string \<Rightarrow> core_backend option" where
  "registry_Get r name = map_option rb_core (gget r name)"

definition registry_Version :: "registry \<Rightarrow> string \<Rightarrow> string" where
  "registry_Version r name = (case gget r name of Some e \<Rightarrow> rb_version e | None \<Rightarrow> [])"

definition BinaryPath :: "registry \<Rightarrow> string \<Rightarrow> string" where
  "BinaryPath r name = (case gget r name of Some e \<Rightarrow> rb_path e | None \<Rightarrow> [])"

text \<open>A candidate of the locator: path, version, origin, ownership; \<open>None\<close> is a nil locator.\<close>

record exec_candidate =
  ex_Path :: string
  ex_Version :: string
  ex_Origin :: string
  ex_Ownership :: string

definition missing :: "string \<Rightarrow> availability" where
  "missing note = \<lparr>av_status = StatusMissing, av_version = [], av_path = [], av_note = note, av_origin = [], av_ownership = []\<rparr>"

definition discover :: "(string \<Rightarrow> exec_candidate list) option \<Rightarrow> string \<Rightarrow> availability" where
  "discover locator name =
     (case locator of
        None \<Rightarrow> missing ''no executable locator configured''
      | Some candidates \<Rightarrow>
          (case candidates name of
             [] \<Rightarrow> missing ''executable not found in managed directories, PATH or known system locations''
           | best # _ \<Rightarrow>
               if ex_Path best = [] then
                 \<lparr>av_status = StatusInvalid, av_version = [], av_path = [], av_note = ''discovered executable has no path'',
                  av_origin = ex_Origin best, av_ownership = ex_Ownership best\<rparr>
               else
                 \<lparr>av_status = StatusAvailable, av_version = ex_Version best, av_path = ex_Path best,
                  av_note = (if ex_Version best = [] then ''executable found but version probe returned no output'' else []),
                  av_origin = ex_Origin best, av_ownership = ex_Ownership best\<rparr>))"

definition refresh_entry :: "(string \<Rightarrow> exec_candidate list) option \<Rightarrow> string \<Rightarrow> registered_backend \<Rightarrow> registered_backend" where
  "refresh_entry locator name e =
     (let a = (case bk_Availability (rb_core e) of Some s \<Rightarrow> s | None \<Rightarrow> discover locator name)
      in e\<lparr>rb_status := av_status a, rb_version := av_version a, rb_path := av_path a, rb_note := av_note a,
           rb_origin := av_origin a, rb_ownership := av_ownership a\<rparr>)"

definition registry_refresh :: "(string \<Rightarrow> exec_candidate list) option \<Rightarrow> registry \<Rightarrow> registry" where
  "registry_refresh locator r = map (\<lambda>(name, e). (name, refresh_entry locator name e)) r"

definition entry_caps :: "registered_backend \<Rightarrow> capabilities" where
  "entry_caps e = (case bk_Capabilities (rb_core e) of Some c \<Rightarrow> c | None \<Rightarrow> no_capabilities)"

definition entry_info :: "string \<Rightarrow> registered_backend \<Rightarrow> backend_info" where
  "entry_info name e =
     \<lparr>bi_Name = name, bi_Status = rb_status e, bi_Version = rb_version e, bi_Path = rb_path e, bi_Priority = rb_priority e,
      bi_Capabilities = entry_caps e, bi_Summary = cap_Summary (entry_caps e), bi_Note = rb_note e, bi_Origin = rb_origin e,
      bi_Ownership = rb_ownership e\<rparr>"

definition registry_Info :: "registry \<Rightarrow> string \<Rightarrow> backend_info option" where
  "registry_Info r name = map_option (entry_info name) (gget r name)"

definition Backends :: "registry \<Rightarrow> backend_info list" where
  "Backends r = sort_key (\<lambda>i. (bi_Priority i, bi_Name i)) (map (\<lambda>(name, e). entry_info name e) r)"

definition registry_String :: "registry \<Rightarrow> string" where
  "registry_String r =
     ''registry['' @ str_join '', ''
       (map (\<lambda>(name, e). name @ ''='' @
          (case rb_status e of
             StatusAvailable \<Rightarrow> ''available '' @ rb_version e
           | StatusInvalid \<Rightarrow> ''invalid''
           | StatusMissing \<Rightarrow> ''missing'')) (sort_key fst r)) @ '']''"

definition declares :: "string \<Rightarrow> registered_backend \<Rightarrow> bool" where
  "declares t e \<longleftrightarrow> rb_status e = StatusAvailable \<and>
     (case bk_Capabilities (rb_core e) of Some c \<Rightarrow> SupportsProtocol c t | None \<Rightarrow> False)"

definition supportsProtocol :: "registry \<Rightarrow> string \<Rightarrow> bool" where
  "supportsProtocol r t = list_ex (\<lambda>(name, e). declares t e) r"

definition CompatibleBackends :: "registry \<Rightarrow> string \<Rightarrow> nat" where
  "CompatibleBackends r t = length (filter (\<lambda>(name, e). declares t e) r)"

section \<open>Selection\<close>

record core_preferences =
  pf_PreferredBackend :: string
  pf_AllowFallback :: bool
  pf_MaxAttempts :: int

definition DefaultMaxAttempts :: int where "DefaultMaxAttempts = 3"

definition pref_WithDefaults :: "core_preferences \<Rightarrow> core_preferences" where
  "pref_WithDefaults p = (if pf_MaxAttempts p \<le> 0 then p\<lparr>pf_MaxAttempts := DefaultMaxAttempts\<rparr> else p)"

record selection =
  se_Core :: core_backend
  se_Reason :: string
  se_Fallbacks :: "string list"

definition lessCandidate :: "backend_info \<Rightarrow> backend_info \<Rightarrow> string \<Rightarrow> bool" where
  "lessCandidate a b preferred =
     (let aPref = (bi_Name a = preferred \<and> preferred \<noteq> []); bPref = (bi_Name b = preferred \<and> preferred \<noteq> []) in
      if aPref \<noteq> bPref then aPref
      else if bi_Priority a \<noteq> bi_Priority b then bi_Priority a < bi_Priority b
      else bi_Name a < bi_Name b)"

text \<open>\<open>sort.Slice\<close> with a comparison, by insertion.\<close>

fun insert_by :: "('a \<Rightarrow> 'a \<Rightarrow> bool) \<Rightarrow> 'a \<Rightarrow> 'a list \<Rightarrow> 'a list" where
  "insert_by lt x [] = [x]"
| "insert_by lt x (y # ys) = (if lt y x then y # insert_by lt x ys else x # y # ys)"

fun sort_by :: "('a \<Rightarrow> 'a \<Rightarrow> bool) \<Rightarrow> 'a list \<Rightarrow> 'a list" where
  "sort_by lt [] = []"
| "sort_by lt (x # xs) = insert_by lt x (sort_by lt xs)"

definition buildReason :: "backend_info \<Rightarrow> 'a config_base_scheme \<Rightarrow> core_preferences \<Rightarrow> nat \<Rightarrow> nat \<Rightarrow> string" where
  "buildReason info cfg pref eligible fallbacks =
     bi_Name info @ '': '' @
     (if bi_Name info = pf_PreferredBackend pref \<and> pf_PreferredBackend pref \<noteq> [] then ''preferred backend, ''
      else if bi_Priority info = 0 then ''highest-priority backend, ''
      else ''priority '') @
     ''supports '' @ c_Type cfg @
     (if c_Network cfg \<noteq> [] \<and> c_Network cfg \<noteq> ''tcp'' then ''/'' @ c_Network cfg else []) @
     (if c_Security cfg \<noteq> [] \<and> c_Security cfg \<noteq> ''none'' then '' with '' @ c_Security cfg else []) @
     ''; '' @ Itoa (int eligible) @ '' candidate(s), '' @ Itoa (int fallbacks) @ '' fallback(s), version '' @ bi_Version info"

definition describeNoCandidate :: "string list \<Rightarrow> string list \<Rightarrow> string" where
  "describeNoCandidate incompatible unavailable =
     (let parts = (if incompatible \<noteq> [] then [''incompatible: '' @ str_join '', '' incompatible] else []) @
                  (if unavailable \<noteq> [] then [''installed but unavailable: '' @ str_join '', '' unavailable] else [])
      in str_join ''; '' (if parts = [] then [''no backends registered''] else parts))"

text \<open>The first-party candidate takes the head; the previous head takes its place.\<close>

definition swap_head :: "nat \<Rightarrow> 'a list \<Rightarrow> 'a list" where
  "swap_head i xs = xs[0 := xs ! i, i := xs ! 0]"

fun first_index :: "('a \<Rightarrow> bool) \<Rightarrow> 'a list \<Rightarrow> nat option" where
  "first_index P [] = None"
| "first_index P (x # xs) = (if P x then Some 0 else map_option Suc (first_index P xs))"

definition lead_first_party :: "(backend_info \<times> core_backend) list \<Rightarrow> (backend_info \<times> core_backend) list" where
  "lead_first_party eligible =
     (case first_index (\<lambda>(info, c). bi_Ownership info = ''first-party'') eligible of
        None \<Rightarrow> eligible
      | Some i \<Rightarrow> swap_head i eligible)"

text \<open>\<open>lower\<close> is the Unicode lower-casing of the normalisation.\<close>

definition Select :: "(string \<Rightarrow> string) \<Rightarrow> registry \<Rightarrow> config \<Rightarrow> core_preferences \<Rightarrow> core_err + selection" where
  "Select lower r cfg0 pref0 =
     (let cfg = config_Normalize lower cfg0; pref = pref_WithDefaults pref0;
          candidates = map (\<lambda>(name, e). (entry_info name e, rb_core e)) r;
          compatible = filter (\<lambda>(info, c). bk_Supports c cfg) candidates;
          incompatible = map (bi_Name \<circ> fst) (filter (\<lambda>(info, c). \<not> bk_Supports c cfg) candidates);
          unavailable = map (bi_Name \<circ> fst) (filter (\<lambda>(info, c). bi_Status info \<noteq> StatusAvailable) compatible);
          eligible = filter (\<lambda>(info, c). bi_Status info = StatusAvailable) compatible
      in if eligible = [] then Inl (ErrNoCandidate (DisplayURL cfg) (describeNoCandidate incompatible unavailable))
         else
           let ordered = lead_first_party (sort_by (\<lambda>a b. lessCandidate (fst a) (fst b) (pf_PreferredBackend pref)) eligible);
               chosen = hd ordered
           in Inr \<lparr>se_Core = snd chosen,
                   se_Reason = buildReason (fst chosen) cfg pref (length ordered) (length ordered - 1),
                   se_Fallbacks = map (bi_Name \<circ> fst) (tl ordered)\<rparr>)"

section \<open>The cache of generated documents\<close>

record 'd gen_cache =
  gc_entries :: "(string, 'd \<times> int) gomap"
  gc_generation :: "64 word"

definition DefaultGenCacheEntries :: nat where "DefaultGenCacheEntries = 16"
definition DefaultGenCacheTTL :: int where "DefaultGenCacheTTL = 5 * 60 * 1000000000"

definition NewGenCache :: "'d gen_cache" where
  "NewGenCache = \<lparr>gc_entries = [], gc_generation = 0\<rparr>"

definition gen_Get :: "int \<Rightarrow> string \<Rightarrow> 64 word \<Rightarrow> 'd gen_cache \<Rightarrow> 'd option \<times> 'd gen_cache" where
  "gen_Get now key generation c =
     (if generation \<noteq> gc_generation c then (None, \<lparr>gc_entries = [], gc_generation = generation\<rparr>)
      else case gget (gc_entries c) key of
             None \<Rightarrow> (None, c)
           | Some (doc, expiresAt) \<Rightarrow>
               if now > expiresAt then (None, c\<lparr>gc_entries := gdel key (gc_entries c)\<rparr>) else (Some doc, c))"

lemma length_gdel_less: "k \<in> fst ` set m \<Longrightarrow> length (gdel k m) < length m"
proof (induction m)
  case (Cons p m)
  show ?case using Cons length_gdel_le [of k m] by (cases p; cases "fst p = k") auto
qed simp

text \<open>Go deletes an arbitrary entry of a full cache; \<open>pick\<close> chooses the key.\<close>

function gen_evict :: "((string, 'd \<times> int) gomap \<Rightarrow> nat) \<Rightarrow> (string, 'd \<times> int) gomap \<Rightarrow> (string, 'd \<times> int) gomap" where
  "gen_evict pick m =
     (if length m \<ge> DefaultGenCacheEntries then gen_evict pick (gdel (fst (m ! (pick m mod length m))) m) else m)"
  by pat_completeness auto

termination
proof (relation "measure (\<lambda>(pick, m). length m)")
  fix pick :: "(string, 'd \<times> int) gomap \<Rightarrow> nat" and m :: "(string, 'd \<times> int) gomap"
  assume "DefaultGenCacheEntries \<le> length m"
  then have "m \<noteq> []" by (auto simp: DefaultGenCacheEntries_def)
  then have "m ! (pick m mod length m) \<in> set m" by simp
  then have "length (gdel (fst (m ! (pick m mod length m))) m) < length m"
    by (metis (mono_tags, lifting) image_eqI length_gdel_less)
  then show "((pick, gdel (fst (m ! (pick m mod length m))) m), pick, m) \<in> measure (\<lambda>(pick, m). length m)" by simp
qed simp

declare gen_evict.simps [simp del]

definition gen_Put ::
  "((string, 'd \<times> int) gomap \<Rightarrow> nat) \<Rightarrow> int \<Rightarrow> string \<Rightarrow> 64 word \<Rightarrow> 'd \<Rightarrow> 'd gen_cache \<Rightarrow> 'd gen_cache" where
  "gen_Put pick now key generation doc c =
     (let c1 = (if generation \<noteq> gc_generation c then \<lparr>gc_entries = [], gc_generation = generation\<rparr> else c)
      in c1\<lparr>gc_entries := gput key (doc, now + DefaultGenCacheTTL) (gen_evict pick (gc_entries c1))\<rparr>)"

definition gen_Clear :: "'d gen_cache \<Rightarrow> 'd gen_cache" where
  "gen_Clear c = c\<lparr>gc_entries := []\<rparr>"

definition gen_Len :: "'d gen_cache \<Rightarrow> nat" where
  "gen_Len c = length (gc_entries c)"

definition fnv64 :: "bytes \<Rightarrow> 64 word" where
  "fnv64 data = fold (\<lambda>b hash. (xor hash (ucast b)) * 1099511628211) data 14695981039346656037"

definition GenerationFor :: "string \<Rightarrow> string \<Rightarrow> string \<Rightarrow> 64 word" where
  "GenerationFor backendName binaryPath backendVersion = fnv64 (str_bytes (backendName @ ''|'' @ binaryPath @ ''|'' @ backendVersion))"

definition GenCacheKey :: "string \<Rightarrow> string \<Rightarrow> string \<Rightarrow> int \<Rightarrow> int \<Rightarrow> string" where
  "GenCacheKey fingerprint backendName localHost localPort httpPort =
     fingerprint @ ''|'' @ backendName @ ''|'' @ localHost @ ''|'' @ Itoa localPort @ ''|'' @ Itoa httpPort"

section \<open>The order of the candidates\<close>

definition cand_key :: "string \<Rightarrow> backend_info \<Rightarrow> bool \<times> int \<times> string" where
  "cand_key preferred i = (\<not> (bi_Name i = preferred \<and> preferred \<noteq> []), bi_Priority i, bi_Name i)"

lemma lessCandidate_key: "lessCandidate a b preferred \<longleftrightarrow> cand_key preferred a < cand_key preferred b"
  by (auto simp: lessCandidate_def cand_key_def Let_def less_prod_def' less_le_not_le)

lemma sort_by_key:
  assumes "\<And>x y. lt x y \<longleftrightarrow> f x < f y"
  shows "sort_by lt xs = sort_key f xs"
proof -
  have "insert_by lt x ys = insort_key f x ys" for x ys
    by (induction ys) (auto simp: assms not_less)
  then show ?thesis by (induction xs) auto
qed

definition ordered_candidates :: "string \<Rightarrow> (backend_info \<times> core_backend) list \<Rightarrow> (backend_info \<times> core_backend) list" where
  "ordered_candidates preferred = sort_key (cand_key preferred \<circ> fst)"

lemma sort_candidates:
  "sort_by (\<lambda>a b. lessCandidate (fst a) (fst b) preferred) xs = ordered_candidates preferred xs"
  unfolding ordered_candidates_def by (rule sort_by_key) (simp add: lessCandidate_key)

text \<open>The backends that can serve a configuration.\<close>

definition eligible_entry :: "config \<Rightarrow> registered_backend \<Rightarrow> bool" where
  "eligible_entry cfg e \<longleftrightarrow> bk_Supports (rb_core e) cfg \<and> rb_status e = StatusAvailable"

definition eligible_candidates :: "config \<Rightarrow> registry \<Rightarrow> (backend_info \<times> core_backend) list" where
  "eligible_candidates cfg r = map (\<lambda>(name, e). (entry_info name e, rb_core e)) (filter (\<lambda>(name, e). eligible_entry cfg e) r)"

definition select_ordered :: "config \<Rightarrow> string \<Rightarrow> registry \<Rightarrow> (backend_info \<times> core_backend) list" where
  "select_ordered cfg preferred r = lead_first_party (ordered_candidates preferred (eligible_candidates cfg r))"

lemma Select_eq:
  fixes cfg0 :: config and lower :: "string \<Rightarrow> string" and pref0 :: core_preferences
  defines "cfg \<equiv> config_Normalize lower cfg0" and "pref \<equiv> pref_WithDefaults pref0"
  shows "(eligible_candidates cfg r = [] \<longrightarrow> (\<exists>d. Select lower r cfg0 pref0 = Inl (ErrNoCandidate (DisplayURL cfg) d))) \<and>
     (eligible_candidates cfg r \<noteq> [] \<longrightarrow> Select lower r cfg0 pref0 =
        (let xs = select_ordered cfg (pf_PreferredBackend pref) r in
         Inr \<lparr>se_Core = snd (hd xs), se_Reason = buildReason (fst (hd xs)) cfg pref (length xs) (length xs - 1),
              se_Fallbacks = map (bi_Name \<circ> fst) (tl xs)\<rparr>))"
proof -
  have "filter (\<lambda>(info, c). bi_Status info = StatusAvailable) (filter (\<lambda>(info, c). bk_Supports c cfg)
      (map (\<lambda>(name, e). (entry_info name e, rb_core e)) r)) = eligible_candidates cfg r"
    unfolding eligible_candidates_def by (induction r) (auto simp: eligible_entry_def entry_info_def)
  then show ?thesis
    unfolding Select_def Let_def cfg_def [symmetric] pref_def [symmetric] sort_candidates select_ordered_def
    by (simp add: Let_def)
qed

section \<open>What is selected\<close>

lemma first_index_some:
  "first_index P xs = Some i \<Longrightarrow> i < length xs \<and> P (xs ! i) \<and> (\<forall>j < i. \<not> P (xs ! j))"
  by (induction xs arbitrary: i) (auto split: if_splits simp: less_Suc_eq_0_disj)

lemma first_index_none: "first_index P xs = None \<longleftrightarrow> (\<forall>x \<in> set xs. \<not> P x)"
  by (induction xs) auto

lemma swap_head_perm: "i < length xs \<Longrightarrow> mset (swap_head i xs) = mset xs"
  unfolding swap_head_def by (rule mset_swap) auto

lemma lead_perm [simp]: "mset (lead_first_party xs) = mset xs"
  using first_index_some [of _ xs] by (auto simp: lead_first_party_def swap_head_perm split: option.split)

lemma lead_head:
  assumes "xs \<noteq> []"
  shows "if \<exists>p \<in> set xs. bi_Ownership (fst p) = ''first-party''
         then bi_Ownership (fst (hd (lead_first_party xs))) = ''first-party'' else lead_first_party xs = xs"
proof (cases "first_index (\<lambda>(info, c). bi_Ownership info = ''first-party'') xs")
  case None
  then have "\<forall>p \<in> set xs. bi_Ownership (fst p) \<noteq> ''first-party''" unfolding first_index_none by (simp add: case_prod_unfold)
  with None show ?thesis by (simp add: lead_first_party_def)
next
  case (Some i)
  from first_index_some [OF this] have i: "i < length xs" "bi_Ownership (fst (xs ! i)) = ''first-party''"
    by (simp_all add: case_prod_unfold)
  have "hd (swap_head i xs) = xs ! i" using assms i(1) by (cases i) (auto simp: swap_head_def hd_conv_nth nth_list_update)
  with Some i show ?thesis using nth_mem [OF i(1)] by (auto simp: lead_first_party_def)
qed

lemma select_ordered_mset: "mset (select_ordered cfg preferred r) = mset (eligible_candidates cfg r)"
  by (simp add: select_ordered_def ordered_candidates_def)

lemma eligible_mem:
  assumes "gmap_ok r"
  shows "p \<in> set (eligible_candidates cfg r) \<longleftrightarrow>
     (\<exists>name e. gget r name = Some e \<and> eligible_entry cfg e \<and> p = (entry_info name e, rb_core e))"
proof
  assume "p \<in> set (eligible_candidates cfg r)"
  then obtain name e where "(name, e) \<in> set r" "eligible_entry cfg e" "p = (entry_info name e, rb_core e)"
    by (auto simp: eligible_candidates_def)
  then show "\<exists>name e. gget r name = Some e \<and> eligible_entry cfg e \<and> p = (entry_info name e, rb_core e)"
    using gget_mem [OF assms, of name e] by blast
next
  assume "\<exists>name e. gget r name = Some e \<and> eligible_entry cfg e \<and> p = (entry_info name e, rb_core e)"
  then obtain name e where "(name, e) \<in> set r" "eligible_entry cfg e" "p = (entry_info name e, rb_core e)"
    using gget_mem [OF assms] by blast
  then show "p \<in> set (eligible_candidates cfg r)" by (force simp: eligible_candidates_def)
qed

lemma entry_info_sel [simp]:
  "bi_Name (entry_info n e) = n" "bi_Ownership (entry_info n e) = rb_ownership e" "bi_Priority (entry_info n e) = rb_priority e"
  by (simp_all add: entry_info_def)

lemma sorted_nonempty: "xs \<noteq> [] \<Longrightarrow> sort_key f xs \<noteq> []"
proof
  assume "xs \<noteq> []" "sort_key f xs = []"
  then have "set (sort_key f xs) = {}" by simp
  with \<open>xs \<noteq> []\<close> show False by simp
qed

lemma sort_key_head:
  "xs \<noteq> [] \<Longrightarrow> x \<in> set xs \<Longrightarrow> f (hd (sort_key f xs)) \<le> f x"
proof -
  assume a: "xs \<noteq> []" "x \<in> set xs"
  obtain y ys where ys: "sort_key f xs = y # ys" 
    using sorted_nonempty [OF a(1), of f] by (cases "sort_key f xs") auto
  have "sorted (map f (y # ys))" unfolding ys [symmetric] by (rule sorted_sort_key)
  moreover have "x \<in> set (y # ys)" unfolding ys [symmetric] using a(2) by simp
  ultimately show ?thesis unfolding ys by auto
qed

text \<open>
  C10. The verdict of a selection: it fails exactly when no registered backend supports the
  normalised configuration and is available; otherwise the chosen core is such a backend, the
  fallbacks are exactly the other ones, a first-party backend is chosen when one can serve the
  configuration, and otherwise no other candidate comes before the chosen one in the order
  preferred, priority, name.
\<close>

theorem select_verdict:
  assumes ok: "gmap_ok r"
  shows "case Select lower r cfg0 pref of
       Inl _ \<Rightarrow> \<forall>name e. gget r name = Some e \<longrightarrow> \<not> eligible_entry (config_Normalize lower cfg0) e
     | Inr sel \<Rightarrow> \<exists>name e. gget r name = Some e \<and> eligible_entry (config_Normalize lower cfg0) e \<and> se_Core sel = rb_core e \<and>
         mset (name # se_Fallbacks sel) = mset (map fst (filter (\<lambda>(n, e). eligible_entry (config_Normalize lower cfg0) e) r)) \<and>
         (if \<exists>n e'. gget r n = Some e' \<and> eligible_entry (config_Normalize lower cfg0) e' \<and> rb_ownership e' = ''first-party''
          then rb_ownership e = ''first-party''
          else \<forall>n e'. gget r n = Some e' \<and> eligible_entry (config_Normalize lower cfg0) e' \<longrightarrow>
                 \<not> lessCandidate (entry_info n e') (entry_info name e) (pf_PreferredBackend pref))"
proof -
  let ?cfg = "config_Normalize lower cfg0" and ?p = "pf_PreferredBackend pref"
  let ?el = "eligible_candidates ?cfg r" and ?xs = "select_ordered ?cfg ?p r"
  have pd: "pf_PreferredBackend (pref_WithDefaults pref) = ?p" by (simp add: pref_WithDefaults_def)
  note eq = Select_eq [of lower cfg0 r pref, unfolded pd]
  show ?thesis
  proof (cases "?el = []")
    case True
    then have "\<not> eligible_entry ?cfg e" if "gget r name = Some e" for name e
      using that eligible_mem [OF ok, of _ ?cfg] by auto
    with eq True show ?thesis by auto
  next
    case False
    have ne: "?xs \<noteq> []" using False select_ordered_mset [of ?cfg ?p r] by auto
    obtain x xs' where xs: "?xs = x # xs'" using ne by (cases ?xs) auto
    have "x \<in> set ?el" using select_ordered_mset [of ?cfg ?p r] xs by (metis list.set_intros(1) set_mset_mset)
    then obtain name e where e: "gget r name = Some e" "eligible_entry ?cfg e" "x = (entry_info name e, rb_core e)"
      using eligible_mem [OF ok] by auto
    have "mset (map (bi_Name \<circ> fst) ?xs) = mset (map (bi_Name \<circ> fst) ?el)"
      using select_ordered_mset [of ?cfg ?p r] by (metis mset_map)
    also have "map (bi_Name \<circ> fst) ?el = map fst (filter (\<lambda>(n, e). eligible_entry ?cfg e) r)"
      by (auto simp: eligible_candidates_def entry_info_def case_prod_unfold)
    finally have names: "mset (name # map (bi_Name \<circ> fst) xs') = mset (map fst (filter (\<lambda>(n, e). eligible_entry ?cfg e) r))"
      by (simp add: xs e(3) entry_info_def comp_def)
    let ?ord = "ordered_candidates ?p ?el"
    have ord: "?ord \<noteq> []" "set ?ord = set ?el" using False
      sorted_nonempty [of ?el "cand_key ?p \<circ> fst"] by (simp_all add: ordered_candidates_def)
    have fp: "(\<exists>p \<in> set ?ord. bi_Ownership (fst p) = ''first-party'') \<longleftrightarrow>
        (\<exists>n e'. gget r n = Some e' \<and> eligible_entry ?cfg e' \<and> rb_ownership e' = ''first-party'')"
      unfolding ord(2) Bex_def eligible_mem [OF ok] by force
    have own: "rb_ownership e = bi_Ownership (fst (hd ?xs))" by (simp add: xs e(3) entry_info_def)
    have first: "\<not> lessCandidate (entry_info n e') (entry_info name e) ?p"
      if "?xs = ?ord" "gget r n = Some e'" "eligible_entry ?cfg e'" for n e'
    proof -
      have "(entry_info n e', rb_core e') \<in> set ?el" using that(2,3) eligible_mem [OF ok] by auto
      moreover have "sort_key (cand_key ?p \<circ> fst) ?el = (entry_info name e, rb_core e) # xs'"
        using that(1) xs e(3) by (simp add: ordered_candidates_def)
      ultimately show ?thesis
        using sort_key_head [OF False, of "(entry_info n e', rb_core e')" "cand_key ?p \<circ> fst"] by (simp add: lessCandidate_key not_less)
    qed
    have sel: "Select lower r cfg0 pref = Inr \<lparr>se_Core = rb_core e,
        se_Reason = buildReason (entry_info name e) ?cfg (pref_WithDefaults pref) (length ?xs) (length ?xs - 1), se_Fallbacks = map (bi_Name \<circ> fst) xs'\<rparr>"
      using eq False by (simp add: Let_def xs e(3))
    show ?thesis
      unfolding sel sum.case selection.select_convs
      using e(1,2) names fp own first lead_head [OF ord(1)] by (intro exI [of _ name] exI [of _ e]) (auto simp: select_ordered_def)
  qed
qed

text \<open>
  Selection is deterministic: it does not depend on the order in which the registry map is
  iterated.
\<close>

theorem select_order_independent:
  assumes ok: "gmap_ok r" and perm: "mset r' = mset r"
  shows "case Select lower r cfg pref of
       Inr sel \<Rightarrow> Select lower r' cfg pref = Inr sel
     | Inl _ \<Rightarrow> (\<exists>u d. Select lower r' cfg pref = Inl (ErrNoCandidate u d))"
proof -
  let ?cfg = "config_Normalize lower cfg" and ?p = "pf_PreferredBackend (pref_WithDefaults pref)"
  have el: "mset (eligible_candidates ?cfg r') = mset (eligible_candidates ?cfg r)"
    using perm by (simp add: eligible_candidates_def)
  have "distinct (map fst r)" using ok by (simp add: gmap_ok_def)
  then have "inj_on (cand_key ?p \<circ> fst) (set (eligible_candidates ?cfg r))"
    by (auto simp: inj_on_def eligible_candidates_def cand_key_def distinct_map) (metis fst_conv inj_on_eq_iff prod.inject)+
  then have "ordered_candidates ?p (eligible_candidates ?cfg r') = ordered_candidates ?p (eligible_candidates ?cfg r)"
    unfolding ordered_candidates_def using el
    by (intro sort_key_inj_key_eq) (auto dest: mset_eq_setD)
  then have "select_ordered ?cfg ?p r' = select_ordered ?cfg ?p r" by (simp add: select_ordered_def)
  moreover have "eligible_candidates ?cfg r' = [] \<longleftrightarrow> eligible_candidates ?cfg r = []" using el by auto
  ultimately show ?thesis
    using Select_eq [of lower cfg r pref] Select_eq [of lower cfg r' pref] by (auto simp: Let_def split: sum.split)
qed

text \<open>A registry with an available external core and a first-party one.\<close>

definition sample_entry :: "string \<Rightarrow> int \<Rightarrow> string \<Rightarrow> registered_backend" where
  "sample_entry name priority ownership =
     \<lparr>rb_core = \<lparr>bk_Name = name, bk_Supports = (\<lambda>_. True), bk_Capabilities = None, bk_Availability = None\<rparr>, rb_priority = priority,
      rb_status = StatusAvailable, rb_version = ''1'', rb_path = [], rb_note = [], rb_origin = [], rb_ownership = ownership\<rparr>"

definition sample_registry :: registry where
  "sample_registry = [(''xray'', sample_entry ''xray'' 0 ''external''), (''own'', sample_entry ''own'' 1 ''first-party'')]"

definition sample_prefs :: core_preferences where
  "sample_prefs = \<lparr>pf_PreferredBackend = ''xray'', pf_AllowFallback = True, pf_MaxAttempts = 0\<rparr>"

lemma sample_ok: "gmap_ok sample_registry"
  by (simp add: sample_registry_def gmap_ok_def)

lemma sample_eligible: "gget sample_registry n = Some e \<Longrightarrow> eligible_entry cfg e"
  by (auto simp: sample_registry_def sample_entry_def eligible_entry_def split: if_splits)

theorem select_verdict_witness:
  "\<exists>sel. Select id sample_registry zero_config sample_prefs = Inr sel \<and> bk_Name (se_Core sel) = ''own''"
proof -
  have own: "gget sample_registry ''own'' = Some (sample_entry ''own'' 1 ''first-party'')" by (simp add: sample_registry_def)
  have "eligible_entry (config_Normalize id zero_config) (sample_entry ''own'' 1 ''first-party'')" by (rule sample_eligible [OF own])
  then have ex: "\<exists>n e. gget sample_registry n = Some e \<and> eligible_entry (config_Normalize id zero_config) e \<and> rb_ownership e = ''first-party''"
    using own by (force simp: sample_entry_def)
  then obtain sel where sel: "Select id sample_registry zero_config sample_prefs = Inr sel"
    using select_verdict [OF sample_ok, of id zero_config sample_prefs] by (auto split: sum.splits)
  with select_verdict [OF sample_ok, of id zero_config sample_prefs] ex obtain name e where
    "gget sample_registry name = Some e" "se_Core sel = rb_core e" "rb_ownership e = ''first-party''" by auto
  then have "bk_Name (se_Core sel) = ''own''" by (auto simp: sample_registry_def sample_entry_def split: if_splits)
  with sel show ?thesis by blast
qed

theorem select_order_independent_witness:
  "\<exists>sel. Select id sample_registry zero_config sample_prefs = Inr sel \<and> Select id (rev sample_registry) zero_config sample_prefs = Inr sel"
proof -
  have "gget sample_registry ''own'' = Some (sample_entry ''own'' 1 ''first-party'')" by (simp add: sample_registry_def)
  moreover from sample_eligible [OF this] have "eligible_candidates (config_Normalize id zero_config) sample_registry \<noteq> []"
    using eligible_mem [OF sample_ok] calculation by (metis empty_iff empty_set)
  ultimately obtain sel where "Select id sample_registry zero_config sample_prefs = Inr sel"
    using Select_eq [of id zero_config sample_registry sample_prefs] by (auto simp: Let_def)
  moreover have "mset (rev sample_registry) = mset sample_registry" by simp
  ultimately show ?thesis using select_order_independent [OF sample_ok, of "rev sample_registry" id zero_config sample_prefs] by simp
qed

section \<open>What the cache returns\<close>

datatype 'd gen_op = OpPut int string "64 word" 'd | OpGet int string "64 word" | OpClear

fun gen_apply :: "((string, 'd \<times> int) gomap \<Rightarrow> nat) \<Rightarrow> 'd gen_op \<Rightarrow> 'd gen_cache \<Rightarrow> 'd gen_cache" where
  "gen_apply pick (OpPut now key g doc) c = gen_Put pick now key g doc c"
| "gen_apply pick (OpGet now key g) c = snd (gen_Get now key g c)"
| "gen_apply pick OpClear c = gen_Clear c"

text \<open>The last document stored under a key, with its time and generation.\<close>

fun last_put :: "string \<Rightarrow> 'd gen_op \<Rightarrow> (int \<times> 64 word \<times> 'd) option \<Rightarrow> (int \<times> 64 word \<times> 'd) option" where
  "last_put k (OpPut now key g doc) acc = (if key = k then Some (now, g, doc) else acc)"
| "last_put k _ acc = acc"

definition gen_inv :: "'d gen_op list \<Rightarrow> 'd gen_cache \<Rightarrow> bool" where
  "gen_inv ops c \<longleftrightarrow> length (gc_entries c) \<le> DefaultGenCacheEntries \<and>
     (\<forall>k doc e. gget (gc_entries c) k = Some (doc, e) \<longrightarrow>
        (\<exists>t. fold (last_put k) ops None = Some (t, gc_generation c, doc) \<and> e = t + DefaultGenCacheTTL))"

lemma gen_evict_short: "length (gen_evict pick m) < DefaultGenCacheEntries"
  by (induction pick m rule: gen_evict.induct) (subst gen_evict.simps, auto)

lemma gen_evict_sub: "gget (gen_evict pick m) k = Some v \<Longrightarrow> gget m k = Some v"
proof (induction pick m rule: gen_evict.induct)
  case (1 pick m)
  from 1(2) show ?case
    by (subst (asm) gen_evict.simps) (use 1(1) in \<open>auto split: if_splits\<close>)
qed

lemma length_gput_le: "length (gput k v m) \<le> Suc (length m)"
  by (induction m) auto

lemma gen_inv_step:
  assumes inv: "gen_inv ops c"
  shows "gen_inv (ops @ [op]) (gen_apply pick op c)"
proof (cases op)
  case (OpPut now key g doc)
  define c1 where "c1 = (if g \<noteq> gc_generation c then \<lparr>gc_entries = [], gc_generation = g\<rparr> else c)"
  have c1: "gc_generation c1 = g" "\<And>k doc e. gget (gc_entries c1) k = Some (doc, e) \<Longrightarrow>
      \<exists>t. fold (last_put k) ops None = Some (t, g, doc) \<and> e = t + DefaultGenCacheTTL"
    using inv by (auto simp: c1_def gen_inv_def split: if_splits)
  have "length (gput key (doc, now + DefaultGenCacheTTL) (gen_evict pick (gc_entries c1))) \<le> DefaultGenCacheEntries"
    using length_gput_le [of key _ "gen_evict pick (gc_entries c1)"] gen_evict_short [of pick "gc_entries c1"]
    by (meson Suc_leI order_trans)
  then show ?thesis
    using c1 by (auto simp: OpPut gen_Put_def Let_def gen_inv_def c1_def [symmetric] split: if_splits dest!: gen_evict_sub)
next
  case (OpGet now key g)
  have "length (gdel key (gc_entries c)) \<le> length (gc_entries c)" by (rule length_gdel_le)
  then show ?thesis
    using inv by (auto simp: OpGet gen_Get_def gen_inv_def split: option.split if_splits)
next
  case OpClear
  with inv show ?thesis by (simp add: gen_Clear_def gen_inv_def)
qed

lemma gen_inv_run: "gen_inv ops (fold (gen_apply pick) ops NewGenCache)"
proof (induction ops rule: rev_induct)
  case (snoc op ops)
  then show ?case using gen_inv_step by fastforce
qed (simp add: gen_inv_def NewGenCache_def)

text \<open>
  After any sequence of operations, whatever entries were evicted, a hit of the generation cache
  is the document stored last under that key, it was stored for the generation that is asked for
  and at most five minutes ago, and the cache holds at most sixteen documents.
\<close>

theorem gencache_hit_is_current:
  "gen_Len (fold (gen_apply pick) ops NewGenCache) \<le> 16 \<and>
   (case gen_Get now key g (fold (gen_apply pick) ops NewGenCache) of
      (None, _) \<Rightarrow> True
    | (Some doc, _) \<Rightarrow> \<exists>t. fold (last_put key) ops None = Some (t, g, doc) \<and> now \<le> t + 300 * 10 ^ 9)"
proof -
  let ?c = "fold (gen_apply pick) ops NewGenCache"
  have inv: "gen_inv ops ?c" by (rule gen_inv_run)
  then have len: "gen_Len ?c \<le> 16" by (simp add: gen_inv_def gen_Len_def DefaultGenCacheEntries_def)
  show ?thesis
  proof (cases "gget (gc_entries ?c) key")
    case (Some p)
    obtain doc e where p: "p = (doc, e)" by (cases p)
    from inv Some p obtain t where t: "fold (last_put key) ops None = Some (t, gc_generation ?c, doc)" "e = t + DefaultGenCacheTTL"
      unfolding gen_inv_def by blast
    with len Some p show ?thesis by (simp add: gen_Get_def DefaultGenCacheTTL_def)
  qed (use len in \<open>simp add: gen_Get_def\<close>)
qed

end
