(* ===== verification/ConnManager.thy ===== *)
theory ConnManager
  imports ConnVerify CoreSelect
begin

text \<open>
  The connection manager (\<open>engine/connection/connection.go\<close>): its state, and one definition for every
  section it runs under its lock, in the order of the code. Errors are their texts. Instances of
  core processes, session contexts and monitors are numbers. Time stamps are milliseconds, zero is
  Go's zero time. Publishing a snapshot and the metrics counters have no effect on the state and
  are left out, as are the time stamps and durations of attempt records.
\<close>

section \<open>States\<close>

datatype conn_state =
    StateDisconnected | StateSelecting | StatePreparing | StateStartingCore | StateWaitingForReady | StateConnected
  | StateVerifying | StateConnectedVerified | StateDisconnecting | StateConnectionFailed

definition Terminal :: "conn_state \<Rightarrow> bool" where
  "Terminal s \<longleftrightarrow> s = StateDisconnected \<or> s = StateConnectionFailed"

definition Active :: "conn_state \<Rightarrow> bool" where
  "Active s \<longleftrightarrow> s = StateSelecting \<or> s = StatePreparing \<or> s = StateStartingCore \<or> s = StateWaitingForReady \<or>
     s = StateConnected \<or> s = StateVerifying \<or> s = StateConnectedVerified"

definition ConnectedLike :: "conn_state \<Rightarrow> bool" where
  "ConnectedLike s \<longleftrightarrow> s = StateConnected \<or> s = StateVerifying \<or> s = StateConnectedVerified"

definition state_string :: "conn_state \<Rightarrow> string" where
  "state_string s =
     (case s of
        StateDisconnected \<Rightarrow> ''disconnected'' | StateSelecting \<Rightarrow> ''selecting'' | StatePreparing \<Rightarrow> ''preparing''
      | StateStartingCore \<Rightarrow> ''starting_core'' | StateWaitingForReady \<Rightarrow> ''waiting_for_ready'' | StateConnected \<Rightarrow> ''connected''
      | StateVerifying \<Rightarrow> ''verifying'' | StateConnectedVerified \<Rightarrow> ''connected_verified''
      | StateDisconnecting \<Rightarrow> ''disconnecting'' | StateConnectionFailed \<Rightarrow> ''connection_failed'')"

record conn_attempt =
  at_Backend :: string
  at_OK :: bool
  at_Error :: string

text \<open>\<open>firerrors.New(kind, "connection", "connect", cause).Error()\<close>.\<close>

definition connect_error :: "string \<Rightarrow> string \<Rightarrow> string" where
  "connect_error kind cause = ''connection/connect: '' @ kind @ '': '' @ cause"

section \<open>Options and state\<close>

record verify_policy =
  vp_Skip :: bool
  vp_Timeout :: duration
  vp_Target :: string
  vp_Targets :: "string list"

definition policy_WithDefaults :: "verify_policy \<Rightarrow> verify_policy" where
  "policy_WithDefaults p = (if vp_Timeout p \<le> 0 then p\<lparr>vp_Timeout := DefaultVerifyTimeout\<rparr> else p)"

definition policy_verifyOptions :: "verify_policy \<Rightarrow> verify_options" where
  "policy_verifyOptions p =
     (let o0 = \<lparr>vo_URL = [], vo_Targets = [], vo_Timeout = vp_Timeout p, vo_PerTarget = 0, vo_Retries = 0, vo_Backoff = 0, vo_Quorum = 0\<rparr>
      in if vp_Target p \<noteq> [] then o0\<lparr>vo_URL := vp_Target p\<rparr> else o0\<lparr>vo_Targets := vp_Targets p\<rparr>)"

record conn_opts =
  co_Verify :: verify_policy
  co_MonitorInterval :: duration
  co_VerifyInterval :: duration
  co_VerifyGrace :: duration
  co_VerifyFailureThreshold :: int

record conn_mgr =
  mg_state :: conn_state
  mg_instance :: "nat option"
  mg_socksPortPref :: int
  mg_httpPortPref :: int
  mg_lastPref :: core_preferences
  mg_sessionLabel :: string
  mg_cfg :: "config option"
  mg_coreName :: string
  mg_coreVersion :: string
  mg_lastError :: string
  mg_attempts :: "conn_attempt list"
  mg_startedAt :: int
  mg_port :: int
  mg_corePID :: int
  mg_coreReadyMS :: int
  mg_verifiedAt :: int
  mg_lastVerify :: verify_result
  mg_verifyFailures :: int
  mg_nextVerifyAt :: int
  mg_generation :: nat
  mg_session :: "nat option"
  mg_contexts :: nat
  mg_cancelled :: "nat list"
  mg_monitor :: "nat option"
  mg_shutdown :: bool

definition no_prefs :: core_preferences where
  "no_prefs = \<lparr>pf_PreferredBackend = [], pf_AllowFallback = False, pf_MaxAttempts = 0\<rparr>"

definition conn_New :: "conn_opts \<Rightarrow> conn_opts \<times> conn_mgr" where
  "conn_New o0 =
     (\<lparr>co_Verify = policy_WithDefaults (co_Verify o0),
       co_MonitorInterval = (if co_MonitorInterval o0 \<le> 0 then 10 * second else co_MonitorInterval o0),
       co_VerifyInterval = (if co_VerifyInterval o0 \<le> 0 then 30 * second else co_VerifyInterval o0),
       co_VerifyGrace = (if co_VerifyGrace o0 \<le> 0 then 8 * second else co_VerifyGrace o0),
       co_VerifyFailureThreshold = (if co_VerifyFailureThreshold o0 \<le> 0 then 3 else co_VerifyFailureThreshold o0)\<rparr>,
      \<lparr>mg_state = StateDisconnected, mg_instance = None, mg_socksPortPref = 0, mg_httpPortPref = 0, mg_lastPref = no_prefs,
       mg_sessionLabel = [], mg_cfg = None, mg_coreName = [], mg_coreVersion = [], mg_lastError = [], mg_attempts = [], mg_startedAt = 0,
       mg_port = 0, mg_corePID = 0, mg_coreReadyMS = 0, mg_verifiedAt = 0, mg_lastVerify = no_verify, mg_verifyFailures = 0,
       mg_nextVerifyAt = 0, mg_generation = 0, mg_session = None, mg_contexts = 0, mg_cancelled = [], mg_monitor = None,
       mg_shutdown = False\<rparr>)"

definition SetLocalPorts :: "int \<Rightarrow> int \<Rightarrow> conn_mgr \<Rightarrow> conn_mgr" where
  "SetLocalPorts socks http m = m\<lparr>mg_socksPortPref := socks, mg_httpPortPref := http\<rparr>"

definition LocalPorts :: "conn_mgr \<Rightarrow> int \<times> int" where
  "LocalPorts m = (mg_socksPortPref m, mg_httpPortPref m)"

section \<open>Sessions\<close>

text \<open>A context is cancelled by putting its number on the list.\<close>

definition cancel_session :: "conn_mgr \<Rightarrow> conn_mgr" where
  "cancel_session m = (case mg_session m of None \<Rightarrow> m | Some c \<Rightarrow> m\<lparr>mg_cancelled := c # mg_cancelled m\<rparr>)"

definition beginSessionLocked :: "conn_mgr \<Rightarrow> conn_mgr" where
  "beginSessionLocked m =
     (let m1 = cancel_session m in m1\<lparr>mg_session := Some (mg_contexts m1), mg_contexts := mg_contexts m1 + 1\<rparr>)"

definition endSessionLocked :: "conn_mgr \<Rightarrow> conn_mgr" where
  "endSessionLocked m = (cancel_session m)\<lparr>mg_session := None\<rparr>"

section \<open>Connecting\<close>

definition connect_begin ::
  "(bytes \<Rightarrow> bytes) \<Rightarrow> (string \<Rightarrow> string) \<Rightarrow> config \<Rightarrow> core_preferences \<Rightarrow> conn_mgr \<Rightarrow> string + (nat \<times> conn_mgr)" where
  "connect_begin sha lower cfg pref m =
     (if mg_shutdown m then Inl (connect_error ''fatal'' ''manager is shut down'')
      else if Active (mg_state m) then Inl (connect_error ''configuration'' (''a connection is already active (state '' @ state_string (mg_state m) @ '')''))
      else
        let cfg1 = SetID sha lower (config_Normalize lower cfg);
            gen = mg_generation m + 1;
            m1 = beginSessionLocked (m\<lparr>mg_generation := gen\<rparr>)
        in Inr (gen, m1\<lparr>mg_cfg := Some cfg1, mg_sessionLabel := (if IsChain cfg1 then ''proxy chain'' else []),
                        mg_state := StateSelecting, mg_attempts := [], mg_lastError := [], mg_coreReadyMS := 0,
                        mg_lastPref := pref, mg_corePID := 0\<rparr>))"

definition connect_selected :: "string \<Rightarrow> string \<Rightarrow> conn_mgr \<Rightarrow> conn_mgr" where
  "connect_selected name version m = m\<lparr>mg_coreName := name, mg_coreVersion := version\<rparr>"

text \<open>The candidate list: the selection, then the registered fallbacks up to \<open>MaxAttempts\<close>.\<close>

fun add_fallbacks :: "registry \<Rightarrow> int \<Rightarrow> string list \<Rightarrow> core_backend list \<Rightarrow> core_backend list" where
  "add_fallbacks r limit [] cands = cands"
| "add_fallbacks r limit (name # names) cands =
     (if int (length cands) \<ge> limit then cands
      else add_fallbacks r limit names (case registry_Get r name of Some b \<Rightarrow> cands @ [b] | None \<Rightarrow> cands))"

definition connect_candidates :: "registry \<Rightarrow> core_preferences \<Rightarrow> selection \<Rightarrow> core_backend list" where
  "connect_candidates r pref sel =
     (if pf_AllowFallback pref then add_fallbacks r (pf_MaxAttempts (pref_WithDefaults pref)) (se_Fallbacks sel) [se_Core sel]
      else [se_Core sel])"

definition isStartupCrash :: "string \<Rightarrow> bool" where
  "isStartupCrash err \<longleftrightarrow> str_contains err ''exited during startup'' \<or> str_contains err ''did not become ready''"

definition attempt_prepare :: "nat \<Rightarrow> conn_mgr \<Rightarrow> conn_mgr option" where
  "attempt_prepare gen m = (if mg_generation m \<noteq> gen then None else Some (m\<lparr>mg_state := StatePreparing\<rparr>))"

definition nextPort :: "conn_mgr \<Rightarrow> int" where
  "nextPort m = (if mg_socksPortPref m > 0 then mg_socksPortPref m else if mg_port m > 0 then mg_port m else 0)"

definition attempt_ports :: "conn_mgr \<Rightarrow> int \<times> int" where
  "attempt_ports m =
     (if mg_socksPortPref m > 0 then mg_socksPortPref m else nextPort m, if mg_httpPortPref m > 0 then mg_httpPortPref m else 0)"

text \<open>\<open>bind port\<close> is the error of opening a listener on the port, if any.\<close>

fun checkPorts :: "(int \<Rightarrow> string option) \<Rightarrow> int list \<Rightarrow> string option" where
  "checkPorts bind [] = None"
| "checkPorts bind (port # ports) =
     (if port \<le> 0 then checkPorts bind ports
      else if port < 1024 \<or> port > 65535 then Some (connect_error ''invalid_input'' (''local proxy port '' @ Itoa port @ '' out of range (1024-65535)''))
      else
        case bind port of
          Some err \<Rightarrow>
            Some (connect_error ''dependency_unavailable''
              (''local proxy port '' @ Itoa port @ '' is already in use; choose another port or free it (bind check: '' @ err @ '')''))
        | None \<Rightarrow> checkPorts bind ports)"

definition checkPortBindability :: "(int \<Rightarrow> string option) \<Rightarrow> int \<Rightarrow> int \<Rightarrow> string option" where
  "checkPortBindability bind socks http = checkPorts bind [socks, http]"

definition attempt_launch :: "nat \<Rightarrow> conn_mgr \<Rightarrow> conn_mgr option" where
  "attempt_launch gen m = (if mg_generation m \<noteq> gen then None else Some (m\<lparr>mg_state := StateStartingCore\<rparr>))"

definition attempt_publish :: "nat \<Rightarrow> nat \<Rightarrow> conn_mgr \<Rightarrow> conn_mgr option" where
  "attempt_publish gen inst m =
     (if mg_generation m \<noteq> gen then None else Some (m\<lparr>mg_state := StateWaitingForReady, mg_instance := Some inst\<rparr>))"

definition attempt_unready :: "nat \<Rightarrow> nat \<Rightarrow> conn_mgr \<Rightarrow> conn_mgr" where
  "attempt_unready gen inst m =
     (if mg_generation m = gen \<and> mg_instance m = Some inst then m\<lparr>mg_instance := None\<rparr> else m)"

definition attempt_connected ::
  "nat \<Rightarrow> nat \<Rightarrow> string \<Rightarrow> string \<Rightarrow> int \<Rightarrow> int \<Rightarrow> int \<Rightarrow> int \<Rightarrow> conn_mgr \<Rightarrow> conn_mgr option" where
  "attempt_connected gen inst name version now pid readyMS port m =
     (if mg_generation m \<noteq> gen then None
      else Some (m\<lparr>mg_instance := Some inst, mg_coreName := name, mg_coreVersion := version, mg_state := StateConnected,
                   mg_startedAt := now, mg_corePID := pid, mg_coreReadyMS := readyMS, mg_port := port\<rparr>))"

text \<open>The transition to \<open>StateVerifying\<close> has no generation gate in the code.\<close>

definition attempt_verifying :: "conn_mgr \<Rightarrow> conn_mgr" where
  "attempt_verifying m = m\<lparr>mg_state := StateVerifying\<rparr>"

definition ms :: "duration \<Rightarrow> int" where
  "ms d = d div 1000000"

definition attempt_verified :: "conn_opts \<Rightarrow> nat \<Rightarrow> verify_result \<Rightarrow> int \<Rightarrow> conn_mgr \<Rightarrow> conn_mgr option" where
  "attempt_verified opts gen result now m =
     (if mg_generation m \<noteq> gen then None
      else let m1 = m\<lparr>mg_lastVerify := result\<rparr> in
           Some (if vr_OK result then m1\<lparr>mg_verifiedAt := now, mg_verifyFailures := 0, mg_nextVerifyAt := now + ms (co_VerifyInterval opts)\<rparr>
                 else m1))"

definition attempt_unverified :: "nat \<Rightarrow> conn_mgr \<Rightarrow> conn_mgr" where
  "attempt_unverified gen m = (if mg_generation m = gen then m\<lparr>mg_instance := None, mg_state := StateSelecting\<rparr> else m)"

definition attempt_final :: "bool \<Rightarrow> nat \<Rightarrow> conn_mgr \<Rightarrow> conn_mgr option" where
  "attempt_final skip gen m =
     (if mg_generation m \<noteq> gen then None else Some (m\<lparr>mg_state := (if skip then StateConnected else StateConnectedVerified)\<rparr>))"

definition staleOrWrap :: "nat \<Rightarrow> string \<Rightarrow> string \<Rightarrow> string \<Rightarrow> conn_mgr \<Rightarrow> string" where
  "staleOrWrap gen err kind msg m =
     (if mg_generation m \<noteq> gen then connect_error ''cancelled'' (''session ended during attempt ('' @ err @ '')'')
      else connect_error kind msg)"

text \<open>\<open>redact\<close> is \<open>core.RedactLogText\<close> with the secrets of the configuration.\<close>

definition secrets :: "conn_mgr \<Rightarrow> string list" where
  "secrets m = (case mg_cfg m of None \<Rightarrow> [] | Some c \<Rightarrow> SecretFields c)"

definition recordAttemptAt :: "(string \<Rightarrow> string list \<Rightarrow> string) \<Rightarrow> nat \<Rightarrow> string \<Rightarrow> string option \<Rightarrow> conn_mgr \<Rightarrow> conn_mgr" where
  "recordAttemptAt redact gen backend err m =
     (let a = \<lparr>at_Backend = backend, at_OK = (err = None), at_Error = (case err of None \<Rightarrow> [] | Some e \<Rightarrow> redact e (secrets m))\<rparr>
      in if gen = 0 \<or> mg_generation m = gen then m\<lparr>mg_attempts := mg_attempts m @ [a]\<rparr> else m)"

definition failAt :: "nat \<Rightarrow> string \<Rightarrow> conn_mgr \<Rightarrow> conn_mgr" where
  "failAt gen err m =
     (if gen = 0 \<or> mg_generation m = gen then
        let m1 = m\<lparr>mg_state := StateConnectionFailed, mg_lastError := err, mg_instance := None, mg_corePID := 0\<rparr>
        in if gen \<noteq> 0 then endSessionLocked m1 else m1
      else m)"

section \<open>Disconnecting\<close>

definition disconnect_begin :: "conn_mgr \<Rightarrow> conn_mgr" where
  "disconnect_begin m = endSessionLocked (m\<lparr>mg_generation := mg_generation m + 1\<rparr>)"

definition stopMonitor_take :: "conn_mgr \<Rightarrow> nat option \<times> conn_mgr" where
  "stopMonitor_take m = (mg_monitor m, m\<lparr>mg_monitor := None\<rparr>)"

definition disconnect_take :: "conn_mgr \<Rightarrow> nat option \<times> conn_mgr" where
  "disconnect_take m =
     (mg_instance m,
      m\<lparr>mg_instance := None, mg_state := StateDisconnecting, mg_corePID := 0, mg_sessionLabel := [], mg_verifyFailures := 0,
        mg_nextVerifyAt := 0, mg_verifiedAt := 0, mg_lastVerify := no_verify\<rparr>)"

definition disconnect_error :: "string \<Rightarrow> conn_mgr \<Rightarrow> conn_mgr" where
  "disconnect_error err m = m\<lparr>mg_lastError := ''disconnect: '' @ err\<rparr>"

definition disconnect_finish :: "conn_mgr \<Rightarrow> conn_mgr" where
  "disconnect_finish m = m\<lparr>mg_state := StateDisconnected\<rparr>"

definition reconnect_config :: "conn_mgr \<Rightarrow> config option" where
  "reconnect_config m = mg_cfg m"

definition reconnect_pref :: "conn_mgr \<Rightarrow> core_preferences" where
  "reconnect_pref m = (mg_lastPref m)\<lparr>pf_AllowFallback := True\<rparr>"

definition shutdown_begin :: "conn_mgr \<Rightarrow> conn_mgr" where
  "shutdown_begin m = m\<lparr>mg_shutdown := True\<rparr>"

definition shutdown_end :: "conn_mgr \<Rightarrow> conn_mgr" where
  "shutdown_end m = m\<lparr>mg_cfg := None, mg_attempts := []\<rparr>"

section \<open>Snapshots\<close>

record conn_snapshot =
  sn_State :: conn_state
  sn_Core :: string
  sn_CoreVersion :: string
  sn_ConfigID :: string
  sn_ConfigName :: string
  sn_ConfigDisplay :: string
  sn_Endpoint :: string
  sn_LatencyMS :: int
  sn_StartedAt :: int
  sn_LastError :: string
  sn_Attempts :: "conn_attempt list"
  sn_FallbacksUsed :: int
  sn_CorePID :: int
  sn_CoreReadyMS :: int
  sn_PingMedianMS :: int
  sn_URLTotalMS :: int
  sn_Verification :: string
  sn_VerifiedAt :: int
  sn_VerifyFailures :: int

definition applyVerification :: "conn_mgr \<Rightarrow> conn_snapshot \<Rightarrow> conn_snapshot" where
  "applyVerification m s =
     (if mg_verifiedAt m = 0 then s\<lparr>sn_Verification := ''none''\<rparr>
      else
        let s1 = s\<lparr>sn_VerifiedAt := mg_verifiedAt m, sn_VerifyFailures := mg_verifyFailures m\<rparr> in
        if vr_OK (mg_lastVerify m) then
          s1\<lparr>sn_Verification := ''usable'', sn_LatencyMS := vr_TunnelProbeMS (mg_lastVerify m),
             sn_PingMedianMS := vr_TunnelProbeMS (mg_lastVerify m), sn_URLTotalMS := um_TotalMS (vr_Metrics (mg_lastVerify m))\<rparr>
        else if mg_state m = StateConnectedVerified then s1\<lparr>sn_Verification := ''degraded''\<rparr>
        else s1\<lparr>sn_Verification := ''failed''\<rparr>)"

definition snapshotLocked :: "(nat \<Rightarrow> string) \<Rightarrow> conn_mgr \<Rightarrow> conn_snapshot" where
  "snapshotLocked endpoint m =
     (let s = \<lparr>sn_State = mg_state m, sn_Core = mg_coreName m, sn_CoreVersion = mg_coreVersion m, sn_ConfigID = [], sn_ConfigName = [],
               sn_ConfigDisplay = [], sn_Endpoint = [], sn_LatencyMS = 0, sn_StartedAt = 0, sn_LastError = mg_lastError m,
               sn_Attempts = mg_attempts m, sn_FallbacksUsed = 0, sn_CorePID = mg_corePID m, sn_CoreReadyMS = 0, sn_PingMedianMS = 0,
               sn_URLTotalMS = 0, sn_Verification = [], sn_VerifiedAt = 0, sn_VerifyFailures = 0\<rparr>;
          s1 = (case mg_cfg m of
                  None \<Rightarrow> s
                | Some c \<Rightarrow> s\<lparr>sn_ConfigID := c_ID c, sn_ConfigName := c_Name c,
                             sn_ConfigDisplay := (if IsChain c then c_Name c @ '' (proxy chain)'' else DisplayURL c)\<rparr>)
      in case mg_instance m of
           None \<Rightarrow> s1
         | Some i \<Rightarrow>
             let s2 = applyVerification m (s1\<lparr>sn_Endpoint := endpoint i, sn_CoreReadyMS := mg_coreReadyMS m\<rparr>)
             in if mg_startedAt m \<noteq> 0 then s2\<lparr>sn_StartedAt := mg_startedAt m\<rparr> else s2)"

definition ActiveEndpoint :: "(nat \<Rightarrow> string) \<Rightarrow> conn_mgr \<Rightarrow> string" where
  "ActiveEndpoint endpoint m = (case mg_instance m of None \<Rightarrow> [] | Some i \<Rightarrow> endpoint i)"

definition snapshotsEqual :: "conn_snapshot \<Rightarrow> conn_snapshot \<Rightarrow> bool" where
  "snapshotsEqual a b \<longleftrightarrow>
     sn_State a = sn_State b \<and> sn_Core a = sn_Core b \<and> sn_CoreVersion a = sn_CoreVersion b \<and> sn_ConfigID a = sn_ConfigID b \<and>
     sn_ConfigName a = sn_ConfigName b \<and> sn_ConfigDisplay a = sn_ConfigDisplay b \<and> sn_Endpoint a = sn_Endpoint b \<and>
     sn_LatencyMS a = sn_LatencyMS b \<and> sn_StartedAt a = sn_StartedAt b \<and> sn_LastError a = sn_LastError b \<and>
     sn_FallbacksUsed a = sn_FallbacksUsed b \<and> sn_CorePID a = sn_CorePID b \<and> sn_CoreReadyMS a = sn_CoreReadyMS b \<and>
     sn_PingMedianMS a = sn_PingMedianMS b \<and> sn_URLTotalMS a = sn_URLTotalMS b \<and> sn_Verification a = sn_Verification b \<and>
     sn_VerifiedAt a = sn_VerifiedAt b \<and> sn_VerifyFailures a = sn_VerifyFailures b \<and> sn_Attempts a = sn_Attempts b"

section \<open>Verification of a session\<close>

definition verify_begin :: "conn_mgr \<Rightarrow> (nat \<times> nat) option" where
  "verify_begin m =
     (case mg_instance m of
        None \<Rightarrow> None
      | Some i \<Rightarrow> if ConnectedLike (mg_state m) then Some (i, mg_generation m) else None)"

definition verify_apply :: "conn_opts \<Rightarrow> nat \<Rightarrow> verify_result \<Rightarrow> int \<Rightarrow> conn_mgr \<Rightarrow> conn_mgr" where
  "verify_apply opts gen result now m =
     (if mg_generation m \<noteq> gen then m
      else let m1 = m\<lparr>mg_lastVerify := result\<rparr> in
           if vr_OK result then m1\<lparr>mg_verifiedAt := now, mg_verifyFailures := 0, mg_nextVerifyAt := now + ms (co_VerifyInterval opts)\<rparr> else m1)"

section \<open>The monitor\<close>

definition startMonitor_install :: "nat \<Rightarrow> conn_mgr \<Rightarrow> nat \<times> nat option \<times> conn_mgr" where
  "startMonitor_install mon m = (mg_generation m, mg_instance m, m\<lparr>mg_monitor := Some mon\<rparr>)"

definition watch_check :: "nat \<Rightarrow> conn_mgr \<Rightarrow> bool" where
  "watch_check gen m \<longleftrightarrow> mg_generation m = gen \<and> ConnectedLike (mg_state m)"

definition handleCoreCrash :: "nat \<Rightarrow> string \<Rightarrow> conn_mgr \<Rightarrow> conn_mgr" where
  "handleCoreCrash gen message m =
     (if mg_generation m = gen \<and> ConnectedLike (mg_state m) then
        endSessionLocked (m\<lparr>mg_state := StateConnectionFailed, mg_lastError := message, mg_instance := None, mg_corePID := 0,
                            mg_generation := mg_generation m + 1\<rparr>)
      else m)"

definition tick_check :: "nat \<Rightarrow> conn_mgr \<Rightarrow> nat option" where
  "tick_check gen m =
     (case mg_instance m of
        None \<Rightarrow> None
      | Some i \<Rightarrow> if ConnectedLike (mg_state m) \<and> mg_generation m = gen then Some i else None)"

definition recheck_begin :: "conn_opts \<Rightarrow> nat \<Rightarrow> int \<Rightarrow> conn_mgr \<Rightarrow> conn_mgr option" where
  "recheck_begin opts gen now m =
     (if mg_state m \<noteq> StateConnectedVerified \<or> vp_Skip (co_Verify opts) then None
      else if mg_generation m \<noteq> gen then None
      else if mg_nextVerifyAt m = 0 \<or> now < mg_nextVerifyAt m then None
      else Some (m\<lparr>mg_nextVerifyAt := now + ms (co_VerifyInterval opts)\<rparr>))"

datatype recheck_outcome = RecheckDone conn_mgr | RecheckTeardown "nat option" string conn_mgr

definition recheck_apply :: "conn_opts \<Rightarrow> nat \<Rightarrow> verify_result \<Rightarrow> int \<Rightarrow> conn_mgr \<Rightarrow> recheck_outcome" where
  "recheck_apply opts gen result now m =
     (if mg_generation m \<noteq> gen then RecheckDone m
      else let m1 = m\<lparr>mg_lastVerify := result\<rparr> in
        if vr_OK result then
          RecheckDone (m1\<lparr>mg_verifyFailures := 0, mg_verifiedAt := now, mg_nextVerifyAt := now + ms (co_VerifyInterval opts)\<rparr>)
        else let m2 = m1\<lparr>mg_verifyFailures := mg_verifyFailures m1 + 1\<rparr> in
          if mg_verifyFailures m2 < co_VerifyFailureThreshold opts then
            RecheckDone (m2\<lparr>mg_nextVerifyAt := now + ms (co_VerifyGrace opts)\<rparr>)
          else
            let m3 = endSessionLocked m2;
                msg = ''connection degraded: '' @ Itoa (mg_verifyFailures m3) @ '' consecutive failed verification rechecks ('' @
                      verify_Describe result @ '')''
            in RecheckTeardown (mg_instance m3) msg
                 (m3\<lparr>mg_instance := None, mg_corePID := 0, mg_verifyFailures := 0, mg_state := StateDisconnecting, mg_lastError := msg,
                     mg_generation := mg_generation m3 + 1\<rparr>))"

definition recheck_finish :: "string option \<Rightarrow> string \<Rightarrow> conn_mgr \<Rightarrow> conn_mgr" where
  "recheck_finish teardownErr msg m =
     (let m1 = (if mg_state m = StateDisconnecting then m\<lparr>mg_state := StateConnectionFailed\<rparr> else m)
      in case teardownErr of None \<Rightarrow> m1 | Some e \<Rightarrow> m1\<lparr>mg_lastError := msg @ ''; teardown error: '' @ e\<rparr>)"

end
