(* ===== verification/ConnSession.thy ===== *)
theory ConnSession
  imports ConnManager
begin

text \<open>
  The operations of the connection manager, composed from the sections of \<open>ConnManager\<close> in the order of
  the code and run alone: \<open>attempt\<close>, \<open>Connect\<close>, \<open>Disconnect\<close>, \<open>Reconnect\<close>, \<open>Shutdown\<close>. What the core
  backends and the network answer comes from an environment, and \<open>live\<close> lists the core instances that
  were started and not yet closed. Interleavings of the operations are the subject of \<open>ConnRun\<close>.
\<close>

section \<open>One attempt\<close>

text \<open>What one attempt meets: \<open>backend.Validate\<close>, the bind probe, \<open>backend.Start\<close> (an error or an
  instance), \<open>WaitReady\<close>, the process, the clock, and the verification through the tunnel.\<close>

record attempt_env =
  ae_Validate :: "string option"
  ae_bind :: "int \<Rightarrow> string option"
  ae_Start :: "string + nat"
  ae_WaitReady :: "string option"
  ae_PID :: int
  ae_readyMS :: int
  ae_now :: int
  ae_verify :: verify_result
  ae_monitor :: nat

type_synonym conn_world = "conn_mgr \<times> nat list"

definition cancelled_error :: "string \<Rightarrow> string" where
  "cancelled_error msg = connect_error ''cancelled'' msg"

definition startMonitor :: "nat \<Rightarrow> conn_mgr \<Rightarrow> conn_mgr" where
  "startMonitor mon m = snd (snd (startMonitor_install mon (snd (stopMonitor_take m))))"

text \<open>From the verified (or skipped) session to the running monitor.\<close>

definition attempt_finish ::
  "(string \<Rightarrow> string list \<Rightarrow> string) \<Rightarrow> conn_opts \<Rightarrow> attempt_env \<Rightarrow> string \<Rightarrow> nat \<Rightarrow> conn_world \<Rightarrow> string option \<times> conn_world" where
  "attempt_finish redact opts ev name gen w =
     (case attempt_final (vp_Skip (co_Verify opts)) gen (fst w) of
        None \<Rightarrow> (Some (cancelled_error (''session ended before '' @ name @ '' became verified'')), w)
      | Some m \<Rightarrow> (None, startMonitor (ae_monitor ev) (recordAttemptAt redact gen name None m), snd w))"

definition attempt_verify ::
  "(string \<Rightarrow> string list \<Rightarrow> string) \<Rightarrow> conn_opts \<Rightarrow> attempt_env \<Rightarrow> string \<Rightarrow> nat \<Rightarrow> nat \<Rightarrow> conn_world \<Rightarrow> string option \<times> conn_world" where
  "attempt_verify redact opts ev name gen i w =
     (if vp_Skip (co_Verify opts) then attempt_finish redact opts ev name gen w
      else
        case attempt_verified opts gen (ae_verify ev) (ae_now ev) (attempt_verifying (fst w)) of
          None \<Rightarrow> (Some (cancelled_error (''session ended during '' @ name @ '' verification (result discarded)'')),
                   attempt_verifying (fst w), removeAll i (snd w))
        | Some m \<Rightarrow>
            if vr_OK (ae_verify ev) then attempt_finish redact opts ev name gen (m, snd w)
            else
              let err = connect_error ''dependency_unavailable''
                          (name @ '' started but Internet verification failed ('' @ verify_Describe (ae_verify ev) @ ''); route not usable'')
              in (Some err, recordAttemptAt redact gen name (Some err) (attempt_unverified gen m), removeAll i (snd w)))"

definition attempt_ready ::
  "(string \<Rightarrow> string list \<Rightarrow> string) \<Rightarrow> conn_opts \<Rightarrow> registry \<Rightarrow> attempt_env \<Rightarrow> string \<Rightarrow> nat \<Rightarrow> int \<Rightarrow> nat \<Rightarrow> conn_world \<Rightarrow> string option \<times> conn_world" where
  "attempt_ready redact opts r ev name gen port i w =
     (case ae_WaitReady ev of
        Some err \<Rightarrow>
          let m = attempt_unready gen i (recordAttemptAt redact gen name (Some err) (fst w))
          in (Some (staleOrWrap gen err ''dependency_unavailable'' (name @ '' did not become ready'') m), m, removeAll i (snd w))
      | None \<Rightarrow>
          (case attempt_connected gen i name (registry_Version r name) (ae_now ev) (ae_PID ev) (ae_readyMS ev) port (fst w) of
             None \<Rightarrow> (Some (cancelled_error (''session ended while '' @ name @ '' became ready'')), fst w, removeAll i (snd w))
           | Some m \<Rightarrow> attempt_verify redact opts ev name gen i (m, snd w)))"

definition attempt_start ::
  "(string \<Rightarrow> string list \<Rightarrow> string) \<Rightarrow> conn_opts \<Rightarrow> registry \<Rightarrow> attempt_env \<Rightarrow> string \<Rightarrow> nat \<Rightarrow> int \<Rightarrow> conn_world \<Rightarrow> string option \<times> conn_world" where
  "attempt_start redact opts r ev name gen port w =
     (case ae_Start ev of
        Inl err \<Rightarrow>
          let m = recordAttemptAt redact gen name (Some err) (fst w)
          in (Some (staleOrWrap gen err ''dependency_unavailable'' (name @ '' failed to start'') m), m, snd w)
      | Inr i \<Rightarrow>
          (case attempt_publish gen i (fst w) of
             None \<Rightarrow> (Some (cancelled_error (''session ended during '' @ name @ '' startup'')), fst w, removeAll i (snd w))
           | Some m \<Rightarrow> attempt_ready redact opts r ev name gen port i (m, i # snd w)))"

definition attempt ::
  "(string \<Rightarrow> string list \<Rightarrow> string) \<Rightarrow> conn_opts \<Rightarrow> registry \<Rightarrow> attempt_env \<Rightarrow> core_backend \<Rightarrow> nat \<Rightarrow> conn_world \<Rightarrow> string option \<times> conn_world" where
  "attempt redact opts r ev backend gen w =
     (let name = bk_Name backend in
      case attempt_prepare gen (fst w) of
        None \<Rightarrow> (Some (cancelled_error (''session ended before '' @ name @ '' attempt prepared'')), w)
      | Some m \<Rightarrow>
          (case ae_Validate ev of
             Some err \<Rightarrow>
               let m1 = recordAttemptAt redact gen name (Some err) m
               in (Some (staleOrWrap gen err ''invalid_input'' (name @ '' validation failed'') m1), m1, snd w)
           | None \<Rightarrow>
               let (port, http) = attempt_ports m in
               (case checkPortBindability (ae_bind ev) port http of
                  Some err \<Rightarrow> (Some err, recordAttemptAt redact gen name (Some err) m, snd w)
                | None \<Rightarrow>
                    (case attempt_launch gen m of
                       None \<Rightarrow> (Some (cancelled_error (''session ended before '' @ name @ '' launch'')), m, snd w)
                     | Some m2 \<Rightarrow> attempt_start redact opts r ev name gen port (m2, snd w)))))"

section \<open>Connect, Disconnect, Reconnect, Shutdown\<close>

text \<open>The loop over the candidates; \<open>k\<close> counts the attempts made and \<open>ctxErr k\<close> tells whether the
  caller's context is cancelled after attempt \<open>k\<close>.\<close>

fun connect_loop ::
  "(string \<Rightarrow> string list \<Rightarrow> string) \<Rightarrow> conn_opts \<Rightarrow> registry \<Rightarrow> (nat \<Rightarrow> attempt_env) \<Rightarrow> (nat \<Rightarrow> bool) \<Rightarrow> nat \<Rightarrow> nat \<Rightarrow> core_backend list
    \<Rightarrow> string option \<Rightarrow> conn_world \<Rightarrow> (unit + string option) \<times> conn_world" where
  "connect_loop redact opts r ev ctxErr gen k [] lastErr w = (Inr lastErr, w)"
| "connect_loop redact opts r ev ctxErr gen k (c # cs) lastErr w =
     (case attempt redact opts r (ev k) c gen w of
        (None, w1) \<Rightarrow> (Inl (), w1)
      | (Some err, w1) \<Rightarrow>
          if ctxErr k then (Inr (Some err), w1)
          else if mg_generation (fst w1) \<noteq> gen then (Inr (Some err), w1)
          else if mg_state (fst w1) = StateConnectionFailed \<and> isStartupCrash err then
            (case attempt redact opts r (ev (k + 1)) c gen ((fst w1)\<lparr>mg_port := 0\<rparr>, snd w1) of
               (None, w2) \<Rightarrow> (Inl (), w2)
             | (Some err2, w2) \<Rightarrow> connect_loop redact opts r ev ctxErr gen (k + 2) cs (Some err2) w2)
          else connect_loop redact opts r ev ctxErr gen (k + 1) cs (Some err) w1)"

definition core_err_text :: "core_err \<Rightarrow> string" where
  "core_err_text e =
     (case e of
        ErrBackendNil \<Rightarrow> ''core/register: configuration: backend is nil''
      | ErrBackendName \<Rightarrow> ''core/register: configuration: backend name is empty''
      | ErrNoCandidate url details \<Rightarrow> ''core/select: dependency_unavailable: no compatible backend for '' @ url @ '' ('' @ details @ '')'')"

definition Connect ::
  "(bytes \<Rightarrow> bytes) \<Rightarrow> (string \<Rightarrow> string) \<Rightarrow> (string \<Rightarrow> string list \<Rightarrow> string) \<Rightarrow> conn_opts \<Rightarrow> registry \<Rightarrow> (nat \<Rightarrow> attempt_env)
    \<Rightarrow> (nat \<Rightarrow> bool) \<Rightarrow> config \<Rightarrow> core_preferences \<Rightarrow> conn_world \<Rightarrow> string option \<times> conn_world" where
  "Connect sha lower redact opts r ev ctxErr cfg pref w =
     (case connect_begin sha lower cfg pref (fst w) of
        Inl err \<Rightarrow> (Some err, w)
      | Inr (gen, m) \<Rightarrow>
          (case Select lower r (SetID sha lower (config_Normalize lower cfg)) pref of
             Inl e \<Rightarrow> (Some (core_err_text e), failAt gen (core_err_text e) m, snd w)
           | Inr sel \<Rightarrow>
               let name = bk_Name (se_Core sel);
                   m1 = connect_selected name (registry_Version r name) m
               in (case connect_loop redact opts r ev ctxErr gen 0 (connect_candidates r pref sel) None (m1, snd w) of
                     (Inl _, w2) \<Rightarrow> (None, w2)
                   | (Inr lastErr, w2) \<Rightarrow>
                       let err = (case lastErr of
                                    Some e \<Rightarrow> e
                                  | None \<Rightarrow> connect_error ''dependency_unavailable'' ''no backend attempt succeeded'')
                       in (Some err, failAt gen err (fst w2), snd w2))))"

text \<open>\<open>closeErr\<close> is what \<open>instance.Close\<close> returns.\<close>

definition Disconnect :: "string option \<Rightarrow> conn_world \<Rightarrow> conn_world" where
  "Disconnect closeErr w =
     (let m = snd (stopMonitor_take (disconnect_begin (fst w)));
          (i, m1) = disconnect_take m;
          m2 = (case (i, closeErr) of (Some _, Some err) \<Rightarrow> disconnect_error err m1 | _ \<Rightarrow> m1)
      in (disconnect_finish m2, case i of Some j \<Rightarrow> removeAll j (snd w) | None \<Rightarrow> snd w))"

definition Reconnect ::
  "(bytes \<Rightarrow> bytes) \<Rightarrow> (string \<Rightarrow> string) \<Rightarrow> (string \<Rightarrow> string list \<Rightarrow> string) \<Rightarrow> conn_opts \<Rightarrow> registry \<Rightarrow> (nat \<Rightarrow> attempt_env)
    \<Rightarrow> (nat \<Rightarrow> bool) \<Rightarrow> string option \<Rightarrow> conn_world \<Rightarrow> string option \<times> conn_world" where
  "Reconnect sha lower redact opts r ev ctxErr closeErr w =
     (case reconnect_config (fst w) of
        None \<Rightarrow> (Some ''connection/reconnect: configuration: no previous configuration to reconnect'', w)
      | Some cfg \<Rightarrow>
          let w1 = Disconnect closeErr w
          in Connect sha lower redact opts r ev ctxErr cfg (reconnect_pref (fst w1)) w1)"

definition Shutdown :: "string option \<Rightarrow> conn_world \<Rightarrow> conn_world" where
  "Shutdown closeErr w =
     (let (m, live) = Disconnect closeErr (shutdown_begin (fst w), snd w) in (shutdown_end m, live))"

section \<open>What an attempt does to the session\<close>

lemmas attempt_section_defs =
  attempt_prepare_def attempt_launch_def attempt_publish_def attempt_unready_def attempt_connected_def attempt_verifying_def
  attempt_verified_def attempt_unverified_def attempt_final_def recordAttemptAt_def staleOrWrap_def startMonitor_def
  startMonitor_install_def stopMonitor_take_def

text \<open>The session an attempt runs in: what it must leave alone, and the record it adds.\<close>

definition same_session :: "conn_mgr \<Rightarrow> conn_mgr \<Rightarrow> bool" where
  "same_session m m' \<longleftrightarrow> mg_generation m' = mg_generation m \<and> mg_session m' = mg_session m \<and> mg_contexts m' = mg_contexts m \<and>
     mg_cancelled m' = mg_cancelled m \<and> mg_cfg m' = mg_cfg m \<and> mg_shutdown m' = mg_shutdown m \<and> mg_lastPref m' = mg_lastPref m"

definition pending_state :: "conn_state \<Rightarrow> bool" where
  "pending_state s \<longleftrightarrow> s = StatePreparing \<or> s = StateStartingCore \<or> s = StateWaitingForReady \<or> s = StateSelecting"

definition established :: "conn_opts \<Rightarrow> nat \<Rightarrow> conn_mgr \<Rightarrow> bool" where
  "established opts i m \<longleftrightarrow> mg_instance m = Some i \<and>
     (if vp_Skip (co_Verify opts) then mg_state m = StateConnected
      else mg_state m = StateConnectedVerified \<and> vr_OK (mg_lastVerify m) \<and> mg_verifyFailures m = 0)"

definition attempt_outcome :: "conn_opts \<Rightarrow> string \<Rightarrow> attempt_env \<Rightarrow> conn_mgr \<Rightarrow> string option \<times> conn_world \<Rightarrow> bool" where
  "attempt_outcome opts name ev m res \<longleftrightarrow>
     (case res of
        (None, m', live') \<Rightarrow> same_session m m' \<and>
          (\<exists>i. ae_Start ev = Inr i \<and> live' = [i] \<and> established opts i m') \<and> mg_coreName m' = name \<and>
          mg_attempts m' = mg_attempts m @ [\<lparr>at_Backend = name, at_OK = True, at_Error = []\<rparr>]
      | (Some err, m', live') \<Rightarrow> same_session m m' \<and> live' = [] \<and> mg_instance m' = None \<and> pending_state (mg_state m') \<and>
          (\<exists>e. mg_attempts m' = mg_attempts m @ [\<lparr>at_Backend = name, at_OK = False, at_Error = e\<rparr>]))"

lemma attempt_finish_outcome:
  assumes "mg_generation m = gen" "mg_instance m = Some i" "ae_Start ev = Inr i" "mg_coreName m = name"
    "vp_Skip (co_Verify opts) \<or> vr_OK (mg_lastVerify m) \<and> mg_verifyFailures m = 0"
  shows "attempt_outcome opts name ev m (attempt_finish redact opts ev name gen (m, [i]))"
  using assms by (auto simp: attempt_finish_def attempt_outcome_def attempt_section_defs same_session_def established_def)

lemma attempt_outcome_trans:
  assumes "attempt_outcome opts name ev m1 res" "same_session m m1" "mg_attempts m1 = mg_attempts m"
  shows "attempt_outcome opts name ev m res"
  using assms by (auto simp: attempt_outcome_def same_session_def split: prod.splits option.splits)

lemma attempt_verify_outcome:
  assumes g: "mg_generation m = gen" and i: "mg_instance m = Some i" and st: "ae_Start ev = Inr i" and n: "mg_coreName m = name"
  shows "attempt_outcome opts name ev m (attempt_verify redact opts ev name gen i (m, [i]))"
proof (cases "vp_Skip (co_Verify opts)")
  case True
  then show ?thesis using attempt_finish_outcome [OF g i st n] by (simp add: attempt_verify_def)
next
  case False
  let ?m = "m\<lparr>mg_state := StateVerifying, mg_lastVerify := ae_verify ev, mg_verifiedAt := ae_now ev, mg_verifyFailures := 0,
              mg_nextVerifyAt := ae_now ev + ms (co_VerifyInterval opts)\<rparr>"
  show ?thesis
  proof (cases "vr_OK (ae_verify ev)")
    case True
    then have "attempt_verify redact opts ev name gen i (m, [i]) = attempt_finish redact opts ev name gen (?m, [i])"
      using False g by (simp add: attempt_verify_def attempt_section_defs)
    moreover have "attempt_outcome opts name ev ?m (attempt_finish redact opts ev name gen (?m, [i]))"
      by (rule attempt_finish_outcome) (use g i st n True in simp_all)
    ultimately show ?thesis by (auto intro!: attempt_outcome_trans [of opts name ev ?m] simp: same_session_def)
  next
    case nok: False
    then show ?thesis using False g
      by (simp add: attempt_verify_def attempt_section_defs attempt_outcome_def same_session_def pending_state_def Let_def)
  qed
qed

lemma attempt_ready_outcome:
  assumes g: "mg_generation m = gen" and i: "mg_instance m = Some i" and st: "ae_Start ev = Inr i"
    and p: "pending_state (mg_state m)"
  shows "attempt_outcome opts name ev m (attempt_ready redact opts r ev name gen port i (m, [i]))"
proof (cases "ae_WaitReady ev")
  case None
  let ?m = "m\<lparr>mg_instance := Some i, mg_coreName := name, mg_coreVersion := registry_Version r name, mg_state := StateConnected,
              mg_startedAt := ae_now ev, mg_corePID := ae_PID ev, mg_coreReadyMS := ae_readyMS ev, mg_port := port\<rparr>"
  have "attempt_ready redact opts r ev name gen port i (m, [i]) = attempt_verify redact opts ev name gen i (?m, [i])"
    using None g by (simp add: attempt_ready_def attempt_connected_def)
  moreover have "attempt_outcome opts name ev ?m (attempt_verify redact opts ev name gen i (?m, [i]))"
    by (rule attempt_verify_outcome) (use g st in simp_all)
  ultimately show ?thesis by (auto intro!: attempt_outcome_trans [of opts name ev ?m] simp: same_session_def)
next
  case (Some err)
  then show ?thesis using g i p
    by (simp add: attempt_ready_def attempt_section_defs attempt_outcome_def same_session_def Let_def)
qed

lemma attempt_start_outcome:
  assumes g: "mg_generation m = gen" and i: "mg_instance m = None" and p: "pending_state (mg_state m)"
  shows "attempt_outcome opts name ev m (attempt_start redact opts r ev name gen port (m, []))"
proof (cases "ae_Start ev")
  case (Inl err)
  then show ?thesis using g i p
    by (simp add: attempt_start_def attempt_section_defs attempt_outcome_def same_session_def Let_def)
next
  case (Inr i)
  let ?m = "m\<lparr>mg_state := StateWaitingForReady, mg_instance := Some i\<rparr>"
  have "attempt_start redact opts r ev name gen port (m, []) = attempt_ready redact opts r ev name gen port i (?m, [i])"
    using Inr g by (simp add: attempt_start_def attempt_publish_def)
  moreover have "attempt_outcome opts name ev ?m (attempt_ready redact opts r ev name gen port i (?m, [i]))"
    by (rule attempt_ready_outcome) (use g Inr in \<open>simp_all add: pending_state_def\<close>)
  ultimately show ?thesis by (auto intro!: attempt_outcome_trans [of opts name ev ?m] simp: same_session_def)
qed

lemma attempt_outcome_ok:
  assumes g: "mg_generation m = gen" and i: "mg_instance m = None"
  shows "attempt_outcome opts (bk_Name b) ev m (attempt redact opts r ev b gen (m, []))"
proof -
  let ?m = "m\<lparr>mg_state := StateStartingCore\<rparr>" and ?port = "fst (attempt_ports (m\<lparr>mg_state := StatePreparing\<rparr>))"
  have st: "attempt_outcome opts (bk_Name b) ev m (attempt_start redact opts r ev (bk_Name b) gen ?port (?m, []))"
    by (rule attempt_outcome_trans [of _ _ _ ?m, OF attempt_start_outcome])
      (use g i in \<open>simp_all add: pending_state_def same_session_def\<close>)
  show ?thesis
  proof (cases "ae_Validate ev")
    case (Some err)
    then show ?thesis using g i
      by (simp add: attempt_def attempt_section_defs attempt_outcome_def same_session_def pending_state_def Let_def)
  next
    case None
    show ?thesis
    proof (cases "checkPortBindability (ae_bind ev) ?port (snd (attempt_ports (m\<lparr>mg_state := StatePreparing\<rparr>)))")
      case bad: (Some err)
      then show ?thesis using g i None
        by (simp add: attempt_def attempt_section_defs attempt_outcome_def same_session_def pending_state_def Let_def split_beta)
    next
      case ok: None
      then show ?thesis using st g None by (simp add: attempt_def attempt_prepare_def attempt_launch_def Let_def split_beta)
    qed
  qed
qed

section \<open>The loop over the candidates\<close>

text \<open>The loop without the retry of a crashed backend.\<close>

fun connect_loop_once ::
  "(string \<Rightarrow> string list \<Rightarrow> string) \<Rightarrow> conn_opts \<Rightarrow> registry \<Rightarrow> (nat \<Rightarrow> attempt_env) \<Rightarrow> (nat \<Rightarrow> bool) \<Rightarrow> nat \<Rightarrow> nat \<Rightarrow> core_backend list
    \<Rightarrow> string option \<Rightarrow> conn_world \<Rightarrow> (unit + string option) \<times> conn_world" where
  "connect_loop_once redact opts r ev ctxErr gen k [] lastErr w = (Inr lastErr, w)"
| "connect_loop_once redact opts r ev ctxErr gen k (c # cs) lastErr w =
     (case attempt redact opts r (ev k) c gen w of
        (None, w1) \<Rightarrow> (Inl (), w1)
      | (Some err, w1) \<Rightarrow> if ctxErr k then (Inr (Some err), w1) else connect_loop_once redact opts r ev ctxErr gen (k + 1) cs (Some err) w1)"

lemma attempt_cases [consumes 2, case_names ok failed]:
  assumes "mg_generation m = gen" "mg_instance m = None"
  obtains (ok) m' i where "attempt redact opts r ev b gen (m, []) = (None, m', [i])" "same_session m m'" "established opts i m'"
      "mg_attempts m' = mg_attempts m @ [\<lparr>at_Backend = bk_Name b, at_OK = True, at_Error = []\<rparr>]" "ae_Start ev = Inr i"
  | (failed) err m' e where "attempt redact opts r ev b gen (m, []) = (Some err, m', [])" "same_session m m'" "mg_instance m' = None"
      "pending_state (mg_state m')" "mg_attempts m' = mg_attempts m @ [\<lparr>at_Backend = bk_Name b, at_OK = False, at_Error = e\<rparr>]"
proof -
  obtain res m' live' where eq: "attempt redact opts r ev b gen (m, []) = (res, m', live')" by (metis prod_cases3)
  with attempt_outcome_ok [OF assms, of opts b ev redact r] show thesis
    by (cases res) (auto simp: attempt_outcome_def intro: ok failed)
qed

lemma connect_loop_no_retry:
  assumes "mg_generation m = gen" "mg_instance m = None"
  shows "connect_loop redact opts r ev ctxErr gen k cs lastErr (m, []) = connect_loop_once redact opts r ev ctxErr gen k cs lastErr (m, [])"
  using assms
proof (induction cs arbitrary: k lastErr m)
  case (Cons c cs)
  from Cons.prems show ?case
  proof (cases rule: attempt_cases [where redact = redact and opts = opts and r = r and ev = "ev k" and b = c])
    case (failed err m' e)
    then have "mg_generation m' = gen" "mg_state m' \<noteq> StateConnectionFailed"
      using Cons.prems by (auto simp: same_session_def pending_state_def)
    with failed Cons.IH show ?thesis by simp
  qed simp
qed simp

definition attempts_of :: "core_backend list \<Rightarrow> conn_attempt list \<Rightarrow> bool" where
  "attempts_of cs as \<longleftrightarrow> map at_Backend as = map bk_Name (take (length as) cs) \<and> length as \<le> length cs"

definition loop_outcome ::
  "conn_opts \<Rightarrow> (nat \<Rightarrow> bool) \<Rightarrow> nat \<Rightarrow> core_backend list \<Rightarrow> conn_mgr \<Rightarrow> (unit + string option) \<times> conn_world \<Rightarrow> bool" where
  "loop_outcome opts ctxErr k cs m res \<longleftrightarrow>
     (case res of
        (Inl _, m', live') \<Rightarrow> same_session m m' \<and> (\<exists>i. live' = [i] \<and> established opts i m') \<and>
          (\<exists>as a. mg_attempts m' = mg_attempts m @ as @ [a] \<and> attempts_of cs (as @ [a]) \<and> (\<forall>b \<in> set as. \<not> at_OK b) \<and> at_OK a)
      | (Inr _, m', live') \<Rightarrow> same_session m m' \<and> live' = [] \<and> mg_instance m' = None \<and>
          (\<exists>as. mg_attempts m' = mg_attempts m @ as \<and> attempts_of cs as \<and> (\<forall>b \<in> set as. \<not> at_OK b) \<and>
                ((\<forall>j. \<not> ctxErr j) \<longrightarrow> length as = length cs)))"

lemma loop_outcome_Cons:
  assumes "loop_outcome opts ctxErr k' cs m1 res" "same_session m m1" "mg_attempts m1 = mg_attempts m @ [a]" "at_Backend a = bk_Name c" "\<not> at_OK a"
  shows "loop_outcome opts ctxErr k (c # cs) m res"
proof -
  obtain out m' live' where res: "res = (out, m', live')" by (metis prod_cases3)
  have ss: "same_session m m'" using assms(1,2) by (auto simp: loop_outcome_def res same_session_def split: sum.splits)
  show ?thesis
  proof (cases out)
    case (Inl u)
    with assms(1) obtain i as b where l: "live' = [i]" "established opts i m'" "mg_attempts m' = mg_attempts m1 @ as @ [b]"
      "attempts_of cs (as @ [b])" "\<forall>x \<in> set as. \<not> at_OK x" "at_OK b" by (auto simp: loop_outcome_def res)
    then have "mg_attempts m' = mg_attempts m @ (a # as) @ [b]" "attempts_of (c # cs) ((a # as) @ [b])" "\<forall>x \<in> set (a # as). \<not> at_OK x"
      using assms by (simp_all add: attempts_of_def)
    then have "\<exists>as a. mg_attempts m' = mg_attempts m @ as @ [a] \<and> attempts_of (c # cs) (as @ [a]) \<and> (\<forall>b \<in> set as. \<not> at_OK b) \<and> at_OK a"
      using l(6) by blast
    with l(1,2) ss Inl show ?thesis by (simp add: loop_outcome_def res)
  next
    case (Inr e)
    with assms(1) obtain as where l: "live' = []" "mg_instance m' = None" "mg_attempts m' = mg_attempts m1 @ as" "attempts_of cs as"
      "\<forall>x \<in> set as. \<not> at_OK x" "(\<forall>j. \<not> ctxErr j) \<longrightarrow> length as = length cs" by (auto simp: loop_outcome_def res)
    then have "mg_attempts m' = mg_attempts m @ (a # as)" "attempts_of (c # cs) (a # as)" "\<forall>x \<in> set (a # as). \<not> at_OK x"
      "(\<forall>j. \<not> ctxErr j) \<longrightarrow> length (a # as) = length (c # cs)"
      using assms by (simp_all add: attempts_of_def)
    then have "\<exists>as. mg_attempts m' = mg_attempts m @ as \<and> attempts_of (c # cs) as \<and> (\<forall>b \<in> set as. \<not> at_OK b) \<and>
                ((\<forall>j. \<not> ctxErr j) \<longrightarrow> length as = length (c # cs))" by blast
    with l(1,2) ss Inr show ?thesis by (simp add: loop_outcome_def res)
  qed
qed

lemma connect_loop_once_outcome:
  assumes "mg_generation m = gen" "mg_instance m = None"
  shows "loop_outcome opts ctxErr k cs m (connect_loop_once redact opts r ev ctxErr gen k cs lastErr (m, []))"
  using assms
proof (induction cs arbitrary: k lastErr m)
  case Nil
  then show ?case by (simp add: loop_outcome_def same_session_def attempts_of_def)
next
  case (Cons c cs)
  from Cons.prems show ?case
  proof (cases rule: attempt_cases [where redact = redact and opts = opts and r = r and ev = "ev k" and b = c])
    case (ok m' i)
    have "\<exists>as a. mg_attempts m' = mg_attempts m @ as @ [a] \<and> attempts_of (c # cs) (as @ [a]) \<and> (\<forall>b \<in> set as. \<not> at_OK b) \<and> at_OK a"
      by (rule exI [of _ "[]"]) (simp add: ok attempts_of_def)
    with ok show ?thesis by (simp add: loop_outcome_def)
  next
    case (failed err m' e)
    show ?thesis
    proof (cases "ctxErr k")
      case True
      have "\<exists>as. mg_attempts m' = mg_attempts m @ as \<and> attempts_of (c # cs) as \<and> (\<forall>b \<in> set as. \<not> at_OK b) \<and>
                ((\<forall>j. \<not> ctxErr j) \<longrightarrow> length as = length (c # cs))"
        by (rule exI [of _ "[\<lparr>at_Backend = bk_Name c, at_OK = False, at_Error = e\<rparr>]"]) (use True failed in \<open>auto simp: attempts_of_def\<close>)
      with True failed show ?thesis by (simp add: loop_outcome_def)
    next
      case False
      have "mg_generation m' = gen" using failed Cons.prems by (simp add: same_session_def)
      from Cons.IH [OF this, of "k + 1" "Some err"] failed have
        "loop_outcome opts ctxErr (k + 1) cs m' (connect_loop_once redact opts r ev ctxErr gen (k + 1) cs (Some err) (m', []))" by simp
      from loop_outcome_Cons [OF this, of m "\<lparr>at_Backend = bk_Name c, at_OK = False, at_Error = e\<rparr>" c k] failed False
      show ?thesis by simp
    qed
  qed
qed

lemma connect_loop_outcome:
  assumes "mg_generation m = gen" "mg_instance m = None"
  shows "loop_outcome opts ctxErr k cs m (connect_loop redact opts r ev ctxErr gen k cs lastErr (m, []))"
  using connect_loop_once_outcome [OF assms] connect_loop_no_retry [OF assms] by simp

section \<open>Connect as a whole\<close>

lemma add_fallbacks_length: "int (length (add_fallbacks r limit names cands)) \<le> max limit (int (length cands))"
  by (induction r limit names cands rule: add_fallbacks.induct) (auto split: option.splits)

lemma connect_candidates_length:
  "int (length (connect_candidates r pref sel)) \<le> (if pf_AllowFallback pref then max 1 (pf_MaxAttempts (pref_WithDefaults pref)) else 1)"
  using add_fallbacks_length [of r "pf_MaxAttempts (pref_WithDefaults pref)" "se_Fallbacks sel" "[se_Core sel]"]
  by (auto simp: connect_candidates_def)

definition attempt_limit :: "core_preferences \<Rightarrow> int" where
  "attempt_limit pref = (if pf_AllowFallback pref then max 1 (pf_MaxAttempts (pref_WithDefaults pref)) else 1)"

lemma all_failed: "(\<forall>b \<in> set as. \<not> at_OK b) \<Longrightarrow> map at_OK as = replicate (length as) False"
  by (induction as) auto

lemma attempts_of_bound: "attempts_of (connect_candidates r pref sel) as \<Longrightarrow> int (length as) \<le> attempt_limit pref"
  using connect_candidates_length [of r pref sel] by (auto simp: attempts_of_def attempt_limit_def)

text \<open>The two places a manager rests in between operations.\<close>

definition session_live :: "conn_mgr \<Rightarrow> bool" where
  "session_live m \<longleftrightarrow> (\<exists>c. mg_session m = Some c \<and> c \<notin> set (mg_cancelled m))"

definition contexts_ok :: "conn_mgr \<Rightarrow> bool" where
  "contexts_ok m \<longleftrightarrow> (\<forall>c \<in> set (mg_cancelled m). c < mg_contexts m) \<and> (\<forall>c. mg_session m = Some c \<longrightarrow> c < mg_contexts m)"

definition world_ok :: "conn_opts \<Rightarrow> conn_world \<Rightarrow> bool" where
  "world_ok opts w \<longleftrightarrow> contexts_ok (fst w) \<and>
     (Terminal (mg_state (fst w)) \<and> mg_instance (fst w) = None \<and> mg_session (fst w) = None \<and> snd w = [] \<or>
      session_live (fst w) \<and> (\<exists>i. snd w = [i] \<and> established opts i (fst w)))"

definition connect_outcome :: "conn_opts \<Rightarrow> core_preferences \<Rightarrow> string option \<times> conn_world \<Rightarrow> bool" where
  "connect_outcome opts pref res \<longleftrightarrow>
     (case res of
        (None, m, live) \<Rightarrow> session_live m \<and> (\<exists>i. live = [i] \<and> established opts i m) \<and>
          (\<exists>n. map at_OK (mg_attempts m) = replicate n False @ [True] \<and> int n < attempt_limit pref)
      | (Some err, m, live) \<Rightarrow> mg_state m = StateConnectionFailed \<and> mg_lastError m = err \<and> mg_instance m = None \<and> mg_corePID m = 0 \<and>
          mg_session m = None \<and> live = [] \<and> (\<exists>n. map at_OK (mg_attempts m) = replicate n False \<and> int n \<le> attempt_limit pref))"

lemmas session_defs = endSessionLocked_def beginSessionLocked_def cancel_session_def

lemma established_active: "established opts i m \<Longrightarrow> Active (mg_state m)"
  by (auto simp: established_def Active_def split: if_splits)

lemma connect_begin_facts:
  assumes "connect_begin sha lower cfg pref m = Inr (gen, m1)" "contexts_ok m"
  shows "mg_generation m1 = gen \<and> gen > 0 \<and> \<not> Active (mg_state m) \<and> mg_instance m1 = mg_instance m \<and> mg_attempts m1 = [] \<and>
    session_live m1 \<and> contexts_ok m1"
  using assms
  by (auto simp: connect_begin_def Let_def session_defs session_live_def contexts_ok_def less_SucI split: if_splits option.splits)

lemma failAt_facts:
  assumes "mg_generation m = gen" "gen > 0" "contexts_ok m"
  shows "contexts_ok (failAt gen err m) \<and> mg_state (failAt gen err m) = StateConnectionFailed \<and> mg_lastError (failAt gen err m) = err \<and>
    mg_instance (failAt gen err m) = None \<and> mg_corePID (failAt gen err m) = 0 \<and> mg_session (failAt gen err m) = None \<and>
    mg_attempts (failAt gen err m) = mg_attempts m"
  using assms by (auto simp: failAt_def Let_def session_defs contexts_ok_def split: option.splits)

lemma same_session_keeps: "same_session m m' \<Longrightarrow> contexts_ok m \<Longrightarrow> contexts_ok m'" "same_session m m' \<Longrightarrow> session_live m \<Longrightarrow> session_live m'"
  by (auto simp: same_session_def contexts_ok_def session_live_def)

lemma attempt_limit_pos: "1 \<le> attempt_limit pref"
  by (simp add: attempt_limit_def)

lemma connect_outcome_ok:
  assumes w: "world_ok opts w" and b: "connect_begin sha lower cfg pref (fst w) = Inr (gen, m1)"
    and res_def: "res = Connect sha lower redact opts r ev ctxErr cfg pref w"
  shows "connect_outcome opts pref res \<and> contexts_ok (fst (snd res))"
proof -
  from w have c: "contexts_ok (fst w)" by (simp add: world_ok_def)
  note bf = connect_begin_facts [OF b c]
  with w have i: "mg_instance (fst w) = None" "snd w = []" by (auto simp: world_ok_def dest: established_active)
  show ?thesis
  proof (cases "Select lower r (SetID sha lower (config_Normalize lower cfg)) pref")
    case (Inl e)
    then have "res = (Some (core_err_text e), failAt gen (core_err_text e) m1, [])" by (simp add: res_def Connect_def b i)
    moreover have "\<exists>n. map at_OK (mg_attempts m1) = replicate n False \<and> int n \<le> attempt_limit pref"
      using bf attempt_limit_pos [of pref] by (intro exI [of _ 0]) auto
    ultimately show ?thesis using failAt_facts [of m1 gen "core_err_text e"] bf by (simp add: connect_outcome_def)
  next
    case (Inr sel)
    let ?m = "connect_selected (bk_Name (se_Core sel)) (registry_Version r (bk_Name (se_Core sel))) m1"
    let ?cs = "connect_candidates r pref sel"
    have m: "mg_generation ?m = gen" "mg_instance ?m = None" "mg_attempts ?m = []" "contexts_ok ?m" "session_live ?m"
      using bf i by (simp_all add: connect_selected_def contexts_ok_def session_live_def)
    obtain out m2 live2 where l: "connect_loop redact opts r ev ctxErr gen 0 ?cs None (?m, []) = (out, m2, live2)" by (metis prod_cases3)
    from connect_loop_outcome [OF m(1,2), of opts ctxErr 0 ?cs redact r ev None] have lo: "loop_outcome opts ctxErr 0 ?cs ?m (out, m2, live2)"
      by (simp add: l)
    show ?thesis
    proof (cases out)
      case (Inl u)
      with l Inr b i have res: "res = (None, m2, live2)" by (simp add: res_def Connect_def Let_def)
      from lo Inl m obtain as a where ss: "same_session ?m m2" "\<exists>i. live2 = [i] \<and> established opts i m2" and
        as: "mg_attempts m2 = as @ [a]" "attempts_of ?cs (as @ [a])" "\<forall>b \<in> set as. \<not> at_OK b" "at_OK a" by (auto simp: loop_outcome_def)
      have "map at_OK (mg_attempts m2) = replicate (length as) False @ [True]" using as all_failed [of as] by simp
      moreover have "int (length as) < attempt_limit pref" using attempts_of_bound [OF as(2)] by simp
      ultimately show ?thesis using ss same_session_keeps [OF ss(1)] m res by (auto simp: connect_outcome_def)
    next
      case (Inr e)
      let ?err = "case e of Some e \<Rightarrow> e | None \<Rightarrow> connect_error ''dependency_unavailable'' ''no backend attempt succeeded''"
      from lo Inr m obtain as where ss: "same_session ?m m2" "live2 = []" and
        as: "mg_attempts m2 = as" "attempts_of ?cs as" "\<forall>b \<in> set as. \<not> at_OK b" by (auto simp: loop_outcome_def)
      have g: "mg_generation m2 = gen" using ss m by (simp add: same_session_def)
      have res: "res = (Some ?err, failAt gen ?err m2, [])"
        using l Inr \<open>Select lower r _ pref = Inr sel\<close> b i ss by (simp add: res_def Connect_def Let_def)
      have "map at_OK (mg_attempts m2) = replicate (length as) False" using as all_failed [of as] by simp
      moreover have "int (length as) \<le> attempt_limit pref" by (rule attempts_of_bound [OF as(2)])
      ultimately show ?thesis using failAt_facts [OF g _ same_session_keeps(1) [OF ss(1) m(4)], of ?err] bf res
        by (auto simp: connect_outcome_def)
    qed
  qed
qed

section \<open>Sequences of operations\<close>

datatype conn_op =
    OpConnect "nat \<Rightarrow> attempt_env" "nat \<Rightarrow> bool" config core_preferences
  | OpDisconnect "string option"
  | OpReconnect "nat \<Rightarrow> attempt_env" "nat \<Rightarrow> bool" "string option"
  | OpShutdown "string option"

fun conn_apply ::
  "(bytes \<Rightarrow> bytes) \<Rightarrow> (string \<Rightarrow> string) \<Rightarrow> (string \<Rightarrow> string list \<Rightarrow> string) \<Rightarrow> conn_opts \<Rightarrow> registry \<Rightarrow> conn_op \<Rightarrow> conn_world \<Rightarrow> conn_world" where
  "conn_apply sha lower redact opts r (OpConnect ev ctxErr cfg pref) w = snd (Connect sha lower redact opts r ev ctxErr cfg pref w)"
| "conn_apply sha lower redact opts r (OpDisconnect closeErr) w = Disconnect closeErr w"
| "conn_apply sha lower redact opts r (OpReconnect ev ctxErr closeErr) w = snd (Reconnect sha lower redact opts r ev ctxErr closeErr w)"
| "conn_apply sha lower redact opts r (OpShutdown closeErr) w = Shutdown closeErr w"

definition conn_ops ::
  "(bytes \<Rightarrow> bytes) \<Rightarrow> (string \<Rightarrow> string) \<Rightarrow> (string \<Rightarrow> string list \<Rightarrow> string) \<Rightarrow> conn_opts \<Rightarrow> registry \<Rightarrow> conn_op list \<Rightarrow> conn_world" where
  "conn_ops sha lower redact o0 r ops =
     fold (conn_apply sha lower redact (fst (conn_New o0)) r) ops (snd (conn_New o0), [])"

lemma Disconnect_ok: "world_ok opts w \<Longrightarrow> world_ok opts' (Disconnect closeErr w)"
  by (auto simp: world_ok_def Disconnect_def disconnect_begin_def stopMonitor_take_def disconnect_take_def disconnect_error_def
        disconnect_finish_def session_defs contexts_ok_def Terminal_def established_def Let_def split: option.splits)

lemma Connect_ok:
  assumes "world_ok opts w"
  shows "world_ok opts (snd (Connect sha lower redact opts r ev ctxErr cfg pref w))"
proof (cases "connect_begin sha lower cfg pref (fst w)")
  case (Inl e)
  with assms show ?thesis by (simp add: Connect_def)
next
  case (Inr g)
  obtain gen m1 where b: "connect_begin sha lower cfg pref (fst w) = Inr (gen, m1)" using Inr by (cases g) auto
  obtain err m live where res: "Connect sha lower redact opts r ev ctxErr cfg pref w = (err, m, live)" by (metis prod_cases3)
  from connect_outcome_ok [OF assms b res [symmetric]] show ?thesis
    by (cases err) (auto simp: res connect_outcome_def world_ok_def Terminal_def)
qed

lemma conn_apply_ok:
  assumes "world_ok opts w"
  shows "world_ok opts (conn_apply sha lower redact opts r op w)"
proof (cases op)
  case (OpShutdown closeErr)
  have "world_ok opts (shutdown_begin (fst w), snd w)"
    using assms by (auto simp: world_ok_def shutdown_begin_def contexts_ok_def session_live_def established_def)
  from Disconnect_ok [OF this, of opts closeErr] OpShutdown show ?thesis
    by (auto simp: Shutdown_def Let_def world_ok_def shutdown_end_def contexts_ok_def session_live_def established_def split: prod.splits)
qed (use assms in \<open>auto simp: Reconnect_def Let_def intro: Connect_ok Disconnect_ok split: option.splits\<close>)

lemma conn_ops_ok: "world_ok (fst (conn_New o0)) (conn_ops sha lower redact o0 r ops)"
proof -
  let ?opts = "fst (conn_New o0)"
  have "world_ok ?opts (fold (conn_apply sha lower redact ?opts r) ops w)" if "world_ok ?opts w" for w
    using that by (induction ops arbitrary: w) (simp_all add: conn_apply_ok)
  then show ?thesis unfolding conn_ops_def by (simp add: world_ok_def conn_New_def contexts_ok_def Terminal_def)
qed

text \<open>
  Whatever operations (\<open>Connect\<close>, \<open>Disconnect\<close>, \<open>Reconnect\<close>, \<open>Shutdown\<close>) ran before, and
  whatever the backends, the network and the clock answer: the manager rests either disconnected or failed, with no
  instance, no session context and no core process left open, or in an established session, with
  exactly one open core process, which is the manager's, and a session context that is not cancelled;
  established means verified, unless verification is switched off.
\<close>

theorem conn_rests_safe:
  "let w = conn_ops sha lower redact o0 r ops; m = fst w in
     (mg_state m = StateDisconnected \<or> mg_state m = StateConnectionFailed) \<and> mg_instance m = None \<and> mg_session m = None \<and> snd w = [] \<or>
     session_live m \<and> (\<exists>i. snd w = [i] \<and> established (fst (conn_New o0)) i m)"
  using conn_ops_ok [of o0 sha lower redact r ops] by (simp add: world_ok_def Terminal_def Let_def)

text \<open>
  C9. After any operations, \<open>Connect\<close> either refuses and changes nothing, or gives the verdict of its
  attempts: success is one open core process owned by an established session, recorded as some failed
  attempts and a last successful one; failure is the state \<open>connection_failed\<close> with that error, no
  instance, no session and every started core closed again. Never are more attempts recorded
  than the preferences allow.
\<close>

theorem connect_verdict:
  "let w = conn_ops sha lower redact o0 r ops; res = Connect sha lower redact (fst (conn_New o0)) r ev ctxErr cfg pref w in
     case connect_begin sha lower cfg pref (fst w) of
       Inl err \<Rightarrow> res = (Some err, w)
     | Inr _ \<Rightarrow> connect_outcome (fst (conn_New o0)) pref res"
proof -
  let ?w = "conn_ops sha lower redact o0 r ops" and ?opts = "fst (conn_New o0)"
  let ?res = "Connect sha lower redact ?opts r ev ctxErr cfg pref ?w"
  show ?thesis
  proof (cases "connect_begin sha lower cfg pref (fst ?w)")
    case (Inl err)
    then show ?thesis by (simp add: Let_def Connect_def)
  next
    case (Inr g)
    then have "connect_begin sha lower cfg pref (fst ?w) = Inr (fst g, snd g)" by simp
    from connect_outcome_ok [OF conn_ops_ok this refl] Inr show ?thesis by (simp add: Let_def)
  qed
qed

text \<open>
  The retry that the code announces for a core that crashes while it starts ("exactly one same-backend
  retry with a fresh port") is never taken when \<open>Connect\<close> runs alone: it asks for the state
  \<open>connection_failed\<close>, and no failed attempt leaves that state. The loop is the loop without the retry.
\<close>

theorem startup_retry_dead:
  assumes "mg_generation m = gen" "mg_instance m = None"
  shows "connect_loop redact opts r ev ctxErr gen k cs lastErr (m, []) = connect_loop_once redact opts r ev ctxErr gen k cs lastErr (m, [])"
  by (rule connect_loop_no_retry [OF assms])

theorem startup_retry_dead_witness:
  "let m = (snd (conn_New \<lparr>co_Verify = \<lparr>vp_Skip = False, vp_Timeout = 0, vp_Target = [], vp_Targets = []\<rparr>, co_MonitorInterval = 0,
       co_VerifyInterval = 0, co_VerifyGrace = 0, co_VerifyFailureThreshold = 0\<rparr>))\<lparr>mg_generation := 1\<rparr>;
       b = \<lparr>bk_Name = ''own'', bk_Supports = (\<lambda>_. True), bk_Capabilities = None, bk_Availability = None\<rparr>;
       ev = \<lparr>ae_Validate = None, ae_bind = (\<lambda>_. None), ae_Start = Inr 7, ae_WaitReady = Some ''exit 1'', ae_PID = 1, ae_readyMS = 1,
             ae_now = 1, ae_verify = no_verify, ae_monitor = 0\<rparr>;
       opts = fst (conn_New \<lparr>co_Verify = \<lparr>vp_Skip = False, vp_Timeout = 0, vp_Target = [], vp_Targets = []\<rparr>, co_MonitorInterval = 0,
       co_VerifyInterval = 0, co_VerifyGrace = 0, co_VerifyFailureThreshold = 0\<rparr>)
   in map at_Backend (mg_attempts (fst (snd (connect_loop (\<lambda>s _. s) opts [] (\<lambda>_. ev) (\<lambda>_. False) 1 0 [b] None (m, []))))) = [''own'']"
  unfolding Let_def
  by (subst startup_retry_dead)
    (simp_all add: conn_New_def attempt_def attempt_start_def attempt_ready_def attempt_section_defs attempt_ports_def nextPort_def
      checkPortBindability_def Let_def)

end
