(* ===== verification/ConnRun.thy ===== *)
theory ConnRun
  imports ConnSession
begin

text \<open>
  The operations of the connection manager run by concurrent goroutines. Every goroutine is a program
  counter between two of the sections of \<open>ConnManager\<close>, which the manager's lock makes atomic; waiting,
  starting and closing processes, and probing happen between them. The system keeps the core instances
  that were started and not yet closed. What the environment answers is free in the rules.
\<close>

section \<open>Goroutines\<close>

text \<open>The position of \<open>Connect\<close>'s loop: the candidate, the ones after it, and whether this is its second attempt.\<close>

type_synonym loop_pos = "core_backend \<times> core_backend list \<times> bool"

datatype connect_pc =
    CSelect config core_preferences
  | CLoop "core_backend list" "string option"
  | APrepare loop_pos
  | AValidate loop_pos
  | ALaunch loop_pos int
  | AStart loop_pos int
  | AStarted loop_pos int nat
  | AWaitReady loop_pos int nat
  | ANotReady loop_pos nat string
  | ANotReadyClose loop_pos nat string
  | ANotReadyClear loop_pos nat string
  | AReady loop_pos int nat
  | AConnected loop_pos nat
  | AVerify loop_pos nat
  | AUnverified loop_pos nat string
  | AUnverifiedClear loop_pos nat string
  | AFinal loop_pos nat
  | AStale loop_pos nat string
  | ARecord loop_pos string string
  | AWrap loop_pos string string string
  | CFailed loop_pos string
  | CRetry loop_pos string
  | CFail string
  | AVerifiedRecord string
  | AMonitorStop
  | AMonitorJoin "nat option"
  | AMonitorInstall

datatype disconnect_pc = DBegin | DStop | DJoin "nat option" | DTake | DClose "nat option" | DFinish | DShutdown

datatype exit_watch_pc = WWait | WCheck | WCrash | WClose

datatype tick_pc = KWait | KRecheck | KProbe | KTeardown "nat option" string | KFinish "string option" string

datatype conn_thread =
    TConnect nat connect_pc
  | TDisconnect bool disconnect_pc
  | TWatch nat nat nat exit_watch_pc
  | TTick nat nat tick_pc
  | TVerify nat

record conn_sys =
  sy_m :: conn_mgr
  sy_open :: "nat list"
  sy_next :: nat
  sy_threads :: "nat \<rightharpoonup> conn_thread"

section \<open>The steps of Connect\<close>

inductive connect_step ::
  "(string \<Rightarrow> string list \<Rightarrow> string) \<Rightarrow> (string \<Rightarrow> string) \<Rightarrow> conn_opts \<Rightarrow> registry \<Rightarrow> nat \<Rightarrow>
     connect_pc \<Rightarrow> conn_mgr \<Rightarrow> nat list \<Rightarrow> nat \<Rightarrow> connect_pc option \<Rightarrow> conn_mgr \<Rightarrow> nat list \<Rightarrow> nat \<Rightarrow> bool"
  for redact lower opts r gen where
  select_none: "Select lower r cfg pref = Inl e \<Longrightarrow>
    connect_step redact lower opts r gen (CSelect cfg pref) m op nx (Some (CFail (core_err_text e))) m op nx"
| select_some: "Select lower r cfg pref = Inr sel \<Longrightarrow>
    connect_step redact lower opts r gen (CSelect cfg pref) m op nx (Some (CLoop (connect_candidates r pref sel) None))
      (connect_selected (bk_Name (se_Core sel)) (registry_Version r (bk_Name (se_Core sel))) m) op nx"
| loop_end: "connect_step redact lower opts r gen (CLoop [] e) m op nx
    (Some (CFail (case e of Some err \<Rightarrow> err | None \<Rightarrow> connect_error ''dependency_unavailable'' ''no backend attempt succeeded''))) m op nx"
| loop_next: "connect_step redact lower opts r gen (CLoop (c # cs) e) m op nx (Some (APrepare (c, cs, False))) m op nx"
| prepare_stale: "attempt_prepare gen m = None \<Longrightarrow>
    connect_step redact lower opts r gen (APrepare p) m op nx
      (Some (CFailed p (cancelled_error (''session ended before '' @ bk_Name (fst p) @ '' attempt prepared'')))) m op nx"
| prepare: "attempt_prepare gen m = Some m' \<Longrightarrow> connect_step redact lower opts r gen (APrepare p) m op nx (Some (AValidate p)) m' op nx"
| invalid: "connect_step redact lower opts r gen (AValidate p) m op nx
    (Some (AWrap p err ''invalid_input'' (bk_Name (fst p) @ '' validation failed''))) (recordAttemptAt redact gen (bk_Name (fst p)) (Some err) m) op nx"
| port_bad: "attempt_ports m = (port, http) \<Longrightarrow> checkPortBindability bind port http = Some err \<Longrightarrow>
    connect_step redact lower opts r gen (AValidate p) m op nx (Some (ARecord p err err)) m op nx"
| port_ok: "attempt_ports m = (port, http) \<Longrightarrow> checkPortBindability bind port http = None \<Longrightarrow>
    connect_step redact lower opts r gen (AValidate p) m op nx (Some (ALaunch p port)) m op nx"
| launch_stale: "attempt_launch gen m = None \<Longrightarrow>
    connect_step redact lower opts r gen (ALaunch p port) m op nx
      (Some (CFailed p (cancelled_error (''session ended before '' @ bk_Name (fst p) @ '' launch'')))) m op nx"
| launch: "attempt_launch gen m = Some m' \<Longrightarrow> connect_step redact lower opts r gen (ALaunch p port) m op nx (Some (AStart p port)) m' op nx"
| start_err: "connect_step redact lower opts r gen (AStart p port) m op nx
    (Some (AWrap p err ''dependency_unavailable'' (bk_Name (fst p) @ '' failed to start'')))
    (recordAttemptAt redact gen (bk_Name (fst p)) (Some err) m) op nx"
| start: "connect_step redact lower opts r gen (AStart p port) m op nx (Some (AStarted p port nx)) m (nx # op) (nx + 1)"
| publish_stale: "attempt_publish gen i m = None \<Longrightarrow>
    connect_step redact lower opts r gen (AStarted p port i) m op nx
      (Some (AStale p i (cancelled_error (''session ended during '' @ bk_Name (fst p) @ '' startup'')))) m op nx"
| publish: "attempt_publish gen i m = Some m' \<Longrightarrow>
    connect_step redact lower opts r gen (AStarted p port i) m op nx (Some (AWaitReady p port i)) m' op nx"
| stale_close: "connect_step redact lower opts r gen (AStale p i err) m op nx (Some (CFailed p err)) m (removeAll i op) nx"
| not_ready: "connect_step redact lower opts r gen (AWaitReady p port i) m op nx (Some (ANotReady p i err)) m op nx"
| not_ready_record: "connect_step redact lower opts r gen (ANotReady p i err) m op nx
    (Some (ANotReadyClose p i err)) (recordAttemptAt redact gen (bk_Name (fst p)) (Some err) m) op nx"
| not_ready_close: "connect_step redact lower opts r gen (ANotReadyClose p i err) m op nx (Some (ANotReadyClear p i err)) m (removeAll i op) nx"
| not_ready_clear: "connect_step redact lower opts r gen (ANotReadyClear p i err) m op nx
    (Some (AWrap p err ''dependency_unavailable'' (bk_Name (fst p) @ '' did not become ready''))) (attempt_unready gen i m) op nx"
| ready: "connect_step redact lower opts r gen (AWaitReady p port i) m op nx (Some (AReady p port i)) m op nx"
| connected_stale: "attempt_connected gen i (bk_Name (fst p)) (registry_Version r (bk_Name (fst p))) now pid readyMS port m = None \<Longrightarrow>
    connect_step redact lower opts r gen (AReady p port i) m op nx
      (Some (AStale p i (cancelled_error (''session ended while '' @ bk_Name (fst p) @ '' became ready'')))) m op nx"
| connected: "attempt_connected gen i (bk_Name (fst p)) (registry_Version r (bk_Name (fst p))) now pid readyMS port m = Some m' \<Longrightarrow>
    connect_step redact lower opts r gen (AReady p port i) m op nx
      (Some (if vp_Skip (co_Verify opts) then AFinal p i else AConnected p i)) m' op nx"
| verifying: "connect_step redact lower opts r gen (AConnected p i) m op nx (Some (AVerify p i)) (attempt_verifying m) op nx"
| verify_stale: "attempt_verified opts gen result now m = None \<Longrightarrow>
    connect_step redact lower opts r gen (AVerify p i) m op nx
      (Some (AStale p i (cancelled_error (''session ended during '' @ bk_Name (fst p) @ '' verification (result discarded)'')))) m op nx"
| verify: "attempt_verified opts gen result now m = Some m' \<Longrightarrow>
    connect_step redact lower opts r gen (AVerify p i) m op nx
      (Some (if vr_OK result then AFinal p i
             else AUnverified p i (connect_error ''dependency_unavailable''
               (bk_Name (fst p) @ '' started but Internet verification failed ('' @ verify_Describe result @ ''); route not usable''))))
      m' op nx"
| unverified_close: "connect_step redact lower opts r gen (AUnverified p i err) m op nx (Some (AUnverifiedClear p i err)) m (removeAll i op) nx"
| unverified_clear: "connect_step redact lower opts r gen (AUnverifiedClear p i err) m op nx
    (Some (ARecord p err err)) (attempt_unverified gen m) op nx"
| record_failed: "connect_step redact lower opts r gen (ARecord p err err') m op nx
    (Some (CFailed p err')) (recordAttemptAt redact gen (bk_Name (fst p)) (Some err) m) op nx"
| wrap: "connect_step redact lower opts r gen (AWrap p err kind msg) m op nx (Some (CFailed p (staleOrWrap gen err kind msg m))) m op nx"
| final_stale: "attempt_final (vp_Skip (co_Verify opts)) gen m = None \<Longrightarrow>
    connect_step redact lower opts r gen (AFinal p i) m op nx
      (Some (CFailed p (cancelled_error (''session ended before '' @ bk_Name (fst p) @ '' became verified'')))) m op nx"
| final: "attempt_final (vp_Skip (co_Verify opts)) gen m = Some m' \<Longrightarrow>
    connect_step redact lower opts r gen (AFinal p i) m op nx (Some (AVerifiedRecord (bk_Name (fst p)))) m' op nx"
| failed_again: "connect_step redact lower opts r gen (CFailed (c, cs, True) err) m op nx (Some (CLoop cs (Some err))) m op nx"
| failed_ctx: "connect_step redact lower opts r gen (CFailed (c, cs, False) err) m op nx (Some (CFail err)) m op nx"
| failed_gen: "connect_step redact lower opts r gen (CFailed (c, cs, False) err) m op nx
    (Some (if mg_generation m \<noteq> gen then CFail err else CRetry (c, cs, False) err)) m op nx"
| retry: "mg_state m = StateConnectionFailed \<and> isStartupCrash err \<Longrightarrow>
    connect_step redact lower opts r gen (CRetry (c, cs, b) err) m op nx (Some (APrepare (c, cs, True))) (m\<lparr>mg_port := 0\<rparr>) op nx"
| no_retry: "\<not> (mg_state m = StateConnectionFailed \<and> isStartupCrash err) \<Longrightarrow>
    connect_step redact lower opts r gen (CRetry (c, cs, b) err) m op nx (Some (CLoop cs (Some err))) m op nx"
| fail: "connect_step redact lower opts r gen (CFail err) m op nx None (failAt gen err m) op nx"
| record_ok: "connect_step redact lower opts r gen (AVerifiedRecord name) m op nx (Some AMonitorStop) (recordAttemptAt redact gen name None m) op nx"
| monitor_stop: "connect_step redact lower opts r gen AMonitorStop m op nx
    (Some (AMonitorJoin (fst (stopMonitor_take m)))) (snd (stopMonitor_take m)) op nx"

section \<open>The steps of the other goroutines\<close>

inductive disconnect_step :: "bool \<Rightarrow> disconnect_pc \<Rightarrow> conn_mgr \<Rightarrow> nat list \<Rightarrow> disconnect_pc option \<Rightarrow> conn_mgr \<Rightarrow> nat list \<Rightarrow> bool"
  for shut where
  d_begin: "disconnect_step shut DBegin m op (Some DStop) (disconnect_begin m) op"
| d_stop: "disconnect_step shut DStop m op (Some (DJoin (fst (stopMonitor_take m)))) (snd (stopMonitor_take m)) op"
| d_take: "disconnect_step shut DTake m op (Some (DClose (fst (disconnect_take m)))) (snd (disconnect_take m)) op"
| d_none: "disconnect_step shut (DClose None) m op (Some DFinish) m op"
| d_close: "disconnect_step shut (DClose (Some i)) m op (Some DFinish)
    (case err of None \<Rightarrow> m | Some e \<Rightarrow> disconnect_error e m) (removeAll i op)"
| d_finish: "disconnect_step shut DFinish m op (if shut then Some DShutdown else None) (disconnect_finish m) op"
| d_shutdown: "disconnect_step shut DShutdown m op None (shutdown_end m) op"

inductive watch_step :: "nat \<Rightarrow> nat \<Rightarrow> exit_watch_pc \<Rightarrow> conn_mgr \<Rightarrow> nat list \<Rightarrow> exit_watch_pc option \<Rightarrow> conn_mgr \<Rightarrow> nat list \<Rightarrow> bool"
  for gen i where
  w_cancel: "watch_step gen i WWait m op None m op"
| w_exit: "watch_step gen i WWait m op (Some WCheck) m op"
| w_check: "watch_step gen i WCheck m op (if watch_check gen m then Some WCrash else None) m op"
| w_crash: "watch_step gen i WCrash m op (Some WClose) (handleCoreCrash gen ''core process exited unexpectedly'' m) op"
| w_close: "watch_step gen i WClose m op None m (removeAll i op)"

inductive tick_step :: "conn_opts \<Rightarrow> nat \<Rightarrow> tick_pc \<Rightarrow> conn_mgr \<Rightarrow> nat list \<Rightarrow> tick_pc option \<Rightarrow> conn_mgr \<Rightarrow> nat list \<Rightarrow> bool"
  for opts gen where
  k_cancel: "tick_step opts gen KWait m op None m op"
| k_tick: "tick_step opts gen KWait m op (case tick_check gen m of None \<Rightarrow> None | Some i \<Rightarrow> Some KRecheck) m op"
| k_no_endpoint: "tick_step opts gen KRecheck m op (Some KWait) m op"
| k_idle: "recheck_begin opts gen now m = None \<Longrightarrow> tick_step opts gen KRecheck m op (Some KWait) m op"
| k_begin: "recheck_begin opts gen now m = Some m' \<Longrightarrow> tick_step opts gen KRecheck m op (Some KProbe) m' op"
| k_done: "recheck_apply opts gen result now m = RecheckDone m' \<Longrightarrow> tick_step opts gen KProbe m op (Some KWait) m' op"
| k_teardown: "recheck_apply opts gen result now m = RecheckTeardown inst msg m' \<Longrightarrow>
    tick_step opts gen KProbe m op (Some (KTeardown inst msg)) m' op"
| k_close: "tick_step opts gen (KTeardown (Some i) msg) m op (Some (KFinish err msg)) m (removeAll i op)"
| k_none: "tick_step opts gen (KTeardown None msg) m op (Some (KFinish None msg)) m op"
| k_finish: "tick_step opts gen (KFinish err msg) m op (Some KWait) (recheck_finish err msg m) op"

section \<open>The system\<close>

text \<open>A monitor is joined when both of its goroutines are gone.\<close>

fun of_monitor :: "nat \<Rightarrow> conn_thread \<Rightarrow> bool" where
  "of_monitor mon (TWatch n _ _ _) = (n = mon)"
| "of_monitor mon (TTick n _ _) = (n = mon)"
| "of_monitor mon _ = False"

definition joined :: "nat option \<Rightarrow> (nat \<rightharpoonup> conn_thread) \<Rightarrow> bool" where
  "joined mon ts \<longleftrightarrow> (\<forall>n. mon = Some n \<longrightarrow> (\<forall>x \<in> ran ts. \<not> of_monitor n x))"

fun is_operation :: "conn_thread \<Rightarrow> bool" where
  "is_operation (TConnect _ _) = True"
| "is_operation (TDisconnect _ _) = True"
| "is_operation _ = False"

text \<open>With \<open>serial\<close>, a \<open>Connect\<close> is only called while no other \<open>Connect\<close>, \<open>Disconnect\<close> or \<open>Shutdown\<close> is in
  progress; the others may be called at any time. \<open>Reconnect\<close> is a \<open>Disconnect\<close> followed by a \<open>Connect\<close>.\<close>

inductive conn_step ::
  "bool \<Rightarrow> (bytes \<Rightarrow> bytes) \<Rightarrow> (string \<Rightarrow> string) \<Rightarrow> (string \<Rightarrow> string list \<Rightarrow> string) \<Rightarrow> conn_opts \<Rightarrow> registry \<Rightarrow>
     conn_sys \<Rightarrow> conn_sys \<Rightarrow> bool"
  for serial sha lower redact opts r where
  call_connect: "sy_threads s t = None \<Longrightarrow> connect_begin sha lower cfg pref (sy_m s) = Inr (gen, m') \<Longrightarrow>
    (serial \<Longrightarrow> \<forall>x \<in> ran (sy_threads s). \<not> is_operation x) \<Longrightarrow>
    conn_step serial sha lower redact opts r s
      (s\<lparr>sy_m := m', sy_threads := (sy_threads s)(t \<mapsto> TConnect gen (CSelect (SetID sha lower (config_Normalize lower cfg)) pref))\<rparr>)"
| call_disconnect: "sy_threads s t = None \<Longrightarrow>
    conn_step serial sha lower redact opts r s (s\<lparr>sy_threads := (sy_threads s)(t \<mapsto> TDisconnect False DBegin)\<rparr>)"
| call_shutdown: "sy_threads s t = None \<Longrightarrow>
    conn_step serial sha lower redact opts r s
      (s\<lparr>sy_m := shutdown_begin (sy_m s), sy_threads := (sy_threads s)(t \<mapsto> TDisconnect True DBegin)\<rparr>)"
| call_verify: "sy_threads s t = None \<Longrightarrow> verify_begin (sy_m s) = Some (i, gen) \<Longrightarrow>
    conn_step serial sha lower redact opts r s (s\<lparr>sy_threads := (sy_threads s)(t \<mapsto> TVerify gen)\<rparr>)"
| connect: "sy_threads s t = Some (TConnect gen pc) \<Longrightarrow>
    connect_step redact lower opts r gen pc (sy_m s) (sy_open s) (sy_next s) pc' m' op' nx' \<Longrightarrow>
    conn_step serial sha lower redact opts r s
      (s\<lparr>sy_m := m', sy_open := op', sy_next := nx', sy_threads := (sy_threads s)(t := map_option (TConnect gen) pc')\<rparr>)"
| connect_join: "sy_threads s t = Some (TConnect gen (AMonitorJoin mon)) \<Longrightarrow> joined mon (sy_threads s) \<Longrightarrow>
    conn_step serial sha lower redact opts r s (s\<lparr>sy_threads := (sy_threads s)(t \<mapsto> TConnect gen AMonitorInstall)\<rparr>)"
| install: "sy_threads s t = Some (TConnect gen AMonitorInstall) \<Longrightarrow> sy_threads s k = None \<Longrightarrow> sy_threads s w = None \<Longrightarrow> k \<noteq> w \<Longrightarrow>
    startMonitor_install (sy_next s) (sy_m s) = (g, inst, m') \<Longrightarrow>
    conn_step serial sha lower redact opts r s
      (s\<lparr>sy_m := m', sy_next := sy_next s + 1,
         sy_threads := (sy_threads s)(t := None, k \<mapsto> TTick (sy_next s) g KWait, w := map_option (\<lambda>i. TWatch (sy_next s) g i WWait) inst)\<rparr>)"
| disconnect: "sy_threads s t = Some (TDisconnect shut pc) \<Longrightarrow> disconnect_step shut pc (sy_m s) (sy_open s) pc' m' op' \<Longrightarrow>
    conn_step serial sha lower redact opts r s
      (s\<lparr>sy_m := m', sy_open := op', sy_threads := (sy_threads s)(t := map_option (TDisconnect shut) pc')\<rparr>)"
| disconnect_join: "sy_threads s t = Some (TDisconnect shut (DJoin mon)) \<Longrightarrow> joined mon (sy_threads s) \<Longrightarrow>
    conn_step serial sha lower redact opts r s (s\<lparr>sy_threads := (sy_threads s)(t \<mapsto> TDisconnect shut DTake)\<rparr>)"
| watch: "sy_threads s t = Some (TWatch mon gen i pc) \<Longrightarrow> watch_step gen i pc (sy_m s) (sy_open s) pc' m' op' \<Longrightarrow>
    conn_step serial sha lower redact opts r s
      (s\<lparr>sy_m := m', sy_open := op', sy_threads := (sy_threads s)(t := map_option (TWatch mon gen i) pc')\<rparr>)"
| tick: "sy_threads s t = Some (TTick mon gen pc) \<Longrightarrow> tick_step opts gen pc (sy_m s) (sy_open s) pc' m' op' \<Longrightarrow>
    conn_step serial sha lower redact opts r s
      (s\<lparr>sy_m := m', sy_open := op', sy_threads := (sy_threads s)(t := map_option (TTick mon gen) pc')\<rparr>)"
| verified: "sy_threads s t = Some (TVerify gen) \<Longrightarrow>
    conn_step serial sha lower redact opts r s
      (s\<lparr>sy_m := verify_apply opts gen result now (sy_m s), sy_threads := (sy_threads s)(t := None)\<rparr>)"

definition conn_start :: "conn_opts \<Rightarrow> conn_sys" where
  "conn_start o0 = \<lparr>sy_m = snd (conn_New o0), sy_open = [], sy_next = 0, sy_threads = Map.empty\<rparr>"

inductive conn_run ::
  "bool \<Rightarrow> (bytes \<Rightarrow> bytes) \<Rightarrow> (string \<Rightarrow> string) \<Rightarrow> (string \<Rightarrow> string list \<Rightarrow> string) \<Rightarrow> conn_opts \<Rightarrow> registry \<Rightarrow> conn_sys \<Rightarrow> bool"
  for serial sha lower redact o0 r where
  run_start: "conn_run serial sha lower redact o0 r (conn_start o0)"
| run_step: "conn_run serial sha lower redact o0 r s \<Longrightarrow> conn_step serial sha lower redact (fst (conn_New o0)) r s s' \<Longrightarrow>
    conn_run serial sha lower redact o0 r s'"

section \<open>Who owns a core process\<close>

text \<open>The instance a goroutine is about to close.\<close>

fun pc_closes :: "connect_pc \<Rightarrow> nat option" where
  "pc_closes (AStarted _ _ i) = Some i"
| "pc_closes (AStale _ i _) = Some i"
| "pc_closes (ANotReady _ i _) = Some i"
| "pc_closes (ANotReadyClose _ i _) = Some i"
| "pc_closes (AUnverified _ i _) = Some i"
| "pc_closes _ = None"

fun closes :: "conn_thread \<Rightarrow> nat option" where
  "closes (TConnect _ pc) = pc_closes pc"
| "closes (TDisconnect _ (DClose i)) = i"
| "closes (TWatch _ _ i WClose) = Some i"
| "closes (TTick _ _ (KTeardown i _)) = i"
| "closes _ = None"

definition process_owned :: "conn_sys \<Rightarrow> nat \<Rightarrow> bool" where
  "process_owned s i \<longleftrightarrow> mg_instance (sy_m s) = Some i \<or> (\<exists>t x. sy_threads s t = Some x \<and> closes x = Some i)"

text \<open>What the manager's instance must be while \<open>Connect\<close>'s generation is current: nothing before the
  instance is published, that instance while the attempt works with it. \<open>Never\<close> marks places
  that are only reached with an outdated generation.\<close>

datatype slot = Free | Holds nat | Any | Never

fun pc_slot :: "connect_pc \<Rightarrow> slot" where
  "pc_slot (AWaitReady _ _ i) = Holds i"
| "pc_slot (ANotReady _ i _) = Holds i"
| "pc_slot (ANotReadyClose _ i _) = Holds i"
| "pc_slot (ANotReadyClear _ i _) = Holds i"
| "pc_slot (AReady _ _ i) = Holds i"
| "pc_slot (AConnected _ i) = Holds i"
| "pc_slot (AVerify _ i) = Holds i"
| "pc_slot (AUnverified _ i _) = Holds i"
| "pc_slot (AUnverifiedClear _ i _) = Holds i"
| "pc_slot (AFinal _ i) = Holds i"
| "pc_slot (AStale _ _ _) = Never"
| "pc_slot (AVerifiedRecord _) = Any"
| "pc_slot AMonitorStop = Any"
| "pc_slot (AMonitorJoin _) = Any"
| "pc_slot AMonitorInstall = Any"
| "pc_slot _ = Free"

fun slot_ok :: "slot \<Rightarrow> nat option \<Rightarrow> bool" where
  "slot_ok Free inst = (inst = None)"
| "slot_ok (Holds i) inst = (inst = Some i)"
| "slot_ok Any inst = True"
| "slot_ok Never inst = False"

text \<open>The instance an attempt has closed and the manager may still hold.\<close>

fun pc_closed :: "connect_pc \<Rightarrow> nat option" where
  "pc_closed (ANotReadyClear _ i _) = Some i"
| "pc_closed (AUnverifiedClear _ i _) = Some i"
| "pc_closed _ = None"

definition pc_ids :: "connect_pc \<Rightarrow> nat list \<Rightarrow> nat \<Rightarrow> bool" where
  "pc_ids pc op nx \<longleftrightarrow> (\<forall>i. pc_slot pc = Holds i \<or> pc_closes pc = Some i \<longrightarrow> i < nx) \<and> (\<forall>i. pc_closed pc = Some i \<longrightarrow> i \<notin> set op)"

fun decided :: "connect_pc \<Rightarrow> bool" where
  "decided (AVerifiedRecord _) = True"
| "decided AMonitorStop = True"
| "decided (AMonitorJoin _) = True"
| "decided AMonitorInstall = True"
| "decided _ = False"

fun opt_slot :: "connect_pc option \<Rightarrow> slot" where
  "opt_slot None = Any"
| "opt_slot (Some pc) = pc_slot pc"

fun opt_closes :: "connect_pc option \<Rightarrow> nat option" where
  "opt_closes None = None"
| "opt_closes (Some pc) = pc_closes pc"

lemma mgr_sections [simp]:
  "mg_generation (recordAttemptAt redact gen name e m) = mg_generation m"
  "mg_instance (recordAttemptAt redact gen name e m) = mg_instance m"
  "mg_state (recordAttemptAt redact gen name e m) = mg_state m"
  "mg_generation (connect_selected n v m) = mg_generation m" "mg_instance (connect_selected n v m) = mg_instance m"
  "mg_state (connect_selected n v m) = mg_state m"
  "mg_generation (attempt_verifying m) = mg_generation m" "mg_instance (attempt_verifying m) = mg_instance m"
  "mg_state (attempt_verifying m) = StateVerifying"
  "mg_generation (snd (stopMonitor_take m)) = mg_generation m" "mg_instance (snd (stopMonitor_take m)) = mg_instance m"
  "mg_state (snd (stopMonitor_take m)) = mg_state m"
  "mg_instance (recheck_finish e msg m) = mg_instance m" "mg_instance (verify_apply opts gen result now m) = mg_instance m"
  by (simp_all add: verify_apply_def recheck_finish_def recordAttemptAt_def connect_selected_def attempt_verifying_def stopMonitor_take_def Let_def split: option.split)

lemma endSession_simps [simp]:
  "mg_generation (endSessionLocked m) = mg_generation m" "mg_instance (endSessionLocked m) = mg_instance m"
  "mg_state (endSessionLocked m) = mg_state m"
  by (simp_all add: endSessionLocked_def cancel_session_def split: option.splits)

text \<open>What a step of \<open>Connect\<close> does to the manager: it keeps the generation, and with an outdated generation
  it can change the state to \<open>StateVerifying\<close> and nothing else of state and instance.\<close>

lemma connect_step_effect:
  assumes "connect_step redact lower opts r gen pc m op nx pc' m' op' nx'"
  shows "mg_generation m' = mg_generation m \<and>
    (mg_generation m \<noteq> gen \<and> gen > 0 \<longrightarrow> mg_instance m' = mg_instance m \<and> (mg_state m' = mg_state m \<or> mg_state m' = StateVerifying)) \<and>
    (decided pc \<longrightarrow> mg_instance m' = mg_instance m \<and> mg_state m' = mg_state m \<and> (\<forall>q. pc' = Some q \<longrightarrow> decided q))"
  using assms
  by cases (auto simp: attempt_section_defs failAt_def Let_def split: if_splits)

lemma connect_step_slot:
  assumes "connect_step redact lower opts r gen pc m op nx pc' m' op' nx'"
    and "mg_generation m = gen \<longrightarrow> slot_ok (pc_slot pc) (mg_instance m)"
  shows "mg_generation m = gen \<longrightarrow> slot_ok (opt_slot pc') (mg_instance m')"
  using assms
  by cases (auto simp: attempt_section_defs Let_def split: if_splits)

lemma connect_step_state:
  assumes "connect_step redact lower opts r gen pc m op nx pc' m' op' nx'" "\<not> Active (mg_state m) \<longrightarrow> mg_instance m = None"
    "mg_generation m = gen \<longrightarrow> slot_ok (pc_slot pc) (mg_instance m)" "gen > 0"
  shows "\<not> Active (mg_state m') \<longrightarrow> mg_instance m' = None"
  using assms
  by cases (auto simp: attempt_section_defs failAt_def Let_def Active_def split: if_splits)

lemma connect_step_owned:
  assumes "connect_step redact lower opts r gen pc m op nx pc' m' op' nx'" "i \<in> set op'"
    "mg_generation m = gen \<longrightarrow> slot_ok (pc_slot pc) (mg_instance m)" "gen > 0" "pc_ids pc op nx"
    "i \<in> set op \<longrightarrow> mg_instance m = Some i \<or> pc_closes pc = Some i \<or> P"
  shows "mg_instance m' = Some i \<or> opt_closes pc' = Some i \<or> P"
  using assms
  by cases (auto simp: attempt_section_defs failAt_def Let_def pc_ids_def split: if_splits)

lemma connect_step_ids:
  assumes "connect_step redact lower opts r gen pc m op nx pc' m' op' nx'" "pc_ids pc op nx" "\<forall>i \<in> set op. i < nx"
  shows "(\<forall>q. pc' = Some q \<longrightarrow> pc_ids q op' nx') \<and> (\<forall>i \<in> set op'. i < nx') \<and> nx \<le> nx'"
  using assms
  by cases (auto simp: pc_ids_def)

section \<open>The invariant of the system\<close>

fun after_take :: "disconnect_pc \<Rightarrow> bool" where
  "after_take (DClose _) = True"
| "after_take DFinish = True"
| "after_take _ = False"

fun thread_ok :: "conn_mgr \<Rightarrow> nat list \<Rightarrow> nat \<Rightarrow> conn_thread \<Rightarrow> bool" where
  "thread_ok m op nx (TConnect gen pc) =
     (0 < gen \<and> gen \<le> mg_generation m \<and> (mg_generation m = gen \<longrightarrow> slot_ok (pc_slot pc) (mg_instance m)) \<and> pc_ids pc op nx)"
| "thread_ok m op nx (TDisconnect _ pc) = (after_take pc \<longrightarrow> mg_instance m = None)"
| "thread_ok m op nx (TWatch _ gen i _) =
     (gen \<le> mg_generation m \<and> (gen = mg_generation m \<and> ConnectedLike (mg_state m) \<longrightarrow> mg_instance m = Some i))"
| "thread_ok m op nx (TTick _ gen _) = (gen \<le> mg_generation m)"
| "thread_ok m op nx (TVerify _) = True"

text \<open>How a \<open>Connect\<close> relates to the other goroutines when calls are serial.\<close>

fun pair_ok :: "nat \<Rightarrow> conn_thread \<Rightarrow> conn_thread \<Rightarrow> bool" where
  "pair_ok g (TConnect gc pc) (TConnect _ _) = False"
| "pair_ok g (TConnect gc pc) (TDisconnect _ q) = (q = DBegin \<or> gc < g)"
| "pair_ok g (TConnect gc pc) (TWatch _ gen _ _) = (decided pc \<or> gen < gc)"
| "pair_ok g (TConnect gc pc) (TTick _ gen _) = (decided pc \<or> gen < gc)"
| "pair_ok g _ _ = True"

definition sys_ok :: "conn_mgr \<Rightarrow> nat list \<Rightarrow> nat \<Rightarrow> (nat \<rightharpoonup> conn_thread) \<Rightarrow> bool" where
  "sys_ok m op nx ts \<longleftrightarrow>
     (\<forall>t x. ts t = Some x \<longrightarrow> thread_ok m op nx x) \<and>
     (\<forall>t u x y. t \<noteq> u \<longrightarrow> ts t = Some x \<longrightarrow> ts u = Some y \<longrightarrow> pair_ok (mg_generation m) x y) \<and>
     (\<not> Active (mg_state m) \<longrightarrow> mg_instance m = None) \<and>
     (\<forall>i \<in> set op. i < nx \<and> (mg_instance m = Some i \<or> (\<exists>t x. ts t = Some x \<and> closes x = Some i)))"

lemma pair_ok_mono: "pair_ok g x y \<Longrightarrow> g \<le> g' \<Longrightarrow> pair_ok g' x y"
  by (cases "(g, x, y)" rule: pair_ok.cases) auto

lemma sys_okD:
  assumes "sys_ok m op nx ts"
  shows "ts t = Some x \<Longrightarrow> thread_ok m op nx x" "t \<noteq> u \<Longrightarrow> ts t = Some x \<Longrightarrow> ts u = Some y \<Longrightarrow> pair_ok (mg_generation m) x y"
    "\<not> Active (mg_state m) \<Longrightarrow> mg_instance m = None" "i \<in> set op \<Longrightarrow> i < nx"
    "i \<in> set op \<Longrightarrow> mg_instance m = Some i \<or> (\<exists>t x. ts t = Some x \<and> closes x = Some i)"
  using assms unfolding sys_ok_def by simp_all

lemma sys_ok_owner:
  assumes "sys_ok m op nx ts" "i \<in> set op" "ts t = Some x"
  shows "mg_instance m = Some i \<or> closes x = Some i \<or> (\<exists>u z. u \<noteq> t \<and> ts u = Some z \<and> closes z = Some i)"
  using sys_okD(5) [OF assms(1,2)] assms(3) by (metis option.inject)

text \<open>One goroutine moves, appears or ends.\<close>

lemma sys_ok_update:
  assumes inv: "sys_ok m op nx ts" and g: "mg_generation m \<le> mg_generation m'"
    and others: "\<And>u z. u \<noteq> t \<Longrightarrow> ts u = Some z \<Longrightarrow> thread_ok m' op' nx' z"
    and self: "\<And>y. x' = Some y \<Longrightarrow> thread_ok m' op' nx' y"
    and pairs: "\<And>y u z. x' = Some y \<Longrightarrow> u \<noteq> t \<Longrightarrow> ts u = Some z \<Longrightarrow> pair_ok (mg_generation m') y z \<and> pair_ok (mg_generation m') z y"
    and idle: "\<not> Active (mg_state m') \<Longrightarrow> mg_instance m' = None"
    and own: "\<And>i. i \<in> set op' \<Longrightarrow> i < nx' \<and>
      (mg_instance m' = Some i \<or> (\<exists>y. x' = Some y \<and> closes y = Some i) \<or> (\<exists>u z. u \<noteq> t \<and> ts u = Some z \<and> closes z = Some i))"
  shows "sys_ok m' op' nx' (ts(t := x'))"
  unfolding sys_ok_def
proof (intro conjI allI impI ballI)
  fix u x assume "(ts(t := x')) u = Some x"
  then show "thread_ok m' op' nx' x" using others self by (auto split: if_splits)
next
  fix u v x y assume "u \<noteq> v" "(ts(t := x')) u = Some x" "(ts(t := x')) v = Some y"
  moreover have "pair_ok (mg_generation m') a b" if "u' \<noteq> v'" "ts u' = Some a" "ts v' = Some b" for u' v' a b
    by (rule pair_ok_mono [OF sys_okD(2) [OF inv that] g])
  ultimately show "pair_ok (mg_generation m') x y" using pairs by (metis fun_upd_apply)
next
  assume "\<not> Active (mg_state m')" then show "mg_instance m' = None" by (rule idle)
next
  fix i assume "i \<in> set op'" from own [OF this] show "i < nx'" by simp
next
  fix i assume "i \<in> set op'"
  from own [OF this] show "mg_instance m' = Some i \<or> (\<exists>ta x. (ts(t := x')) ta = Some x \<and> closes x = Some i)"
    by (metis fun_upd_apply)
qed

text \<open>Steps of the goroutines other than \<open>Connect\<close> end a session or keep it.\<close>

definition quiet :: "conn_mgr \<Rightarrow> conn_mgr \<Rightarrow> bool" where
  "quiet m m' \<longleftrightarrow> mg_generation m \<le> mg_generation m' \<and> (mg_instance m' = mg_instance m \<or> mg_instance m' = None) \<and>
     (mg_generation m' = mg_generation m \<longrightarrow> ConnectedLike (mg_state m') \<longrightarrow> ConnectedLike (mg_state m) \<and> mg_instance m' = mg_instance m)"

lemma quiet_refl: "quiet m m"
  by (simp add: quiet_def)

lemma pc_ids_mono: "pc_ids pc op nx \<Longrightarrow> set op' \<subseteq> set op \<Longrightarrow> nx \<le> nx' \<Longrightarrow> pc_ids pc op' nx'"
  unfolding pc_ids_def by (meson less_le_trans subsetD)

lemma thread_ok_quiet:
  assumes "thread_ok m op nx z" "quiet m m'" "set op' \<subseteq> set op" "nx \<le> nx'"
    and "\<And>gc pc. z = TConnect gc pc \<Longrightarrow> mg_generation m' = gc \<Longrightarrow> mg_instance m' = mg_instance m"
  shows "thread_ok m' op' nx' z"
  using assms by (cases z) (auto simp: quiet_def intro: pc_ids_mono)

lemma quiet_sections:
  "quiet m (disconnect_begin m)" "quiet m (snd (stopMonitor_take m))" "quiet m (snd (disconnect_take m))" "quiet m (disconnect_error e m)"
  "quiet m (disconnect_finish m)" "quiet m (shutdown_begin m)" "quiet m (shutdown_end m)" "quiet m (handleCoreCrash gen msg m)"
  "quiet m (verify_apply opts gen result now m)" "quiet m (recheck_finish err msg m)"
  by (auto simp: quiet_def disconnect_begin_def stopMonitor_take_def disconnect_take_def disconnect_error_def disconnect_finish_def
      shutdown_begin_def shutdown_end_def handleCoreCrash_def verify_apply_def recheck_finish_def ConnectedLike_def Let_def split: option.splits)

lemma quiet_recheck:
  "recheck_begin opts gen now m = Some m' \<Longrightarrow> quiet m m' \<and> mg_generation m' = mg_generation m \<and> mg_instance m' = mg_instance m \<and> mg_state m' = mg_state m"
  "recheck_apply opts gen result now m = RecheckDone m' \<Longrightarrow>
     quiet m m' \<and> mg_generation m' = mg_generation m \<and> mg_instance m' = mg_instance m \<and> mg_state m' = mg_state m"
  "recheck_apply opts gen result now m = RecheckTeardown inst msg m' \<Longrightarrow>
     quiet m m' \<and> inst = mg_instance m \<and> mg_instance m' = None \<and> mg_generation m' = mg_generation m + 1"
  by (auto simp: recheck_begin_def recheck_apply_def quiet_def Let_def split: if_splits)

lemma idle_kept:
  assumes "\<not> Active (mg_state m) \<longrightarrow> mg_instance m = None"
  shows "\<not> Active (mg_state (disconnect_begin m)) \<longrightarrow> mg_instance (disconnect_begin m) = None"
    "\<not> Active (mg_state (snd (stopMonitor_take m))) \<longrightarrow> mg_instance (snd (stopMonitor_take m)) = None"
    "\<not> Active (mg_state (disconnect_error e m)) \<longrightarrow> mg_instance (disconnect_error e m) = None"
    "\<not> Active (mg_state (shutdown_begin m)) \<longrightarrow> mg_instance (shutdown_begin m) = None"
    "\<not> Active (mg_state (shutdown_end m)) \<longrightarrow> mg_instance (shutdown_end m) = None"
    "\<not> Active (mg_state (handleCoreCrash gen msg m)) \<longrightarrow> mg_instance (handleCoreCrash gen msg m) = None"
    "\<not> Active (mg_state (verify_apply opts gen result now m)) \<longrightarrow> mg_instance (verify_apply opts gen result now m) = None"
    "\<not> Active (mg_state (recheck_finish err msg m)) \<longrightarrow> mg_instance (recheck_finish err msg m) = None"
  using assms
  by (auto simp: disconnect_begin_def stopMonitor_take_def disconnect_error_def shutdown_begin_def shutdown_end_def handleCoreCrash_def
      verify_apply_def recheck_finish_def Active_def Let_def split: option.splits)

text \<open>The moves of a goroutine other than \<open>Connect\<close>, in terms of what they do to the manager and the processes.\<close>

lemma sys_ok_quiet:
  assumes inv: "sys_ok m op nx ts" and x: "ts t = Some x" and nc: "\<And>gc pc. x \<noteq> TConnect gc pc" and q: "quiet m m'" and op: "set op' \<subseteq> set op"
    and inst: "mg_instance m' \<noteq> mg_instance m \<Longrightarrow> mg_generation m < mg_generation m' \<or> (\<exists>shut pc. x = TDisconnect shut pc \<and> pc \<noteq> DBegin)"
    and self: "\<And>y. x' = Some y \<Longrightarrow> thread_ok m' op' nx y \<and> (\<forall>gc pc. y \<noteq> TConnect gc pc)"
    and pairs: "\<And>y u z. x' = Some y \<Longrightarrow> u \<noteq> t \<Longrightarrow> ts u = Some z \<Longrightarrow> pair_ok (mg_generation m') z y"
    and idle: "\<not> Active (mg_state m') \<Longrightarrow> mg_instance m' = None"
    and own: "\<And>i. i \<in> set op' \<Longrightarrow> mg_instance m = Some i \<or> closes x = Some i \<Longrightarrow> mg_instance m' = Some i \<or> (\<exists>y. x' = Some y \<and> closes y = Some i)"
  shows "sys_ok m' op' nx (ts(t := x'))"
proof (rule sys_ok_update [OF inv])
  show "mg_generation m \<le> mg_generation m'" using q by (simp add: quiet_def)
next
  fix u z assume uz: "u \<noteq> t" "ts u = Some z"
  show "thread_ok m' op' nx z"
  proof (rule thread_ok_quiet [OF sys_okD(1) [OF inv uz(2)] q op order_refl])
    fix gc pc assume z: "z = TConnect gc pc" "mg_generation m' = gc"
    have "gc \<le> mg_generation m" using sys_okD(1) [OF inv uz(2)] z by simp
    moreover have "pair_ok (mg_generation m) z x" by (rule sys_okD(2) [OF inv uz(1) uz(2) x])
    ultimately have "\<not> (mg_generation m < mg_generation m' \<or> (\<exists>shut pc. x = TDisconnect shut pc \<and> pc \<noteq> DBegin))" using z q by (auto simp: quiet_def)
    with inst show "mg_instance m' = mg_instance m" by blast
  qed
next
  fix y u z assume "x' = Some y" "u \<noteq> t" "ts u = Some z"
  then show "pair_ok (mg_generation m') y z \<and> pair_ok (mg_generation m') z y" using pairs self by (cases y) auto
next
  fix i assume i: "i \<in> set op'"
  then have "i \<in> set op" using op by auto
  with sys_ok_owner [OF inv this x] sys_okD(4) [OF inv this] own [OF i]
  show "i < nx \<and> (mg_instance m' = Some i \<or> (\<exists>y. x' = Some y \<and> closes y = Some i) \<or> (\<exists>u z. u \<noteq> t \<and> ts u = Some z \<and> closes z = Some i))" by blast
qed (use self idle in auto)

lemma disconnect_sys_ok:
  assumes inv: "sys_ok m op nx ts" and x: "ts t = Some (TDisconnect shut pc)" and st: "disconnect_step shut pc m op pc' m' op'"
  shows "sys_ok m' op' nx (ts(t := map_option (TDisconnect shut) pc'))"
proof -
  have t: "after_take pc \<longrightarrow> mg_instance m = None" using sys_okD(1) [OF inv x] by simp
  have p: "pc = DBegin \<or> gc < mg_generation m" if "u \<noteq> t" "ts u = Some (TConnect gc q)" for u gc q
    using sys_okD(2) [OF inv that x] by simp
  have le: "gc \<le> mg_generation m" if "ts u = Some (TConnect gc q)" for u gc q using sys_okD(1) [OF inv that] by simp
  have q: "quiet m m'" using st by cases (auto intro: quiet_sections quiet_refl split: option.split)
  have g: "mg_generation m' = (if pc = DBegin then mg_generation m + 1 else mg_generation m)"
    using st by cases (auto simp: disconnect_begin_def disconnect_take_def disconnect_error_def disconnect_finish_def shutdown_end_def split: option.split)
  show ?thesis
  proof (rule sys_ok_quiet [OF inv x _ q])
    show "set op' \<subseteq> set op" using st by cases auto
    show "mg_generation m < mg_generation m' \<or> (\<exists>sh pca. TDisconnect shut pc = TDisconnect sh pca \<and> pca \<noteq> DBegin)" using g by auto
    show "thread_ok m' op' nx y \<and> (\<forall>gc pc. y \<noteq> TConnect gc pc)" if "map_option (TDisconnect shut) pc' = Some y" for y
      using st t that by cases (auto simp: disconnect_take_def disconnect_error_def split: option.splits if_splits)
    show "pair_ok (mg_generation m') z y" if "map_option (TDisconnect shut) pc' = Some y" "u \<noteq> t" "ts u = Some z" for y u z
      using that p [of u] le [of u] g by (cases z) (fastforce split: if_splits)+
    show "mg_instance m' = None" if "\<not> Active (mg_state m')"
      using st t idle_kept [of m] sys_okD(3) [OF inv] that by cases (auto simp: disconnect_take_def disconnect_finish_def split: option.splits)
    show "mg_instance m' = Some i \<or> (\<exists>y. map_option (TDisconnect shut) pc' = Some y \<and> closes y = Some i)"
      if "i \<in> set op'" "mg_instance m = Some i \<or> closes (TDisconnect shut pc) = Some i" for i
      using st t that by cases (auto simp: disconnect_begin_def disconnect_take_def shutdown_end_def)
  qed simp
qed

lemma watch_sys_ok:
  assumes inv: "sys_ok m op nx ts" and x: "ts t = Some (TWatch mon gen i pc)" and st: "watch_step gen i pc m op pc' m' op'"
  shows "sys_ok m' op' nx (ts(t := map_option (TWatch mon gen i) pc'))"
proof -
  have t: "gen \<le> mg_generation m" "gen = mg_generation m \<and> ConnectedLike (mg_state m) \<longrightarrow> mg_instance m = Some i"
    using sys_okD(1) [OF inv x] by auto
  have q: "quiet m m'" using st by cases (auto intro: quiet_sections quiet_refl)
  show ?thesis
  proof (rule sys_ok_quiet [OF inv x _ q])
    show "set op' \<subseteq> set op" using st by cases auto
    show "mg_generation m < mg_generation m' \<or> (\<exists>sh pca. TWatch mon gen i pc = TDisconnect sh pca \<and> pca \<noteq> DBegin)"
      if "mg_instance m' \<noteq> mg_instance m" using st that by cases (auto simp: handleCoreCrash_def split: if_splits)
    show "thread_ok m' op' nx y \<and> (\<forall>gc pc. y \<noteq> TConnect gc pc)" if "map_option (TWatch mon gen i) pc' = Some y" for y
      using that t q by (auto simp: quiet_def)
    show "pair_ok (mg_generation m') z y" if "map_option (TWatch mon gen i) pc' = Some y" "u \<noteq> t" "ts u = Some z" for y u z
      using that sys_okD(2) [OF inv that(2,3) x] by (cases z) auto
    show "mg_instance m' = None" if "\<not> Active (mg_state m')"
      using st idle_kept [of m] sys_okD(3) [OF inv] that by cases auto
    show "mg_instance m' = Some j \<or> (\<exists>y. map_option (TWatch mon gen i) pc' = Some y \<and> closes y = Some j)"
      if "j \<in> set op'" "mg_instance m = Some j \<or> closes (TWatch mon gen i pc) = Some j" for j
      using st t that by cases (auto simp: handleCoreCrash_def split: if_splits)
  qed simp
qed

lemma tick_sys_ok:
  assumes inv: "sys_ok m op nx ts" and x: "ts t = Some (TTick mon gen pc)" and st: "tick_step opts gen pc m op pc' m' op'"
  shows "sys_ok m' op' nx (ts(t := map_option (TTick mon gen) pc'))"
proof -
  have t: "gen \<le> mg_generation m" using sys_okD(1) [OF inv x] by auto
  have q: "quiet m m'" using st by cases (auto intro: quiet_sections quiet_refl dest: quiet_recheck)
  show ?thesis
  proof (rule sys_ok_quiet [OF inv x _ q])
    show "set op' \<subseteq> set op" using st by cases auto
    show "mg_generation m < mg_generation m' \<or> (\<exists>sh pca. TTick mon gen pc = TDisconnect sh pca \<and> pca \<noteq> DBegin)"
      if "mg_instance m' \<noteq> mg_instance m"
      using st that by cases (auto dest: quiet_recheck)
    show "thread_ok m' op' nx y \<and> (\<forall>gc pc. y \<noteq> TConnect gc pc)" if "map_option (TTick mon gen) pc' = Some y" for y
      using that t q by (auto simp: quiet_def)
    show "pair_ok (mg_generation m') z y" if "map_option (TTick mon gen) pc' = Some y" "u \<noteq> t" "ts u = Some z" for y u z
      using that sys_okD(2) [OF inv that(2,3) x] by (cases z) auto
    show "mg_instance m' = None" if "\<not> Active (mg_state m')"
      using st idle_kept [of m] sys_okD(3) [OF inv] that by cases (auto dest!: quiet_recheck)
    show "mg_instance m' = Some j \<or> (\<exists>y. map_option (TTick mon gen) pc' = Some y \<and> closes y = Some j)"
      if "j \<in> set op'" "mg_instance m = Some j \<or> closes (TTick mon gen pc) = Some j" for j
      using st t that by cases (auto dest!: quiet_recheck)
  qed simp
qed

lemma connect_sys_ok:
  assumes inv: "sys_ok m op nx ts" and x: "ts t = Some (TConnect gen pc)"
    and st: "connect_step redact lower opts r gen pc m op nx pc' m' op' nx'"
  shows "sys_ok m' op' nx' (ts(t := map_option (TConnect gen) pc'))"
proof -
  have t: "0 < gen" "gen \<le> mg_generation m" "mg_generation m = gen \<longrightarrow> slot_ok (pc_slot pc) (mg_instance m)" "pc_ids pc op nx"
    using sys_okD(1) [OF inv x] by auto
  have p: "pair_ok (mg_generation m) (TConnect gen pc) z" if "u \<noteq> t" "ts u = Some z" for u z
    using sys_okD(2) [OF inv that(1) [symmetric] x that(2)] .
  have op: "\<forall>i \<in> set op. i < nx" using sys_okD(4) [OF inv] by blast
  note eff = connect_step_effect [OF st]
  note ids = connect_step_ids [OF st t(4) op]
  show ?thesis
  proof (rule sys_ok_update [OF inv])
    show "mg_generation m \<le> mg_generation m'" using eff by simp
  next
    fix u z assume uz: "u \<noteq> t" "ts u = Some z"
    show "thread_ok m' op' nx' z" using p [OF uz] sys_okD(1) [OF inv uz(2)] eff t by (cases z) auto
  next
    fix y assume "map_option (TConnect gen) pc' = Some y"
    then obtain q where q: "pc' = Some q" "y = TConnect gen q" by auto
    then show "thread_ok m' op' nx' y" using t eff ids connect_step_slot [OF st t(3)] by auto
  next
    fix y u z assume y: "map_option (TConnect gen) pc' = Some y" and uz: "u \<noteq> t" "ts u = Some z"
    then obtain q where q: "pc' = Some q" "y = TConnect gen q" by auto
    show "pair_ok (mg_generation m') y z \<and> pair_ok (mg_generation m') z y" using p [OF uz] q eff by (cases z) auto
  next
    assume "\<not> Active (mg_state m')"
    with connect_step_state [OF st _ t(3,1)] sys_okD(3) [OF inv] show "mg_instance m' = None" by blast
  next
    fix i assume i: "i \<in> set op'"
    let ?P = "\<exists>u z. u \<noteq> t \<and> ts u = Some z \<and> closes z = Some i"
    have "i \<in> set op \<longrightarrow> mg_instance m = Some i \<or> pc_closes pc = Some i \<or> ?P" using sys_ok_owner [OF inv _ x] by auto
    from connect_step_owned [OF st i t(3,1,4) this]
    have "mg_instance m' = Some i \<or> (\<exists>y. map_option (TConnect gen) pc' = Some y \<and> closes y = Some i) \<or> ?P" by (cases pc') auto
    with ids i show "i < nx' \<and> (mg_instance m' = Some i \<or> (\<exists>y. map_option (TConnect gen) pc' = Some y \<and> closes y = Some i) \<or> ?P)" by blast
  qed
qed

lemma call_sys_ok:
  assumes inv: "sys_ok m op nx ts" and t: "ts t = None" and y: "y = TDisconnect shut DBegin \<or> y = TVerify gen"
    and m: "m' = m \<or> m' = shutdown_begin m"
  shows "sys_ok m' op nx (ts(t \<mapsto> y))"
proof (rule sys_ok_update [OF inv])
  have q: "quiet m m'" and i: "mg_instance m' = mg_instance m" and g: "mg_generation m' = mg_generation m" and s: "mg_state m' = mg_state m"
    using m quiet_sections(6) quiet_refl by (auto simp: shutdown_begin_def)
  show "mg_generation m \<le> mg_generation m'" by (simp add: g)
  show "thread_ok m' op nx z" if "u \<noteq> t" "ts u = Some z" for u z
    by (rule thread_ok_quiet [OF sys_okD(1) [OF inv that(2)] q]) (simp_all add: i)
  show "\<not> Active (mg_state m') \<Longrightarrow> mg_instance m' = None" using sys_okD(3) [OF inv] by (simp add: i s)
  show "thread_ok m' op nx y'" if "Some y = Some y'" for y' using that y by auto
  show "pair_ok (mg_generation m') y' z \<and> pair_ok (mg_generation m') z y'" if "Some y = Some y'" "u \<noteq> t" "ts u = Some z" for y' u z
    using that y by (cases z) auto
  fix j assume "j \<in> set op"
  from sys_okD(4,5) [OF inv this] t
  show "j < nx \<and> (mg_instance m' = Some j \<or> (\<exists>y'. Some y = Some y' \<and> closes y' = Some j) \<or> (\<exists>u z. u \<noteq> t \<and> ts u = Some z \<and> closes z = Some j))"
    by (metis i option.distinct(1))
qed

lemma verify_sys_ok:
  assumes inv: "sys_ok m op nx ts" and x: "ts t = Some (TVerify gen)"
  shows "sys_ok (verify_apply opts gen result now m) op nx (ts(t := None))"
proof (rule sys_ok_quiet [OF inv x _ quiet_sections(9)])
  show "mg_instance (verify_apply opts gen result now m) = None" if "\<not> Active (mg_state (verify_apply opts gen result now m))"
    using idle_kept(7) [of m] sys_okD(3) [OF inv] that by blast
qed auto

lemma connect_call_sys_ok:
  assumes inv: "sys_ok m op nx ts" and t: "ts t = None" and b: "connect_begin sha lower cfg pref m = Inr (gen, m')"
    and ser: "\<forall>x \<in> ran ts. \<not> is_operation x"
  shows "sys_ok m' op nx (ts(t \<mapsto> TConnect gen (CSelect cfg' pref')))"
proof (rule sys_ok_update [OF inv])
  have b': "\<not> Active (mg_state m)" "mg_generation m' = gen" "gen = mg_generation m + 1" "mg_instance m' = mg_instance m" "Active (mg_state m')"
    using b by (auto simp: connect_begin_def Let_def session_defs Active_def split: if_splits option.splits)
  have i: "mg_instance m = None" by (rule sys_okD(3) [OF inv b'(1)])
  have noop: "\<not> is_operation z" if "ts u = Some z" for u z using ser that by (auto simp: ran_def)
  show "mg_generation m \<le> mg_generation m'" using b' by simp
  show "thread_ok m' op nx z" if "u \<noteq> t" "ts u = Some z" for u z
    using noop [OF that(2)] sys_okD(1) [OF inv that(2)] b' by (cases z) auto
  show "thread_ok m' op nx y" if "Some (TConnect gen (CSelect cfg' pref')) = Some y" for y using that b' i by (auto simp: pc_ids_def)
  show "pair_ok (mg_generation m') y z \<and> pair_ok (mg_generation m') z y"
    if "Some (TConnect gen (CSelect cfg' pref')) = Some y" "u \<noteq> t" "ts u = Some z" for y u z
    using that noop [OF that(3)] sys_okD(1) [OF inv that(3)] b' by (cases z) auto
  show "mg_instance m' = None" if "\<not> Active (mg_state m')" using that b' by simp
  fix j assume "j \<in> set op"
  from sys_okD(4,5) [OF inv this] t i
  show "j < nx \<and> (mg_instance m' = Some j \<or> (\<exists>y. Some (TConnect gen (CSelect cfg' pref')) = Some y \<and> closes y = Some j) \<or>
      (\<exists>u z. u \<noteq> t \<and> ts u = Some z \<and> closes z = Some j))"
    by (metis option.distinct(1))
qed

text \<open>A new monitor goroutine, while no \<open>Connect\<close> is left.\<close>

lemma monitor_sys_ok:
  assumes inv: "sys_ok m op nx ts" and t: "ts t = None" and y: "thread_ok m op nx y" "\<not> is_operation y"
    and nc: "\<And>u gc pc. ts u \<noteq> Some (TConnect gc pc)"
  shows "sys_ok m op nx (ts(t \<mapsto> y))"
proof (rule sys_ok_update [OF inv])
  show "pair_ok (mg_generation m) y' z \<and> pair_ok (mg_generation m) z y'" if "Some y = Some y'" "u \<noteq> t" "ts u = Some z" for y' u z
    using that nc y(2) by (cases z; cases y') auto
  fix j assume "j \<in> set op"
  from sys_okD(4,5) [OF inv this] t
  show "j < nx \<and> (mg_instance m = Some j \<or> (\<exists>y'. Some y = Some y' \<and> closes y' = Some j) \<or> (\<exists>u z. u \<noteq> t \<and> ts u = Some z \<and> closes z = Some j))"
    by (metis option.distinct(1))
qed (use y sys_okD [OF inv] in auto)

lemma install_sys_ok:
  assumes inv: "sys_ok m op nx ts" and x: "ts t = Some (TConnect gen AMonitorInstall)" and k: "ts k = None" "ts w = None" "k \<noteq> w"
    and inst: "startMonitor_install n m = (g, inst, m')"
  shows "sys_ok m' op (nx + 1) (ts(t := None, k \<mapsto> TTick n g KWait, w := map_option (\<lambda>i. TWatch n g i WWait) inst))"
proof -
  have m': "mg_generation m' = mg_generation m" "mg_instance m' = mg_instance m" "mg_state m' = mg_state m" "g = mg_generation m" "inst = mg_instance m"
    using inst by (auto simp: startMonitor_install_def)
  have q: "quiet m m'" using m' by (simp add: quiet_def)
  have one: "sys_ok m' op (nx + 1) (ts(t := None))"
  proof (rule sys_ok_update [OF inv])
    show "thread_ok m' op (nx + 1) z" if "u \<noteq> t" "ts u = Some z" for u z
      by (rule thread_ok_quiet [OF sys_okD(1) [OF inv that(2)] q]) (simp_all add: m')
    fix j assume "j \<in> set op"
    with sys_ok_owner [OF inv this x] sys_okD(4) [OF inv this]
    show "j < nx + 1 \<and> (mg_instance m' = Some j \<or> (\<exists>y. None = Some y \<and> closes y = Some j) \<or> (\<exists>u z. u \<noteq> t \<and> ts u = Some z \<and> closes z = Some j))"
      using m'(2) by auto
  qed (use sys_okD(3) [OF inv] m' in auto)
  have nc: "(ts(t := None)) u \<noteq> Some (TConnect gc pc)" for u gc pc
    using sys_okD(2) [OF inv _ x, of u] by auto
  have kt: "k \<noteq> t" "w \<noteq> t" using k x by auto
  have two: "sys_ok m' op (nx + 1) (ts(t := None, k \<mapsto> TTick n g KWait))"
    by (rule monitor_sys_ok [OF one]) (use k kt nc m' in auto)
  show ?thesis
  proof (cases inst)
    case None
    then have "ts(t := None, k \<mapsto> TTick n g KWait, w := map_option (\<lambda>i. TWatch n g i WWait) inst) = ts(t := None, k \<mapsto> TTick n g KWait)"
      using k kt by auto
    with two show ?thesis by simp
  next
    case (Some i)
    have "sys_ok m' op (nx + 1) (ts(t := None, k \<mapsto> TTick n g KWait, w \<mapsto> TWatch n g i WWait))"
      by (rule monitor_sys_ok [OF two]) (use k kt nc m' Some in \<open>auto split: if_splits\<close>)
    with Some show ?thesis by simp
  qed
qed

lemma join_sys_ok:
  assumes inv: "sys_ok m op nx ts" and x: "ts t = Some x"
    and y: "x = TConnect gen (AMonitorJoin mon) \<and> y = TConnect gen AMonitorInstall \<or> x = TDisconnect shut (DJoin mon) \<and> y = TDisconnect shut DTake"
  shows "sys_ok m op nx (ts(t \<mapsto> y))"
proof (rule sys_ok_update [OF inv])
  show "thread_ok m op nx y'" if "Some y = Some y'" for y' using that y sys_okD(1) [OF inv x] by (auto simp: pc_ids_def)
  show "pair_ok (mg_generation m) y' z \<and> pair_ok (mg_generation m) z y'" if "Some y = Some y'" "u \<noteq> t" "ts u = Some z" for y' u z
    using that y sys_okD(2) [OF inv that(2,3) x] sys_okD(2) [OF inv that(2) [symmetric] x that(3)] by (cases z) auto
  fix j assume "j \<in> set op"
  with sys_ok_owner [OF inv this x] sys_okD(4) [OF inv this] y
  show "j < nx \<and> (mg_instance m = Some j \<or> (\<exists>y'. Some y = Some y' \<and> closes y' = Some j) \<or> (\<exists>u z. u \<noteq> t \<and> ts u = Some z \<and> closes z = Some j))"
    by auto
qed (use sys_okD [OF inv] in auto)

lemma conn_step_sys_ok:
  assumes "conn_step True sha lower redact opts r s s'" "sys_ok (sy_m s) (sy_open s) (sy_next s) (sy_threads s)"
  shows "sys_ok (sy_m s') (sy_open s') (sy_next s') (sy_threads s')"
  using assms
proof cases
  case (call_connect t cfg pref gen m')
  then show ?thesis using connect_call_sys_ok [OF assms(2)] by simp
next
  case (call_disconnect t)
  then show ?thesis using call_sys_ok [OF assms(2), of t "TDisconnect False DBegin" False 0 "sy_m s"] by simp
next
  case (call_shutdown t)
  then show ?thesis using call_sys_ok [OF assms(2), of t "TDisconnect True DBegin" True 0 "shutdown_begin (sy_m s)"] by simp
next
  case (call_verify t i gen)
  then show ?thesis using call_sys_ok [OF assms(2), of t "TVerify gen" False gen "sy_m s"] by simp
next
  case (connect t gen pc pc' m' op' nx')
  then show ?thesis using connect_sys_ok [OF assms(2)] by simp
next
  case (connect_join t gen mon)
  then show ?thesis using join_sys_ok [OF assms(2)] by simp
next
  case (install t gen k w g inst m')
  then show ?thesis using install_sys_ok [OF assms(2), of t gen k w "sy_next s" g inst m'] by simp
next
  case (disconnect t shut pc pc' m' op')
  then show ?thesis using disconnect_sys_ok [OF assms(2)] by simp
next
  case (disconnect_join t shut mon)
  then show ?thesis using join_sys_ok [OF assms(2)] by simp
next
  case (watch t mon gen i pc pc' m' op')
  then show ?thesis using watch_sys_ok [OF assms(2)] by simp
next
  case (tick t mon gen pc pc' m' op')
  then show ?thesis using tick_sys_ok [OF assms(2)] by simp
next
  case (verified t gen result now)
  then show ?thesis using verify_sys_ok [OF assms(2)] by simp
qed

lemma conn_run_sys_ok:
  "conn_run True sha lower redact o0 r s \<Longrightarrow> sys_ok (sy_m s) (sy_open s) (sy_next s) (sy_threads s)"
proof (induction rule: conn_run.induct)
  case run_start
  show ?case by (simp add: sys_ok_def conn_start_def conn_New_def)
next
  case (run_step s s')
  then show ?case by (blast intro: conn_step_sys_ok)
qed

section \<open>What serial calls guarantee\<close>

lemma run_owned:
  assumes run: "conn_run True sha lower redact o0 r s" and i: "i \<in> set (sy_open s)"
  shows "process_owned s i"
  using sys_okD(5) [OF conn_run_sys_ok [OF run] i] by (simp add: process_owned_def)

text \<open>
  C4. No core process is ever lost, however \<open>Disconnect\<close>, \<open>Shutdown\<close>, the monitor and manual verifications
  interleave with a \<open>Connect\<close>, provided calls of \<open>Connect\<close> are serial: at every moment every process
  that was started and not closed is either the manager's instance or is about to be closed by a
  goroutine; and when no goroutine is left and the manager is not active, none is open.
\<close>

theorem no_process_lost:
  assumes "conn_run True sha lower redact o0 r s"
  shows "list_all (process_owned s) (sy_open s) \<and> (sy_open s = [] \<or> sy_threads s \<noteq> Map.empty \<or> Active (mg_state (sy_m s)))"
proof
  show "list_all (process_owned s) (sy_open s)" using run_owned [OF assms] by (simp add: list_all_iff)
  show "sy_open s = [] \<or> sy_threads s \<noteq> Map.empty \<or> Active (mg_state (sy_m s))"
  proof (rule ccontr)
    assume c: "\<not> (sy_open s = [] \<or> sy_threads s \<noteq> Map.empty \<or> Active (mg_state (sy_m s)))"
    then have "process_owned s (hd (sy_open s))" using run_owned [OF assms] by simp
    moreover have "mg_instance (sy_m s) = None" using sys_okD(3) [OF conn_run_sys_ok [OF assms]] c by simp
    ultimately show False using c by (simp add: process_owned_def)
  qed
qed

end
