(* ===== verification/ConnTrace.thy ===== *)
theory ConnTrace
  imports ConnRun
begin

text \<open>
  Concrete runs of the connection manager: what goes wrong when calls overlap, and witnesses for the
  guarantees of \<open>ConnRun\<close>.
\<close>

section \<open>Building runs\<close>

abbreviation sys_of :: "conn_mgr \<Rightarrow> nat list \<Rightarrow> nat \<Rightarrow> (nat \<rightharpoonup> conn_thread) \<Rightarrow> conn_sys" where
  "sys_of m op n ts \<equiv> \<lparr>sy_m = m, sy_open = op, sy_next = n, sy_threads = ts\<rparr>"

definition sample_opts :: conn_opts where
  "sample_opts = \<lparr>co_Verify = \<lparr>vp_Skip = False, vp_Timeout = 0, vp_Target = [], vp_Targets = []\<rparr>, co_MonitorInterval = 0,
     co_VerifyInterval = 0, co_VerifyGrace = 0, co_VerifyFailureThreshold = 0\<rparr>"

definition sample_run :: "bool \<Rightarrow> conn_mgr \<Rightarrow> nat list \<Rightarrow> nat \<Rightarrow> (nat \<rightharpoonup> conn_thread) \<Rightarrow> bool" where
  "sample_run serial m op n ts \<longleftrightarrow> conn_run serial id id (\<lambda>s _. s) sample_opts sample_registry (sys_of m op n ts)"

abbreviation sample_connect_step ::
  "nat \<Rightarrow> connect_pc \<Rightarrow> conn_mgr \<Rightarrow> nat list \<Rightarrow> nat \<Rightarrow> connect_pc option \<Rightarrow> conn_mgr \<Rightarrow> nat list \<Rightarrow> nat \<Rightarrow> bool" where
  "sample_connect_step \<equiv> connect_step (\<lambda>s _. s) id (fst (conn_New sample_opts)) sample_registry"

lemma run_connect:
  assumes "sample_run serial m op n (ts(t \<mapsto> TConnect g pc))" "sample_connect_step g pc m op n pc' m' op' n'"
  shows "sample_run serial m' op' n' (ts(t := map_option (TConnect g) pc'))"
  using run_step [OF assms(1) [unfolded sample_run_def] conn_step.connect, of t g pc pc' m' op' n'] assms(2)
  by (simp add: sample_run_def)


lemma sample_select: "\<exists>sel. Select id sample_registry cfg sample_prefs = Inr sel"
proof -
  have "gget sample_registry ''own'' = Some (sample_entry ''own'' 1 ''first-party'')" by (simp add: sample_registry_def)
  moreover from sample_eligible [OF this] have "eligible_candidates (config_Normalize id cfg) sample_registry \<noteq> []"
    using eligible_mem [OF sample_ok] calculation by (metis empty_iff empty_set)
  ultimately show ?thesis using Select_eq [of id cfg sample_registry sample_prefs] by (auto simp: Let_def)
qed

lemma candidates_Cons: "\<exists>cs. connect_candidates r pref sel = se_Core sel # cs"
proof -
  have "\<exists>ds. add_fallbacks r limit names cands = cands @ ds" for limit names cands
    by (induction r limit names cands rule: add_fallbacks.induct) (auto split: option.splits)
  from this [of "pf_MaxAttempts (pref_WithDefaults pref)" "se_Fallbacks sel" "[se_Core sel]"] show ?thesis
    by (auto simp: connect_candidates_def)
qed

text \<open>A manager without port preferences; every port choice is left to the core.\<close>

definition free_ports :: "conn_mgr \<Rightarrow> bool" where
  "free_ports m \<longleftrightarrow> mg_socksPortPref m = 0 \<and> mg_httpPortPref m = 0 \<and> mg_port m = 0 \<and> \<not> mg_shutdown m"

text \<open>A call of \<open>Connect\<close> up to the published instance.\<close>

lemma run_to_published:
  assumes run: "sample_run serial m op n ts" and t: "ts t = None" and free: "free_ports m" and idle: "\<not> Active (mg_state m)"
    and ser: "serial \<Longrightarrow> \<forall>x \<in> ran ts. \<not> is_operation x"
  shows "\<exists>m' c cs. sample_run serial m' (n # op) (n + 1) (ts(t \<mapsto> TConnect (mg_generation m + 1) (AWaitReady (c, cs, False) 0 n))) \<and>
    free_ports m' \<and> mg_generation m' = mg_generation m + 1 \<and> mg_instance m' = Some n \<and> mg_monitor m' = mg_monitor m"
proof -
  let ?g = "mg_generation m + 1" and ?cfg = "SetID id id (config_Normalize id zero_config)"
  obtain m1 where b: "connect_begin id id zero_config sample_prefs m = Inr (?g, m1)"
    and m1: "free_ports m1" "mg_generation m1 = ?g" "mg_monitor m1 = mg_monitor m"
    using free idle by (auto simp: connect_begin_def Let_def free_ports_def session_defs split: option.splits)
  have r1: "sample_run serial m1 op n (ts(t \<mapsto> TConnect ?g (CSelect ?cfg sample_prefs)))"
    using run_step [OF run [unfolded sample_run_def] conn_step.call_connect, of t zero_config sample_prefs ?g m1] t b ser
    by (simp add: sample_run_def)
  obtain sel where sel: "Select id sample_registry ?cfg sample_prefs = Inr sel" using sample_select by blast
  obtain cs where cs: "connect_candidates sample_registry sample_prefs sel = se_Core sel # cs" using candidates_Cons by blast
  let ?p = "(se_Core sel, cs, False)"
  let ?m2 = "connect_selected (bk_Name (se_Core sel)) (registry_Version sample_registry (bk_Name (se_Core sel))) m1"
  have m2: "free_ports ?m2" "mg_generation ?m2 = ?g" "mg_monitor ?m2 = mg_monitor m" using m1 by (auto simp: connect_selected_def free_ports_def)
  have r2: "sample_run serial ?m2 op n (ts(t \<mapsto> TConnect ?g (CLoop (se_Core sel # cs) None)))"
    using run_connect [OF r1 select_some [OF sel]] cs by simp
  have r3: "sample_run serial ?m2 op n (ts(t \<mapsto> TConnect ?g (APrepare ?p)))" using run_connect [OF r2 loop_next] by simp
  let ?m3 = "?m2\<lparr>mg_state := StatePreparing\<rparr>" and ?m4 = "?m2\<lparr>mg_state := StateStartingCore\<rparr>"
  have r4: "sample_run serial ?m3 op n (ts(t \<mapsto> TConnect ?g (AValidate ?p)))"
    using run_connect [OF r3 prepare, of ?m3] m2 by (simp add: attempt_prepare_def)
  have ports: "attempt_ports ?m3 = (0, 0)" using m2 by (simp add: attempt_ports_def free_ports_def nextPort_def)
  have r5: "sample_run serial ?m3 op n (ts(t \<mapsto> TConnect ?g (ALaunch ?p 0)))"
    using run_connect [OF r4 port_ok [OF ports, of "\<lambda>_. None"]] by (simp add: checkPortBindability_def)
  have r6: "sample_run serial ?m4 op n (ts(t \<mapsto> TConnect ?g (AStart ?p 0)))"
    using run_connect [OF r5 launch, of ?m4] m2 by (simp add: attempt_launch_def)
  have r7: "sample_run serial ?m4 (n # op) (n + 1) (ts(t \<mapsto> TConnect ?g (AStarted ?p 0 n)))" using run_connect [OF r6 start] by simp
  let ?m5 = "?m2\<lparr>mg_state := StateWaitingForReady, mg_instance := Some n\<rparr>"
  have r8: "sample_run serial ?m5 (n # op) (n + 1) (ts(t \<mapsto> TConnect ?g (AWaitReady ?p 0 n)))"
    using run_connect [OF r7 publish, of ?m5] m2 by (simp add: attempt_publish_def)
  moreover have "free_ports ?m5" "mg_generation ?m5 = ?g" "mg_monitor ?m5 = mg_monitor m" using m2 by (auto simp: free_ports_def)
  ultimately show ?thesis by (intro exI [of _ ?m5] exI [of _ "se_Core sel"] exI [of _ cs]) simp
qed




lemma sample_start: "sample_run serial (snd (conn_New sample_opts)) [] 0 Map.empty"
  using run_start [of serial id id "\<lambda>s _. s" sample_opts sample_registry] by (simp add: sample_run_def conn_start_def)

lemma sample_new:
  "free_ports (snd (conn_New sample_opts))" "mg_generation (snd (conn_New sample_opts)) = 0" "mg_instance (snd (conn_New sample_opts)) = None"
  "\<not> Active (mg_state (snd (conn_New sample_opts)))" "mg_monitor (snd (conn_New sample_opts)) = None"
  by (simp_all add: conn_New_def free_ports_def Active_def)

section \<open>Overlapping calls\<close>



theorem no_process_lost_witness:
  "\<exists>s. conn_run True id id (\<lambda>s _. s) sample_opts sample_registry s \<and> sy_open s = [0] \<and> list_all (process_owned s) (sy_open s)"
proof -
  obtain m c cs where r: "sample_run True m [0] 1 [0 \<mapsto> TConnect 1 (AWaitReady (c, cs, False) 0 0)]"
    using run_to_published [OF sample_start [of True], of 0] sample_new by auto
  from no_process_lost [OF r [unfolded sample_run_def]] r show ?thesis unfolding sample_run_def
    by (metis conn_sys.select_convs(2))
qed

end
