(* ===== verification/StatePub.thy ===== *)
theory StatePub
  imports Prelude "HOL-Library.Sublist"
begin

text \<open>
  The snapshot publisher (\<open>internal/statepub/statepub.go\<close>): the bounded queue with its overflow
  valve, publication, the delivery goroutine, subscription and \<open>Stop\<close>. The delivery goroutine and the
  publishers interleave; each section that holds the publisher's lock is one step.
\<close>

section \<open>The queue and its overflow valve\<close>

datatype pub_class = Replaceable | Critical

record 'a queue_item =
  qi_snapshot :: 'a
  qi_class :: pub_class
  qi_stage :: string

record 'a pub_opts =
  po_equal :: "('a \<Rightarrow> 'a \<Rightarrow> bool) option"
  po_classify :: "('a \<Rightarrow> pub_class) option"
  po_stage :: "('a \<Rightarrow> string) option"

definition maxQueue :: nat where "maxQueue = 256"

record 'a publisher =
  pb_queue :: "'a queue_item list"
  pb_last :: "'a option"
  pb_stopped :: bool
  pb_signal :: bool
  pb_subscribers :: "nat list"
  pb_subSeq :: nat

definition pub_New :: "'a publisher" where
  "pub_New = \<lparr>pb_queue = [], pb_last = None, pb_stopped = False, pb_signal = False, pb_subscribers = [], pb_subSeq = 0\<rparr>"

text \<open>Listeners are named by their numbers.\<close>

definition Subscribe :: "'a publisher \<Rightarrow> nat \<times> 'a publisher" where
  "Subscribe p = (let n = pb_subSeq p + 1 in (n, p\<lparr>pb_subSeq := n, pb_subscribers := pb_subscribers p @ [n]\<rparr>))"

definition unsubscribe :: "nat \<Rightarrow> 'a publisher \<Rightarrow> 'a publisher" where
  "unsubscribe n p = p\<lparr>pb_subscribers := removeAll n (pb_subscribers p)\<rparr>"

definition pub_item :: "'a pub_opts \<Rightarrow> 'a \<Rightarrow> 'a queue_item" where
  "pub_item opts x =
     (case po_classify opts of
        None \<Rightarrow> \<lparr>qi_snapshot = x, qi_class = Replaceable, qi_stage = []\<rparr>
      | Some classify \<Rightarrow>
          \<lparr>qi_snapshot = x, qi_class = classify x, qi_stage = (case po_stage opts of None \<Rightarrow> [] | Some stage \<Rightarrow> stage x)\<rparr>)"

text \<open>The first loop of \<open>compactLocked\<close>: the list built so far, and the items to come.\<close>

fun merge_stages :: "'a queue_item list \<Rightarrow> 'a queue_item list \<Rightarrow> 'a queue_item list" where
  "merge_stages merged [] = merged"
| "merge_stages merged (item # items) =
     (if merged \<noteq> [] \<and> qi_stage (last merged) \<noteq> [] \<and> qi_stage (last merged) = qi_stage item
      then merge_stages (butlast merged @ [item]) items
      else merge_stages (merged @ [item]) items)"

text \<open>The second loop: items are shed, oldest first.\<close>

fun shed_items :: "nat \<Rightarrow> 'a queue_item list \<Rightarrow> 'a queue_item list" where
  "shed_items shed [] = []"
| "shed_items shed (item # items) =
     (if shed > 0 \<and> qi_class item = Replaceable then shed_items (shed - 1) items else item # shed_items shed items)"

definition compactLocked :: "'a pub_opts \<Rightarrow> 'a queue_item list \<Rightarrow> 'a queue_item list" where
  "compactLocked opts queue =
     (let q = (if po_stage opts \<noteq> None \<and> length queue > 1 then merge_stages [] queue else queue)
      in if length q < maxQueue then q else shed_items (length q - maxQueue + 1) q)"

definition pub_equal :: "'a pub_opts \<Rightarrow> 'a publisher \<Rightarrow> 'a \<Rightarrow> bool" where
  "pub_equal opts p x =
     (case (pb_last p, po_equal opts) of (Some y, Some equal) \<Rightarrow> equal y x | _ \<Rightarrow> False)"

definition enqueue :: "'a pub_opts \<Rightarrow> 'a queue_item \<Rightarrow> 'a queue_item list \<Rightarrow> 'a queue_item list" where
  "enqueue opts item queue =
     (if length queue \<ge> maxQueue then
        let q = compactLocked opts queue in if length q \<ge> maxQueue then tl q @ [item] else q @ [item]
      else queue @ [item])"

definition Publish :: "'a pub_opts \<Rightarrow> 'a \<Rightarrow> 'a publisher \<Rightarrow> 'a publisher" where
  "Publish opts x p =
     (if pb_stopped p then p
      else if pub_equal opts p x then p
      else p\<lparr>pb_queue := enqueue opts (pub_item opts x) (pb_queue p), pb_last := Some x, pb_signal := True\<rparr>)"

definition pub_Stop :: "'a publisher \<Rightarrow> 'a publisher" where
  "pub_Stop p = (if pb_stopped p then p else p\<lparr>pb_stopped := True\<rparr>)"

text \<open>One round of \<open>drain\<close>: the snapshot to dispatch, if any.\<close>

definition drain_take :: "'a publisher \<Rightarrow> 'a option \<times> 'a publisher" where
  "drain_take p =
     (case pb_queue p of [] \<Rightarrow> (None, p) | item # items \<Rightarrow> (Some (qi_snapshot item), p\<lparr>pb_queue := items\<rparr>))"

definition dispatch :: "'a publisher \<Rightarrow> 'a \<Rightarrow> (nat \<times> 'a) list" where
  "dispatch p x = map (\<lambda>n. (n, x)) (pb_subscribers p)"

section \<open>The delivery goroutine\<close>

datatype loop_pc = LSelect | LDrain | LFinal | LDone

text \<open>\<open>ps_accepted\<close> records the snapshots that were not refused, \<open>ps_delivered\<close> those taken from the
  queue, \<open>ps_calls\<close> the calls of the listeners, and \<open>ps_last_resort\<close> whether an entry was dropped because compaction freed no place.\<close>

record 'a pub_sys =
  ps_pub :: "'a publisher"
  ps_loop :: loop_pc
  ps_accepted :: "'a list"
  ps_delivered :: "'a list"
  ps_calls :: "(nat \<times> 'a) list"
  ps_last_resort :: bool

definition accepts :: "'a pub_opts \<Rightarrow> 'a \<Rightarrow> 'a publisher \<Rightarrow> bool" where
  "accepts opts x p \<longleftrightarrow> \<not> pb_stopped p \<and> \<not> pub_equal opts p x"

definition overflows :: "'a pub_opts \<Rightarrow> 'a queue_item list \<Rightarrow> bool" where
  "overflows opts queue \<longleftrightarrow> length queue \<ge> maxQueue \<and> length (compactLocked opts queue) \<ge> maxQueue"

inductive pub_step :: "'a pub_opts \<Rightarrow> 'a pub_sys \<Rightarrow> 'a pub_sys \<Rightarrow> bool" for opts where
  publish: "pub_step opts s
    (s\<lparr>ps_pub := Publish opts x (ps_pub s),
       ps_accepted := ps_accepted s @ (if accepts opts x (ps_pub s) then [x] else []),
       ps_last_resort := ps_last_resort s \<or> accepts opts x (ps_pub s) \<and> overflows opts (pb_queue (ps_pub s))\<rparr>)"
| subscribe: "pub_step opts s (s\<lparr>ps_pub := snd (Subscribe (ps_pub s))\<rparr>)"
| unsubscribe: "pub_step opts s (s\<lparr>ps_pub := unsubscribe n (ps_pub s)\<rparr>)"
| stop: "pub_step opts s (s\<lparr>ps_pub := pub_Stop (ps_pub s)\<rparr>)"
| wake: "ps_loop s = LSelect \<Longrightarrow> pb_signal (ps_pub s) \<Longrightarrow>
    pub_step opts s (s\<lparr>ps_loop := LDrain, ps_pub := (ps_pub s)\<lparr>pb_signal := False\<rparr>\<rparr>)"
| quit: "ps_loop s = LSelect \<Longrightarrow> pb_stopped (ps_pub s) \<Longrightarrow> pub_step opts s (s\<lparr>ps_loop := LFinal\<rparr>)"
| deliver: "ps_loop s = LDrain \<or> ps_loop s = LFinal \<Longrightarrow> drain_take (ps_pub s) = (Some x, p) \<Longrightarrow>
    pub_step opts s (s\<lparr>ps_pub := p, ps_delivered := ps_delivered s @ [x], ps_calls := ps_calls s @ dispatch p x\<rparr>)"
| drained: "ps_loop s = LDrain \<Longrightarrow> drain_take (ps_pub s) = (None, p) \<Longrightarrow> pub_step opts s (s\<lparr>ps_loop := LSelect\<rparr>)"
| finished: "ps_loop s = LFinal \<Longrightarrow> drain_take (ps_pub s) = (None, p) \<Longrightarrow> pub_step opts s (s\<lparr>ps_loop := LDone\<rparr>)"

definition pub_start :: "'a pub_sys" where
  "pub_start = \<lparr>ps_pub = pub_New, ps_loop = LSelect, ps_accepted = [], ps_delivered = [], ps_calls = [], ps_last_resort = False\<rparr>"

inductive pub_run :: "'a pub_opts \<Rightarrow> 'a pub_sys \<Rightarrow> bool" for opts where
  run_start: "pub_run opts pub_start"
| run_step: "pub_run opts s \<Longrightarrow> pub_step opts s s' \<Longrightarrow> pub_run opts s'"

section \<open>What the valve keeps\<close>

lemma merge_stages_subseq: "subseq (merge_stages merged items) (merged @ items)"
proof (induction merged items rule: merge_stages.induct)
  case (2 merged item items)
  have "subseq (butlast merged @ [item]) (merged @ [item])" by (rule list_emb_append_mono) (simp_all add: prefix_imp_subseq prefixeq_butlast)
  then have "subseq ((butlast merged @ [item]) @ items) ((merged @ [item]) @ items)" by (rule list_emb_append_mono) simp
  with 2 show ?case by (auto intro: subseq_order.trans split: if_splits)
qed simp

lemma shed_items_subseq: "subseq (shed_items n items) items"
  by (induction n items rule: shed_items.induct) auto

lemma merge_stages_length: "length (merge_stages merged items) \<le> length merged + length items"
  using list_emb_length [OF merge_stages_subseq [of merged items]] by simp

lemma compact_subseq: "subseq (compactLocked opts queue) queue"
  using merge_stages_subseq [of "[]" queue] shed_items_subseq
  by (auto simp: compactLocked_def Let_def intro: subseq_order.trans)

lemma enqueue_subseq: "subseq (enqueue opts item queue) (queue @ [item])"
proof -
  have "subseq (tl xs) xs" for xs :: "'b list" by (cases xs) auto
  then have "subseq (tl (compactLocked opts queue)) queue" using compact_subseq [of opts queue] subseq_order.trans by blast
  then show ?thesis using compact_subseq [of opts queue] by (auto simp: enqueue_def Let_def intro: list_emb_append_mono)
qed

lemma enqueue_last: "enqueue opts item queue \<noteq> [] \<and> last (enqueue opts item queue) = item"
  by (simp add: enqueue_def Let_def)

lemma enqueue_bound:
  assumes "length queue \<le> maxQueue"
  shows "length (enqueue opts item queue) \<le> maxQueue"
proof -
  have "length (compactLocked opts queue) \<le> maxQueue" using list_emb_length [OF compact_subseq [of opts queue]] assms by simp
  with assms show ?thesis by (auto simp: enqueue_def Let_def maxQueue_def)
qed

section \<open>Delivery in order\<close>

definition pub_pending :: "'a pub_sys \<Rightarrow> 'a list" where
  "pub_pending s = map qi_snapshot (pb_queue (ps_pub s))"

definition pub_ok :: "'a pub_opts \<Rightarrow> 'a pub_sys \<Rightarrow> bool" where
  "pub_ok opts s \<longleftrightarrow>
     subseq (ps_delivered s @ pub_pending s) (ps_accepted s) \<and>
     (ps_accepted s \<noteq> [] \<longrightarrow> ps_delivered s @ pub_pending s \<noteq> [] \<and> last (ps_delivered s @ pub_pending s) = last (ps_accepted s)) \<and>
     pb_last (ps_pub s) = (if ps_accepted s = [] then None else Some (last (ps_accepted s))) \<and>
     length (pb_queue (ps_pub s)) \<le> maxQueue \<and>
     (pb_queue (ps_pub s) \<noteq> [] \<longrightarrow> pb_signal (ps_pub s) \<or> ps_loop s = LDrain \<or> ps_loop s = LFinal \<or> pb_stopped (ps_pub s) \<and> ps_loop s = LSelect) \<and>
     (ps_loop s = LFinal \<or> ps_loop s = LDone \<longrightarrow> pb_stopped (ps_pub s)) \<and>
     (ps_loop s = LDone \<longrightarrow> pb_queue (ps_pub s) = []) \<and>
     (\<forall>item \<in> set (pb_queue (ps_pub s)). item = pub_item opts (qi_snapshot item))"

lemma pub_item_snapshot [simp]: "qi_snapshot (pub_item opts x) = x"
  by (simp add: pub_item_def split: option.split)

lemma subseq_set: "subseq xs ys \<Longrightarrow> set xs \<subseteq> set ys"
  by (auto dest: list_emb_set)

lemma enqueue_snapshots:
  "subseq (map qi_snapshot (enqueue opts (pub_item opts x) queue)) (map qi_snapshot queue @ [x])"
  "map qi_snapshot (enqueue opts (pub_item opts x) queue) \<noteq> []" "last (map qi_snapshot (enqueue opts (pub_item opts x) queue)) = x"
  using subseq_map [OF enqueue_subseq [of opts "pub_item opts x" queue], of qi_snapshot] enqueue_last [of opts "pub_item opts x" queue]
  by (simp_all add: last_map)

lemma pub_ok_publish:
  assumes ok: "pub_ok opts s"
  shows "pub_ok opts (s\<lparr>ps_pub := Publish opts x (ps_pub s), ps_accepted := ps_accepted s @ (if accepts opts x (ps_pub s) then [x] else []),
       ps_last_resort := b\<rparr>)"
proof (cases "accepts opts x (ps_pub s)")
  case False
  then have "Publish opts x (ps_pub s) = ps_pub s" by (auto simp: accepts_def Publish_def)
  with ok False show ?thesis by (simp add: pub_ok_def pub_pending_def)
next
  case True
  let ?q = "pb_queue (ps_pub s)" and ?q' = "enqueue opts (pub_item opts x) (pb_queue (ps_pub s))"
  have pub: "Publish opts x (ps_pub s) = (ps_pub s)\<lparr>pb_queue := ?q', pb_last := Some x, pb_signal := True\<rparr>"
    using True by (simp add: accepts_def Publish_def)
  have "subseq (ps_delivered s @ map qi_snapshot ?q') (ps_delivered s @ map qi_snapshot ?q @ [x])"
    by (intro list_emb_append_mono enqueue_snapshots) simp
  moreover have "subseq ((ps_delivered s @ map qi_snapshot ?q) @ [x]) (ps_accepted s @ [x])"
    by (rule list_emb_append_mono) (use ok in \<open>simp_all add: pub_ok_def pub_pending_def\<close>)
  ultimately have "subseq (ps_delivered s @ map qi_snapshot ?q') (ps_accepted s @ [x])" using subseq_order.trans by fastforce
  moreover have "set ?q' \<subseteq> insert (pub_item opts x) (set ?q)" using subseq_set [OF enqueue_subseq [of opts "pub_item opts x" ?q]] by auto
  then have "\<forall>item \<in> set ?q'. item = pub_item opts (qi_snapshot item)" using ok by (auto simp: pub_ok_def)
  moreover have "length ?q' \<le> maxQueue" using ok by (intro enqueue_bound) (simp add: pub_ok_def)
  moreover have "ps_loop s \<noteq> LDone" "ps_loop s \<noteq> LFinal" using ok True by (auto simp: pub_ok_def accepts_def)
  ultimately show ?thesis using True enqueue_snapshots(2,3) [of opts x ?q] by (simp add: pub_ok_def pub_pending_def pub)
qed

lemma pub_ok_step:
  assumes ok: "pub_ok opts s" and st: "pub_step opts s s'"
  shows "pub_ok opts s'"
  using st
proof cases
  case (publish x)
  then show ?thesis using pub_ok_publish [OF ok] by simp
next
  case (deliver x p)
  then obtain item items where q: "pb_queue (ps_pub s) = item # items" "x = qi_snapshot item" "p = (ps_pub s)\<lparr>pb_queue := items\<rparr>"
    by (auto simp: drain_take_def split: list.splits)
  then show ?thesis using ok deliver by (auto simp: pub_ok_def pub_pending_def)
next
  case drained
  then show ?thesis using ok by (auto simp: pub_ok_def pub_pending_def drain_take_def split: list.splits)
next
  case finished
  then show ?thesis using ok by (auto simp: pub_ok_def pub_pending_def drain_take_def split: list.splits)
qed (use ok in \<open>auto simp: pub_ok_def pub_pending_def Subscribe_def unsubscribe_def pub_Stop_def Let_def\<close>)

lemma pub_run_ok: "pub_run opts s \<Longrightarrow> pub_ok opts s"
proof (induction rule: pub_run.induct)
  case run_start
  show ?case by (simp add: pub_ok_def pub_start_def pub_New_def pub_pending_def)
qed (rule pub_ok_step)

text \<open>
  C19. However publications, subscriptions, \<open>Stop\<close> and the delivery goroutine interleave: what was
  delivered and is still pending is a subsequence of the accepted snapshots in publication order, the newest
  accepted snapshot is never lost, at most 256 snapshots wait, and none waits while nothing is going to
  deliver it: either the goroutine is at work, or a signal or the quit channel will wake it.
  Once the goroutine has ended, nothing waits.
\<close>

theorem publisher_delivers:
  assumes "pub_run opts s"
  shows "subseq (ps_delivered s @ pub_pending s) (ps_accepted s) \<and>
    (ps_accepted s = [] \<or> last (ps_delivered s @ pub_pending s) = last (ps_accepted s)) \<and>
    length (pub_pending s) \<le> 256 \<and>
    (pub_pending s = [] \<or> pb_signal (ps_pub s) \<or> ps_loop s = LDrain \<or> ps_loop s = LFinal \<or> pb_stopped (ps_pub s) \<and> ps_loop s = LSelect) \<and>
    (ps_loop s = LDone \<longrightarrow> pub_pending s = [])"
  using pub_run_ok [OF assms] by (auto simp: pub_ok_def pub_pending_def maxQueue_def)

theorem publisher_delivers_witness:
  "\<exists>s. pub_run \<lparr>po_equal = None, po_classify = None, po_stage = None\<rparr> s \<and> ps_loop s = LDone \<and> ps_accepted s = [5::nat] \<and>
     last (ps_delivered s @ pub_pending s) = 5"
proof -
  let ?o = "\<lparr>po_equal = None, po_classify = None, po_stage = None\<rparr> :: nat pub_opts"
  let ?p = "\<lparr>pb_queue = [\<lparr>qi_snapshot = 5, qi_class = Replaceable, qi_stage = []\<rparr>], pb_last = Some 5, pb_stopped = False, pb_signal = True,
     pb_subscribers = [], pb_subSeq = 0\<rparr> :: nat publisher"
  let ?q = "?p\<lparr>pb_queue := [], pb_stopped := True\<rparr>"
  have r1: "pub_run ?o \<lparr>ps_pub = ?p, ps_loop = LSelect, ps_accepted = [5], ps_delivered = [], ps_calls = [], ps_last_resort = False\<rparr>"
    using run_step [OF run_start publish, of ?o 5]
    by (simp add: pub_start_def pub_New_def Publish_def pub_equal_def enqueue_def accepts_def overflows_def pub_item_def maxQueue_def)
  have r2: "pub_run ?o \<lparr>ps_pub = ?p\<lparr>pb_stopped := True\<rparr>, ps_loop = LSelect, ps_accepted = [5], ps_delivered = [], ps_calls = [], ps_last_resort = False\<rparr>"
    using run_step [OF r1 stop] by (simp add: pub_Stop_def)
  have r3: "pub_run ?o \<lparr>ps_pub = ?p\<lparr>pb_stopped := True\<rparr>, ps_loop = LFinal, ps_accepted = [5], ps_delivered = [], ps_calls = [], ps_last_resort = False\<rparr>"
    using run_step [OF r2 quit] by simp
  have r4: "pub_run ?o \<lparr>ps_pub = ?q, ps_loop = LFinal, ps_accepted = [5], ps_delivered = [5], ps_calls = [], ps_last_resort = False\<rparr>"
    using run_step [OF r3 deliver, of 5 ?q] by (simp add: drain_take_def dispatch_def)
  have r5: "pub_run ?o \<lparr>ps_pub = ?q, ps_loop = LDone, ps_accepted = [5], ps_delivered = [5], ps_calls = [], ps_last_resort = False\<rparr>"
    using run_step [OF r4 finished, of ?q] by (simp add: drain_take_def)
  from publisher_delivers [OF r5] r5 show ?thesis
    by (intro exI [of _ "\<lparr>ps_pub = ?q, ps_loop = LDone, ps_accepted = [5], ps_delivered = [5], ps_calls = [], ps_last_resort = False\<rparr>"]) simp
qed

section \<open>Critical transitions\<close>

lemma remdups_adj_append_cong:
  assumes "remdups_adj b = remdups_adj c"
  shows "remdups_adj (a @ b) = remdups_adj (a @ c)"
proof (induction a)
  case (Cons x a)
  then show ?case unfolding append_Cons remdups_adj_Cons [of x "a @ b"] remdups_adj_Cons [of x "a @ c"] by simp
qed (use assms in simp)

lemma remdups_adj_append_cong_left:
  assumes "remdups_adj b = remdups_adj c"
  shows "remdups_adj (b @ a) = remdups_adj (c @ a)"
proof -
  have "remdups_adj (rev b) = remdups_adj (rev c)" using assms by simp
  from remdups_adj_append_cong [OF this, of "rev a"] have "remdups_adj (rev (b @ a)) = remdups_adj (rev (c @ a))" unfolding rev_append .
  then show ?thesis unfolding remdups_adj_rev rev_is_rev_conv .
qed

definition critical_stages :: "'a queue_item list \<Rightarrow> string list" where
  "critical_stages items = remdups_adj (map qi_stage (filter (\<lambda>i. qi_class i = Critical) items))"

lemma critical_stages_append_cong:
  assumes "critical_stages b = critical_stages c"
  shows "critical_stages (a @ b) = critical_stages (a @ c)" "critical_stages (b @ a) = critical_stages (c @ a)"
  using assms unfolding critical_stages_def filter_append map_append
  by (rule remdups_adj_append_cong, rule remdups_adj_append_cong_left)

definition uniform_class :: "'a queue_item list \<Rightarrow> bool" where
  "uniform_class items \<longleftrightarrow> (\<forall>i \<in> set items. \<forall>j \<in> set items. qi_stage i = qi_stage j \<longrightarrow> qi_class i = qi_class j)"

lemma uniform_classD: "uniform_class items \<Longrightarrow> i \<in> set items \<Longrightarrow> j \<in> set items \<Longrightarrow> qi_stage i = qi_stage j \<Longrightarrow> qi_class i = qi_class j"
  unfolding uniform_class_def by blast

lemma uniform_class_mono: "uniform_class items \<Longrightarrow> set items' \<subseteq> set items \<Longrightarrow> uniform_class items'"
  unfolding uniform_class_def by blast

lemma merge_stages_critical:
  assumes "uniform_class (merged @ items)"
  shows "critical_stages (merge_stages merged items) = critical_stages (merged @ items)"
  using assms
proof (induction merged items rule: merge_stages.induct)
  case (2 merged item items)
  show ?case
  proof (cases "merged \<noteq> [] \<and> qi_stage (last merged) \<noteq> [] \<and> qi_stage (last merged) = qi_stage item")
    case True
    then obtain ms l where m: "merged = ms @ [l]" "qi_stage l = qi_stage item" by (metis append_butlast_last_id)
    then have c: "qi_class l = qi_class item" by (intro uniform_classD [OF 2(3)]) simp_all
    have "uniform_class ((butlast merged @ [item]) @ items)" by (rule uniform_class_mono [OF 2(3)]) (use m in auto)
    with 2(1) True have "critical_stages (merge_stages merged (item # items)) = critical_stages ((ms @ [item]) @ items)" using m by simp
    moreover have "critical_stages [item] = critical_stages [l, item]" using m c by (simp add: critical_stages_def)
    then have "critical_stages ((ms @ [item]) @ items) = critical_stages ((ms @ [l, item]) @ items)"
      by (rule critical_stages_append_cong(2) [OF critical_stages_append_cong(1)])
    ultimately show ?thesis using m by simp
  next
    case False
    with 2 show ?thesis by auto
  qed
qed simp

lemma shed_items_critical: "critical_stages (shed_items n items) = critical_stages items"
proof (induction n items rule: shed_items.induct)
  case (2 n item items)
  show ?case
  proof (cases "n > 0 \<and> qi_class item = Replaceable")
    case True
    then show ?thesis using 2(1) by (simp add: critical_stages_def)
  next
    case False
    then show ?thesis using critical_stages_append_cong(1) [OF 2(2), of "[item]"] by auto
  qed
qed simp

lemma compact_critical: "uniform_class queue \<Longrightarrow> critical_stages (compactLocked opts queue) = critical_stages queue"
  using merge_stages_critical [of "[]" queue] by (simp add: compactLocked_def Let_def shed_items_critical)

lemma enqueue_critical:
  assumes "uniform_class queue" "\<not> overflows opts queue"
  shows "critical_stages (enqueue opts item queue) = critical_stages (queue @ [item])"
  using assms(2) critical_stages_append_cong(2) [OF compact_critical [OF assms(1), of opts], of "[item]"]
  by (simp add: enqueue_def overflows_def Let_def)

text \<open>A publisher whose classification depends on the stage only.\<close>

locale staged_publisher =
  fixes opts :: "'a pub_opts" and classify :: "'a \<Rightarrow> pub_class" and stage :: "'a \<Rightarrow> string"
  assumes classify: "po_classify opts = Some classify" and stage: "po_stage opts = Some stage"
    and by_stage: "stage x = stage y \<Longrightarrow> classify x = classify y"
begin

definition transitions :: "'a list \<Rightarrow> string list" where
  "transitions xs = remdups_adj (map stage (filter (\<lambda>x. classify x = Critical) xs))"

lemma item: "pub_item opts x = \<lparr>qi_snapshot = x, qi_class = classify x, qi_stage = stage x\<rparr>"
  by (simp add: pub_item_def classify stage)

lemma transitions_items:
  assumes "\<forall>i \<in> set items. i = pub_item opts (qi_snapshot i)"
  shows "critical_stages items = transitions (map qi_snapshot items)"
proof -
  have "map qi_stage (filter (\<lambda>i. qi_class i = Critical) items) = map stage (filter (\<lambda>x. classify x = Critical) (map qi_snapshot items))"
    using assms
  proof (induction items)
    case (Cons i items)
    have "i = pub_item opts (qi_snapshot i)" using Cons.prems by simp
    then have "qi_stage i = stage (qi_snapshot i)" "qi_class i = classify (qi_snapshot i)"
      by (metis item queue_item.select_convs(3), metis item queue_item.select_convs(2))
    with Cons show ?case by simp
  qed simp
  then show ?thesis by (simp add: critical_stages_def transitions_def)
qed

lemma uniform_items:
  assumes "\<forall>i \<in> set items. i = pub_item opts (qi_snapshot i)"
  shows "uniform_class items"
  unfolding uniform_class_def
proof (intro ballI impI)
  fix i j assume "i \<in> set items" "j \<in> set items" "qi_stage i = qi_stage j"
  moreover have "qi_stage k = stage (qi_snapshot k) \<and> qi_class k = classify (qi_snapshot k)" if "k \<in> set items" for k
    using assms that item by (metis queue_item.select_convs(2,3))
  ultimately show "qi_class i = qi_class j" by (metis by_stage)
qed

lemma transitions_append_cong:
  assumes "transitions b = transitions c"
  shows "transitions (a @ b) = transitions (a @ c)" "transitions (b @ a) = transitions (c @ a)"
  using assms unfolding transitions_def filter_append map_append
  by (rule remdups_adj_append_cong, rule remdups_adj_append_cong_left)

lemma enqueue_transitions:
  assumes items: "\<forall>i \<in> set queue. i = pub_item opts (qi_snapshot i)" and over: "\<not> overflows opts queue"
  shows "transitions (map qi_snapshot (enqueue opts (pub_item opts x) queue)) = transitions (map qi_snapshot queue @ [x])"
proof -
  have new: "\<forall>i \<in> set (queue @ [pub_item opts x]). i = pub_item opts (qi_snapshot i)" using items by simp
  moreover have "set (enqueue opts (pub_item opts x) queue) \<subseteq> set (queue @ [pub_item opts x])" by (rule subseq_set [OF enqueue_subseq])
  ultimately have "\<forall>i \<in> set (enqueue opts (pub_item opts x) queue). i = pub_item opts (qi_snapshot i)" by blast
  from transitions_items [OF this] transitions_items [OF new] enqueue_critical [OF uniform_items [OF items] over, of "pub_item opts x"]
  show ?thesis by simp
qed

lemma transitions_step:
  assumes ok: "pub_ok opts s" and st: "pub_step opts s s'" and inv: "\<not> ps_last_resort s \<longrightarrow> transitions (ps_delivered s @ pub_pending s) = transitions (ps_accepted s)"
  shows "\<not> ps_last_resort s' \<longrightarrow> transitions (ps_delivered s' @ pub_pending s') = transitions (ps_accepted s')"
  using st
proof cases
  case (publish x)
  show ?thesis
  proof (cases "accepts opts x (ps_pub s)")
    case False
    then have "Publish opts x (ps_pub s) = ps_pub s" by (auto simp: accepts_def Publish_def)
    with publish False inv show ?thesis by (simp add: pub_pending_def)
  next
    case True
    let ?q = "pb_queue (ps_pub s)"
    have q': "pb_queue (Publish opts x (ps_pub s)) = enqueue opts (pub_item opts x) ?q" using True by (simp add: accepts_def Publish_def)
    show ?thesis
    proof
      assume "\<not> ps_last_resort s'"
      then have n: "\<not> ps_last_resort s" "\<not> overflows opts ?q" using publish True by auto
      have items: "\<forall>i \<in> set ?q. i = pub_item opts (qi_snapshot i)" using ok unfolding pub_ok_def by blast
      have "pub_pending s' = map qi_snapshot (enqueue opts (pub_item opts x) ?q)" using publish q' by (simp add: pub_pending_def)
      then have "transitions (pub_pending s') = transitions (pub_pending s @ [x])" using enqueue_transitions [OF items n(2), of x] by (simp add: pub_pending_def)
      then have "transitions (ps_delivered s @ pub_pending s') = transitions (ps_delivered s @ pub_pending s @ [x])" by (rule transitions_append_cong(1))
      also have "\<dots> = transitions ((ps_delivered s @ pub_pending s) @ [x])" by simp
      also have "\<dots> = transitions (ps_accepted s @ [x])" by (rule transitions_append_cong(2)) (use inv n in simp)
      finally show "transitions (ps_delivered s' @ pub_pending s') = transitions (ps_accepted s')" using publish True by simp
    qed
  qed
next
  case (deliver x p)
  then have "ps_delivered s' @ pub_pending s' = ps_delivered s @ pub_pending s"
    by (auto simp: pub_pending_def drain_take_def split: list.splits)
  with inv deliver show ?thesis by simp
qed (use inv in \<open>auto simp: pub_pending_def Subscribe_def unsubscribe_def pub_Stop_def Let_def\<close>)

lemma transitions_kept:
  assumes "pub_run opts s" "\<not> ps_last_resort s"
  shows "transitions (ps_delivered s @ pub_pending s) = transitions (ps_accepted s)"
proof -
  have "pub_run opts s \<Longrightarrow> \<not> ps_last_resort s \<longrightarrow> transitions (ps_delivered s @ pub_pending s) = transitions (ps_accepted s)"
  proof (induction rule: pub_run.induct)
    case run_start
    show ?case by (simp add: pub_start_def pub_New_def pub_pending_def)
  next
    case (run_step s s')
    then show ?case using transitions_step pub_run_ok by blast
  qed
  with assms show ?thesis by blast
qed

end

end
