(* ===== verification/ConnPublish.thy ===== *)
theory ConnPublish
  imports ConnManager StatePub
begin

text \<open>
  How the connection manager publishes its snapshots (\<open>engine/connection/publish.go\<close>): the
  classification it hands to the publisher of \<open>StatePub\<close>, and what that means for its state transitions.
\<close>

section \<open>The manager's publisher\<close>

definition snapshotClass :: "conn_snapshot \<Rightarrow> pub_class" where
  "snapshotClass s =
     (case sn_State s of
        StateSelecting \<Rightarrow> Critical | StatePreparing \<Rightarrow> Critical | StateStartingCore \<Rightarrow> Critical
      | StateWaitingForReady \<Rightarrow> Critical | StateVerifying \<Rightarrow> Critical | StateConnectedVerified \<Rightarrow> Critical
      | StateDisconnecting \<Rightarrow> Critical | StateDisconnected \<Rightarrow> Critical | StateConnectionFailed \<Rightarrow> Critical
      | StateConnected \<Rightarrow> Replaceable)"

definition snapshotStage :: "conn_snapshot \<Rightarrow> string" where
  "snapshotStage s = state_string (sn_State s)"

definition conn_pub_opts :: "conn_snapshot pub_opts" where
  "conn_pub_opts = \<lparr>po_equal = Some snapshotsEqual, po_classify = Some snapshotClass, po_stage = Some snapshotStage\<rparr>"

definition stateChanged :: "(nat \<Rightarrow> string) \<Rightarrow> conn_mgr \<Rightarrow> conn_snapshot publisher \<Rightarrow> conn_snapshot publisher" where
  "stateChanged endpoint m p = Publish conn_pub_opts (snapshotLocked endpoint m) p"

definition manager_Subscribe :: "(nat \<Rightarrow> string) \<Rightarrow> conn_mgr \<Rightarrow> conn_snapshot publisher \<Rightarrow> nat \<times> conn_snapshot publisher" where
  "manager_Subscribe endpoint m p = (case Subscribe p of (n, p1) \<Rightarrow> (n, Publish conn_pub_opts (snapshotLocked endpoint m) p1))"

lemma state_string_inj: "state_string a = state_string b \<Longrightarrow> a = b"
  by (cases a; cases b) (simp_all add: state_string_def)

interpretation conn_pub: staged_publisher conn_pub_opts snapshotClass snapshotStage
proof
  show "snapshotClass x = snapshotClass y" if "snapshotStage x = snapshotStage y" for x y
    using state_string_inj [of "sn_State x" "sn_State y"] that by (simp add: snapshotClass_def snapshotStage_def)
qed (simp_all add: conn_pub_opts_def)

section \<open>What the user interface sees\<close>

text \<open>The lifecycle states a sequence of snapshots passes through, without \<open>connected\<close> and without repetitions.\<close>

definition lifecycle :: "conn_snapshot list \<Rightarrow> string list" where
  "lifecycle xs = remdups_adj (map snapshotStage (filter (\<lambda>x. snapshotClass x = Critical) xs))"

text \<open>
  C23. The snapshots of the connection manager that are delivered or still wait pass through exactly the
  lifecycle states that were published, in the same order, however far the listeners lag behind, as
  long as compacting the queue makes room.
\<close>

theorem lifecycle_delivered:
  assumes "pub_run conn_pub_opts s" "\<not> ps_last_resort s"
  shows "lifecycle (ps_delivered s @ pub_pending s) = lifecycle (ps_accepted s)"
  using conn_pub.transitions_kept [OF assms] by (simp add: conn_pub.transitions_def lifecycle_def)

section \<open>When the queue is full of transitions\<close>

definition sample_snapshot :: "conn_state \<Rightarrow> conn_snapshot" where
  "sample_snapshot st =
     \<lparr>sn_State = st, sn_Core = [], sn_CoreVersion = [], sn_ConfigID = [], sn_ConfigName = [], sn_ConfigDisplay = [], sn_Endpoint = [],
      sn_LatencyMS = 0, sn_StartedAt = 0, sn_LastError = [], sn_Attempts = [], sn_FallbacksUsed = 0, sn_CorePID = 0, sn_CoreReadyMS = 0,
      sn_PingMedianMS = 0, sn_URLTotalMS = 0, sn_Verification = [], sn_VerifiedAt = 0, sn_VerifyFailures = 0\<rparr>"

definition flapping :: "nat \<Rightarrow> conn_snapshot list" where
  "flapping n = map (\<lambda>i. sample_snapshot (if even i then StateSelecting else StateConnectionFailed)) [0..<n]"

definition published :: "nat \<Rightarrow> conn_snapshot pub_sys \<Rightarrow> bool" where
  "published n s \<longleftrightarrow> pub_run conn_pub_opts s \<and> ps_accepted s = flapping n \<and> ps_delivered s = [] \<and> \<not> ps_last_resort s \<and>
     pb_queue (ps_pub s) = map (pub_item conn_pub_opts) (flapping n) \<and> \<not> pb_stopped (ps_pub s) \<and>
     pb_last (ps_pub s) = (if n = 0 then None else Some (last (flapping n)))"

lemma flapping_0 [simp]: "flapping 0 = []"
  by (simp add: flapping_def)

lemma flapping_Cons: "flapping (Suc n) = sample_snapshot StateSelecting # tl (flapping (Suc n))"
  by (simp add: flapping_def upt_conv_Cons del: upt_Suc)

lemma flapping_Suc: "flapping (Suc n) = flapping n @ [sample_snapshot (if even n then StateSelecting else StateConnectionFailed)]"
  by (simp add: flapping_def)

lemma flapping_last: "n > 0 \<Longrightarrow> last (flapping n) = sample_snapshot (if odd n then StateSelecting else StateConnectionFailed)"
  by (cases n) (simp_all add: flapping_Suc)

lemma flapping_accepted:
  assumes "published n s"
  shows "accepts conn_pub_opts (sample_snapshot (if even n then StateSelecting else StateConnectionFailed)) (ps_pub s)"
  using assms flapping_last [of n]
  by (auto simp: published_def accepts_def pub_equal_def conn_pub_opts_def snapshotsEqual_def sample_snapshot_def split: if_splits)

lemma flapping_published: "n \<le> 256 \<Longrightarrow> \<exists>s. published n s"
proof (induction n)
  case 0
  have "published 0 pub_start" by (simp add: published_def pub_start_def pub_New_def flapping_def run_start [unfolded pub_start_def pub_New_def])
  then show ?case by blast
next
  case (Suc n)
  then obtain s where s: "published n s" by auto
  let ?x = "sample_snapshot (if even n then StateSelecting else StateConnectionFailed)"
  note acc = flapping_accepted [OF s]
  have len: "length (pb_queue (ps_pub s)) < maxQueue" using s Suc.prems by (simp add: published_def flapping_def maxQueue_def)
  then have ov: "\<not> overflows conn_pub_opts (pb_queue (ps_pub s))" by (simp add: overflows_def)
  have pub: "Publish conn_pub_opts ?x (ps_pub s) =
      (ps_pub s)\<lparr>pb_queue := pb_queue (ps_pub s) @ [pub_item conn_pub_opts ?x], pb_last := Some ?x, pb_signal := True\<rparr>"
    using acc len by (simp add: accepts_def Publish_def enqueue_def)
  let ?s = "s\<lparr>ps_pub := Publish conn_pub_opts ?x (ps_pub s), ps_accepted := ps_accepted s @ (if accepts conn_pub_opts ?x (ps_pub s) then [?x] else []),
       ps_last_resort := ps_last_resort s \<or> accepts conn_pub_opts ?x (ps_pub s) \<and> overflows conn_pub_opts (pb_queue (ps_pub s))\<rparr>"
  have run: "pub_run conn_pub_opts ?s" using run_step [OF conjunct1 [OF s [unfolded published_def]] publish] .
  have "published (Suc n) ?s" unfolding published_def
    by (intro conjI, fact run) (use s acc ov pub in \<open>simp_all add: published_def flapping_Suc\<close>)
  then show ?case by blast
qed

lemma merge_stages_id: "distinct_adj (map qi_stage (merged @ items)) \<Longrightarrow> merge_stages merged items = merged @ items"
proof (induction merged items rule: merge_stages.induct)
  case (2 merged item items)
  have "\<not> (merged \<noteq> [] \<and> qi_stage (last merged) \<noteq> [] \<and> qi_stage (last merged) = qi_stage item)"
    using 2(3) by (auto simp: distinct_adj_append_iff last_map)
  with 2 show ?case by auto
qed simp

lemma shed_items_id: "\<forall>i \<in> set items. qi_class i = Critical \<Longrightarrow> shed_items n items = items"
  by (induction n items rule: shed_items.induct) auto

lemma flapping_distinct: "distinct_adj (map qi_stage (map (pub_item conn_pub_opts) (flapping n)))"
proof (induction n)
  case (Suc n)
  have "qi_stage (pub_item conn_pub_opts (sample_snapshot st)) = state_string st" for st
    by (simp add: conn_pub.item snapshotStage_def sample_snapshot_def)
  then show ?case using Suc flapping_last [of n]
    by (cases n) (simp_all add: flapping_Suc distinct_adj_append_iff state_string_def)
qed (simp add: flapping_def)

text \<open>
  Contrary to the contract of the publisher, critical transitions can be dropped: only neighbouring
  snapshots of the same stage are merged, so a consumer that stalls while the connection flaps between
  two states fills the queue with 256 critical entries that cannot be merged or shed, and the next publication
  drops the oldest transition.
\<close>

theorem critical_transition_dropped:
  "\<exists>s. pub_run conn_pub_opts s \<and> ps_accepted s = flapping 257 \<and> ps_delivered s = [] \<and> pub_pending s = tl (flapping 257) \<and>
     lifecycle (ps_delivered s @ pub_pending s) \<noteq> lifecycle (ps_accepted s)"
proof -
  obtain s where s: "published 256 s" using flapping_published [of 256] by auto
  let ?x = "sample_snapshot StateSelecting" and ?q = "pb_queue (ps_pub s)"
  have acc: "accepts conn_pub_opts ?x (ps_pub s)" using flapping_accepted [OF s] by simp
  have len: "length ?q = 256" using s by (simp add: published_def flapping_def)
  have crit: "\<forall>i \<in> set ?q. qi_class i = Critical"
    using s by (auto simp: published_def flapping_def conn_pub.item snapshotClass_def sample_snapshot_def)
  have merge: "merge_stages [] ?q = ?q" using merge_stages_id [of "[]" ?q] flapping_distinct [of 256] s by (simp add: published_def)
  have compact: "compactLocked conn_pub_opts ?q = ?q"
    by (simp add: compactLocked_def conn_pub.stage len maxQueue_def Let_def merge shed_items_id [OF crit])
  have enq: "enqueue conn_pub_opts (pub_item conn_pub_opts ?x) ?q = tl ?q @ [pub_item conn_pub_opts ?x]"
    by (simp add: enqueue_def compact len maxQueue_def Let_def)
  let ?s = "s\<lparr>ps_pub := Publish conn_pub_opts ?x (ps_pub s), ps_accepted := ps_accepted s @ (if accepts conn_pub_opts ?x (ps_pub s) then [?x] else []),
       ps_last_resort := ps_last_resort s \<or> accepts conn_pub_opts ?x (ps_pub s) \<and> overflows conn_pub_opts ?q\<rparr>"
  have f: "flapping 257 = flapping 256 @ [?x]" using flapping_Suc [of 256] by simp
  have run: "pub_run conn_pub_opts ?s" using run_step [OF conjunct1 [OF s [unfolded published_def]] publish] .
  have a: "ps_accepted ?s = flapping 257" "ps_delivered ?s = []" using s acc f by (simp_all add: published_def)
  have "pub_pending ?s = tl (flapping 256) @ [?x]"
    using acc enq s by (simp add: pub_pending_def accepts_def Publish_def published_def map_tl o_def)
  moreover have ne: "flapping 256 \<noteq> []" by (simp add: flapping_def)
  ultimately have p: "pub_pending ?s = tl (flapping 257)" using f by simp
  have life: "lifecycle xs = map snapshotStage xs" if "set xs \<subseteq> set (flapping 257)" "distinct_adj (map snapshotStage xs)" for xs
  proof -
    have "\<forall>x \<in> set xs. snapshotClass x = Critical" using that(1) by (auto simp: flapping_def snapshotClass_def sample_snapshot_def)
    then show ?thesis using that(2) by (simp add: lifecycle_def distinct_adj_altdef)
  qed
  have d: "distinct_adj (map snapshotStage (flapping 257))"
    using flapping_distinct [of 257] by (simp add: o_def conn_pub.item)
  have "flapping 257 = ?x # tl (flapping 257)" using flapping_Cons [of 256] by simp
  then have dt: "distinct_adj (map snapshotStage (tl (flapping 257)))" using d by (metis distinct_adj_ConsD list.simps(9))
  have sub: "set (tl xs) \<subseteq> set xs" for xs :: "conn_snapshot list" by (cases xs) auto
  have "lifecycle (flapping 257) = map snapshotStage (flapping 257)" "lifecycle (tl (flapping 257)) = map snapshotStage (tl (flapping 257))"
    by (rule life [OF order_refl d], rule life [OF sub dt])
  moreover have "length (flapping 257) = 257" by (simp add: flapping_def)
  ultimately have "lifecycle (tl (flapping 257)) \<noteq> lifecycle (flapping 257)" by (metis length_map length_tl diff_Suc_1 n_not_Suc_n numeral_eq_Suc)
  then show ?thesis using run a p by (intro exI [of _ ?s]) simp
qed

theorem lifecycle_delivered_witness:
  "\<exists>s. published 3 s \<and> lifecycle (ps_delivered s @ pub_pending s) = lifecycle (flapping 3)"
proof -
  obtain s where "published 3 s" using flapping_published [of 3] by auto
  with lifecycle_delivered [of s] show ?thesis unfolding published_def by metis
qed

end
