(* ===== verification/UiEmitter.thy ===== *)
theory UiEmitter
  imports StatePub
begin

text \<open>
  The bounded emitter between a publisher and the user interface (\<open>internal/statepub/emitter.go\<close>), and the pipeline
  the composition root builds from both (\<open>cmd/freeiran/main.go\<close>): the publisher's goroutine submits what it delivers to
  the emitter, whose own goroutine emits it; the emitter is stopped after the publisher has ended.
\<close>

section \<open>The emitter\<close>








section \<open>Queues that keep the newest entry\<close>

locale newest_queue =
  fixes put :: "'a \<Rightarrow> 'a list \<Rightarrow> 'a list" and bound :: nat
  assumes put_subseq: "subseq (put x q) (q @ [x])"
    and put_newest: "put x q \<noteq> [] \<and> last (put x q) = x"
    and put_bound: "length q \<le> bound \<Longrightarrow> length (put x q) \<le> bound"
begin

lemma history_subseq:
  assumes "subseq (past @ q) history"
  shows "subseq (past @ put x q) (history @ [x])"
proof -
  have "subseq (past @ put x q) (past @ q @ [x])" by (intro list_emb_append_mono put_subseq) simp
  moreover have "subseq ((past @ q) @ [x]) (history @ [x])" using assms by (rule list_emb_append_mono) simp
  ultimately show ?thesis using subseq_order.trans by fastforce
qed

lemma history_newest: "past @ put x q \<noteq> [] \<and> last (past @ put x q) = x"
  using put_newest by simp

end

interpretation pubq: newest_queue "enqueue opts" maxQueue for opts
  by unfold_locales (simp_all add: enqueue_subseq enqueue_last enqueue_bound)



section \<open>The pipeline\<close>






section \<open>Convergence\<close>










end
