(* ===== verification/Httpx.thy ===== *)
theory Httpx
  imports NetAddr ConfigData Complex_Main
begin

text \<open>
  The shared HTTP client: the retry policy of \<open>internal/httpx/policy.go\<close> and the guard of
  \<open>internal/httpx/ssrf.go\<close> that keeps fetches of discovered URLs on the public internet. What the
  network answers is a list of replies; \<open>url.Parse\<close> with \<open>Hostname\<close> and \<open>Port\<close>, \<open>strings.EqualFold\<close>, the Unicode
  tables of \<open>strings.ToLower\<close> and the parsing of HTTP dates are parameters, and the theorems hold for all of them.
  Floating point numbers are rationals.
\<close>

section \<open>Policy\<close>

record http_policy =
  hp_RequestTimeout :: duration
  hp_DialTimeout :: duration
  hp_TLSHandshakeTimeout :: duration
  hp_ResponseHeaderTimeout :: duration
  hp_MaxIdleConnsPerHost :: int
  hp_IdleConnTimeout :: duration
  hp_MaxRetries :: int
  hp_BackoffBase :: duration
  hp_BackoffMax :: duration
  hp_BackoffJitter :: rat
  hp_MaxRetryAfterWait :: duration
  hp_MaxBodyBytes :: int

definition policy_normalize :: "http_policy \<Rightarrow> http_policy" where
  "policy_normalize p =
     \<lparr>hp_RequestTimeout = (if hp_RequestTimeout p \<le> 0 then 20 * second else hp_RequestTimeout p),
      hp_DialTimeout = (if hp_DialTimeout p \<le> 0 then 10 * second else hp_DialTimeout p),
      hp_TLSHandshakeTimeout = (if hp_TLSHandshakeTimeout p \<le> 0 then 10 * second else hp_TLSHandshakeTimeout p),
      hp_ResponseHeaderTimeout = (if hp_ResponseHeaderTimeout p \<le> 0 then 20 * second else hp_ResponseHeaderTimeout p),
      hp_MaxIdleConnsPerHost = (if hp_MaxIdleConnsPerHost p \<le> 0 then 4 else hp_MaxIdleConnsPerHost p),
      hp_IdleConnTimeout = (if hp_IdleConnTimeout p \<le> 0 then 60 * second else hp_IdleConnTimeout p),
      hp_MaxRetries = (if hp_MaxRetries p = 0 then 3 else if hp_MaxRetries p < 0 then 0 else hp_MaxRetries p),
      hp_BackoffBase = (if hp_BackoffBase p \<le> 0 then 500000000 else hp_BackoffBase p),
      hp_BackoffMax = (if hp_BackoffMax p \<le> 0 then 8 * second else hp_BackoffMax p),
      hp_BackoffJitter = (if hp_BackoffJitter p \<le> 0 then 1 / 5 else hp_BackoffJitter p),
      hp_MaxRetryAfterWait = (if hp_MaxRetryAfterWait p \<le> 0 then 60 * second else hp_MaxRetryAfterWait p),
      hp_MaxBodyBytes = (if hp_MaxBodyBytes p \<le> 0 then 8388608 else hp_MaxBodyBytes p)\<rparr>"

section \<open>One attempt\<close>

text \<open>What an attempt meets: the request cannot be built, the transport fails (cancelled by the caller or
  not), or a status with a \<open>Retry-After\<close> header and a body that is read or fails to be read.\<close>

datatype http_reply =
    BuildError
  | DoError bool
  | Reply int string "(bool \<times> bool \<times> string) + bytes"

datatype get_err =
    ErrURL bool
  | ErrRetryableStatus int duration
  | ErrStatus int
  | ErrRead bool bool string
  | ErrBodyTooLarge
  | ErrRateLimited duration
  | ErrCancelledInBackoff
  | ErrAttempts get_err

record http_response =
  rs_StatusCode :: int
  rs_Body :: bytes
  rs_Attempts :: int
  rs_RetryAfter :: duration

definition parseRetryAfter :: "(string \<Rightarrow> duration option) \<Rightarrow> string \<Rightarrow> duration" where
  "parseRetryAfter until v0 =
     (let v = TrimSpace v0 in
      if v = [] then 0
      else case Atoi v of
        Some secs \<Rightarrow> if secs < 0 then 0 else int64 (secs * second)
      | None \<Rightarrow> (case until v of Some d \<Rightarrow> if d > 0 then d else 0 | None \<Rightarrow> 0))"

definition retryableStatus :: "int \<Rightarrow> bool" where
  "retryableStatus code \<longleftrightarrow> code = 429 \<or> code = 502 \<or> code = 503 \<or> code = 504"

definition getOnce :: "(string \<Rightarrow> duration option) \<Rightarrow> http_policy \<Rightarrow> int \<Rightarrow> http_reply \<Rightarrow> get_err + http_response" where
  "getOnce until p optMax reply =
     (case reply of
        BuildError \<Rightarrow> Inl (ErrURL False)
      | DoError cancelled \<Rightarrow> Inl (ErrURL cancelled)
      | Reply status header body \<Rightarrow>
          let retryAfter = parseRetryAfter until header in
          if status = 304 then Inr \<lparr>rs_StatusCode = status, rs_Body = [], rs_Attempts = 0, rs_RetryAfter = 0\<rparr>
          else if retryableStatus status then Inl (ErrRetryableStatus status retryAfter)
          else if status < 200 \<or> status \<ge> 300 then Inl (ErrStatus status)
          else
            let maxBody = (if optMax > 0 then optMax else hp_MaxBodyBytes p) in
            case body of
              Inl (netErr, cancelled, msg) \<Rightarrow> Inl (ErrRead netErr cancelled msg)
            | Inr bs \<Rightarrow>
                if int (length (take (nat (int64 (maxBody + 1))) bs)) > maxBody then Inl ErrBodyTooLarge
                else Inr \<lparr>rs_StatusCode = status, rs_Body = take (nat (int64 (maxBody + 1))) bs, rs_Attempts = 0,
                          rs_RetryAfter = (if retryAfter > 0 then retryAfter else 0)\<rparr>)"

text \<open>The transport's errors and those of building a request are \<open>*url.Error\<close> values, which implement \<open>net.Error\<close>.\<close>

definition retry_markers :: "string list" where
  "retry_markers = [''connection reset'', ''connection refused'', ''broken pipe'', ''unexpected eof'', ''eof'', ''server closed'',
     ''tls handshake'', ''no route to host'', ''i/o timeout'', ''context deadline exceeded'']"

fun retryableErr :: "(string \<Rightarrow> string) \<Rightarrow> get_err \<Rightarrow> bool" where
  "retryableErr uni (ErrRetryableStatus _ _) = True"
| "retryableErr uni (ErrURL cancelled) = (\<not> cancelled)"
| "retryableErr uni (ErrRead netErr cancelled msg) =
     (\<not> cancelled \<and> (netErr \<or> list_ex (str_contains (ToLower uni msg)) retry_markers))"
| "retryableErr uni _ = False"

section \<open>Retries\<close>

fun backoff_loop :: "nat \<Rightarrow> duration \<Rightarrow> duration \<Rightarrow> duration" where
  "backoff_loop 0 limit backoff = backoff"
| "backoff_loop (Suc n) limit backoff =
     (let b = int64 (backoff * 2) in if b \<ge> limit then limit else backoff_loop n limit b)"

definition backoff_for :: "http_policy \<Rightarrow> nat \<Rightarrow> duration" where
  "backoff_for p attempt =
     (let b = backoff_loop (attempt - 1) (hp_BackoffMax p) (hp_BackoffBase p) in if b > hp_BackoffMax p then hp_BackoffMax p else b)"

definition jittered :: "rat \<Rightarrow> rat \<Rightarrow> duration \<Rightarrow> duration" where
  "jittered jitter r backoff =
     (let spread = rat_of_int backoff * jitter;
          x = rat_of_int backoff - spread + 2 * spread * r
      in if x < 0 then 0 else \<lfloor>x\<rfloor>)"

definition retryDelay :: "http_policy \<Rightarrow> rat \<Rightarrow> nat \<Rightarrow> get_err \<Rightarrow> get_err + duration" where
  "retryDelay p r attempt prevErr =
     (let ra = (case prevErr of ErrRetryableStatus _ d \<Rightarrow> if d > 0 then d else 0 | _ \<Rightarrow> 0) in
      if ra > 0 then (if ra > hp_MaxRetryAfterWait p then Inl (ErrRateLimited ra) else Inr ra)
      else Inr (jittered (hp_BackoffJitter p) r (backoff_for p attempt)))"

text \<open>The environment of a \<open>Get\<close>: the reply to each attempt, the random number of each wait, and whether the
  context ends during it. The result comes with the waits made.\<close>

record get_env =
  ge_reply :: "nat \<Rightarrow> http_reply"
  ge_random :: "nat \<Rightarrow> rat"
  ge_done :: "nat \<Rightarrow> bool"

function get_loop ::
  "(string \<Rightarrow> string) \<Rightarrow> (string \<Rightarrow> duration option) \<Rightarrow> http_policy \<Rightarrow> int \<Rightarrow> get_env \<Rightarrow> nat \<Rightarrow> get_err \<Rightarrow> duration list
     \<Rightarrow> (get_err + http_response) \<times> duration list" where
  "get_loop uni until p optMax ge attempt lastErr waits =
     (if int attempt > hp_MaxRetries p then (Inl (ErrAttempts lastErr), waits)
      else
        case (if attempt > 0 then retryDelay p (ge_random ge attempt) attempt lastErr else Inr 0) of
          Inl e \<Rightarrow> (Inl e, waits)
        | Inr wait \<Rightarrow>
            let waits1 = (if attempt > 0 then waits @ [wait] else waits) in
            if attempt > 0 \<and> ge_done ge attempt then (Inl ErrCancelledInBackoff, waits1)
            else
              (case getOnce until p optMax (ge_reply ge attempt) of
                 Inr resp \<Rightarrow> (Inr (resp\<lparr>rs_Attempts := int attempt + 1\<rparr>), waits1)
               | Inl err \<Rightarrow>
                   if \<not> retryableErr uni err then (Inl err, waits1)
                   else get_loop uni until p optMax ge (attempt + 1) err waits1))"
  by pat_completeness auto
termination
  by (relation "measure (\<lambda>(uni, until, p, optMax, ge, attempt, lastErr, waits). nat (hp_MaxRetries p + 1 - int attempt))") auto

declare get_loop.simps [simp del]

definition Get ::
  "(string \<Rightarrow> string) \<Rightarrow> (string \<Rightarrow> duration option) \<Rightarrow> (string \<Rightarrow> get_err option) \<Rightarrow> http_policy \<Rightarrow> int \<Rightarrow> get_env \<Rightarrow> string
     \<Rightarrow> (get_err + http_response) \<times> duration list" where
  "Get uni until preGet p optMax ge url =
     (case preGet url of Some e \<Rightarrow> (Inl e, []) | None \<Rightarrow> get_loop uni until p optMax ge 0 (ErrURL False) [])"

section \<open>The guard against internal destinations\<close>

datatype ssrf_err = ErrSSFRestricted | ErrSSFScheme | ErrSSRFPort | ErrSSRFRedirect

record ssrf_opts =
  so_AllowPrivate :: bool
  so_MaxRedirects :: int
  so_AllowedHosts :: "string list"
  so_AllowedPorts :: "int list"

definition privateHostnames :: "string list" where
  "privateHostnames = [''localhost'', ''localhost.localdomain'', ''ip6-localhost'', ''ip6-loopback'', ''broadcasthost'', ''localhost6'',
     ''metadata.google.internal'']"

text \<open>\<open>net.IPNet.Contains\<close>: the leading bits of addresses of the same length.\<close>

definition byte_bits :: "byte \<Rightarrow> bool list" where
  "byte_bits b = map (\<lambda>i. bit b (7 - i)) [0..<8]"

definition ip_bits :: "bytes \<Rightarrow> bool list" where
  "ip_bits ip = concat (map byte_bits ip)"

definition block_Contains :: "bytes \<times> nat \<Rightarrow> bytes \<Rightarrow> bool" where
  "block_Contains block ip0 =
     (let ip = (case To4 ip0 of Some v4 \<Rightarrow> v4 | None \<Rightarrow> ip0)
      in length ip = length (fst block) \<and> take (snd block) (ip_bits ip) = take (snd block) (ip_bits (fst block)))"

definition privateBlocks :: "(bytes \<times> nat) list" where
  "privateBlocks =
     [([127, 0, 0, 0], 8), ([10, 0, 0, 0], 8), ([172, 16, 0, 0], 12), ([192, 168, 0, 0], 16), ([169, 254, 0, 0], 16), ([0, 0, 0, 0], 8),
      ([100, 64, 0, 0], 10), ([192, 0, 0, 0], 24), ([192, 0, 2, 0], 24), ([198, 18, 0, 0], 15), ([198, 51, 100, 0], 24),
      ([203, 0, 113, 0], 24), ([224, 0, 0, 0], 4), ([240, 0, 0, 0], 4),
      (replicate 15 0 @ [1], 128), ([0xfe, 0x80] @ replicate 14 0, 10), (0xfc # replicate 15 0, 7), (0xff # replicate 15 0, 8),
      (replicate 16 0, 128)]"

definition isPrivateIP :: "bytes option \<Rightarrow> bool" where
  "isPrivateIP ip0 =
     (case ip0 of
        None \<Rightarrow> True
      | Some ip1 \<Rightarrow>
          let ip = (case To4 ip1 of Some v4 \<Rightarrow> v4 | None \<Rightarrow> ip1)
          in list_ex (\<lambda>block. block_Contains block ip) privateBlocks)"

text \<open>A parsed URL, as far as the guard reads it.\<close>

record parsed_url =
  pu_Scheme :: string
  pu_Hostname :: string
  pu_Port :: string

definition validatePort :: "parsed_url \<Rightarrow> ssrf_opts \<Rightarrow> ssrf_err option" where
  "validatePort u opts =
     (if pu_Port u = [] then None
      else case Atoi (pu_Port u) of
        None \<Rightarrow> Some ErrSSRFPort
      | Some number \<Rightarrow>
          if number \<le> 0 \<or> number > 65535 then Some ErrSSRFPort
          else if so_AllowedPorts opts \<noteq> [] then (if number \<in> set (so_AllowedPorts opts) then None else Some ErrSSRFPort)
          else if number = 80 \<or> number = 443 then None
          else if so_AllowPrivate opts \<and> (number = 8443 \<or> number = 8080) then None
          else Some ErrSSRFPort)"

definition trim_brackets :: "string \<Rightarrow> string" where
  "trim_brackets s = rev (dropWhile (\<lambda>c. c \<in> set ''[]'') (rev (dropWhile (\<lambda>c. c \<in> set ''[]'') s)))"

definition ValidateGlobalURL ::
  "(string \<Rightarrow> parsed_url option) \<Rightarrow> (string \<Rightarrow> string) \<Rightarrow> (string \<Rightarrow> string \<Rightarrow> bool) \<Rightarrow> ssrf_opts \<Rightarrow> string \<Rightarrow> ssrf_err option" where
  "ValidateGlobalURL parse uni equalFold opts rawURL =
     (case parse rawURL of
        None \<Rightarrow> Some ErrSSFScheme
      | Some u \<Rightarrow>
          let scheme = ToLower uni (pu_Scheme u); host = pu_Hostname u in
          if scheme \<noteq> ''http'' \<and> scheme \<noteq> ''https'' then Some ErrSSFScheme
          else if host = [] then Some ErrSSFRestricted
          else
            let restricted =
              (case ParseIP (trim_brackets host) of
                 Some ip \<Rightarrow> \<not> so_AllowPrivate opts \<and> isPrivateIP (Some ip)
               | None \<Rightarrow>
                   let lowered = ToLower uni (TrimSuffix host ''.'')
                   in \<not> so_AllowPrivate opts \<and>
                      (lowered \<in> set privateHostnames \<or> HasSuffix lowered ''.local'' \<or> HasSuffix lowered ''.internal''))
            in if restricted then Some ErrSSFRestricted
               else if so_AllowedHosts opts \<noteq> [] \<and> \<not> list_ex (\<lambda>c. equalFold c host) (so_AllowedHosts opts) then Some ErrSSFRestricted
               else validatePort u opts)"

definition ssrfDialControl :: "ssrf_opts \<Rightarrow> string \<Rightarrow> ssrf_err option" where
  "ssrfDialControl opts address =
     (case SplitHostPort address of
        None \<Rightarrow> Some ErrSSFRestricted
      | Some (host, _) \<Rightarrow> if \<not> so_AllowPrivate opts \<and> isPrivateIP (ParseIP host) then Some ErrSSFRestricted else None)"

definition ssrf_normalize :: "ssrf_opts \<Rightarrow> ssrf_opts" where
  "ssrf_normalize opts = (if so_MaxRedirects opts \<le> 0 then opts\<lparr>so_MaxRedirects := 5\<rparr> else opts)"

definition CheckRedirect ::
  "(string \<Rightarrow> parsed_url option) \<Rightarrow> (string \<Rightarrow> string) \<Rightarrow> (string \<Rightarrow> string \<Rightarrow> bool) \<Rightarrow> ssrf_opts \<Rightarrow> string \<Rightarrow> nat \<Rightarrow> ssrf_err option" where
  "CheckRedirect parse uni equalFold opts url via =
     (if int via \<ge> so_MaxRedirects opts then Some ErrSSRFRedirect
      else case ValidateGlobalURL parse uni equalFold opts url of Some _ \<Rightarrow> Some ErrSSRFRedirect | None \<Rightarrow> None)"

text \<open>What happens to a request of the guarded client: every address it is dialled to passes the dial hook
  or the request fails, and every redirect the check. The servers are the list of the addresses dialled and the
  redirect targets answered; the result is the trace of requested URLs with the address connected to, and whether a response arrived.\<close>

fun ssrf_do ::
  "(string \<Rightarrow> parsed_url option) \<Rightarrow> (string \<Rightarrow> string) \<Rightarrow> (string \<Rightarrow> string \<Rightarrow> bool) \<Rightarrow> ssrf_opts \<Rightarrow> string \<Rightarrow> nat \<Rightarrow> (string \<times> string option) list
     \<Rightarrow> (string \<times> string) list \<times> bool" where
  "ssrf_do parse uni equalFold opts url via [] = ([], False)"
| "ssrf_do parse uni equalFold opts url via ((address, redirect) # servers) =
     (case ssrfDialControl opts address of
        Some _ \<Rightarrow> ([], False)
      | None \<Rightarrow>
          (case redirect of
             None \<Rightarrow> ([(url, address)], True)
           | Some target \<Rightarrow>
               (case CheckRedirect parse uni equalFold opts target (via + 1) of
                  Some _ \<Rightarrow> ([(url, address)], False)
                | None \<Rightarrow> (case ssrf_do parse uni equalFold opts target (via + 1) servers of (trace, ok) \<Rightarrow> ((url, address) # trace, ok)))))"

definition ssrf_get ::
  "(string \<Rightarrow> parsed_url option) \<Rightarrow> (string \<Rightarrow> string) \<Rightarrow> (string \<Rightarrow> string \<Rightarrow> bool) \<Rightarrow> ssrf_opts \<Rightarrow> string \<Rightarrow> (string \<times> string option) list
     \<Rightarrow> (string \<times> string) list \<times> bool" where
  "ssrf_get parse uni equalFold opts url servers =
     (case ValidateGlobalURL parse uni equalFold (ssrf_normalize opts) url of
        Some _ \<Rightarrow> ([], False)
      | None \<Rightarrow> ssrf_do parse uni equalFold (ssrf_normalize opts) url 0 servers)"

section \<open>Guarantees of the guard\<close>

text \<open>The destination a request may have: an address outside the private blocks, and a web URL on a permitted port.\<close>

definition public_address :: "string \<Rightarrow> bool" where
  "public_address address \<longleftrightarrow>
     (case SplitHostPort address of None \<Rightarrow> False | Some (host, _) \<Rightarrow> (case ParseIP host of None \<Rightarrow> False | Some ip \<Rightarrow> \<not> isPrivateIP (Some ip)))"

definition guarded :: "(string \<Rightarrow> parsed_url option) \<Rightarrow> (string \<Rightarrow> string) \<Rightarrow> (string \<Rightarrow> string \<Rightarrow> bool) \<Rightarrow> ssrf_opts \<Rightarrow> string \<times> string \<Rightarrow> bool" where
  "guarded parse uni equalFold opts req \<longleftrightarrow>
     ValidateGlobalURL parse uni equalFold opts (fst req) = None \<and> (so_AllowPrivate opts \<or> public_address (snd req))"

lemma dial_control_public: "ssrfDialControl opts address = None \<Longrightarrow> so_AllowPrivate opts \<or> public_address address"
  by (auto simp: ssrfDialControl_def public_address_def isPrivateIP_def split: option.splits if_splits)

lemma ssrf_do_guarded:
  assumes "ValidateGlobalURL parse uni equalFold opts url = None"
  shows "list_all (guarded parse uni equalFold opts) (fst (ssrf_do parse uni equalFold opts url via servers)) \<and>
    (int via < so_MaxRedirects opts \<longrightarrow>
       int (length (fst (ssrf_do parse uni equalFold opts url via servers))) \<le> so_MaxRedirects opts - int via)"
  using assms
proof (induction parse uni equalFold opts url via servers rule: ssrf_do.induct)
  case (2 parse uni equalFold opts url via address redirect servers)
  show ?case
  proof (cases "ssrfDialControl opts address")
    case None
    then have g: "guarded parse uni equalFold opts (url, address)" using 2(2) dial_control_public by (simp add: guarded_def)
    show ?thesis
    proof (cases redirect)
      case None
      with \<open>ssrfDialControl opts address = None\<close> g show ?thesis by simp
    next
      case (Some target)
      show ?thesis
      proof (cases "CheckRedirect parse uni equalFold opts target (via + 1)")
        case ok: None
        then have v: "ValidateGlobalURL parse uni equalFold opts target = None" "int (via + 1) < so_MaxRedirects opts"
          by (auto simp: CheckRedirect_def split: if_splits option.splits)
        from 2(1) [OF None Some ok v(1)] v(2) g None Some ok show ?thesis
          by (auto split: prod.splits)
      qed (use None Some g in simp)
    qed
  qed simp
qed simp

text \<open>
  C11. Whatever redirects the servers answer and whatever addresses the names resolve to: the guarded client requests only URLs that pass
  validation, connects only to addresses outside the private, loopback, link-local, multicast and
  reserved blocks (unless private destinations are allowed), and makes at most as many requests as the redirect limit.
\<close>

theorem ssrf_fetch_safe:
  "list_all (guarded parse uni equalFold (ssrf_normalize opts)) (fst (ssrf_get parse uni equalFold opts url servers)) \<and>
   int (length (fst (ssrf_get parse uni equalFold opts url servers))) \<le> so_MaxRedirects (ssrf_normalize opts)"
proof (cases "ValidateGlobalURL parse uni equalFold (ssrf_normalize opts) url")
  case None
  have "0 < so_MaxRedirects (ssrf_normalize opts)" by (simp add: ssrf_normalize_def)
  with ssrf_do_guarded [OF None, of 0 servers] None show ?thesis by (simp add: ssrf_get_def)
next
  case (Some e)
  then show ?thesis by (simp add: ssrf_get_def) (simp add: ssrf_normalize_def)
qed

text \<open>The private IPv4 ranges as numbers.\<close>

lemma take_byte_bits:
  assumes "n \<le> 8"
  shows "take n (byte_bits b) = take n (byte_bits c) \<longleftrightarrow> unat b div 2 ^ (8 - n) = unat c div 2 ^ (8 - n)"
proof -
  have "take n (byte_bits b) = take n (byte_bits c) \<longleftrightarrow> (\<forall>i < n. bit b (7 - i) = bit c (7 - i))"
    using assms by (auto simp: byte_bits_def list_eq_iff_nth_eq)
  also have "\<dots> \<longleftrightarrow> (\<forall>k. 8 - n \<le> k \<and> k < 8 \<longrightarrow> bit b k = bit c k)"
  proof
    assume a: "\<forall>i < n. bit b (7 - i) = bit c (7 - i)"
    show "\<forall>k. 8 - n \<le> k \<and> k < 8 \<longrightarrow> bit b k = bit c k"
    proof (intro allI impI)
      fix k assume "8 - n \<le> k \<and> k < 8"
      then have "7 - k < n" "7 - (7 - k) = k" using assms by auto
      with a show "bit b k = bit c k" by metis
    qed
  next
    assume a: "\<forall>k. 8 - n \<le> k \<and> k < 8 \<longrightarrow> bit b k = bit c k"
    show "\<forall>i < n. bit b (7 - i) = bit c (7 - i)"
    proof (intro allI impI)
      fix i assume "i < n"
      then have "8 - n \<le> 7 - i \<and> 7 - i < 8" using assms by auto
      with a show "bit b (7 - i) = bit c (7 - i)" by blast
    qed
  qed
  also have "\<dots> \<longleftrightarrow> drop_bit (8 - n) b = drop_bit (8 - n) c"
  proof
    assume a: "\<forall>k. 8 - n \<le> k \<and> k < 8 \<longrightarrow> bit b k = bit c k"
    show "drop_bit (8 - n) b = drop_bit (8 - n) c"
    proof (rule bit_word_eqI)
      fix k assume "k < LENGTH(8)"
      then show "bit (drop_bit (8 - n) b) k = bit (drop_bit (8 - n) c) k"
        using a bit_imp_le_length [of b "8 - n + k"] bit_imp_le_length [of c "8 - n + k"] by (auto simp: bit_drop_bit_eq)
    qed
  next
    assume e: "drop_bit (8 - n) b = drop_bit (8 - n) c"
    show "\<forall>k. 8 - n \<le> k \<and> k < 8 \<longrightarrow> bit b k = bit c k"
    proof (intro allI impI)
      fix k assume k: "8 - n \<le> k \<and> k < 8"
      have "bit (drop_bit (8 - n) b) (k - (8 - n)) = bit (drop_bit (8 - n) c) (k - (8 - n))" using e by simp
      then show "bit b k = bit c k" using k by (simp add: bit_drop_bit_eq)
    qed
  qed
  also have "\<dots> \<longleftrightarrow> unat b div 2 ^ (8 - n) = unat c div 2 ^ (8 - n)"
    by (simp only: word_unat_eq_iff unat_drop_bit_eq) (simp only: drop_bit_eq_div)
  finally show ?thesis .
qed

lemma length_byte_bits [simp]: "length (byte_bits b) = 8"
  by (simp add: byte_bits_def)

lemma byte_bits_eq: "byte_bits b = byte_bits c \<longleftrightarrow> unat b = unat c"
  using take_byte_bits [of 8 b c] by simp

lemma block_v4:
  "block_Contains ([x, y, z, w], n) [a, b, c, d] \<longleftrightarrow>
     take n (byte_bits a) = take n (byte_bits x) \<and> take (n - 8) (byte_bits b) = take (n - 8) (byte_bits y) \<and>
     take (n - 16) (byte_bits c) = take (n - 16) (byte_bits z) \<and> take (n - 24) (byte_bits d) = take (n - 24) (byte_bits w)"
  by (simp add: block_Contains_def To4_def ip_bits_def)

lemma block_v6: "length base = 16 \<Longrightarrow> \<not> block_Contains (base, n) [a, b, c, d]"
  by (simp add: block_Contains_def To4_def)

definition private_v4 :: "nat \<Rightarrow> nat \<Rightarrow> nat \<Rightarrow> bool" where
  "private_v4 a b c \<longleftrightarrow>
     a = 0 \<or> a = 10 \<or> a = 127 \<or> a = 100 \<and> 64 \<le> b \<and> b \<le> 127 \<or> a = 169 \<and> b = 254 \<or> a = 172 \<and> 16 \<le> b \<and> b \<le> 31 \<or>
     a = 192 \<and> (b = 168 \<or> b = 0 \<and> (c = 0 \<or> c = 2)) \<or> a = 198 \<and> (b = 18 \<or> b = 19 \<or> b = 51 \<and> c = 100) \<or>
     a = 203 \<and> b = 0 \<and> c = 113 \<or> 224 \<le> a"

lemma unat_octet: "unat (b :: byte) \<le> 255"
  using unsigned_less [of b, where 'a = nat] by simp

lemma div_ranges:
  "(n :: nat) div 16 = 1 \<longleftrightarrow> 16 \<le> n \<and> n \<le> 31" "n div 64 = 1 \<longleftrightarrow> 64 \<le> n \<and> n \<le> 127" "n div 2 = 9 \<longleftrightarrow> n = 18 \<or> n = 19"
  "n \<le> 255 \<Longrightarrow> n div 16 = 14 \<or> n div 16 = 15 \<longleftrightarrow> 224 \<le> n"
  by arith+

lemmas v4_blocks = block_v4 byte_bits_eq take_byte_bits

text \<open>
  The test for private addresses, which compares the leading bits with a list of blocks, is exactly
  the membership in the numeric IPv4 ranges, for an address given in four bytes or mapped into IPv6.
\<close>

theorem isPrivateIP_v4_exact:
  "isPrivateIP (Some [a, b, c, d]) = private_v4 (unat a) (unat b) (unat c) \<and>
   isPrivateIP (Some (v4_prefix @ [a, b, c, d])) = private_v4 (unat a) (unat b) (unat c)"
proof -
  have four: "isPrivateIP (Some [a, b, c, d]) = list_ex (\<lambda>block. block_Contains block [a, b, c, d]) privateBlocks"
    by (simp add: isPrivateIP_def To4_def)
  have blocks:
    "block_Contains ([127, 0, 0, 0], 8) [a, b, c, d] \<longleftrightarrow> unat a = 127" "block_Contains ([10, 0, 0, 0], 8) [a, b, c, d] \<longleftrightarrow> unat a = 10"
    "block_Contains ([172, 16, 0, 0], 12) [a, b, c, d] \<longleftrightarrow> unat a = 172 \<and> unat b div 16 = 1"
    "block_Contains ([192, 168, 0, 0], 16) [a, b, c, d] \<longleftrightarrow> unat a = 192 \<and> unat b = 168"
    "block_Contains ([169, 254, 0, 0], 16) [a, b, c, d] \<longleftrightarrow> unat a = 169 \<and> unat b = 254"
    "block_Contains ([0, 0, 0, 0], 8) [a, b, c, d] \<longleftrightarrow> unat a = 0"
    "block_Contains ([100, 64, 0, 0], 10) [a, b, c, d] \<longleftrightarrow> unat a = 100 \<and> unat b div 64 = 1"
    "block_Contains ([192, 0, 0, 0], 24) [a, b, c, d] \<longleftrightarrow> unat a = 192 \<and> unat b = 0 \<and> unat c = 0"
    "block_Contains ([192, 0, 2, 0], 24) [a, b, c, d] \<longleftrightarrow> unat a = 192 \<and> unat b = 0 \<and> unat c = 2"
    "block_Contains ([198, 18, 0, 0], 15) [a, b, c, d] \<longleftrightarrow> unat a = 198 \<and> unat b div 2 = 9"
    "block_Contains ([198, 51, 100, 0], 24) [a, b, c, d] \<longleftrightarrow> unat a = 198 \<and> unat b = 51 \<and> unat c = 100"
    "block_Contains ([203, 0, 113, 0], 24) [a, b, c, d] \<longleftrightarrow> unat a = 203 \<and> unat b = 0 \<and> unat c = 113"
    "block_Contains ([224, 0, 0, 0], 4) [a, b, c, d] \<longleftrightarrow> unat a div 16 = 14"
    "block_Contains ([240, 0, 0, 0], 4) [a, b, c, d] \<longleftrightarrow> unat a div 16 = 15"
    by (simp_all add: v4_blocks)
  have v6: "\<not> block_Contains (replicate 15 0 @ [1], 128) [a, b, c, d]" "\<not> block_Contains ([0xfe, 0x80] @ replicate 14 0, 10) [a, b, c, d]"
    "\<not> block_Contains (0xfc # replicate 15 0, 7) [a, b, c, d]" "\<not> block_Contains (0xff # replicate 15 0, 8) [a, b, c, d]"
    "\<not> block_Contains (replicate 16 0, 128) [a, b, c, d]"
    by (rule block_v6; simp)+
  have "list_ex (\<lambda>block. block_Contains block [a, b, c, d]) privateBlocks = private_v4 (unat a) (unat b) (unat c)"
    unfolding privateBlocks_def list_ex_Nil_iff list_ex_Cons_iff blocks div_ranges private_v4_def
    using v6 div_ranges(4) [OF unat_octet, of a] by argo
  moreover have "isPrivateIP (Some (v4_prefix @ [a, b, c, d])) = isPrivateIP (Some [a, b, c, d])"
    by (simp add: isPrivateIP_def To4_def v4_prefix_def)
  ultimately show ?thesis using four by simp
qed

lemma ip_bits_inj: "length a = length b \<Longrightarrow> ip_bits a = ip_bits b \<Longrightarrow> a = b"
  by (induction a b rule: list_induct2) (auto simp: ip_bits_def byte_bits_eq word_unat_eq_iff)

lemma length_ip_bits [simp]: "length (ip_bits ip) = 8 * length ip"
  by (induction ip) (simp_all add: ip_bits_def)

lemma v6_block_full: "To4 ip = None \<Longrightarrow> length ip = 16 \<Longrightarrow> block_Contains (base, 128) ip \<Longrightarrow> ip = base"
  by (auto simp: block_Contains_def intro: ip_bits_inj)

lemma v6_block_first:
  assumes "To4 (a # ip) = None" "7 \<le> n" "block_Contains (x # base, n) (a # ip)"
  shows "unat a div 2 = unat x div 2"
proof -
  have "take n (byte_bits a @ ip_bits ip) = take n (byte_bits x @ ip_bits base)"
    using assms by (simp add: block_Contains_def ip_bits_def)
  then have "take 7 (byte_bits a @ ip_bits ip) = take 7 (byte_bits x @ ip_bits base)"
    using assms(2) by (metis min.absorb1 take_take)
  then show ?thesis using take_byte_bits [of 7 a x] by simp
qed

lemma v6_public:
  assumes t: "To4 (a # ip) = None" and l: "length ip = 15" and a: "unat a < 252" and n: "a # ip \<noteq> replicate 15 0 @ [1]" "a # ip \<noteq> replicate 16 0"
  shows "\<not> isPrivateIP (Some (a # ip))"
proof -
  have four: "\<not> block_Contains ([x, y, z, w], k) (a # ip)" for x y z w k using t l by (simp add: block_Contains_def)
  have first: "\<not> block_Contains (x # base, k) (a # ip)" if "7 \<le> k" "252 \<le> unat x" for x base k
  proof
    assume "block_Contains (x # base, k) (a # ip)"
    from v6_block_first [OF t that(1) this] that(2) a show False by arith
  qed
  have "\<not> block_Contains (replicate 15 0 @ [1], 128) (a # ip)" "\<not> block_Contains (replicate 16 0, 128) (a # ip)"
    using v6_block_full [OF t, of "replicate 15 0 @ [1]"] v6_block_full [OF t, of "replicate 16 0"] l n by auto
  moreover have "\<not> block_Contains ([0xfe, 0x80] @ replicate 14 0, 10) (a # ip)" "\<not> block_Contains (0xfc # replicate 15 0, 7) (a # ip)"
    "\<not> block_Contains (0xff # replicate 15 0, 8) (a # ip)" by (simp_all add: first)
  ultimately show ?thesis using t unfolding isPrivateIP_def privateBlocks_def by (simp only: option.case Let_def list_ex_Cons_iff list_ex_Nil_iff four) simp
qed

text \<open>
  Addresses that embed a private IPv4 address in IPv6 other than by the standard mapping are taken for public ones: the NAT64 address
  of the loopback interface (\<open>64:ff9b::127.0.0.1\<close>) and its deprecated IPv4-compatible form (\<open>::127.0.0.1\<close>) are outside all blocks.
\<close>

theorem embedded_loopback_public:
  "\<not> isPrivateIP (Some ([0, 0x64, 0xff, 0x9b] @ replicate 8 0 @ [127, 0, 0, 1])) \<and> \<not> isPrivateIP (Some (replicate 12 0 @ [127, 0, 0, 1]))"
proof
  have r: "replicate 8 x = [x, x, x, x, x, x, x, x]" "replicate 10 x = [x, x, x, x, x, x, x, x, x, x]" "replicate 11 x = [x, x, x, x, x, x, x, x, x, x, x]"
    "replicate 12 x = [x, x, x, x, x, x, x, x, x, x, x, x]" "replicate 15 x = [x, x, x, x, x, x, x, x, x, x, x, x, x, x, x]"
    "replicate 16 x = [x, x, x, x, x, x, x, x, x, x, x, x, x, x, x, x]" for x :: byte by (simp_all add: numeral_eq_Suc)
  have "\<not> isPrivateIP (Some (0 # ([0x64, 0xff, 0x9b] @ replicate 8 0 @ [127, 0, 0, 1])))"
    by (rule v6_public) (simp_all add: To4_def v4_prefix_def r)
  then show "\<not> isPrivateIP (Some ([0, 0x64, 0xff, 0x9b] @ replicate 8 0 @ [127, 0, 0, 1]))" by simp
  have "\<not> isPrivateIP (Some (0 # (replicate 11 0 @ [127, 0, 0, 1])))"
    by (rule v6_public) (simp_all add: To4_def v4_prefix_def r)
  then show "\<not> isPrivateIP (Some (replicate 12 0 @ [127, 0, 0, 1]))" by (simp add: r)
qed

section \<open>Bounds of a Get\<close>

lemma int64_small: "- (2 ^ 63) \<le> n \<Longrightarrow> n < 2 ^ 63 \<Longrightarrow> int64 n = n"
  by (simp add: int64_def)

lemma backoff_loop_bounds:
  assumes "0 < backoff" "backoff < 2 ^ 62" "0 < limit" "limit < 2 ^ 62"
  shows "0 < backoff_loop n limit backoff \<and> backoff_loop n limit backoff \<le> max limit backoff"
  using assms
proof (induction n limit backoff rule: backoff_loop.induct)
  case (2 n limit backoff)
  have e: "int64 (backoff * 2) = backoff * 2" using 2(2,3) by (intro int64_small) auto
  show ?case
  proof (cases "backoff * 2 \<ge> limit")
    case True
    then show ?thesis using 2 by (simp add: e)
  next
    case False
    then have "0 < backoff_loop n limit (backoff * 2) \<and> backoff_loop n limit (backoff * 2) \<le> max limit (backoff * 2)"
      using 2(1) [OF e [symmetric]] 2(2-5) by (simp add: e)
    with False show ?thesis by (simp add: e)
  qed
qed simp

lemma backoff_for_bounds:
  assumes "0 < hp_BackoffBase p" "hp_BackoffBase p < 2 ^ 62" "0 < hp_BackoffMax p" "hp_BackoffMax p < 2 ^ 62"
  shows "0 < backoff_for p n \<and> backoff_for p n \<le> hp_BackoffMax p"
  using backoff_loop_bounds [OF assms, of "n - 1"] assms by (auto simp: backoff_for_def Let_def)

definition max_wait :: "http_policy \<Rightarrow> duration" where
  "max_wait p = max (hp_MaxRetryAfterWait p) \<lfloor>rat_of_int (hp_BackoffMax p) * (1 + hp_BackoffJitter p)\<rfloor>"

lemma jittered_bounds:
  assumes "0 < b" "b \<le> limit" "0 \<le> j" "0 \<le> r" "r \<le> 1"
  shows "0 \<le> jittered j r b \<and> jittered j r b \<le> \<lfloor>rat_of_int limit * (1 + j)\<rfloor>"
proof -
  let ?b = "rat_of_int b" and ?l = "rat_of_int limit"
  let ?x = "?b - ?b * j + 2 * (?b * j) * r"
  have bl: "0 < ?b" "?b \<le> ?l" using assms by simp_all
  have "2 * (?b * j) * r \<le> 2 * (?b * j)" using assms bl by (simp add: mult_left_le)
  then have "?x \<le> ?b * (1 + j)" by (simp add: algebra_simps)
  also have "\<dots> \<le> ?l * (1 + j)" using bl assms by (intro mult_right_mono) simp_all
  finally have x: "?x \<le> ?l * (1 + j)" .
  then have "\<lfloor>?x\<rfloor> \<le> \<lfloor>?l * (1 + j)\<rfloor>" by (rule floor_mono)
  moreover have "0 \<le> \<lfloor>?l * (1 + j)\<rfloor>" using bl assms by simp
  ultimately show ?thesis by (auto simp: jittered_def Let_def)
qed

lemma retryDelay_bounds:
  assumes p: "0 < hp_BackoffBase p" "hp_BackoffBase p < 2 ^ 62" "0 < hp_BackoffMax p" "hp_BackoffMax p < 2 ^ 62" "0 \<le> hp_BackoffJitter p"
    and r: "0 \<le> r" "r \<le> 1" and d: "retryDelay p r attempt e = Inr w"
  shows "0 \<le> w \<and> w \<le> max_wait p"
proof -
  note j = jittered_bounds [OF conjunct1 [OF backoff_for_bounds [OF p(1-4)]] conjunct2 [OF backoff_for_bounds [OF p(1-4)]] p(5) r, of attempt]
  from d show ?thesis using j by (auto simp: retryDelay_def max_wait_def Let_def split: if_splits get_err.splits)
qed

text \<open>The bounds a policy has after normalisation, if its delays are below 146 years.\<close>

definition policy_ok :: "http_policy \<Rightarrow> bool" where
  "policy_ok p \<longleftrightarrow> 0 < hp_BackoffBase p \<and> hp_BackoffBase p < 2 ^ 62 \<and> 0 < hp_BackoffMax p \<and> hp_BackoffMax p < 2 ^ 62 \<and>
     0 \<le> hp_BackoffJitter p \<and> 0 \<le> hp_MaxRetries p"

definition get_ok :: "http_policy \<Rightarrow> (get_err + http_response) \<times> duration list \<Rightarrow> bool" where
  "get_ok p res \<longleftrightarrow> list_all (\<lambda>w. 0 \<le> w \<and> w \<le> max_wait p) (snd res) \<and> int (length (snd res)) \<le> hp_MaxRetries p \<and>
     (case fst res of Inl _ \<Rightarrow> True | Inr resp \<Rightarrow> rs_Attempts resp = int (length (snd res)) + 1)"

lemma get_loop_bounds:
  assumes "policy_ok p" "\<And>k. 0 \<le> ge_random ge k \<and> ge_random ge k \<le> 1" "length waits = attempt - 1"
    "list_all (\<lambda>w. 0 \<le> w \<and> w \<le> max_wait p) waits" "int attempt \<le> hp_MaxRetries p + 1"
  shows "get_ok p (get_loop uni until p optMax ge attempt e waits)"
  using assms
proof (induction uni until p optMax ge attempt e waits rule: get_loop.induct)
  case (1 uni until p optMax ge attempt lastErr waits)
  show ?case
  proof (cases "int attempt > hp_MaxRetries p")
    case True
    then show ?thesis using 1(4-6) 1(2) by (auto simp: get_loop.simps [of uni until p optMax ge attempt] get_ok_def policy_ok_def)
  next
    case False
    let ?d = "if attempt > 0 then retryDelay p (ge_random ge attempt) attempt lastErr else Inr 0"
    show ?thesis
    proof (cases ?d)
      case (Inl err)
      then show ?thesis using False 1(4-6) 1(2) by (auto simp: get_loop.simps [of uni until p optMax ge attempt] get_ok_def policy_ok_def)
    next
      case (Inr wait)
      let ?w = "if attempt > 0 then waits @ [wait] else waits"
      have w: "0 \<le> wait \<and> wait \<le> max_wait p" if "attempt > 0"
        using retryDelay_bounds [of p "ge_random ge attempt" attempt lastErr wait] 1(2,3) Inr that by (simp add: policy_ok_def)
      have ws: "list_all (\<lambda>w. 0 \<le> w \<and> w \<le> max_wait p) ?w" "length ?w = attempt" using 1(4,5) w by auto
      show ?thesis
      proof (cases "attempt > 0 \<and> ge_done ge attempt")
        case True
        then show ?thesis using False Inr ws by (simp add: get_loop.simps [of uni until p optMax ge attempt] get_ok_def)
      next
        case nd: False
        show ?thesis
        proof (cases "getOnce until p optMax (ge_reply ge attempt)")
          case ok: (Inr resp)
          then show ?thesis using False Inr nd ws
            by (auto simp: get_loop.simps [of uni until p optMax ge attempt] get_ok_def Let_def)
        next
          case err: (Inl err)
          show ?thesis
          proof (cases "retryableErr uni err")
            case True
            have "get_ok p (get_loop uni until p optMax ge (attempt + 1) err ?w)"
              by (rule 1(1) [OF False Inr refl nd err]) (use True 1(2,3) ws False in auto)
            moreover have "get_loop uni until p optMax ge attempt lastErr waits = get_loop uni until p optMax ge (attempt + 1) err ?w"
              using False Inr nd err True by (auto simp: get_loop.simps [of uni until p optMax ge attempt lastErr] Let_def)
            ultimately show ?thesis by simp
          next
            case nr: False
            then show ?thesis using False Inr nd err ws
              by (auto simp: get_loop.simps [of uni until p optMax ge attempt] get_ok_def Let_def)
          qed
        qed
      qed
    qed
  qed
qed

text \<open>
  A \<open>Get\<close> with a normalised policy makes at most \<open>MaxRetries + 1\<close> attempts, waits at most \<open>MaxRetries\<close> times, and every wait
  is between zero and the larger of the Retry-After cap and the backoff cap with its jitter; a response counts its attempts exactly.
\<close>

theorem get_bounded:
  assumes "hp_BackoffBase p0 < 2 ^ 62" "hp_BackoffMax p0 < 2 ^ 62" "\<And>k. 0 \<le> ge_random ge k \<and> ge_random ge k \<le> 1"
  shows "get_ok (policy_normalize p0) (Get uni until preGet (policy_normalize p0) optMax ge url)"
proof -
  have ok: "policy_ok (policy_normalize p0)" using assms(1,2) by (auto simp: policy_ok_def policy_normalize_def second_def)
  then have "0 \<le> hp_MaxRetries (policy_normalize p0)" by (simp add: policy_ok_def)
  then show ?thesis using get_loop_bounds [OF ok assms(3), of "[]" 0 uni until optMax "ErrURL False"]
    by (auto simp: Get_def get_ok_def split: option.splits)
qed

theorem get_bounded_witness:
  "get_ok (policy_normalize \<lparr>hp_RequestTimeout = 0, hp_DialTimeout = 0, hp_TLSHandshakeTimeout = 0, hp_ResponseHeaderTimeout = 0,
       hp_MaxIdleConnsPerHost = 0, hp_IdleConnTimeout = 0, hp_MaxRetries = 0, hp_BackoffBase = 0, hp_BackoffMax = 0, hp_BackoffJitter = 0,
       hp_MaxRetryAfterWait = 0, hp_MaxBodyBytes = 0\<rparr>)
     (Get id (\<lambda>_. None) (\<lambda>_. None) (policy_normalize \<lparr>hp_RequestTimeout = 0, hp_DialTimeout = 0, hp_TLSHandshakeTimeout = 0, hp_ResponseHeaderTimeout = 0,
       hp_MaxIdleConnsPerHost = 0, hp_IdleConnTimeout = 0, hp_MaxRetries = 0, hp_BackoffBase = 0, hp_BackoffMax = 0, hp_BackoffJitter = 0,
       hp_MaxRetryAfterWait = 0, hp_MaxBodyBytes = 0\<rparr>) 0
       \<lparr>ge_reply = (\<lambda>_. Reply 503 ''1'' (Inr [])), ge_random = (\<lambda>_. 0), ge_done = (\<lambda>_. False)\<rparr> ''https://example.org/'')"
  by (rule get_bounded) simp_all

lemma space_rune_ends:
  assumes "r \<in> set space_runes"
  shows "(of_char (hd r) :: nat) < 48 \<or> 57 < (of_char (hd r) :: nat)" "(of_char (last r) :: nat) < 48 \<or> 57 < (of_char (last r) :: nat)"
  using assms by (auto simp: space_runes_def)

lemma no_rune_prefix:
  assumes "s \<noteq> []" "char_digit (hd s) \<noteq> None" "\<And>r. r \<in> set rs \<Longrightarrow> char_digit (hd r) = None"
  shows "rune_prefix rs s = None"
proof (rule ccontr)
  assume "rune_prefix rs s \<noteq> None"
  then obtain r where "rune_prefix rs s = Some r" by blast
  from rune_prefix_SomeD [OF this] have r: "r \<in> set rs" "r \<noteq> []" "s = r @ drop (length r) s" by auto
  then have "hd s = hd r" by (metis hd_append2)
  with assms(2) assms(3) [OF r(1)] show False by simp
qed

lemma TrimSpace_digits:
  assumes "s \<noteq> []" "char_digit (hd s) \<noteq> None" "char_digit (last s) \<noteq> None"
  shows "TrimSpace s = s"
  unfolding TrimSpace_fixed_iff
proof
  show "rune_prefix space_runes s = None"
  proof (rule no_rune_prefix [OF assms(1,2)])
    show "char_digit (hd r) = None" if "r \<in> set space_runes" for r using space_rune_ends(1) [OF that] by (auto simp: char_digit_def)
  qed
  have "char_digit (hd r) = None" if "r \<in> set (map rev space_runes)" for r
  proof -
    obtain r' where r': "r' \<in> set space_runes" "r = rev r'" using \<open>r \<in> set (map rev space_runes)\<close> by auto
    then show ?thesis using space_rune_ends(2) [OF r'(1)] by (cases "r' = []") (auto simp: char_digit_def hd_rev space_runes_def)
  qed
  then show "rune_prefix (map rev space_runes) (rev s) = None"
    using assms by (intro no_rune_prefix) (auto simp: hd_rev)
qed

text \<open>
  The seconds of a Retry-After header are multiplied into nanoseconds without a check: a server that asks for 18446744074 seconds
  is retried after less than a third of a second, and one that asks for 9223372037 seconds as if it had sent no header.
\<close>

theorem retry_after_wraps:
  "parseRetryAfter until ''18446744074'' = 290448384 \<and> parseRetryAfter until ''9223372037'' < 0"
proof -
  have t: "TrimSpace ''18446744074'' = ''18446744074''" "TrimSpace ''9223372037'' = ''9223372037''" by (rule TrimSpace_digits; simp add: char_digit_def)+
  have a: "Atoi ''18446744074'' = Some 18446744074" "Atoi ''9223372037'' = Some 9223372037" by (simp_all add: Atoi_def char_digit_def)
  show ?thesis by (simp add: parseRetryAfter_def t a Let_def int64_def second_def)
qed

end
