(* ===== verification/UnixPath.thy ===== *)
theory UnixPath
  imports GoStrings
begin

text \<open>
  The functions of \<open>path/filepath\<close> on Unix that \<open>internal/safearchive\<close> calls: \<open>Clean\<close>, \<open>Join\<close>, \<open>Rel\<close>, \<open>Dir\<close>
  and \<open>Base\<close>. A path is read as whether it is rooted and the list of its elements; cleaned
  element lists are zero or more \<open>..\<close> followed by ordinary names.
\<close>

section \<open>Definitions\<close>

abbreviation slash :: char where "slash \<equiv> CHR ''/''"

fun clean_elems :: "bool \<Rightarrow> string list \<Rightarrow> string list \<Rightarrow> string list" where
  "clean_elems rooted out [] = out"
| "clean_elems rooted out (e # es) =
     (if e = [] \<or> e = ''.'' then clean_elems rooted out es
      else if e = ''..'' then
        (if out \<noteq> [] \<and> last out \<noteq> ''..'' then clean_elems rooted (butlast out) es
         else if rooted then clean_elems rooted out es
         else clean_elems rooted (out @ [''..'']) es)
      else clean_elems rooted (out @ [e]) es)"

definition is_rooted :: "string \<Rightarrow> bool" where
  "is_rooted path \<longleftrightarrow> path \<noteq> [] \<and> hd path = slash"

definition path_string :: "bool \<Rightarrow> string list \<Rightarrow> string" where
  "path_string rooted es =
     (if rooted then slash # str_join [slash] es else if es = [] then ''.'' else str_join [slash] es)"

definition path_elems :: "string \<Rightarrow> string list" where
  "path_elems path = clean_elems (is_rooted path) [] (split_char slash path)"

definition path_Clean :: "string \<Rightarrow> string" where
  "path_Clean path = path_string (is_rooted path) (path_elems path)"

definition path_Join :: "string \<Rightarrow> string \<Rightarrow> string" where
  "path_Join a b = (if a \<noteq> [] then path_Clean (a @ [slash] @ b) else if b \<noteq> [] then path_Clean b else [])"

fun strip_common :: "string list \<Rightarrow> string list \<Rightarrow> string list \<times> string list" where
  "strip_common (b # bs) (t # ts) = (if b = t then strip_common bs ts else (b # bs, t # ts))"
| "strip_common bs ts = (bs, ts)"

definition rel_elems :: "string \<Rightarrow> string list" where
  "rel_elems path = (let p = (if is_rooted path then tl path else path) in if p = [] then [] else split_char slash p)"

definition path_Rel :: "string \<Rightarrow> string \<Rightarrow> string option" where
  "path_Rel basepath targpath =
     (let base0 = path_Clean basepath; targ = path_Clean targpath in
      if targ = base0 then Some ''.''
      else
        let base = (if base0 = ''.'' then [] else base0) in
        if is_rooted base \<noteq> is_rooted targ then None
        else case strip_common (rel_elems base) (rel_elems targ) of (bs, ts) \<Rightarrow>
          if bs \<noteq> [] \<and> ts \<noteq> [] \<and> hd bs = ''..'' then None
          else Some (str_join [slash] (replicate (length bs) ''..'' @ ts)))"

definition path_Dir :: "string \<Rightarrow> string" where
  "path_Dir path = path_Clean (rev (dropWhile (\<lambda>c. c \<noteq> slash) (rev path)))"

definition path_Base :: "string \<Rightarrow> string" where
  "path_Base path =
     (if path = [] then ''.''
      else let stripped = rev (dropWhile (\<lambda>c. c = slash) (rev path));
               base = rev (takeWhile (\<lambda>c. c \<noteq> slash) (rev stripped))
           in if base = [] then [slash] else base)"

section \<open>Elements\<close>

definition path_elem :: "string \<Rightarrow> bool" where
  "path_elem e \<longleftrightarrow> e \<noteq> [] \<and> e \<noteq> ''.'' \<and> e \<noteq> ''..'' \<and> slash \<notin> set e"

definition cleaned :: "bool \<Rightarrow> string list \<Rightarrow> bool" where
  "cleaned rooted es \<longleftrightarrow>
     (\<exists>k ns. es = replicate k ''..'' @ ns \<and> list_all path_elem ns \<and> (rooted \<longrightarrow> k = 0))"

lemma split_char_elems: "e \<in> set (split_char d s) \<Longrightarrow> d \<notin> set e"
  by (induction d s arbitrary: e rule: split_char.induct) (auto split: if_splits list.splits)

lemma split_char_append_gen: "split_char d (a @ d # b) = split_char d a @ split_char d b"
  by (induction a) (auto split: list.split simp: neq_Nil_conv)

lemma clean_elems_append: "clean_elems r out (es @ fs) = clean_elems r (clean_elems r out es) fs"
  by (induction r out es rule: clean_elems.induct) auto

lemma clean_elems_names: "list_all path_elem ns \<Longrightarrow> clean_elems r out ns = out @ ns"
  by (induction ns arbitrary: out) (auto simp: path_elem_def)

lemma cleanedI: "list_all path_elem ns \<Longrightarrow> (r \<longrightarrow> k = 0) \<Longrightarrow> cleaned r (replicate k ''..'' @ ns)"
  by (auto simp: cleaned_def)

lemma cleaned_Nil [simp]: "cleaned r []"
  using cleanedI [of "[]" r 0] by simp

lemma cleaned_append:
  assumes "cleaned r es" "list_all path_elem ns"
  shows "cleaned r (es @ ns)"
proof -
  from assms(1) obtain k ms where es: "es = replicate k ''..'' @ ms" "list_all path_elem ms" "r \<longrightarrow> k = 0" by (auto simp: cleaned_def)
  then show ?thesis using cleanedI [of "ms @ ns" r k] assms(2) by simp
qed

lemma cleaned_snoc: "cleaned r es \<Longrightarrow> path_elem e \<Longrightarrow> cleaned r (es @ [e])"
  by (rule cleaned_append) simp_all

lemma cleaned_butlast:
  assumes "cleaned r es" "es \<noteq> []" "last es \<noteq> ''..''"
  shows "cleaned r (butlast es)"
proof -
  from assms(1) obtain k ns where es: "es = replicate k ''..'' @ ns" "list_all path_elem ns" "r \<longrightarrow> k = 0" by (auto simp: cleaned_def)
  have "ns \<noteq> []" using assms(2,3) es(1) by (auto simp: last_replicate)
  then have "butlast es = replicate k ''..'' @ butlast ns" using es(1) by (simp add: butlast_append)
  moreover have "list_all path_elem (butlast ns)" using es(2) by (auto simp: list_all_iff dest: in_set_butlastD)
  ultimately show ?thesis using es(3) by (auto simp: cleaned_def)
qed

lemma cleaned_up:
  assumes "cleaned False es" "es = [] \<or> last es = ''..''"
  shows "cleaned False (es @ [''..''])"
proof -
  from assms(1) obtain k ns where es: "es = replicate k ''..'' @ ns" "list_all path_elem ns" by (auto simp: cleaned_def)
  have "ns = []" using assms(2) es by (cases ns rule: rev_cases) (auto simp: path_elem_def)
  then have "es @ [''..''] = replicate (Suc k) ''..'' @ []" using es(1) by (simp add: replicate_append_same)
  then show ?thesis using cleanedI [of "[]" False "Suc k"] by simp
qed

lemma clean_elems_cleaned:
  "cleaned r out \<Longrightarrow> (\<And>e. e \<in> set es \<Longrightarrow> slash \<notin> set e) \<Longrightarrow> cleaned r (clean_elems r out es)"
proof (induction r out es rule: clean_elems.induct)
  case (2 r out e es)
  have fresh: "slash \<notin> set e" "\<And>x. x \<in> set es \<Longrightarrow> slash \<notin> set x" using 2(7) by simp_all
  consider (skip) "e = [] \<or> e = ''.''" | (up) "e = ''..''" | (name) "path_elem e" using fresh(1) by (auto simp: path_elem_def)
  then show ?case
  proof cases
    case up
    consider (pop) "out \<noteq> []" "last out \<noteq> ''..''" | (root) "out = [] \<or> last out = ''..''" "r" | (push) "out = [] \<or> last out = ''..''" "\<not> r" by blast
    then show ?thesis
    proof cases
      case pop
      then show ?thesis using up 2(2) [OF _ _ _ cleaned_butlast [OF 2(6) pop] fresh(2)] by simp
    next
      case root
      then show ?thesis using up 2(3) [OF _ _ _ _ 2(6) fresh(2)] by auto
    next
      case push
      then have "cleaned r (out @ [''..''])" using cleaned_up [of out] 2(6) by simp
      then show ?thesis using push up 2(4) [OF _ _ _ _ _ fresh(2)] by auto
    qed
  next
    case name
    then have "\<not> (e = [] \<or> e = ''.'')" "e \<noteq> ''..''" by (auto simp: path_elem_def)
    then show ?thesis using 2(5) [OF _ _ cleaned_snoc [OF 2(6) name] fresh(2)] by simp
  qed (use 2(1) [OF _ 2(6) fresh(2)] in simp)
qed simp

lemma path_elems_cleaned: "cleaned (is_rooted path) (path_elems path)"
  unfolding path_elems_def by (rule clean_elems_cleaned [OF cleaned_Nil split_char_elems])

lemma cleaned_fresh: "cleaned r es \<Longrightarrow> e \<in> set es \<Longrightarrow> slash \<notin> set e \<and> e \<noteq> []"
proof -
  assume c: "cleaned r es" and e: "e \<in> set es"
  from c obtain k ns where es: "es = replicate k ''..'' @ ns" "list_all path_elem ns" by (auto simp: cleaned_def)
  from e es(1) consider "e = ''..''" | "e \<in> set ns" by (auto split: if_splits)
  then show ?thesis
  proof cases
    case 2
    with es(2) have "path_elem e" by (simp add: list_all_iff)
    then show ?thesis by (simp add: path_elem_def)
  qed simp
qed

lemma clean_elems_dots: "\<not> r \<Longrightarrow> (\<forall>x \<in> set out. x = ''..'') \<Longrightarrow> clean_elems r out (replicate k ''..'') = out @ replicate k ''..''"
proof (induction k arbitrary: out)
  case (Suc k)
  have "clean_elems r out (replicate (Suc k) ''..'') = clean_elems r (out @ [''..'']) (replicate k ''..'')"
    using Suc(2,3) by (cases out rule: rev_cases) simp_all
  then show ?case using Suc(1) [of "out @ [''..'']"] Suc(2,3) by simp
qed simp

lemma clean_elems_fixed:
  assumes "cleaned r es"
  shows "clean_elems r [] es = es"
proof -
  from assms obtain k ns where es: "es = replicate k ''..'' @ ns" "list_all path_elem ns" "r \<longrightarrow> k = 0" by (auto simp: cleaned_def)
  have "clean_elems r [] (replicate k ''..'') = replicate k ''..''" using es(3) clean_elems_dots [of r "[]" k] by (cases r) auto
  with es show ?thesis by (simp add: clean_elems_append clean_elems_names)
qed

section \<open>Paths\<close>

lemma str_join_append:
  assumes "es \<noteq> []" "fs \<noteq> []"
  shows "str_join [slash] (es @ fs) = str_join [slash] es @ slash # str_join [slash] fs"
  using assms(1)
proof (induction "[slash]" es rule: str_join.induct)
  case (2 x)
  then show ?case using assms(2) by (cases fs) simp_all
qed simp_all

lemma str_join_head:
  assumes "es \<noteq> []" "\<And>e. e \<in> set es \<Longrightarrow> slash \<notin> set e \<and> e \<noteq> []"
  shows "str_join [slash] es \<noteq> [] \<and> hd (str_join [slash] es) \<noteq> slash"
proof -
  obtain c x fs where es: "es = (c # x) # fs" using assms by (metis list.exhaust list.set_intros(1))
  have "c \<noteq> slash" using assms(2) [of "c # x"] es by auto
  then show ?thesis using es by (cases fs) simp_all
qed

lemma is_rooted_string:
  assumes "cleaned r es"
  shows "is_rooted (path_string r es) = r"
proof (cases "r \<or> es = []")
  case False
  then show ?thesis using str_join_head [of es] cleaned_fresh [OF assms] by (simp add: path_string_def is_rooted_def)
qed (auto simp: path_string_def is_rooted_def)

lemma split_elems: "cleaned r es \<Longrightarrow> es \<noteq> [] \<Longrightarrow> split_char slash (str_join [slash] es) = es"
  by (rule split_join) (simp_all add: cleaned_fresh)

lemma path_elems_string:
  assumes "cleaned r es"
  shows "path_elems (path_string r es) = es"
proof (cases "es = []")
  case True
  then show ?thesis by (simp add: path_elems_def path_string_def)
next
  case False
  then have "clean_elems r [] (split_char slash (path_string r es)) = clean_elems r [] es"
    using split_elems [OF assms False] by (simp add: path_string_def)
  then show ?thesis using is_rooted_string [OF assms] clean_elems_fixed [OF assms] by (simp add: path_elems_def)
qed

lemma Clean_string: "cleaned r es \<Longrightarrow> path_Clean (path_string r es) = path_string r es"
  by (simp add: path_Clean_def is_rooted_string path_elems_string)

lemma Clean_idem: "path_Clean (path_Clean path) = path_Clean path"
  using Clean_string [OF path_elems_cleaned] by (simp add: path_Clean_def)

lemma path_elem_fresh: "list_all path_elem ns \<Longrightarrow> e \<in> set ns \<Longrightarrow> slash \<notin> set e \<and> e \<noteq> []"
  by (simp add: list_all_iff path_elem_def)

lemma Join_names:
  assumes "list_all path_elem ns" "ns \<noteq> []"
  shows "path_Join dst (str_join [slash] ns) = path_string (is_rooted dst) (path_elems dst @ ns)"
proof -
  have sp: "split_char slash (str_join [slash] ns) = ns" using assms by (intro split_join) (simp_all add: path_elem_fresh)
  show ?thesis
  proof (cases "dst = []")
    case True
    have "is_rooted (str_join [slash] ns) = False" "str_join [slash] ns \<noteq> []"
      using str_join_head [of ns] assms path_elem_fresh by (auto simp: is_rooted_def)
    then show ?thesis using True sp clean_elems_names [OF assms(1)]
      by (simp add: path_Join_def path_Clean_def path_elems_def is_rooted_def)
  next
    case False
    then have "is_rooted (dst @ slash # str_join [slash] ns) = is_rooted dst" by (simp add: is_rooted_def)
    then show ?thesis using False sp clean_elems_names [OF assms(1)]
      by (simp add: path_Join_def path_Clean_def path_elems_def split_char_append_gen clean_elems_append)
  qed
qed

text \<open>The paths whose cleaned form has no element are the current directory and the root.\<close>

lemma Clean_degenerate: "path_Clean path = ''.'' \<or> path_Clean path = ''/'' \<longleftrightarrow> path_elems path = []"
proof (cases "path_elems path = []")
  case True
  then show ?thesis by (simp add: path_Clean_def path_string_def)
next
  case False
  note c = path_elems_cleaned [of path]
  have "path_Clean path \<noteq> path_string b []" for b
  proof
    assume e: "path_Clean path = path_string b []"
    have "path_elems (path_Clean path) = path_elems path" using path_elems_string [OF c] by (simp add: path_Clean_def)
    moreover have "path_elems (path_string b []) = []" by (simp add: path_elems_string)
    ultimately show False using e False by simp
  qed
  from this [of True] this [of False] False show ?thesis by (simp add: path_string_def)
qed

lemma string_append: "es \<noteq> [] \<Longrightarrow> ns \<noteq> [] \<Longrightarrow> path_string r (es @ ns) = path_string r es @ slash # str_join [slash] ns"
  by (simp add: path_string_def str_join_append)

lemma rel_elems_string:
  assumes "cleaned r es" "r \<or> es \<noteq> []"
  shows "rel_elems (path_string r es) = es"
proof -
  have j: "str_join [slash] es = [] \<longleftrightarrow> es = []" using str_join_head [of es] cleaned_fresh [OF assms(1)] by (cases "es = []") auto
  show ?thesis using is_rooted_string [OF assms(1)] split_elems [OF assms(1)] assms(2) j
    by (cases "es = []") (auto simp: rel_elems_def path_string_def)
qed

lemma strip_common_append: "strip_common bs (bs @ ts) = ([], ts)"
  by (induction bs) (cases ts; simp)+

lemma Rel_names:
  assumes "list_all path_elem ns" "ns \<noteq> []"
  shows "path_Rel (path_Clean dst) (path_string (is_rooted dst) (path_elems dst @ ns)) = Some (str_join [slash] ns)"
proof -
  let ?r = "is_rooted dst" and ?es = "path_elems dst"
  have c: "cleaned ?r ?es" by (rule path_elems_cleaned)
  have ct: "cleaned ?r (?es @ ns)" by (rule cleaned_append [OF c assms(1)])
  have base: "path_Clean (path_Clean dst) = path_string ?r ?es" by (simp only: Clean_idem) (simp add: path_Clean_def)
  have targ: "path_Clean (path_string ?r (?es @ ns)) = path_string ?r (?es @ ns)" by (rule Clean_string [OF ct])
  have ne: "path_string ?r (?es @ ns) \<noteq> path_string ?r ?es"
    using path_elems_string [OF c] path_elems_string [OF ct] assms(2) by (metis append_self_conv)
  let ?b = "if path_string ?r ?es = ''.'' then [] else path_string ?r ?es"
  have dot: "path_string ?r ?es = ''.'' \<longleftrightarrow> \<not> ?r \<and> ?es = []"
    using is_rooted_string [OF c] Clean_degenerate [of dst] by (auto simp: path_Clean_def path_string_def is_rooted_def)
  have rb: "is_rooted ?b = ?r" using dot is_rooted_string [OF c] by (auto simp: is_rooted_def)
  have eb: "rel_elems ?b = ?es" using dot rel_elems_string [OF c] by (auto simp: rel_elems_def is_rooted_def)
  have et: "rel_elems (path_string ?r (?es @ ns)) = ?es @ ns" using rel_elems_string [OF ct] assms(2) by simp
  show ?thesis
    using ne by (simp add: path_Rel_def base targ Let_def rb eb et is_rooted_string [OF ct] strip_common_append del: if_split) 
qed

text \<open>The directory of a path below a directory.\<close>

lemma Dir_names:
  assumes "list_all path_elem ns" "ns \<noteq> []" "cleaned r es" "es \<noteq> []"
  shows "path_Dir (path_string r (es @ ns)) = path_string r (es @ butlast ns)"
proof -
  have f: "slash \<notin> set (last ns)" using assms(1,2) path_elem_fresh by simp
  have ns: "es @ ns = (es @ butlast ns) @ [last ns]" using assms(2) by simp
  have cb: "cleaned r (es @ butlast ns)" using assms(1,3) by (intro cleaned_append) (auto simp: list_all_iff dest: in_set_butlastD)
  have "path_string r (es @ ns) = path_string r (es @ butlast ns) @ slash # last ns"
    using string_append [of "es @ butlast ns" "[last ns]" r] assms(4) ns by simp
  then have "rev (dropWhile (\<lambda>c. c \<noteq> slash) (rev (path_string r (es @ ns)))) = path_string r (es @ butlast ns) @ [slash]"
    using f by (simp add: dropWhile_append)
  moreover have "path_Clean (path_string r (es @ butlast ns) @ [slash]) = path_string r (es @ butlast ns)"
  proof -
    let ?p = "path_string r (es @ butlast ns)"
    have "?p \<noteq> []" by (simp add: path_string_def assms(4)) (use str_join_head [of "es @ butlast ns"] cleaned_fresh [OF cb] assms(4) in auto)
    then have "is_rooted (?p @ [slash]) = r" using is_rooted_string [OF cb] by (simp add: is_rooted_def)
    moreover have "clean_elems r [] (split_char slash (?p @ [slash])) = es @ butlast ns"
      using path_elems_string [OF cb] is_rooted_string [OF cb] by (simp add: split_char_append_gen clean_elems_append path_elems_def)
    ultimately show ?thesis by (simp add: path_Clean_def path_elems_def)
  qed
  ultimately show ?thesis by (simp add: path_Dir_def)
qed

end
