(* ===== verification/SafeArchive.thy ===== *)
theory SafeArchive
  imports UnixPath ConfigData
begin

text \<open>
  Bounded archive extraction (\<open>internal/safearchive/safearchive.go\<close>) on Unix: the validation of entry names, their
  resolution below the destination, the bounded writer, and the walks over zip, tar and single-file gzip archives.
  The archive decoders of the standard library are represented by what they deliver: entries with their headers, and
  streams of bytes that end regularly or with an error. The operating system decides, at each call, whether it succeeds
  and how much can be written. File modes are left out.
\<close>

section \<open>Limits and errors\<close>

record arch_limits =
  al_MaxArchiveBytes :: int
  al_MaxTotalBytes :: int
  al_MaxFileBytes :: int
  al_MaxFiles :: int

definition DefaultLimits :: arch_limits where
  "DefaultLimits =
     \<lparr>al_MaxArchiveBytes = 512 * 2 ^ 20, al_MaxTotalBytes = 2 * 2 ^ 30, al_MaxFileBytes = 1 * 2 ^ 30, al_MaxFiles = 4096\<rparr>"

datatype arch_err = ErrLimit | ErrOS | ErrArchive

section \<open>Entry names\<close>

definition maxEntryComponentBytes :: nat where "maxEntryComponentBytes = 255"

definition maxEntryPathBytes :: nat where "maxEntryPathBytes = 4096"

definition windowsReservedNames :: "string list" where
  "windowsReservedNames =
     [''CON'', ''PRN'', ''AUX'', ''NUL'', ''COM1'', ''COM2'', ''COM3'', ''COM4'', ''COM5'', ''COM6'', ''COM7'', ''COM8'', ''COM9'',
      ''LPT1'', ''LPT2'', ''LPT3'', ''LPT4'', ''LPT5'', ''LPT6'', ''LPT7'', ''LPT8'', ''LPT9'']"

abbreviation backslash :: char where "backslash \<equiv> CHR 0x5C"

definition isASCIIAlpha :: "char \<Rightarrow> bool" where
  "isASCIIAlpha c \<longleftrightarrow>
     65 \<le> (of_char c :: nat) \<and> (of_char c :: nat) \<le> 90 \<or> 97 \<le> (of_char c :: nat) \<and> (of_char c :: nat) \<le> 122"

definition toUpperASCII :: "char \<Rightarrow> char" where
  "toUpperASCII c = (if 97 \<le> (of_char c :: nat) \<and> (of_char c :: nat) \<le> 122 then char_of (of_char c - 32 :: nat) else c)"

fun hasPrefixFoldASCIISep :: "string \<Rightarrow> string \<Rightarrow> bool" where
  "hasPrefixFoldASCIISep s [] = True"
| "hasPrefixFoldASCIISep [] (p # ps) = False"
| "hasPrefixFoldASCIISep (c # s) (p # ps) =
     (if p = backslash \<or> p = slash then (c = backslash \<or> c = slash) \<and> hasPrefixFoldASCIISep s ps
      else toUpperASCII p = toUpperASCII c \<and> hasPrefixFoldASCIISep s ps)"

definition device_prefixes :: "string list" where
  "device_prefixes =
     [[backslash, backslash, CHR ''?'', backslash], [backslash, backslash, CHR ''.'', backslash],
      [backslash, CHR ''?'', CHR ''?'', backslash]]"

text \<open>\<open>strings.ToUpper\<close>: byte by byte on ASCII, the Unicode mapping otherwise.\<close>

definition ToUpper :: "(string \<Rightarrow> string) \<Rightarrow> string \<Rightarrow> string" where
  "ToUpper upr s = (if is_ascii s then map toUpperASCII s else upr s)"

definition reserved_element :: "(string \<Rightarrow> string) \<Rightarrow> string \<Rightarrow> bool" where
  "reserved_element upr element =
     (case str_index ''.'' element of
        Some dot \<Rightarrow> ToUpper upr (take dot element) \<in> set windowsReservedNames
      | None \<Rightarrow> ToUpper upr element \<in> set windowsReservedNames)"

fun walk_elements :: "(string \<Rightarrow> string) \<Rightarrow> string list \<Rightarrow> string list \<Rightarrow> arch_err + string list" where
  "walk_elements upr stack [] = Inr stack"
| "walk_elements upr stack (element # elements) =
     (if element = [] \<or> element = ''.'' then walk_elements upr stack elements
      else if element = ''..'' then (if stack = [] then Inl ErrLimit else walk_elements upr (butlast stack) elements)
      else if length element > maxEntryComponentBytes then Inl ErrLimit
      else if last element = CHR ''.'' \<or> last element = CHR '' '' then Inl ErrLimit
      else if reserved_element upr element then Inl ErrLimit
      else walk_elements upr (stack @ [element]) elements)"

definition control_char :: "char \<Rightarrow> bool" where
  "control_char c \<longleftrightarrow> (of_char c :: nat) < 0x20 \<or> (of_char c :: nat) = 0x7f"

definition canonical_name :: "string \<Rightarrow> string" where
  "canonical_name name = map (\<lambda>c. if c = backslash then slash else c) name"

definition validateArchiveEntry :: "(string \<Rightarrow> string) \<Rightarrow> string \<Rightarrow> bool \<Rightarrow> arch_err + string" where
  "validateArchiveEntry upr name isDir =
     (if name = [] then (if isDir then Inr [] else Inl ErrLimit)
      else if length name > maxEntryPathBytes then Inl ErrLimit
      else if list_ex control_char name then Inl ErrLimit
      else if list_ex (hasPrefixFoldASCIISep name) device_prefixes then Inl ErrLimit
      else
        let canon = canonical_name name in
        if HasPrefix canon ''/'' then Inl ErrLimit
        else if length canon \<ge> 2 \<and> isASCIIAlpha (canon ! 0) \<and> canon ! 1 = CHR '':'' then Inl ErrLimit
        else if CHR '':'' \<in> set canon then Inl ErrLimit
        else case walk_elements upr [] (split_char slash canon) of
          Inl e \<Rightarrow> Inl e
        | Inr stack \<Rightarrow>
            if stack = [] then (if isDir then Inr [] else Inl ErrLimit)
            else
              let rel = str_join [slash] stack in
              if length rel > maxEntryPathBytes then Inl ErrLimit else Inr rel)"

definition safeJoin :: "(string \<Rightarrow> string) \<Rightarrow> string \<Rightarrow> string \<Rightarrow> bool \<Rightarrow> arch_err + string" where
  "safeJoin upr dst name isDir =
     (case validateArchiveEntry upr name isDir of
        Inl e \<Rightarrow> Inl e
      | Inr rel \<Rightarrow>
          if rel = [] then Inr (path_Clean dst)
          else
            let target = path_Join dst rel; root = path_Clean dst in
            case path_Rel root target of
              None \<Rightarrow> Inl ErrLimit
            | Some relOS \<Rightarrow>
                if relOS = ''..'' \<or> HasPrefix relOS ''../'' then Inl ErrLimit
                else if target \<noteq> root \<and> \<not> HasPrefix target (root @ ''/'') then Inl ErrLimit
                else Inr target)"

section \<open>Writing an entry\<close>

record extraction =
  ex_files :: "(string, bytes) gomap"
  ex_dirs :: "string list"
  ex_total :: int
  ex_entries :: int

definition ex_start :: extraction where
  "ex_start = \<lparr>ex_files = [], ex_dirs = [], ex_total = 0, ex_entries = 0\<rparr>"

record os_env =
  oe_mkdir :: "extraction \<Rightarrow> string \<Rightarrow> bool"
  oe_create :: "extraction \<Rightarrow> string \<Rightarrow> bool"
  oe_room :: "extraction \<Rightarrow> string \<Rightarrow> nat option"
  oe_close :: "extraction \<Rightarrow> string \<Rightarrow> bool"

datatype stream_end = StreamEOF | StreamErr

type_synonym stream = "bytes \<times> stream_end"

text \<open>\<open>io.CopyN\<close>: the bytes written, the stream that is left, and the error; it succeeds exactly when \<open>n\<close> bytes
  were written.\<close>

datatype copy_err = CopyEOF | CopyErr

definition copyN :: "nat option \<Rightarrow> nat \<Rightarrow> stream \<Rightarrow> bytes \<times> stream \<times> copy_err option" where
  "copyN room n r =
     (case r of (content, fin) \<Rightarrow>
        let k = min n (length content) in
        case room of
          Some m \<Rightarrow>
            if m < k then (take m content, (drop k content, fin), Some CopyErr)
            else (take k content, (drop k content, fin),
                  if k = n then None else Some (case fin of StreamEOF \<Rightarrow> CopyEOF | StreamErr \<Rightarrow> CopyErr))
        | None \<Rightarrow> (take k content, (drop k content, fin),
                  if k = n then None else Some (case fin of StreamEOF \<Rightarrow> CopyEOF | StreamErr \<Rightarrow> CopyErr)))"

definition mkdirAll :: "os_env \<Rightarrow> string \<Rightarrow> extraction \<Rightarrow> arch_err option \<times> extraction" where
  "mkdirAll os path st =
     (if oe_mkdir os st path then (None, st\<lparr>ex_dirs := ex_dirs st @ [path]\<rparr>) else (Some ErrOS, st))"

definition put_file :: "string \<Rightarrow> bytes \<Rightarrow> extraction \<Rightarrow> extraction" where
  "put_file path content st = st\<lparr>ex_files := gput path content (ex_files st)\<rparr>"

definition over_total :: "arch_limits \<Rightarrow> extraction \<Rightarrow> int \<Rightarrow> bool" where
  "over_total lims st n \<longleftrightarrow> al_MaxTotalBytes lims > 0 \<and> int64 (ex_total st + n) > al_MaxTotalBytes lims"

definition over_file :: "arch_limits \<Rightarrow> int \<Rightarrow> bool" where
  "over_file lims n \<longleftrightarrow> al_MaxFileBytes lims > 0 \<and> n > al_MaxFileBytes lims"

definition writeBounded ::
  "os_env \<Rightarrow> arch_limits \<Rightarrow> string \<Rightarrow> stream \<Rightarrow> int \<Rightarrow> extraction \<Rightarrow> arch_err option \<times> stream \<times> extraction" where
  "writeBounded os lims dst r declared st =
     (if over_file lims declared then (Some ErrLimit, r, st)
      else if over_total lims st declared then (Some ErrLimit, r, st)
      else if declared < 0 then (Some ErrLimit, r, st)
      else if declared = 0 then
        (if \<not> oe_create os st dst then (Some ErrOS, r, st)
         else (if oe_close os st dst then None else Some ErrOS, r, put_file dst [] st))
      else
        let limit0 = (if over_file lims declared then al_MaxFileBytes lims else declared);
            limit = (if over_total lims st limit0 then int64 (al_MaxTotalBytes lims - ex_total st) else limit0)
        in if limit < declared then (Some ErrLimit, r, st)
           else if \<not> oe_create os st dst then (Some ErrOS, r, st)
           else case copyN (oe_room os st dst) (nat limit) r of (written, rest, cerr) \<Rightarrow>
             let st1 = (put_file dst written st)\<lparr>ex_total := int64 (ex_total st + int (length written))\<rparr> in
             (case cerr of
                Some CopyEOF \<Rightarrow> Some ErrLimit
              | Some CopyErr \<Rightarrow> Some ErrArchive
              | None \<Rightarrow> if oe_close os st dst then None else Some ErrOS, rest, st1))"

section \<open>Zip archives\<close>

datatype entry_mode = ModeDir | ModeRegular | ModeSpecial

record zip_file =
  zf_Name :: string
  zf_Mode :: entry_mode
  zf_UncompressedSize64 :: nat
  zf_Open :: "stream option"

definition probe_clean :: "stream \<Rightarrow> bool" where
  "probe_clean r = (case r of (content, fin) \<Rightarrow> content = [] \<and> fin = StreamEOF)"

definition extractZipFile ::
  "(string \<Rightarrow> string) \<Rightarrow> os_env \<Rightarrow> arch_limits \<Rightarrow> string \<Rightarrow> zip_file \<Rightarrow> extraction \<Rightarrow> arch_err option \<times> extraction" where
  "extractZipFile upr os lims dst f st =
     (if zf_Mode f = ModeSpecial then (Some ErrLimit, st)
      else case safeJoin upr dst (zf_Name f) (zf_Mode f = ModeDir) of
        Inl e \<Rightarrow> (Some e, st)
      | Inr target \<Rightarrow>
          if zf_Mode f = ModeDir then mkdirAll os target st
          else case mkdirAll os (path_Dir target) st of
            (Some e, st1) \<Rightarrow> (Some e, st1)
          | (None, st1) \<Rightarrow>
              let declared = int64 (int (zf_UncompressedSize64 f)) in
              if over_file lims declared then (Some ErrLimit, st1)
              else if over_total lims st1 declared then (Some ErrLimit, st1)
              else case zf_Open f of
                None \<Rightarrow> (Some ErrArchive, st1)
              | Some rc \<Rightarrow>
                  (case writeBounded os lims target rc declared st1 of
                     (Some e, _, st2) \<Rightarrow> (Some e, st2)
                   | (None, rest, st2) \<Rightarrow> (if probe_clean rest then None else Some ErrLimit, st2)))"

fun extract_all ::
  "('e \<Rightarrow> extraction \<Rightarrow> arch_err option \<times> extraction) \<Rightarrow> 'e list \<Rightarrow> extraction \<Rightarrow> arch_err option \<times> extraction" where
  "extract_all extract [] st = (None, st)"
| "extract_all extract (f # fs) st =
     (case extract f st of (Some e, st1) \<Rightarrow> (Some e, st1) | (None, st1) \<Rightarrow> extract_all extract fs st1)"

definition unpackZip ::
  "(string \<Rightarrow> string) \<Rightarrow> os_env \<Rightarrow> arch_limits \<Rightarrow> string \<Rightarrow> zip_file list option \<Rightarrow> extraction \<Rightarrow> arch_err option \<times> extraction" where
  "unpackZip upr os lims dst reader st =
     (case reader of
        None \<Rightarrow> (Some ErrArchive, st)
      | Some files \<Rightarrow>
          if al_MaxFiles lims > 0 \<and> int (length files) > al_MaxFiles lims then (Some ErrLimit, st)
          else extract_all (extractZipFile upr os lims dst) files st)"

section \<open>Tar archives\<close>

datatype typeflag = TypeDir | TypeReg | TypeOther

record tar_header =
  th_Name :: string
  th_Typeflag :: typeflag
  th_Size :: int
  th_Body :: stream

definition processTarHeader ::
  "(string \<Rightarrow> string) \<Rightarrow> os_env \<Rightarrow> arch_limits \<Rightarrow> string \<Rightarrow> tar_header \<Rightarrow> extraction \<Rightarrow> arch_err option \<times> extraction" where
  "processTarHeader upr os lims dst hdr st0 =
     (let st = st0\<lparr>ex_entries := ex_entries st0 + 1\<rparr> in
      if al_MaxFiles lims > 0 \<and> ex_entries st > al_MaxFiles lims then (Some ErrLimit, st)
      else case th_Typeflag hdr of
        TypeDir \<Rightarrow>
          (case safeJoin upr dst (th_Name hdr) True of
             Inl e \<Rightarrow> (Some e, st)
           | Inr target \<Rightarrow> mkdirAll os target st)
      | TypeReg \<Rightarrow>
          (case safeJoin upr dst (th_Name hdr) False of
             Inl e \<Rightarrow> (Some e, st)
           | Inr target \<Rightarrow>
               if over_file lims (th_Size hdr) then (Some ErrLimit, st)
               else if over_total lims st (th_Size hdr) then (Some ErrLimit, st)
               else case mkdirAll os (path_Dir target) st of
                 (Some e, st1) \<Rightarrow> (Some e, st1)
               | (None, st1) \<Rightarrow>
                   (case writeBounded os lims target (th_Body hdr) (th_Size hdr) st1 of (e, _, st2) \<Rightarrow> (e, st2)))
      | TypeOther \<Rightarrow> (Some ErrLimit, st))"

text \<open>A tar stream: its headers, and whether it ends regularly.\<close>

type_synonym tar_stream = "tar_header list \<times> stream_end"

definition unpackTarReader ::
  "(string \<Rightarrow> string) \<Rightarrow> os_env \<Rightarrow> arch_limits \<Rightarrow> string \<Rightarrow> tar_stream \<Rightarrow> extraction \<Rightarrow> arch_err option \<times> extraction" where
  "unpackTarReader upr os lims dst tr st =
     (case extract_all (processTarHeader upr os lims dst) (fst tr) st of
        (Some e, st1) \<Rightarrow> (Some e, st1)
      | (None, st1) \<Rightarrow> (if snd tr = StreamEOF then None else Some ErrArchive, st1))"

definition unpackTar ::
  "(string \<Rightarrow> string) \<Rightarrow> os_env \<Rightarrow> arch_limits \<Rightarrow> string \<Rightarrow> tar_stream option \<Rightarrow> extraction \<Rightarrow> arch_err option \<times> extraction" where
  "unpackTar upr os lims dst f st =
     (case f of None \<Rightarrow> (Some ErrOS, st) | Some tr \<Rightarrow> unpackTarReader upr os lims dst tr st)"

definition unpackTarGz ::
  "(string \<Rightarrow> string) \<Rightarrow> os_env \<Rightarrow> arch_limits \<Rightarrow> string \<Rightarrow> tar_stream option \<Rightarrow> extraction \<Rightarrow> arch_err option \<times> extraction" where
  "unpackTarGz upr os lims dst gz st =
     (case gz of None \<Rightarrow> (Some ErrArchive, st) | Some tr \<Rightarrow> unpackTarReader upr os lims dst tr st)"

definition unpackTarReaderFromPeekedHeader ::
  "(string \<Rightarrow> string) \<Rightarrow> os_env \<Rightarrow> arch_limits \<Rightarrow> string \<Rightarrow> tar_header \<Rightarrow> tar_stream \<Rightarrow> extraction \<Rightarrow> arch_err option \<times> extraction" where
  "unpackTarReaderFromPeekedHeader upr os lims dst first tr st =
     (case processTarHeader upr os lims dst first st of
        (Some e, st1) \<Rightarrow> (Some e, st1)
      | (None, st1) \<Rightarrow> unpackTarReader upr os lims dst tr st1)"

section \<open>Single-file gzip\<close>

definition gz_name :: "string \<Rightarrow> string" where
  "gz_name archivePath =
     (let base = path_Base archivePath; name = TrimSuffix base ''.gz'' in if name = base then base @ ''.out'' else name)"

definition gz_cap :: "arch_limits \<Rightarrow> int" where
  "gz_cap lims =
     (let cap0 = 2 ^ 40;
          cap1 = (if al_MaxFileBytes lims > 0 \<and> al_MaxFileBytes lims < cap0 then al_MaxFileBytes lims else cap0)
      in if al_MaxTotalBytes lims > 0 \<and> al_MaxTotalBytes lims < cap1 then al_MaxTotalBytes lims else cap1)"

definition unpackSingleGz ::
  "os_env \<Rightarrow> arch_limits \<Rightarrow> string \<Rightarrow> string \<Rightarrow> stream \<Rightarrow> extraction \<Rightarrow> arch_err option \<times> extraction" where
  "unpackSingleGz os lims archivePath dst gz st =
     (case mkdirAll os dst st of
        (Some e, st1) \<Rightarrow> (Some e, st1)
      | (None, st1) \<Rightarrow>
          let target = path_Join dst (gz_name archivePath) in
          if \<not> oe_create os st1 target then (Some ErrOS, st1)
          else case copyN (oe_room os st1 target) (nat (gz_cap lims + 1)) gz of (written, _, copyErr) \<Rightarrow>
            (case copyErr of
               None \<Rightarrow> Some ErrLimit
             | Some CopyErr \<Rightarrow> Some ErrArchive
             | Some CopyEOF \<Rightarrow> if oe_close os st1 target then None else Some ErrOS, put_file target written st1))"

text \<open>What the gzip decoder delivers: the tar reading of the content, with the outcome of its first header, and the
  content itself.\<close>

datatype tar_peek = PeekHeader tar_header tar_stream | PeekEOF | PeekErr

record gz_archive =
  gz_peek :: tar_peek
  gz_content :: stream

definition unpackGzMaybeSingleFile ::
  "(string \<Rightarrow> string) \<Rightarrow> os_env \<Rightarrow> arch_limits \<Rightarrow> string \<Rightarrow> string \<Rightarrow> gz_archive option \<Rightarrow> extraction \<Rightarrow> arch_err option \<times> extraction" where
  "unpackGzMaybeSingleFile upr os lims archivePath dst gz st =
     (case gz of
        None \<Rightarrow> (Some ErrArchive, st)
      | Some g \<Rightarrow>
          (case gz_peek g of
             PeekHeader first tr \<Rightarrow> unpackTarReaderFromPeekedHeader upr os lims dst first tr st
           | PeekEOF \<Rightarrow> (Some ErrArchive, st)
           | PeekErr \<Rightarrow> unpackSingleGz os lims archivePath dst (gz_content g) st))"

section \<open>Unpack\<close>

text \<open>The archive file, as the decoders see it.\<close>

record archive =
  ar_size :: "int option"
  ar_magic :: bytes
  ar_zip :: "zip_file list option"
  ar_tar :: "tar_stream option"
  ar_gz :: "gz_archive option"

definition checkArchiveSize :: "arch_limits \<Rightarrow> archive \<Rightarrow> arch_err option" where
  "checkArchiveSize lims a =
     (if al_MaxArchiveBytes lims \<le> 0 then None
      else case ar_size a of None \<Rightarrow> Some ErrOS | Some n \<Rightarrow> if n > al_MaxArchiveBytes lims then Some ErrLimit else None)"

fun gz_tar :: "tar_peek \<Rightarrow> tar_stream" where
  "gz_tar (PeekHeader first tr) = (first # fst tr, snd tr)"
| "gz_tar PeekEOF = ([], StreamEOF)"
| "gz_tar PeekErr = ([], StreamErr)"

definition Unpack ::
  "(string \<Rightarrow> string) \<Rightarrow> (string \<Rightarrow> string) \<Rightarrow> os_env \<Rightarrow> arch_limits \<Rightarrow> string \<Rightarrow> archive \<Rightarrow> string \<Rightarrow> arch_err option \<times> extraction" where
  "Unpack uni upr os lims archivePath a dst =
     (case checkArchiveSize lims a of
        Some e \<Rightarrow> (Some e, ex_start)
      | None \<Rightarrow>
          let name = ToLower uni (path_Base archivePath) in
          if HasSuffix name ''.zip'' then unpackZip upr os lims dst (ar_zip a) ex_start
          else if HasSuffix name ''.tar.gz'' \<or> HasSuffix name ''.tgz'' then
            unpackTarGz upr os lims dst (map_option (\<lambda>g. gz_tar (gz_peek g)) (ar_gz a)) ex_start
          else if HasSuffix name ''.gz'' then unpackGzMaybeSingleFile upr os lims archivePath dst (ar_gz a) ex_start
          else if HasSuffix name ''.tar'' then unpackTar upr os lims dst (ar_tar a) ex_start
          else if ar_magic a = [0x50, 0x4b] then unpackZip upr os lims dst (ar_zip a) ex_start
          else if ar_magic a = [0x1f, 0x8b] then unpackGzMaybeSingleFile upr os lims archivePath dst (ar_gz a) ex_start
          else (Some ErrArchive, ex_start))"

section \<open>What the validation accepts\<close>

text \<open>An element that can be part of a resolved name.\<close>

definition entry_ok :: "(string \<Rightarrow> string) \<Rightarrow> string \<Rightarrow> bool" where
  "entry_ok upr e \<longleftrightarrow>
     path_elem e \<and> length e \<le> 255 \<and> last e \<noteq> CHR ''.'' \<and> last e \<noteq> CHR '' '' \<and> \<not> reserved_element upr e"

definition plain_char :: "char \<Rightarrow> bool" where
  "plain_char c \<longleftrightarrow> c \<noteq> backslash \<and> c \<noteq> CHR '':'' \<and> \<not> control_char c"

definition joined_length :: "string list \<Rightarrow> nat" where
  "joined_length es = (\<Sum>e\<leftarrow>es. length e + 1)"

lemma joined_length_simps [simp]:
  "joined_length [] = 0" "joined_length (e # es) = length e + 1 + joined_length es"
  "joined_length (es @ fs) = joined_length es + joined_length fs"
  by (simp_all add: joined_length_def)

lemma length_join: "es \<noteq> [] \<Longrightarrow> length (str_join [slash] es) + 1 = joined_length es"
  by (induction "[slash]" es rule: str_join.induct) simp_all

lemma length_split: "joined_length (split_char d s) = length s + 1"
  by (induction s) (auto split: list.split simp: split_char_nonempty)

lemma walk_step:
  assumes "walk_elements upr stack (e # es) = Inr out" "slash \<notin> set e"
  obtains (skip) "e = [] \<or> e = ''.''" "walk_elements upr stack es = Inr out"
  | (up) "e = ''..''" "stack \<noteq> []" "walk_elements upr (butlast stack) es = Inr out"
  | (name) "entry_ok upr e" "walk_elements upr (stack @ [e]) es = Inr out"
  using assms by (auto simp: entry_ok_def path_elem_def maxEntryComponentBytes_def split: if_splits)

lemma butlast_all: "list_all P xs \<Longrightarrow> list_all P (butlast xs)"
  by (auto simp: list_all_iff dest: in_set_butlastD)

lemma joined_length_butlast: "joined_length (butlast xs) \<le> joined_length xs"
  by (cases xs rule: rev_cases) simp_all

lemma walk_sound:
  assumes "walk_elements upr stack es = Inr out" "list_all (entry_ok upr) stack" "\<And>e. e \<in> set es \<Longrightarrow> slash \<notin> set e"
  shows "list_all (entry_ok upr) out \<and> clean_elems False stack es = out \<and> joined_length out \<le> joined_length stack + joined_length es \<and>
    (\<Union>e \<in> set out. set e) \<subseteq> (\<Union>e \<in> set stack. set e) \<union> (\<Union>e \<in> set es. set e)"
  using assms
proof (induction es arbitrary: stack)
  case (Cons e es)
  have f: "slash \<notin> set e" "\<And>x. x \<in> set es \<Longrightarrow> slash \<notin> set x" using Cons.prems(3) by simp_all
  from Cons.prems(1) f(1) show ?case
  proof (cases rule: walk_step)
    case skip
    then show ?thesis using Cons.IH [OF skip(2) Cons.prems(2) f(2)] by auto
  next
    case up
    have l: "last stack \<noteq> ''..''" using Cons.prems(2) up(2) by (auto simp: list_all_iff entry_ok_def path_elem_def dest: last_in_set)
    have c: "clean_elems False stack (e # es) = clean_elems False (butlast stack) es" using up(1,2) l by simp
    have u: "(\<Union>e \<in> set (butlast stack). set e) \<subseteq> (\<Union>e \<in> set stack. set e)" by (auto dest: in_set_butlastD)
    from Cons.IH [OF up(3) butlast_all [OF Cons.prems(2)] f(2)]
    have "list_all (entry_ok upr) out" "clean_elems False (butlast stack) es = out" "joined_length out \<le> joined_length (butlast stack) + joined_length es"
      "(\<Union>e \<in> set out. set e) \<subseteq> (\<Union>e \<in> set (butlast stack). set e) \<union> (\<Union>e \<in> set es. set e)" by blast+
    then show ?thesis using c u joined_length_butlast [of stack] by (simp, blast)
  next
    case name
    then have n: "e \<noteq> []" "e \<noteq> ''.''" "e \<noteq> ''..''" by (simp_all add: entry_ok_def path_elem_def)
    have c: "clean_elems False stack (e # es) = clean_elems False (stack @ [e]) es" using n by simp
    have s: "list_all (entry_ok upr) (stack @ [e])" using Cons.prems(2) name(1) by simp
    from Cons.IH [OF name(2) s f(2)] show ?thesis unfolding c by auto
  qed
qed simp

lemma walk_fixed: "list_all (entry_ok upr) ns \<Longrightarrow> walk_elements upr stack ns = Inr (stack @ ns)"
  by (induction ns arbitrary: stack) (auto simp: entry_ok_def path_elem_def maxEntryComponentBytes_def)

lemma entry_ok_elem: "list_all (entry_ok upr) ns \<Longrightarrow> list_all path_elem ns"
  by (simp add: list_all_iff entry_ok_def)

lemma set_join: "set (str_join [slash] es) \<subseteq> insert slash (\<Union>e \<in> set es. set e)"
  by (induction "[slash]" es rule: str_join.induct) auto

lemma set_split: "(\<Union>e \<in> set (split_char d s). set e) \<subseteq> set s"
proof (induction s)
  case (Cons c s)
  obtain x xs where x: "split_char d s = x # xs" by (cases "split_char d s") auto
  then show ?case using Cons by auto
qed simp

lemma walk_join_nonempty:
  assumes "walk_elements upr [] (split_char slash s) = Inr ns" "ns \<noteq> []"
  shows "str_join [slash] ns \<noteq> []"
  using walk_sound [OF assms(1) _ split_char_elems] assms(2) str_join_nonempty [of ns "[slash]"]
  by (auto simp: list_all_iff entry_ok_def path_elem_def)

lemma canonical_fixed: "backslash \<notin> set s \<Longrightarrow> canonical_name s = s"
  by (auto simp: canonical_name_def intro!: map_idI)

lemma device_prefix_sep:
  assumes "list_ex (hasPrefixFoldASCIISep (c # s)) device_prefixes"
  shows "c = backslash \<or> c = slash"
  using assms by (auto simp: device_prefixes_def split: if_splits)

text \<open>A name made of acceptable elements and characters is accepted as it is.\<close>

lemma validate_fixed:
  assumes ok: "list_all (entry_ok upr) ns" "ns \<noteq> []" and rel: "rel = str_join [slash] ns"
    and plain: "list_all plain_char rel" and len: "length rel \<le> maxEntryPathBytes"
  shows "validateArchiveEntry upr rel isDir = Inr rel"
proof -
  have hd: "rel \<noteq> []" "hd rel \<noteq> slash"
    using str_join_head [OF ok(2)] path_elem_fresh [OF entry_ok_elem [OF ok(1)]] rel by auto
  then obtain c s where cs: "rel = c # s" "c \<noteq> slash" by (cases rel) auto
  have b: "backslash \<notin> set rel" "CHR '':'' \<notin> set rel" "\<not> list_ex control_char rel"
    using plain by (auto simp: list_all_iff list_ex_iff plain_char_def)
  have "\<not> list_ex (hasPrefixFoldASCIISep rel) device_prefixes" using device_prefix_sep [of c s] cs b(1) by auto
  moreover have "\<not> HasPrefix rel ''/''" using cs by (simp add: HasPrefix_def)
  moreover have "rel ! 1 \<noteq> CHR '':''" if "length rel \<ge> 2" using b(2) that by (metis One_nat_def Suc_1 Suc_le_lessD nth_mem)
  moreover have "split_char slash rel = ns" using split_join [of ns slash] path_elem_fresh [OF entry_ok_elem [OF ok(1)]] ok(2) rel by simp
  ultimately show ?thesis
    using b hd(1) len walk_fixed [OF ok(1), of "[]"] ok(2) rel by (auto simp: validateArchiveEntry_def canonical_fixed Let_def)
qed

lemma validate_cases:
  assumes "validateArchiveEntry upr name isDir = Inr rel"
  obtains (root) "rel = []" "isDir"
  | (inside) ns where "ns \<noteq> []" "list_all (entry_ok upr) ns" "rel = str_join [slash] ns" "list_all plain_char rel"
      "rel = path_Clean (canonical_name name)" "length rel \<le> length name" "length name \<le> 4096"
proof (cases "rel = []")
  case True
  then show thesis using assms root walk_join_nonempty [of upr "canonical_name name"]
    by (auto simp: validateArchiveEntry_def Let_def split: if_splits sum.splits)
next
  case False
  let ?c = "canonical_name name"
  from assms False obtain ns where w: "walk_elements upr [] (split_char slash ?c) = Inr ns" and ns: "ns \<noteq> []" "rel = str_join [slash] ns"
    and name: "name \<noteq> []" "length name \<le> maxEntryPathBytes" "\<not> list_ex control_char name" "\<not> HasPrefix ?c ''/''" "CHR '':'' \<notin> set ?c"
    by (auto simp: validateArchiveEntry_def Let_def split: if_splits sum.splits)
  have ws: "list_all (entry_ok upr) ns" "clean_elems False [] (split_char slash ?c) = ns" "joined_length ns \<le> joined_length (split_char slash ?c)"
    "(\<Union>e \<in> set ns. set e) \<subseteq> (\<Union>e \<in> set (split_char slash ?c). set e)"
    using walk_sound [OF w list.pred_inject(1) split_char_elems [of _ slash ?c]] by simp_all
  note ok = ws(1)
  have plain: "list_all plain_char ?c"
    using name(3,5) by (auto simp: list_all_iff list_ex_iff plain_char_def canonical_name_def control_char_def)
  have "(\<Union>e \<in> set ns. set e) \<subseteq> set ?c" using ws(4) set_split [of slash ?c] by (rule subset_trans)
  then have "set rel \<subseteq> insert slash (set ?c)" using set_join [of ns] ns(2) by blast
  moreover have "plain_char slash" by (simp add: plain_char_def control_char_def)
  ultimately have "list_all plain_char rel" using plain unfolding list_all_iff by blast
  moreover
  have "\<not> is_rooted ?c" using name(1,4) by (cases ?c) (auto simp: is_rooted_def HasPrefix_def)
  then have "rel = path_Clean ?c" using ws(2) ns by (simp add: path_Clean_def path_elems_def path_string_def)
  moreover have "length ?c = length name" by (simp add: canonical_name_def)
  then have "length rel \<le> length name" using ws(3) length_join [OF ns(1)] length_split [of slash ?c] ns(2) by simp
  ultimately show thesis using inside [OF ns(1) ok ns(2)] name(2) by (simp add: maxEntryPathBytes_def)
qed

text \<open>
  C35. A name that is accepted resolves to the archive root, for a directory only, or to a path below it: its elements are
  non-empty, none is \<open>.\<close> or \<open>..\<close>, none is longer than 255 bytes, ends with a dot or a space or is a reserved device name; it has no
  colon, backslash or control character and is no longer than the name. It is what \<open>filepath.Clean\<close>
  makes of the name with slashes for backslashes, and validating it again changes nothing.
\<close>

theorem entry_names_safe:
  assumes "validateArchiveEntry upr name isDir = Inr rel"
  shows "if rel = [] then isDir
    else list_all (entry_ok upr) (split_char slash rel) \<and> list_all plain_char rel \<and> length rel \<le> length name \<and>
         rel = path_Clean (canonical_name name) \<and> validateArchiveEntry upr rel isDir = Inr rel"
  using assms
proof (cases rule: validate_cases)
  case (inside ns)
  have "split_char slash rel = ns" using split_join [of ns slash] path_elem_fresh [OF entry_ok_elem [OF inside(2)]] inside(1,3) by simp
  moreover have "validateArchiveEntry upr rel isDir = Inr rel"
    using inside by (intro validate_fixed) (simp_all add: maxEntryPathBytes_def)
  moreover have "rel \<noteq> []" using str_join_head [OF inside(1)] path_elem_fresh [OF entry_ok_elem [OF inside(2)]] inside(3) by simp
  ultimately show ?thesis using inside by simp
qed simp

theorem entry_names_safe_witness:
  "validateArchiveEntry id ''bin/../lib/core'' False = Inr ''lib/core'' \<and> validateArchiveEntry id ''lib/core'' False = Inr ''lib/core''"
proof -
  have "validateArchiveEntry id ''bin/../lib/core'' False = Inr ''lib/core''" by code_simp
  from this entry_names_safe [OF this] show ?thesis by simp
qed

section \<open>Resolution below the destination\<close>

lemma join_HasPrefix:
  assumes "HasPrefix (str_join [slash] ns) (d @ [slash])" "slash \<notin> set d" "ns \<noteq> []" "\<And>e. e \<in> set ns \<Longrightarrow> slash \<notin> set e \<and> e \<noteq> []"
  shows "hd ns = d"
proof -
  have "str_join [slash] ns = (d @ [slash]) @ drop (length (d @ [slash])) (str_join [slash] ns)"
    using assms(1) unfolding HasPrefix_def by (metis append_take_drop_id)
  then have "split_char slash (str_join [slash] ns) = d # split_char slash (drop (length (d @ [slash])) (str_join [slash] ns))"
    using split_char_append [OF assms(2)] by (metis append.assoc append_Cons append_Nil)
  moreover have "split_char slash (str_join [slash] ns) = ns" using assms(3,4) by (intro split_join) simp_all
  ultimately show ?thesis by (metis list.sel(1))
qed

lemma safeJoin_eq:
  "safeJoin upr dst name isDir =
     (case validateArchiveEntry upr name isDir of
        Inl e \<Rightarrow> Inl e
      | Inr rel \<Rightarrow>
          if rel = [] then Inr (path_Clean dst)
          else if path_Clean dst = ''.'' \<or> path_Clean dst = ''/'' then Inl ErrLimit
          else Inr (path_Clean dst @ ''/'' @ rel))"
proof (cases "validateArchiveEntry upr name isDir")
  case (Inr rel)
  from Inr show ?thesis
  proof (cases rule: validate_cases)
    case root
    with Inr show ?thesis by (simp add: safeJoin_def)
  next
    case (inside ns)
    note pe = entry_ok_elem [OF inside(2)]
    let ?r = "is_rooted dst" and ?es = "path_elems dst"
    have ne: "rel \<noteq> []" "hd rel \<noteq> slash" using str_join_head [OF inside(1)] path_elem_fresh [OF pe] inside(3) by auto
    have join: "path_Join dst rel = path_string ?r (?es @ ns)" using Join_names [OF pe inside(1)] inside(3) by simp
    have "path_Rel (path_Clean dst) (path_string ?r (?es @ ns)) = Some rel" using Rel_names [OF pe inside(1)] inside(3) by simp
    moreover have hd: "path_elem (hd ns)" using inside(1) pe by (cases ns) simp_all
    have sp: "split_char slash rel = ns" using split_join [of ns slash] path_elem_fresh [OF pe] inside(1,3) by simp
    have np: "\<not> HasPrefix rel (d @ [slash])" if "slash \<notin> set d" "\<not> path_elem d" for d
      using join_HasPrefix [OF _ that(1) inside(1) path_elem_fresh [OF pe]] hd that(2) inside(3) by auto
    have up: "rel \<noteq> ''..''" "rel \<noteq> ''.''" "\<not> HasPrefix rel ''../''" using np [of "''..''"] sp hd by (auto simp: path_elem_def)
    moreover have tgt: "path_string ?r (?es @ ns) = (if ?es = [] then (if ?r then slash # rel else rel) else path_Clean dst @ ''/'' @ rel)"
      using string_append [of ?es ns ?r] inside(1,3) by (simp add: path_Clean_def path_string_def)
    moreover have "\<not> HasPrefix rel ''./''" using np [of "''.''"] by (simp add: path_elem_def)
    ultimately show ?thesis
      using Inr ne join Clean_degenerate [of dst]
      by (cases rel) (auto simp: safeJoin_def Let_def HasPrefix_def path_Clean_def path_string_def)
  qed
qed (simp add: safeJoin_def)

text \<open>
  The resolution of an entry is the validated name below the cleaned destination: the checks by \<open>filepath.Rel\<close>
  never refuse a validated name, and the prefix check refuses exactly when the destination is the current directory or the root.
\<close>

theorem safeJoin_exact:
  "safeJoin upr dst name isDir =
     (case validateArchiveEntry upr name isDir of
        Inl e \<Rightarrow> Inl e
      | Inr rel \<Rightarrow>
          if rel = [] then Inr (path_Clean dst)
          else if path_Clean dst = ''.'' \<or> path_Clean dst = ''/'' then Inl ErrLimit
          else Inr (path_Clean dst @ ''/'' @ rel))"
  by (rule safeJoin_eq)

text \<open>Paths strictly below the destination, and the destination with them.\<close>

definition below :: "string \<Rightarrow> string \<Rightarrow> bool" where
  "below dst path \<longleftrightarrow> (\<exists>ns. ns \<noteq> [] \<and> list_all path_elem ns \<and> path = path_string (is_rooted dst) (path_elems dst @ ns))"

definition at_or_below :: "string \<Rightarrow> string \<Rightarrow> bool" where
  "at_or_below dst path \<longleftrightarrow> path_Clean path = path_Clean dst \<or> below dst path"

lemma at_or_below_string:
  assumes "list_all path_elem ns"
  shows "at_or_below dst (path_string (is_rooted dst) (path_elems dst @ ns))"
proof (cases "ns = []")
  case True
  then show ?thesis by (simp add: at_or_below_def Clean_string [OF path_elems_cleaned] flip: path_Clean_def) (simp add: Clean_idem)
next
  case False
  with assms show ?thesis by (auto simp: at_or_below_def below_def)
qed

lemma safeJoin_target:
  assumes "safeJoin upr dst name isDir = Inr target"
  shows "(isDir \<and> target = path_Clean dst) \<or> (below dst target \<and> at_or_below dst (path_Dir target))"
proof -
  from assms obtain rel where v: "validateArchiveEntry upr name isDir = Inr rel"
    and t: "rel = [] \<and> target = path_Clean dst \<or> rel \<noteq> [] \<and> path_elems dst \<noteq> [] \<and> target = path_Clean dst @ ''/'' @ rel"
    unfolding safeJoin_eq Clean_degenerate by (auto split: sum.splits if_splits)
  from v show ?thesis
  proof (cases rule: validate_cases)
    case root
    with t show ?thesis by simp
  next
    case (inside ns)
    note pe = entry_ok_elem [OF inside(2)]
    have "rel \<noteq> []" using str_join_head [OF inside(1)] path_elem_fresh [OF pe] inside(3) by simp
    with t have es: "path_elems dst \<noteq> []" and tgt: "target = path_string (is_rooted dst) (path_elems dst @ ns)"
      using string_append [of "path_elems dst" ns] inside(1,3) by (auto simp: path_Clean_def)
    have "path_Dir target = path_string (is_rooted dst) (path_elems dst @ butlast ns)"
      using Dir_names [OF pe inside(1) path_elems_cleaned es] tgt by simp
    then show ?thesis using at_or_below_string [OF butlast_all [OF pe]] tgt pe inside(1) by (auto simp: below_def)
  qed
qed

section \<open>Bounds of an extraction\<close>

text \<open>Limits that are all set and do not overflow together.\<close>

definition sane_limits :: "arch_limits \<Rightarrow> bool" where
  "sane_limits lims \<longleftrightarrow>
     0 < al_MaxTotalBytes lims \<and> 0 < al_MaxFileBytes lims \<and> al_MaxTotalBytes lims + al_MaxFileBytes lims < 2 ^ 63"

definition bytes_on_disk :: "extraction \<Rightarrow> int" where
  "bytes_on_disk st = (\<Sum>(p, content) \<leftarrow> ex_files st. int (length content))"

definition ex_ok :: "arch_limits \<Rightarrow> string \<Rightarrow> extraction \<Rightarrow> bool" where
  "ex_ok lims dst st \<longleftrightarrow>
     list_all (\<lambda>(p, content). below dst p \<and> int (length content) \<le> al_MaxFileBytes lims) (ex_files st) \<and>
     list_all (at_or_below dst) (ex_dirs st) \<and> bytes_on_disk st \<le> ex_total st \<and> ex_total st \<le> al_MaxTotalBytes lims"

lemma update_sum:
  "(\<Sum>(p, content) \<leftarrow> gput path c m. int (length content)) \<le> (\<Sum>(p, content) \<leftarrow> m. int (length content)) + int (length c)"
  by (induction m) auto

lemma update_all: "list_all P m \<Longrightarrow> P (path, c) \<Longrightarrow> list_all P (gput path c m)"
  by (induction m) auto

lemma update_length: "length (gput path c m) \<le> length m + 1"
  by (induction m) auto

lemma bytes_nonneg: "0 \<le> bytes_on_disk st"
  by (auto simp: bytes_on_disk_def intro!: sum_list_nonneg)

lemma copyN_length: "copyN room n r = (written, rest, e) \<Longrightarrow> length written \<le> n"
  by (auto simp: copyN_def Let_def split: prod.splits option.splits if_splits)

lemma ex_ok_mkdir: "ex_ok lims dst st \<Longrightarrow> at_or_below dst path \<Longrightarrow> ex_ok lims dst (snd (mkdirAll os path st))"
  by (simp add: mkdirAll_def ex_ok_def bytes_on_disk_def)

lemma ex_ok_put:
  assumes ok: "ex_ok lims dst st" and b: "below dst path" and n: "int (length c) \<le> al_MaxFileBytes lims"
    and t: "total' = ex_total st + int (length c)" "total' \<le> al_MaxTotalBytes lims"
  shows "ex_ok lims dst ((put_file path c st)\<lparr>ex_total := total'\<rparr>)"
proof -
  have "bytes_on_disk (put_file path c st) \<le> bytes_on_disk st + int (length c)"
    using update_sum [of path c "ex_files st"] by (simp add: bytes_on_disk_def put_file_def)
  then show ?thesis using ok b n t update_all [of _ "ex_files st" path c]
    by (simp add: ex_ok_def put_file_def bytes_on_disk_def)
qed

lemma int64_id: "- (2 ^ 63) \<le> n \<Longrightarrow> n < 2 ^ 63 \<Longrightarrow> int64 n = n"
  by (simp add: int64_def)

lemma writeBounded_ok:
  assumes sane: "sane_limits lims" and ok: "ex_ok lims dst st" and b: "below dst path"
  shows "ex_ok lims dst (snd (snd (writeBounded os lims path r declared st)))"
proof -
  have t: "0 \<le> ex_total st" "ex_total st \<le> al_MaxTotalBytes lims" using ok bytes_nonneg [of st] by (simp_all add: ex_ok_def)
  consider (refused) "over_file lims declared \<or> over_total lims st declared \<or> declared < 0"
    | (zero) "\<not> over_file lims declared" "\<not> over_total lims st declared" "declared = 0"
    | (pos) "\<not> over_file lims declared" "\<not> over_total lims st declared" "declared > 0" by linarith
  then show ?thesis
  proof cases
    case refused
    then show ?thesis using ok by (auto simp: writeBounded_def)
  next
    case zero
    have "ex_ok lims dst ((put_file path [] st)\<lparr>ex_total := ex_total st\<rparr>)"
      by (rule ex_ok_put [OF ok b]) (use sane t in \<open>simp_all add: sane_limits_def\<close>)
    then have "ex_ok lims dst (put_file path [] st)" by (simp add: ex_ok_def put_file_def bytes_on_disk_def)
    then show ?thesis using zero ok by (simp add: writeBounded_def)
  next
    case pos
    have d: "declared \<le> al_MaxFileBytes lims" using pos(1) sane by (simp add: over_file_def sane_limits_def)
    have "int64 (ex_total st + declared) = ex_total st + declared"
      by (rule int64_id) (use t d sane pos(3) in \<open>simp_all add: sane_limits_def\<close>)
    then have td: "ex_total st + declared \<le> al_MaxTotalBytes lims" using pos(2) sane by (simp add: over_total_def sane_limits_def)
    obtain w rest e where c: "copyN (oe_room os st path) (nat declared) r = (w, rest, e)" by (cases "copyN (oe_room os st path) (nat declared) r")
    have w: "int (length w) \<le> declared" using copyN_length [OF c] pos(3) by simp
    have "int64 (ex_total st + int (length w)) = ex_total st + int (length w)"
      by (rule int64_id) (use t w td sane in \<open>simp_all add: sane_limits_def\<close>)
    then have "ex_ok lims dst ((put_file path w st)\<lparr>ex_total := int64 (ex_total st + int (length w))\<rparr>)"
      by (intro ex_ok_put [OF ok b]) (use w d td in simp_all)
    then show ?thesis using pos ok c by (simp add: writeBounded_def Let_def)
  qed
qed

lemma writeBounded_files: "length (ex_files (snd (snd (writeBounded os lims path r declared st)))) \<le> length (ex_files st) + 1"
  using update_length by (auto simp: writeBounded_def put_file_def Let_def split: prod.splits)

lemma mkdirAll_files [simp]: "ex_files (snd (mkdirAll os path st)) = ex_files st"
  by (simp add: mkdirAll_def)

section \<open>Walks over an archive\<close>

text \<open>What a walk over the entries of an archive keeps, given what one entry keeps.\<close>

locale archive_walk =
  fixes step :: "'e \<Rightarrow> extraction \<Rightarrow> arch_err option \<times> extraction" and ok :: "extraction \<Rightarrow> bool"
  assumes step_ok: "ok st \<Longrightarrow> ok (snd (step f st))"
    and step_files: "length (ex_files (snd (step f st))) \<le> length (ex_files st) + 1"
begin

lemma walk_ok: "ok st \<Longrightarrow> ok (snd (extract_all step fs st))"
proof (induction fs arbitrary: st)
  case (Cons f fs)
  then show ?case using step_ok [OF Cons.prems, of f] by (auto split: prod.splits option.splits)
qed simp

lemma walk_files: "length (ex_files (snd (extract_all step fs st))) \<le> length (ex_files st) + length fs"
proof (induction fs arbitrary: st)
  case (Cons f fs)
  obtain e st1 where x: "step f st = (e, st1)" by (cases "step f st")
  show ?case using Cons [of st1] step_files [of f st] x by (cases e) simp_all
qed simp

end

lemma extractZipFile_ok:
  assumes sane: "sane_limits lims" and ok: "ex_ok lims dst st"
  shows "ex_ok lims dst (snd (extractZipFile upr os lims dst f st))"
proof (cases "zf_Mode f = ModeSpecial")
  case False
  show ?thesis
  proof (cases "safeJoin upr dst (zf_Name f) (zf_Mode f = ModeDir)")
    case (Inr target)
    note tg = safeJoin_target [OF Inr]
    show ?thesis
    proof (cases "zf_Mode f = ModeDir")
      case True
      have "at_or_below dst target" using tg by (auto simp: at_or_below_def Clean_idem)
      then show ?thesis using ok True Inr by (simp add: extractZipFile_def ex_ok_mkdir)
    next
      case reg: False
      then have b: "below dst target" "at_or_below dst (path_Dir target)" using tg by simp_all
      obtain e st1 where m: "mkdirAll os (path_Dir target) st = (e, st1)" by (cases "mkdirAll os (path_Dir target) st")
      have ok1: "ex_ok lims dst st1" using ex_ok_mkdir [OF ok b(2), of os] m by simp
      show ?thesis
        using False reg Inr m ok1 writeBounded_ok [OF sane ok1 b(1), of os]
        by (auto simp: extractZipFile_def Let_def split: option.splits prod.splits) (metis snd_conv)+
    qed
  qed (use False ok in \<open>simp add: extractZipFile_def\<close>)
qed (use ok in \<open>simp add: extractZipFile_def\<close>)

lemma mkdirAll_filesD: "mkdirAll os path st = (e, st1) \<Longrightarrow> ex_files st1 = ex_files st"
  using mkdirAll_files [of os path st] by simp

lemma mkdir_write_files:
  "mkdirAll os path st = (e, st1) \<Longrightarrow> writeBounded os lims path' r n st1 = (e', rest, st2) \<Longrightarrow>
    length (ex_files st2) \<le> Suc (length (ex_files st))"
  using writeBounded_files [of os lims path' r n st1] mkdirAll_files [of os path st] by simp

lemma extractZipFile_files: "length (ex_files (snd (extractZipFile upr os lims dst f st))) \<le> length (ex_files st) + 1"
  by (auto simp: extractZipFile_def Let_def dest: mkdirAll_filesD mkdir_write_files split: sum.splits option.splits prod.splits)

interpretation zip_walk: archive_walk "extractZipFile upr os lims dst" "\<lambda>st. sane_limits lims \<longrightarrow> ex_ok lims dst st" for upr os lims dst
  by unfold_locales (use extractZipFile_ok extractZipFile_files in auto)

text \<open>Besides the bounds, a tar walk keeps the number of files below the number of entries.\<close>

definition tar_ok :: "arch_limits \<Rightarrow> string \<Rightarrow> extraction \<Rightarrow> bool" where
  "tar_ok lims dst st \<longleftrightarrow>
     ex_ok lims dst st \<and> int (length (ex_files st)) \<le> ex_entries st \<and>
     (al_MaxFiles lims > 0 \<longrightarrow> int (length (ex_files st)) \<le> al_MaxFiles lims)"

lemma writeBounded_entries [simp]: "ex_entries (snd (snd (writeBounded os lims path r n st))) = ex_entries st"
  by (auto simp: writeBounded_def put_file_def Let_def split: prod.splits)

lemma mkdirAll_entries [simp]: "ex_entries (snd (mkdirAll os path st)) = ex_entries st"
  by (simp add: mkdirAll_def)

lemma processTarHeader_cases:
  fixes upr os lims dst hdr st
  defines "st0 \<equiv> st\<lparr>ex_entries := ex_entries st + 1\<rparr>" and "st' \<equiv> snd (processTarHeader upr os lims dst hdr st)"
  obtains (kept) "st' = st0"
  | (dir) target where "at_or_below dst target" "st' = snd (mkdirAll os target st0)"
  | (reg) target where "below dst target" "at_or_below dst (path_Dir target)" "al_MaxFiles lims > 0 \<longrightarrow> ex_entries st0 \<le> al_MaxFiles lims"
      "st' = snd (snd (writeBounded os lims target (th_Body hdr) (th_Size hdr) (snd (mkdirAll os (path_Dir target) st0))))"
proof (cases "al_MaxFiles lims > 0 \<and> ex_entries st0 > al_MaxFiles lims")
  case True
  then show thesis using kept by (simp add: st'_def processTarHeader_def st0_def)
next
  case False
  show thesis
  proof (cases "th_Typeflag hdr")
    case TypeDir
    show thesis
    proof (cases "safeJoin upr dst (th_Name hdr) True")
      case (Inl e)
      then show thesis using False TypeDir kept by (simp add: st'_def processTarHeader_def st0_def Let_def)
    next
      case (Inr target)
      have "at_or_below dst target" using safeJoin_target [OF Inr] by (auto simp: at_or_below_def Clean_idem)
      moreover have "st' = snd (mkdirAll os target st0)" using False TypeDir Inr by (auto simp: st'_def processTarHeader_def st0_def Let_def)
      ultimately show thesis by (rule dir)
    qed
  next
    case TypeReg
    show thesis
    proof (cases "safeJoin upr dst (th_Name hdr) False")
      case (Inl e)
      then show thesis using False TypeReg kept by (simp add: st'_def processTarHeader_def st0_def Let_def)
    next
      case (Inr target)
      then have b: "below dst target" "at_or_below dst (path_Dir target)" using safeJoin_target [OF Inr] by simp_all
      obtain e st1 where m: "mkdirAll os (path_Dir target) st0 = (e, st1)" by (cases "mkdirAll os (path_Dir target) st0")
      consider "over_file lims (th_Size hdr) \<or> over_total lims st0 (th_Size hdr)"
        | "\<not> over_file lims (th_Size hdr)" "\<not> over_total lims st0 (th_Size hdr)" by blast
      then show thesis
      proof cases
        case 1
        then show thesis using False TypeReg Inr kept by (auto simp: st'_def processTarHeader_def st0_def Let_def)
      next
        case 2
        show thesis
        proof (cases e)
          case None
          obtain x y z where w: "writeBounded os lims target (th_Body hdr) (th_Size hdr) st1 = (x, y, z)"
            by (cases "writeBounded os lims target (th_Body hdr) (th_Size hdr) st1")
          then have "st' = z" using None False TypeReg Inr m 2 by (auto simp: st'_def processTarHeader_def Let_def simp flip: st0_def)
          then show thesis using reg [OF b] False m w by (auto simp: not_less)
        next
          case (Some x)
          then have "st1 = st0" using m by (auto simp: mkdirAll_def split: if_splits)
          then show thesis using kept Some False TypeReg Inr m 2 by (auto simp: st'_def processTarHeader_def Let_def simp flip: st0_def)
        qed
      qed
    qed
  next
    case TypeOther
    then show thesis using False kept by (simp add: st'_def processTarHeader_def st0_def Let_def)
  qed
qed

lemma processTarHeader_ok:
  assumes sane: "sane_limits lims" and ok: "tar_ok lims dst st"
  shows "tar_ok lims dst (snd (processTarHeader upr os lims dst hdr st))"
proof -
  let ?st0 = "st\<lparr>ex_entries := ex_entries st + 1\<rparr>"
  have ok0: "ex_ok lims dst ?st0" using ok by (simp add: tar_ok_def ex_ok_def bytes_on_disk_def)
  show ?thesis
  proof (cases rule: processTarHeader_cases [of upr os lims dst hdr st])
    case kept
    then show ?thesis using ok ok0 by (simp add: tar_ok_def)
  next
    case (dir target)
    then show ?thesis using ok ex_ok_mkdir [OF ok0 dir(1), of os] by (simp add: tar_ok_def)
  next
    case (reg target)
    note o1 = ex_ok_mkdir [OF ok0 reg(2), of os]
    show ?thesis unfolding reg(4)
      using ok writeBounded_ok [OF sane o1 reg(1), of os "th_Body hdr" "th_Size hdr"] reg(3)
        writeBounded_files [of os lims target "th_Body hdr" "th_Size hdr" "snd (mkdirAll os (path_Dir target) ?st0)"]
      by (auto simp: tar_ok_def)
  qed
qed

lemma processTarHeader_files: "length (ex_files (snd (processTarHeader upr os lims dst hdr st))) \<le> length (ex_files st) + 1"
proof (cases rule: processTarHeader_cases [of upr os lims dst hdr st])
  case (reg target)
  show ?thesis unfolding reg(4)
    using writeBounded_files [of os lims target "th_Body hdr" "th_Size hdr" "snd (mkdirAll os (path_Dir target) (st\<lparr>ex_entries := ex_entries st + 1\<rparr>))"]
    by simp
qed simp_all

interpretation tar_walk: archive_walk "processTarHeader upr os lims dst" "\<lambda>st. sane_limits lims \<longrightarrow> tar_ok lims dst st" for upr os lims dst
  by unfold_locales (use processTarHeader_ok processTarHeader_files in auto)

section \<open>The whole extraction\<close>

lemma ex_ok_start: "sane_limits lims \<Longrightarrow> ex_ok lims dst ex_start \<and> tar_ok lims dst ex_start"
  by (simp add: ex_ok_def tar_ok_def ex_start_def bytes_on_disk_def sane_limits_def)

definition files_bounded :: "arch_limits \<Rightarrow> extraction \<Rightarrow> bool" where
  "files_bounded lims st \<longleftrightarrow> (al_MaxFiles lims > 0 \<longrightarrow> int (length (ex_files st)) \<le> al_MaxFiles lims)"

lemma unpackZip_ok:
  assumes "sane_limits lims"
  shows "ex_ok lims dst (snd (unpackZip upr os lims dst reader ex_start)) \<and> files_bounded lims (snd (unpackZip upr os lims dst reader ex_start))"
proof (cases "\<exists>files. reader = Some files \<and> \<not> (al_MaxFiles lims > 0 \<and> int (length files) > al_MaxFiles lims)")
  case True
  then obtain files where f: "reader = Some files" "\<not> (al_MaxFiles lims > 0 \<and> int (length files) > al_MaxFiles lims)" by blast
  have u: "unpackZip upr os lims dst reader ex_start = extract_all (extractZipFile upr os lims dst) files ex_start"
    using f by (auto simp: unpackZip_def)
  show ?thesis unfolding u
    using zip_walk.walk_ok [of lims dst ex_start upr os files] zip_walk.walk_files [of upr os lims dst files ex_start] assms ex_ok_start f(2)
    by (auto simp: files_bounded_def ex_start_def)
next
  case False
  then have "snd (unpackZip upr os lims dst reader ex_start) = ex_start" by (auto simp: unpackZip_def split: option.splits)
  then show ?thesis using ex_ok_start [OF assms] by (simp add: files_bounded_def ex_start_def)
qed

lemma unpackTarReader_ok: "sane_limits lims \<Longrightarrow> tar_ok lims dst st \<Longrightarrow> tar_ok lims dst (snd (unpackTarReader upr os lims dst tr st))"
  using tar_walk.walk_ok [of lims dst st upr os "fst tr"] by (auto simp: unpackTarReader_def split: prod.splits option.splits)

lemma unpackPeeked_ok:
  assumes "sane_limits lims" "tar_ok lims dst st"
  shows "tar_ok lims dst (snd (unpackTarReaderFromPeekedHeader upr os lims dst first tr st))"
proof -
  obtain e st1 where p: "processTarHeader upr os lims dst first st = (e, st1)" by (cases "processTarHeader upr os lims dst first st")
  have "tar_ok lims dst st1" using processTarHeader_ok [OF assms, of upr os first] p by simp
  then show ?thesis using p unpackTarReader_ok [OF assms(1)] by (cases e) (simp_all add: unpackTarReaderFromPeekedHeader_def)
qed

text \<open>The state an extraction leaves, with its outcome: a failed single-file gzip may leave one byte more than the budget.\<close>

definition extraction_bounded :: "arch_limits \<Rightarrow> string \<Rightarrow> arch_err option \<times> extraction \<Rightarrow> bool" where
  "extraction_bounded lims dst res =
     (case res of (e, st) \<Rightarrow>
        let slack = (if e = None then 0 else 1) in
        list_all (\<lambda>(p, content). below dst p \<and> int (length content) \<le> al_MaxFileBytes lims + slack) (ex_files st) \<and>
        list_all (at_or_below dst) (ex_dirs st) \<and> bytes_on_disk st \<le> al_MaxTotalBytes lims + slack \<and>
        (al_MaxFiles lims > 0 \<longrightarrow> int (length (ex_files st)) \<le> al_MaxFiles lims))"

lemma extraction_boundedI:
  assumes "ex_ok lims dst (snd res)" "files_bounded lims (snd res)"
  shows "extraction_bounded lims dst res"
proof -
  have "list_all (\<lambda>(p, content). below dst p \<and> int (length content) \<le> al_MaxFileBytes lims + slack) (ex_files (snd res))"
    if "0 \<le> slack" for slack using assms(1) that by (auto simp: ex_ok_def list_all_iff)
  from this [of 0] this [of 1] assms show ?thesis by (auto simp: extraction_bounded_def ex_ok_def files_bounded_def Let_def split: prod.splits)
qed

lemma gz_cap_bounds: "sane_limits lims \<Longrightarrow> 0 \<le> gz_cap lims \<and> gz_cap lims \<le> al_MaxFileBytes lims \<and> gz_cap lims \<le> al_MaxTotalBytes lims"
  by (auto simp: gz_cap_def sane_limits_def Let_def)

lemma copyN_eof: "copyN room n r = (w, rest, Some CopyEOF) \<Longrightarrow> length w < n"
  by (auto simp: copyN_def Let_def min_def split: prod.splits option.splits if_splits)

lemma unpackSingleGz_bounded:
  assumes sane: "sane_limits lims" and nm: "path_elem (gz_name archivePath)"
  shows "extraction_bounded lims dst (unpackSingleGz os lims archivePath dst gz ex_start)"
proof -
  let ?t = "path_Join dst (gz_name archivePath)" and ?st = "ex_start\<lparr>ex_dirs := [dst]\<rparr>"
  have b: "below dst ?t" using Join_names [of "[gz_name archivePath]" dst] nm by (auto simp: below_def intro!: exI [of _ "[gz_name archivePath]"])
  have d: "at_or_below dst dst" by (simp add: at_or_below_def)
  consider (nodir) "\<not> oe_mkdir os ex_start dst" | (nofile) "oe_mkdir os ex_start dst" "\<not> oe_create os ?st ?t"
    | (copy) "oe_mkdir os ex_start dst" "oe_create os ?st ?t" by blast
  then show ?thesis
  proof cases
    case copy
    obtain w rest e where c: "copyN (oe_room os ?st ?t) (nat (gz_cap lims + 1)) gz = (w, rest, e)"
      by (cases "copyN (oe_room os ?st ?t) (nat (gz_cap lims + 1)) gz")
    have w: "int (length w) \<le> gz_cap lims + 1" using copyN_length [OF c] gz_cap_bounds [OF sane] by linarith
    have eof: "int (length w) \<le> gz_cap lims" if "e = Some CopyEOF" using copyN_eof [of _ _ _ w rest] c that gz_cap_bounds [OF sane] by fastforce
    note u = gz_cap_bounds [OF sane]
    have "unpackSingleGz os lims archivePath dst gz ex_start =
        (case e of None \<Rightarrow> Some ErrLimit | Some CopyErr \<Rightarrow> Some ErrArchive
         | Some CopyEOF \<Rightarrow> if oe_close os ?st ?t then None else Some ErrOS, put_file ?t w ?st)"
      using copy c by (simp add: unpackSingleGz_def mkdirAll_def ex_start_def Let_def)
    then show ?thesis using b d w eof u
      by (auto simp: extraction_bounded_def put_file_def ex_start_def bytes_on_disk_def Let_def split: option.splits copy_err.splits if_splits)
  qed (use d sane in \<open>simp_all add: unpackSingleGz_def mkdirAll_def ex_start_def extraction_bounded_def bytes_on_disk_def sane_limits_def Let_def\<close>)
qed

lemma tar_bounded: "tar_ok lims dst (snd res) \<Longrightarrow> extraction_bounded lims dst res"
  by (rule extraction_boundedI) (simp_all add: tar_ok_def files_bounded_def)

lemma start_bounded: "sane_limits lims \<Longrightarrow> extraction_bounded lims dst (e, ex_start)"
  using ex_ok_start [of lims dst] by (intro tar_bounded) simp

lemma unpackGz_bounded:
  assumes "sane_limits lims" "path_elem (gz_name archivePath)"
  shows "extraction_bounded lims dst (unpackGzMaybeSingleFile upr os lims archivePath dst gz ex_start)"
  using assms ex_ok_start [OF assms(1), of dst] start_bounded [OF assms(1)] unpackSingleGz_bounded [OF assms]
  by (auto simp: unpackGzMaybeSingleFile_def intro!: tar_bounded unpackPeeked_ok split: option.split tar_peek.split)

text \<open>
  C12. Whatever an archive contains and whatever the operating system answers, with all limits set: every file that an extraction creates is strictly
  below the destination, every directory at or below it; no file is larger than \<open>MaxFileBytes\<close>, all files together not larger than
  \<open>MaxTotalBytes\<close>, and there are no more of them than \<open>MaxFiles\<close>. This holds of a successful extraction and of what a failed one leaves
  behind, except that a single-file gzip that is refused for its size has written one byte more.
\<close>

theorem unpack_bounded:
  assumes "sane_limits lims" "path_elem (gz_name archivePath)"
  shows "extraction_bounded lims dst (Unpack uni upr os lims archivePath a dst)"
proof -
  have z: "extraction_bounded lims dst (unpackZip upr os lims dst reader ex_start)" for reader
    using unpackZip_ok [OF assms(1)] by (blast intro: extraction_boundedI)
  have t: "extraction_bounded lims dst (unpackTarReader upr os lims dst tr ex_start)" for tr
    by (intro tar_bounded unpackTarReader_ok) (use assms(1) ex_ok_start in auto)
  have g: "extraction_bounded lims dst (unpackTarGz upr os lims dst gz ex_start)" for gz
    using t start_bounded [OF assms(1)] by (simp add: unpackTarGz_def split: option.split)
  show ?thesis using z t g unpackGz_bounded [OF assms] start_bounded [OF assms(1)]
    by (auto simp: Unpack_def unpackTar_def Let_def split: option.split)
qed

section \<open>Successful zip extraction\<close>

definition zip_target :: "(string \<Rightarrow> string) \<Rightarrow> string \<Rightarrow> zip_file \<Rightarrow> string" where
  "zip_target upr dst f = (case safeJoin upr dst (zf_Name f) False of Inl e \<Rightarrow> [] | Inr target \<Rightarrow> target)"

definition zip_update :: "(string \<Rightarrow> string) \<Rightarrow> string \<Rightarrow> zip_file \<Rightarrow> (string, bytes) gomap \<Rightarrow> (string, bytes) gomap" where
  "zip_update upr dst f m =
     (case (zf_Mode f, zf_Open f) of (ModeRegular, Some (content, _)) \<Rightarrow> gput (zip_target upr dst f) content m | _ \<Rightarrow> m)"

definition honest_entry :: "(string \<Rightarrow> string) \<Rightarrow> string \<Rightarrow> zip_file \<Rightarrow> bool" where
  "honest_entry upr dst f \<longleftrightarrow>
     zf_Mode f = ModeDir \<or>
     zf_Mode f = ModeRegular \<and> (\<exists>content. zf_Open f = Some (content, StreamEOF) \<and>
       int64 (int (zf_UncompressedSize64 f)) = int (length content))"

lemma copyN_done:
  "copyN room n (content, fin) = (w, rest, None) \<Longrightarrow> w = take n content \<and> n \<le> length content \<and> rest = (drop n content, fin)"
  by (auto simp: copyN_def Let_def min_def split: option.splits if_splits)

lemma writeBounded_done:
  assumes "writeBounded os lims path (content, fin) n st = (None, rest, st')" "probe_clean rest"
  shows "n = int (length content) \<and> fin = StreamEOF \<and> ex_files st' = gput path content (ex_files st)"
proof -
  have n: "0 \<le> n" "\<not> over_file lims n" "\<not> over_total lims st n" using assms(1) by (auto simp: writeBounded_def split: if_splits)
  show ?thesis
  proof (cases "n = 0")
    case True
    then show ?thesis using assms n by (auto simp: writeBounded_def probe_clean_def put_file_def split: if_splits)
  next
    case False
    obtain w r e where c: "copyN (oe_room os st path) (nat n) (content, fin) = (w, r, e)"
      by (cases "copyN (oe_room os st path) (nat n) (content, fin)")
    have "e = None" "rest = r" "st' = (put_file path w st)\<lparr>ex_total := int64 (ex_total st + int (length w))\<rparr>"
      using assms(1) n False c by (auto simp: writeBounded_def Let_def split: if_splits option.splits copy_err.splits)
    moreover from this(1) c have "w = take (nat n) content \<and> nat n \<le> length content \<and> r = (drop (nat n) content, fin)"
      by (intro copyN_done) simp
    ultimately show ?thesis using assms(2) n(1) by (auto simp: probe_clean_def put_file_def)
  qed
qed

lemma mkdirAll_done: "mkdirAll os path st = (None, st') \<Longrightarrow> ex_files st' = ex_files st"
  by (rule mkdirAll_filesD)

lemma extractZipFile_done:
  assumes "extractZipFile upr os lims dst f st = (None, st')"
  shows "honest_entry upr dst f \<and> ex_files st' = zip_update upr dst f (ex_files st)"
proof (cases "zf_Mode f")
  case ModeDir
  then show ?thesis using assms by (auto simp: extractZipFile_def honest_entry_def zip_update_def split: sum.splits dest: mkdirAll_done)
next
  case ModeRegular
  from assms ModeRegular obtain target st1 rc rest where t: "safeJoin upr dst (zf_Name f) False = Inr target"
    "mkdirAll os (path_Dir target) st = (None, st1)" "zf_Open f = Some rc"
    "writeBounded os lims target rc (int64 (int (zf_UncompressedSize64 f))) st1 = (None, rest, st')" "probe_clean rest"
    by (auto simp: extractZipFile_def Let_def split: sum.splits prod.splits option.splits if_splits)
  obtain content fin where rc: "rc = (content, fin)" by (cases rc)
  show ?thesis using writeBounded_done [OF t(4) [unfolded rc] t(5)] t rc ModeRegular mkdirAll_done [OF t(2)]
    by (simp add: honest_entry_def zip_update_def zip_target_def)
next
  case ModeSpecial
  then show ?thesis using assms by (simp add: extractZipFile_def)
qed

lemma extract_all_done:
  assumes "\<And>f st st'. step f st = (None, st') \<Longrightarrow> good f \<and> ex_files st' = upd f (ex_files st)"
  shows "extract_all step fs st = (None, st') \<Longrightarrow> list_all good fs \<and> ex_files st' = fold upd fs (ex_files st)"
proof (induction fs arbitrary: st)
  case (Cons f fs)
  then obtain st1 where "step f st = (None, st1)" "extract_all step fs st1 = (None, st')" by (auto split: prod.splits option.splits)
  then show ?case using Cons.IH [of st1] assms by simp
qed simp

text \<open>
  C24. A zip extraction that reports success has extracted everything: no entry was a link or another special file, every
  regular entry delivered exactly the number of bytes its header declares and ended there, and the files
  are those of the entries with their complete content, the last of several entries with one path being the one that stays.
\<close>

theorem zip_success_complete:
  assumes "unpackZip upr os lims dst (Some files) ex_start = (None, st)"
  shows "list_all (honest_entry upr dst) files \<and> ex_files st = fold (zip_update upr dst) files []"
proof -
  have "extract_all (extractZipFile upr os lims dst) files ex_start = (None, st)" using assms by (auto simp: unpackZip_def split: if_splits)
  from extract_all_done [where good = "honest_entry upr dst" and upd = "zip_update upr dst", OF extractZipFile_done this] show ?thesis by (simp add: ex_start_def)
qed

section \<open>Concrete archives\<close>

definition sample_os :: os_env where
  "sample_os = \<lparr>oe_mkdir = \<lambda>_ _. True, oe_create = \<lambda>_ _. True, oe_room = \<lambda>_ _. None, oe_close = \<lambda>_ _. True\<rparr>"

definition sample_file :: "string \<Rightarrow> nat \<Rightarrow> bytes \<Rightarrow> zip_file" where
  "sample_file name n content =
     \<lparr>zf_Name = name, zf_Mode = ModeRegular, zf_UncompressedSize64 = n, zf_Open = Some (content, StreamEOF)\<rparr>"

definition sample_archive :: archive where
  "sample_archive =
     \<lparr>ar_size = Some 300, ar_magic = [0x50, 0x4b],
      ar_zip = Some [sample_file ''core/bin'' 3 [1, 2, 3], sample_file ''core/LICENSE'' 0 [], sample_file ''core/bin'' 2 [4, 5]],
      ar_tar = None, ar_gz = None\<rparr>"

lemma sane_default: "sane_limits DefaultLimits"
  by (simp add: sane_limits_def DefaultLimits_def)

theorem unpack_bounded_witness:
  "extraction_bounded DefaultLimits ''/opt/cores'' (Unpack id id sample_os DefaultLimits ''/tmp/core.zip'' sample_archive ''/opt/cores'') \<and>
   fst (Unpack id id sample_os DefaultLimits ''/tmp/core.zip'' sample_archive ''/opt/cores'') = None"
proof
  have "path_elem (gz_name ''/tmp/core.zip'')" by code_simp
  then show "extraction_bounded DefaultLimits ''/opt/cores'' (Unpack id id sample_os DefaultLimits ''/tmp/core.zip'' sample_archive ''/opt/cores'')"
    by (rule unpack_bounded [OF sane_default])
  show "fst (Unpack id id sample_os DefaultLimits ''/tmp/core.zip'' sample_archive ''/opt/cores'') = None" by code_simp
qed

theorem zip_success_complete_witness:
  "\<exists>st. unpackZip id sample_os DefaultLimits ''/opt/cores'' (ar_zip sample_archive) ex_start = (None, st) \<and>
     ex_files st = [(''/opt/cores/core/bin'', [4, 5]), (''/opt/cores/core/LICENSE'', [])]"
proof -
  let ?fs = "[sample_file ''core/bin'' 3 [1, 2, 3], sample_file ''core/LICENSE'' 0 [], sample_file ''core/bin'' 2 [4, 5]]"
  have z: "ar_zip sample_archive = Some ?fs" by (simp add: sample_archive_def)
  have "fst (unpackZip id sample_os DefaultLimits ''/opt/cores'' (Some ?fs) ex_start) = None" by code_simp
  then obtain st where st: "unpackZip id sample_os DefaultLimits ''/opt/cores'' (Some ?fs) ex_start = (None, st)" by (metis prod.collapse)
  have "fold (zip_update id ''/opt/cores'') ?fs [] = [(''/opt/cores/core/bin'', [4, 5]), (''/opt/cores/core/LICENSE'', [])]" by code_simp
  with zip_success_complete [OF st] st z show ?thesis by auto
qed

definition total_only :: arch_limits where
  "total_only = \<lparr>al_MaxArchiveBytes = 0, al_MaxTotalBytes = 10, al_MaxFileBytes = 0, al_MaxFiles = 0\<rparr>"

text \<open>
  C32. With a total budget and no limit for single files, the budget can be bypassed: an entry after a non-empty one that declares
  \<open>2\<^sup>6\<^sup>3 - 1\<close> bytes makes the sum wrap around, and all its content is written to the disk before the entry is refused.
\<close>

theorem total_budget_bypassed:
  assumes "n < 2 ^ 62"
  shows "bytes_on_disk (snd (unpackZip id sample_os total_only ''/d''
     (Some [sample_file ''a'' 1 [0], sample_file ''b'' (2 ^ 63 - 1) (replicate n 0)]) ex_start)) = int n + 1"
proof -
  let ?f = "sample_file ''a'' 1 [0]" and ?g = "sample_file ''b'' (2 ^ 63 - 1) (replicate n 0)"
  let ?st1 = "\<lparr>ex_files = [(''/d/a'', [0])], ex_dirs = [''/d''], ex_total = 1, ex_entries = 0\<rparr> :: extraction"
  let ?st2 = "\<lparr>ex_files = [(''/d/a'', [0])], ex_dirs = [''/d'', ''/d''], ex_total = 1, ex_entries = 0\<rparr> :: extraction"
  have 1: "extractZipFile id sample_os total_only ''/d'' ?f ex_start = (None, ?st1)" by code_simp
  have j: "safeJoin id ''/d'' ''b'' False = Inr ''/d/b''" "path_Dir ''/d/b'' = ''/d''" by code_simp+
  have m: "mkdirAll sample_os ''/d'' ?st1 = (None, ?st2)" by (simp add: mkdirAll_def sample_os_def)
  have d: "int64 (int (2 ^ 63 - 1)) = 2 ^ 63 - 1" by (simp add: int64_def)
  have t: "\<not> over_total total_only ?st2 (2 ^ 63 - 1)" "\<not> over_file total_only (2 ^ 63 - 1)"
    by (simp_all add: over_total_def over_file_def total_only_def int64_def)
  have c: "copyN None (nat (2 ^ 63 - 1)) (replicate n 0, StreamEOF) = (replicate n 0, ([], StreamEOF), Some CopyEOF)"
    using assms by (simp add: copyN_def Let_def min_def)
  have w: "writeBounded sample_os total_only ''/d/b'' (replicate n 0, StreamEOF) (2 ^ 63 - 1) ?st2 =
      (Some ErrLimit, ([], StreamEOF), (put_file ''/d/b'' (replicate n 0) ?st2)\<lparr>ex_total := int64 (1 + int n)\<rparr>)"
    using t c by (simp add: writeBounded_def sample_os_def Let_def)
  have "extractZipFile id sample_os total_only ''/d'' ?g ?st1 = (Some ErrLimit, (put_file ''/d/b'' (replicate n 0) ?st2)\<lparr>ex_total := int64 (1 + int n)\<rparr>)"
    using j m d t w by (simp add: extractZipFile_def sample_file_def Let_def)
  then show ?thesis using 1 by (simp add: unpackZip_def total_only_def bytes_on_disk_def put_file_def)
qed

theorem total_budget_bypassed_witness:
  "bytes_on_disk (snd (unpackZip id sample_os total_only ''/d''
     (Some [sample_file ''a'' 1 [0], sample_file ''b'' (2 ^ 63 - 1) (replicate 5000 0)]) ex_start)) = 5001"
  using total_budget_bypassed [of 5000] by simp

end
