(* ===== verification/Scheduler.thy ===== *)
theory Scheduler
  imports Prelude ConfigData
begin

text \<open>
  The scheduler of maintenance cycles (\<open>engine/scheduler/scheduler.go\<close>): its options, \<open>Start\<close>, \<open>Stop\<close>, \<open>Wake\<close>, the loop, the
  deferred start cycle and \<open>runCycle\<close>. The goroutines interleave: each is a program counter between two of the sections that hold
  the lock, and \<open>sched_do\<close> executes one of them. A run of the loop, its context and its done channel have one number; the goroutine of
  the deferred start cycle has the number of the loop that started it.
\<close>

section \<open>State and operations\<close>

record sched_opts =
  sc_Interval :: duration
  sc_Jitter :: duration
  sc_RunOnStart :: bool
  sc_InitialDelay :: duration

definition sched_New :: "sched_opts \<Rightarrow> sched_opts" where
  "sched_New opts =
     (let o1 = (if sc_Interval opts \<le> 0 then opts\<lparr>sc_Interval := hour\<rparr> else opts)
      in if sc_Jitter o1 < 0 then o1\<lparr>sc_Jitter := 0\<rparr> else o1)"

text \<open>The random number of \<open>rand.Int63n\<close> is an argument.\<close>

definition sched_jittered :: "sched_opts \<Rightarrow> int \<Rightarrow> duration" where
  "sched_jittered opts r =
     (if sc_Jitter opts = 0 then sc_Interval opts
      else
        let half = go_div (sc_Jitter opts) 2;
            offset = int64 (r - half);
            adjusted = int64 (sc_Interval opts + offset)
        in if adjusted < second then second else adjusted)"

record 'e scheduler =
  sd_running :: bool
  sd_busy :: bool
  sd_lastErr :: "'e option"
  sd_runCount :: nat
  sd_current :: "nat option"
  sd_wake :: bool

definition sched_init :: "'e scheduler" where
  "sched_init = \<lparr>sd_running = False, sd_busy = False, sd_lastErr = None, sd_runCount = 0, sd_current = None, sd_wake = False\<rparr>"

definition Wake :: "'e scheduler \<Rightarrow> 'e scheduler" where
  "Wake d = (if sd_wake d then d else d\<lparr>sd_wake := True\<rparr>)"

definition runCycle_begin :: "'e scheduler \<Rightarrow> bool \<times> 'e scheduler" where
  "runCycle_begin d = (if sd_busy d then (False, d) else (True, d\<lparr>sd_busy := True\<rparr>))"

definition runCycle_end :: "'e option \<Rightarrow> 'e scheduler \<Rightarrow> 'e scheduler" where
  "runCycle_end err d = d\<lparr>sd_busy := False, sd_lastErr := err, sd_runCount := (sd_runCount d + 1) mod 2 ^ 64\<rparr>"

section \<open>Goroutines\<close>

datatype sched_pc = SNone | SStart | SDelay | SWait | SFired | SEnter | SCycle | SEnd

datatype sched_thread = Loop nat | Deferred nat

datatype sched_stop_pc = StopCancel nat | StopJoin nat | StopMark nat | StopDone nat

record 'e sched_sys =
  sy_sched :: "'e scheduler"
  sy_pcs :: "(sched_thread, sched_pc) gomap"
  sy_next :: nat
  sy_cancelled :: "nat list"
  sy_stops :: "sched_stop_pc list"
  sy_results :: "'e option list"

definition sched_start :: "'e sched_sys" where
  "sched_start = \<lparr>sy_sched = sched_init, sy_pcs = [], sy_next = 0, sy_cancelled = [], sy_stops = [], sy_results = []\<rparr>"

definition thread_pc :: "'e sched_sys \<Rightarrow> sched_thread \<Rightarrow> sched_pc" where
  "thread_pc s t = (case gget (sy_pcs s) t of None \<Rightarrow> SNone | Some pc \<Rightarrow> pc)"

definition goto :: "sched_thread \<Rightarrow> sched_pc \<Rightarrow> 'e sched_sys \<Rightarrow> 'e sched_sys" where
  "goto t pc s = s\<lparr>sy_pcs := gput t pc (sy_pcs s)\<rparr>"

fun thread_ctx :: "sched_thread \<Rightarrow> nat" where
  "thread_ctx (Loop n) = n"
| "thread_ctx (Deferred n) = n"

text \<open>Where a goroutine goes on after a cycle, or after one was skipped.\<close>

fun after_cycle :: "sched_thread \<Rightarrow> sched_pc" where
  "after_cycle (Loop _) = SWait"
| "after_cycle (Deferred _) = SEnd"

datatype 'e sched_label =
    CallStart
  | CallWake
  | CancelParent nat
  | LoopBegin nat
  | LoopWoken nat
  | Timer sched_thread
  | SeenDone sched_thread
  | CheckCtx sched_thread
  | Enter sched_thread
  | Leave sched_thread "'e option"
  | CallStop
  | StopStep nat

definition Start :: "'e sched_sys \<Rightarrow> 'e sched_sys" where
  "Start s =
     (let d = sy_sched s; n = sy_next s in
      if sd_running d then s
      else goto (Loop n) SStart (s\<lparr>sy_sched := d\<lparr>sd_running := True, sd_current := Some n\<rparr>, sy_next := n + 1\<rparr>))"

definition loop_begin :: "sched_opts \<Rightarrow> nat \<Rightarrow> 'e sched_sys \<Rightarrow> 'e sched_sys" where
  "loop_begin opts n s =
     (if sc_RunOnStart opts then
        if sc_InitialDelay opts > 0 then goto (Loop n) SWait (goto (Deferred n) SDelay s) else goto (Loop n) SEnter s
      else goto (Loop n) SWait s)"

definition stop_begin :: "'e sched_sys \<Rightarrow> 'e sched_sys" where
  "stop_begin s =
     (if \<not> sd_running (sy_sched s) then s
      else case sd_current (sy_sched s) of None \<Rightarrow> s | Some n \<Rightarrow> s\<lparr>sy_stops := sy_stops s @ [StopCancel n]\<rparr>)"

fun stop_step :: "nat \<Rightarrow> sched_stop_pc \<Rightarrow> 'e sched_sys \<Rightarrow> 'e sched_sys option" where
  "stop_step i (StopCancel n) s = Some (s\<lparr>sy_cancelled := n # sy_cancelled s, sy_stops := (sy_stops s)[i := StopJoin n]\<rparr>)"
| "stop_step i (StopJoin n) s = (if thread_pc s (Loop n) = SEnd then Some (s\<lparr>sy_stops := (sy_stops s)[i := StopMark n]\<rparr>) else None)"
| "stop_step i (StopMark n) s =
     Some (s\<lparr>sy_sched := (sy_sched s)\<lparr>sd_running := False\<rparr>, sy_stops := (sy_stops s)[i := StopDone n]\<rparr>)"
| "stop_step i (StopDone n) s = None"

fun sched_do :: "sched_opts \<Rightarrow> 'e sched_label \<Rightarrow> 'e sched_sys \<Rightarrow> 'e sched_sys option" where
  "sched_do opts CallStart s = Some (Start s)"
| "sched_do opts CallWake s = Some (s\<lparr>sy_sched := Wake (sy_sched s)\<rparr>)"
| "sched_do opts (CancelParent n) s = Some (s\<lparr>sy_cancelled := n # sy_cancelled s\<rparr>)"
| "sched_do opts (LoopBegin n) s = (if thread_pc s (Loop n) = SStart then Some (loop_begin opts n s) else None)"
| "sched_do opts (LoopWoken n) s =
     (if thread_pc s (Loop n) = SWait \<and> sd_wake (sy_sched s)
      then Some (goto (Loop n) SFired (s\<lparr>sy_sched := (sy_sched s)\<lparr>sd_wake := False\<rparr>\<rparr>)) else None)"
| "sched_do opts (Timer t) s = (if thread_pc s t = SWait \<or> thread_pc s t = SDelay then Some (goto t SFired s) else None)"
| "sched_do opts (SeenDone t) s =
     (if (thread_pc s t = SWait \<or> thread_pc s t = SDelay) \<and> thread_ctx t \<in> set (sy_cancelled s) then Some (goto t SEnd s) else None)"
| "sched_do opts (CheckCtx t) s =
     (if thread_pc s t = SFired then Some (goto t (if thread_ctx t \<in> set (sy_cancelled s) then SEnd else SEnter) s) else None)"
| "sched_do opts (Enter t) s =
     (if thread_pc s t = SEnter then
        (case runCycle_begin (sy_sched s) of (entered, d) \<Rightarrow> Some (goto t (if entered then SCycle else after_cycle t) (s\<lparr>sy_sched := d\<rparr>)))
      else None)"
| "sched_do opts (Leave t err) s =
     (if thread_pc s t = SCycle
      then Some (goto t (after_cycle t) (s\<lparr>sy_sched := runCycle_end err (sy_sched s), sy_results := sy_results s @ [err]\<rparr>)) else None)"
| "sched_do opts CallStop s = Some (stop_begin s)"
| "sched_do opts (StopStep i) s = (if i < length (sy_stops s) then stop_step i (sy_stops s ! i) s else None)"

fun sched_exec :: "sched_opts \<Rightarrow> 'e sched_label list \<Rightarrow> 'e sched_sys \<Rightarrow> 'e sched_sys option" where
  "sched_exec opts [] s = Some s"
| "sched_exec opts (l # ls) s = (case sched_do opts l s of None \<Rightarrow> None | Some s' \<Rightarrow> sched_exec opts ls s')"

section \<open>Cycles never overlap\<close>

definition in_cycle :: "'e sched_sys \<Rightarrow> sched_thread set" where
  "in_cycle s = {t. thread_pc s t = SCycle}"



lemma thread_pc_goto [simp]: "thread_pc (goto t pc s) u = (if u = t then pc else thread_pc s u)"
  by (simp add: thread_pc_def goto_def update_conv')

lemma goto_fields [simp]:
  "sy_sched (goto t pc s) = sy_sched s" "sy_results (goto t pc s) = sy_results s" "sy_stops (goto t pc s) = sy_stops s"
  "sy_cancelled (goto t pc s) = sy_cancelled s" "sy_next (goto t pc s) = sy_next s"
  by (simp_all add: goto_def)

lemma thread_pc_fields [simp]:
  "thread_pc (s\<lparr>sy_sched := d\<rparr>) = thread_pc s" "thread_pc (s\<lparr>sy_results := r\<rparr>) = thread_pc s" "thread_pc (s\<lparr>sy_stops := x\<rparr>) = thread_pc s"
  "thread_pc (s\<lparr>sy_cancelled := c\<rparr>) = thread_pc s" "thread_pc (s\<lparr>sy_next := n\<rparr>) = thread_pc s"
  by (simp_all add: thread_pc_def fun_eq_iff)


lemma in_cycle_cong: "thread_pc s' = thread_pc s \<Longrightarrow> in_cycle s' = in_cycle s"
  by (simp add: in_cycle_def)

lemma in_cycle_fields [simp]:
  "in_cycle (s\<lparr>sy_sched := d\<rparr>) = in_cycle s" "in_cycle (s\<lparr>sy_results := r\<rparr>) = in_cycle s" "in_cycle (s\<lparr>sy_stops := x\<rparr>) = in_cycle s"
  "in_cycle (s\<lparr>sy_cancelled := c\<rparr>) = in_cycle s" "in_cycle (s\<lparr>sy_next := n\<rparr>) = in_cycle s"
  by (rule in_cycle_cong, simp)+



lemma after_cycle_other [simp]: "after_cycle t \<noteq> SCycle" "after_cycle t \<noteq> SStart"
  by (cases t; simp)+
























definition deferred_opts :: sched_opts where
  "deferred_opts = \<lparr>sc_Interval = hour, sc_Jitter = 0, sc_RunOnStart = True, sc_InitialDelay = 3 * second\<rparr>"


text \<open>
  C28. \<open>Stop\<close> does not wait for the deferred start cycle: with the options the application uses, a run in which the start cycle is in progress
  when \<open>Stop\<close> has returned, and the scheduler reports itself as not running but busy.
\<close>

theorem stop_leaves_start_cycle:
  "\<exists>ls s. sched_exec deferred_opts ls (sched_start :: nat sched_sys) = Some s \<and> sy_stops s = [StopDone 0] \<and>
     thread_pc s (Deferred 0) = SCycle \<and> \<not> sd_running (sy_sched s) \<and> sd_busy (sy_sched s)"
proof -
  let ?ls = "[CallStart, LoopBegin 0, Timer (Deferred 0), CheckCtx (Deferred 0), Enter (Deferred 0), CallStop, StopStep 0, SeenDone (Loop 0),
     StopStep 0, StopStep 0] :: nat sched_label list"
  have "sched_exec deferred_opts ?ls sched_start =
     Some \<lparr>sy_sched = \<lparr>sd_running = False, sd_busy = True, sd_lastErr = None, sd_runCount = 0, sd_current = Some 0, sd_wake = False\<rparr>,
       sy_pcs = [(Loop 0, SEnd), (Deferred 0, SCycle)], sy_next = 1, sy_cancelled = [0], sy_stops = [StopDone 0], sy_results = []\<rparr>" by code_simp
  then show ?thesis by (intro exI conjI) (assumption, simp_all add: thread_pc_def)
qed

text \<open>
  Two overlapping calls of \<open>Stop\<close> with a \<open>Start\<close> between their ends leave a scheduler whose next \<open>Start\<close> adds a second loop: the later
  \<open>Stop\<close> marks the scheduler as not running although the loop started in between is alive.
\<close>

theorem overlapping_stops_double_loop:
  "\<exists>ls s. sched_exec deferred_opts ls (sched_start :: nat sched_sys) = Some s \<and> thread_pc s (Loop 1) = SWait \<and> thread_pc s (Loop 2) = SWait \<and>
     sd_current (sy_sched s) = Some 2 \<and> 1 \<notin> set (sy_cancelled s)"
proof -
  let ?ls = "[CallStart, LoopBegin 0, CallStop, CallStop, StopStep 0, StopStep 1, SeenDone (Loop 0), StopStep 0, StopStep 1, StopStep 0,
     CallStart, LoopBegin 1, StopStep 1, CallStart, LoopBegin 2] :: nat sched_label list"
  have "sched_exec deferred_opts ?ls sched_start =
     Some \<lparr>sy_sched = \<lparr>sd_running = True, sd_busy = False, sd_lastErr = None, sd_runCount = 0, sd_current = Some 2, sd_wake = False\<rparr>,
       sy_pcs = [(Loop 0, SEnd), (Deferred 0, SDelay), (Loop 1, SWait), (Deferred 1, SDelay), (Loop 2, SWait), (Deferred 2, SDelay)],
       sy_next = 3, sy_cancelled = [0, 0], sy_stops = [StopDone 0, StopDone 0], sy_results = []\<rparr>" by code_simp
  then show ?thesis by (intro exI conjI) (assumption, simp_all add: thread_pc_def)
qed

section \<open>Intervals\<close>

text \<open>
  The delay between cycles deviates from the interval by at most half the jitter, rounded up, unless it is raised to one second.
\<close>

theorem jitter_bounded:
  assumes "0 \<le> r" "r \<le> sc_Jitter (sched_New opts)" "sc_Interval opts < 2 ^ 61" "sc_Jitter opts < 2 ^ 61" "- (2 ^ 61) < sc_Interval opts"
  shows "sched_jittered (sched_New opts) r = second \<or>
    \<bar>sched_jittered (sched_New opts) r - sc_Interval (sched_New opts)\<bar> \<le> (sc_Jitter (sched_New opts) + 1) div 2"
proof -
  let ?o = "sched_New opts"
  have i: "0 < sc_Interval ?o" "sc_Interval ?o < 2 ^ 61" "0 \<le> sc_Jitter ?o" "sc_Jitter ?o < 2 ^ 61"
    using assms(3,4) by (auto simp: sched_New_def Let_def hour_def minute_def second_def)
  have h: "go_div (sc_Jitter ?o) 2 = sc_Jitter ?o div 2" using i(3) by (auto simp: go_div_def sgn_if)
  have o: "int64 (r - sc_Jitter ?o div 2) = r - sc_Jitter ?o div 2" unfolding int64_def using assms(1,2) i by auto
  have a: "int64 (sc_Interval ?o + (r - sc_Jitter ?o div 2)) = sc_Interval ?o + (r - sc_Jitter ?o div 2)"
    unfolding int64_def using assms(1,2) i by auto
  show ?thesis using assms(1,2) i(3) by (auto simp: sched_jittered_def h o a Let_def)
qed

theorem jitter_bounded_witness:
  "sched_jittered (sched_New (deferred_opts\<lparr>sc_Jitter := 600 * second\<rparr>)) 7 = second \<or>
   \<bar>sched_jittered (sched_New (deferred_opts\<lparr>sc_Jitter := 600 * second\<rparr>)) 7 - sc_Interval (sched_New (deferred_opts\<lparr>sc_Jitter := 600 * second\<rparr>))\<bar>
     \<le> (sc_Jitter (sched_New (deferred_opts\<lparr>sc_Jitter := 600 * second\<rparr>)) + 1) div 2"
  by (rule jitter_bounded) (simp_all add: deferred_opts_def sched_New_def hour_def minute_def second_def)

end
