(* ===== verification/Singleflight.thy ===== *)
theory Singleflight
  imports Prelude
begin

text \<open>
  In-flight deduplication (\<open>internal/singleflight/singleflight.go\<close>): \<open>Do\<close>, the detached execution and \<open>wait\<close>. An execution is a
  number, the group's map sends keys to executions, and callers and executions interleave; each section that holds the lock, and each operation on a
  done channel, is one label of \<open>flight_do\<close>. The key type is \<open>string\<close>; a panic of the function ends the process and is left out.
\<close>

section \<open>Calls and callers\<close>

datatype flight_stage = Running | Computed | Retired | Closed

record 'v flight =
  fl_key :: string
  fl_stage :: flight_stage
  fl_result :: "'v option"

datatype 'v wait_outcome = Waiting | Returned 'v | CtxErr

text \<open>\<open>ca_joined\<close> records the stage of the execution when the caller joined it.\<close>

record 'v flight_caller =
  ca_key :: string
  ca_call :: nat
  ca_outcome :: "'v wait_outcome"
  ca_joined :: flight_stage

record 'v flight_group =
  fg_m :: "(string, nat) gomap"
  fg_calls :: "'v flight list"
  fg_callers :: "'v flight_caller list"

definition flight_start :: "'v flight_group" where
  "flight_start = \<lparr>fg_m = [], fg_calls = [], fg_callers = []\<rparr>"

definition Do_enter :: "string \<Rightarrow> 'v flight_group \<Rightarrow> 'v flight_group" where
  "Do_enter key g =
     (case gget (fg_m g) key of
        Some c \<Rightarrow>
          g\<lparr>fg_callers := fg_callers g @ [\<lparr>ca_key = key, ca_call = c, ca_outcome = Waiting, ca_joined = fl_stage (fg_calls g ! c)\<rparr>]\<rparr>
      | None \<Rightarrow>
          let c = length (fg_calls g) in
          g\<lparr>fg_m := gput key c (fg_m g), fg_calls := fg_calls g @ [\<lparr>fl_key = key, fl_stage = Running, fl_result = None\<rparr>],
            fg_callers := fg_callers g @ [\<lparr>ca_key = key, ca_call = c, ca_outcome = Waiting, ca_joined = Running\<rparr>]\<rparr>)"

definition exec_finish :: "nat \<Rightarrow> 'v \<Rightarrow> 'v flight_group \<Rightarrow> 'v flight_group" where
  "exec_finish c v g = g\<lparr>fg_calls := (fg_calls g)[c := (fg_calls g ! c)\<lparr>fl_stage := Computed, fl_result := Some v\<rparr>]\<rparr>"

definition exec_retire :: "nat \<Rightarrow> 'v flight_group \<Rightarrow> 'v flight_group" where
  "exec_retire c g =
     g\<lparr>fg_m := gdel (fl_key (fg_calls g ! c)) (fg_m g), fg_calls := (fg_calls g)[c := (fg_calls g ! c)\<lparr>fl_stage := Retired\<rparr>]\<rparr>"

definition exec_close :: "nat \<Rightarrow> 'v flight_group \<Rightarrow> 'v flight_group" where
  "exec_close c g = g\<lparr>fg_calls := (fg_calls g)[c := (fg_calls g ! c)\<lparr>fl_stage := Closed\<rparr>]\<rparr>"

datatype 'v flight_label = CallDo string | ExecFinish nat 'v | ExecRetire nat | ExecClose nat | WaitDone nat | WaitCancelled nat

definition wait_set :: "nat \<Rightarrow> 'v wait_outcome \<Rightarrow> 'v flight_group \<Rightarrow> 'v flight_group" where
  "wait_set w out g = g\<lparr>fg_callers := (fg_callers g)[w := (fg_callers g ! w)\<lparr>ca_outcome := out\<rparr>]\<rparr>"

fun flight_do :: "'v flight_label \<Rightarrow> 'v flight_group \<Rightarrow> 'v flight_group option" where
  "flight_do (CallDo key) g = Some (Do_enter key g)"
| "flight_do (ExecFinish c v) g =
     (if c < length (fg_calls g) \<and> fl_stage (fg_calls g ! c) = Running then Some (exec_finish c v g) else None)"
| "flight_do (ExecRetire c) g =
     (if c < length (fg_calls g) \<and> fl_stage (fg_calls g ! c) = Computed then Some (exec_retire c g) else None)"
| "flight_do (ExecClose c) g =
     (if c < length (fg_calls g) \<and> fl_stage (fg_calls g ! c) = Retired then Some (exec_close c g) else None)"
| "flight_do (WaitDone w) g =
     (if w < length (fg_callers g) \<and> ca_outcome (fg_callers g ! w) = Waiting
      then (let f = fg_calls g ! ca_call (fg_callers g ! w) in
            case (fl_stage f, fl_result f) of (Closed, Some v) \<Rightarrow> Some (wait_set w (Returned v) g) | _ \<Rightarrow> None)
      else None)"
| "flight_do (WaitCancelled w) g =
     (if w < length (fg_callers g) \<and> ca_outcome (fg_callers g ! w) = Waiting then Some (wait_set w CtxErr g) else None)"

fun flight_exec :: "'v flight_label list \<Rightarrow> 'v flight_group \<Rightarrow> 'v flight_group option" where
  "flight_exec [] g = Some g"
| "flight_exec (l # ls) g = (case flight_do l g of None \<Rightarrow> None | Some g' \<Rightarrow> flight_exec ls g')"

section \<open>Sharing\<close>

definition in_flight :: "'v flight_group \<Rightarrow> nat \<Rightarrow> bool" where
  "in_flight g c \<longleftrightarrow> c < length (fg_calls g) \<and> (fl_stage (fg_calls g ! c) = Running \<or> fl_stage (fg_calls g ! c) = Computed)"

definition calls_ok :: "'v flight_group \<Rightarrow> bool" where
  "calls_ok g \<longleftrightarrow>
     (\<forall>key c. gget (fg_m g) key = Some c \<longleftrightarrow> in_flight g c \<and> fl_key (fg_calls g ! c) = key) \<and>
     (\<forall>c < length (fg_calls g). fl_result (fg_calls g ! c) = None \<longleftrightarrow> fl_stage (fg_calls g ! c) = Running)"

definition caller_ok :: "'v flight_group \<Rightarrow> 'v flight_caller \<Rightarrow> bool" where
  "caller_ok g w \<longleftrightarrow>
     ca_call w < length (fg_calls g) \<and> fl_key (fg_calls g ! ca_call w) = ca_key w \<and> (ca_joined w = Running \<or> ca_joined w = Computed) \<and>
     (\<forall>v. ca_outcome w = Returned v \<longrightarrow> fl_result (fg_calls g ! ca_call w) = Some v \<and> fl_stage (fg_calls g ! ca_call w) = Closed)"

definition callers_ok :: "'v flight_group \<Rightarrow> bool" where
  "callers_ok g \<longleftrightarrow> list_all (caller_ok g) (fg_callers g)"

lemma calls_ok_start: "calls_ok flight_start \<and> callers_ok flight_start"
  by (simp add: calls_ok_def callers_ok_def flight_start_def in_flight_def)

lemma enter_new:
  assumes ok: "calls_ok g" and n: "gget (fg_m g) key = None"
  shows "calls_ok (Do_enter key g)"
proof -
  let ?c = "length (fg_calls g)"
  have fl: "in_flight (Do_enter key g) c \<longleftrightarrow> c = ?c \<or> in_flight g c" for c
    using n by (auto simp: in_flight_def Do_enter_def Let_def nth_append)
  have k: "fl_key (fg_calls (Do_enter key g) ! c) = (if c = ?c then key else fl_key (fg_calls g ! c))" if "c \<le> ?c" for c
    using n that by (auto simp: Do_enter_def Let_def nth_append)
  have m: "gget (fg_m (Do_enter key g)) key' = (if key' = key then Some ?c else gget (fg_m g) key')" for key'
    using n by (simp add: Do_enter_def Let_def update_conv')
  have old: "gget (fg_m g) key' = Some c \<longleftrightarrow> in_flight g c \<and> fl_key (fg_calls g ! c) = key'"  for key' c
    using ok by (simp add: calls_ok_def)
  have lt: "in_flight g c \<longrightarrow> c < ?c" for c by (simp add: in_flight_def)
  have "gget (fg_m (Do_enter key g)) key' = Some c \<longleftrightarrow> in_flight (Do_enter key g) c \<and> fl_key (fg_calls (Do_enter key g) ! c) = key'" for key' c
    using m [of key'] old [of key' c] old [of key c] lt [of c] n fl [of c] k [of c] by (cases "c = ?c"; cases "key' = key") auto
  moreover have "\<forall>c < length (fg_calls (Do_enter key g)). fl_result (fg_calls (Do_enter key g) ! c) = None \<longleftrightarrow> fl_stage (fg_calls (Do_enter key g) ! c) = Running"
    using ok n by (auto simp: calls_ok_def Do_enter_def Let_def nth_append less_Suc_eq)
  ultimately show ?thesis by (simp add: calls_ok_def)
qed

lemma caller_ok_mono:
  assumes "caller_ok g w" "ca_call w < length (fg_calls g) \<Longrightarrow> ca_call w < length (fg_calls g') \<and>
      fl_key (fg_calls g' ! ca_call w) = fl_key (fg_calls g ! ca_call w) \<and>
      (fl_stage (fg_calls g ! ca_call w) = Closed \<longrightarrow> fg_calls g' ! ca_call w = fg_calls g ! ca_call w)"
  shows "caller_ok g' w"
  using assms by (auto simp: caller_ok_def)

lemma caller_ok_cong: "fg_calls g' = fg_calls g \<Longrightarrow> caller_ok g' = caller_ok g"
  by (intro ext) (simp add: caller_ok_def)

lemma enter_ok:
  assumes ok: "calls_ok g" "callers_ok g"
  shows "calls_ok (Do_enter key g) \<and> callers_ok (Do_enter key g)"
proof (cases "gget (fg_m g) key")
  case None
  have "list_all (caller_ok (Do_enter key g)) (fg_callers g)"
    using ok(2) None by (auto simp: callers_ok_def list_all_iff Do_enter_def Let_def nth_append intro: caller_ok_mono)
  then show ?thesis using enter_new [OF ok(1) None] None by (simp add: callers_ok_def Do_enter_def Let_def caller_ok_def)
next
  case (Some c)
  then have "in_flight g c" "fl_key (fg_calls g ! c) = key" using ok(1) by (auto simp: calls_ok_def)
  moreover define w :: "'a flight_caller" where "w = \<lparr>ca_key = key, ca_call = c, ca_outcome = Waiting, ca_joined = fl_stage (fg_calls g ! c)\<rparr>"
  ultimately have w: "caller_ok g w" by (auto simp: caller_ok_def in_flight_def)
  have e: "Do_enter key g = g\<lparr>fg_callers := fg_callers g @ [w]\<rparr>" using Some by (simp add: Do_enter_def w_def)
  have same: "caller_ok (Do_enter key g) = caller_ok g" unfolding e by (rule caller_ok_cong) simp
  have "calls_ok (Do_enter key g)" using ok(1) unfolding e by (simp add: calls_ok_def in_flight_def)
  then show ?thesis using ok(2) w unfolding callers_ok_def same by (simp add: e)
qed

text \<open>A change of one execution that keeps its key and does not touch closed ones.\<close>

lemma callers_change:
  assumes "callers_ok g" "fl_key f = fl_key (fg_calls g ! c)" "fl_stage (fg_calls g ! c) \<noteq> Closed"
  shows "list_all (caller_ok (g\<lparr>fg_m := m, fg_calls := (fg_calls g)[c := f]\<rparr>)) (fg_callers g)"
  unfolding list_all_iff
proof
  fix w
  assume "w \<in> set (fg_callers g)"
  then have "caller_ok g w" using assms(1) by (simp add: callers_ok_def list_all_iff)
  then show "caller_ok (g\<lparr>fg_m := m, fg_calls := (fg_calls g)[c := f]\<rparr>) w"
    by (rule caller_ok_mono) (use assms(2,3) in \<open>cases "ca_call w = c"; auto\<close>)
qed

lemma finish_ok:
  assumes ok: "calls_ok g" "callers_ok g" and c: "c < length (fg_calls g)" "fl_stage (fg_calls g ! c) = Running"
  shows "calls_ok (exec_finish c v g) \<and> callers_ok (exec_finish c v g)"
proof
  show "calls_ok (exec_finish c v g)" using ok(1) c by (auto simp: calls_ok_def exec_finish_def in_flight_def nth_list_update)
  show "callers_ok (exec_finish c v g)"
    using callers_change [OF ok(2), of "(fg_calls g ! c)\<lparr>fl_stage := Computed, fl_result := Some v\<rparr>" c "fg_m g"] c(2)
    by (simp add: callers_ok_def exec_finish_def)
qed

lemma retire_ok:
  assumes ok: "calls_ok g" "callers_ok g" and c: "c < length (fg_calls g)" "fl_stage (fg_calls g ! c) = Computed"
  shows "calls_ok (exec_retire c g) \<and> callers_ok (exec_retire c g)"
proof
  have m: "gget (fg_m g) (fl_key (fg_calls g ! c)) = Some c" using ok(1) c by (auto simp: calls_ok_def in_flight_def)
  have "gget (fg_m (exec_retire c g)) key = Some d \<longleftrightarrow> in_flight (exec_retire c g) d \<and> fl_key (fg_calls (exec_retire c g) ! d) = key" for key d
  proof (cases "d = c")
    case True
    have "gget (fg_m g) key = Some c \<longrightarrow> key = fl_key (fg_calls g ! c)" using ok(1) by (auto simp: calls_ok_def)
    then show ?thesis using True c by (auto simp: exec_retire_def in_flight_def nth_list_update delete_conv')
  next
    case False
    have old: "gget (fg_m g) key' = Some d \<longleftrightarrow> in_flight g d \<and> fl_key (fg_calls g ! d) = key'" for key' using ok(1) by (simp add: calls_ok_def)
    have "in_flight (exec_retire c g) d = in_flight g d" "fg_calls (exec_retire c g) ! d = fg_calls g ! d"
      using False by (auto simp: exec_retire_def in_flight_def)
    then show ?thesis using False m old [of key] old [of "fl_key (fg_calls g ! c)"] by (auto simp: exec_retire_def delete_conv')
  qed
  moreover have "\<forall>d < length (fg_calls (exec_retire c g)). fl_result (fg_calls (exec_retire c g) ! d) = None \<longleftrightarrow> fl_stage (fg_calls (exec_retire c g) ! d) = Running"
    using ok(1) c by (auto simp: calls_ok_def exec_retire_def nth_list_update)
  ultimately show "calls_ok (exec_retire c g)" by (simp add: calls_ok_def)
  show "callers_ok (exec_retire c g)"
    using callers_change [OF ok(2), of "(fg_calls g ! c)\<lparr>fl_stage := Retired\<rparr>" c] c(2) by (simp add: callers_ok_def exec_retire_def)
qed

lemma close_ok:
  assumes ok: "calls_ok g" "callers_ok g" and c: "c < length (fg_calls g)" "fl_stage (fg_calls g ! c) = Retired"
  shows "calls_ok (exec_close c g) \<and> callers_ok (exec_close c g)"
proof
  show "calls_ok (exec_close c g)" using ok(1) c by (auto simp: calls_ok_def exec_close_def in_flight_def nth_list_update)
  show "callers_ok (exec_close c g)"
    using callers_change [OF ok(2), of "(fg_calls g ! c)\<lparr>fl_stage := Closed\<rparr>" c "fg_m g"] c(2) by (simp add: callers_ok_def exec_close_def)
qed

lemma wait_ok:
  assumes ok: "calls_ok g" "callers_ok g" and w: "w < length (fg_callers g)"
    and o: "\<And>v. out = Returned v \<Longrightarrow> fl_result (fg_calls g ! ca_call (fg_callers g ! w)) = Some v \<and>
       fl_stage (fg_calls g ! ca_call (fg_callers g ! w)) = Closed"
  shows "calls_ok (wait_set w out g) \<and> callers_ok (wait_set w out g)"
proof
  show "calls_ok (wait_set w out g)" using ok(1) by (simp add: calls_ok_def wait_set_def in_flight_def)
  have same: "caller_ok (wait_set w out g) = caller_ok g" by (rule caller_ok_cong) (simp add: wait_set_def)
  have "caller_ok g (fg_callers g ! w)" using ok(2) w by (simp add: callers_ok_def list_all_length)
  then have "caller_ok g ((fg_callers g ! w)\<lparr>ca_outcome := out\<rparr>)" using o by (simp add: caller_ok_def)
  then show "callers_ok (wait_set w out g)" using ok(2) set_update_subset_insert [of "fg_callers g" w] unfolding callers_ok_def same
    by (fastforce simp: wait_set_def list_all_iff)
qed

lemma flight_step_ok: "flight_do l g = Some g' \<Longrightarrow> calls_ok g \<Longrightarrow> callers_ok g \<Longrightarrow> calls_ok g' \<and> callers_ok g'"
proof (cases l)
  case (WaitDone w)
  assume "flight_do l g = Some g'" "calls_ok g" "callers_ok g"
  with WaitDone wait_ok [of g w] show ?thesis by (auto simp: Let_def split: if_splits flight_stage.splits option.splits)
next
  case (WaitCancelled w)
  assume "flight_do l g = Some g'" "calls_ok g" "callers_ok g"
  with WaitCancelled wait_ok [of g w CtxErr] show ?thesis by (auto split: if_splits)
qed (auto simp: enter_ok finish_ok retire_ok close_ok split: if_splits)

lemma flight_exec_ok: "flight_exec ls g = Some g' \<Longrightarrow> calls_ok g \<Longrightarrow> callers_ok g \<Longrightarrow> calls_ok g' \<and> callers_ok g'"
proof (induction ls arbitrary: g)
  case (Cons l ls)
  then obtain h where "flight_do l g = Some h" "flight_exec ls h = Some g'" by (auto split: option.splits)
  then show ?case using Cons flight_step_ok by blast
qed simp

text \<open>
  C22. However callers, executions and cancellations interleave: two executions in progress have different keys; a caller that returned a value returned the
  result of an execution for its own key that had not been retired when it called; and callers that joined the same execution return the same value.
\<close>

theorem flights_shared:
  assumes "flight_exec ls flight_start = Some g"
  shows "(in_flight g c \<and> in_flight g d \<and> fl_key (fg_calls g ! c) = fl_key (fg_calls g ! d) \<longrightarrow> c = d) \<and>
    (w \<in> set (fg_callers g) \<and> ca_outcome w = Returned v \<longrightarrow>
       fl_key (fg_calls g ! ca_call w) = ca_key w \<and> (ca_joined w = Running \<or> ca_joined w = Computed) \<and>
       fl_result (fg_calls g ! ca_call w) = Some v) \<and>
    (w \<in> set (fg_callers g) \<and> u \<in> set (fg_callers g) \<and> ca_call w = ca_call u \<and> ca_outcome w = Returned v \<and> ca_outcome u = Returned v' \<longrightarrow> v = v')"
proof -
  have "calls_ok g \<and> callers_ok g" by (rule flight_exec_ok [OF assms]) (simp_all add: calls_ok_start)
  then have ok: "calls_ok g" "callers_ok g" by simp_all
  have "c = d" if "in_flight g c" "in_flight g d" "fl_key (fg_calls g ! c) = fl_key (fg_calls g ! d)"
  proof -
    have "gget (fg_m g) (fl_key (fg_calls g ! c)) = Some c" "gget (fg_m g) (fl_key (fg_calls g ! c)) = Some d" using ok(1) that by (auto simp: calls_ok_def)
    then show ?thesis by simp
  qed
  moreover have "caller_ok g x" if "x \<in> set (fg_callers g)" for x using ok(2) that by (simp add: callers_ok_def list_all_iff)
  then have "ca_outcome x = Returned y \<Longrightarrow> fl_key (fg_calls g ! ca_call x) = ca_key x \<and> (ca_joined x = Running \<or> ca_joined x = Computed) \<and>
       fl_result (fg_calls g ! ca_call x) = Some y" if "x \<in> set (fg_callers g)" for x y using that by (simp add: caller_ok_def)
  from this [of w v] this [of u v'] calculation show ?thesis by auto
qed

theorem flights_shared_witness:
  "\<exists>g. flight_exec [CallDo ''v1'', CallDo ''v1'', CallDo ''v2'', ExecFinish 0 (7::nat), WaitCancelled 0, ExecRetire 0, CallDo ''v1'', ExecClose 0, WaitDone 1]
     flight_start = Some g \<and> length (fg_calls g) = 3 \<and> (in_flight g 1 \<and> in_flight g 2 \<and> fl_key (fg_calls g ! 1) \<noteq> fl_key (fg_calls g ! 2))"
proof -
  let ?ls = "[CallDo ''v1'', CallDo ''v1'', CallDo ''v2'', ExecFinish 0 (7::nat), WaitCancelled 0, ExecRetire 0, CallDo ''v1'', ExecClose 0, WaitDone 1]"
  have "case flight_exec ?ls flight_start of Some g \<Rightarrow> length (fg_calls g) = 3 \<and> in_flight g 1 \<and> in_flight g 2 | None \<Rightarrow> False" by code_simp
  then obtain g where g: "flight_exec ?ls flight_start = Some g" "length (fg_calls g) = 3" "in_flight g 1" "in_flight g 2" by (auto split: option.splits)
  moreover have "fl_key (fg_calls g ! 1) \<noteq> fl_key (fg_calls g ! 2)" using flights_shared [OF g(1), of 1 2] g(3,4) by auto
  ultimately show ?thesis by blast
qed

end
