(* ===== verification/TunnelProxy.thy ===== *)
theory TunnelProxy
  imports NetAddr GoStrings "HOL-Library.List_Lexorder" "HOL-Library.Char_ord"
begin

unbundle bit_operations_syntax

text \<open>
  The system proxy: the algebra of proxy snapshots and the controller (\<open>engine/tunnel/tunnel.go\<close>), the WinINet back end
  (\<open>proxy_windows.go\<close>) and the durable ownership marker with boot recovery (\<open>recovery.go\<close>). WinINet itself is a parameter: a
  machine state of any type with its set and query calls, of which nothing is assumed. The marker file is replaced
  atomically and its JSON codec is exact; failures of the file system are inputs. TUN sessions enter the
  controller as the outcome of the TUN back end.
\<close>

section \<open>Snapshots\<close>

record proxy_snapshot =
  sp_Enabled :: bool
  sp_Server :: string
  sp_Bypass :: "string list"
  sp_Override :: string
  sp_Saved :: bool
  sp_AutoConfigURL :: string
  sp_AutoDetect :: bool
  sp_Flags :: "32 word"
  sp_AutoDiscoveryFlags :: "32 word"

definition proxyTypeDirect :: "32 word" where "proxyTypeDirect = 1"
definition proxyTypeProxy :: "32 word" where "proxyTypeProxy = 2"
definition proxyTypeAutoProxyURL :: "32 word" where "proxyTypeAutoProxyURL = 4"
definition proxyTypeAutoDetect :: "32 word" where "proxyTypeAutoDetect = 8"

definition allProxyTypeFlags :: "32 word" where
  "allProxyTypeFlags = proxyTypeDirect OR proxyTypeProxy OR proxyTypeAutoProxyURL OR proxyTypeAutoDetect"

definition proxyModeOf :: "proxy_snapshot \<Rightarrow> string" where
  "proxyModeOf s =
     (if sp_Flags s \<noteq> 0 then
        if sp_Flags s AND proxyTypeAutoProxyURL \<noteq> 0 then ''autoconfig''
        else if sp_Flags s AND proxyTypeProxy \<noteq> 0 then ''explicit''
        else if sp_Flags s AND proxyTypeAutoDetect \<noteq> 0 then ''autodetect''
        else ''direct''
      else if sp_Enabled s \<and> sp_Server s \<noteq> [] then ''explicit'' else ''direct'')"

definition isLegacySnapshot :: "proxy_snapshot \<Rightarrow> bool" where
  "isLegacySnapshot s \<longleftrightarrow> sp_Flags s = 0"

definition zero_snapshot :: proxy_snapshot where
  "zero_snapshot =
     \<lparr>sp_Enabled = False, sp_Server = [], sp_Bypass = [], sp_Override = [], sp_Saved = False, sp_AutoConfigURL = [], sp_AutoDetect = False,
      sp_Flags = 0, sp_AutoDiscoveryFlags = 0\<rparr>"

definition normalizedProxyState :: "proxy_snapshot \<Rightarrow> proxy_snapshot" where
  "normalizedProxyState s =
     (let flags = sp_Flags s AND allProxyTypeFlags;
          server = TrimSpace (sp_Server s)
      in zero_snapshot
           \<lparr>sp_Server := server, sp_AutoConfigURL := TrimSpace (sp_AutoConfigURL s), sp_AutoDetect := sp_AutoDetect s,
            sp_AutoDiscoveryFlags := sp_AutoDiscoveryFlags s,
            sp_Bypass := sort (filter (\<lambda>e. e \<noteq> []) (map TrimSpace (sp_Bypass s))),
            sp_Flags := flags, sp_Enabled := (server \<noteq> [] \<and> flags = 0 \<and> proxyModeOf s = ''explicit'')\<rparr>)"

definition proxyStatesEqual :: "proxy_snapshot \<Rightarrow> proxy_snapshot \<Rightarrow> bool" where
  "proxyStatesEqual a b =
     (let na = normalizedProxyState a; nb = normalizedProxyState b; modeA = proxyModeOf na; modeB = proxyModeOf nb in
      if modeA \<noteq> modeB then False
      else if sp_Server na \<noteq> sp_Server nb then False
      else if (modeA = ''autoconfig'' \<or> modeB = ''autoconfig'') \<and> sp_AutoConfigURL na \<noteq> sp_AutoConfigURL nb then False
      else if (\<not> isLegacySnapshot na \<or> \<not> isLegacySnapshot nb) \<and> sp_AutoDetect na \<noteq> sp_AutoDetect nb then False
      else if sp_AutoDiscoveryFlags na \<noteq> 0 \<and> sp_AutoDiscoveryFlags na \<noteq> sp_AutoDiscoveryFlags nb then False
      else sp_Bypass na = sp_Bypass nb)"

text \<open>\<open>strings.Cut\<close> with the equals sign, as far as it is used: the part behind the first one.\<close>

definition cut_equals :: "string \<Rightarrow> string" where
  "cut_equals part = (case index_byte (CHR ''='') part of None \<Rightarrow> part | Some i \<Rightarrow> TrimSpace (drop (i + 1) part))"

definition endpoint_of :: "string \<Rightarrow> int \<Rightarrow> string" where
  "endpoint_of host port = host @ '':'' @ Itoa port"

definition systemProxyActivated :: "proxy_snapshot \<Rightarrow> string \<Rightarrow> int \<Rightarrow> bool" where
  "systemProxyActivated observed host port =
     (if sp_Flags observed \<noteq> 0 \<and> sp_Flags observed AND proxyTypeProxy = 0 then False
      else if sp_Flags observed = 0 \<and> \<not> sp_Enabled observed then False
      else list_ex (\<lambda>part. cut_equals (TrimSpace part) = endpoint_of host port) (split_char (CHR '';'') (sp_Server observed)))"

section \<open>The WinINet back end\<close>

record wi_options =
  wo_flags :: "32 word"
  wo_server :: string
  wo_bypass :: string
  wo_pac :: "string option"
  wo_auto :: "32 word option"

text \<open>The calls into WinINet on a machine: setting options, with its success and the machine afterwards; the
  flags, server and bypass strings; the autoconfiguration URL; the autodiscovery flags.\<close>

record 'w wininet =
  wi_set :: "wi_options \<Rightarrow> 'w \<Rightarrow> bool \<times> 'w"
  wi_core :: "'w \<Rightarrow> (32 word \<times> string \<times> string) option"
  wi_pac :: "'w \<Rightarrow> string"
  wi_auto :: "'w \<Rightarrow> 32 word"

record wi_backend =
  wb_saved :: proxy_snapshot
  wb_hasSaved :: bool

definition wb_init :: wi_backend where
  "wb_init = \<lparr>wb_saved = zero_snapshot, wb_hasSaved = False\<rparr>"

definition splitBypass :: "string \<Rightarrow> string list" where
  "splitBypass bypass =
     (if TrimSpace bypass = [] then [] else filter (\<lambda>s. s \<noteq> []) (map TrimSpace (split_char (CHR '';'') bypass)))"

definition wi_query :: "'w wininet \<Rightarrow> wi_backend \<Rightarrow> 'w \<Rightarrow> proxy_snapshot option" where
  "wi_query wi b w =
     (case wi_core wi w of
        None \<Rightarrow> None
      | Some (flags, server, bypass) \<Rightarrow>
          Some \<lparr>sp_Enabled = (flags AND proxyTypeProxy \<noteq> 0), sp_Server = server, sp_Bypass = splitBypass bypass, sp_Override = bypass,
            sp_Saved = wb_hasSaved b, sp_AutoConfigURL = wi_pac wi w, sp_AutoDetect = (flags AND proxyTypeAutoDetect \<noteq> 0),
            sp_Flags = flags AND allProxyTypeFlags, sp_AutoDiscoveryFlags = wi_auto wi w\<rparr>)"

definition has_NUL :: "string \<Rightarrow> bool" where
  "has_NUL s \<longleftrightarrow> CHR 0x00 \<in> set s"

definition setFull :: "'w wininet \<Rightarrow> 32 word \<Rightarrow> string \<Rightarrow> string \<Rightarrow> string \<Rightarrow> 32 word \<Rightarrow> 'w \<Rightarrow> bool \<times> 'w" where
  "setFull wi flags server bypass pac auto w =
     (if has_NUL server \<or> has_NUL bypass \<or> has_NUL pac then (False, w)
      else wi_set wi \<lparr>wo_flags = flags, wo_server = server, wo_bypass = bypass, wo_pac = (if pac \<noteq> [] then Some pac else None),
             wo_auto = (if auto \<noteq> 0 then Some auto else None)\<rparr> w)"

definition bypassJoin :: "string list \<Rightarrow> string" where
  "bypassJoin bypass = str_join '';'' bypass"

definition applySnapshot :: "'w wininet \<Rightarrow> proxy_snapshot \<Rightarrow> 'w \<Rightarrow> bool \<times> 'w" where
  "applySnapshot wi s w =
     (let flags0 = sp_Flags s AND allProxyTypeFlags;
          flags1 = (if flags0 = 0 then (if sp_Enabled s \<and> sp_Server s \<noteq> [] then proxyTypeProxy else proxyTypeDirect) else flags0);
          pac = sp_AutoConfigURL s;
          flags = (if pac = [] then flags1 AND NOT proxyTypeAutoProxyURL else flags1)
      in if flags = proxyTypeDirect then setFull wi flags [] (bypassJoin (sp_Bypass s)) [] (sp_AutoDiscoveryFlags s) w
         else setFull wi flags (sp_Server s) (bypassJoin (sp_Bypass s)) pac (sp_AutoDiscoveryFlags s) w)"

definition verifyMatches :: "'w wininet \<Rightarrow> wi_backend \<Rightarrow> proxy_snapshot \<Rightarrow> 'w \<Rightarrow> bool" where
  "verifyMatches wi b expected w =
     (case wi_query wi b w of None \<Rightarrow> False | Some observed \<Rightarrow> proxyStatesEqual observed expected)"

definition wi_Enable ::
  "'w wininet \<Rightarrow> string \<Rightarrow> int \<Rightarrow> bool \<Rightarrow> string list \<Rightarrow> wi_backend \<Rightarrow> 'w \<Rightarrow> bool \<times> wi_backend \<times> 'w" where
  "wi_Enable wi host port asHTTP bypass b w =
     (case wi_query wi b w of
        None \<Rightarrow> (False, b, w)
      | Some snap \<Rightarrow>
          let b1 = b\<lparr>wb_saved := snap, wb_hasSaved := True\<rparr>;
              proxyServer = (if asHTTP then ''http'' else ''socks'') @ ''='' @ endpoint_of host port
          in case setFull wi proxyTypeProxy proxyServer (str_join '';'' bypass) [] 0 w of (ok, w1) \<Rightarrow>
               if \<not> ok then (False, b1, w1)
               else case wi_query wi b1 w1 of
                 None \<Rightarrow> (False, b1, w1)
               | Some observed \<Rightarrow> (systemProxyActivated observed host port, b1, w1))"

definition wi_Disable :: "'w wininet \<Rightarrow> wi_backend \<Rightarrow> 'w \<Rightarrow> bool \<times> wi_backend \<times> 'w" where
  "wi_Disable wi b w =
     (if \<not> wb_hasSaved b then (case setFull wi proxyTypeDirect [] [] [] 0 w of (ok, w1) \<Rightarrow> (ok, b, w1))
      else case applySnapshot wi (wb_saved b) w of (ok, w1) \<Rightarrow>
        if \<not> ok then (False, b, w1)
        else if \<not> verifyMatches wi b (wb_saved b) w1 then (False, b, w1)
        else (True, wb_init, w1))"

definition wi_Restore :: "'w wininet \<Rightarrow> wi_backend \<Rightarrow> proxy_snapshot \<Rightarrow> 'w \<Rightarrow> bool \<times> 'w" where
  "wi_Restore wi b previous w =
     (case applySnapshot wi previous w of (ok, w1) \<Rightarrow> (ok \<and> verifyMatches wi b previous w1, w1))"

section \<open>The ownership marker\<close>

datatype ownershipPhase = NoPhase | PhasePending | PhaseActive | OtherPhase string

record recoveryRecord =
  rr_SchemaVersion :: int
  rr_Phase :: ownershipPhase
  rr_Endpoint :: string
  rr_EnabledAtMS :: int
  rr_Previous :: proxy_snapshot

datatype marker_file = NoMarker | Debris | Marker recoveryRecord

definition validateMarkerString :: "string \<Rightarrow> nat \<Rightarrow> bool" where
  "validateMarkerString txt maxLen \<longleftrightarrow>
     length txt \<le> maxLen \<and> list_all (\<lambda>c. \<not> ((of_char c :: nat) < 0x20 \<or> (of_char c :: nat) = 0x7f)) txt"

definition validateRecoveryRecord :: "recoveryRecord \<Rightarrow> bool" where
  "validateRecoveryRecord r \<longleftrightarrow>
     rr_SchemaVersion r \<in> {0, 1, 2} \<and> (case rr_Phase r of OtherPhase _ \<Rightarrow> False | _ \<Rightarrow> True) \<and>
     validateMarkerString (rr_Endpoint r) 256 \<and> validateMarkerString (sp_Server (rr_Previous r)) 2048 \<and>
     validateMarkerString (sp_AutoConfigURL (rr_Previous r)) 2048 \<and> list_all (\<lambda>e. validateMarkerString e 1024) (sp_Bypass (rr_Previous r))"

text \<open>The file system at one call: whether the marker can be written, read and removed, and the clock.\<close>

record marker_env =
  me_write :: bool
  me_read :: bool
  me_remove :: bool
  me_now :: int

definition writeRecoveryMarker :: "bool \<Rightarrow> marker_env \<Rightarrow> proxy_snapshot \<Rightarrow> string \<Rightarrow> marker_file \<Rightarrow> bool \<times> marker_file" where
  "writeRecoveryMarker persist env previous endpoint mf =
     (if \<not> persist then (True, mf)
      else
        let rec0 = \<lparr>rr_SchemaVersion = 2, rr_Phase = PhasePending, rr_Endpoint = endpoint, rr_EnabledAtMS = me_now env, rr_Previous = previous\<rparr>
        in if \<not> validateRecoveryRecord rec0 then (False, mf)
           else if me_write env then (True, Marker rec0) else (False, mf))"

definition readRecoveryRecord :: "marker_env \<Rightarrow> marker_file \<Rightarrow> marker_file option" where
  "readRecoveryRecord env mf = (if mf = NoMarker then Some NoMarker else if me_read env then Some mf else None)"

definition markOwnershipActive :: "bool \<Rightarrow> marker_env \<Rightarrow> string \<Rightarrow> marker_file \<Rightarrow> bool \<times> marker_file" where
  "markOwnershipActive persist env endpoint mf =
     (if \<not> persist then (True, mf)
      else case readRecoveryRecord env mf of
        Some (Marker r) \<Rightarrow>
          if me_write env then (True, Marker (r\<lparr>rr_Phase := PhaseActive, rr_Endpoint := (if endpoint \<noteq> [] then endpoint else rr_Endpoint r)\<rparr>))
          else (False, mf)
      | _ \<Rightarrow> (False, mf))"

definition clearRecoveryMarker :: "bool \<Rightarrow> marker_env \<Rightarrow> marker_file \<Rightarrow> bool \<times> marker_file" where
  "clearRecoveryMarker persist env mf =
     (if \<not> persist then (True, mf) else if mf = NoMarker then (True, NoMarker) else if me_remove env then (True, NoMarker) else (False, mf))"

text \<open>What survives a crash.\<close>

record 'w machine =
  ma_w :: 'w
  ma_marker :: marker_file

datatype recover_err = RecCorrupt | RecRead | RecRestore | RecVerify | RecResidual

definition RecoverStaleProxy ::
  "'w wininet \<Rightarrow> bool \<Rightarrow> marker_env \<Rightarrow> 'w machine \<Rightarrow> (bool \<times> recover_err option) \<times> 'w machine" where
  "RecoverStaleProxy wi persist env m =
     (if \<not> persist then ((False, None), m)
      else case readRecoveryRecord env (ma_marker m) of
        None \<Rightarrow> ((True, Some RecRead), m)
      | Some NoMarker \<Rightarrow> ((False, None), m)
      | Some Debris \<Rightarrow> ((True, Some RecCorrupt), m\<lparr>ma_marker := snd (clearRecoveryMarker persist env (ma_marker m))\<rparr>)
      | Some (Marker r) \<Rightarrow>
          if \<not> validateRecoveryRecord r then ((True, Some RecCorrupt), m\<lparr>ma_marker := snd (clearRecoveryMarker persist env (ma_marker m))\<rparr>)
          else case wi_Restore wi wb_init (rr_Previous r) (ma_w m) of (ok, w1) \<Rightarrow>
            let m1 = m\<lparr>ma_w := w1\<rparr> in
            if \<not> ok then ((True, Some RecRestore), m1)
            else case wi_query wi wb_init w1 of
              None \<Rightarrow> ((True, Some RecVerify), m1)
            | Some observed \<Rightarrow>
                if \<not> proxyStatesEqual observed (rr_Previous r) then ((True, Some RecVerify), m1)
                else case clearRecoveryMarker persist env (ma_marker m1) of (cleared, mf) \<Rightarrow>
                  ((True, if cleared then None else Some RecResidual), m1\<lparr>ma_marker := mf\<rparr>))"

section \<open>The controller\<close>

datatype tunnel_mode = ModeDirect | ModeSystemProxy | ModeTUN | ModeOther string

record tunnel_ctl =
  tc_enabled :: bool
  tc_mode :: tunnel_mode
  tc_endpoint :: string
  tc_backend :: wi_backend

definition ctl_init :: tunnel_ctl where
  "ctl_init = \<lparr>tc_enabled = False, tc_mode = ModeDirect, tc_endpoint = [], tc_backend = wb_init\<rparr>"

datatype proxyctl_err =
    ErrAlreadyEnabled | ErrCapture | ErrPersist | ErrActivate | ErrRollbackRestore | ErrRollbackMarker | ErrTun | ErrUnknownMode
  | ErrDisable | ErrOwnershipResidual

text \<open>An operation returns its error, the controller, and the machines it passes through, the last being the one it leaves: a crash
  can leave any of them.\<close>

definition rollbackEnable ::
  "'w wininet \<Rightarrow> bool \<Rightarrow> marker_env \<Rightarrow> wi_backend \<Rightarrow> proxy_snapshot \<Rightarrow> 'w machine \<Rightarrow> proxyctl_err \<times> 'w machine list" where
  "rollbackEnable wi persist env b previous m =
     (case wi_Restore wi b previous (ma_w m) of (ok, w1) \<Rightarrow>
        let m1 = m\<lparr>ma_w := w1\<rparr> in
        if \<not> ok then (ErrRollbackRestore, [m1])
        else case clearRecoveryMarker persist env (ma_marker m1) of (cleared, mf) \<Rightarrow>
          (if cleared then ErrActivate else ErrRollbackMarker, [m1, m1\<lparr>ma_marker := mf\<rparr>]))"

definition enable_system_proxy ::
  "'w wininet \<Rightarrow> bool \<Rightarrow> marker_env \<Rightarrow> string \<Rightarrow> int \<Rightarrow> bool \<Rightarrow> string list \<Rightarrow> tunnel_ctl \<Rightarrow> 'w machine
     \<Rightarrow> proxyctl_err option \<times> tunnel_ctl \<times> 'w machine list" where
  "enable_system_proxy wi persist env host port asHTTP bypass c m =
     (case wi_query wi (tc_backend c) (ma_w m) of
        None \<Rightarrow> (Some ErrCapture, c, [m])
      | Some previous \<Rightarrow>
          (case writeRecoveryMarker persist env previous (endpoint_of host port) (ma_marker m) of (ok, mf) \<Rightarrow>
             if \<not> ok then (Some ErrPersist, c, [m])
             else
               let m1 = m\<lparr>ma_marker := mf\<rparr> in
               case wi_Enable wi host port asHTTP bypass (tc_backend c) (ma_w m1) of (ok, b, w) \<Rightarrow>
                 let m2 = m1\<lparr>ma_w := w\<rparr>; c1 = c\<lparr>tc_backend := b\<rparr> in
                 if \<not> ok then (case rollbackEnable wi persist env b previous m2 of (e, ms) \<Rightarrow> (Some e, c1, [m, m1, m2] @ ms))
                 else case wi_query wi b w of
                   None \<Rightarrow> (case rollbackEnable wi persist env b previous m2 of (e, ms) \<Rightarrow> (Some e, c1, [m, m1, m2] @ ms))
                 | Some observed \<Rightarrow>
                     if \<not> systemProxyActivated observed host port
                     then (case rollbackEnable wi persist env b previous m2 of (e, ms) \<Rightarrow> (Some e, c1, [m, m1, m2] @ ms))
                     else
                       let m3 = m2\<lparr>ma_marker := snd (markOwnershipActive persist env (endpoint_of host port) (ma_marker m2))\<rparr> in
                       (None, c1\<lparr>tc_enabled := True, tc_mode := ModeSystemProxy, tc_endpoint := endpoint_of host port\<rparr>, [m, m1, m2, m3])))"

text \<open>The TUN back end is the outcome of its \<open>Enable\<close>; there is none when no options, or options without a configuration, are given.\<close>

definition tunnel_Enable ::
  "'w wininet \<Rightarrow> bool \<Rightarrow> marker_env \<Rightarrow> bool option \<Rightarrow> tunnel_mode \<Rightarrow> string \<Rightarrow> int \<Rightarrow> bool \<Rightarrow> string list \<Rightarrow> tunnel_ctl \<Rightarrow> 'w machine
     \<Rightarrow> proxyctl_err option \<times> tunnel_ctl \<times> 'w machine list" where
  "tunnel_Enable wi persist env tun mode host port asHTTP bypass c m =
     (if mode = ModeDirect then (None, c, [m])
      else if tc_enabled c then (Some ErrAlreadyEnabled, c, [m])
      else case mode of
        ModeSystemProxy \<Rightarrow> enable_system_proxy wi persist env host port asHTTP bypass c m
      | ModeTUN \<Rightarrow>
          (if tun = Some True then (None, c\<lparr>tc_enabled := True, tc_mode := ModeTUN, tc_endpoint := []\<rparr>, [m])
           else (Some ErrTun, if tun = None then c else c\<lparr>tc_mode := ModeDirect, tc_endpoint := []\<rparr>, [m]))
      | _ \<Rightarrow> (Some ErrUnknownMode, c, [m]))"

definition tunnel_Disable ::
  "'w wininet \<Rightarrow> bool \<Rightarrow> marker_env \<Rightarrow> bool \<Rightarrow> tunnel_ctl \<Rightarrow> 'w machine \<Rightarrow> proxyctl_err option \<times> tunnel_ctl \<times> 'w machine list" where
  "tunnel_Disable wi persist env tunOk c m =
     (let off = c\<lparr>tc_enabled := False, tc_mode := ModeDirect, tc_endpoint := []\<rparr> in
      if \<not> tc_enabled c then (None, c, [m])
      else case tc_mode c of
        ModeSystemProxy \<Rightarrow>
          (case wi_Disable wi (tc_backend c) (ma_w m) of (ok, b, w) \<Rightarrow>
             let m1 = m\<lparr>ma_w := w\<rparr> in
             if \<not> ok then (Some ErrDisable, c\<lparr>tc_backend := b\<rparr>, [m, m1])
             else case clearRecoveryMarker persist env (ma_marker m1) of (cleared, mf) \<Rightarrow>
               (if cleared then None else Some ErrOwnershipResidual, off\<lparr>tc_backend := b\<rparr>, [m, m1, m1\<lparr>ma_marker := mf\<rparr>]))
      | ModeTUN \<Rightarrow> if tunOk then (None, off, [m]) else (Some ErrDisable, c, [m])
      | _ \<Rightarrow> (None, off, [m]))"

section \<open>Snapshots compared\<close>

lemma proxyStatesEqual_refl: "proxyStatesEqual s s"
  by (simp add: proxyStatesEqual_def Let_def)

lemma normalized_Saved [simp]: "normalizedProxyState (s\<lparr>sp_Saved := x\<rparr>) = normalizedProxyState s"
  by (simp add: normalizedProxyState_def proxyModeOf_def Let_def)

lemma query_Saved: "wi_query wi b w = Some obs \<Longrightarrow> wi_query wi b' w = Some (obs\<lparr>sp_Saved := wb_hasSaved b'\<rparr>)"
  by (auto simp: wi_query_def split: option.splits prod.splits)

text \<open>What a machine has to report for a recorded state to count as restored.\<close>

definition reports :: "'w wininet \<Rightarrow> proxy_snapshot \<Rightarrow> 'w \<Rightarrow> bool" where
  "reports wi p w \<longleftrightarrow> verifyMatches wi wb_init p w"

lemma verifyMatches_backend: "verifyMatches wi b p w = reports wi p w"
proof (cases "wi_query wi b w")
  case None
  then have "wi_query wi wb_init w = None" by (auto simp: wi_query_def split: option.splits)
  with None show ?thesis by (simp add: reports_def verifyMatches_def)
next
  case (Some obs)
  show ?thesis using Some query_Saved [OF Some, of wb_init] by (simp add: reports_def verifyMatches_def proxyStatesEqual_def)
qed

section \<open>Ownership and recovery\<close>

text \<open>A machine from which the state \<open>p\<close> captured before the session is not lost: the marker records it, or there is no marker and
  the machine is the untouched one or reports it.\<close>

definition durable_ok :: "'w wininet \<Rightarrow> proxy_snapshot \<Rightarrow> 'w \<Rightarrow> 'w machine \<Rightarrow> bool" where
  "durable_ok wi p w0 x \<longleftrightarrow>
     ma_marker x = NoMarker \<and> (ma_w x = w0 \<or> reports wi p (ma_w x)) \<or>
     (\<exists>r. ma_marker x = Marker r \<and> validateRecoveryRecord r \<and> rr_Previous r = p)"

lemma clear_cases: "clearRecoveryMarker True env mf = (cleared, mf') \<Longrightarrow> if cleared then mf' = NoMarker else mf' = mf"
  by (auto simp: clearRecoveryMarker_def split: if_splits)

lemma validate_active: "validateRecoveryRecord r \<Longrightarrow> validateMarkerString e 256 \<Longrightarrow> validateRecoveryRecord (r\<lparr>rr_Phase := PhaseActive, rr_Endpoint := e\<rparr>)"
  by (simp add: validateRecoveryRecord_def)

lemma rollback_durable:
  assumes "ma_marker m = Marker r" "validateRecoveryRecord r" "rr_Previous r = p" "rollbackEnable wi True env b p m = (e, ms)" "x \<in> set ms"
  shows "durable_ok wi p w0 x"
proof -
  obtain ok w1 where rs: "wi_Restore wi b p (ma_w m) = (ok, w1)" by (cases "wi_Restore wi b p (ma_w m)")
  have v: "ok \<longrightarrow> reports wi p w1" using rs by (auto simp: wi_Restore_def verifyMatches_backend split: prod.splits)
  have "x = m\<lparr>ma_w := w1\<rparr> \<or> ok \<and> x = m\<lparr>ma_w := w1, ma_marker := snd (clearRecoveryMarker True env (ma_marker m))\<rparr>"
    using assms(4,5) rs by (auto simp: rollbackEnable_def Let_def split: if_splits prod.splits)
  then show ?thesis
  proof
    assume "x = m\<lparr>ma_w := w1\<rparr>"
    then show ?thesis using assms(1-3) by (auto simp: durable_ok_def)
  next
    assume a: "ok \<and> x = m\<lparr>ma_w := w1, ma_marker := snd (clearRecoveryMarker True env (ma_marker m))\<rparr>"
    obtain cl mf where c: "clearRecoveryMarker True env (ma_marker m) = (cl, mf)" by (cases "clearRecoveryMarker True env (ma_marker m)")
    show ?thesis using a v assms(1-3) clear_cases [OF c] c by (cases cl) (auto simp: durable_ok_def)
  qed
qed

lemma written_record:
  assumes "writeRecoveryMarker True env p e mf = (True, mf')"
  shows "\<exists>r. mf' = Marker r \<and> validateRecoveryRecord r \<and> rr_Previous r = p \<and> rr_Endpoint r = e"
  using assms by (auto simp: writeRecoveryMarker_def Let_def split: if_splits)

lemma active_record:
  assumes "validateRecoveryRecord r" "rr_Endpoint r = e"
  shows "\<exists>r'. snd (markOwnershipActive True env e (Marker r)) = Marker r' \<and> validateRecoveryRecord r' \<and> rr_Previous r' = rr_Previous r"
proof -
  have "validateRecoveryRecord (r\<lparr>rr_Phase := PhaseActive, rr_Endpoint := e\<rparr>)"
    using assms by (intro validate_active) (auto simp: validateRecoveryRecord_def)
  then show ?thesis using assms by (auto simp: markOwnershipActive_def readRecoveryRecord_def)
qed

lemma enable_durable:
  assumes q: "wi_query wi (tc_backend c) (ma_w m) = Some p" and nm: "ma_marker m = NoMarker"
    and en: "enable_system_proxy wi True env host port asHTTP bypass c m = (e, c', ms)" and x: "x \<in> set ms"
  shows "durable_ok wi p (ma_w m) x"
proof -
  let ?e = "endpoint_of host port"
  obtain ok mf where wr: "writeRecoveryMarker True env p ?e (ma_marker m) = (ok, mf)" by (cases "writeRecoveryMarker True env p ?e (ma_marker m)")
  have m0: "durable_ok wi p (ma_w m) m" using nm by (simp add: durable_ok_def)
  show ?thesis
  proof (cases ok)
    case False
    then have "x = m" using en x q wr by (auto simp: enable_system_proxy_def)
    then show ?thesis using m0 by simp
  next
    case True
    obtain r where r: "mf = Marker r" "validateRecoveryRecord r" "rr_Previous r = p" "rr_Endpoint r = ?e"
    using written_record [of env p ?e "ma_marker m" mf] wr True by auto
    obtain ok2 b w where we: "wi_Enable wi host port asHTTP bypass (tc_backend c) (ma_w m) = (ok2, b, w)"
      by (cases "wi_Enable wi host port asHTTP bypass (tc_backend c) (ma_w m)")
    let ?m1 = "m\<lparr>ma_marker := mf\<rparr>" and ?m2 = "m\<lparr>ma_marker := mf, ma_w := w\<rparr>"
    obtain re rms where rb: "rollbackEnable wi True env b p ?m2 = (re, rms)" by (cases "rollbackEnable wi True env b p ?m2")
    let ?m3 = "?m2\<lparr>ma_marker := snd (markOwnershipActive True env ?e mf)\<rparr>"
    have "x \<in> set ([m, ?m1, ?m2] @ rms) \<or> x = ?m3"
      using en x q wr True we rb by (auto simp: enable_system_proxy_def Let_def split: if_splits option.splits)
    then consider "x = m" | "x = ?m1" | "x = ?m2" | "x \<in> set rms" | "x = ?m3" by auto
    then show ?thesis
    proof cases
      case 4
      then show ?thesis using rollback_durable [OF _ r(2,3) rb] r(1) by simp
    next
      case 5
      obtain r' where "snd (markOwnershipActive True env ?e mf) = Marker r'" "validateRecoveryRecord r'" "rr_Previous r' = p"
        using active_record [OF r(2,4), of env] r(1,3) by auto
      then show ?thesis using 5 by (auto simp: durable_ok_def)
    qed (use m0 r in \<open>auto simp: durable_ok_def\<close>)
  qed
qed

lemma enable_session:
  assumes q: "wi_query wi (tc_backend c) (ma_w m) = Some p" and nm: "ma_marker m = NoMarker"
    and en: "enable_system_proxy wi True env host port asHTTP bypass c m = (None, c', ms)"
  shows "tc_enabled c' \<and> tc_mode c' = ModeSystemProxy \<and> wb_hasSaved (tc_backend c') \<and> wb_saved (tc_backend c') = p \<and> ms \<noteq> [] \<and>
    (\<exists>r. ma_marker (last ms) = Marker r \<and> validateRecoveryRecord r \<and> rr_Previous r = p)"
proof -
  let ?e = "endpoint_of host port"
  obtain ok mf where wr: "writeRecoveryMarker True env p ?e (ma_marker m) = (ok, mf)" by (cases "writeRecoveryMarker True env p ?e (ma_marker m)")
  have True: "ok" using en q wr by (auto simp: enable_system_proxy_def split: if_splits)
  obtain r where r: "mf = Marker r" "validateRecoveryRecord r" "rr_Previous r = p" "rr_Endpoint r = ?e"
    using written_record [of env p ?e "ma_marker m" mf] wr True by auto
  obtain ok2 b w where we: "wi_Enable wi host port asHTTP bypass (tc_backend c) (ma_w m) = (ok2, b, w)"
    by (cases "wi_Enable wi host port asHTTP bypass (tc_backend c) (ma_w m)")
  have b: "b = (tc_backend c)\<lparr>wb_saved := p, wb_hasSaved := True\<rparr>"
    using we q by (auto simp: wi_Enable_def Let_def split: prod.splits if_splits option.splits)
  let ?m2 = "m\<lparr>ma_marker := mf, ma_w := w\<rparr>"
  obtain re rms where rb: "rollbackEnable wi True env b p ?m2 = (re, rms)" by (cases "rollbackEnable wi True env b p ?m2")
  obtain r' where "snd (markOwnershipActive True env ?e mf) = Marker r'" "validateRecoveryRecord r'" "rr_Previous r' = p"
    using active_record [OF r(2,4), of env] r(1,3) by auto
  then show ?thesis using en q wr True we rb b
    by (auto simp: enable_system_proxy_def Let_def split: if_splits option.splits)
qed

lemma disable_durable:
  assumes c: "tc_mode c = ModeSystemProxy" "wb_hasSaved (tc_backend c)" "wb_saved (tc_backend c) = p"
    and r: "ma_marker m = Marker r" "validateRecoveryRecord r" "rr_Previous r = p"
    and d: "tunnel_Disable wi True env tunOk c m = (e, c', ms)" and x: "x \<in> set ms"
  shows "durable_ok wi p w0 x"
proof -
  obtain ok b w where wd: "wi_Disable wi (tc_backend c) (ma_w m) = (ok, b, w)" by (cases "wi_Disable wi (tc_backend c) (ma_w m)")
  have v: "ok \<longrightarrow> reports wi p w" using wd c(2,3) by (auto simp: wi_Disable_def verifyMatches_backend split: prod.splits if_splits)
  obtain cl mf where cl: "clearRecoveryMarker True env (ma_marker m) = (cl, mf)" by (cases "clearRecoveryMarker True env (ma_marker m)")
  have "x = m \<or> x = m\<lparr>ma_w := w\<rparr> \<or> ok \<and> x = m\<lparr>ma_w := w, ma_marker := mf\<rparr>"
    using d x c(1) wd cl by (auto simp: tunnel_Disable_def Let_def split: if_splits)
  then show ?thesis using v r clear_cases [OF cl] by (cases cl) (auto simp: durable_ok_def)
qed

lemma recover_durable:
  assumes ok: "durable_ok wi p w0 x" and rc: "RecoverStaleProxy wi True env x = ((found, err), y)"
  shows "durable_ok wi p w0 y \<and> (err = None \<longrightarrow> ma_marker y = NoMarker)"
proof (cases "ma_marker x = NoMarker")
  case True
  then have "y = x" using rc by (auto simp: RecoverStaleProxy_def readRecoveryRecord_def)
  then show ?thesis using ok True by simp
next
  case False
  then obtain r where r: "ma_marker x = Marker r" "validateRecoveryRecord r" "rr_Previous r = p" using ok by (auto simp: durable_ok_def)
  obtain rok w1 where rs: "wi_Restore wi wb_init p (ma_w x) = (rok, w1)" by (cases "wi_Restore wi wb_init p (ma_w x)")
  have v: "rok \<longrightarrow> reports wi p w1" using rs by (auto simp: wi_Restore_def verifyMatches_backend split: prod.splits)
  obtain cl mf where cl: "clearRecoveryMarker True env (ma_marker x) = (cl, mf)" by (cases "clearRecoveryMarker True env (ma_marker x)")
  have "err \<noteq> None \<and> ma_marker y = Marker r \<or> rok \<and> cl \<and> err = None \<and> y = x\<lparr>ma_w := w1, ma_marker := mf\<rparr>"
    using rc r rs cl clear_cases [OF cl]
    by (auto simp: RecoverStaleProxy_def readRecoveryRecord_def Let_def split: if_splits option.splits)
  then show ?thesis using v r clear_cases [OF cl] by (auto simp: durable_ok_def)
qed

text \<open>Boots after a crash, each with its own failures of the file system.\<close>

fun boots :: "'w wininet \<Rightarrow> marker_env list \<Rightarrow> 'w machine \<Rightarrow> 'w machine" where
  "boots wi [] x = x"
| "boots wi (env # envs) x = boots wi envs (snd (RecoverStaleProxy wi True env x))"

lemma boots_durable: "durable_ok wi p w0 x \<Longrightarrow> durable_ok wi p w0 (boots wi envs x)"
proof (induction envs arbitrary: x)
  case (Cons env envs)
  obtain found err y where "RecoverStaleProxy wi True env x = ((found, err), y)" by (metis prod.exhaust)
  then show ?case using Cons recover_durable by fastforce
qed simp

text \<open>The machines a crash can leave in a session: those \<open>Enable\<close> passes through, and, if it succeeded and after whatever happened to the
  proxy settings meanwhile, those of \<open>Disable\<close>.\<close>

definition session_machines ::
  "'w wininet \<Rightarrow> marker_env \<Rightarrow> marker_env \<Rightarrow> string \<Rightarrow> int \<Rightarrow> bool \<Rightarrow> string list \<Rightarrow> 'w \<Rightarrow> tunnel_ctl \<Rightarrow> 'w machine \<Rightarrow> 'w machine list" where
  "session_machines wi env env' host port asHTTP bypass w' c m =
     (case tunnel_Enable wi True env None ModeSystemProxy host port asHTTP bypass c m of (e, c', ms) \<Rightarrow>
        if e = None then ms @ snd (snd (tunnel_Disable wi True env' False c' ((last ms)\<lparr>ma_w := w'\<rparr>))) else ms)"

text \<open>
  C5. The system proxy survives crashes: for every behaviour of WinINet and of the file system, if the process dies at any point of \<open>Enable\<close> or \<open>Disable\<close>
  of a session that started without a marker, then after any number of boots with failed recoveries, the first recovery that reports no error
  leaves no marker, and the machine is the one from before the session or reports the proxy state captured before it.
\<close>

theorem crash_recovers:
  assumes "wi_query wi (tc_backend c) (ma_w m) = Some p" "ma_marker m = NoMarker" "\<not> tc_enabled c"
    and "x \<in> set (session_machines wi env env' host port asHTTP bypass w' c m)"
    and "RecoverStaleProxy wi True env'' (boots wi envs x) = ((found, None), y)"
  shows "ma_marker y = NoMarker \<and> (ma_w y = ma_w m \<or> reports wi p (ma_w y))"
proof -
  obtain e c' ms where en: "enable_system_proxy wi True env host port asHTTP bypass c m = (e, c', ms)"
    by (cases "enable_system_proxy wi True env host port asHTTP bypass c m")
  then have te: "tunnel_Enable wi True env None ModeSystemProxy host port asHTTP bypass c m = (e, c', ms)" using assms(3) by (simp add: tunnel_Enable_def)
  let ?l = "(last ms)\<lparr>ma_w := w'\<rparr>"
  obtain de dc dms where di: "tunnel_Disable wi True env' False c' ?l = (de, dc, dms)" by (cases "tunnel_Disable wi True env' False c' ?l")
  consider "x \<in> set ms" | "e = None" "x \<in> set dms" using assms(4) te di by (auto simp: session_machines_def split: if_splits)
  then have "durable_ok wi p (ma_w m) x"
  proof cases
    case 1
    then show ?thesis by (rule enable_durable [OF assms(1,2) en])
  next
    case 2
    have s: "tc_mode c' = ModeSystemProxy" "wb_hasSaved (tc_backend c')" "wb_saved (tc_backend c') = p"
      and "\<exists>r. ma_marker (last ms) = Marker r \<and> validateRecoveryRecord r \<and> rr_Previous r = p"
      using enable_session [OF assms(1,2)] en 2(1) by blast+
    then obtain r where r: "ma_marker (last ms) = Marker r" "validateRecoveryRecord r" "rr_Previous r = p" by blast
    show ?thesis by (rule disable_durable [OF s _ r(2,3) di 2(2)]) (simp add: r(1))
  qed
  then have "durable_ok wi p (ma_w m) (boots wi envs x)" by (rule boots_durable)
  from recover_durable [OF this assms(5)] show ?thesis by (auto simp: durable_ok_def)
qed

text \<open>A machine whose settings are stored as they are given.\<close>

definition plain_wininet :: "(32 word \<times> string \<times> string) wininet" where
  "plain_wininet =
     \<lparr>wi_set = \<lambda>opts w. (True, (wo_flags opts, wo_server opts, wo_bypass opts)), wi_core = Some, wi_pac = \<lambda>_. [], wi_auto = \<lambda>_. 0\<rparr>"

definition env_ok :: marker_env where
  "env_ok = \<lparr>me_write = True, me_read = True, me_remove = True, me_now = 0\<rparr>"

definition direct_machine :: "(32 word \<times> string \<times> string) machine" where
  "direct_machine = \<lparr>ma_w = (1, [], []), ma_marker = NoMarker\<rparr>"

definition direct_snapshot :: proxy_snapshot where
  "direct_snapshot = zero_snapshot\<lparr>sp_Flags := 1\<rparr>"

definition session_marker :: marker_file where
  "session_marker =
     Marker \<lparr>rr_SchemaVersion = 2, rr_Phase = PhasePending, rr_Endpoint = ''h:1'', rr_EnabledAtMS = 0, rr_Previous = direct_snapshot\<rparr>"

definition crashed_machine :: "(32 word \<times> string \<times> string) machine" where
  "crashed_machine = \<lparr>ma_w = (2, ''socks=h:1'', []), ma_marker = session_marker\<rparr>"

lemma direct_query: "wi_query plain_wininet wb_init (1, [], []) = Some direct_snapshot"
  by (simp add: wi_query_def plain_wininet_def direct_snapshot_def zero_snapshot_def splitBypass_def wb_init_def proxyTypeProxy_def
      proxyTypeAutoDetect_def proxyTypeAutoProxyURL_def proxyTypeDirect_def allProxyTypeFlags_def)

lemma direct_record: "validateRecoveryRecord \<lparr>rr_SchemaVersion = 2, rr_Phase = PhasePending, rr_Endpoint = ''h:1'', rr_EnabledAtMS = 0, rr_Previous = direct_snapshot\<rparr>"
  by (simp add: validateRecoveryRecord_def validateMarkerString_def direct_snapshot_def zero_snapshot_def)

lemma crashed_reached: "crashed_machine \<in> set (session_machines plain_wininet env_ok env_ok ''h'' 1 False [] w' ctl_init direct_machine)"
proof -
  have e: "endpoint_of ''h'' 1 = ''h:1''" by code_simp
  have w: "writeRecoveryMarker True env_ok direct_snapshot ''h:1'' NoMarker = (True, session_marker)"
    using direct_record by (simp add: writeRecoveryMarker_def env_ok_def session_marker_def Let_def)
  have "snd (snd (wi_Enable plain_wininet ''h'' 1 False [] wb_init (1, [], []))) = (2, ''socks=h:1'', [])"
    using direct_query
    by (simp add: wi_Enable_def Let_def e setFull_def has_NUL_def plain_wininet_def proxyTypeProxy_def split: option.split)
  then obtain ok b where en: "wi_Enable plain_wininet ''h'' 1 False [] wb_init (1, [], []) = (ok, b, (2, ''socks=h:1'', []))"
    by (cases "wi_Enable plain_wininet ''h'' 1 False [] wb_init (1, [], [])") simp
  obtain er c' ms where te: "tunnel_Enable plain_wininet True env_ok None ModeSystemProxy ''h'' 1 False [] ctl_init direct_machine = (er, c', ms)"
    by (cases "tunnel_Enable plain_wininet True env_ok None ModeSystemProxy ''h'' 1 False [] ctl_init direct_machine")
  have "crashed_machine \<in> set (snd (snd (tunnel_Enable plain_wininet True env_ok None ModeSystemProxy ''h'' 1 False [] ctl_init direct_machine)))"
    using w direct_query en e
    by (simp add: tunnel_Enable_def enable_system_proxy_def ctl_init_def direct_machine_def crashed_machine_def Let_def
        split: prod.split option.split)
  then show ?thesis using te by (simp add: session_machines_def)
qed

lemma crashed_recovered: "RecoverStaleProxy plain_wininet True env_ok crashed_machine = ((True, None), direct_machine)"
proof -
  have a: "applySnapshot plain_wininet direct_snapshot w = (True, (1, [], []))" for w
    by (simp add: applySnapshot_def direct_snapshot_def zero_snapshot_def Let_def setFull_def has_NUL_def plain_wininet_def bypassJoin_def
        proxyTypeProxy_def proxyTypeAutoDetect_def proxyTypeAutoProxyURL_def proxyTypeDirect_def allProxyTypeFlags_def)
  then have "wi_Restore plain_wininet wb_init direct_snapshot w = (True, (1, [], []))" for w
    by (simp add: wi_Restore_def verifyMatches_def direct_query proxyStatesEqual_refl)
  then show ?thesis
    using direct_record by (simp add: RecoverStaleProxy_def readRecoveryRecord_def env_ok_def crashed_machine_def session_marker_def direct_query
        proxyStatesEqual_refl clearRecoveryMarker_def direct_machine_def Let_def)
qed

theorem crash_recovers_witness:
  "crashed_machine \<in> set (session_machines plain_wininet env_ok env_ok ''h'' 1 False [] (2, [], []) ctl_init direct_machine) \<and>
   ma_w crashed_machine \<noteq> ma_w direct_machine \<and>
   ma_marker (snd (RecoverStaleProxy plain_wininet True env_ok crashed_machine)) = NoMarker"
proof -
  have "wi_query plain_wininet (tc_backend ctl_init) (ma_w direct_machine) = Some direct_snapshot" "ma_marker direct_machine = NoMarker" "\<not> tc_enabled ctl_init"
    using direct_query by (simp_all add: ctl_init_def direct_machine_def)
  moreover have "RecoverStaleProxy plain_wininet True env_ok (boots plain_wininet [] crashed_machine) = ((True, None), direct_machine)"
    using crashed_recovered by simp
  ultimately have "ma_marker direct_machine = NoMarker" using crash_recovers [OF _ _ _ crashed_reached] by blast
  then show ?thesis using crashed_reached crashed_recovered by (simp add: crashed_machine_def direct_machine_def)
qed

section \<open>Where a state is lost\<close>

text \<open>
  C29. The marker of an unfinished session is overwritten: when \<open>Enable\<close> runs on a machine that still carries the marker of a crashed session (its recovery failed),
  it records what the machine reports now, the proxy of the dead session, and from then on no machine of the run has the
  original state in its marker.
\<close>

theorem enable_overwrites_evidence:
  assumes "wi_query wi (tc_backend c) (ma_w m) = Some q" "ma_marker m = Marker r" "\<not> tc_enabled c"
    and "writeRecoveryMarker True env q (endpoint_of host port) (ma_marker m) = (True, mf)"
    and "tunnel_Enable wi True env None ModeSystemProxy host port asHTTP bypass c m = (e, c', ms)" "x \<in> set (tl ms)"
  shows "ma_marker x = NoMarker \<or> (\<exists>r'. ma_marker x = Marker r' \<and> rr_Previous r' = q)"
proof -
  let ?e = "endpoint_of host port"
  obtain r0 where r0: "mf = Marker r0" "validateRecoveryRecord r0" "rr_Previous r0 = q" "rr_Endpoint r0 = ?e" using written_record [OF assms(4)] by blast
  have en: "enable_system_proxy wi True env host port asHTTP bypass c m = (e, c', ms)" using assms(3,5) by (simp add: tunnel_Enable_def)
  obtain ok2 b w where we: "wi_Enable wi host port asHTTP bypass (tc_backend c) (ma_w m) = (ok2, b, w)"
    by (cases "wi_Enable wi host port asHTTP bypass (tc_backend c) (ma_w m)")
  let ?m2 = "m\<lparr>ma_marker := mf, ma_w := w\<rparr>"
  obtain re rms where rb: "rollbackEnable wi True env b q ?m2 = (re, rms)" by (cases "rollbackEnable wi True env b q ?m2")
  have "x = m\<lparr>ma_marker := mf\<rparr> \<or> x = ?m2 \<or> x \<in> set rms \<or> x = ?m2\<lparr>ma_marker := snd (markOwnershipActive True env ?e mf)\<rparr>"
    using en assms(1,4,6) we rb by (auto simp: enable_system_proxy_def Let_def split: if_splits option.splits)
  moreover have "ma_marker x = NoMarker \<or> (\<exists>r'. ma_marker x = Marker r' \<and> rr_Previous r' = q)" if "x \<in> set rms"
    using rollback_durable [OF _ r0(2,3) rb that, of undefined] r0(1) by (auto simp: durable_ok_def)
  moreover obtain r' where "snd (markOwnershipActive True env ?e mf) = Marker r'" "rr_Previous r' = q"
    using active_record [OF r0(2,4), of env] r0(1,3) by auto
  ultimately show ?thesis using r0 by auto
qed

lemma stale_query: "wi_query plain_wininet wb_init (2, ''socks=h:1'', []) = Some (zero_snapshot\<lparr>sp_Enabled := True, sp_Server := ''socks=h:1'', sp_Flags := 2\<rparr>)"
  by (simp add: wi_query_def plain_wininet_def zero_snapshot_def splitBypass_def wb_init_def proxyTypeProxy_def
      proxyTypeAutoDetect_def proxyTypeAutoProxyURL_def proxyTypeDirect_def allProxyTypeFlags_def)

theorem enable_overwrites_evidence_witness:
  "\<exists>x. x \<in> set (tl (snd (snd (tunnel_Enable plain_wininet True env_ok None ModeSystemProxy ''h'' 2 False [] ctl_init crashed_machine)))) \<and>
     ma_marker x \<noteq> session_marker \<and> (ma_marker x = NoMarker \<or> (\<exists>r'. ma_marker x = Marker r' \<and> sp_Server (rr_Previous r') = ''socks=h:1''))"
proof -
  let ?q = "zero_snapshot\<lparr>sp_Enabled := True, sp_Server := ''socks=h:1'', sp_Flags := 2\<rparr>"
  let ?r = "\<lparr>rr_SchemaVersion = 2, rr_Phase = PhasePending, rr_Endpoint = ''h:2'', rr_EnabledAtMS = 0, rr_Previous = ?q\<rparr>"
  have e: "endpoint_of ''h'' 2 = ''h:2''" by code_simp
  have q: "wi_query plain_wininet (tc_backend ctl_init) (ma_w crashed_machine) = Some ?q" using stale_query by (simp add: ctl_init_def crashed_machine_def)
  have w: "writeRecoveryMarker True env_ok ?q (endpoint_of ''h'' 2) (ma_marker crashed_machine) = (True, Marker ?r)"
    by (simp add: e writeRecoveryMarker_def env_ok_def Let_def validateRecoveryRecord_def validateMarkerString_def zero_snapshot_def)
  obtain er c' ms where en: "tunnel_Enable plain_wininet True env_ok None ModeSystemProxy ''h'' 2 False [] ctl_init crashed_machine = (er, c', ms)"
    by (cases "tunnel_Enable plain_wininet True env_ok None ModeSystemProxy ''h'' 2 False [] ctl_init crashed_machine")
  have x: "crashed_machine\<lparr>ma_marker := Marker ?r\<rparr> \<in> set (tl ms)"
    using en q w by (auto simp: tunnel_Enable_def enable_system_proxy_def ctl_init_def Let_def split: prod.splits option.splits if_splits)
  have "ma_marker crashed_machine = Marker \<lparr>rr_SchemaVersion = 2, rr_Phase = PhasePending, rr_Endpoint = ''h:1'', rr_EnabledAtMS = 0, rr_Previous = direct_snapshot\<rparr>"
    by (simp add: crashed_machine_def session_marker_def)
  from enable_overwrites_evidence [OF q this _ w en x] x en
  show ?thesis by (intro exI [of _ "crashed_machine\<lparr>ma_marker := Marker ?r\<rparr>"]) (simp add: ctl_init_def session_marker_def)
qed

text \<open>
  A record that captured no autodiscovery flags can never be recovered on a machine that reports some: every recovery fails its verification and
  keeps the marker. The comparison looks at the flags of the observed side, not of the recorded one.
\<close>

theorem legacy_record_never_recovered:
  assumes "\<And>w. wi_auto wi w \<noteq> 0" "ma_marker m = Marker r" "validateRecoveryRecord r" "sp_AutoDiscoveryFlags (rr_Previous r) = 0"
  shows "snd (fst (RecoverStaleProxy wi True env m)) \<noteq> None \<and> ma_marker (snd (RecoverStaleProxy wi True env m)) = Marker r"
proof -
  have n: "\<not> proxyStatesEqual obs (rr_Previous r)" if "wi_query wi wb_init w = Some obs" for w obs
  proof -
    have "sp_AutoDiscoveryFlags obs \<noteq> 0" using that assms(1) by (auto simp: wi_query_def split: option.splits)
    then show ?thesis using assms(4) by (simp add: proxyStatesEqual_def normalizedProxyState_def Let_def)
  qed
  have "\<not> verifyMatches wi wb_init (rr_Previous r) w" for w using n by (auto simp: verifyMatches_def split: option.splits)
  then have "\<not> fst (wi_Restore wi wb_init (rr_Previous r) w)" for w by (simp add: wi_Restore_def split: prod.splits)
  moreover obtain ok w where "wi_Restore wi wb_init (rr_Previous r) (ma_w m) = (ok, w)" by (cases "wi_Restore wi wb_init (rr_Previous r) (ma_w m)")
  ultimately have "wi_Restore wi wb_init (rr_Previous r) (ma_w m) = (False, w)" by (metis fst_conv)
  then show ?thesis using assms(2,3) by (simp add: RecoverStaleProxy_def readRecoveryRecord_def Let_def)
qed

theorem legacy_record_never_recovered_witness:
  "snd (fst (RecoverStaleProxy (plain_wininet\<lparr>wi_auto := \<lambda>_. 1\<rparr>) True env_ok crashed_machine)) \<noteq> None \<and>
   ma_marker (snd (RecoverStaleProxy (plain_wininet\<lparr>wi_auto := \<lambda>_. 1\<rparr>) True env_ok crashed_machine)) = session_marker"
  using legacy_record_never_recovered [of "plain_wininet\<lparr>wi_auto := \<lambda>_. 1\<rparr>" crashed_machine _ env_ok, OF _ _ direct_record]
  by (simp add: crashed_machine_def session_marker_def direct_snapshot_def zero_snapshot_def)

end
