(* ===== verification/Spec2Isabelle.thy ===== *)
theory Spec2Isabelle
  imports LruCache TestQueueProps SsTunnel Socks5 ConfigProps Router EngineLife StoreCompact ConnTrace ConnPublish UiEmitter Httpx SafeArchive
    Scheduler Singleflight TunnelProxy
begin

text \<open>
  This library models the engine of FreeIran, a desktop program that collects proxy configurations, tests them, and runs
  a chosen one as a local proxy, and proves what its parts promise. The sources are the Go packages under \<open>src/engine\<close> and \<open>src/internal\<close>.

  \<^bold>\<open>The program.\<close> Subscriptions are parsed into configurations (\<open>engine/config\<close>), which a log-structured store keeps on disk
  (\<open>engine/store\<close>, over a write-ahead journal and chunk files) behind a bounded cache (\<open>engine/cache\<close>). A priority queue with a worker pool tests
  them (\<open>engine/testqueue\<close>); a scheduler starts the periodic work (\<open>engine/scheduler\<close>). To connect, the connection manager (\<open>engine/connection\<close>) asks the registry of
  protocol cores (\<open>engine/core\<close>) for a backend, starts it, verifies the tunnel through it and publishes snapshots of its state
  (\<open>internal/statepub\<close>) to the user interface. One backend is the first-party engine (\<open>engine/freecore\<close>): a SOCKS5 inbound, a router, outbounds (among
  them Shadowsocks) and a lifecycle that owns every goroutine. While connected the system proxy may point to it (\<open>engine/tunnel\<close>).
  Downloads go through a guarded HTTP client (\<open>internal/httpx\<close>), concurrent identical requests are shared (\<open>internal/singleflight\<close>),
  and downloaded cores are unpacked by a bounded extractor (\<open>internal/safearchive\<close>).

  \<^bold>\<open>Conventions.\<close> A definition has the name of the function it translates, with a prefix where HOL or another package has the name
  (\<open>layer_Put\<close>, \<open>config_Validate\<close>, \<open>tunnel_Enable\<close>). A struct is a record whose fields carry the Go names behind a short prefix, an
  enumeration a datatype, an error a constructor of the error type of its package. Go's \<open>int64\<close> values are integers; where an overflow matters
  the wrap-around is written out (\<open>int64\<close>, \<open>mod 2 ^ 64\<close>, words). A string is the list of its bytes. A map is an association list with
  distinct keys (\<open>gget\<close>, \<open>gput\<close>, \<open>gdel\<close> of \<open>Prelude\<close>). A pointer that is shared is an address or a number into an explicit store.
  Concurrency is interleaving: a section that runs under a lock, and each operation on a channel, a wait group or a listener, is one
  step; the states reachable by any sequence of steps are those the theorems speak about. What the network, the operating
  system, the clock, the random source and third-party code answer is an argument of the definitions. Where a theorem needs something of them
  (the cipher opens what it sealed, a socket writes what it is given) this is a named hypothesis, and a witness
  applies the theorem at a concrete instance.

  \<^bold>\<open>Foundations.\<close>
  \<^item> \<open>Prelude\<close>: the collections of rewrite rules, association lists for Go maps, and reachability with its induction rule.
  \<^item> \<open>NetAddr\<close>, \<open>GoStrings\<close>, \<open>UnixPath\<close>: what the sources use of \<open>net\<close>, \<open>net/netip\<close>, \<open>strconv\<close>, \<open>encoding/binary\<close>, \<open>strings\<close>,
    \<open>encoding/base64\<close>, \<open>encoding/hex\<close> and \<open>path/filepath\<close>, with the laws used later (printing and parsing of numbers and addresses,
    trimming, splitting and joining, \<open>Clean\<close> and \<open>Rel\<close>).
  \<^item> \<open>GoHeap\<close>: \<open>container/heap\<close>, proved once in a locale over any strict weak order: heap order, multiset of elements, and that \<open>Pop\<close> returns a least one.

  \<^bold>\<open>Cache and test queue.\<close>
  \<^item> \<open>LruCache\<close> (\<open>engine/cache/cache.go\<close>): the linked list, the map and the weights over an explicit store of entries. The invariant
    ties the three together, and every run of operations refines a plain recency list with budgets.
  \<^item> \<open>TestQueueData\<close>, \<open>TestQueue\<close>, \<open>TestQueueRun\<close>, \<open>TestQueueInv\<close>, \<open>TestQueueProps\<close> (\<open>engine/testqueue/queue.go\<close>, \<open>backlog.go\<close>): the data, the
    operations under the lock, the machine of a task's run and of the worker pool, the invariant over all interleavings, and its
    consequences: exact accounting, bounded core slots, permanent outcomes, duplicate suppression, order of dequeueing,
    a measure that every step of a run that does not poll decreases, convergence of the pool.

  \<^bold>\<open>Configurations.\<close> \<open>ConfigData\<close>, \<open>Config\<close>, \<open>ConfigProps\<close> (\<open>engine/config\<close>): normalisation, fingerprints, validation, redaction, failure classes, test history.
  Normalising and validating are stable, the verdict of the validation is characterised, and fingerprints identify exactly the identity fields up to
  collisions of the hash, which is a parameter.

  \<^bold>\<open>Persistence.\<close>
  \<^item> \<open>Wal\<close>, \<open>WalProps\<close> (\<open>engine/store/wal.go\<close>): records, segments, opening with replay and repair, appending with write and sync faults, checkpoints, the
    upgrade of old journals. A journal recovers what it acknowledged after any crash, is always usable, and its
    counters are those of its files; three runs in which records are lost or a journal cannot be opened are proved as well.
  \<^item> \<open>Chunks\<close> (\<open>engine/chunks/chunks.go\<close>): header and record codec, grouping, sequential reading, with their round trips.
  \<^item> \<open>Store\<close>, \<open>StoreProps\<close>, \<open>StoreScan\<close>, \<open>StoreCompact\<close> (\<open>engine/store\<close>): memtables, index, flush in interleavable stages, recovery, compaction. Runs
    of writes, deletes and flush stages refine a finite map; iteration and counting say what the map holds; compaction keeps the map. The
    conditions of these refinements are necessary: runs where a deleted key returns, a count keeps it, or a
    crash during a compaction loses the store are theorems.

  \<^bold>\<open>The first-party engine.\<close>
  \<^item> \<open>SsFraming\<close>, \<open>SsTunnel\<close> (\<open>engine/freecore/shadowsocks\<close>): nonces, chunk reader and writer, key derivation, addresses, both handshakes. What
    was written is read back, whatever the buffer sizes; client and server agree on the target; nonces never repeat.
  \<^item> \<open>Socks5\<close> (\<open>engine/socks5/socks5.go\<close>, \<open>engine/freecore/inbound_socks5.go\<close>): client and inbound agree on the target and leave the data untouched.
  \<^item> \<open>Router\<close> (\<open>engine/freecore/router.go\<close>, \<open>route.go\<close>, \<open>outbound.go\<close>): the decision for every destination, and which dialer and address a flow uses.
  \<^item> \<open>EngineLife\<close> (\<open>engine/freecore/engine.go\<close>, \<open>session.go\<close>): the goroutines of one run and \<open>Stop\<close> interleaved: after \<open>Stop\<close> returned nothing is
    served, no goroutine is left and the registry is empty.

  \<^bold>\<open>Connecting.\<close>
  \<^item> \<open>CoreSelect\<close> (\<open>engine/core/capability.go\<close>, \<open>registry.go\<close>, \<open>selection.go\<close>, \<open>gencache.go\<close>): the verdict of the selection, its independence of the
    order of registration, and the cache of generated documents.
  \<^item> \<open>ConnVerify\<close> (\<open>engine/connection/verify.go\<close>): targets, quorum, retries and the failure class of the verification.
  \<^item> \<open>ConnManager\<close>, \<open>ConnSession\<close>, \<open>ConnRun\<close>, \<open>ConnTrace\<close> (\<open>engine/connection/connection.go\<close>): the sections under the lock; the operations run alone, with
    the verdict of \<open>Connect\<close>; the goroutines interleaved, with the invariant that no core process is lost while
    calls do not overlap; and the runs of overlapping calls in which one is.
  \<^item> \<open>StatePub\<close>, \<open>ConnPublish\<close>, \<open>UiEmitter\<close> (\<open>internal/statepub\<close>, \<open>engine/connection/publish.go\<close>, the pipeline of \<open>cmd/freeiran/main.go\<close>): the publisher, its
    use by the manager, and the emitter behind it. Listeners get an ordered part of what was published that ends with the newest. The two
    bounded queues share a locale of queues that keep the newest entry.

  \<^bold>\<open>Around the engine.\<close>
  \<^item> \<open>Scheduler\<close> (\<open>engine/scheduler/scheduler.go\<close>): cycles never overlap; two runs in which \<open>Stop\<close> does not do what it says.
  \<^item> \<open>TunnelProxy\<close> (\<open>engine/tunnel/tunnel.go\<close>, \<open>proxy_windows.go\<close>, \<open>recovery.go\<close>): a crash at any point of a session leaves a machine whose
    recovery restores the state from before it, for any behaviour of WinINet and of the file system.
  \<^item> \<open>Httpx\<close> (\<open>internal/httpx/policy.go\<close>, \<open>ssrf.go\<close>): bounded retries, and every connection of the guarded client goes to a public address.
  \<^item> \<open>SafeArchive\<close> (\<open>internal/safearchive/safearchive.go\<close>): extracted files are below the destination and within the limits; names are safe.
  \<^item> \<open>Singleflight\<close> (\<open>internal/singleflight/singleflight.go\<close>): one execution of a key at a time, shared by its callers.

  \<^bold>\<open>Bounds.\<close> No operation runs on fuel: loops are structural recursions, recursions with a termination proof, or steps of a machine with a
  measure. Concrete limits are those of the code: 255 bytes of a host name, 2^96 nonces, 0x3FFF bytes of a chunk,
  sequence numbers of chunk files below 2^32, 32 pending snapshots of the emitter.

  \<^bold>\<open>Not modelled.\<close> Parsing of share links and subscription documents, and generated documents for external cores (they rest on JSON, YAML and URL
  libraries whose behaviour would be most of the model); process launch, installation and update of cores; TUN devices, routes and
  the user-space network stack (operating system calls and a third-party stack); network diagnosis, latency
  probes, scores and adaptive concurrency (measurements and floating-point heuristics); fetching and discovery of
  subscriptions; application services and the user interface; logging and metrics; byte relays; connection racing; the handle cache of the store. Time stamps, texts of
  errors and statistics are left out where no decision depends on them.
\<close>

end
